(* ===== verification/Prelude.thy ===== *)
theory Prelude
  imports Complex_Main "HOL-Library.Word"
begin

text \<open>
  Shared vocabulary of the development: the machine integer types of the C code, the
  collections of facts the component theories extend, and the generic lemmas on words and
  lists that carry their proofs.  \<open>size_t\<close> and \<open>uint64_t\<close> are 64-bit words,
  \<open>uint32_t\<close> and \<open>unsigned\<close> are 32-bit words; array lengths and loop counters that are
  bounded by an allocated array are naturals.
\<close>

unbundle bit_operations_syntax

type_synonym u8 = "8 word"
type_synonym u32 = "32 word"
type_synonym u64 = "64 word"

text \<open>A C string is the list of its characters before the terminating NUL; a \<open>char *\<close>
  that may be \<open>NULL\<close> is an optional string.\<close>

type_synonym cstring = "string option"

abbreviation UINT64_MAX :: u64 where
  "UINT64_MAX \<equiv> 0xFFFFFFFFFFFFFFFF"

abbreviation (input) EXIT_SUCCESS :: int where "EXIT_SUCCESS \<equiv> 0"
abbreviation (input) EXIT_FAILURE :: int where "EXIT_FAILURE \<equiv> 1"

named_theorems u64_nat \<open>facts that move a statement on 64-bit words to naturals\<close>
named_theorems op_defs \<open>unfolding rules of the loop-free operations\<close>
named_theorems inv_intros \<open>preservation of a component's invariant by its operations\<close>

subsection \<open>Words seen as naturals\<close>

lemmas u64_order [u64_nat] = word_less_nat_alt word_le_nat_alt

lemma u64_bound: "unat (x :: u64) < 18446744073709551616"
  using unsigned_less [of x] by simp

lemma u64_le_max: "unat (x :: u64) \<le> 18446744073709551615"
  using u64_bound [of x] by simp

lemma unat_UINT64_MAX [simp]: "unat UINT64_MAX = 18446744073709551615"
  by simp

lemma unat_add_small:
  "unat (x :: u64) + unat y < 18446744073709551616 \<Longrightarrow> unat (x + y) = unat x + unat y"
  by (simp add: unat_word_ariths)

lemma unat_inc: "unat (x :: u64) + 1 < 18446744073709551616 \<Longrightarrow> unat (x + 1) = unat x + 1"
  using unat_add_small [of x 1] by simp

lemma unat_dec: "0 < unat (x :: u64) \<Longrightarrow> unat (x - 1) = unat x - 1"
  by (metis One_nat_def Suc_leI unat_1 unat_sub word_le_nat_alt)

lemma u64_pred: "x \<noteq> (0 :: u64) \<Longrightarrow> \<exists>k. unat x = Suc k \<and> unat (x - 1) = k"
  using unat_dec [of x] by (cases "unat x") (auto simp: unat_eq_0)

lemma unat_sub_le: "unat (y :: u64) \<le> unat x \<Longrightarrow> unat (x - y) = unat x - unat y"
  by (simp add: unat_sub word_le_nat_alt)

lemma unat_mult_small:
  "unat (x :: u64) * unat y < 18446744073709551616 \<Longrightarrow> unat (x * y) = unat x * unat y"
  by (simp add: unat_word_ariths)

lemma unat_pos_iff: "0 < unat (x :: u64) \<longleftrightarrow> x \<noteq> 0"
  by (simp add: unat_gt_0)

lemma u64_gt_0_iff [u64_nat]: "0 < (x :: u64) \<longleftrightarrow> 0 < unat x"
  by (simp add: word_less_nat_alt)

lemma unat_of_nat_small: "n < 18446744073709551616 \<Longrightarrow> unat (of_nat n :: u64) = n"
  by (simp add: unat_of_nat take_bit_nat_eq_self)

lemma unat_eq_iff [u64_nat]: "(x :: u64) = y \<longleftrightarrow> unat x = unat y"
  by (rule word_unat_eq_iff)

text \<open>A counting loop \<open>for (i = a; i < n; i++)\<close> on words terminates and does not wrap.\<close>

lemma u64_Suc_less: "(i :: u64) < n \<Longrightarrow> unat (i + 1) = Suc (unat i)"
  using unat_inc [of i] u64_bound [of n] by (simp add: word_less_nat_alt)

lemma u64_loop_decr: "(i :: u64) < n \<Longrightarrow> unat n - unat (i + 1) < unat n - unat i"
  by (simp add: u64_Suc_less word_less_nat_alt)

lemma u64_div: "unat ((x :: u64) div y) = unat x div unat y"
  by (rule unat_div)

subsection \<open>Lists\<close>

lemma sorted_wrt_hd: "sorted_wrt R (x # xs) \<Longrightarrow> y \<in> set xs \<Longrightarrow> R x y"
  by simp

lemma length_filter_mono:
  "(\<And>x. x \<in> set xs \<Longrightarrow> P x \<Longrightarrow> Q x) \<Longrightarrow> length (filter P xs) \<le> length (filter Q xs)"
  by (induction xs) (auto intro: le_SucI)

lemma rev_dropWhile_id: "xs = [] \<or> \<not> P (last xs) \<Longrightarrow> rev (dropWhile P (rev xs)) = xs"
  by (cases xs rule: rev_cases) auto

end
