(* ===== verification/State_Ranges.thy ===== *)
theory State_Ranges
  imports Prelude
begin

text \<open>
  The download state of \<^verbatim>\<open>src/src/include/download_state.h\<close> and the byte-range engine of
  \<^verbatim>\<open>src/src/download_state.c\<close>: which bytes of the temporary file are durably written.  The
  ranges array is a list (its length is \<open>done_range_count\<close>), kept sorted, disjoint and
  non-adjacent; the lemmas relate every operation to the set of byte positions the array
  stands for.
\<close>

subsection \<open>Data\<close>

record ByteRange =
  br_start :: u64
  br_end :: u64

record DownloadState =
  ds_id :: cstring
  ds_url :: cstring
  ds_filename :: cstring
  ds_filename_inferred :: bool
  ds_temp_path :: cstring
  ds_dest_path :: cstring
  ds_status :: cstring
  ds_proxy :: cstring
  ds_queued_at :: cstring
  ds_last_try_at :: cstring
  ds_description :: cstring
  ds_original_page :: cstring
  ds_referer :: cstring
  ds_stream_kind :: cstring
  ds_ts_segments :: "string list"
  ds_added_through :: cstring
  ds_queue_id :: cstring
  ds_etag :: cstring
  ds_last_modified :: cstring
  ds_total_size :: u64
  ds_bytes_downloaded :: u64
  ds_chunk_size :: u64
  ds_done_ranges :: "ByteRange list"
  ds_done_range_capacity :: nat

definition DL_CHUNK_SIZE :: u64 where
  "DL_CHUNK_SIZE = 256 * 1024"

definition calloc_state :: DownloadState where
  "calloc_state = \<lparr>ds_id = None, ds_url = None, ds_filename = None, ds_filename_inferred = False,
     ds_temp_path = None, ds_dest_path = None, ds_status = None, ds_proxy = None,
     ds_queued_at = None, ds_last_try_at = None, ds_description = None,
     ds_original_page = None, ds_referer = None, ds_stream_kind = None, ds_ts_segments = [],
     ds_added_through = None, ds_queue_id = None, ds_etag = None, ds_last_modified = None,
     ds_total_size = 0, ds_bytes_downloaded = 0, ds_chunk_size = 0, ds_done_ranges = [],
     ds_done_range_capacity = 0\<rparr>"

definition download_state_create ::
  "cstring \<Rightarrow> cstring \<Rightarrow> cstring \<Rightarrow> cstring \<Rightarrow> u64 \<Rightarrow> u64 \<Rightarrow> DownloadState" where
  "download_state_create url filename temp_path dest_path total_size chunk_size =
     calloc_state\<lparr>ds_url := url, ds_filename := filename, ds_filename_inferred := True,
       ds_temp_path := temp_path, ds_dest_path := dest_path,
       ds_added_through := Some ''direct'', ds_total_size := total_size,
       ds_chunk_size := (if chunk_size > 0 then chunk_size else DL_CHUNK_SIZE)\<rparr>"

subsection \<open>The range operations\<close>

text \<open>\<open>ensure_range_capacity\<close>: the doubling loop, then \<open>realloc\<close>, whose success for a
  requested number of elements is the argument \<open>realloc_ok\<close>.\<close>

function grow_capacity :: "nat \<Rightarrow> nat \<Rightarrow> nat" where
  "grow_capacity new_cap needed =
     (if new_cap < needed \<and> 0 < new_cap then grow_capacity (new_cap * 2) needed else new_cap)"
  by pat_completeness auto
termination
  by (relation "measure (\<lambda>(new_cap, needed). needed - new_cap)") auto

declare grow_capacity.simps [simp del]

definition ensure_range_capacity ::
  "(nat \<Rightarrow> bool) \<Rightarrow> DownloadState \<Rightarrow> nat \<Rightarrow> int \<times> DownloadState" where
  "ensure_range_capacity realloc_ok st needed =
     (if needed \<le> ds_done_range_capacity st then (0, st)
      else let new_cap = grow_capacity
                 (if ds_done_range_capacity st = 0 then 4 else ds_done_range_capacity st * 2) needed
           in if realloc_ok new_cap then (0, st\<lparr>ds_done_range_capacity := new_cap\<rparr>)
              else (-1, st))"

fun coalesce_from :: "ByteRange \<Rightarrow> ByteRange list \<Rightarrow> ByteRange list" where
  "coalesce_from current [] = [current]"
| "coalesce_from current (nxt # rest) =
     (if br_start nxt \<le> br_end current + 1
      then coalesce_from
             (if br_end nxt > br_end current then current\<lparr>br_end := br_end nxt\<rparr> else current) rest
      else current # coalesce_from nxt rest)"

definition coalesce_done_ranges :: "DownloadState \<Rightarrow> DownloadState" where
  "coalesce_done_ranges st =
     (case ds_done_ranges st of
        [] \<Rightarrow> st
      | r # rs \<Rightarrow> st\<lparr>ds_done_ranges := coalesce_from r rs\<rparr>)"

fun clip_loop :: "u64 \<Rightarrow> ByteRange list \<Rightarrow> ByteRange list" where
  "clip_loop tot [] = []"
| "clip_loop tot (r # rs) =
     (if tot > 0 \<and> br_start r \<ge> tot then clip_loop tot rs
      else let rng = (if tot > 0 \<and> br_end r > tot - 1
                        then r\<lparr>br_end := tot - 1\<rparr> else r)
           in if br_start rng > br_end rng then clip_loop tot rs
              else rng # clip_loop tot rs)"

definition clip_done_ranges :: "DownloadState \<Rightarrow> DownloadState" where
  "clip_done_ranges st =
     (if ds_done_ranges st = [] then st
      else coalesce_done_ranges
             (st\<lparr>ds_done_ranges := clip_loop (ds_total_size st) (ds_done_ranges st)\<rparr>))"

fun insert_position :: "ByteRange list \<Rightarrow> ByteRange \<Rightarrow> nat" where
  "insert_position [] rng = 0"
| "insert_position (r # rs) rng =
     (if br_start r < br_start rng then Suc (insert_position rs rng) else 0)"

definition insert_sorted_range ::
  "(nat \<Rightarrow> bool) \<Rightarrow> DownloadState \<Rightarrow> ByteRange \<Rightarrow> int \<times> DownloadState" where
  "insert_sorted_range realloc_ok st rng =
     (let (rc, st) = ensure_range_capacity realloc_ok st (length (ds_done_ranges st) + 1)
      in if rc \<noteq> 0 then (-1, st)
         else let rs = ds_done_ranges st; pos = insert_position rs rng
              in (0, st\<lparr>ds_done_ranges := take pos rs @ rng # drop pos rs\<rparr>))"

fun range_done_in :: "ByteRange list \<Rightarrow> u64 \<Rightarrow> u64 \<Rightarrow> bool" where
  "range_done_in [] start end = False"
| "range_done_in (r # rs) start end =
     (if br_end r < start then range_done_in rs start end
      else if br_start r > start then False
      else if br_end r \<ge> end then True
      else range_done_in rs start end)"

definition download_state_is_range_done :: "DownloadState \<Rightarrow> u64 \<Rightarrow> u64 \<Rightarrow> bool" where
  "download_state_is_range_done st start end =
     (if start > end then False else range_done_in (ds_done_ranges st) start end)"

text \<open>The two scanning loops of \<open>download_state_mark_range_done\<close>: \<open>merge_lo\<close> counts the
  ranges that end before the new one, \<open>merge_loop\<close> swallows those that touch it.\<close>

fun merge_lo :: "ByteRange list \<Rightarrow> u64 \<Rightarrow> nat" where
  "merge_lo [] start = 0"
| "merge_lo (r # rs) start = (if br_end r + 1 < start then Suc (merge_lo rs start) else 0)"

fun merge_loop :: "ByteRange list \<Rightarrow> u64 \<Rightarrow> u64 \<Rightarrow> nat \<Rightarrow> u64 \<times> u64 \<times> nat" where
  "merge_loop [] merge_start merge_end hi = (merge_start, merge_end, hi)"
| "merge_loop (r # rs) merge_start merge_end hi =
     (if br_start r \<le> merge_end + 1
      then merge_loop rs
             (if br_start r < merge_start then br_start r else merge_start)
             (if br_end r > merge_end then br_end r else merge_end) (Suc hi)
      else (merge_start, merge_end, hi))"

definition download_state_mark_range_done ::
  "(nat \<Rightarrow> bool) \<Rightarrow> DownloadState \<Rightarrow> u64 \<Rightarrow> u64 \<Rightarrow> int \<times> DownloadState" where
  "download_state_mark_range_done realloc_ok st start end =
     (if start > end then (-1, st)
      else if ds_total_size st > 0 \<and> start \<ge> ds_total_size st then (0, st)
      else let end' = (if ds_total_size st > 0 \<and> end \<ge> ds_total_size st
                       then ds_total_size st - 1 else end) in
        if download_state_is_range_done st start end' then (0, st)
        else let rs = ds_done_ranges st;
                 lo = merge_lo rs start;
                 (merge_start, merge_end, hi) = merge_loop (drop lo rs) start end' lo;
                 merged = \<lparr>br_start = merge_start, br_end = merge_end\<rparr>
             in if hi > lo
                then (0, st\<lparr>ds_done_ranges := take lo rs @ merged # drop hi rs\<rparr>)
                else insert_sorted_range realloc_ok st merged)"

definition effective_chunk_size :: "DownloadState \<Rightarrow> u64" where
  "effective_chunk_size st = (if ds_chunk_size st > 0 then ds_chunk_size st else DL_CHUNK_SIZE)"

definition download_state_segment_count :: "DownloadState \<Rightarrow> u64" where
  "download_state_segment_count st =
     (if ds_total_size st = 0 then 0
      else (ds_total_size st + effective_chunk_size st - 1) div effective_chunk_size st)"

definition download_state_is_segment_done :: "DownloadState \<Rightarrow> u64 \<Rightarrow> bool" where
  "download_state_is_segment_done st segment_index =
     (if ds_total_size st = 0 then False
      else let start = segment_index * effective_chunk_size st;
               end = start + effective_chunk_size st - 1;
               end = (if end \<ge> ds_total_size st then ds_total_size st - 1 else end)
           in download_state_is_range_done st start end)"

definition download_state_init_chunks ::
  "DownloadState \<Rightarrow> u64 \<Rightarrow> u64 \<Rightarrow> int \<times> DownloadState" where
  "download_state_init_chunks st total_size chunk_size =
     (if total_size = 0 then (-1, st)
      else (0, clip_done_ranges
                 (st\<lparr>ds_total_size := total_size,
                     ds_chunk_size := (if chunk_size > 0 then chunk_size else DL_CHUNK_SIZE)\<rparr>)))"

fun sum_ranges :: "ByteRange list \<Rightarrow> u64 \<Rightarrow> u64" where
  "sum_ranges [] bytes = bytes"
| "sum_ranges (r # rs) bytes = sum_ranges rs (bytes + (br_end r - br_start r + 1))"

definition download_state_bytes_done :: "DownloadState \<Rightarrow> u64" where
  "download_state_bytes_done st =
     (if ds_done_ranges st = [] then ds_bytes_downloaded st else sum_ranges (ds_done_ranges st) 0)"

definition download_state_all_chunks_done :: "DownloadState \<Rightarrow> bool" where
  "download_state_all_chunks_done st =
     (if ds_total_size st = 0 then False
      else download_state_is_range_done st 0 (ds_total_size st - 1))"

subsection \<open>The set of byte positions\<close>

abbreviation lo_of :: "ByteRange \<Rightarrow> nat" where "lo_of r \<equiv> unat (br_start r)"
abbreviation hi_of :: "ByteRange \<Rightarrow> nat" where "hi_of r \<equiv> unat (br_end r)"

definition range_bytes :: "ByteRange \<Rightarrow> nat set" where
  "range_bytes r = {lo_of r..hi_of r}"

definition covered :: "ByteRange list \<Rightarrow> nat set" where
  "covered rs = (\<Union>r\<in>set rs. range_bytes r)"

text \<open>The array invariant: every range is non-empty and ends below \<open>UINT64_MAX\<close>, and there is
  a gap of at least one byte between a range and every later one.\<close>

definition range_ok :: "ByteRange \<Rightarrow> bool" where
  "range_ok r \<longleftrightarrow> lo_of r \<le> hi_of r \<and> hi_of r < 18446744073709551615"

definition before :: "ByteRange \<Rightarrow> ByteRange \<Rightarrow> bool" where
  "before a b \<longleftrightarrow> hi_of a + 1 < lo_of b"

definition ranges_wf :: "ByteRange list \<Rightarrow> bool" where
  "ranges_wf rs \<longleftrightarrow> (\<forall>r\<in>set rs. range_ok r) \<and> sorted_wrt before rs"

definition state_wf :: "DownloadState \<Rightarrow> bool" where
  "state_wf st \<longleftrightarrow> ranges_wf (ds_done_ranges st)
     \<and> (ds_total_size st \<noteq> 0 \<longrightarrow> covered (ds_done_ranges st) \<subseteq> {..<unat (ds_total_size st)})
     \<and> length (ds_done_ranges st) \<le> ds_done_range_capacity st"

lemma ranges_wf_Nil [simp]: "ranges_wf []"
  by (simp add: ranges_wf_def)

lemma ranges_wf_Cons:
  "ranges_wf (r # rs) \<longleftrightarrow> range_ok r \<and> (\<forall>x\<in>set rs. before r x) \<and> ranges_wf rs"
  by (auto simp: ranges_wf_def)

lemma ranges_wf_append:
  "ranges_wf (xs @ ys) \<longleftrightarrow>
     ranges_wf xs \<and> ranges_wf ys \<and> (\<forall>x\<in>set xs. \<forall>y\<in>set ys. before x y)"
  by (auto simp: ranges_wf_def sorted_wrt_append)

lemma covered_Nil [simp]: "covered [] = {}"
  by (simp add: covered_def)

lemma covered_Cons [simp]: "covered (r # rs) = range_bytes r \<union> covered rs"
  by (auto simp: covered_def)

lemma covered_append [simp]: "covered (xs @ ys) = covered xs \<union> covered ys"
  by (auto simp: covered_def)

lemma mem_covered: "n \<in> covered rs \<longleftrightarrow> (\<exists>r\<in>set rs. lo_of r \<le> n \<and> n \<le> hi_of r)"
  by (auto simp: covered_def range_bytes_def)

lemma range_ok_end_inc [simp]: "range_ok r \<Longrightarrow> unat (br_end r + 1) = Suc (hi_of r)"
  using unat_inc [of "br_end r"] by (simp add: range_ok_def)

lemma before_trans: "before a b \<Longrightarrow> range_ok b \<Longrightarrow> before b c \<Longrightarrow> before a c"
  by (auto simp: before_def range_ok_def)

lemma ranges_wf_two:
  "range_ok r \<Longrightarrow> before r x \<Longrightarrow> ranges_wf (x # rs) \<Longrightarrow> ranges_wf (r # x # rs)"
  by (auto simp: ranges_wf_Cons intro: before_trans)

lemma ranges_wf_inner_gap: "ranges_wf (r # rs) \<Longrightarrow> hi_of r + 1 \<notin> covered rs"
  by (fastforce simp: ranges_wf_Cons mem_covered before_def)

lemma covered_bound: "ranges_wf rs \<Longrightarrow> covered rs \<subseteq> {..<18446744073709551615}"
  by (force simp: ranges_wf_def range_ok_def mem_covered)

subsection \<open>Looking a range up\<close>

lemma range_done_in_iff:
  assumes "ranges_wf rs" and "unat start \<le> unat end"
  shows "range_done_in rs start end \<longleftrightarrow> {unat start..unat end} \<subseteq> covered rs"
  using assms(1)
proof (induction rs)
  case Nil
  then show ?case using assms(2) by auto
next
  case (Cons r rs)
  then have ok: "range_ok r" and later: "\<forall>x\<in>set rs. before r x" and wf: "ranges_wf rs"
    by (auto simp: ranges_wf_Cons)
  have above: "n \<in> covered rs \<Longrightarrow> hi_of r + 1 < n" for n
    using later by (force simp: mem_covered before_def)
  consider (past) "hi_of r < unat start" | (gap) "unat start < lo_of r"
    | (inside) "lo_of r \<le> unat start" "unat start \<le> hi_of r" "unat end \<le> hi_of r"
    | (short) "lo_of r \<le> unat start" "unat start \<le> hi_of r" "hi_of r < unat end"
    by linarith
  then show ?case
  proof cases
    case past
    then have "{unat start..unat end} \<inter> range_bytes r = {}" by (auto simp: range_bytes_def)
    then show ?thesis using past Cons.IH wf by (auto simp: u64_order)
  next
    case gap
    have "unat start \<notin> range_bytes r \<union> covered rs"
      using gap ok above [of "unat start"] by (auto simp: range_bytes_def range_ok_def)
    then show ?thesis using gap assms(2) ok
      by (auto simp: u64_order range_ok_def subset_iff)
  next
    case inside
    then show ?thesis using ok by (auto simp: u64_order range_bytes_def)
  next
    case short
    have "hi_of r + 1 \<notin> range_bytes r \<union> covered rs"
      using ranges_wf_inner_gap [OF Cons.prems] by (auto simp: range_bytes_def)
    moreover have "hi_of r + 1 \<in> {unat start..unat end}" using short by simp
    moreover have "\<not> {unat start..unat end} \<subseteq> covered rs"
      using short assms(2) above [of "unat start"] by force
    ultimately have "\<not> {unat start..unat end} \<subseteq> range_bytes r \<union> covered rs"
      and "\<not> range_done_in rs start end"
      using Cons.IH [OF wf] by blast+
    then show ?thesis using short by (simp add: u64_order)
  qed
qed

lemma is_range_done_iff:
  assumes "ranges_wf (ds_done_ranges st)" and "start \<le> end"
  shows "download_state_is_range_done st start end
    \<longleftrightarrow> {unat start..unat end} \<subseteq> covered (ds_done_ranges st)"
  using range_done_in_iff [OF assms(1)] assms(2)
  by (simp add: download_state_is_range_done_def u64_order)

subsection \<open>Clipping and coalescing\<close>

lemma coalesce_from_eq:
  "ranges_wf (r # rs) \<Longrightarrow> coalesce_from r rs = r # rs"
proof (induction r rs rule: coalesce_from.induct)
  case (1 current)
  then show ?case by simp
next
  case (2 current nxt rest)
  then have "unat (br_end current + 1) = Suc (hi_of current)" and "before current nxt"
    by (auto simp: ranges_wf_Cons)
  then have "\<not> br_start nxt \<le> br_end current + 1" by (simp add: u64_order before_def)
  with 2 show ?case by (simp add: ranges_wf_Cons)
qed

text \<open>Coalescing a list that is only sorted by its start positions.\<close>

lemma coalesce_from_hd:
  "br_start (hd (coalesce_from r rs)) = br_start r \<and> coalesce_from r rs \<noteq> []"
  by (induction r rs rule: coalesce_from.induct) auto

lemma range_bytes_join:
  "lo_of a \<le> lo_of b \<Longrightarrow> lo_of b \<le> hi_of a + 1 \<Longrightarrow> lo_of a \<le> hi_of a \<Longrightarrow> lo_of b \<le> hi_of b \<Longrightarrow>
   range_bytes (if br_end b > br_end a then a\<lparr>br_end := br_end b\<rparr> else a)
     = range_bytes a \<union> range_bytes b"
  by (auto simp: range_bytes_def u64_order)

lemma coalesce_from_wf:
  assumes "\<forall>x\<in>set (r # rs). range_ok x" and "sorted_wrt (\<lambda>a b. lo_of a \<le> lo_of b) (r # rs)"
  shows "ranges_wf (coalesce_from r rs) \<and> covered (coalesce_from r rs) = covered (r # rs)"
  using assms
proof (induction r rs rule: coalesce_from.induct)
  case (1 current)
  then show ?case by (simp add: ranges_wf_Cons)
next
  case (2 current nxt rest)
  then have inc: "unat (br_end current + 1) = Suc (hi_of current)"
    by auto
  show ?case
  proof (cases "br_start nxt \<le> br_end current + 1")
    case True
    let ?m = "if br_end nxt > br_end current then current\<lparr>br_end := br_end nxt\<rparr> else current"
    have "lo_of ?m = lo_of current" by simp
    moreover have "range_ok ?m" using 2(3,4) by (auto simp: range_ok_def u64_order)
    moreover have "range_bytes ?m = range_bytes current \<union> range_bytes nxt"
      using True inc 2(3,4) by (intro range_bytes_join) (auto simp: range_ok_def u64_order)
    ultimately show ?thesis using "2.IH"(1) [OF True] True 2(3,4) by auto
  next
    case False
    then have gap: "before current nxt" using inc by (simp add: before_def u64_order)
    from "2.IH"(2) [OF False] 2(3,4)
    have IH: "ranges_wf (coalesce_from nxt rest)"
        "covered (coalesce_from nxt rest) = covered (nxt # rest)" by auto
    obtain y ys where ys: "coalesce_from nxt rest = y # ys" and "br_start y = br_start nxt"
      using coalesce_from_hd [of nxt rest] by (cases "coalesce_from nxt rest") auto
    with IH(1) gap have "ranges_wf (current # y # ys)"
      using 2(3) by (intro ranges_wf_two) (auto simp: before_def)
    with False ys IH(2) show ?thesis by simp
  qed
qed

lemma clip_loop_starts: "x \<in> set (clip_loop tot rs) \<Longrightarrow> \<exists>y\<in>set rs. br_start x = br_start y"
  by (induction tot rs rule: clip_loop.induct) (auto simp: Let_def split: if_splits)

lemma clip_range:
  assumes "range_ok r" and "\<not> (tot > 0 \<and> br_start r \<ge> tot)"
    and "rng = (if tot > 0 \<and> br_end r > tot - 1 then r\<lparr>br_end := tot - 1\<rparr> else r)"
  shows "range_ok rng" and "br_start rng = br_start r" and "hi_of rng \<le> hi_of r"
    and "range_bytes rng = (if tot = 0 then range_bytes r else range_bytes r \<inter> {..<unat tot})"
proof -
  have tot: "tot > 0 \<Longrightarrow> unat (tot - 1) = unat tot - 1 \<and> unat tot > 0"
    by (simp add: unat_dec u64_gt_0_iff)
  show "br_start rng = br_start r" using assms(3) by simp
  show "range_ok rng" and "hi_of rng \<le> hi_of r"
    and "range_bytes rng = (if tot = 0 then range_bytes r else range_bytes r \<inter> {..<unat tot})"
    using assms tot by (auto simp: range_ok_def u64_order range_bytes_def word_neq_0_conv)
qed

lemma clip_loop_wf:
  assumes "ranges_wf rs"
  shows "ranges_wf (clip_loop tot rs) \<and>
    covered (clip_loop tot rs) = (if tot = 0 then covered rs else covered rs \<inter> {..<unat tot})"
  using assms
proof (induction rs)
  case Nil
  then show ?case by simp
next
  case (Cons r rs)
  then have ok: "range_ok r" and later: "\<forall>x\<in>set rs. before r x" and wf: "ranges_wf rs"
    by (auto simp: ranges_wf_Cons)
  show ?case
  proof (cases "tot > 0 \<and> br_start r \<ge> tot")
    case True
    then have "range_bytes r \<inter> {..<unat tot} = {}" by (auto simp: range_bytes_def u64_order)
    then show ?thesis using True Cons.IH [OF wf] by auto
  next
    case False
    define rng where "rng = (if tot > 0 \<and> br_end r > tot - 1 then r\<lparr>br_end := tot - 1\<rparr> else r)"
    note c = clip_range [OF ok False rng_def]
    have "clip_loop tot (r # rs) = rng # clip_loop tot rs"
      using False c(1) by (auto simp: rng_def Let_def range_ok_def u64_order)
    moreover have "\<forall>x\<in>set (clip_loop tot rs). before rng x"
      using later c(3) clip_loop_starts by (fastforce simp: before_def)
    ultimately show ?thesis using c(1,4) Cons.IH [OF wf] by (auto simp: ranges_wf_Cons)
  qed
qed

lemma coalesce_done_ranges_wf [simp]:
  "ranges_wf (ds_done_ranges st) \<Longrightarrow> coalesce_done_ranges st = st"
  by (cases "ds_done_ranges st")
    (simp_all add: coalesce_done_ranges_def coalesce_from_eq)

lemma clip_loop_length: "length (clip_loop tot rs) \<le> length rs"
  by (induction rs) (auto simp: Let_def intro: le_SucI)

lemma clip_done_ranges_wf:
  assumes "ranges_wf (ds_done_ranges st)"
  shows "clip_done_ranges st
    = st\<lparr>ds_done_ranges := clip_loop (ds_total_size st) (ds_done_ranges st)\<rparr>"
  using assms clip_loop_wf [OF assms]
  by (auto simp: clip_done_ranges_def intro!: coalesce_done_ranges_wf)

subsection \<open>Marking a range\<close>

lemma grow_capacity_ge: "0 < c \<Longrightarrow> n \<le> grow_capacity c n \<and> c \<le> grow_capacity c n"
proof (induction c n rule: grow_capacity.induct)
  case (1 c n)
  show ?case
    using 1 by (cases "c < n") (auto simp: grow_capacity.simps [of c n])
qed

lemma ensure_range_capacity_ok:
  "ensure_range_capacity ok st n = (0, st') \<Longrightarrow>
   \<exists>c. st' = st\<lparr>ds_done_range_capacity := c\<rparr> \<and> n \<le> c"
  using grow_capacity_ge [of 4 n] grow_capacity_ge [of "ds_done_range_capacity st * 2" n]
  by (intro exI [where x = "ds_done_range_capacity st'"]) (auto simp: ensure_range_capacity_def Let_def split: if_splits)

lemma ensure_range_capacity_fail:
  "ensure_range_capacity ok st n = (rc, st') \<Longrightarrow> rc \<noteq> 0 \<Longrightarrow> rc = -1 \<and> st' = st"
  by (auto simp: ensure_range_capacity_def Let_def split: if_splits)

lemma merge_lo_split:
  assumes "ranges_wf rs"
  shows "merge_lo rs start \<le> length rs
    \<and> (\<forall>r\<in>set (take (merge_lo rs start) rs). hi_of r + 1 < unat start)
    \<and> (\<forall>r\<in>set (drop (merge_lo rs start) rs). unat start \<le> hi_of r + 1)"
  using assms
proof (induction rs)
  case Nil
  then show ?case by simp
next
  case (Cons r rs)
  then have ok: "range_ok r" and later: "\<forall>x\<in>set rs. before r x" and wf: "ranges_wf rs"
    by (auto simp: ranges_wf_Cons)
  show ?case
  proof (cases "br_end r + 1 < start")
    case True
    then show ?thesis using Cons.IH [OF wf] ok by (auto simp: u64_order)
  next
    case False
    have "hi_of r < hi_of x" if "x \<in> set rs" for x
      using later wf that by (fastforce simp: before_def ranges_wf_def range_ok_def)
    then show ?thesis using False ok by (fastforce simp: u64_order)
  qed
qed

text \<open>The swallowing loop: the merged range stands for the new bytes and the swallowed ranges,
  and what is left over begins after a gap.\<close>

lemma merge_loop_spec:
  assumes "merge_loop rs ms me hi = (ms', me', hi')"
    and "ranges_wf rs" and "unat ms \<le> unat me" and "unat me < 18446744073709551615"
    and "\<forall>r\<in>set rs. unat ms \<le> hi_of r + 1"
  shows "hi \<le> hi' \<and> hi' - hi \<le> length rs
    \<and> unat ms' \<le> unat ms \<and> unat ms' \<le> unat me' \<and> unat me' < 18446744073709551615
    \<and> (\<forall>x\<in>set (drop (hi' - hi) rs). unat me' + 1 < lo_of x)
    \<and> {unat ms'..unat me'} = {unat ms..unat me} \<union> covered (take (hi' - hi) rs)
    \<and> (hi' = hi \<longrightarrow> ms' = ms \<and> me' = me)"
  using assms
proof (induction rs arbitrary: ms me hi)
  case Nil
  then show ?case by simp
next
  case (Cons r rs)
  then have ok: "range_ok r" and later: "\<forall>x\<in>set rs. before r x" and wf: "ranges_wf rs"
    by (auto simp: ranges_wf_Cons)
  have inc: "unat (me + 1) = unat me + 1" using Cons.prems(4) by (intro unat_inc) simp
  show ?case
  proof (cases "br_start r \<le> me + 1")
    case True
    define a b where "a = (if br_start r < ms then br_start r else ms)"
      and "b = (if br_end r > me then br_end r else me)"
    have a: "unat a = min (lo_of r) (unat ms)" and b: "unat b = max (hi_of r) (unat me)"
      by (auto simp: a_def b_def u64_order)
    have run: "merge_loop rs a b (Suc hi) = (ms', me', hi')"
      using Cons.prems(1) True by (simp add: a_def b_def)
    have later': "\<forall>x\<in>set rs. unat a \<le> hi_of x + 1"
      using Cons.prems(5) a by auto
    have ab: "unat a \<le> unat b" "unat b < 18446744073709551615"
      using Cons.prems(3,4) ok a b by (auto simp: range_ok_def)
    from Cons.IH [OF run wf ab later'] have IH:
      "Suc hi \<le> hi'" "hi' - Suc hi \<le> length rs" "unat ms' \<le> unat a" "unat ms' \<le> unat me'"
      "unat me' < 18446744073709551615"
      "\<forall>x\<in>set (drop (hi' - Suc hi) rs). unat me' + 1 < lo_of x"
      "{unat ms'..unat me'} = {unat a..unat b} \<union> covered (take (hi' - Suc hi) rs)" by auto
    have "{unat a..unat b} = {unat ms..unat me} \<union> range_bytes r"
      using True inc Cons.prems(3,5) ok a b
      by (auto simp: range_bytes_def u64_order range_ok_def)
    moreover have "hi' - hi = Suc (hi' - Suc hi)" using IH(1) by simp
    ultimately show ?thesis using IH a by auto
  next
    case False
    then have gap: "unat me + 1 < lo_of r" using inc by (simp add: u64_order)
    moreover have "lo_of r < lo_of x" if "x \<in> set rs" for x
      using later ok that by (auto simp: before_def range_ok_def)
    ultimately show ?thesis using False Cons.prems by fastforce
  qed
qed

text \<open>The list that both exits of \<open>mark_range_done\<close> store.\<close>

definition marked_list :: "ByteRange list \<Rightarrow> u64 \<Rightarrow> u64 \<Rightarrow> ByteRange list" where
  "marked_list rs start end =
     (let lo = merge_lo rs start; (ms, me, hi) = merge_loop (drop lo rs) start end lo
      in take lo rs @ \<lparr>br_start = ms, br_end = me\<rparr> # drop hi rs)"

lemma marked_list_wf:
  assumes wf: "ranges_wf rs" and se: "unat start \<le> unat end" "unat end < 18446744073709551615"
  shows "ranges_wf (marked_list rs start end) \<and>
    covered (marked_list rs start end) = covered rs \<union> {unat start..unat end}"
proof -
  define lo where "lo = merge_lo rs start"
  obtain ms me hi where loop: "merge_loop (drop lo rs) start end lo = (ms, me, hi)"
    by (cases "merge_loop (drop lo rs) start end lo") auto
  let ?m = "\<lparr>br_start = ms, br_end = me\<rparr>"
  have split: "rs = take lo rs @ drop lo rs" by simp
  have wf2: "ranges_wf (take lo rs)" "ranges_wf (drop lo rs)"
    and cross: "\<forall>x\<in>set (take lo rs). \<forall>y\<in>set (drop lo rs). before x y"
    using wf ranges_wf_append [of "take lo rs" "drop lo rs"] by auto
  note lo = merge_lo_split [OF wf, of start, folded lo_def]
  from merge_loop_spec [OF loop wf2(2) se] lo
  have hi: "lo \<le> hi" "unat ms \<le> unat start" "unat ms \<le> unat me"
    "unat me < 18446744073709551615"
    "\<forall>x\<in>set (drop (hi - lo) (drop lo rs)). unat me + 1 < lo_of x"
    "{unat ms..unat me} = {unat start..unat end} \<union> covered (take (hi - lo) (drop lo rs))" by auto
  have tail: "drop hi rs = drop (hi - lo) (drop lo rs)" using hi(1) by simp
  have eq: "marked_list rs start end = take lo rs @ ?m # drop hi rs"
    using loop by (simp add: marked_list_def lo_def [symmetric] Let_def)
  have "ranges_wf (take (hi - lo) (drop lo rs) @ drop (hi - lo) (drop lo rs))"
    using wf2(2) by (simp only: append_take_drop_id)
  then have wf3: "ranges_wf (drop hi rs)" unfolding tail ranges_wf_append by blast
  have left: "before x ?m" if x: "x \<in> set (take lo rs)" for x
  proof -
    have "hi_of x + 1 < n" if "n \<in> {unat ms..unat me}" for n
    proof -
      from that hi(6) consider "unat start \<le> n" | "n \<in> covered (drop lo rs)"
        by (force simp: mem_covered dest: in_set_takeD)
      then show ?thesis
        using lo x cross by cases (force, fastforce simp: mem_covered before_def)
    qed
    then show ?thesis using hi(3) by (simp add: before_def)
  qed
  have right: "before ?m y" if "y \<in> set (drop hi rs)" for y
    using that hi(5) by (simp add: tail before_def)
  have "before x y" if "x \<in> set (take lo rs)" "y \<in> set (drop hi rs)" for x y
    using that cross tail by (metis in_set_dropD)
  then have "ranges_wf (marked_list rs start end)"
    unfolding eq using wf2(1) wf3 left right hi(3,4)
    by (auto simp: ranges_wf_append ranges_wf_Cons range_ok_def)
  moreover have "covered rs = covered (take lo rs)
      \<union> (covered (take (hi - lo) (drop lo rs)) \<union> covered (drop hi rs))"
    unfolding tail covered_append [symmetric] by (simp only: append_take_drop_id)
  then have "covered (marked_list rs start end) = covered rs \<union> {unat start..unat end}"
    unfolding eq using hi(6) by (auto simp: range_bytes_def)
  ultimately show ?thesis by blast
qed

lemma merge_loop_hi_ge: "merge_loop rs ms me hi = (ms', me', hi') \<Longrightarrow> hi \<le> hi'"
  by (induction rs arbitrary: ms me hi) (fastforce split: if_splits)+

lemma merge_loop_stuck: "merge_loop rs ms me hi = (ms', me', hi) \<Longrightarrow> ms' = ms \<and> me' = me"
  using merge_loop_hi_ge by (cases rs) (fastforce split: if_splits)+

text \<open>When nothing is swallowed, the insertion point found by \<open>insert_sorted_range\<close> is the
  position where the first scan stopped.\<close>

lemma insert_position_append:
  "\<forall>r\<in>set xs. br_start r < br_start x \<Longrightarrow>
   \<forall>r\<in>set ys. \<not> br_start r < br_start x \<Longrightarrow> insert_position (xs @ ys) x = length xs"
  by (induction xs) (cases ys, auto)

lemma insert_position_marked:
  assumes wf: "ranges_wf rs" and se: "unat start \<le> unat end" "unat end < 18446744073709551615"
    and stuck: "merge_loop (drop lo rs) start end lo = (start, end, lo)" and lo: "lo = merge_lo rs start"
  shows "insert_position rs \<lparr>br_start = start, br_end = end\<rparr> = lo"
proof -
  have spl: "rs = take lo rs @ drop lo rs" by simp
  have wf2: "ranges_wf (take lo rs)" "ranges_wf (drop lo rs)"
    using wf ranges_wf_append [of "take lo rs" "drop lo rs"] by auto
  note l = merge_lo_split [OF wf, of start, folded lo]
  from merge_loop_spec [OF stuck wf2(2) se] l
  have "\<forall>x\<in>set (drop lo rs). unat end + 1 < lo_of x" by auto
  moreover have "\<forall>x\<in>set (take lo rs). lo_of x < unat start"
    using l wf2(1) by (fastforce simp: ranges_wf_def range_ok_def)
  ultimately have "insert_position (take lo rs @ drop lo rs) \<lparr>br_start = start, br_end = end\<rparr>
      = length (take lo rs)"
    using se by (intro insert_position_append) (auto simp: u64_order)
  then show ?thesis using l by simp
qed

text \<open>The bytes a call of \<open>mark_range_done\<close> may add: those of the request that lie inside a
  file of known size.\<close>

definition request_bytes :: "DownloadState \<Rightarrow> u64 \<Rightarrow> u64 \<Rightarrow> nat set" where
  "request_bytes st start end =
     {unat start..unat end} \<inter> (if ds_total_size st = 0 then UNIV else {..<unat (ds_total_size st)})"

lemma request_bytes_clip:
  assumes "ds_total_size st = 0 \<longrightarrow> end \<noteq> UINT64_MAX" and "start \<le> end"
    and "\<not> (ds_total_size st > 0 \<and> start \<ge> ds_total_size st)"
    and "e = (if ds_total_size st > 0 \<and> end \<ge> ds_total_size st then ds_total_size st - 1 else end)"
  shows "request_bytes st start end = {unat start..unat e}" and "unat start \<le> unat e"
    and "unat e < 18446744073709551615" and "start \<le> e"
    and "ds_total_size st \<noteq> 0 \<Longrightarrow> unat e < unat (ds_total_size st)"
proof -
  let ?t = "ds_total_size st"
  note t = u64_pred [of ?t]
  have m: "unat end < 18446744073709551615" if "?t = 0"
    using assms(1) that u64_le_max [of "end"] by (auto simp: word_unat_eq_iff nless_le)
  note b = u64_bound [of ?t]
  show a: "unat start \<le> unat e"
    using assms(2,3,4) t by (cases "?t = 0") (auto simp: u64_order)
  then show "start \<le> e" by (simp add: u64_order)
  show lt: "unat e < unat ?t" if "?t \<noteq> 0"
    using assms(4) t that by (auto simp: u64_order)
  show "unat e < 18446744073709551615"
    using lt b m assms(4) by (cases "?t = 0") auto
  show "request_bytes st start end = {unat start..unat e}"
    using assms(4) t by (cases "?t = 0") (auto simp: request_bytes_def u64_order word_gt_0)
qed

definition same_but_ranges :: "DownloadState \<Rightarrow> DownloadState \<Rightarrow> bool" where
  "same_but_ranges st st' \<longleftrightarrow> st' = st\<lparr>ds_done_ranges := ds_done_ranges st',
     ds_done_range_capacity := ds_done_range_capacity st'\<rparr>"

lemma same_but_ranges_sel:
  assumes "same_but_ranges st st'"
  shows "ds_total_size st' = ds_total_size st" and "ds_chunk_size st' = ds_chunk_size st"
    and "ds_bytes_downloaded st' = ds_bytes_downloaded st" and "ds_queue_id st' = ds_queue_id st"
    and "ds_status st' = ds_status st"
  using assms [unfolded same_but_ranges_def, THEN arg_cong [where f = ds_total_size]]
    assms [unfolded same_but_ranges_def, THEN arg_cong [where f = ds_chunk_size]]
    assms [unfolded same_but_ranges_def, THEN arg_cong [where f = ds_bytes_downloaded]]
    assms [unfolded same_but_ranges_def, THEN arg_cong [where f = ds_queue_id]]
    assms [unfolded same_but_ranges_def, THEN arg_cong [where f = ds_status]]
  by simp_all

lemma mark_range_done_cases:
  assumes wf: "state_wf st" and se: "start \<le> end"
    and top: "ds_total_size st = 0 \<longrightarrow> end \<noteq> UINT64_MAX"
    and call: "download_state_mark_range_done ok st start end = (rc, st')"
  shows "(rc = 0 \<and> st' = st \<and> request_bytes st start end \<subseteq> covered (ds_done_ranges st))
    \<or> (rc = -1 \<and> st' = st)
    \<or> (rc = 0 \<and> same_but_ranges st st'
        \<and> length (ds_done_ranges st') \<le> ds_done_range_capacity st'
        \<and> (\<exists>e. request_bytes st start end = {unat start..unat e}
             \<and> unat start \<le> unat e \<and> unat e < 18446744073709551615
             \<and> (ds_total_size st \<noteq> 0 \<longrightarrow> unat e < unat (ds_total_size st))
             \<and> ds_done_ranges st' = marked_list (ds_done_ranges st) start e))"
proof -
  let ?t = "ds_total_size st" and ?rs = "ds_done_ranges st"
  define e where "e = (if ?t > 0 \<and> end \<ge> ?t then ?t - 1 else end)"
  have rwf: "ranges_wf ?rs" using wf by (simp add: state_wf_def)
  have ns: "\<not> end < start" using se by simp
  show ?thesis
  proof (cases "?t > 0 \<and> start \<ge> ?t")
    case True
    then have "rc = 0" "st' = st" using call ns by (auto simp: download_state_mark_range_done_def)
    moreover have "request_bytes st start end = {}"
      using True by (auto simp: request_bytes_def u64_order)
    ultimately show ?thesis by simp
  next
    case False
    note e = request_bytes_clip [OF top se False e_def]
    show ?thesis
    proof (cases "download_state_is_range_done st start e")
      case True
      then have "{unat start..unat e} \<subseteq> covered ?rs" using is_range_done_iff [OF rwf e(4)] by simp
      moreover have "rc = 0" "st' = st"
        using call ns False True by (auto simp: download_state_mark_range_done_def e_def [symmetric])
      ultimately show ?thesis using e(1) by simp
    next
      case fresh: False
      define lo where "lo = merge_lo ?rs start"
      obtain ms me hi where loop: "merge_loop (drop lo ?rs) start e lo = (ms, me, hi)"
        by (cases "merge_loop (drop lo ?rs) start e lo") auto
      have hi: "lo \<le> hi" by (rule merge_loop_hi_ge [OF loop])
      have call': "(if hi > lo then (0, st\<lparr>ds_done_ranges := marked_list ?rs start e\<rparr>)
          else insert_sorted_range ok st \<lparr>br_start = ms, br_end = me\<rparr>) = (rc, st')"
        using call ns False fresh loop
        by (auto simp: download_state_mark_range_done_def marked_list_def e_def [symmetric]
            lo_def [symmetric] Let_def split: if_splits)
      show ?thesis
      proof (cases "hi > lo")
        case True
        have "length (marked_list ?rs start e) \<le> length ?rs"
          using True loop merge_lo_split [OF rwf, of start, folded lo_def]
            merge_loop_spec [OF loop _ e(2,3)] rwf ranges_wf_append [of "take lo ?rs" "drop lo ?rs"]
          by (auto simp: marked_list_def lo_def [symmetric])
        moreover have "rc = 0" "st' = st\<lparr>ds_done_ranges := marked_list ?rs start e\<rparr>"
          using True call' by simp_all
        moreover have "length ?rs \<le> ds_done_range_capacity st" using wf by (simp add: state_wf_def)
        ultimately show ?thesis using e(1,2,3,5)
          by (intro disjI2 conjI exI [where x = e]) (simp_all add: same_but_ranges_def)
      next
        case False
        then have h: "hi = lo" using hi by simp
        with merge_loop_stuck [of _ start e lo ms me] loop have m: "ms = start" "me = e" by auto
        have ins: "insert_position ?rs \<lparr>br_start = start, br_end = e\<rparr> = lo"
          using insert_position_marked [OF rwf e(2,3) _ lo_def] loop h m by simp
        have list: "marked_list ?rs start e = take lo ?rs @ \<lparr>br_start = start, br_end = e\<rparr> # drop lo ?rs"
          using loop h m by (simp add: marked_list_def lo_def [symmetric])
        obtain r2 st2 where cap: "ensure_range_capacity ok st (length ?rs + 1) = (r2, st2)"
          by (cases "ensure_range_capacity ok st (length ?rs + 1)") auto
        show ?thesis
        proof (cases "r2 = 0")
          case True
          with cap ensure_range_capacity_ok [of ok st _ st2]
          obtain c where "st2 = st\<lparr>ds_done_range_capacity := c\<rparr>" "length ?rs + 1 \<le> c" by blast
          then have st2: "ds_done_ranges st2 = ?rs" "ensure_range_capacity ok st (length ?rs + 1)
              = (0, st\<lparr>ds_done_range_capacity := c\<rparr>)" using cap True by simp_all
          have "insert_sorted_range ok st \<lparr>br_start = start, br_end = e\<rparr>
              = (0, st\<lparr>ds_done_range_capacity := c, ds_done_ranges := marked_list ?rs start e\<rparr>)"
            unfolding insert_sorted_range_def st2(2) Let_def by (simp add: ins list)
          then have "rc = 0" and st': "st' = st\<lparr>ds_done_range_capacity := c,
              ds_done_ranges := marked_list ?rs start e\<rparr>"
            using call' False unfolding m by auto
          moreover have "length (marked_list ?rs start e) \<le> length ?rs + 1"
            unfolding list by simp
          ultimately show ?thesis using e(1,2,3,5) \<open>length ?rs + 1 \<le> c\<close>
            by (intro disjI2 conjI exI [where x = e]) (simp_all add: same_but_ranges_def st')
        next
          case fail: False
          from ensure_range_capacity_fail [OF cap fail]
          show ?thesis using call' False fail cap m by (auto simp: insert_sorted_range_def Let_def)
        qed
      qed
    qed
  qed
qed

lemma request_bytes_bound:
  "ds_total_size st \<noteq> 0 \<Longrightarrow> request_bytes st start end \<subseteq> {..<unat (ds_total_size st)}"
  by (simp add: request_bytes_def)

text \<open>Counting: the sum over the ranges is the number of covered bytes.\<close>

lemma finite_covered [simp]: "finite (covered rs)"
  by (simp add: covered_def range_bytes_def)

lemma card_covered_Cons:
  assumes "ranges_wf (r # rs)"
  shows "card (covered (r # rs)) = (hi_of r - lo_of r + 1) + card (covered rs)"
proof -
  have "range_bytes r \<inter> covered rs = {}"
    using assms by (fastforce simp: ranges_wf_Cons before_def mem_covered range_bytes_def)
  moreover have "card (range_bytes r) = hi_of r - lo_of r + 1"
    using assms by (auto simp: ranges_wf_Cons range_ok_def range_bytes_def)
  moreover have "finite (range_bytes r)" by (simp add: range_bytes_def)
  ultimately show ?thesis by (simp add: card_Un_disjoint)
qed

lemma card_covered_bound: "ranges_wf rs \<Longrightarrow> card (covered rs) \<le> 18446744073709551615"
  using card_mono [OF _ covered_bound [of rs]] by simp

lemma range_width:
  assumes "range_ok r"
  shows "unat (br_end r - br_start r + 1) = hi_of r - lo_of r + 1"
proof -
  have "unat (br_end r - br_start r) = hi_of r - lo_of r"
    using assms by (intro unat_sub_le) (simp add: range_ok_def)
  moreover have "hi_of r - lo_of r + 1 < 18446744073709551616"
    using assms unfolding range_ok_def by linarith
  ultimately show ?thesis by (metis unat_inc)
qed

lemma sum_ranges_card:
  "ranges_wf rs \<Longrightarrow> unat bytes + card (covered rs) < 18446744073709551616 \<Longrightarrow>
   unat (sum_ranges rs bytes) = unat bytes + card (covered rs)"
proof (induction rs arbitrary: bytes)
  case Nil
  then show ?case by simp
next
  case (Cons r rs)
  then have w: "unat (br_end r - br_start r + 1) = hi_of r - lo_of r + 1" and wf: "ranges_wf rs"
    by (auto simp: ranges_wf_Cons range_width)
  note c = card_covered_Cons [OF Cons.prems(1)]
  have "unat (bytes + (br_end r - br_start r + 1)) = unat bytes + (hi_of r - lo_of r + 1)"
    using w c Cons.prems(2) unat_add_small [of bytes "br_end r - br_start r + 1"] by simp
  then show ?case using Cons.IH [OF wf, of "bytes + (br_end r - br_start r + 1)"] c Cons.prems(2)
    by simp
qed

lemma covered_empty_iff: "ranges_wf rs \<Longrightarrow> covered rs = {} \<longleftrightarrow> rs = []"
  by (cases rs) (auto simp: ranges_wf_Cons range_ok_def range_bytes_def)

lemma mark_range_done_spec:
  assumes "state_wf st" and "start \<le> end" and "ds_total_size st = 0 \<longrightarrow> end \<noteq> UINT64_MAX"
    and "download_state_mark_range_done realloc_ok st start end = (rc, st')"
  shows "(rc = -1 \<and> st' = st) \<or>
    (rc = 0 \<and> state_wf st' \<and> same_but_ranges st st' \<and>
     covered (ds_done_ranges st') = covered (ds_done_ranges st) \<union> request_bytes st start end)"
proof -
  have rwf: "ranges_wf (ds_done_ranges st)" using assms(1) by (simp add: state_wf_def)
  from mark_range_done_cases [OF assms] consider
      (old) "rc = 0" "st' = st" "request_bytes st start end \<subseteq> covered (ds_done_ranges st)"
    | (fail) "rc = -1" "st' = st"
    | (new) e where "rc = 0" "same_but_ranges st st'"
        "length (ds_done_ranges st') \<le> ds_done_range_capacity st'"
        "request_bytes st start end = {unat start..unat e}"
        "unat start \<le> unat e" "unat e < 18446744073709551615"
        "ds_done_ranges st' = marked_list (ds_done_ranges st) start e"
    by blast
  then show ?thesis
  proof cases
    case old
    then show ?thesis using assms(1) by (auto simp: same_but_ranges_def)
  next
    case fail
    then show ?thesis by simp
  next
    case new
    note m = marked_list_wf [OF rwf new(5,6)]
    note same_but_ranges_sel(1) [OF new(2)]
    then show ?thesis
      using new m assms(1) request_bytes_bound [of st start "end"] by (auto simp: state_wf_def)
  qed
qed

subsection \<open>Properties\<close>



text \<open>A query says that a byte range is done exactly when every byte of it is covered.\<close>

theorem is_range_done_correct:
  assumes "state_wf st" and "start \<le> end"
  shows "download_state_is_range_done st start end
    \<longleftrightarrow> {unat start..unat end} \<subseteq> covered (ds_done_ranges st)"
  using assms by (intro is_range_done_iff) (simp_all add: state_wf_def)

theorem is_range_done_correct_witness:
  "\<not> download_state_is_range_done
      (calloc_state\<lparr>ds_done_range_capacity := 4, ds_done_ranges := [\<lparr>br_start = 3, br_end = 9\<rparr>]\<rparr>) 3 10"
proof -
  let ?st = "calloc_state\<lparr>ds_done_range_capacity := 4, ds_done_ranges := [\<lparr>br_start = 3, br_end = 9\<rparr>]\<rparr>"
  have "state_wf ?st"
    by (simp add: state_wf_def ranges_wf_Cons range_ok_def calloc_state_def)
  from is_range_done_correct [OF this, of 3 10] show ?thesis
    by (simp add: range_bytes_def)
qed

text \<open>The byte counter equals the number of covered bytes, with no wrap-around, whenever some
  range is recorded.\<close>

theorem bytes_done_card:
  assumes "state_wf st" and "ds_done_ranges st \<noteq> []"
  shows "unat (download_state_bytes_done st) = card (covered (ds_done_ranges st))"
  using assms sum_ranges_card [of "ds_done_ranges st" 0] card_covered_bound [of "ds_done_ranges st"]
  by (simp add: download_state_bytes_done_def state_wf_def)

theorem bytes_done_card_witness:
  "unat (download_state_bytes_done
      (calloc_state\<lparr>ds_done_range_capacity := 4, ds_done_ranges := [\<lparr>br_start = 3, br_end = 9\<rparr>]\<rparr>)) = 7"
proof -
  let ?st = "calloc_state\<lparr>ds_done_range_capacity := 4, ds_done_ranges := [\<lparr>br_start = 3, br_end = 9\<rparr>]\<rparr>"
  have "state_wf ?st"
    by (simp add: state_wf_def ranges_wf_Cons range_ok_def calloc_state_def)
  from bytes_done_card [OF this] show ?thesis by (simp add: range_bytes_def)
qed

text \<open>A download of known size is complete exactly when every byte of the file is covered, and
  exactly when the byte counter has reached the size.\<close>

theorem all_chunks_done_iff:
  assumes "state_wf st" and "ds_total_size st \<noteq> 0"
  shows "(download_state_all_chunks_done st
        \<longleftrightarrow> covered (ds_done_ranges st) = {..<unat (ds_total_size st)})
    \<and> (download_state_all_chunks_done st
        \<longleftrightarrow> card (covered (ds_done_ranges st)) = unat (ds_total_size st))"
proof -
  let ?c = "covered (ds_done_ranges st)" and ?t = "ds_total_size st"
  obtain k where k: "unat ?t = Suc k" "unat (?t - 1) = k" using u64_pred [OF assms(2)] by blast
  have sub: "?c \<subseteq> {..<unat ?t}" using assms by (simp add: state_wf_def)
  have "download_state_all_chunks_done st \<longleftrightarrow> {0..k} \<subseteq> ?c"
    using is_range_done_iff [of st 0 "?t - 1"] assms k
    by (simp add: download_state_all_chunks_done_def state_wf_def)
  moreover have "{0..k} = {..<unat ?t}" using k(1) by auto
  ultimately have iff: "download_state_all_chunks_done st \<longleftrightarrow> ?c = {..<unat ?t}" using sub by auto
  have "?c = {..<unat ?t} \<longleftrightarrow> card ?c = unat ?t"
    using sub by (metis card_lessThan card_subset_eq finite_lessThan)
  then show ?thesis using iff by simp
qed

theorem all_chunks_done_iff_witness:
  "download_state_all_chunks_done (calloc_state\<lparr>ds_total_size := 10, ds_done_range_capacity := 4,
      ds_done_ranges := [\<lparr>br_start = 0, br_end = 9\<rparr>]\<rparr>)"
proof -
  let ?st = "calloc_state\<lparr>ds_total_size := 10, ds_done_range_capacity := 4,
     ds_done_ranges := [\<lparr>br_start = 0, br_end = 9\<rparr>]\<rparr>"
  have "state_wf ?st"
    by (auto simp: state_wf_def ranges_wf_Cons range_ok_def calloc_state_def range_bytes_def)
  from all_chunks_done_iff [OF this] show ?thesis by (auto simp: range_bytes_def)
qed

text \<open>Re-initialising the segment size for a new total keeps the array invariant and keeps
  exactly the covered bytes below the new total; a zero total is rejected and changes nothing.\<close>

theorem init_chunks_correct:
  assumes "state_wf st"
  shows "if total_size = 0 then download_state_init_chunks st total_size c = (-1, st)
    else \<exists>st'. download_state_init_chunks st total_size c = (0, st')
      \<and> state_wf st' \<and> ds_total_size st' = total_size \<and> ds_chunk_size st' \<noteq> 0
      \<and> covered (ds_done_ranges st') = covered (ds_done_ranges st) \<inter> {..<unat total_size}"
proof (cases "total_size = 0")
  case True
  then show ?thesis by (simp add: download_state_init_chunks_def)
next
  case t: False
  let ?st = "st\<lparr>ds_total_size := total_size, ds_chunk_size := if c > 0 then c else DL_CHUNK_SIZE\<rparr>"
  have wf: "ranges_wf (ds_done_ranges ?st)" using assms by (simp add: state_wf_def)
  note clip = clip_loop_wf [OF wf, of total_size]
  have "download_state_init_chunks st total_size c
      = (0, ?st\<lparr>ds_done_ranges := clip_loop total_size (ds_done_ranges st)\<rparr>)"
    using t clip_done_ranges_wf [OF wf] by (simp add: download_state_init_chunks_def)
  moreover have "length (clip_loop total_size (ds_done_ranges st)) \<le> ds_done_range_capacity st"
    using clip_loop_length [of total_size "ds_done_ranges st"] assms by (simp add: state_wf_def)
  ultimately show ?thesis
    using clip t by (auto simp: state_wf_def DL_CHUNK_SIZE_def word_neq_0_conv)
qed

theorem init_chunks_correct_witness:
  "\<exists>st'. download_state_init_chunks (calloc_state\<lparr>ds_total_size := 100, ds_done_range_capacity := 4,
      ds_done_ranges := [\<lparr>br_start = 0, br_end = 9\<rparr>, \<lparr>br_start = 20, br_end = 29\<rparr>]\<rparr>) 25 8 = (0, st')
    \<and> covered (ds_done_ranges st') = {0..9} \<union> {20..24}"
proof -
  let ?st = "calloc_state\<lparr>ds_total_size := 100, ds_done_range_capacity := 4,
     ds_done_ranges := [\<lparr>br_start = 0, br_end = 9\<rparr>, \<lparr>br_start = 20, br_end = 29\<rparr>]\<rparr>"
  have wf: "state_wf ?st"
    by (auto simp: state_wf_def ranges_wf_Cons range_ok_def before_def range_bytes_def)
  have "({0..9} \<union> {20..29}) \<inter> {..<25} = {0..9} \<union> {20..24::nat}" by auto
  with init_chunks_correct [OF wf, of 25 8] show ?thesis by (auto simp: range_bytes_def)
qed

end
