(* ===== verification/Segments.thy ===== *)
theory Segments
  imports State_Ranges
begin

text \<open>
  Segmentation of a download, \<^verbatim>\<open>src/src/download_segment.c\<close>: cutting a file into
  chunk-sized segments, the two strategies that choose the next segments to request, and the
  extension of a running reservation.  Loop counters are 64-bit words as in the code.  The
  output array \<open>out_ranges\<close> with its fill count is a list.
\<close>

datatype SegmentStrategy = SegmentStrategyBalanced | SegmentStrategyLeftHeavy

record DownloadSegmentConfig =
  sc_enabled :: bool
  sc_strategy :: SegmentStrategy
  sc_concurrency :: u64
  sc_chunk_size :: u64
  sc_min_file_size :: u64
  sc_left_heavy_front_ratio :: rat

type_synonym SegmentRangePredicate = "(u64 \<Rightarrow> u64 \<Rightarrow> bool) option"

definition segment_index_range :: "u64 \<Rightarrow> u64 \<Rightarrow> u64 \<Rightarrow> u64 \<times> u64" where
  "segment_index_range total_size chunk_size segment_index =
     (let segment_size = (if chunk_size > 0 then chunk_size else DL_CHUNK_SIZE);
          start = segment_index * segment_size;
          end = start + segment_size - 1;
          end = (if total_size > 0 \<and> end \<ge> total_size then total_size - 1 else end)
      in (start, end))"

definition segment_chunk_range :: "DownloadState \<Rightarrow> u64 \<Rightarrow> u64 \<times> u64" where
  "segment_chunk_range st segment_index =
     segment_index_range (ds_total_size st) (effective_chunk_size st) segment_index"

definition segment_strategy_from_string :: "cstring \<Rightarrow> SegmentStrategy" where
  "segment_strategy_from_string value =
     (if value = Some ''left-heavy'' then SegmentStrategyLeftHeavy else SegmentStrategyBalanced)"

definition segment_ranges_overlap :: "u64 \<Rightarrow> u64 \<Rightarrow> u64 \<Rightarrow> u64 \<Rightarrow> bool" where
  "segment_ranges_overlap a_start a_end b_start b_end =
     (if a_start > a_end \<or> b_start > b_end then False
      else a_start \<le> b_end \<and> b_start \<le> a_end)"

fun range_overlaps_in_flight :: "ByteRange list \<Rightarrow> u64 \<Rightarrow> u64 \<Rightarrow> bool" where
  "range_overlaps_in_flight [] start end = False"
| "range_overlaps_in_flight (r # rs) start end =
     (if segment_ranges_overlap start end (br_start r) (br_end r) then True
      else range_overlaps_in_flight rs start end)"

definition segment_next_reserve_end :: "DownloadState \<Rightarrow> ByteRange list \<Rightarrow> u64 \<Rightarrow> u64" where
  "segment_next_reserve_end st in_flight current_end =
     (if ds_total_size st = 0 then current_end
      else let chunk_size = effective_chunk_size st; total_end = ds_total_size st - 1 in
        if current_end \<ge> total_end then current_end
        else let next_start = current_end + 1;
                 next_end = next_start + chunk_size - 1;
                 next_end = (if next_end > total_end then total_end else next_end)
             in if download_state_is_range_done st next_start next_end then current_end
                else if range_overlaps_in_flight in_flight next_start next_end then current_end
                else next_end)"

definition segment_should_enable :: "DownloadSegmentConfig \<Rightarrow> u64 \<Rightarrow> bool \<Rightarrow> bool" where
  "segment_should_enable cfg total_size ranges_supported =
     (if \<not> sc_enabled cfg \<or> \<not> ranges_supported then False
      else if sc_concurrency cfg \<le> 1 then False
      else if total_size = 0 \<or> total_size < sc_min_file_size cfg then False
      else True)"

fun range_selected :: "ByteRange list \<Rightarrow> u64 \<Rightarrow> u64 \<Rightarrow> bool" where
  "range_selected [] start end = False"
| "range_selected (r # rs) start end =
     (if br_start r = start \<and> br_end r = end then True else range_selected rs start end)"

definition try_select_segment ::
  "DownloadState \<Rightarrow> u64 \<Rightarrow> SegmentRangePredicate \<Rightarrow> ByteRange list \<Rightarrow> bool \<times> ByteRange list" where
  "try_select_segment st segment_index predicate out =
     (if download_state_is_segment_done st segment_index then (False, out)
      else let (start, end) = segment_chunk_range st segment_index in
        if (case predicate of None \<Rightarrow> False | Some p \<Rightarrow> \<not> p start end) then (False, out)
        else (True, out @ [\<lparr>br_start = start, br_end = end\<rparr>]))"

function left_heavy_loop ::
  "DownloadState \<Rightarrow> u64 \<Rightarrow> u64 \<Rightarrow> SegmentRangePredicate \<Rightarrow> u64 \<Rightarrow> ByteRange list \<Rightarrow> ByteRange list" where
  "left_heavy_loop st segment_count max_count predicate i out =
     (if i < segment_count \<and> length out < unat max_count
      then left_heavy_loop st segment_count max_count predicate (i + 1)
             (snd (try_select_segment st i predicate out))
      else out)"
  by pat_completeness auto
termination
  by (relation "measure (\<lambda>(st, n, m, p, i, out). unat n - unat i)") (auto intro: u64_loop_decr)

declare left_heavy_loop.simps [simp del]

definition segment_select_left_heavy ::
  "DownloadState \<Rightarrow> u64 \<Rightarrow> SegmentRangePredicate \<Rightarrow> ByteRange list" where
  "segment_select_left_heavy st max_count predicate =
     (if max_count = 0 \<or> ds_total_size st = 0 then []
      else left_heavy_loop st (download_state_segment_count st) max_count predicate 0 [])"

text \<open>The balanced strategy: at most one segment per bucket, then a second pass over everything.\<close>

function bucket_scan ::
  "DownloadState \<Rightarrow> SegmentRangePredicate \<Rightarrow> u64 \<Rightarrow> u64 \<Rightarrow> ByteRange list \<Rightarrow> ByteRange list" where
  "bucket_scan st predicate bucket_end idx out =
     (if idx < bucket_end
      then (let (ok, out') = try_select_segment st idx predicate out
            in if ok then out' else bucket_scan st predicate bucket_end (idx + 1) out')
      else out)"
  by pat_completeness auto
termination
  by (relation "measure (\<lambda>(st, p, e, i, out). unat e - unat i)") (auto intro: u64_loop_decr)

declare bucket_scan.simps [simp del]

function bucket_loop ::
  "DownloadState \<Rightarrow> u64 \<Rightarrow> u64 \<Rightarrow> u64 \<Rightarrow> u64 \<Rightarrow> SegmentRangePredicate \<Rightarrow> u64 \<Rightarrow> ByteRange list
    \<Rightarrow> ByteRange list" where
  "bucket_loop st segment_count bucket_count bucket_size max_count predicate bucket out =
     (if bucket < bucket_count \<and> length out < unat max_count
      then (let bucket_start = bucket * bucket_size;
                bucket_end = (if bucket_start + bucket_size < segment_count
                              then bucket_start + bucket_size else segment_count)
            in bucket_loop st segment_count bucket_count bucket_size max_count predicate
                 (bucket + 1) (bucket_scan st predicate bucket_end bucket_start out))
      else out)"
  by pat_completeness auto
termination
  by (relation "measure (\<lambda>(st, n, c, z, m, p, b, out). unat c - unat b)") (auto intro: u64_loop_decr)

declare bucket_loop.simps [simp del]

function refill_loop ::
  "DownloadState \<Rightarrow> u64 \<Rightarrow> u64 \<Rightarrow> SegmentRangePredicate \<Rightarrow> u64 \<Rightarrow> ByteRange list \<Rightarrow> ByteRange list" where
  "refill_loop st segment_count max_count predicate i out =
     (if i < segment_count \<and> length out < unat max_count
      then refill_loop st segment_count max_count predicate (i + 1)
             (if download_state_is_segment_done st i then out
              else let (start, end) = segment_chunk_range st i in
                if (case predicate of None \<Rightarrow> False | Some p \<Rightarrow> \<not> p start end) then out
                else if range_selected out start end then out
                else out @ [\<lparr>br_start = start, br_end = end\<rparr>])
      else out)"
  by pat_completeness auto
termination
  by (relation "measure (\<lambda>(st, n, m, p, i, out). unat n - unat i)") (auto intro: u64_loop_decr)

declare refill_loop.simps [simp del]

definition segment_select_balanced ::
  "DownloadState \<Rightarrow> u64 \<Rightarrow> u64 \<Rightarrow> SegmentRangePredicate \<Rightarrow> ByteRange list" where
  "segment_select_balanced st concurrency max_count predicate =
     (if max_count = 0 \<or> concurrency = 0 \<or> ds_total_size st = 0 then []
      else let segment_count = download_state_segment_count st in
        if segment_count = 0 then []
        else let bucket_count = (if concurrency < segment_count then concurrency else segment_count);
                 bucket_size = (segment_count + bucket_count - 1) div bucket_count;
                 out = bucket_loop st segment_count bucket_count bucket_size max_count predicate 0 []
             in if length out < unat max_count
                then refill_loop st segment_count max_count predicate 0 out else out)"

definition segment_select_chunks ::
  "DownloadSegmentConfig \<Rightarrow> DownloadState \<Rightarrow> u64 \<Rightarrow> SegmentRangePredicate \<Rightarrow> ByteRange list" where
  "segment_select_chunks cfg st max_count predicate =
     (if sc_strategy cfg = SegmentStrategyLeftHeavy
      then segment_select_left_heavy st max_count predicate
      else segment_select_balanced st (sc_concurrency cfg) max_count predicate)"

subsection \<open>Segments tile the file\<close>

text \<open>The size bound under which no segment computation wraps: eight exbibytes.\<close>

definition segments_fit :: "DownloadState \<Rightarrow> bool" where
  "segments_fit st \<longleftrightarrow> ds_total_size st \<noteq> 0
     \<and> unat (ds_total_size st) + unat (effective_chunk_size st) \<le> 9223372036854775808"

abbreviation file_len :: "DownloadState \<Rightarrow> nat" where
  "file_len st \<equiv> unat (ds_total_size st)"

abbreviation chunk_len :: "DownloadState \<Rightarrow> nat" where
  "chunk_len st \<equiv> unat (effective_chunk_size st)"

lemma effective_chunk_size_pos [simp]: "effective_chunk_size st \<noteq> 0"
  by (auto simp: effective_chunk_size_def DL_CHUNK_SIZE_def word_neq_0_conv)

lemma chunk_len_pos [simp]: "0 < chunk_len st"
  by (simp add: unat_gt_0)

lemma file_len_pos: "segments_fit st \<Longrightarrow> 0 < file_len st"
  by (simp add: segments_fit_def unat_gt_0)

lemma segment_count_nat:
  assumes "segments_fit st"
  shows "unat (download_state_segment_count st) = (file_len st + chunk_len st - 1) div chunk_len st"
proof -
  obtain k where k: "chunk_len st = Suc k" "unat (effective_chunk_size st - 1) = k"
    using u64_pred [of "effective_chunk_size st"] by auto
  have "unat (ds_total_size st + (effective_chunk_size st - 1)) = file_len st + k"
    using assms k unat_add_small [of "ds_total_size st" "effective_chunk_size st - 1"]
    by (simp add: segments_fit_def)
  then show ?thesis using assms k
    by (simp add: download_state_segment_count_def segments_fit_def u64_div add_diff_eq)
qed

lemma less_ceil_iff: "0 < c \<Longrightarrow> i < (n + c - 1) div c \<longleftrightarrow> i * c < (n :: nat)"
  by (subst less_eq_Suc_le) (auto simp: less_eq_div_iff_mult_less_eq algebra_simps)

lemma segment_index_iff:
  "segments_fit st \<Longrightarrow> i < download_state_segment_count st \<longleftrightarrow> unat i * chunk_len st < file_len st"
  using less_ceil_iff [OF chunk_len_pos, of "unat i" "file_len st" st]
  by (simp add: word_less_nat_alt segment_count_nat)

definition seg_of :: "DownloadState \<Rightarrow> u64 \<Rightarrow> ByteRange" where
  "seg_of st i = (let (s, e) = segment_chunk_range st i in \<lparr>br_start = s, br_end = e\<rparr>)"

lemma seg_of_nat:
  assumes "segments_fit st" and "i < download_state_segment_count st"
  shows "lo_of (seg_of st i) = unat i * chunk_len st"
    and "hi_of (seg_of st i) = min (unat i * chunk_len st + chunk_len st - 1) (file_len st - 1)"
    and "range_ok (seg_of st i)"
proof -
  let ?c = "effective_chunk_size st" and ?t = "ds_total_size st"
  have ic: "unat i * chunk_len st < file_len st" using assms segment_index_iff by blast
  have t0: "?t \<noteq> 0" and fit: "file_len st + chunk_len st \<le> 9223372036854775808"
    using assms(1) by (auto simp: segments_fit_def)
  obtain k where k: "unat ?c = Suc k" "unat (?c - 1) = k"
    using u64_pred [of ?c] by auto
  obtain m where m: "unat ?t = Suc m" "unat (?t - 1) = m" using u64_pred [OF t0] by blast
  have s: "unat (i * ?c) = unat i * unat ?c" using ic fit by (intro unat_mult_small) simp
  have e: "unat (i * ?c + ?c - 1) = unat i * unat ?c + k"
    using ic fit k s unat_add_small [of "i * ?c" "?c - 1"] by (simp add: add_diff_eq)
  have pos: "0 < ?c" "0 < ?t" using t0 by (simp_all add: word_gt_0)
  show lo: "lo_of (seg_of st i) = unat i * chunk_len st"
    using s pos by (simp add: seg_of_def segment_chunk_range_def segment_index_range_def Let_def)
  show hi: "hi_of (seg_of st i) = min (unat i * chunk_len st + chunk_len st - 1) (file_len st - 1)"
    using e k m pos by (auto simp: seg_of_def segment_chunk_range_def segment_index_range_def
        Let_def word_le_nat_alt)
  show "range_ok (seg_of st i)"
    unfolding range_ok_def lo hi using ic fit k by (auto simp: min_def)
qed

lemma seg_of_bytes:
  assumes "segments_fit st" and "i < download_state_segment_count st"
  shows "range_bytes (seg_of st i)
    = {unat i * chunk_len st..<(unat i + 1) * chunk_len st} \<inter> {..<file_len st}"
proof -
  obtain k m where "chunk_len st = Suc k" "file_len st = Suc m"
    using file_len_pos [OF assms(1)] chunk_len_pos [of st] gr0_implies_Suc by meson
  then show ?thesis using seg_of_nat [OF assms]
    by (auto simp: range_bytes_def min_def split: if_splits)
qed

lemma seg_of_mem_iff:
  assumes "segments_fit st" and "i < download_state_segment_count st"
  shows "n \<in> range_bytes (seg_of st i) \<longleftrightarrow> n < file_len st \<and> n div chunk_len st = unat i"
proof -
  have "n div chunk_len st = unat i
      \<longleftrightarrow> unat i * chunk_len st \<le> n \<and> n < (unat i + 1) * chunk_len st"
    using less_eq_div_iff_mult_less_eq [OF chunk_len_pos, of "unat i" n st]
      div_less_iff_less_mult [OF chunk_len_pos, of n st "unat i + 1"] by linarith
  then show ?thesis using seg_of_bytes [OF assms] by auto
qed

lemma seg_of_inj:
  assumes "segments_fit st" "i < download_state_segment_count st" "j < download_state_segment_count st"
    and "seg_of st i = seg_of st j"
  shows "i = j"
proof -
  have "unat i * chunk_len st = unat j * chunk_len st"
    using seg_of_nat(1) assms by metis
  then show ?thesis using chunk_len_pos [of st] by (simp add: word_unat_eq_iff)
qed

lemma segment_done_iff:
  "ds_total_size st \<noteq> 0 \<Longrightarrow> download_state_is_segment_done st i
    \<longleftrightarrow> download_state_is_range_done st (br_start (seg_of st i)) (br_end (seg_of st i))"
  by (auto simp: download_state_is_segment_done_def seg_of_def segment_chunk_range_def
      segment_index_range_def Let_def word_gt_0)


subsection \<open>The selection loops\<close>

text \<open>A segment is pending when it is not done and the caller's predicate accepts it.\<close>

definition pending :: "DownloadState \<Rightarrow> SegmentRangePredicate \<Rightarrow> u64 \<Rightarrow> bool" where
  "pending st p i \<longleftrightarrow> \<not> download_state_is_segment_done st i
     \<and> (case p of None \<Rightarrow> True | Some f \<Rightarrow> f (br_start (seg_of st i)) (br_end (seg_of st i)))"

definition words_from :: "u64 \<Rightarrow> u64 \<Rightarrow> u64 list" where
  "words_from i n = map of_nat [unat i..<unat n]"

definition pending_segments :: "DownloadState \<Rightarrow> SegmentRangePredicate \<Rightarrow> u64 list" where
  "pending_segments st p = filter (pending st p) (words_from 0 (download_state_segment_count st))"

lemma words_from_Cons: "i < n \<Longrightarrow> words_from i n = i # words_from (i + 1) n"
  by (simp add: words_from_def upt_conv_Cons u64_Suc_less word_less_nat_alt)

lemma words_from_Nil [simp]: "\<not> i < n \<Longrightarrow> words_from i n = []"
  by (simp add: words_from_def word_less_nat_alt)

lemma u64_of_nat_cancel: "n < unat (m :: u64) \<Longrightarrow> unat (of_nat n :: u64) = n"
  using u64_bound [of m] by (simp add: unat_of_nat_small)

lemma set_words_from [simp]: "set (words_from i n) = {i..<n}"
proof -
  have "x \<in> of_nat ` {unat i..<unat n}" if "i \<le> x" "x < n" for x :: u64
    by (rule image_eqI [of _ _ "unat x"]) (use that in \<open>auto simp: u64_order\<close>)
  then show ?thesis
    by (auto simp: words_from_def word_le_nat_alt word_less_nat_alt u64_of_nat_cancel)
qed

lemma distinct_words_from [simp]: "distinct (words_from i n)"
  unfolding words_from_def distinct_map
  by (auto intro!: inj_onI dest: u64_of_nat_cancel) (metis u64_of_nat_cancel)

lemma map_unat_words_from: "map unat (words_from i n) = [unat i..<unat n]"
  unfolding words_from_def map_map by (rule map_idI) (auto dest: u64_of_nat_cancel)

lemma try_select_segment_eq:
  "try_select_segment st i p out
    = (if pending st p i then (True, out @ [seg_of st i]) else (False, out))"
  by (auto simp: try_select_segment_def pending_def seg_of_def split: prod.splits option.splits)

lemma left_heavy_loop_eq:
  "left_heavy_loop st n m p i out
    = out @ take (unat m - length out) (map (seg_of st) (filter (pending st p) (words_from i n)))"
proof (induction st n m p i out rule: left_heavy_loop.induct)
  case (1 st n m p i out)
  show ?case
  proof (cases "i < n \<and> length out < unat m")
    case True
    then obtain k where k: "unat m - length out = Suc k" by (metis Suc_diff_Suc)
    then have "unat m - Suc (length out) = k" by simp
    then show ?thesis using True 1 k
      by (subst left_heavy_loop.simps) (simp add: words_from_Cons try_select_segment_eq)
  next
    case False
    then show ?thesis by (subst left_heavy_loop.simps) auto
  qed
qed

lemma bucket_scan_eq:
  "bucket_scan st p e i out = out @ map (seg_of st) (take 1 (filter (pending st p) (words_from i e)))"
proof (induction st p e i out rule: bucket_scan.induct)
  case (1 st p e i out)
  then show ?case
    by (subst bucket_scan.simps) (simp add: words_from_Cons try_select_segment_eq)
qed

text \<open>The first pending segment of a bucket, as a list of at most one element.\<close>

definition bucket_first ::
  "DownloadState \<Rightarrow> SegmentRangePredicate \<Rightarrow> u64 \<Rightarrow> u64 \<Rightarrow> u64 \<Rightarrow> u64 list" where
  "bucket_first st p segment_count bucket_size b =
     take 1 (filter (pending st p)
       (words_from (b * bucket_size) (min (b * bucket_size + bucket_size) segment_count)))"

lemma bucket_first_length: "length (bucket_first st p n z b) \<le> 1"
  by (simp add: bucket_first_def)

lemma bucket_loop_eq:
  "length out \<le> unat m \<Longrightarrow>
   bucket_loop st n c z m p b out
    = out @ take (unat m - length out)
        (map (seg_of st) (concat (map (bucket_first st p n z) (words_from b c))))"
proof (induction st n c z m p b out rule: bucket_loop.induct)
  case (1 st n c z m p b out)
  let ?f = "bucket_first st p n z b"
  show ?case
  proof (cases "b < c \<and> length out < unat m")
    case True
    have scan: "bucket_scan st p (if b * z + z < n then b * z + z else n) (b * z) out
        = out @ map (seg_of st) ?f"
      by (simp add: bucket_scan_eq bucket_first_def min_def)
    have f1: "length ?f \<le> 1" by (rule bucket_first_length)
    have fits: "length (out @ map (seg_of st) ?f) \<le> unat m" using True f1 by simp
    have "bucket_loop st n c z m p b out
        = bucket_loop st n c z m p (b + 1) (out @ map (seg_of st) ?f)"
      using True scan by (subst bucket_loop.simps) (simp add: Let_def)
    also have "\<dots> = (out @ map (seg_of st) ?f) @ take (unat m - length (out @ map (seg_of st) ?f))
        (map (seg_of st) (concat (map (bucket_first st p n z) (words_from (b + 1) c))))"
      using 1(1) [OF True refl refl] scan fits by simp
    moreover have "take (unat m - length out) (map (seg_of st) ?f) = map (seg_of st) ?f"
      using conjunct2 [OF True] f1 by (intro take_all) (unfold length_map, linarith)
    ultimately show ?thesis using True by (simp add: words_from_Cons)
  next
    case False
    then show ?thesis by (subst bucket_loop.simps) auto
  qed
qed


lemma range_selected_iff: "range_selected rs s e \<longleftrightarrow> \<lparr>br_start = s, br_end = e\<rparr> \<in> set rs"
proof (induction rs s e rule: range_selected.induct)
  case (2 r rs s e)
  then show ?case by (cases r) auto
qed simp

definition seg_valid :: "DownloadState \<Rightarrow> u64 \<Rightarrow> bool" where
  "seg_valid st i \<longleftrightarrow> i < download_state_segment_count st"

lemma seg_of_mem_map:
  assumes "segments_fit st" "seg_valid st i" "\<forall>j\<in>set is. seg_valid st j"
  shows "seg_of st i \<in> seg_of st ` set is \<longleftrightarrow> i \<in> set is"
  using assms seg_of_inj [OF assms(1)] by (auto simp: seg_valid_def)

text \<open>One step of the second pass of the balanced strategy.\<close>

definition refill_body ::
  "DownloadState \<Rightarrow> SegmentRangePredicate \<Rightarrow> u64 \<Rightarrow> ByteRange list \<Rightarrow> ByteRange list" where
  "refill_body st p i out =
     (if download_state_is_segment_done st i then out
      else let (start, end) = segment_chunk_range st i in
        if (case p of None \<Rightarrow> False | Some f \<Rightarrow> \<not> f start end) then out
        else if range_selected out start end then out
        else out @ [\<lparr>br_start = start, br_end = end\<rparr>])"

lemma refill_body_eq:
  "refill_body st p i out
    = (if pending st p i \<and> seg_of st i \<notin> set out then out @ [seg_of st i] else out)"
  by (auto simp: refill_body_def pending_def range_selected_iff seg_of_def
      split: prod.splits option.splits)

lemma refill_loop_step:
  "refill_loop st n m p i out
    = (if i < n \<and> length out < unat m then refill_loop st n m p (i + 1) (refill_body st p i out)
       else out)"
  by (subst refill_loop.simps) (simp add: refill_body_def)

lemma refill_loop_eq:
  assumes fit: "segments_fit st" and n: "n = download_state_segment_count st"
  shows "\<forall>j\<in>set is. seg_valid st j \<Longrightarrow>
    refill_loop st n m p i (map (seg_of st) is)
    = map (seg_of st) (is @ take (unat m - length is)
        (filter (\<lambda>j. pending st p j \<and> j \<notin> set is) (words_from i n)))"
proof (induction "unat n - unat i" arbitrary: i "is" rule: less_induct)
  case less
  show ?case
  proof (cases "i < n \<and> length is < unat m")
    case False
    then show ?thesis by (subst refill_loop_step) auto
  next
    case True
    then have v: "seg_valid st i" by (simp add: n seg_valid_def)
    have body: "refill_body st p i (map (seg_of st) is)
        = map (seg_of st) (if pending st p i \<and> i \<notin> set is then is @ [i] else is)"
      using seg_of_mem_map [OF fit v less.prems] by (simp add: refill_body_eq)
    have dec: "unat n - unat (i + 1) < unat n - unat i" using True by (simp add: u64_loop_decr)
    have not_i: "j \<noteq> i" if "j \<in> set (words_from (i + 1) n)" for j
      using that True u64_Suc_less [of i n] by (auto simp: u64_order)
    then have same: "filter (\<lambda>j. pending st p j \<and> j \<noteq> i \<and> j \<notin> set is) (words_from (i + 1) n)
        = filter (\<lambda>j. pending st p j \<and> j \<notin> set is) (words_from (i + 1) n)"
      by (intro filter_cong) auto
    obtain k where k: "unat m - length is = Suc k" "unat m - Suc (length is) = k"
      using True by (metis Suc_diff_Suc)
    show ?thesis
    proof (cases "pending st p i \<and> i \<notin> set is")
      case P: True
      have "\<forall>j\<in>set (is @ [i]). seg_valid st j" using less.prems v by simp
      then show ?thesis using less.hyps [OF dec, of "is @ [i]"] True P body same k
        by (subst refill_loop_step) (simp add: words_from_Cons)
    next
      case P: False
      then show ?thesis using less.hyps [OF dec less.prems] True body
        by (subst refill_loop_step) (auto simp: words_from_Cons)
    qed
  qed
qed

subsection \<open>What the strategies select\<close>

lemma set_pending_segments:
  "set (pending_segments st p) = {i. i < download_state_segment_count st \<and> pending st p i}"
  by (auto simp: pending_segments_def)

lemma distinct_pending_segments [simp]: "distinct (pending_segments st p)"
  by (simp add: pending_segments_def)

lemma left_heavy_eq:
  "ds_total_size st \<noteq> 0 \<Longrightarrow> segment_select_left_heavy st m p
    = map (seg_of st) (take (unat m) (pending_segments st p))"
  by (auto simp: segment_select_left_heavy_def left_heavy_loop_eq pending_segments_def take_map)

text \<open>The buckets of the balanced strategy.\<close>

definition balanced_buckets :: "DownloadState \<Rightarrow> u64 \<Rightarrow> u64" where
  "balanced_buckets st concurrency = min concurrency (download_state_segment_count st)"

definition balanced_bucket_size :: "DownloadState \<Rightarrow> u64 \<Rightarrow> u64" where
  "balanced_bucket_size st concurrency =
     (download_state_segment_count st + balanced_buckets st concurrency - 1)
       div balanced_buckets st concurrency"

definition balanced_firsts ::
  "DownloadState \<Rightarrow> u64 \<Rightarrow> SegmentRangePredicate \<Rightarrow> u64 list" where
  "balanced_firsts st concurrency p =
     concat (map (bucket_first st p (download_state_segment_count st)
         (balanced_bucket_size st concurrency)) (words_from 0 (balanced_buckets st concurrency)))"

lemma segment_count_pos: "segments_fit st \<Longrightarrow> 0 < unat (download_state_segment_count st)"
  using less_ceil_iff [OF chunk_len_pos, of 0 "file_len st" st] file_len_pos [of st]
  by (simp add: segment_count_nat)

lemma segment_count_bound: "segments_fit st \<Longrightarrow> unat (download_state_segment_count st) \<le> 9223372036854775808"
proof -
  assume fit: "segments_fit st"
  have "(file_len st + chunk_len st - 1) div chunk_len st \<le> file_len st + chunk_len st - 1"
    by (rule div_le_dividend)
  then show ?thesis using fit segment_count_nat [OF fit] unfolding segments_fit_def by linarith
qed

lemma bucket_nat:
  assumes fit: "segments_fit st" and c: "concurrency \<noteq> 0"
    and b: "b < balanced_buckets st concurrency"
  shows "unat (b * balanced_bucket_size st concurrency)
      = unat b * unat (balanced_bucket_size st concurrency)"
    and "unat (b * balanced_bucket_size st concurrency + balanced_bucket_size st concurrency)
      = Suc (unat b) * unat (balanced_bucket_size st concurrency)"
proof -
  let ?n = "download_state_segment_count st" and ?c = "balanced_buckets st concurrency"
  let ?z = "balanced_bucket_size st concurrency"
  have c0: "?c \<noteq> 0" using b by auto
  have cn: "unat ?c \<le> unat ?n" by (auto simp: balanced_buckets_def min_def u64_order)
  obtain k where k: "unat ?c = Suc k" "unat (?c - 1) = k" using u64_pred [OF c0] by blast
  have "unat (?n + (?c - 1)) = unat ?n + k"
    using k cn segment_count_bound [OF fit] by (subst unat_add_small) auto
  then have "unat ?z = (unat ?n + k) div Suc k"
    by (simp add: balanced_bucket_size_def u64_div k add_diff_eq)
  then have z: "unat ?c * unat ?z \<le> unat ?n + k"
    using div_times_less_eq_dividend [of "unat ?n + k" "Suc k"] k by (simp add: mult.commute)
  have "Suc (unat b) * unat ?z \<le> unat ?c * unat ?z"
    using b by (intro mult_right_mono) (auto simp: u64_order)
  then have bound: "Suc (unat b) * unat ?z < 18446744073709551616"
    using z k cn segment_count_bound [OF fit] by linarith
  then show s: "unat (b * ?z) = unat b * unat ?z" by (intro unat_mult_small) simp
  show "unat (b * ?z + ?z) = Suc (unat b) * unat ?z"
    using bound s by (subst unat_add_small) auto
qed

lemma bucket_first_mem:
  assumes fit: "segments_fit st" and c: "concurrency \<noteq> 0"
    and b: "b < balanced_buckets st concurrency"
    and i: "i \<in> set (bucket_first st p (download_state_segment_count st)
        (balanced_bucket_size st concurrency) b)"
  shows "i \<in> set (pending_segments st p)"
    and "unat i div unat (balanced_bucket_size st concurrency) = unat b"
proof -
  let ?z = "balanced_bucket_size st concurrency"
  have w: "i \<in> {b * ?z..<min (b * ?z + ?z) (download_state_segment_count st)}" "pending st p i"
    using set_take_subset [of 1] i by (force simp: bucket_first_def)+
  then show "i \<in> set (pending_segments st p)" by (simp add: set_pending_segments)
  have "b * ?z \<le> i" "i < b * ?z + ?z" using w(1) by auto
  then have "unat b * unat ?z \<le> unat i" "unat i < Suc (unat b) * unat ?z"
    using bucket_nat [OF fit c b] by (simp_all add: u64_order)
  then show "unat i div unat ?z = unat b"
    by (intro div_nat_eqI) (auto simp: mult.commute)
qed


lemma bucket_cover:
  assumes fit: "segments_fit st" and c: "concurrency \<noteq> 0"
    and i: "i < download_state_segment_count st"
  shows "unat i div unat (balanced_bucket_size st concurrency)
      < unat (balanced_buckets st concurrency)"
    and "0 < unat (balanced_bucket_size st concurrency)"
proof -
  let ?n = "download_state_segment_count st" and ?c = "balanced_buckets st concurrency"
  let ?z = "balanced_bucket_size st concurrency"
  have c0: "?c \<noteq> 0" using c segment_count_pos [OF fit] by (auto simp: balanced_buckets_def min_def)
  have cn: "unat ?c \<le> unat ?n" by (auto simp: balanced_buckets_def min_def u64_order)
  obtain k where k: "unat ?c = Suc k" "unat (?c - 1) = k" using u64_pred [OF c0] by blast
  have "unat (?n + (?c - 1)) = unat ?n + k"
    using k cn segment_count_bound [OF fit] by (subst unat_add_small) auto
  then have z: "unat ?z = (unat ?n + unat ?c - 1) div unat ?c"
    by (simp add: balanced_bucket_size_def u64_div k add_diff_eq)
  have "\<not> unat ?z * unat ?c < unat ?n"
    using less_ceil_iff [of "unat ?c" "unat ?z" "unat ?n"] k z by simp
  then have "unat i < unat ?c * unat ?z" using i by (simp add: u64_order mult.commute)
  then show "0 < unat ?z" by (cases "unat ?z") auto
  then show "unat i div unat ?z < unat ?c" using \<open>unat i < unat ?c * unat ?z\<close>
    by (simp add: div_less_iff_less_mult)
qed

lemma distinct_concat_map:
  assumes "distinct xs" "\<And>x. x \<in> set xs \<Longrightarrow> distinct (f x)"
    and "\<And>x i. x \<in> set xs \<Longrightarrow> i \<in> set (f x) \<Longrightarrow> g i = h x" and "inj_on h (set xs)"
  shows "distinct (concat (map f xs))"
  using assms
proof (induction xs)
  case (Cons x xs)
  have "i \<notin> set (f y)" if "i \<in> set (f x)" "y \<in> set xs" for i y
  proof
    assume "i \<in> set (f y)"
    then have "h x = h y" using that Cons.prems(3) by (metis list.set_intros)
    then show False using that Cons.prems(1,4) by (auto dest: inj_onD)
  qed
  moreover have "distinct (concat (map f xs))"
    using Cons.prems by (intro Cons.IH) (auto intro: inj_on_subset)
  ultimately show ?case using Cons.prems(2) [of x] by auto
qed simp

lemma balanced_firsts_props:
  assumes fit: "segments_fit st" and c: "concurrency \<noteq> 0"
  shows "distinct (balanced_firsts st concurrency p)"
    and "set (balanced_firsts st concurrency p) \<subseteq> set (pending_segments st p)"
    and "length (balanced_firsts st concurrency p) \<le> unat (balanced_buckets st concurrency)"
proof -
  let ?f = "bucket_first st p (download_state_segment_count st) (balanced_bucket_size st concurrency)"
  let ?ws = "words_from 0 (balanced_buckets st concurrency)"
  show "distinct (balanced_firsts st concurrency p)"
    unfolding balanced_firsts_def
  proof (rule distinct_concat_map [where h = unat and g = "\<lambda>i. unat i div unat (balanced_bucket_size st concurrency)"])
    show "distinct (?f x)" for x by (simp add: bucket_first_def distinct_take)
    show "inj_on unat (set ?ws)" by (rule inj_onI) (simp add: word_unat_eq_iff)
  qed (simp_all add: bucket_first_mem(2) [OF fit c])
  show "set (balanced_firsts st concurrency p) \<subseteq> set (pending_segments st p)"
    using bucket_first_mem(1) [OF fit c] by (auto simp: balanced_firsts_def)
  have "length (concat (map ?f xs)) \<le> length xs" for xs
  proof (induction xs)
    case (Cons x xs)
    then show ?case
      using bucket_first_length [of st p "download_state_segment_count st"
          "balanced_bucket_size st concurrency" x] by simp
  qed simp
  then show "length (balanced_firsts st concurrency p) \<le> unat (balanced_buckets st concurrency)"
    unfolding balanced_firsts_def by (metis (no_types) length_map length_upt unat_0 words_from_def diff_zero)
qed

text \<open>The balanced strategy in closed form: the first pending segment of each bucket, then the
  remaining pending segments in order.\<close>

lemma balanced_eq:
  assumes fit: "segments_fit st" and c: "concurrency \<noteq> 0" and m: "m \<noteq> 0"
    and firsts: "firsts = take (unat m) (balanced_firsts st concurrency p)"
  shows "segment_select_balanced st concurrency m p = map (seg_of st)
    (firsts @ take (unat m - length firsts) (filter (\<lambda>j. j \<notin> set firsts) (pending_segments st p)))"
proof -
  let ?n = "download_state_segment_count st" and ?c = "balanced_buckets st concurrency"
  let ?z = "balanced_bucket_size st concurrency"
  have t: "ds_total_size st \<noteq> 0" using fit by (simp add: segments_fit_def)
  have n: "?n \<noteq> 0" using segment_count_pos [OF fit] by auto
  have buckets_if: "?c = (if concurrency < ?n then concurrency else ?n)"
    by (auto simp: balanced_buckets_def)
  have loop: "bucket_loop st ?n ?c ?z m p 0 [] = map (seg_of st) firsts"
    using bucket_loop_eq [of "[]" m] by (simp add: firsts balanced_firsts_def take_map)
  have v: "\<forall>j\<in>set firsts. seg_valid st j"
    using balanced_firsts_props(2) [OF fit c, of p] set_take_subset [of "unat m"]
    by (force simp: firsts seg_valid_def set_pending_segments)
  have fl: "filter (\<lambda>j. pending st p j \<and> j \<notin> set firsts) (words_from 0 ?n)
      = filter (\<lambda>j. j \<notin> set firsts) (pending_segments st p)"
    by (simp add: pending_segments_def conj_commute)
  have "segment_select_balanced st concurrency m p
      = (if length firsts < unat m then refill_loop st ?n m p 0 (map (seg_of st) firsts)
         else map (seg_of st) firsts)"
    using loop t n m c
    by (simp add: segment_select_balanced_def Let_def buckets_if balanced_bucket_size_def)
  then show ?thesis using refill_loop_eq [OF fit refl v, of m p 0] fl by auto
qed

lemma balanced_indices:
  assumes fit: "segments_fit st" and c: "concurrency \<noteq> 0"
  obtains js where "segment_select_balanced st concurrency m p = map (seg_of st) js"
    and "distinct js" and "set js \<subseteq> set (pending_segments st p)"
    and "length js = min (unat m) (length (pending_segments st p))"
proof (cases "m = 0")
  case True
  then show ?thesis using that [of "[]"] by (simp add: segment_select_balanced_def)
next
  case False
  let ?P = "pending_segments st p" and ?F = "take (unat m) (balanced_firsts st concurrency p)"
  let ?R = "filter (\<lambda>j. j \<notin> set ?F) ?P"
  have F: "distinct ?F" "set ?F \<subseteq> set ?P"
    using balanced_firsts_props(1,2) [OF fit c, of p] by (auto simp: distinct_take dest: in_set_takeD)
  have "length (filter (\<lambda>j. j \<in> set ?F) ?P) = length ?F"
  proof -
    have "set (filter (\<lambda>j. j \<in> set ?F) ?P) = set ?F" using F(2) by auto
    then show ?thesis using F(1) by (metis distinct_card distinct_filter distinct_pending_segments)
  qed
  then have len: "length ?P = length ?F + length ?R"
    using sum_length_filter_compl [of "\<lambda>j. j \<in> set ?F" ?P] by simp
  let ?J = "?F @ take (unat m - length ?F) ?R"
  show ?thesis
  proof (rule that [of ?J])
    show "segment_select_balanced st concurrency m p = map (seg_of st) ?J"
      by (rule balanced_eq [OF fit c False refl])
    show "distinct ?J" using F(1) by (auto simp: distinct_take dest: in_set_takeD)
    show "set ?J \<subseteq> set ?P" using F(2) by (auto dest: in_set_takeD)
    show "length ?J = min (unat m) (length ?P)" unfolding len by auto
  qed
qed

lemma select_chunks_indices:
  assumes fit: "segments_fit st" and c: "sc_concurrency cfg \<noteq> 0"
  obtains js where "segment_select_chunks cfg st m p = map (seg_of st) js"
    and "distinct js" and "set js \<subseteq> set (pending_segments st p)"
    and "length js = min (unat m) (length (pending_segments st p))"
proof (cases "sc_strategy cfg = SegmentStrategyLeftHeavy")
  case True
  have "ds_total_size st \<noteq> 0" using fit by (simp add: segments_fit_def)
  then show ?thesis using True that [of "take (unat m) (pending_segments st p)"]
    by (simp add: segment_select_chunks_def left_heavy_eq distinct_take set_take_subset)
next
  case False
  show ?thesis
    by (rule balanced_indices [OF fit c, of m p]) (rule that, simp_all add: segment_select_chunks_def False)
qed

lemma seg_of_disjoint:
  assumes "segments_fit st" "i < download_state_segment_count st" "j < download_state_segment_count st" "i \<noteq> j"
  shows "range_bytes (seg_of st i) \<inter> range_bytes (seg_of st j) = {}"
  using assms seg_of_mem_iff [OF assms(1)] by (auto simp: word_unat_eq_iff)


lemma next_reserve_end_nat:
  assumes "segments_fit st" and "e < ds_total_size st - 1"
  defines "new_end \<equiv> (let n = e + 1 + effective_chunk_size st - 1 in
      if n > ds_total_size st - 1 then ds_total_size st - 1 else n)"
  shows "unat (e + 1) = Suc (unat e)"
    and "unat new_end = min (unat e + chunk_len st) (file_len st - 1)"
    and "e < new_end"
proof -
  obtain m where m: "file_len st = Suc m" "unat (ds_total_size st - 1) = m"
    using assms(1) u64_pred [of "ds_total_size st"] by (auto simp: segments_fit_def)
  have fit: "Suc m + chunk_len st \<le> 9223372036854775808"
    using assms(1) m by (simp add: segments_fit_def)
  have e: "unat e < m" using assms(2) m by (simp add: word_less_nat_alt)
  show "unat (e + 1) = Suc (unat e)" using assms(2) by (rule u64_Suc_less)
  have "unat (e + effective_chunk_size st) = unat e + chunk_len st"
    using e fit by (intro unat_add_small) simp
  then show new_end: "unat new_end = min (unat e + chunk_len st) (file_len st - 1)"
    by (auto simp: new_end_def Let_def m word_less_nat_alt)
  show "e < new_end"
    using e m chunk_len_pos [of st] unfolding word_less_nat_alt new_end by simp
qed

lemma range_overlaps_in_flight_iff:
  "range_overlaps_in_flight rs s e \<longleftrightarrow> (\<exists>r\<in>set rs. segment_ranges_overlap s e (br_start r) (br_end r))"
  by (induction rs s e rule: range_overlaps_in_flight.induct) auto

lemma segment_ranges_overlap_iff:
  "segment_ranges_overlap a b c d \<longleftrightarrow> {unat a..unat b} \<inter> {unat c..unat d} \<noteq> {}"
  by (auto simp: segment_ranges_overlap_def u64_order)

lemma next_reserve_end_spec:
  assumes "state_wf st" and "segments_fit st" and "r = segment_next_reserve_end st in_flight e"
  shows "r = e \<or> e < r \<and> r < ds_total_size st \<and> unat r - unat e \<le> chunk_len st
     \<and> \<not> {unat e + 1..unat r} \<subseteq> covered (ds_done_ranges st)
     \<and> (\<forall>q\<in>set in_flight. {unat e + 1..unat r} \<inter> range_bytes q = {})"
proof (cases "r = e")
  case False
  have t: "ds_total_size st \<noteq> 0" using assms(2) by (simp add: segments_fit_def)
  define new_end where "new_end = (let n = e + 1 + effective_chunk_size st - 1 in
      if n > ds_total_size st - 1 then ds_total_size st - 1 else n)"
  have lt: "e < ds_total_size st - 1" and r: "r = new_end"
    and nd: "\<not> download_state_is_range_done st (e + 1) new_end"
    and no: "\<not> range_overlaps_in_flight in_flight (e + 1) new_end"
    using assms(3) False t
    by (auto simp: segment_next_reserve_end_def Let_def new_end_def split: if_splits)
  note nat = next_reserve_end_nat [OF assms(2) lt, folded new_end_def]
  have "unat new_end < file_len st" using nat(2) file_len_pos [OF assms(2)] by simp
  moreover have "unat new_end - unat e \<le> chunk_len st" using nat(2) by simp
  moreover have "\<not> {unat e + 1..unat new_end} \<subseteq> covered (ds_done_ranges st)"
  proof -
    have "e + 1 \<le> new_end" using nat(1,3) by (simp add: u64_order)
    then have "\<not> {Suc (unat e)..unat new_end} \<subseteq> covered (ds_done_ranges st)"
      using nd assms(1) nat(1) by (simp add: state_wf_def is_range_done_iff)
    then show ?thesis by simp
  qed
  moreover have "{unat e + 1..unat new_end} \<inter> range_bytes q = {}" if "q \<in> set in_flight" for q
    using no that nat(1) by (auto simp: range_overlaps_in_flight_iff segment_ranges_overlap_iff range_bytes_def)
  ultimately show ?thesis using nat(3) by (simp add: r word_less_nat_alt)
qed simp


lemma balanced_firsts_mem:
  assumes fit: "segments_fit st" and c: "concurrency \<noteq> 0"
    and i: "i \<in> set (pending_segments st p)"
  obtains j where "j \<in> set (balanced_firsts st concurrency p)" and "unat j \<le> unat i"
    and "unat j div unat (balanced_bucket_size st concurrency)
      = unat i div unat (balanced_bucket_size st concurrency)"
proof -
  let ?n = "download_state_segment_count st" and ?c = "balanced_buckets st concurrency"
  let ?z = "balanced_bucket_size st concurrency"
  define b where "b = unat i div unat ?z"
  have i': "i < ?n" "pending st p i" using i by (auto simp: set_pending_segments)
  have b: "b < unat ?c" and z: "0 < unat ?z"
    using bucket_cover [OF fit c i'(1)] by (simp_all add: b_def)
  define w where "w = (of_nat b :: u64)"
  have w: "unat w = b" "w < ?c" using b by (simp_all add: w_def u64_of_nat_cancel u64_order)
  have "b * unat ?z \<le> unat i" "unat i < Suc b * unat ?z"
    using z by (simp_all add: b_def) (metis dividend_less_div_times mult_Suc)
  then have "i \<in> {w * ?z..<min (w * ?z + ?z) ?n}"
    using i'(1) bucket_nat [OF fit c w(2)] w(1) by (simp add: u64_order)
  then have "i \<in> set (filter (pending st p) (words_from (w * ?z) (min (w * ?z + ?z) ?n)))"
    using i'(2) by simp
  then obtain j rest where F: "filter (pending st p) (words_from (w * ?z) (min (w * ?z + ?z) ?n)) = j # rest"
    by (metis list.set_cases)
  have j: "j \<in> set (bucket_first st p ?n ?z w)" by (simp add: bucket_first_def F)
  have "sorted (map unat (words_from (w * ?z) (min (w * ?z + ?z) ?n)))"
    by (simp add: map_unat_words_from)
  then have "sorted (map unat (j # rest))" using F sorted_filter by metis
  moreover have "i \<in> set (j # rest)" using \<open>i \<in> set (filter _ _)\<close> F by simp
  ultimately have "unat j \<le> unat i" by auto
  moreover have "j \<in> set (balanced_firsts st concurrency p)"
    using j w(2) by (auto simp: balanced_firsts_def)
  ultimately show ?thesis using that [of j] bucket_first_mem(2) [OF fit c w(2) j] w(1) by (simp add: b_def)
qed


subsection \<open>Properties\<close>

definition sample_state :: DownloadState where
  "sample_state = calloc_state\<lparr>ds_total_size := 10, ds_chunk_size := 3,
     ds_done_ranges := [\<lparr>br_start = 3, br_end = 5\<rparr>], ds_done_range_capacity := 4\<rparr>"

definition sample_cfg :: DownloadSegmentConfig where
  "sample_cfg = \<lparr>sc_enabled = True, sc_strategy = SegmentStrategyBalanced, sc_concurrency = 2,
     sc_chunk_size = 3, sc_min_file_size = 1, sc_left_heavy_front_ratio = 0\<rparr>"

lemma sample_fit: "segments_fit sample_state"
  by (simp add: segments_fit_def sample_state_def effective_chunk_size_def)

lemma sample_wf: "state_wf sample_state"
  by (auto simp: state_wf_def sample_state_def calloc_state_def ranges_wf_def range_ok_def
      range_bytes_def covered_def)

text \<open>Cutting the file into segments (segment_chunk_range for the indices below
  segment_count) covers every byte of the file exactly once, and no segment is empty or longer
  than the chunk size.  The bound on the sizes is the one under which the 64-bit computations
  do not wrap.\<close>

theorem segments_tile:
  assumes "segments_fit st"
  shows "(\<Union>i\<in>{i. i < download_state_segment_count st}. range_bytes (seg_of st i)) = {..<file_len st}
    \<and> (\<forall>i j. i < download_state_segment_count st \<longrightarrow> j < download_state_segment_count st \<longrightarrow> i \<noteq> j
        \<longrightarrow> range_bytes (seg_of st i) \<inter> range_bytes (seg_of st j) = {})
    \<and> (\<forall>i. i < download_state_segment_count st
        \<longrightarrow> 0 < card (range_bytes (seg_of st i)) \<and> card (range_bytes (seg_of st i)) \<le> chunk_len st)"
proof (intro conjI allI impI)
  have "n \<in> (\<Union>i\<in>{i. i < download_state_segment_count st}. range_bytes (seg_of st i))"
    if "n < file_len st" for n
  proof -
    have b: "n div chunk_len st < 18446744073709551616"
      using that u64_bound [of "ds_total_size st"] div_le_dividend [of n "chunk_len st"] by linarith
    define w where "w = (of_nat (n div chunk_len st) :: u64)"
    have w: "unat w = n div chunk_len st"
      unfolding w_def by (rule unat_of_nat_small [OF b])
    have "unat w * chunk_len st \<le> n" by (simp add: w)
    then have i: "w < download_state_segment_count st"
      using that by (simp add: segment_index_iff [OF assms])
    then show ?thesis using seg_of_mem_iff [OF assms i] w that by auto
  qed
  then show "(\<Union>i\<in>{i. i < download_state_segment_count st}. range_bytes (seg_of st i)) = {..<file_len st}"
    using seg_of_mem_iff [OF assms] by auto
next
  fix i assume i: "i < download_state_segment_count st"
  note nat = seg_of_nat [OF assms i]
  have "card (range_bytes (seg_of st i)) = Suc (hi_of (seg_of st i)) - lo_of (seg_of st i)"
    by (simp add: range_bytes_def)
  then show "0 < card (range_bytes (seg_of st i))" and "card (range_bytes (seg_of st i)) \<le> chunk_len st"
    using nat chunk_len_pos [of st] unfolding range_ok_def nat(1,2) by linarith+
qed (rule seg_of_disjoint [OF assms])

theorem segments_tile_witness:
  "(\<Union>i\<in>{i. i < download_state_segment_count sample_state}. range_bytes (seg_of sample_state i)) = {..<file_len sample_state}"
  using segments_tile [OF sample_fit] by blast

text \<open>C30. segment_select_chunks, under either strategy, returns min(max_count, pending) segments;
  each is a segment of the file that is not done and is accepted by the predicate, and no two of
  them share a byte.\<close>

theorem segment_select_chunks_correct:
  assumes fit: "segments_fit st" and c: "sc_concurrency cfg \<noteq> 0"
    and out: "out = segment_select_chunks cfg st max_count predicate"
    and P: "P = {i. i < download_state_segment_count st \<and> pending st predicate i}"
  shows "length out = min (unat max_count) (card P)
    \<and> set out \<subseteq> seg_of st ` P
    \<and> (\<forall>a b. a < b \<longrightarrow> b < length out \<longrightarrow> range_bytes (out ! a) \<inter> range_bytes (out ! b) = {})"
proof -
  obtain js where js: "out = map (seg_of st) js" "distinct js"
      "set js \<subseteq> set (pending_segments st predicate)"
      "length js = min (unat max_count) (length (pending_segments st predicate))"
    using select_chunks_indices [OF fit c] unfolding out by metis
  have P': "set (pending_segments st predicate) = P" by (auto simp: P set_pending_segments)
  then have "card P = length (pending_segments st predicate)"
    using distinct_card [OF distinct_pending_segments] by metis
  moreover have "range_bytes (out ! a) \<inter> range_bytes (out ! b) = {}" if "a < b" "b < length out" for a b
  proof -
    have "js ! a \<noteq> js ! b" using that js(1,2) by (simp add: nth_eq_iff_index_eq)
    moreover have "js ! a \<in> P" "js ! b \<in> P" using that js(1) by (auto intro!: subsetD [OF js(3), unfolded P'])
    ultimately show ?thesis using that js(1) seg_of_disjoint [OF fit] by (simp add: P)
  qed
  ultimately show ?thesis using js P' by auto
qed

theorem segment_select_chunks_correct_witness:
  "set (segment_select_chunks sample_cfg sample_state 2 None)
    \<subseteq> seg_of sample_state ` {i. i < download_state_segment_count sample_state \<and> pending sample_state None i}"
  using segment_select_chunks_correct [of sample_state sample_cfg _ 2 None, OF sample_fit _ refl refl]
  by (simp add: sample_cfg_def)

text \<open>The balanced strategy spreads its requests: when max_count allows one segment per bucket,
  the bucket of every pending segment contributes a segment at or before it, and the left-heavy
  strategy returns the first max_count pending segments in file order.\<close>

theorem segment_strategies_order:
  assumes fit: "segments_fit st" and c: "concurrency \<noteq> 0" and m: "max_count \<noteq> 0"
    and room: "balanced_buckets st concurrency \<le> max_count"
  shows "(\<forall>i\<in>set (pending_segments st p). \<exists>j. seg_of st j \<in> set (segment_select_balanced st concurrency max_count p)
       \<and> unat j \<le> unat i
       \<and> unat j div unat (balanced_bucket_size st concurrency) = unat i div unat (balanced_bucket_size st concurrency))
    \<and> segment_select_left_heavy st max_count p
      = map (seg_of st) (take (unat max_count) (pending_segments st p))"
proof (intro conjI ballI)
  fix i assume i: "i \<in> set (pending_segments st p)"
  obtain j where j: "j \<in> set (balanced_firsts st concurrency p)" "unat j \<le> unat i"
      "unat j div unat (balanced_bucket_size st concurrency) = unat i div unat (balanced_bucket_size st concurrency)"
    by (rule balanced_firsts_mem [OF fit c i])
  have "length (balanced_firsts st concurrency p) \<le> unat max_count"
    using balanced_firsts_props(3) [OF fit c, of p] room by (simp add: word_le_nat_alt)
  then have "j \<in> set (take (unat max_count) (balanced_firsts st concurrency p))" using j(1) by simp
  then have "seg_of st j \<in> set (segment_select_balanced st concurrency max_count p)"
    unfolding balanced_eq [OF fit c m refl] by simp
  then show "\<exists>j. seg_of st j \<in> set (segment_select_balanced st concurrency max_count p)
       \<and> unat j \<le> unat i
       \<and> unat j div unat (balanced_bucket_size st concurrency) = unat i div unat (balanced_bucket_size st concurrency)"
    using j by blast
qed (use fit in \<open>simp add: left_heavy_eq segments_fit_def\<close>)

theorem segment_strategies_order_witness:
  "segment_select_left_heavy sample_state 2 None
    = map (seg_of sample_state) (take 2 (pending_segments sample_state None))"
proof -
  have "balanced_buckets sample_state 2 \<le> 2" by (simp add: balanced_buckets_def)
  then show ?thesis
    using segment_strategies_order [OF sample_fit, of 2 2 None] by simp
qed

text \<open>C29. segment_next_reserve_end either leaves the end of the reservation, or extends it inside
  the file by at most one chunk over bytes that are not all done and that no in-flight reservation
  holds.\<close>

theorem segment_next_reserve_end_correct:
  assumes "state_wf st" and "segments_fit st" and "r = segment_next_reserve_end st in_flight e"
  shows "r = e \<or> e < r \<and> r < ds_total_size st \<and> unat r - unat e \<le> chunk_len st
     \<and> \<not> {unat e + 1..unat r} \<subseteq> covered (ds_done_ranges st)
     \<and> (\<forall>q\<in>set in_flight. {unat e + 1..unat r} \<inter> range_bytes q = {})"
  using assms by (rule next_reserve_end_spec)

theorem segment_next_reserve_end_correct_witness:
  "segment_next_reserve_end sample_state [] 5 = 8
    \<and> \<not> {unat (5 :: u64) + 1..unat (8 :: u64)} \<subseteq> covered (ds_done_ranges sample_state)"
proof -
  have "segment_next_reserve_end sample_state [] 5 = 8" by code_simp
  then show ?thesis using segment_next_reserve_end_correct [OF sample_wf sample_fit, of 8 "[]" 5] by simp
qed

end
