(* ===== verification/CLib.thy ===== *)
theory CLib
  imports Prelude
begin

text \<open>
  The functions of the C library the code uses on strings and bytes.  A string is the list of
  its characters without the terminating NUL; a pointer into a string is the remaining suffix,
  and \<open>NULL\<close> is \<open>None\<close>.  A buffer of bytes is a list of characters too.  The character
  classes are those of the \<open>C\<close> locale.
\<close>

type_synonym bytes = "char list"

subsection \<open>Character classes\<close>

definition code_of :: "char \<Rightarrow> nat" where
  "code_of c = of_char c"

definition isspace :: "char \<Rightarrow> bool" where
  "isspace c \<longleftrightarrow> code_of c = 32 \<or> (9 \<le> code_of c \<and> code_of c \<le> 13)"

definition isdigit :: "char \<Rightarrow> bool" where
  "isdigit c \<longleftrightarrow> 48 \<le> code_of c \<and> code_of c \<le> 57"

definition isupper :: "char \<Rightarrow> bool" where
  "isupper c \<longleftrightarrow> 65 \<le> code_of c \<and> code_of c \<le> 90"

definition islower :: "char \<Rightarrow> bool" where
  "islower c \<longleftrightarrow> 97 \<le> code_of c \<and> code_of c \<le> 122"

definition isalpha :: "char \<Rightarrow> bool" where
  "isalpha c \<longleftrightarrow> isupper c \<or> islower c"

definition isalnum :: "char \<Rightarrow> bool" where
  "isalnum c \<longleftrightarrow> isalpha c \<or> isdigit c"

definition tolower :: "char \<Rightarrow> char" where
  "tolower c = (if isupper c then char_of (code_of c + 32) else c)"

definition strlower :: "string \<Rightarrow> string" where
  "strlower s = map tolower s"

text \<open>\<open>strcasecmp(a, b) == 0\<close> and \<open>strncmp(s, p, strlen(p)) == 0\<close>, \<open>strncasecmp\<close>.\<close>

definition strcaseeq :: "string \<Rightarrow> string \<Rightarrow> bool" where
  "strcaseeq a b \<longleftrightarrow> strlower a = strlower b"

fun starts_with :: "string \<Rightarrow> string \<Rightarrow> bool" where
  "starts_with [] s = True"
| "starts_with (p # ps) [] = False"
| "starts_with (p # ps) (c # cs) = (p = c \<and> starts_with ps cs)"

definition starts_with_nocase :: "string \<Rightarrow> string \<Rightarrow> bool" where
  "starts_with_nocase p s = starts_with (strlower p) (strlower s)"

lemma starts_with_iff: "starts_with p s \<longleftrightarrow> (\<exists>t. s = p @ t)"
  by (induction p s rule: starts_with.induct) auto

lemma starts_with_append [simp]: "starts_with p (p @ s)"
  by (auto simp: starts_with_iff)

lemma starts_with_length: "starts_with p s \<Longrightarrow> length p \<le> length s"
  by (auto simp: starts_with_iff)

subsection \<open>Searching\<close>

text \<open>\<open>strchr\<close> and \<open>strstr\<close> return the suffix at the first match, \<open>strrchr\<close> the suffix at
  the last one.\<close>

fun strchr :: "string \<Rightarrow> char \<Rightarrow> string option" where
  "strchr [] c = None"
| "strchr (x # xs) c = (if x = c then Some (x # xs) else strchr xs c)"

fun strrchr :: "string \<Rightarrow> char \<Rightarrow> string option" where
  "strrchr [] c = None"
| "strrchr (x # xs) c =
     (case strrchr xs c of Some t \<Rightarrow> Some t | None \<Rightarrow> if x = c then Some (x # xs) else None)"

fun strstr :: "string \<Rightarrow> string \<Rightarrow> string option" where
  "strstr [] p = (if p = [] then Some [] else None)"
| "strstr (x # xs) p = (if starts_with p (x # xs) then Some (x # xs) else strstr xs p)"

text \<open>The part of \<open>s\<close> before the suffix \<open>t\<close>: the pointer difference \<open>t - s\<close> as a string.\<close>

definition upto_suffix :: "string \<Rightarrow> string \<Rightarrow> string" where
  "upto_suffix s t = take (length s - length t) s"

lemma strchr_Some: "strchr s c = Some t \<Longrightarrow> \<exists>p u. s = p @ t \<and> t = c # u \<and> c \<notin> set p"
proof (induction s)
  case (Cons x xs)
  show ?case
  proof (cases "x = c")
    case True
    then show ?thesis using Cons.prems by (intro exI [of _ "[]"] exI [of _ xs]) simp
  next
    case False
    then obtain p u where "xs = p @ t" "t = c # u" "c \<notin> set p" using Cons by auto
    then show ?thesis using False by (intro exI [of _ "x # p"] exI [of _ u]) simp
  qed
qed simp

lemma strchr_None: "strchr s c = None \<longleftrightarrow> c \<notin> set s"
  by (induction s) auto

lemma strchr_append: "c \<notin> set p \<Longrightarrow> strchr (p @ c # u) c = Some (c # u)"
  by (induction p) auto

lemma strrchr_Some: "strrchr s c = Some t \<Longrightarrow> \<exists>p u. s = p @ t \<and> t = c # u \<and> c \<notin> set u"
proof (induction s arbitrary: t)
  case (Cons x xs)
  have none: "strrchr ys c = None \<Longrightarrow> c \<notin> set ys" for ys
    by (induction ys) (auto split: option.splits)
  show ?case
  proof (cases "strrchr xs c")
    case None
    then show ?thesis using Cons.prems none by (auto split: if_splits)
  next
    case (Some t')
    then have t: "t' = t" using Cons.prems by simp
    obtain p u where "xs = p @ t" "t = c # u" "c \<notin> set u" using Cons.IH Some t by blast
    then show ?thesis by (intro exI [of _ "x # p"] exI [of _ u]) simp
  qed
qed simp

lemma strrchr_None: "strrchr s c = None \<longleftrightarrow> c \<notin> set s"
  by (induction s) (auto split: option.splits)

lemma strrchr_append: "c \<notin> set u \<Longrightarrow> strrchr (p @ c # u) c = Some (c # u)"
  by (induction p) (auto simp: strrchr_None [THEN iffD2])

lemma strstr_Some: "strstr s p = Some t \<Longrightarrow> \<exists>a b. s = a @ t \<and> t = p @ b"
proof (induction s p rule: strstr.induct)
  case (2 x xs p)
  show ?case
  proof (cases "starts_with p (x # xs)")
    case True
    then show ?thesis using 2 by (auto simp: starts_with_iff)
  next
    case False
    then obtain a b where "xs = a @ t" "t = p @ b" using 2 by auto
    then show ?thesis by (intro exI [of _ "x # a"] exI [of _ b]) simp
  qed
qed (auto split: if_splits)

lemma upto_suffix_append [simp]: "upto_suffix (p @ t) t = p"
  by (simp add: upto_suffix_def)

subsection \<open>Numbers\<close>

definition digit_value :: "char \<Rightarrow> nat option" where
  "digit_value c =
     (if isdigit c then Some (code_of c - 48)
      else if isupper c then Some (code_of c - 55)
      else if islower c then Some (code_of c - 87)
      else None)"

definition digit_in_base :: "nat \<Rightarrow> char \<Rightarrow> bool" where
  "digit_in_base b c = (case digit_value c of None \<Rightarrow> False | Some d \<Rightarrow> d < b)"

definition digits_value :: "nat \<Rightarrow> string \<Rightarrow> nat" where
  "digits_value b ds = foldl (\<lambda>n c. n * b + the (digit_value c)) 0 ds"

text \<open>\<open>strtoull(s, &end, base)\<close> for bases 10 and 16: white space, an optional sign, for base 16 an
  optional \<open>0x\<close> that is followed by a digit, and the longest run of digits; the value saturates
  at \<open>ULLONG_MAX\<close> and a minus sign negates it modulo \<open>2^64\<close>.  The second component is
  \<open>end\<close>, the whole string when nothing was converted.  \<open>unsigned long\<close> is 64 bits wide too.\<close>

definition skip_space :: "string \<Rightarrow> string" where
  "skip_space s = dropWhile isspace s"

definition strip_0x :: "nat \<Rightarrow> string \<Rightarrow> string" where
  "strip_0x b s =
     (if b = 16 \<and> length s > 2 \<and> s ! 0 = CHR ''0'' \<and> tolower (s ! 1) = CHR ''x''
         \<and> digit_in_base 16 (s ! 2)
      then drop 2 s else s)"

definition strtoull :: "nat \<Rightarrow> string \<Rightarrow> u64 \<times> string" where
  "strtoull b s =
     (let t = skip_space s;
          neg = (case t of [] \<Rightarrow> False | c # _ \<Rightarrow> c = CHR ''-'');
          t = (case t of [] \<Rightarrow> [] | c # r \<Rightarrow> if c = CHR ''-'' \<or> c = CHR ''+'' then r else t);
          t = strip_0x b t;
          ds = takeWhile (digit_in_base b) t;
          n = digits_value b ds;
          v = (if n > 18446744073709551615 then UINT64_MAX else of_nat n)
      in if ds = [] then (0, s) else (if neg \<and> n \<le> 18446744073709551615 then - v else v, drop (length ds) t))"

definition strtoull_value :: "nat \<Rightarrow> string \<Rightarrow> u64" where
  "strtoull_value b s = fst (strtoull b s)"

definition strtoull_failed :: "nat \<Rightarrow> string \<Rightarrow> bool" where
  "strtoull_failed b s \<longleftrightarrow> snd (strtoull b s) = s"


subsection \<open>Printing numbers\<close>

fun show_nat :: "nat \<Rightarrow> string" where
  "show_nat n = (if n < 10 then [char_of (48 + n)] else show_nat (n div 10) @ [char_of (48 + n mod 10)])"

declare show_nat.simps [simp del]

lemma code_of_char_of [simp]: "n < 256 \<Longrightarrow> code_of (char_of n) = n"
  by (simp add: code_of_def take_bit_nat_eq_self)

lemma char_of_code_of [simp]: "char_of (code_of c) = c"
  by (simp add: code_of_def)

lemma code_of_inj: "code_of c = code_of d \<Longrightarrow> c = d"
  by (metis char_of_code_of)

lemma code_of_less: "code_of c < 256"
  by (cases c) (simp add: code_of_def)

lemma digit_value_digit [simp]: "n < 10 \<Longrightarrow> digit_value (char_of (48 + n)) = Some n"
  by (simp add: digit_value_def isdigit_def)

lemma digits_value_append [simp]:
  "digits_value b (ds @ [c]) = digits_value b ds * b + the (digit_value c)"
  by (simp add: digits_value_def)

lemma digits_value_show_nat [simp]: "digits_value 10 (show_nat n) = n"
proof (induction n rule: show_nat.induct)
  case (1 n)
  then show ?case
    by (subst show_nat.simps) (auto simp: digits_value_def [of 10 "[_]"])
qed

lemma show_nat_digits: "c \<in> set (show_nat n) \<Longrightarrow> isdigit c"
proof (induction n rule: show_nat.induct)
  case (1 n)
  then show ?case
    by (subst (asm) show_nat.simps) (auto simp: isdigit_def split: if_splits)
qed

lemma show_nat_nonempty [simp]: "show_nat n \<noteq> []"
  by (subst show_nat.simps) simp

lemma show_nat_inj: "show_nat m = show_nat n \<Longrightarrow> m = n"
  by (metis digits_value_show_nat)

lemma isdigit_in_base: "isdigit c \<Longrightarrow> digit_in_base 10 c"
  by (auto simp: digit_in_base_def digit_value_def isdigit_def)

lemma isdigit_not_space: "isdigit c \<Longrightarrow> \<not> isspace c"
  by (auto simp: isdigit_def isspace_def)

lemma isdigit_not_sign: "isdigit c \<Longrightarrow> c \<noteq> CHR ''-'' \<and> c \<noteq> CHR ''+''"
  by (auto simp: isdigit_def code_of_def)

text \<open>A printed number followed by something that is no digit parses to itself.\<close>

lemma strtoull_show_nat:
  assumes "n \<le> 18446744073709551615" and "case r of [] \<Rightarrow> True | c # _ \<Rightarrow> \<not> digit_in_base 10 c"
  shows "strtoull 10 (show_nat n @ r) = (of_nat n, r)"
proof -
  obtain c cs where s: "show_nat n = c # cs" by (cases "show_nat n") auto
  have dig: "\<forall>x\<in>set (show_nat n). isdigit x" using show_nat_digits by blast
  then have c: "isdigit c" by (simp add: s)
  have sp: "skip_space (show_nat n @ r) = show_nat n @ r"
    using isdigit_not_space [OF c] by (simp add: skip_space_def s)
  have tw: "takeWhile (digit_in_base 10) (show_nat n @ r) = show_nat n"
    using dig isdigit_in_base assms(2)
    by (subst takeWhile_append2) (auto simp: takeWhile_eq_Nil_iff split: list.splits)
  have t: "(case show_nat n @ r of [] \<Rightarrow> [] | c # ra \<Rightarrow> if c = CHR ''-'' \<or> c = CHR ''+'' then ra else show_nat n @ r)
      = show_nat n @ r" "(case show_nat n @ r of [] \<Rightarrow> False | c # _ \<Rightarrow> c = CHR ''-'') = False"
    using isdigit_not_sign [OF c] by (simp_all add: s)
  show ?thesis using assms(1)
    unfolding strtoull_def sp Let_def t strip_0x_def by (simp add: tw)
qed

lemma strtoull_value_show_nat [simp]:
  "n \<le> 18446744073709551615 \<Longrightarrow> strtoull_value 10 (show_nat n) = of_nat n"
  using strtoull_show_nat [of n "[]"] by (simp add: strtoull_value_def)

end
