(* ===== verification/Paths.thy ===== *)
theory Paths
  imports CLib
begin

text \<open>
  File names and paths, \<^verbatim>\<open>src/src/file-system.c\<close> on a POSIX system: cleaning a name that came
  from a server, joining it to a directory, the parent directory, and the choice of a
  destination that does not exist yet.  Whether a regular file exists is the argument
  \<open>file_exists\<close>, the answer of \<open>stat\<close>.
\<close>

subsection \<open>Operations\<close>

definition bad_filename_char :: "char \<Rightarrow> bool" where
  "bad_filename_char c \<longleftrightarrow> c = CHR ''/'' \<or> c = CHR 0x5C \<or> c = CHR '':'' \<or> c = CHR ''*''
     \<or> c = CHR ''?'' \<or> c = CHR 0x22 \<or> c = CHR ''<'' \<or> c = CHR ''>'' \<or> c = CHR ''|'' \<or> code_of c < 32"

fun rstrip_dots :: "string \<Rightarrow> string" where
  "rstrip_dots [] = []"
| "rstrip_dots (c # cs) =
     (case rstrip_dots cs of
        [] \<Rightarrow> if c = CHR '' '' \<or> c = CHR ''.'' then [] else [c]
      | r \<Rightarrow> c # r)"

definition sanitize_filename :: "cstring \<Rightarrow> cstring" where
  "sanitize_filename name =
     (case name of None \<Rightarrow> None | Some s \<Rightarrow>
        if s = [] then None
        else let out = rstrip_dots (filter (\<lambda>c. \<not> bad_filename_char c) s)
             in if out = [] then None else Some out)"

definition path_join :: "cstring \<Rightarrow> cstring \<Rightarrow> cstring" where
  "path_join dir name =
     (case (dir, name) of
        (Some d, Some n) \<Rightarrow>
          if d \<noteq> [] \<and> last d \<noteq> CHR ''/'' \<and> last d \<noteq> CHR 0x5C
          then Some (d @ CHR ''/'' # n) else Some (d @ n)
      | _ \<Rightarrow> None)"

definition parent_directory_path :: "cstring \<Rightarrow> cstring" where
  "parent_directory_path path =
     (case path of None \<Rightarrow> None | Some p \<Rightarrow>
        if p = [] then None
        else let copy = rev (dropWhile (\<lambda>c. c = CHR ''/'') (rev p)) in
          case strrchr copy CHR ''/'' of
            None \<Rightarrow> None
          | Some t \<Rightarrow> let dir = upto_suffix copy t in if dir = [] then Some ''/'' else Some dir)"

text \<open>The candidates \<open>stem (n)ext\<close> for n from \<open>k\<close> up; the buffer holds 511 characters.\<close>

definition variant_name :: "string \<Rightarrow> string \<Rightarrow> nat \<Rightarrow> string" where
  "variant_name stem ext n = stem @ '' ('' @ show_nat n @ '')'' @ ext"

fun variant_loop ::
  "(string \<Rightarrow> bool) \<Rightarrow> cstring \<Rightarrow> string \<Rightarrow> string \<Rightarrow> nat \<Rightarrow> nat \<Rightarrow> cstring" where
  "variant_loop file_exists dir stem ext n 0 = None"
| "variant_loop file_exists dir stem ext n (Suc left) =
     (let variant = variant_name stem ext n in
      if length variant \<ge> 512 then None
      else let candidate = (case dir of None \<Rightarrow> variant | Some d \<Rightarrow> the (path_join (Some d) (Some variant)))
           in if \<not> file_exists candidate then Some candidate
              else variant_loop file_exists dir stem ext (Suc n) left)"

text \<open>Directory and name around the last separator, stem and extension around the last dot;
  a leading dot does not start an extension.\<close>

definition split_last_sep :: "string \<Rightarrow> cstring \<times> string" where
  "split_last_sep dest =
     (case strrchr dest CHR ''/'' of
        None \<Rightarrow> (None, dest)
      | Some t \<Rightarrow> (Some (upto_suffix dest t), drop 1 t))"

definition split_ext :: "string \<Rightarrow> string \<times> string" where
  "split_ext filename =
     (case strrchr filename CHR ''.'' of
        None \<Rightarrow> (filename, [])
      | Some dot \<Rightarrow> if dot = filename then (filename, []) else (upto_suffix filename dot, dot))"

definition resolve_unique_dest_path :: "(string \<Rightarrow> bool) \<Rightarrow> cstring \<Rightarrow> cstring" where
  "resolve_unique_dest_path file_exists dest_path =
     (case dest_path of None \<Rightarrow> None | Some dest \<Rightarrow>
        if dest = [] then None
        else if \<not> file_exists dest then Some dest
        else let (dir, filename) = split_last_sep dest; (stem, ext) = split_ext filename
             in variant_loop file_exists dir stem ext 1 9999)"

subsection \<open>Clean names\<close>

definition clean_filename :: "string \<Rightarrow> bool" where
  "clean_filename s \<longleftrightarrow> s \<noteq> [] \<and> (\<forall>c\<in>set s. \<not> bad_filename_char c)
     \<and> last s \<noteq> CHR '' '' \<and> last s \<noteq> CHR ''.''"

lemma rstrip_dots_set: "set (rstrip_dots s) \<subseteq> set s"
  by (induction s) (auto split: list.splits)

lemma rstrip_dots_last:
  "rstrip_dots s \<noteq> [] \<Longrightarrow> last (rstrip_dots s) \<noteq> CHR '' '' \<and> last (rstrip_dots s) \<noteq> CHR ''.''"
  by (induction s) (auto split: list.splits if_splits)

lemma rstrip_dots_id:
  "s \<noteq> [] \<Longrightarrow> last s \<noteq> CHR '' '' \<Longrightarrow> last s \<noteq> CHR ''.'' \<Longrightarrow> rstrip_dots s = s"
  by (induction s) (auto split: list.splits if_splits)

lemma sanitize_filename_clean: "sanitize_filename name = Some s \<Longrightarrow> clean_filename s"
  using rstrip_dots_set rstrip_dots_last
  by (fastforce simp: sanitize_filename_def clean_filename_def Let_def split: option.splits if_splits)

lemma sanitize_filename_fixed: "clean_filename s \<Longrightarrow> sanitize_filename (Some s) = Some s"
  by (simp add: sanitize_filename_def clean_filename_def rstrip_dots_id)

lemma clean_filename_no_slash: "clean_filename s \<Longrightarrow> CHR ''/'' \<notin> set s"
  by (auto simp: clean_filename_def bad_filename_char_def)

lemma clean_filename_not_dots: "clean_filename s \<Longrightarrow> s \<noteq> ''.'' \<and> s \<noteq> ''..''"
  by (auto simp: clean_filename_def)

lemma path_join_parent:
  assumes "clean_filename s" and "d \<noteq> []" and "last d \<noteq> CHR ''/''" and "last d \<noteq> CHR 0x5C"
  shows "parent_directory_path (path_join (Some d) (Some s)) = Some d"
proof -
  have ns: "CHR ''/'' \<notin> set s" using assms(1) by (rule clean_filename_no_slash)
  have "s \<noteq> []" using assms(1) by (simp add: clean_filename_def)
  then have l: "last s \<noteq> CHR ''/''" using ns by (metis last_in_set)
  have strip: "rev (dropWhile (\<lambda>c. c = CHR ''/'') (rev (d @ CHR ''/'' # s))) = d @ CHR ''/'' # s"
    by (rule rev_dropWhile_id) (use l \<open>s \<noteq> []\<close> in simp)
  have join: "path_join (Some d) (Some s) = Some (d @ CHR ''/'' # s)"
    using assms(2-4) unfolding path_join_def by simp
  show ?thesis unfolding join parent_directory_path_def option.case Let_def strip
    using strrchr_append [OF ns, of d] assms(2) by simp
qed

definition candidate :: "cstring \<Rightarrow> string \<Rightarrow> string \<Rightarrow> nat \<Rightarrow> string" where
  "candidate dir stem ext k = (case dir of None \<Rightarrow> variant_name stem ext k
     | Some d \<Rightarrow> the (path_join (Some d) (Some (variant_name stem ext k))))"

lemma variant_loop_Suc:
  "variant_loop fx dir stem ext n (Suc left) =
     (if length (variant_name stem ext n) \<ge> 512 then None
      else if \<not> fx (candidate dir stem ext n) then Some (candidate dir stem ext n)
      else variant_loop fx dir stem ext (Suc n) left)"
  by (simp add: candidate_def Let_def)

lemma variant_loop_Some:
  "variant_loop fx dir stem ext n left = Some p \<Longrightarrow>
   \<not> fx p \<and> (\<exists>k\<ge>n. p = candidate dir stem ext k)"
proof (induction left arbitrary: n)
  case (Suc left)
  show ?case
  proof (cases "fx (candidate dir stem ext n)")
    case False
    then have "p = candidate dir stem ext n"
      using Suc.prems by (simp add: variant_loop_Suc del: variant_loop.simps split: if_split_asm)
    then show ?thesis using False by blast
  next
    case True
    then have "variant_loop fx dir stem ext (Suc n) left = Some p"
      using Suc.prems by (simp add: variant_loop_Suc del: variant_loop.simps split: if_split_asm)
    from Suc.IH [OF this] obtain k where "\<not> fx p" "Suc n \<le> k" "p = candidate dir stem ext k" by blast
    then show ?thesis using Suc_leD by blast
  qed
qed simp

lemma variant_loop_free:
  assumes "\<And>k. n \<le> k \<Longrightarrow> k < n + left \<Longrightarrow> length (variant_name stem ext k) < 512"
    and "n \<le> k" "k < n + left"
    and "\<not> fx (candidate dir stem ext k)"
  shows "variant_loop fx dir stem ext n left \<noteq> None"
  using assms
proof (induction left arbitrary: n)
  case (Suc left)
  show ?case
  proof (cases "k = n")
    case True
    then show ?thesis using Suc.prems(1) [of n] Suc.prems(4) by (simp add: variant_loop_Suc del: variant_loop.simps)
  next
    case False
    have "variant_loop fx dir stem ext (Suc n) left \<noteq> None"
      by (rule Suc.IH) (use Suc.prems False in auto)
    then show ?thesis using Suc.prems(1) [of n] by (simp add: variant_loop_Suc del: variant_loop.simps)
  qed
qed simp


lemma path_join_dir:
  assumes "dir \<noteq> None \<Longrightarrow> the dir \<noteq> [] \<and> last (the dir) \<noteq> CHR ''/'' \<and> last (the dir) \<noteq> CHR 0x5C"
  shows "candidate dir stem ext k = (case dir of None \<Rightarrow> [] | Some d \<Rightarrow> d @ ''/'') @ variant_name stem ext k"
  using assms by (cases dir) (auto simp: candidate_def path_join_def)

lemma split_last_sep_spec:
  assumes "split_last_sep dest = (dir, base)"
  shows "case dir of None \<Rightarrow> dest = base \<and> CHR ''/'' \<notin> set base
         | Some d \<Rightarrow> dest = d @ CHR ''/'' # base \<and> CHR ''/'' \<notin> set base"
proof (cases "strrchr dest CHR ''/''")
  case None
  then have "CHR ''/'' \<notin> set dest" by (simp add: strrchr_None)
  then show ?thesis using assms None by (auto simp: split_last_sep_def)
next
  case (Some t)
  then obtain a u where "dest = a @ t" "t = CHR ''/'' # u" "CHR ''/'' \<notin> set u"
    using strrchr_Some by blast
  then show ?thesis using assms Some by (auto simp: split_last_sep_def)
qed

lemma split_ext_spec:
  assumes "split_ext base = (stem, ext)"
  shows "base = stem @ ext"
proof (cases "strrchr base CHR ''.''")
  case None
  then show ?thesis using assms by (simp add: split_ext_def)
next
  case (Some t)
  then obtain a where "base = a @ t" using strrchr_Some by blast
  then show ?thesis using assms Some by (auto simp: split_ext_def split: if_splits)
qed

lemma resolve_unique_cases:
  assumes "resolve_unique_dest_path fx (Some dest) = Some p"
  shows "\<not> fx p \<and> (p = dest \<or>
    (\<exists>dir base stem ext k. (case dir of None \<Rightarrow> dest = base \<and> CHR ''/'' \<notin> set base
         | Some d \<Rightarrow> dest = d @ CHR ''/'' # base \<and> CHR ''/'' \<notin> set base)
       \<and> base = stem @ ext \<and> 1 \<le> k \<and> p = candidate dir stem ext k))"
proof (cases "fx dest")
  case False
  then show ?thesis using assms by (simp add: resolve_unique_dest_path_def split: if_splits)
next
  case True
  then have ne: "dest \<noteq> []" using assms by (auto simp: resolve_unique_dest_path_def)
  obtain dir base where db: "split_last_sep dest = (dir, base)" by fastforce
  obtain stem ext where stem: "split_ext base = (stem, ext)" by fastforce
  have "variant_loop fx dir stem ext 1 9999 = Some p"
    using assms True ne unfolding resolve_unique_dest_path_def
    by (simp add: db stem del: variant_loop.simps One_nat_def)
  then obtain k where k: "\<not> fx p" "1 \<le> k" "p = candidate dir stem ext k"
    using variant_loop_Some by blast
  have d: "case dir of None \<Rightarrow> dest = base \<and> CHR ''/'' \<notin> set base
         | Some d \<Rightarrow> dest = d @ CHR ''/'' # base \<and> CHR ''/'' \<notin> set base"
    using db by (rule split_last_sep_spec)
  have "base = stem @ ext" using stem by (rule split_ext_spec)
  then show ?thesis using k d by blast
qed

subsection \<open>Properties\<close>

text \<open>C31. A name that passes through sanitize_filename is not empty, contains no separator and no
  character below 32, is neither . nor .., and is left unchanged by a second pass; joined to a
  directory it names an entry of exactly that directory.\<close>

theorem sanitize_filename_safe:
  assumes "sanitize_filename name = Some s" and "d \<noteq> []" and "last d \<noteq> CHR ''/''" and "last d \<noteq> CHR 0x5C"
  shows "s \<noteq> [] \<and> CHR ''/'' \<notin> set s \<and> (\<forall>c\<in>set s. 32 \<le> code_of c) \<and> s \<noteq> ''.'' \<and> s \<noteq> ''..''
    \<and> sanitize_filename (Some s) = Some s
    \<and> parent_directory_path (path_join (Some d) (Some s)) = Some d"
proof -
  note c = sanitize_filename_clean [OF assms(1)]
  have "\<forall>x\<in>set s. 32 \<le> code_of x" "s \<noteq> []"
    using c by (auto simp: clean_filename_def bad_filename_char_def not_less)
  then show ?thesis
    using c clean_filename_no_slash [OF c] clean_filename_not_dots [OF c]
      sanitize_filename_fixed [OF c] path_join_parent [OF c assms(2-4)] by simp
qed

theorem sanitize_filename_safe_witness:
  "sanitize_filename (Some ''../etc/passwd.'') = Some ''..etcpasswd''
    \<and> parent_directory_path (path_join (Some ''/tmp'') (Some ''..etcpasswd'')) = Some ''/tmp''"
proof -
  have "sanitize_filename (Some ''../etc/passwd.'') = Some ''..etcpasswd''" by code_simp
  from sanitize_filename_safe [OF this, of "''/tmp''"] this show ?thesis by simp
qed

text \<open>The destination returned by resolve_unique_dest_path does not exist, and it is either the
  requested one or the requested one with a number inserted before the extension of its last
  component, in the same directory.\<close>

theorem resolve_unique_dest_path_fresh:
  assumes "resolve_unique_dest_path file_exists (Some dest) = Some p"
    and "\<And>d f. dest = d @ CHR ''/'' # f \<Longrightarrow> d \<noteq> [] \<and> last d \<noteq> CHR ''/'' \<and> last d \<noteq> CHR 0x5C"
  shows "\<not> file_exists p \<and> (p = dest \<or>
    (\<exists>prefix stem ext k. dest = prefix @ stem @ ext \<and> CHR ''/'' \<notin> set (stem @ ext) \<and> 1 \<le> k
       \<and> p = prefix @ stem @ '' ('' @ show_nat k @ '')'' @ ext))"
proof (cases "p = dest")
  case True
  then show ?thesis using resolve_unique_cases [OF assms(1)] by blast
next
  case False
  then obtain dir base stem ext k where *: "\<not> file_exists p"
      "case dir of None \<Rightarrow> dest = base \<and> CHR ''/'' \<notin> set base
         | Some d \<Rightarrow> dest = d @ CHR ''/'' # base \<and> CHR ''/'' \<notin> set base"
      "base = stem @ ext" "1 \<le> k" "p = candidate dir stem ext k"
    using resolve_unique_cases [OF assms(1)] by blast
  let ?pre = "case dir of None \<Rightarrow> [] | Some d \<Rightarrow> d @ ''/''"
  have "p = ?pre @ variant_name stem ext k"
    using *(2,5) assms(2) by (subst *(5), intro path_join_dir) (auto split: option.splits)
  then have "p = ?pre @ stem @ '' ('' @ show_nat k @ '')'' @ ext" by (simp only: variant_name_def)
  moreover have "dest = ?pre @ stem @ ext" "CHR ''/'' \<notin> set (stem @ ext)"
    using *(2,3) by (auto split: option.splits)
  ultimately show ?thesis using *(1,4) by blast
qed

theorem resolve_unique_dest_path_fresh_witness:
  "resolve_unique_dest_path (\<lambda>p. p = ''d/a.txt'') (Some ''d/a.txt'') = Some ''d/a (1).txt''
    \<and> \<not> (\<lambda>p. p = ''d/a.txt'') ''d/a (1).txt''"
proof -
  have run: "resolve_unique_dest_path (\<lambda>p. p = ''d/a.txt'') (Some ''d/a.txt'') = Some ''d/a (1).txt''"
    by code_simp
  have "d \<noteq> [] \<and> last d \<noteq> CHR ''/'' \<and> last d \<noteq> CHR 0x5C" if "''d/a.txt'' = d @ CHR ''/'' # f" for d f
    using that by (auto simp: Cons_eq_append_conv)
  from resolve_unique_dest_path_fresh [OF run this] run show ?thesis by blast
qed

end
