(* ===== verification/Http.thy ===== *)
theory Http
  imports CLib
begin

text \<open>
  URL and header helpers of \<^verbatim>\<open>src/src/http.c\<close>: the name at the end of a URL, the filename
  of a Content-Disposition header, the resolution of a Location header and the redirect status
  codes.  The URL functions of the mongoose library are arguments: \<open>mg_url_host\<close> gives the
  host of a URL and \<open>mg_url_decode\<close> the decoded text, or \<open>None\<close> when decoding fails or the
  result is empty or too long for its buffer.
\<close>

subsection \<open>Operations\<close>

definition trim_quotes :: "string \<Rightarrow> string" where
  "trim_quotes value =
     (if length value \<ge> 2 \<and> ((hd value = CHR 0x22 \<and> last value = CHR 0x22)
          \<or> (hd value = CHR 0x27 \<and> last value = CHR 0x27))
      then butlast (tl value) else value)"

definition rtrim :: "string \<Rightarrow> string" where
  "rtrim s = rev (dropWhile isspace (rev s))"

definition trim_whitespace :: "string \<Rightarrow> string" where
  "trim_whitespace value = rtrim (dropWhile isspace value)"

text \<open>The part after the last slash.\<close>

definition after_last_slash :: "string \<Rightarrow> string" where
  "after_last_slash s = (case strrchr s CHR ''/'' of None \<Rightarrow> s | Some t \<Rightarrow> drop 1 t)"

definition url_path :: "string \<Rightarrow> cstring" where
  "url_path u =
     (case strstr u ''://'' of
        None \<Rightarrow> Some u
      | Some p \<Rightarrow>
          case strchr (drop 3 p) CHR ''/'' of
            None \<Rightarrow> None
          | Some slash \<Rightarrow> if length slash = 1 then None else Some (drop 1 slash))"

definition path_name :: "string \<Rightarrow> string" where
  "path_name path = after_last_slash (takeWhile (\<lambda>c. c \<noteq> CHR ''?'' \<and> c \<noteq> CHR ''#'') path)"

definition http_url_basename :: "(string \<Rightarrow> cstring) \<Rightarrow> cstring \<Rightarrow> cstring" where
  "http_url_basename mg_url_decode url =
     (case url of None \<Rightarrow> None | Some u \<Rightarrow>
        (case url_path u of None \<Rightarrow> None | Some path \<Rightarrow>
           if path_name path = [] then None else mg_url_decode (path_name path)))"

text \<open>The scan of a Content-Disposition value: \<open>p\<close> is the remaining header value.  The
  conditions on the remaining length are those of the code.\<close>

fun http_parse_content_disposition_filename ::
  "(string \<Rightarrow> cstring) \<Rightarrow> string \<Rightarrow> cstring" where
  "http_parse_content_disposition_filename mg_url_decode [] = None"
| "http_parse_content_disposition_filename mg_url_decode (c # cs) =
     (let p = c # cs in
      if (length p > 8 \<and> starts_with_nocase ''filename'' p)
         \<or> (length p > 16 \<and> starts_with_nocase ''filename*'' p)
      then let rfc5987 = starts_with_nocase ''filename*'' p in
        (case strchr p CHR ''='' of
           None \<Rightarrow> http_parse_content_disposition_filename mg_url_decode cs
         | Some eq \<Rightarrow>
             let name_start = dropWhile isspace (drop 1 eq);
                 name_start = (if rfc5987 \<and> length name_start > 7
                                  \<and> starts_with_nocase (''utf-8'' @ [CHR 0x27, CHR 0x27]) name_start
                               then drop 7 name_start else name_start);
                 filename = trim_quotes (rtrim (takeWhile (\<lambda>c. c \<noteq> CHR '';'') name_start))
             in if rfc5987
                then (case mg_url_decode filename of None \<Rightarrow> Some filename | Some d \<Rightarrow> Some d)
                else Some filename)
      else http_parse_content_disposition_filename mg_url_decode cs)"

declare http_parse_content_disposition_filename.simps [simp del]

definition http_resolve_url :: "(string \<Rightarrow> string) \<Rightarrow> cstring \<Rightarrow> string \<Rightarrow> cstring" where
  "http_resolve_url mg_url_host base_url location =
     (case base_url of None \<Rightarrow> None | Some base \<Rightarrow>
        if location = [] then None
        else let loc = trim_whitespace location in
          if starts_with ''http://'' loc \<or> starts_with ''https://'' loc then Some loc
          else if starts_with ''//'' loc
          then (case strstr base ''://'' of
                  None \<Rightarrow> None
                | Some scheme_end \<Rightarrow> Some (upto_suffix base scheme_end @ '':'' @ loc))
          else if starts_with ''/'' loc
          then (case strstr base ''://'' of
                  None \<Rightarrow> None
                | Some scheme_end \<Rightarrow>
                    Some (upto_suffix base scheme_end @ ''://'' @ mg_url_host base @ loc))
          else (case strstr base ''://'' of
                  None \<Rightarrow> None
                | Some scheme_end \<Rightarrow>
                    (case strchr (drop 3 scheme_end) CHR ''/'' of
                       None \<Rightarrow> Some (base @ ''/'' @ loc)
                     | Some path_start \<Rightarrow>
                         (case strrchr base CHR ''/'' of
                            None \<Rightarrow> Some (base @ loc)
                          | Some last_slash \<Rightarrow>
                              if length last_slash \<le> length path_start
                              then Some (upto_suffix base last_slash @ ''/'' @ loc)
                              else Some (base @ loc)))))"

definition http_is_redirect :: "int \<Rightarrow> bool" where
  "http_is_redirect status \<longleftrightarrow>
     status = 301 \<or> status = 302 \<or> status = 303 \<or> status = 307 \<or> status = 308"

subsection \<open>Resolution keeps to absolute http URLs\<close>

definition http_absolute :: "string \<Rightarrow> bool" where
  "http_absolute u \<longleftrightarrow> starts_with ''http://'' u \<or> starts_with ''https://'' u"

text \<open>Splitting an absolute URL at its scheme.\<close>

lemma http_absolute_split:
  assumes "http_absolute base"
  obtains scheme rest where "base = scheme @ ''://'' @ rest" "scheme = ''http'' \<or> scheme = ''https''"
    and "strstr base ''://'' = Some (''://'' @ rest)"
proof -
  from assms consider rest where "base = ''http'' @ ''://'' @ rest"
    | rest where "base = ''https'' @ ''://'' @ rest"
    by (auto simp: http_absolute_def starts_with_iff)
  then show ?thesis
  proof cases
    case (1 r)
    then show ?thesis by (intro that [of "''http''" r]) simp_all
  next
    case (2 r)
    then show ?thesis by (intro that [of "''https''" r]) simp_all
  qed
qed

lemma http_absolute_scheme [simp]:
  "scheme = ''http'' \<or> scheme = ''https'' \<Longrightarrow> http_absolute (scheme @ CHR '':'' # CHR ''/'' # CHR ''/'' # r)"
  by (auto simp: http_absolute_def)

lemma strstr_step: "\<not> starts_with p (x # xs) \<Longrightarrow> strstr (x # xs) p = strstr xs p"
  by simp

lemma last_slash_in_path:
  assumes "strchr rest CHR ''/'' = Some path_start"
  obtains a b where "strrchr (scheme @ ''://'' @ rest) CHR ''/'' = Some (CHR ''/'' # b)"
    and "rest = a @ CHR ''/'' # b" and "length (CHR ''/'' # b) \<le> length path_start"
proof -
  obtain p u where p: "rest = p @ path_start" "path_start = CHR ''/'' # u" "CHR ''/'' \<notin> set p"
    using strchr_Some [OF assms] by blast
  then have "CHR ''/'' \<in> set rest" by simp
  then obtain t where "strrchr rest CHR ''/'' = Some t" using strrchr_None by fastforce
  then obtain a b where ab: "rest = a @ CHR ''/'' # b" "CHR ''/'' \<notin> set b"
    using strrchr_Some by blast
  have "length p \<le> length a"
  proof (rule ccontr)
    assume "\<not> length p \<le> length a"
    then have l: "length a < length p" by simp
    have "p ! length a = rest ! length a" using l p(1) by (simp add: nth_append)
    also have "\<dots> = CHR ''/''" using ab(1) by (simp add: nth_append)
    finally show False using p(3) l by (metis nth_mem)
  qed
  moreover have "length p + length path_start = length a + length (CHR ''/'' # b)"
    using p(1) ab(1) by (metis length_append)
  ultimately have "length (CHR ''/'' # b) \<le> length path_start" by linarith
  moreover have "strrchr (scheme @ ''://'' @ rest) CHR ''/'' = Some (CHR ''/'' # b)"
    using ab strrchr_append [OF ab(2), of "scheme @ ''://'' @ a"] by simp
  ultimately show ?thesis using that ab(1) by blast
qed


lemma http_resolve_url_absolute:
  assumes "http_absolute base" and "location \<noteq> []"
  shows "\<exists>u. http_resolve_url host (Some base) location = Some u \<and> http_absolute u"
proof -
  obtain scheme rest where b: "base = scheme @ ''://'' @ rest" "scheme = ''http'' \<or> scheme = ''https''"
      "strstr base ''://'' = Some (''://'' @ rest)"
    using assms(1) by (rule http_absolute_split)
  let ?loc = "trim_whitespace location"
  have up: "upto_suffix base (''://'' @ rest) = scheme" by (simp add: b(1))
  consider (abs) "http_absolute ?loc" | (net) "\<not> http_absolute ?loc" "starts_with ''//'' ?loc"
    | (root) "\<not> http_absolute ?loc" "\<not> starts_with ''//'' ?loc" "starts_with ''/'' ?loc"
    | (rel) "\<not> http_absolute ?loc" "\<not> starts_with ''//'' ?loc" "\<not> starts_with ''/'' ?loc" by blast
  then show ?thesis
  proof cases
    case abs
    then show ?thesis using assms(2) by (simp add: http_resolve_url_def http_absolute_def Let_def)
  next
    case net
    then obtain r where "?loc = ''//'' @ r" using starts_with_iff by blast
    then have "http_absolute (scheme @ '':'' @ ?loc)" using b(2) by simp
    then show ?thesis using net assms(2) b(3) up
      by (simp add: http_resolve_url_def http_absolute_def [of ?loc] Let_def)
  next
    case root
    then show ?thesis using assms(2) b(2,3) up
      by (simp add: http_resolve_url_def http_absolute_def [of ?loc] Let_def)
  next
    case rel
    show ?thesis
    proof (cases "strchr rest CHR ''/''")
      case None
      then have "http_absolute (base @ ''/'' @ ?loc)" using b(1,2) by simp
      then show ?thesis using rel assms(2) b(3) None
        by (simp add: http_resolve_url_def http_absolute_def [of ?loc] Let_def)
    next
      case (Some path_start)
      then obtain p q where s: "strrchr base CHR ''/'' = Some (CHR ''/'' # q)" "rest = p @ CHR ''/'' # q"
          "length (CHR ''/'' # q) \<le> length path_start"
        using last_slash_in_path [of rest path_start scheme] b(1) by metis
      have "upto_suffix base (CHR ''/'' # q) = scheme @ ''://'' @ p"
        using upto_suffix_append [of "scheme @ ''://'' @ p" "CHR ''/'' # q"] by (simp add: b(1) s(2))
      then show ?thesis using rel assms(2) b(2,3) Some s(1,3)
        by (simp add: http_resolve_url_def http_absolute_def [of ?loc] Let_def)
    qed
  qed
qed

subsection \<open>The name at the end of a URL\<close>

lemma after_last_slash_no_slash: "CHR ''/'' \<notin> set (after_last_slash s)"
  unfolding after_last_slash_def
  by (auto split: option.splits dest: strrchr_Some simp: strrchr_None)

lemma after_last_slash_suffix: "\<exists>p. s = p @ after_last_slash s"
proof (cases "strrchr s CHR ''/''")
  case (Some t)
  then obtain p u where "s = p @ t" "t = CHR ''/'' # u" using strrchr_Some by blast
  then have "after_last_slash s = u" unfolding after_last_slash_def Some by simp
  then show ?thesis using \<open>s = p @ t\<close> \<open>t = CHR ''/'' # u\<close> by (intro exI [of _ "p @ ''/''"]) simp
qed (simp add: after_last_slash_def)

lemma after_last_slash_subset: "set (after_last_slash s) \<subseteq> set s"
proof -
  obtain p where "s = p @ after_last_slash s" using after_last_slash_suffix by blast
  from arg_cong [OF this, of set] have "set s = set p \<union> set (after_last_slash s)"
    by (simp only: set_append)
  then show ?thesis by blast
qed

lemma takeWhile_not: "c \<in> set (takeWhile P s) \<Longrightarrow> P c"
  by (induction s) (auto split: if_splits)

lemma path_name_chars: "c \<in> set (path_name path) \<Longrightarrow> c \<noteq> CHR ''/'' \<and> c \<noteq> CHR ''?'' \<and> c \<noteq> CHR ''#''"
proof -
  let ?w = "takeWhile (\<lambda>c. c \<noteq> CHR ''?'' \<and> c \<noteq> CHR ''#'') path"
  assume c: "c \<in> set (path_name path)"
  have "c \<in> set ?w" using c unfolding path_name_def by (rule subsetD [OF after_last_slash_subset])
  moreover have "c \<noteq> CHR ''/''" using c after_last_slash_no_slash [of ?w] unfolding path_name_def by metis
  ultimately show ?thesis
    using takeWhile_not [of c "\<lambda>c. c \<noteq> CHR ''?'' \<and> c \<noteq> CHR ''#''" path] by simp
qed

lemma http_url_basename_source:
  assumes "http_url_basename dec (Some u) = Some name"
  shows "\<exists>raw. dec raw = Some name \<and> raw \<noteq> []
    \<and> (\<forall>c\<in>set raw. c \<noteq> CHR ''/'' \<and> c \<noteq> CHR ''?'' \<and> c \<noteq> CHR ''#'')"
proof -
  obtain path where "path_name path \<noteq> []" "dec (path_name path) = Some name"
    using assms unfolding http_url_basename_def by (simp split: option.splits if_splits)
  then show ?thesis using path_name_chars by blast
qed

subsection \<open>Content-Disposition\<close>

lemma rtrim_id: "s = [] \<or> \<not> isspace (last s) \<Longrightarrow> rtrim s = s"
  unfolding rtrim_def by (rule rev_dropWhile_id)

text \<open>The scan skips a prefix in which no parameter name starts.\<close>

lemma disposition_skip:
  assumes "\<not> starts_with_nocase ''filename'' (c # cs)"
  shows "http_parse_content_disposition_filename dec (c # cs)
    = http_parse_content_disposition_filename dec cs"
proof -
  have "\<not> starts_with_nocase ''filename*'' (c # cs)"
  proof
    assume "starts_with_nocase ''filename*'' (c # cs)"
    then obtain t where "strlower (c # cs) = strlower ''filename*'' @ t"
      unfolding starts_with_nocase_def starts_with_iff by blast
    also have "\<dots> = strlower ''filename'' @ strlower ''*'' @ t" by (simp add: strlower_def)
    finally show False using assms unfolding starts_with_nocase_def starts_with_iff by blast
  qed
  then show ?thesis using assms
    by (subst http_parse_content_disposition_filename.simps) simp
qed

lemma strlower_append: "strlower (a @ b) = strlower a @ strlower b"
  by (simp add: strlower_def)

text \<open>At the parameter name itself, with an equals sign that starts the value.\<close>

lemma disposition_found:
  assumes "starts_with_nocase ''filename'' (c # cs)" "\<not> starts_with_nocase ''filename*'' (c # cs)"
    and "strchr (c # cs) CHR ''='' = Some (CHR ''='' # name)" and "length (c # cs) > 8"
  shows "http_parse_content_disposition_filename dec (c # cs)
    = Some (trim_quotes (rtrim (takeWhile (\<lambda>c. c \<noteq> CHR '';'') (dropWhile isspace name))))"
  unfolding http_parse_content_disposition_filename.simps Let_def assms(3)
  using assms(1,2,4) by simp

lemma disposition_at_name:
  assumes "name \<noteq> []"
  shows "http_parse_content_disposition_filename dec (''filename='' @ name)
    = Some (trim_quotes (rtrim (takeWhile (\<lambda>c. c \<noteq> CHR '';'') (dropWhile isspace name))))"
proof -
  have p: "''filename='' @ name = CHR ''f'' # (''ilename='' @ name)" by simp
  show ?thesis unfolding p
    by (rule disposition_found)
      (simp_all add: starts_with_nocase_def strlower_def tolower_def isupper_def code_of_def)
qed

lemma disposition_attachment:
  assumes "name \<noteq> []"
  shows "http_parse_content_disposition_filename dec (''attachment; filename='' @ name)
    = Some (trim_quotes (rtrim (takeWhile (\<lambda>c. c \<noteq> CHR '';'') (dropWhile isspace name))))"
proof -
  have "http_parse_content_disposition_filename dec (''attachment; filename='' @ name)
      = http_parse_content_disposition_filename dec (''filename='' @ name)"
    by (simp add: disposition_skip starts_with_nocase_def strlower_def tolower_def isupper_def code_of_def)
  then show ?thesis using disposition_at_name [OF assms] by simp
qed


subsection \<open>Properties\<close>

text \<open>Resolving a non-empty Location against an absolute http or https URL always gives a URL, and
  that URL is again an absolute http or https URL.\<close>

theorem http_resolve_url_correct:
  assumes "starts_with ''http://'' base \<or> starts_with ''https://'' base" and "location \<noteq> []"
  shows "\<exists>u. http_resolve_url mg_url_host (Some base) location = Some u
    \<and> (starts_with ''http://'' u \<or> starts_with ''https://'' u)"
  using http_resolve_url_absolute [of base location mg_url_host] assms
  by (simp add: http_absolute_def)

theorem http_resolve_url_correct_witness:
  "\<exists>u. http_resolve_url (\<lambda>_. ''h'') (Some ''http://h/d/x?y'') ''z.iso'' = Some u
    \<and> (starts_with ''http://'' u \<or> starts_with ''https://'' u)"
  by (rule http_resolve_url_correct) simp_all

text \<open>A plain attachment header gives its file name, with or without double quotes around it.\<close>

theorem content_disposition_name:
  assumes "name \<noteq> []" and "CHR '';'' \<notin> set name" and "CHR 0x22 \<notin> set name" and "CHR 0x27 \<notin> set name"
    and "\<not> isspace (hd name)" and "\<not> isspace (last name)"
  shows "http_parse_content_disposition_filename mg_url_decode (''attachment; filename='' @ name) = Some name
    \<and> http_parse_content_disposition_filename mg_url_decode
        (''attachment; filename='' @ CHR 0x22 # name @ [CHR 0x22]) = Some name"
proof
  have drop: "dropWhile isspace name = name" using assms(1,5) by (cases name) auto
  have cut: "takeWhile (\<lambda>c. c \<noteq> CHR '';'') name = name" using assms(2) by (auto simp: takeWhile_eq_all_conv)
  have "hd name \<noteq> CHR 0x22" "hd name \<noteq> CHR 0x27" using assms(1,3,4) hd_in_set by metis+
  then have tq: "trim_quotes name = name" by (simp add: trim_quotes_def)
  show "http_parse_content_disposition_filename mg_url_decode (''attachment; filename='' @ name) = Some name"
    using disposition_attachment [OF assms(1)] by (simp only: drop cut tq rtrim_id assms(6) simp_thms)
  let ?q = "CHR 0x22 # name @ [CHR 0x22]"
  have q: "\<not> isspace (CHR 0x22)" by (simp add: isspace_def code_of_def)
  have dropq: "dropWhile isspace ?q = ?q" using q by simp
  have cutq: "takeWhile (\<lambda>c. c \<noteq> CHR '';'') ?q = ?q" using assms(2) by (auto simp: takeWhile_eq_all_conv)
  have "rtrim ?q = ?q" using q by (intro rtrim_id) simp
  moreover have "trim_quotes ?q = name" by (simp add: trim_quotes_def)
  ultimately show "http_parse_content_disposition_filename mg_url_decode (''attachment; filename='' @ ?q) = Some name"
    using disposition_attachment [of ?q] by (simp only: dropq cutq list.simps simp_thms)
qed

theorem content_disposition_name_witness:
  "http_parse_content_disposition_filename (\<lambda>_. None) (''attachment; filename='' @ ''a b.iso'') = Some ''a b.iso''"
  using content_disposition_name [of "''a b.iso''" "\<lambda>_. None"] by (simp add: isspace_def code_of_def)

text \<open>A quoted name that contains a semicolon is cut at the semicolon, keeping the opening
  quote, and a redirect to a path on the same host loses the port of the base URL.\<close>

lemma content_disposition_quoted_semicolon:
  "http_parse_content_disposition_filename mg_url_decode
     (''attachment; filename='' @ CHR 0x22 # ''a;b.txt'' @ [CHR 0x22]) = Some (CHR 0x22 # ''a'')"
  by (subst disposition_attachment)
    (simp_all add: isspace_def code_of_def rtrim_def trim_quotes_def)

lemma http_resolve_url_drops_port:
  "http_resolve_url (\<lambda>_. ''h'') (Some ''http://h:8080/a'') ''/b'' = Some ''http://h/b''"
  by code_simp

end
