(* ===== verification/Proxy.thy ===== *)
theory Proxy
  imports CLib
begin

text \<open>
  The proxy support of \<^verbatim>\<open>src/src/http_proxy.c\<close>: which proxy a download uses (override,
  environment, configuration, the exceptions of \<open>NO_PROXY\<close>), the authorization header with
  its Base64 encoding, the HTTP \<open>CONNECT\<close> tunnel and the SOCKS5 handshake.  The URL functions
  of mongoose, \<open>getenv\<close> and the configuration file are parameters.  Sending is a list of
  the byte strings given to \<open>mg_send\<close> and \<open>mg_printf\<close>.
\<close>

unbundle bit_operations_syntax

subsection \<open>Parameters\<close>

record url_api =
  ua_host :: "string \<Rightarrow> string"
  ua_port :: "string \<Rightarrow> nat"
  ua_encode :: "string \<Rightarrow> string"

record proxy_env =
  pe_getenv :: "string \<Rightarrow> cstring"
  pe_config :: "string \<Rightarrow> cstring"

datatype ProxyKind = ProxyKindNone | ProxyKindHttp | ProxyKindHttps | ProxyKindSocks5

datatype ProxySocksStage = ProxySocksStageNone | ProxySocksStageGreetingSent | ProxySocksStageAuthSent
  | ProxySocksStageConnectSent | ProxySocksStageDone | ProxySocksStageFailed

record ProxySocksCtx =
  px_stage :: ProxySocksStage
  px_username :: string
  px_password :: string
  px_has_auth :: bool

subsection \<open>Configuration and environment\<close>

definition parse_config_bool_local :: "proxy_env \<Rightarrow> string \<Rightarrow> bool \<Rightarrow> bool" where
  "parse_config_bool_local pe key default_value =
     (case pe_config pe key of
        None \<Rightarrow> default_value
      | Some value \<Rightarrow> value = ''1'' \<or> strcaseeq value ''true'' \<or> strcaseeq value ''yes'')"

definition url_encode_credentials :: "url_api \<Rightarrow> cstring \<Rightarrow> cstring" where
  "url_encode_credentials ua value =
     (case value of None \<Rightarrow> None | Some v \<Rightarrow>
        if v = [] then None
        else let buf = ua_encode ua v in if length buf = 0 then Some v else Some buf)"

fun env_get_any :: "proxy_env \<Rightarrow> string list \<Rightarrow> cstring" where
  "env_get_any pe [] = None"
| "env_get_any pe (name # names) =
     (case pe_getenv pe name of
        Some value \<Rightarrow> if value \<noteq> [] then Some value else env_get_any pe names
      | None \<Rightarrow> env_get_any pe names)"

subsection \<open>Exceptions: NO_PROXY\<close>

definition is_blank :: "char \<Rightarrow> bool" where
  "is_blank c \<longleftrightarrow> c = CHR '' '' \<or> code_of c = 9"

definition trim_entry :: "string \<Rightarrow> string" where
  "trim_entry entry = rev (dropWhile is_blank (rev (dropWhile is_blank entry)))"

text \<open>A port at the end of the pattern; \<open>(unsigned)strtoul\<close> keeps the low 32 bits.\<close>

definition split_entry_port :: "string \<Rightarrow> string \<times> u32" where
  "split_entry_port pattern =
     (case strrchr pattern CHR '':'' of
        None \<Rightarrow> (pattern, 0)
      | Some colon \<Rightarrow>
          let digits = drop 1 colon in
          if strchr digits CHR '':'' \<noteq> None then (pattern, 0)
          else if snd (strtoull 10 digits) \<noteq> digits \<and> snd (strtoull 10 digits) = []
          then (upto_suffix pattern colon, ucast (strtoull_value 10 digits))
          else (pattern, 0))"

text \<open>The five ways a pattern matches a host.\<close>

definition pattern_matches_host :: "string \<Rightarrow> string \<Rightarrow> bool" where
  "pattern_matches_host host pattern =
     (if pattern = ''*'' then True
      else if strcaseeq host pattern then True
      else if length pattern > 1 \<and> pattern ! 0 = CHR ''.'' \<and> strcaseeq host (drop 1 pattern) then True
      else if length pattern > 2 \<and> pattern ! 0 = CHR ''*'' \<and> pattern ! 1 = CHR ''.''
              \<and> (let suffix = drop 1 pattern in length host \<ge> length suffix
                   \<and> strcaseeq (drop (length host - length suffix) host) suffix) then True
      else if length pattern > 0 \<and> pattern ! 0 \<noteq> CHR ''.'' \<and> pattern ! 0 \<noteq> CHR ''*''
      then length host > length pattern \<and> host ! (length host - length pattern - 1) = CHR ''.''
             \<and> strcaseeq (drop (length host - length pattern) host) pattern
      else False)"

definition host_matches_no_proxy_entry :: "string \<Rightarrow> nat \<Rightarrow> string \<Rightarrow> bool" where
  "host_matches_no_proxy_entry host port entry =
     (if entry = [] then False
      else let pattern = trim_entry (take 319 entry) in
        if pattern = [] then False
        else let (pattern, entry_port) = split_entry_port pattern in
          if entry_port \<noteq> 0 \<and> port \<noteq> 0 \<and> unat entry_port \<noteq> port then False
          else pattern_matches_host host pattern)"

text \<open>The loop over the comma-separated list; it ends at the end of the string.\<close>

function (sequential) no_proxy_loop :: "string \<Rightarrow> nat \<Rightarrow> string \<Rightarrow> bool" where
  "no_proxy_loop host port [] = False"
| "no_proxy_loop host port (x # xs) =
     (case strchr (x # xs) CHR '','' of
        None \<Rightarrow> host_matches_no_proxy_entry host port (x # xs)
      | Some comma \<Rightarrow>
          if host_matches_no_proxy_entry host port (upto_suffix (x # xs) comma) then True
          else no_proxy_loop host port (drop 1 comma))"
  by pat_completeness auto
termination
proof (relation "measure (\<lambda>(h, p, cur). length cur)", goal_cases)
  case (2 host port x xs comma)
  then obtain p u where eq: "x # xs = p @ comma" and c: "comma = CHR '','' # u" using strchr_Some by blast
  then show ?case using arg_cong [OF eq, of length] by simp
qed simp

definition proxy_should_bypass :: "url_api \<Rightarrow> string \<Rightarrow> cstring \<Rightarrow> bool" where
  "proxy_should_bypass ua target_url no_proxy_list =
     (case no_proxy_list of None \<Rightarrow> False | Some lst \<Rightarrow>
        if lst = [] then False
        else if length (ua_host ua target_url) = 0 then False
        else no_proxy_loop (take 319 (ua_host ua target_url)) (ua_port ua target_url) lst)"

definition proxy_get_no_proxy_list :: "proxy_env \<Rightarrow> cstring" where
  "proxy_get_no_proxy_list pe =
     (case env_get_any pe [''NO_PROXY'', ''no_proxy''] of
        Some value \<Rightarrow> Some value
      | None \<Rightarrow> pe_config pe ''dm.proxy.noProxy'')"

subsection \<open>Credentials and Base64\<close>

definition extract_proxy_credentials :: "cstring \<Rightarrow> (string \<times> string) option" where
  "extract_proxy_credentials proxy_url =
     (case proxy_url of None \<Rightarrow> None | Some url \<Rightarrow>
        let auth_start = (case strstr url ''://'' of Some scheme_end \<Rightarrow> drop 3 scheme_end | None \<Rightarrow> url) in
        case strchr auth_start CHR ''@'' of
          None \<Rightarrow> None
        | Some at_sign \<Rightarrow>
            let auth = upto_suffix auth_start at_sign in
            if length auth = 0 \<or> length auth \<ge> 512 then None
            else case strchr auth CHR '':'' of
                   None \<Rightarrow> Some (take 255 auth, [])
                 | Some colon \<Rightarrow>
                     let user = take 255 (upto_suffix auth colon); pass = take 255 (drop 1 colon)
                     in if user \<noteq> [] then Some (user, pass) else None)"

definition b64_table :: string where
  "b64_table = ''ABCDEFGHIJKLMNOPQRSTUVWXYZabcdefghijklmnopqrstuvwxyz0123456789+/''"

text \<open>\<open>block\<close> holds three bytes, zero beyond the \<open>len\<close> given ones.\<close>

definition base64_encode_triplet :: "nat \<Rightarrow> nat \<Rightarrow> nat \<Rightarrow> nat \<Rightarrow> string" where
  "base64_encode_triplet in0 in1 in2 len =
     [b64_table ! (drop_bit 2 in0 AND 0x3F),
      b64_table ! (push_bit 4 (in0 AND 0x03) OR (drop_bit 4 in1 AND 0x0F)),
      (if len > 1 then b64_table ! (push_bit 2 (in1 AND 0x0F) OR (drop_bit 6 in2 AND 0x03)) else CHR ''=''),
      (if len > 2 then b64_table ! (in2 AND 0x3F) else CHR ''='')]"

fun base64_encode :: "string \<Rightarrow> string" where
  "base64_encode [] = []"
| "base64_encode [a] = base64_encode_triplet (code_of a) 0 0 1"
| "base64_encode [a, b] = base64_encode_triplet (code_of a) (code_of b) 0 2"
| "base64_encode (a # b # c # cs) =
     base64_encode_triplet (code_of a) (code_of b) (code_of c) 3 @ base64_encode cs"

definition crlf :: string where
  "crlf = [char_of (13::nat), char_of (10::nat)]"

definition append_proxy_authorization :: "cstring \<Rightarrow> string list" where
  "append_proxy_authorization proxy_url =
     (case extract_proxy_credentials proxy_url of
        None \<Rightarrow> []
      | Some (user, pass) \<Rightarrow>
          [''Proxy-Authorization: Basic '' @ base64_encode (take 511 (user @ '':'' @ pass)) @ crlf])"

subsection \<open>Proxy URLs\<close>

definition proxy_kind_from_url :: "cstring \<Rightarrow> ProxyKind" where
  "proxy_kind_from_url proxy_url =
     (case proxy_url of None \<Rightarrow> ProxyKindNone | Some u \<Rightarrow>
        if u = [] then ProxyKindNone
        else if starts_with ''socks5://'' u \<or> starts_with ''socks5h://'' u then ProxyKindSocks5
        else if starts_with ''https://'' u \<or> starts_with ''HTTPS://'' u then ProxyKindHttps
        else if starts_with ''http://'' u \<or> starts_with ''HTTP://'' u then ProxyKindHttp
        else ProxyKindHttp)"

definition proxy_normalize_url :: "cstring \<Rightarrow> cstring" where
  "proxy_normalize_url url =
     (case url of None \<Rightarrow> None | Some u \<Rightarrow>
        if u = [] then None
        else if strstr u ''://'' \<noteq> None then Some u
        else Some (''http://'' @ u))"

definition proxy_connect_url :: "url_api \<Rightarrow> cstring \<Rightarrow> cstring" where
  "proxy_connect_url ua proxy_url =
     (case proxy_url of None \<Rightarrow> None | Some u \<Rightarrow>
        if u = [] then None
        else let kind = proxy_kind_from_url (Some u); host = ua_host ua u; port = ua_port ua u in
          if kind = ProxyKindSocks5
          then if length host = 0 then None
               else Some (''tcp://'' @ host @ '':'' @ (if port \<noteq> 0 then show_nat port else ''1080''))
          else if kind = ProxyKindHttps then Some u
          else if length host = 0 then None
          else Some (''http://'' @ host @ '':'' @ (if port \<noteq> 0 then show_nat port else ''8080'')))"

definition proxy_build_url :: "url_api \<Rightarrow> cstring \<Rightarrow> cstring \<Rightarrow> u32 \<Rightarrow> cstring \<Rightarrow> cstring \<Rightarrow> cstring" where
  "proxy_build_url ua kind host port username password =
     (case host of None \<Rightarrow> None | Some h \<Rightarrow>
        if h = [] \<or> port = 0 then None
        else let scheme = (case kind of Some t \<Rightarrow> if t \<noteq> [] then t else ''http'' | None \<Rightarrow> ''http'');
                 user = url_encode_credentials ua username;
                 pass = url_encode_credentials ua password;
                 address = h @ '':'' @ show_nat (unat port) in
          Some (scheme @ ''://'' @
            (case user of
               None \<Rightarrow> address
             | Some u \<Rightarrow> (case pass of Some p \<Rightarrow> u @ '':'' @ p @ ''@'' @ address
                                    | None \<Rightarrow> u @ ''@'' @ address))))"

definition proxy_target_is_https :: "cstring \<Rightarrow> bool" where
  "proxy_target_is_https url =
     (case url of None \<Rightarrow> False | Some u \<Rightarrow> starts_with ''https://'' u \<or> starts_with ''HTTPS://'' u)"

definition proxy_load_from_environment :: "proxy_env \<Rightarrow> cstring \<Rightarrow> cstring" where
  "proxy_load_from_environment pe target_url =
     (let names = (if proxy_target_is_https target_url
                   then [''HTTPS_PROXY'', ''https_proxy'', ''HTTP_PROXY'', ''http_proxy'', ''ALL_PROXY'', ''all_proxy'']
                   else [''HTTP_PROXY'', ''http_proxy'', ''ALL_PROXY'', ''all_proxy''])
      in case env_get_any pe names of None \<Rightarrow> None | Some value \<Rightarrow> proxy_normalize_url (Some value))"

definition proxy_load_global_url :: "url_api \<Rightarrow> proxy_env \<Rightarrow> cstring" where
  "proxy_load_global_url ua pe =
     (if \<not> parse_config_bool_local pe ''dm.proxy.enabled'' False then None
      else let host = pe_config pe ''dm.proxy.host'';
               port_str = pe_config pe ''dm.proxy.port'';
               kind = (case pe_config pe ''dm.proxy.type'' of Some t \<Rightarrow> Some t | None \<Rightarrow> Some ''http'');
               username = pe_config pe ''dm.proxy.username'';
               password = pe_config pe ''dm.proxy.password'';
               port = (case port_str of Some p \<Rightarrow> ucast (strtoull_value 10 p) | None \<Rightarrow> 0) :: u32
           in if (case host of Some h \<Rightarrow> h \<noteq> [] | None \<Rightarrow> False) \<and> port > 0
              then proxy_build_url ua kind host port username password else None)"

definition proxy_resolve_for_target :: "url_api \<Rightarrow> proxy_env \<Rightarrow> cstring \<Rightarrow> cstring \<Rightarrow> cstring" where
  "proxy_resolve_for_target ua pe target_url override_url =
     (case target_url of None \<Rightarrow> None | Some target \<Rightarrow>
        let no_proxy = proxy_get_no_proxy_list pe;
            resolved = (case override_url of
                Some ov \<Rightarrow> if ov \<noteq> [] then proxy_normalize_url (Some ov)
                           else (case proxy_load_from_environment pe target_url of
                                   Some r \<Rightarrow> Some r | None \<Rightarrow> proxy_load_global_url ua pe)
              | None \<Rightarrow> (case proxy_load_from_environment pe target_url of
                           Some r \<Rightarrow> Some r | None \<Rightarrow> proxy_load_global_url ua pe))
        in if resolved \<noteq> None \<and> proxy_should_bypass ua target no_proxy then None else resolved)"

definition proxy_uses_http_forward :: "cstring \<Rightarrow> cstring \<Rightarrow> bool" where
  "proxy_uses_http_forward proxy_url target_url =
     (if proxy_url = None \<or> target_url = None then False
      else if proxy_kind_from_url proxy_url = ProxyKindSocks5 then False
      else \<not> proxy_target_is_https target_url)"


subsection \<open>The HTTP tunnel\<close>

definition proxy_send_connect :: "url_api \<Rightarrow> string \<Rightarrow> cstring \<Rightarrow> string list" where
  "proxy_send_connect ua target_url proxy_url =
     (let host = ua_host ua target_url; port_num = ua_port ua target_url in
      if length host = 0 then []
      else let hostport = take 319 (host @ '':'' @
                 (if port_num \<noteq> 0 then show_nat port_num
                  else if proxy_target_is_https (Some target_url) then ''443'' else ''80'')) in
        [''CONNECT '' @ hostport @ '' HTTP/1.1'' @ crlf @ ''Host: '' @ hostport @ crlf
           @ ''Proxy-Connection: keep-alive'' @ crlf]
        @ append_proxy_authorization proxy_url @ [crlf])"

text \<open>The answer to \<open>CONNECT\<close>; the buffer is read as a C string.\<close>

definition proxy_connect_response_ok :: "bytes \<Rightarrow> bool" where
  "proxy_connect_response_ok buf =
     (if length buf < 12 then False
      else let line = takeWhile (\<lambda>c. code_of c \<noteq> 0) (take 127 buf)
           in strstr line '' 200'' \<noteq> None \<or> strstr line '' 201'' \<noteq> None)"

subsection \<open>SOCKS5\<close>

definition byte :: "nat \<Rightarrow> char" where
  "byte n = char_of (n mod 256)"

definition proxy_socks5_send_greeting :: "ProxySocksCtx \<Rightarrow> string list" where
  "proxy_socks5_send_greeting ctx =
     (if px_has_auth ctx then [[byte 5, byte 2, byte 0, byte 2]] else [[byte 5, byte 1, byte 0]])"

definition proxy_socks5_send_auth :: "ProxySocksCtx \<Rightarrow> string list" where
  "proxy_socks5_send_auth ctx =
     (let ulen = length (px_username ctx); plen = length (px_password ctx) in
      if ulen > 255 \<or> plen > 255 then []
      else [[byte 1, byte ulen] @ px_username ctx @ [byte plen] @ px_password ctx])"

definition proxy_socks5_send_connect :: "url_api \<Rightarrow> string \<Rightarrow> string list" where
  "proxy_socks5_send_connect ua target_url =
     (let host = ua_host ua target_url in
      if length host = 0 \<or> length host > 255 then []
      else let port = ua_port ua target_url;
               port = (if port = 0 then if proxy_target_is_https (Some target_url) then 443 else 80 else port)
           in [[byte 5, byte 1, byte 0, byte 3, byte (length host)] @ host
               @ [byte (drop_bit 8 port AND 0xFF), byte (port AND 0xFF)]])"

definition proxy_socks5_begin :: "cstring \<Rightarrow> ProxySocksCtx \<times> string list" where
  "proxy_socks5_begin proxy_url =
     (let ctx = (case extract_proxy_credentials proxy_url of
                   Some (user, pass) \<Rightarrow> \<lparr>px_stage = ProxySocksStageNone, px_username = user,
                       px_password = pass, px_has_auth = True\<rparr>
                 | None \<Rightarrow> \<lparr>px_stage = ProxySocksStageNone, px_username = [], px_password = [],
                       px_has_auth = False\<rparr>)
      in (ctx\<lparr>px_stage := ProxySocksStageGreetingSent\<rparr>, proxy_socks5_send_greeting ctx))"

definition proxy_socks5_handle_read ::
  "url_api \<Rightarrow> bytes \<Rightarrow> string \<Rightarrow> ProxySocksCtx \<Rightarrow> bool \<times> ProxySocksCtx \<times> string list" where
  "proxy_socks5_handle_read ua buf target_url ctx =
     (let failed = (False, ctx\<lparr>px_stage := ProxySocksStageFailed\<rparr>, []) in
      if px_stage ctx = ProxySocksStageGreetingSent
      then if length buf < 2 \<or> code_of (buf ! 0) \<noteq> 0x05 then failed
           else let method = code_of (buf ! 1) in
             if method = 0xFF then failed
             else if method = 0x02
             then if \<not> px_has_auth ctx then failed
                  else (False, ctx\<lparr>px_stage := ProxySocksStageAuthSent\<rparr>, proxy_socks5_send_auth ctx)
             else if method \<noteq> 0x00 then failed
             else (False, ctx\<lparr>px_stage := ProxySocksStageConnectSent\<rparr>, proxy_socks5_send_connect ua target_url)
      else if px_stage ctx = ProxySocksStageAuthSent
      then if length buf < 2 \<or> code_of (buf ! 0) \<noteq> 0x01 \<or> code_of (buf ! 1) \<noteq> 0x00 then failed
           else (False, ctx\<lparr>px_stage := ProxySocksStageConnectSent\<rparr>, proxy_socks5_send_connect ua target_url)
      else if px_stage ctx = ProxySocksStageConnectSent
      then if length buf < 4 \<or> code_of (buf ! 0) \<noteq> 0x05 \<or> code_of (buf ! 1) \<noteq> 0x00 then failed
           else (True, ctx\<lparr>px_stage := ProxySocksStageDone\<rparr>, [])
      else (px_stage ctx = ProxySocksStageDone, ctx, []))"


subsection \<open>Base64 is decodable\<close>

definition b64_value :: "char \<Rightarrow> nat option" where
  "b64_value c = (if c \<in> set b64_table then Some (length (takeWhile (\<lambda>x. x \<noteq> c) b64_table)) else None)"

text \<open>A reference decoder: four characters give three bytes, two with one padding character and one
  with two.\<close>

fun base64_decode :: "string \<Rightarrow> string option" where
  "base64_decode [] = Some []"
| "base64_decode (w # x # y # z # rest) =
     (case (b64_value w, b64_value x) of
        (Some a, Some b) \<Rightarrow>
          if y = CHR ''='' then (if z = CHR ''='' \<and> rest = [] then Some [byte (a * 4 + b div 16)] else None)
          else (case b64_value y of
                  None \<Rightarrow> None
                | Some c \<Rightarrow>
                    if z = CHR ''='' then (if rest = [] then Some [byte (a * 4 + b div 16), byte (b * 16 + c div 4)] else None)
                    else (case (b64_value z, base64_decode rest) of
                            (Some d, Some s) \<Rightarrow>
                              Some (byte (a * 4 + b div 16) # byte (b * 16 + c div 4) # byte (c * 64 + d) # s)
                          | _ \<Rightarrow> None))
      | _ \<Rightarrow> None)"
| "base64_decode _ = None"

lemma b64_value_nth: "k < 64 \<Longrightarrow> b64_value (b64_table ! k) = Some k \<and> b64_table ! k \<noteq> CHR ''=''"
proof -
  have "\<forall>k\<in>set [0..<64]. b64_value (b64_table ! k) = Some k \<and> b64_table ! k \<noteq> CHR ''=''" by code_simp
  then show "k < 64 \<Longrightarrow> ?thesis" by simp
qed

lemma nat_and_mask: "a AND 63 = a mod 64" "a AND 15 = a mod 16" "a AND 3 = a mod 4" for a :: nat
  using take_bit_eq_mask [of 6 a] take_bit_eq_mask [of 4 a] take_bit_eq_mask [of 2 a]
  by (simp_all add: take_bit_nat_def mask_eq_exp_minus_1)

lemma nat_or_disjoint: "y < 2 ^ n \<Longrightarrow> push_bit n x OR y = x * 2 ^ n + y" for x y :: nat
proof -
  assume "y < 2 ^ n"
  then have "take_bit n y = y" by (simp add: take_bit_nat_eq_self_iff)
  then have "\<not> bit (push_bit n x) k \<or> \<not> bit y k" for k
    using bit_take_bit_iff [of n y k] by (auto simp: bit_push_bit_iff_nat)
  then have "push_bit n x + y = push_bit n x OR y" by (rule disjunctive_add)
  then show ?thesis by (simp add: push_bit_eq_mult)
qed

lemma triplet_indices:
  fixes a b c :: nat
  assumes "a < 256" "b < 256" "c < 256"
  shows "drop_bit 2 a AND 63 = a div 4"
    and "push_bit 4 (a AND 3) OR (drop_bit 4 b AND 15) = a mod 4 * 16 + b div 16"
    and "push_bit 2 (b AND 15) OR (drop_bit 6 c AND 3) = b mod 16 * 4 + c div 64"
    and "c AND 63 = c mod 64"
  using assms nat_or_disjoint [of "b div 16" 4 "a mod 4"] nat_or_disjoint [of "c div 64" 2 "b mod 16"]
  by (simp_all add: nat_and_mask drop_bit_nat_def)

lemma mul_add_div: "y < m \<Longrightarrow> (x * m + y) div m = x" and mul_add_mod: "y < m \<Longrightarrow> (x * m + y) mod m = y"
  for x y m :: nat
  by simp_all

lemma triplet_values:
  fixes a b c :: nat
  assumes "a < 256" "b < 256" "c < 256"
  shows "a div 4 < 64" "a mod 4 * 16 + b div 16 < 64" "b mod 16 * 4 + c div 64 < 64" "c mod 64 < 64"
    and "a div 4 * 4 + (a mod 4 * 16 + b div 16) div 16 = a"
    and "((a mod 4 * 16 + b div 16) * 16 + (b mod 16 * 4 + c div 64) div 4) mod 256 = b"
    and "((b mod 16 * 4 + c div 64) * 64 + c mod 64) mod 256 = c"
proof -
  have b16: "b div 16 < 16" and c64: "c div 64 < 4" and a4: "a mod 4 < 4" and bm: "b mod 16 < 16" using assms by auto
  show "a div 4 < 64" "c mod 64 < 64" using assms by auto
  show "a mod 4 * 16 + b div 16 < 64" "b mod 16 * 4 + c div 64 < 64" using b16 c64 a4 bm by linarith+
  show "a div 4 * 4 + (a mod 4 * 16 + b div 16) div 16 = a"
    unfolding mul_add_div [OF b16] by simp
  have "(a mod 4 * 16 + b div 16) * 16 + b mod 16 = a mod 4 * 256 + b"
    using div_mult_mod_eq [of b 16] by (simp add: add_mult_distrib mult.assoc add.assoc)
  then show "((a mod 4 * 16 + b div 16) * 16 + (b mod 16 * 4 + c div 64) div 4) mod 256 = b"
    unfolding mul_add_div [OF c64] using assms(2) by simp
  have "(b mod 16 * 4 + c div 64) * 64 + c mod 64 = b mod 16 * 256 + c"
    using div_mult_mod_eq [of c 64] by (simp add: add_mult_distrib mult.assoc add.assoc)
  then show "((b mod 16 * 4 + c div 64) * 64 + c mod 64) mod 256 = c" using assms(3) by simp
qed

lemma base64_roundtrip: "base64_decode (base64_encode s) = Some s"
proof (induction s rule: base64_encode.induct)
  case (2 a)
  note T = triplet_indices [of "code_of a" 0 0] triplet_values [of "code_of a" 0 0]
  show ?case using T code_of_less [of a]
    by (simp add: base64_encode_triplet_def b64_value_nth byte_def)
next
  case (3 a b)
  note T = triplet_indices [of "code_of a" "code_of b" 0] triplet_values [of "code_of a" "code_of b" 0]
  show ?case using T code_of_less [of a] code_of_less [of b]
    by (simp add: base64_encode_triplet_def b64_value_nth byte_def)
next
  case (4 a b c cs)
  note T = triplet_indices [of "code_of a" "code_of b" "code_of c"]
    triplet_values [of "code_of a" "code_of b" "code_of c"]
  show ?case using T 4 code_of_less [of a] code_of_less [of b] code_of_less [of c]
    by (simp add: base64_encode_triplet_def b64_value_nth byte_def)
qed simp


text \<open>Base64 round trip: the encoding used for \<open>Proxy-Authorization\<close> is decoded by the
  reference decoder to the string it encodes, for every string and every padding.\<close>

theorem base64_encode_decodes: "base64_decode (base64_encode s) = Some s"
  by (rule base64_roundtrip)

subsection \<open>The exceptions\<close>

text \<open>The entries of a comma-separated list.\<close>

fun comma_entries :: "string \<Rightarrow> string list" where
  "comma_entries [] = [[]]"
| "comma_entries (c # cs) =
     (if c = CHR '','' then [] # comma_entries cs
      else (case comma_entries cs of [] \<Rightarrow> [[c]] | e # es \<Rightarrow> (c # e) # es))"

lemma comma_entries_no_comma: "CHR '','' \<notin> set s \<Longrightarrow> comma_entries s = [s]"
  by (induction s) auto

lemma comma_entries_split: "CHR '','' \<notin> set p \<Longrightarrow> comma_entries (p @ CHR '','' # u) = p # comma_entries u"
  by (induction p) auto

lemma empty_entry [simp]: "\<not> host_matches_no_proxy_entry host port []"
  by (simp add: host_matches_no_proxy_entry_def)

lemma no_proxy_loop_entries:
  "no_proxy_loop host port s \<longleftrightarrow> (\<exists>entry\<in>set (comma_entries s). host_matches_no_proxy_entry host port entry)"
proof (induction host port s rule: no_proxy_loop.induct)
  case (2 host port x xs)
  show ?case
  proof (cases "strchr (x # xs) CHR '',''")
    case None
    then have "CHR '','' \<notin> set (x # xs)" using strchr_None by blast
    then have ce: "comma_entries (x # xs) = [x # xs]" by (rule comma_entries_no_comma)
    show ?thesis unfolding ce by (simp only: no_proxy_loop.simps None option.case) simp
  next
    case (Some comma)
    then obtain p u where eq: "x # xs = p @ comma" and c: "comma = CHR '','' # u" and n: "CHR '','' \<notin> set p"
      using strchr_Some by blast
    have up: "upto_suffix (x # xs) comma = p" unfolding eq by simp
    have ce: "comma_entries (x # xs) = p # comma_entries u" unfolding eq c by (rule comma_entries_split [OF n])
    have step: "no_proxy_loop host port (x # xs)
        = (if host_matches_no_proxy_entry host port p then True else no_proxy_loop host port u)"
      unfolding no_proxy_loop.simps Some option.case up by (simp add: c)
    show ?thesis
    proof (cases "host_matches_no_proxy_entry host port p")
      case False
      then have "no_proxy_loop host port u = (\<exists>entry\<in>set (comma_entries u). host_matches_no_proxy_entry host port entry)"
        using 2 [OF Some] up c by simp
      then show ?thesis unfolding step ce using False by simp
    next
      case True
      then show ?thesis unfolding step ce by simp
    qed
  qed
qed simp

text \<open>A plain pattern, a domain name, matches the domain and its subdomains.\<close>

lemma code_of_tolower: "code_of (tolower c) = (if isupper c then code_of c + 32 else code_of c)"
  by (simp add: tolower_def isupper_def)

lemma tolower_dot: "tolower c = CHR ''.'' \<longleftrightarrow> c = CHR ''.''"
proof -
  have dot: "x = CHR ''.'' \<longleftrightarrow> code_of x = 46" for x
    using code_of_inj [of x "CHR ''.''"] by (auto simp: code_of_def)
  show ?thesis unfolding dot code_of_tolower by (auto simp: isupper_def)
qed

lemma plain_pattern_iff:
  assumes "pattern \<noteq> []" "pattern ! 0 \<noteq> CHR ''.''" "pattern ! 0 \<noteq> CHR ''*''"
  shows "pattern_matches_host host pattern \<longleftrightarrow>
    strlower host = strlower pattern \<or> (\<exists>sub. strlower host = sub @ ''.'' @ strlower pattern)"
proof -
  let ?n = "length host - length pattern - 1"
  have "(length host > length pattern \<and> host ! ?n = CHR ''.'' \<and> strlower (drop (length host - length pattern) host) = strlower pattern)
      \<longleftrightarrow> (\<exists>sub. strlower host = sub @ ''.'' @ strlower pattern)" (is "?l \<longleftrightarrow> ?r")
  proof
    assume l: ?l
    have "?n < length host" using conjunct1 [OF l] by simp
    then have "host = take ?n host @ host ! ?n # drop (Suc ?n) host" by (rule id_take_nth_drop)
    moreover have "Suc ?n = length host - length pattern" using conjunct1 [OF l] by simp
    ultimately have "strlower host = strlower (take ?n host @ CHR ''.'' # drop (length host - length pattern) host)"
      using l by simp
    then have "strlower host = strlower (take ?n host) @ ''.'' @ strlower pattern"
      using l by (simp add: strlower_def tolower_def isupper_def code_of_def)
    then show ?r ..
  next
    assume ?r
    then obtain sub where e: "strlower host = sub @ ''.'' @ strlower pattern" by blast
    have len: "length host = length sub + 1 + length pattern"
      using arg_cong [OF e, of length] by (simp add: strlower_def)
    have "strlower host ! length sub = CHR ''.''" unfolding e by simp
    then have "tolower (host ! length sub) = CHR ''.''" using len by (simp add: strlower_def)
    then have d: "host ! length sub = CHR ''.''" by (simp add: tolower_dot)
    have "strlower (drop (length sub + 1) host) = strlower pattern"
      using arg_cong [OF e, of "drop (length sub + 1)"] by (simp add: strlower_def drop_map)
    then show ?l using len d by simp
  qed
  moreover have "pattern \<noteq> ''*''" using assms by auto
  ultimately show ?thesis using assms by (auto simp: pattern_matches_host_def strcaseeq_def Let_def)
qed


text \<open>A domain name as it stands in the list: no blank, no port, no wildcard.\<close>

definition plain_domain :: "string \<Rightarrow> bool" where
  "plain_domain p \<longleftrightarrow> p \<noteq> [] \<and> length p \<le> 319 \<and> p ! 0 \<noteq> CHR ''.'' \<and> p ! 0 \<noteq> CHR ''*''
     \<and> CHR '':'' \<notin> set p \<and> (\<forall>c\<in>set p. \<not> is_blank c)"

lemma plain_domain_entry:
  assumes "plain_domain p"
  shows "host_matches_no_proxy_entry host port p \<longleftrightarrow>
    strlower host = strlower p \<or> (\<exists>sub. strlower host = sub @ ''.'' @ strlower p)"
proof -
  have nb: "dropWhile is_blank s = s" if "\<forall>c\<in>set s. \<not> is_blank c" for s
    using that by (cases s) auto
  have "trim_entry p = p" using assms by (simp add: trim_entry_def plain_domain_def nb)
  moreover have "split_entry_port p = (p, 0)"
    using assms strchr_None by (simp add: split_entry_port_def plain_domain_def strrchr_None [THEN iffD2])
  ultimately show ?thesis using assms plain_pattern_iff [of p host]
    by (simp add: host_matches_no_proxy_entry_def plain_domain_def)
qed

lemma proxy_should_bypass_entries:
  "proxy_should_bypass ua target (Some l) \<longleftrightarrow> l \<noteq> [] \<and> ua_host ua target \<noteq> [] \<and>
     (\<exists>entry\<in>set (comma_entries l). host_matches_no_proxy_entry (take 319 (ua_host ua target)) (ua_port ua target) entry)"
  by (simp add: proxy_should_bypass_def no_proxy_loop_entries)

text \<open>C32. The loop over \<open>NO_PROXY\<close> bypasses the proxy exactly when one of the comma-separated
  entries matches the host, and a list with a plain domain name bypasses it for that domain and
  each of its subdomains, whatever their case, and the port of the target.\<close>

theorem proxy_should_bypass_correct:
  "(proxy_should_bypass ua target (Some l) \<longleftrightarrow> l \<noteq> [] \<and> ua_host ua target \<noteq> [] \<and>
     (\<exists>entry\<in>set (comma_entries l). host_matches_no_proxy_entry (take 319 (ua_host ua target)) (ua_port ua target) entry))
   \<and> (plain_domain p \<and> length (ua_host ua target) \<le> 319 \<and> CHR '','' \<notin> set p \<longrightarrow>
     (proxy_should_bypass ua target (Some p) \<longleftrightarrow> ua_host ua target \<noteq> [] \<and>
       (strlower (ua_host ua target) = strlower p
        \<or> (\<exists>sub. strlower (ua_host ua target) = sub @ ''.'' @ strlower p))))"
  unfolding proxy_should_bypass_entries
  by (auto simp: comma_entries_no_comma plain_domain_entry) (auto simp: plain_domain_def)

definition sample_urls :: url_api where
  "sample_urls = \<lparr>ua_host = (\<lambda>u. if u = ''http://cdn.Example.com/f'' then ''cdn.Example.com'' else ''other.org''),
     ua_port = (\<lambda>_. 80), ua_encode = (\<lambda>s. s)\<rparr>"

theorem proxy_should_bypass_correct_witness:
  "proxy_should_bypass sample_urls ''http://cdn.Example.com/f'' (Some ''example.com'')"
proof -
  have "plain_domain ''example.com''" "CHR '','' \<notin> set ''example.com''" by code_simp+
  moreover have "ua_host sample_urls ''http://cdn.Example.com/f'' = ''cdn.Example.com''" by code_simp
  moreover have "strlower ''cdn.Example.com'' = ''cdn'' @ ''.'' @ strlower ''example.com''" by code_simp
  moreover have "length ''cdn.Example.com'' \<le> 319" "''cdn.Example.com'' \<noteq> ([] :: string)" by simp_all
  ultimately show ?thesis
    using proxy_should_bypass_correct [of sample_urls "''http://cdn.Example.com/f''" "''example.com''" "''example.com''"]
    by metis
qed

subsection \<open>Credentials in a proxy URL\<close>

lemma strstr_first: "c \<notin> set p \<Longrightarrow> strstr (p @ c # w @ u) (c # w) = Some (c # w @ u)"
  by (induction p) auto

text \<open>Credentials round trip: from a proxy URL that \<open>proxy_build_url\<close> made out of the
  configured user and password, the request code extracts the URL-encoded user and password,
  and these, still encoded, are what \<open>Proxy-Authorization\<close> sends.\<close>

theorem proxy_credentials_roundtrip:
  assumes "h \<noteq> []" "port \<noteq> 0" "scheme \<noteq> []" "CHR '':'' \<notin> set scheme" "u \<noteq> []" "p \<noteq> []"
    and "u' = ua_encode ua u" "p' = ua_encode ua p" "u' \<noteq> []" "p' \<noteq> []" "length u' \<le> 255" "length p' \<le> 255"
    and "CHR '':'' \<notin> set u'" "CHR ''@'' \<notin> set u'" "CHR ''@'' \<notin> set p'"
  shows "extract_proxy_credentials (proxy_build_url ua (Some scheme) (Some h) port (Some u) (Some p)) = Some (u', p')
    \<and> append_proxy_authorization (proxy_build_url ua (Some scheme) (Some h) port (Some u) (Some p))
      = [''Proxy-Authorization: Basic '' @ base64_encode (u' @ '':'' @ p') @ crlf]"
proof -
  define rest where "rest = h @ '':'' @ show_nat (unat port)"
  have url: "proxy_build_url ua (Some scheme) (Some h) port (Some u) (Some p)
      = Some (scheme @ CHR '':'' # ''//'' @ (u' @ CHR '':'' # p') @ CHR ''@'' # rest)"
    using assms by (simp add: proxy_build_url_def url_encode_credentials_def Let_def rest_def)
  have s: "strstr (scheme @ CHR '':'' # ''//'' @ (u' @ CHR '':'' # p') @ CHR ''@'' # rest) ''://''
      = Some (CHR '':'' # ''//'' @ (u' @ CHR '':'' # p') @ CHR ''@'' # rest)"
    using strstr_first [OF assms(4), of "''//''"] by simp
  have a: "strchr ((u' @ CHR '':'' # p') @ CHR ''@'' # rest) CHR ''@'' = Some (CHR ''@'' # rest)"
    by (rule strchr_append) (use assms in auto)
  have c: "strchr (u' @ CHR '':'' # p') CHR '':'' = Some (CHR '':'' # p')"
    by (rule strchr_append) (use assms in auto)
  have up: "upto_suffix ((u' @ CHR '':'' # p') @ CHR ''@'' # rest) (CHR ''@'' # rest) = u' @ CHR '':'' # p'"
    "upto_suffix (u' @ CHR '':'' # p') (CHR '':'' # p') = u'" by (rule upto_suffix_append)+
  have ext: "extract_proxy_credentials (Some (scheme @ CHR '':'' # ''//'' @ (u' @ CHR '':'' # p') @ CHR ''@'' # rest)) = Some (u', p')"
    unfolding extract_proxy_credentials_def option.case s Let_def
    using assms a c up by simp
  show ?thesis unfolding url append_proxy_authorization_def ext using assms by simp
qed

theorem proxy_credentials_roundtrip_witness:
  "extract_proxy_credentials (proxy_build_url sample_urls (Some ''http'') (Some ''proxy'') 3128 (Some ''bob'') (Some ''pw''))
     = Some (''bob'', ''pw'')"
  using proxy_credentials_roundtrip [of "''proxy''" 3128 "''http''" "''bob''" "''pw''" "''bob''" sample_urls "''pw''"]
  by (simp add: sample_urls_def)

subsection \<open>The SOCKS5 handshake\<close>

text \<open>The replies of the proxy, one per read, until the tunnel is open or the handshake failed.\<close>

fun socks_run :: "url_api \<Rightarrow> string \<Rightarrow> ProxySocksCtx \<Rightarrow> bytes list \<Rightarrow> bool \<times> ProxySocksCtx \<times> string list" where
  "socks_run ua target_url ctx [] = (False, ctx, [])"
| "socks_run ua target_url ctx (buf # bufs) =
     (let (ok, ctx', out) = proxy_socks5_handle_read ua buf target_url ctx in
      if ok \<or> px_stage ctx' = ProxySocksStageFailed then (ok, ctx', out)
      else let (ok', ctx'', out') = socks_run ua target_url ctx' bufs in (ok', ctx'', out @ out'))"

definition chooses :: "nat \<Rightarrow> bytes \<Rightarrow> bool" where
  "chooses method buf \<longleftrightarrow> 2 \<le> length buf \<and> code_of (buf ! 0) = 5 \<and> code_of (buf ! 1) = method"

definition auth_accepted :: "bytes \<Rightarrow> bool" where
  "auth_accepted buf \<longleftrightarrow> 2 \<le> length buf \<and> code_of (buf ! 0) = 1 \<and> code_of (buf ! 1) = 0"

definition connect_accepted :: "bytes \<Rightarrow> bool" where
  "connect_accepted buf \<longleftrightarrow> 4 \<le> length buf \<and> code_of (buf ! 0) = 5 \<and> code_of (buf ! 1) = 0"

lemma socks_run_connect:
  assumes "px_stage ctx = ProxySocksStageConnectSent"
  shows "fst (socks_run ua target ctx bufs) \<longleftrightarrow> (\<exists>r rest. bufs = r # rest \<and> connect_accepted r)"
    "snd (snd (socks_run ua target ctx bufs)) = []"
  using assms by (cases bufs; auto simp: proxy_socks5_handle_read_def connect_accepted_def)+

lemma socks_run_auth:
  assumes "px_stage ctx = ProxySocksStageAuthSent"
  shows "fst (socks_run ua target ctx bufs) \<longleftrightarrow>
      (\<exists>a r rest. bufs = a # r # rest \<and> auth_accepted a \<and> connect_accepted r)"
    "snd (snd (socks_run ua target ctx bufs)) = [] \<or> snd (snd (socks_run ua target ctx bufs)) = proxy_socks5_send_connect ua target"
  using assms
  by (cases bufs; auto simp: proxy_socks5_handle_read_def auth_accepted_def Let_def split_beta socks_run_connect)+

lemma socks_run_greeting:
  assumes "px_stage ctx = ProxySocksStageGreetingSent"
  shows "fst (socks_run ua target ctx bufs) \<longleftrightarrow>
      (\<exists>m r rest. bufs = m # r # rest \<and> chooses 0 m \<and> connect_accepted r)
      \<or> px_has_auth ctx \<and> (\<exists>m a r rest. bufs = m # a # r # rest \<and> chooses 2 m \<and> auth_accepted a \<and> connect_accepted r)"
    and "\<not> px_has_auth ctx \<or> (\<forall>m rest. bufs = m # rest \<longrightarrow> \<not> chooses 2 m)
      \<Longrightarrow> snd (snd (socks_run ua target ctx bufs)) = [] \<or> snd (snd (socks_run ua target ctx bufs)) = proxy_socks5_send_connect ua target"
  using assms
  by (cases bufs; auto simp: proxy_socks5_handle_read_def chooses_def Let_def split_beta socks_run_connect socks_run_auth)+



end
