(* ===== verification/Job.thy ===== *)
theory Job
  imports Segments CLib
begin

text \<open>
  The running download of \<^verbatim>\<open>src/src/download.c\<close>: the \<open>DownloadJob\<close> with its connection
  slots, the writes of response bodies into the temporary file, and the bookkeeping that turns
  received bytes into done ranges.

  A pointer to a slot is its index in \<open>job->slots\<close> (an index outside the array is the NULL
  pointer of the guards), a connection is its number.  Calls that leave the program (the
  clock, the file layer, the memory allocator) read the environment \<open>env\<close> at the job's call
  counter \<open>j_tick\<close>, so that every call may have its own outcome.  The temporary file is the
  map \<open>j_handed\<close> of the bytes given to the asynchronous writer; \<open>j_flushed\<close> is its content
  at the last point where the writer reported everything flushed, and \<open>j_saved\<close> the state
  last written to \<open>state.json\<close>.  Locking, logging and the progress line are left out.
\<close>

subsection \<open>Data\<close>

datatype DlStep = DL_STEP_CHUNK | DL_STEP_STREAM

record ChunkSlot =
  cs_conn :: "nat option"
  cs_range_start :: u64
  cs_range_end :: u64
  cs_reserved_end :: u64
  cs_chunk_write_offset :: u64
  cs_chunk_received :: u64
  cs_chunk_expected :: u64
  cs_response_remaining :: u64
  cs_persisted_received :: u64
  cs_last_activity_ms :: u64
  cs_headers_received :: bool
  cs_streaming :: bool
  cs_request_sent :: bool
  cs_keep_alive :: bool
  cs_continuous :: bool
  cs_draining :: bool
  cs_in_use :: bool

definition empty_slot :: ChunkSlot where
  "empty_slot = \<lparr>cs_conn = None, cs_range_start = 0, cs_range_end = 0, cs_reserved_end = 0,
     cs_chunk_write_offset = 0, cs_chunk_received = 0, cs_chunk_expected = 0,
     cs_response_remaining = 0, cs_persisted_received = 0, cs_last_activity_ms = 0,
     cs_headers_received = False, cs_streaming = False, cs_request_sent = False,
     cs_keep_alive = False, cs_continuous = False, cs_draining = False, cs_in_use = False\<rparr>"

text \<open>The parts of a connection that the code reads or writes: the receive buffer, the
  draining flag and \<open>data[0]\<close>, the mark that the request has been sent.\<close>

record mg_connection =
  mc_recv :: bytes
  mc_is_draining :: bool
  mc_data0 :: bool

datatype job_error =
    ErrOpenTempFile | ErrWriteTempFile | ErrInvalidChunkedEncoding | ErrFlush
  | ErrIncomplete u64 u64 | ErrIncompleteRange u64 u64 u64 u64
  | ErrResolveDest | ErrMoveFile | ErrMaxRetries u32 | ErrConnect | ErrHttpStatus int
  | ErrRangeRejected | ErrRedirectNoLocation | ErrTooManyRedirects | ErrInvalidRedirect
  | ErrApplyFilename | ErrChunkedTruncated u64 | ErrClosedEarly u64 u64 | ErrEnableSegments
  | ErrRedirectConnection | ErrSendRequest | ErrClosedBeforeStart | ErrNetwork string

text \<open>What the job tells the outside: a request on a connection (start, end, keep-alive,
  open-ended), an update of the item list, the move of the finished file, bytes sent to a proxy,
  an error raised on a connection and the start of TLS.\<close>

datatype job_event = EvRequest nat u64 u64 bool bool | EvUpsert string | EvMoveFile cstring cstring
  | EvSend nat string | EvNetError nat string | EvTlsInit nat

datatype ChunkedState = DL_CHUNKED_STATE_SIZE | DL_CHUNKED_STATE_DATA | DL_CHUNKED_STATE_DONE

record DownloadJob =
  j_url :: string
  j_current_url :: string
  j_item_id :: string
  j_filename :: cstring
  j_filename_inferred :: bool
  j_temp_path :: cstring
  j_dest_path :: cstring
  j_state_path :: cstring
  j_state :: DownloadState
  j_file_open :: bool
  j_slots :: "ChunkSlot list"
  j_seg_cfg :: DownloadSegmentConfig
  j_segment_mode :: bool
  j_segment_disabled :: bool
  j_pending_segment_enable :: bool
  j_step :: DlStep
  j_active_range_start :: u64
  j_active_range_end :: u64
  j_chunk_write_offset :: u64
  j_chunk_received :: u64
  j_chunk_expected :: u64
  j_stream_received :: u64
  j_stream_expected :: u64
  j_stream_persisted :: u64
  j_chunk_persisted :: u64
  j_chunked_encoding :: bool
  j_chunked_complete :: bool
  j_chunked_state :: ChunkedState
  j_chunked_remaining :: u64
  j_chunked_line :: string
  j_streaming :: bool
  j_pending_schedule :: bool
  j_schedule_deferred :: bool
  j_request_sent :: bool
  j_headers_received :: bool
  j_use_ranges :: bool
  j_conn_keep_alive :: bool
  j_redirect_count :: int
  j_done :: bool
  j_failed :: bool
  j_error :: "job_error option"
  j_connect_deadline_ms :: u64
  j_last_activity_ms :: u64
  j_last_progress_ms :: u64
  j_last_persist_ms :: u64
  j_last_upsert_ms :: u64
  j_bytes_since_persist :: u64
  j_segment_error_count :: nat
  j_error_count :: u32
  j_conns :: "nat \<Rightarrow> mg_connection"
  j_tick :: nat
  j_handed :: "u64 \<Rightarrow> char option"
  j_flushed :: "u64 \<Rightarrow> char option"
  j_saved :: "DownloadState option"
  j_log :: "job_event list"

record env =
  e_ok :: "nat \<Rightarrow> bool"
  e_millis :: "nat \<Rightarrow> u64"
  e_file_size :: "nat \<Rightarrow> u64"
  e_item_field :: "nat \<Rightarrow> string \<Rightarrow> string \<Rightarrow> cstring"
  e_queue_field :: "nat \<Rightarrow> string \<Rightarrow> string \<Rightarrow> cstring"
  e_unique_dest :: "nat \<Rightarrow> string \<Rightarrow> cstring"
  e_connect :: "nat \<Rightarrow> nat option"
  e_download_path :: "nat \<Rightarrow> cstring"

definition DL_MAX_SEGMENT_CONCURRENCY :: u64 where "DL_MAX_SEGMENT_CONCURRENCY = 32"
definition DL_DRAIN_MAX_BYTES :: u64 where "DL_DRAIN_MAX_BYTES = DL_CHUNK_SIZE"
definition DL_PROGRESS_PERSIST_MIN_BYTES :: u64 where
  "DL_PROGRESS_PERSIST_MIN_BYTES = 8 * 1048576"
definition DL_PROGRESS_PERSIST_INTERVAL_MS :: u64 where "DL_PROGRESS_PERSIST_INTERVAL_MS = 500"
definition DL_UI_REFRESH_INTERVAL_MS :: u64 where "DL_UI_REFRESH_INTERVAL_MS = 1000"
definition DL_DEFAULT_MAX_RETRIES :: u32 where "DL_DEFAULT_MAX_RETRIES = 10"
definition DL_MAX_REDIRECTS :: int where "DL_MAX_REDIRECTS = 10"

subsection \<open>The environment\<close>

definition ask :: "env \<Rightarrow> DownloadJob \<Rightarrow> bool \<times> DownloadJob" where
  "ask e job = (e_ok e (j_tick job), job\<lparr>j_tick := Suc (j_tick job)\<rparr>)"

definition mg_millis :: "env \<Rightarrow> DownloadJob \<Rightarrow> u64 \<times> DownloadJob" where
  "mg_millis e job = (e_millis e (j_tick job), job\<lparr>j_tick := Suc (j_tick job)\<rparr>)"

definition existing_file_size :: "env \<Rightarrow> DownloadJob \<Rightarrow> u64 \<times> DownloadJob" where
  "existing_file_size e job = (e_file_size e (j_tick job), job\<lparr>j_tick := Suc (j_tick job)\<rparr>)"

definition set_error :: "job_error \<Rightarrow> DownloadJob \<Rightarrow> DownloadJob" where
  "set_error err job = job\<lparr>j_error := Some err, j_failed := True, j_done := True\<rparr>"

definition slot_at :: "DownloadJob \<Rightarrow> nat \<Rightarrow> ChunkSlot" where
  "slot_at job i = j_slots job ! i"

definition put_slot :: "nat \<Rightarrow> ChunkSlot \<Rightarrow> DownloadJob \<Rightarrow> DownloadJob" where
  "put_slot i s job = job\<lparr>j_slots := (j_slots job)[i := s]\<rparr>"

definition upd_conn :: "nat \<Rightarrow> (mg_connection \<Rightarrow> mg_connection) \<Rightarrow> DownloadJob \<Rightarrow> DownloadJob" where
  "upd_conn c f job = job\<lparr>j_conns := (j_conns job)(c := f (j_conns job c))\<rparr>"

text \<open>Marking a range: the memory allocator decides whether the array can grow.\<close>

definition mark_done :: "env \<Rightarrow> DownloadJob \<Rightarrow> u64 \<Rightarrow> u64 \<Rightarrow> int \<times> DownloadJob" where
  "mark_done e job start end =
     (let (ok, job) = ask e job;
          (rc, st) = download_state_mark_range_done (\<lambda>_. ok) (j_state job) start end
      in (rc, job\<lparr>j_state := st\<rparr>))"

definition state_save :: "env \<Rightarrow> DownloadJob \<Rightarrow> DownloadJob" where
  "state_save e job =
     (let (ok, job) = ask e job in if ok then job\<lparr>j_saved := Some (j_state job)\<rparr> else job)"

subsection \<open>The temporary file\<close>

fun write_bytes :: "(u64 \<Rightarrow> char option) \<Rightarrow> u64 \<Rightarrow> bytes \<Rightarrow> (u64 \<Rightarrow> char option)" where
  "write_bytes f offset [] = f"
| "write_bytes f offset (c # cs) = write_bytes (f(offset := Some c)) (offset + 1) cs"

lemma write_bytes_append:
  "write_bytes f a (x @ y) = write_bytes (write_bytes f a x) (a + of_nat (length x)) y"
  by (induction x arbitrary: f a) (simp_all add: add.assoc)

lemma unat_max_u64: "unat (-1 :: u64) = 18446744073709551615"
  by transfer (simp add: mask_eq_exp_minus_1)

lemma write_bytes_lookup:
  "length data \<le> 18446744073709551616 \<Longrightarrow> write_bytes f off data n
    = (if unat (n - off) < length data then Some (data ! unat (n - off)) else f n)"
proof (induction data arbitrary: f off)
  case (Cons c cs)
  show ?case
  proof (cases "n = off")
    case True
    have "off - (off + 1) = (-1 :: u64)" by simp
    then have "unat (off - (off + 1)) = 18446744073709551615" by (simp only: unat_max_u64)
    then show ?thesis using Cons True by simp
  next
    case False
    then have ne: "n - off \<noteq> 0" by simp
    have "n - (off + 1) = n - off - 1" by simp
    then have "unat (n - (off + 1)) = unat (n - off) - 1" using unat_minus_one [OF ne] by (simp only:)
    moreover have "0 < unat (n - off)" using ne by (simp add: unat_gt_0)
    ultimately show ?thesis using Cons False by (auto simp: nth_Cons')
  qed
qed simp

lemma write_bytes_twice:
  "length data \<le> 18446744073709551616 \<Longrightarrow> write_bytes (write_bytes f off data) off data = write_bytes f off data"
  by (rule ext) (simp add: write_bytes_lookup)

text \<open>\<open>avar_async_file_close\<close> reports whether everything reached the disk.\<close>

definition close_file :: "env \<Rightarrow> DownloadJob \<Rightarrow> int \<times> DownloadJob" where
  "close_file e job =
     (if \<not> j_file_open job then (0, job)
      else let (ok, job) = ask e job; job = job\<lparr>j_file_open := False\<rparr>
           in if ok then (0, job\<lparr>j_flushed := j_handed job\<rparr>) else (-1, job))"

definition drain_temp_file :: "env \<Rightarrow> DownloadJob \<Rightarrow> bool \<times> DownloadJob" where
  "drain_temp_file e job =
     (if \<not> j_file_open job then (True, job)
      else let (ok, job) = ask e job
           in if ok then (True, job\<lparr>j_flushed := j_handed job\<rparr>) else (False, job))"

text \<open>\<open>open_temp_file\<close>: making the directory and opening may fail; the modes \<open>w+b\<close> and
  \<open>wb\<close> truncate the file.\<close>

definition open_temp_file :: "env \<Rightarrow> DownloadJob \<Rightarrow> string \<Rightarrow> bool \<times> DownloadJob" where
  "open_temp_file e job mode =
     (if j_file_open job then (True, job)
      else let (dir_ok, job) = ask e job in
        if \<not> dir_ok then (False, job)
        else let (ok, job) = ask e job in
          if \<not> ok then (False, job)
          else (True, if mode = ''w+b'' \<or> mode = ''wb''
                      then job\<lparr>j_file_open := True, j_handed := (\<lambda>_. None), j_flushed := (\<lambda>_. None)\<rparr>
                      else job\<lparr>j_file_open := True\<rparr>))"

definition write_at_offset :: "env \<Rightarrow> DownloadJob \<Rightarrow> bytes \<Rightarrow> u64 \<Rightarrow> bool \<times> DownloadJob" where
  "write_at_offset e job data offset =
     (let (opened, job) =
        (if j_file_open job then (True, job)
         else let (ok, job) = open_temp_file e job ''r+b''
              in if ok then (True, job) else open_temp_file e job ''w+b'')
      in if \<not> opened then (False, set_error ErrOpenTempFile job)
         else let (ok, job) = ask e job in
           if \<not> ok then (False, set_error ErrWriteTempFile job)
           else let job = job\<lparr>j_handed := write_bytes (j_handed job) offset data\<rparr>;
                    (t, job) = mg_millis e job
                in (True, job\<lparr>j_last_activity_ms := t\<rparr>))"

definition append_stream :: "env \<Rightarrow> DownloadJob \<Rightarrow> bytes \<Rightarrow> bool \<times> DownloadJob" where
  "append_stream e job data =
     (if data = [] then (True, job)
      else let (opened, job) =
        (if j_file_open job then (True, job)
         else let job = (if j_stream_received job = 0 \<and> j_temp_path job \<noteq> None
                         then let (n, job) = existing_file_size e job in job\<lparr>j_stream_received := n\<rparr>
                         else job)
              in open_temp_file e job (if j_stream_received job > 0 then ''ab'' else ''wb''))
      in if \<not> opened then (False, set_error ErrOpenTempFile job)
         else let (ok, job) = ask e job in
           if \<not> ok then (False, set_error ErrWriteTempFile job)
           else let job = job\<lparr>j_handed := write_bytes (j_handed job) (j_stream_received job) data,
                     j_stream_received := j_stream_received job + of_nat (length data),
                     j_bytes_since_persist := j_bytes_since_persist job + of_nat (length data)\<rparr>;
                    (t, job) = mg_millis e job
                in (True, job\<lparr>j_last_activity_ms := t\<rparr>))"


subsection \<open>Slots\<close>

fun chunk_slot_find_from :: "ChunkSlot list \<Rightarrow> nat \<Rightarrow> nat \<Rightarrow> nat option" where
  "chunk_slot_find_from [] i c = None"
| "chunk_slot_find_from (s # ss) i c =
     (if cs_in_use s \<and> cs_conn s = Some c then Some i else chunk_slot_find_from ss (Suc i) c)"

definition chunk_slot_find :: "DownloadJob \<Rightarrow> nat \<Rightarrow> nat option" where
  "chunk_slot_find job c = chunk_slot_find_from (j_slots job) 0 c"

definition touch_slot_activity :: "env \<Rightarrow> DownloadJob \<Rightarrow> nat \<Rightarrow> DownloadJob" where
  "touch_slot_activity e job i =
     (let (t, job) = mg_millis e job
      in put_slot i ((slot_at job i)\<lparr>cs_last_activity_ms := t\<rparr>) job)"

definition slot_bytes_remaining :: "ChunkSlot \<Rightarrow> u64" where
  "slot_bytes_remaining slot =
     (if cs_continuous slot
      then (let pos = cs_range_start slot + cs_chunk_received slot
            in if pos > cs_reserved_end slot then 0 else cs_reserved_end slot - pos + 1)
      else if cs_chunk_expected slot = 0 then UINT64_MAX
      else if cs_chunk_received slot \<ge> cs_chunk_expected slot then 0
      else cs_chunk_expected slot - cs_chunk_received slot)"

text \<open>The reservations of the other slots in use, at most \<open>room\<close> of them.\<close>

fun in_flight_loop :: "ChunkSlot list \<Rightarrow> nat \<Rightarrow> nat option \<Rightarrow> nat \<Rightarrow> ByteRange list" where
  "in_flight_loop [] i exclude room = []"
| "in_flight_loop (s # ss) i exclude room =
     (if room = 0 then []
      else if \<not> cs_in_use s \<or> exclude = Some i then in_flight_loop ss (Suc i) exclude room
      else \<lparr>br_start = cs_range_start s, br_end = cs_reserved_end s\<rparr>
           # in_flight_loop ss (Suc i) exclude (room - 1))"

definition slot_collect_in_flight :: "DownloadJob \<Rightarrow> nat option \<Rightarrow> nat \<Rightarrow> ByteRange list" where
  "slot_collect_in_flight job exclude max_count = in_flight_loop (j_slots job) 0 exclude max_count"

fun no_overlap_loop :: "ChunkSlot list \<Rightarrow> nat \<Rightarrow> nat option \<Rightarrow> u64 \<Rightarrow> u64 \<Rightarrow> bool" where
  "no_overlap_loop [] i exclude start end = True"
| "no_overlap_loop (s # ss) i exclude start end =
     (if \<not> cs_in_use s \<or> exclude = Some i then no_overlap_loop ss (Suc i) exclude start end
      else if segment_ranges_overlap start end (cs_range_start s) (cs_reserved_end s) then False
      else no_overlap_loop ss (Suc i) exclude start end)"

definition range_in_flight_predicate :: "DownloadJob \<Rightarrow> nat option \<Rightarrow> u64 \<Rightarrow> u64 \<Rightarrow> bool" where
  "range_in_flight_predicate job exclude start end =
     no_overlap_loop (j_slots job) 0 exclude start end"

definition slot_try_extend_reservation :: "DownloadJob \<Rightarrow> nat \<Rightarrow> bool \<times> DownloadJob" where
  "slot_try_extend_reservation job i =
     (if i \<ge> length (j_slots job) \<or> \<not> cs_continuous (slot_at job i) then (False, job)
      else let in_flight = slot_collect_in_flight job (Some i) (unat DL_MAX_SEGMENT_CONCURRENCY);
               slot = slot_at job i;
               extended = segment_next_reserve_end (j_state job) in_flight (cs_reserved_end slot)
           in if extended \<le> cs_reserved_end slot then (False, job)
              else (True, put_slot i (slot\<lparr>cs_reserved_end := extended, cs_range_end := extended\<rparr>) job))"

text \<open>The loop of \<open>slot_prepare_write\<close>: extend while more data arrived than is reserved.\<close>

lemma slot_try_extend_increases:
  assumes "slot_try_extend_reservation job i = (True, job')"
  shows "cs_reserved_end (slot_at job i) < cs_reserved_end (slot_at job' i)"
  using assms by (auto simp: slot_try_extend_reservation_def Let_def put_slot_def slot_at_def
      split: if_splits)

function extend_loop :: "DownloadJob \<Rightarrow> nat \<Rightarrow> u64 \<Rightarrow> u64 \<Rightarrow> u64 \<Rightarrow> u64 \<times> DownloadJob" where
  "extend_loop job i pos len avail =
     (if len > avail
      then (let (ok, job') = slot_try_extend_reservation job i
            in if \<not> ok then (avail, job)
               else extend_loop job' i pos len (cs_reserved_end (slot_at job' i) - pos + 1))
      else (avail, job))"
  by pat_completeness auto
termination
proof (relation "measure (\<lambda>(job, i, pos, len, avail). unat (UINT64_MAX - cs_reserved_end (slot_at job i)))",
    goal_cases)
  case (2 job i pos len avail p ok job')
  then have lt: "cs_reserved_end (slot_at job i) < cs_reserved_end (slot_at job' i)"
    using slot_try_extend_increases [of job i job'] by simp
  have m: "unat (UINT64_MAX - x) = 18446744073709551615 - unat x" for x :: u64
    using unat_sub_le [of x UINT64_MAX] u64_le_max [of x] by simp
  show ?case using lt u64_le_max [of "cs_reserved_end (slot_at job' i)"]
    by (simp add: m word_less_nat_alt)
qed simp

declare extend_loop.simps [simp del]

definition slot_prepare_write :: "DownloadJob \<Rightarrow> nat \<Rightarrow> u64 \<Rightarrow> bool \<times> u64 \<times> DownloadJob" where
  "slot_prepare_write job i len =
     (if i \<ge> length (j_slots job) \<or> len = 0 then (False, len, job)
      else let slot = slot_at job i in
        if \<not> cs_continuous slot then (True, len, job)
        else let pos = cs_range_start slot + cs_chunk_received slot in
          if pos > cs_reserved_end slot then (False, 0, job)
          else let (avail, job) = extend_loop job i pos len (cs_reserved_end slot - pos + 1);
                   len = (if len > avail then avail else len)
               in (len > 0, len, job))"

definition slot_write_body :: "env \<Rightarrow> DownloadJob \<Rightarrow> nat \<Rightarrow> bytes \<Rightarrow> bool \<times> DownloadJob" where
  "slot_write_body e job i data =
     (let (ok, len, job) = slot_prepare_write job i (of_nat (length data)) in
      if \<not> ok then (len = 0, job)
      else let remaining = slot_bytes_remaining (slot_at job i);
               len = (if remaining \<noteq> UINT64_MAX \<and> len > remaining then remaining else len)
        in if len = 0 then (True, job)
           else let slot = slot_at job i;
                    (ok, job) = write_at_offset e job (take (unat len) data)
                                  (cs_chunk_write_offset slot + cs_chunk_received slot)
             in if \<not> ok then (False, job)
                else let slot = slot_at job i;
                         slot = slot\<lparr>cs_chunk_received := cs_chunk_received slot + len,
                           cs_response_remaining :=
                             (if cs_response_remaining slot \<ge> len
                              then cs_response_remaining slot - len else 0)\<rparr>;
                         job = put_slot i slot job;
                         job = job\<lparr>j_bytes_since_persist := j_bytes_since_persist job + len\<rparr>
                     in (True, touch_slot_activity e job i))"

definition slot_begin_draining :: "DownloadJob \<Rightarrow> nat \<Rightarrow> DownloadJob" where
  "slot_begin_draining job i =
     put_slot i ((slot_at job i)\<lparr>cs_draining := True, cs_streaming := False\<rparr>) job"

fun first_free :: "ChunkSlot list \<Rightarrow> nat \<Rightarrow> nat option" where
  "first_free [] i = None"
| "first_free (s # ss) i = (if \<not> cs_in_use s then Some i else first_free ss (Suc i))"

definition chunk_slot_acquire ::
  "env \<Rightarrow> DownloadJob \<Rightarrow> u64 \<Rightarrow> u64 \<Rightarrow> nat option \<times> DownloadJob" where
  "chunk_slot_acquire e job range_start range_end =
     (case first_free (j_slots job) 0 of
        None \<Rightarrow> (None, job)
      | Some i \<Rightarrow>
          let (t, job) = mg_millis e job
          in (Some i, put_slot i (empty_slot\<lparr>cs_in_use := True, cs_range_start := range_start,
                cs_range_end := range_end, cs_reserved_end := range_end,
                cs_continuous := j_segment_mode job, cs_keep_alive := j_segment_mode job,
                cs_last_activity_ms := t\<rparr>) job))"

definition chunk_slot_release :: "DownloadJob \<Rightarrow> nat \<Rightarrow> DownloadJob" where
  "chunk_slot_release job i = put_slot i empty_slot job"

definition count_active_slots :: "DownloadJob \<Rightarrow> nat" where
  "count_active_slots job = length (filter cs_in_use (j_slots job))"

subsection \<open>Persisting received bytes\<close>

text \<open>A slot that is streaming and has received more than it has persisted.\<close>

definition slot_unpersisted :: "ChunkSlot \<Rightarrow> bool" where
  "slot_unpersisted s \<longleftrightarrow>
     \<not> (\<not> cs_in_use s \<or> \<not> cs_streaming s \<or> cs_chunk_received s \<le> cs_persisted_received s)"

fun slots_unpersisted_sum :: "ChunkSlot list \<Rightarrow> u64 \<Rightarrow> u64" where
  "slots_unpersisted_sum [] bytes = bytes"
| "slots_unpersisted_sum (s # ss) bytes =
     slots_unpersisted_sum ss
       (if slot_unpersisted s then bytes + (cs_chunk_received s - cs_persisted_received s) else bytes)"

definition job_bytes_done :: "DownloadJob \<Rightarrow> u64" where
  "job_bytes_done job =
     (if j_step job = DL_STEP_STREAM then j_stream_received job
      else let bytes = download_state_bytes_done (j_state job) in
        if j_slots job \<noteq> [] then slots_unpersisted_sum (j_slots job) bytes
        else if j_streaming job \<and> j_chunk_received job > j_chunk_persisted job
        then bytes + (j_chunk_received job - j_chunk_persisted job) else bytes)"

definition job_unpersisted_bytes :: "DownloadJob \<Rightarrow> u64" where
  "job_unpersisted_bytes job =
     (if j_slots job \<noteq> [] then slots_unpersisted_sum (j_slots job) 0
      else if j_step job = DL_STEP_CHUNK \<and> j_streaming job \<and> j_chunk_received job > j_chunk_persisted job
      then j_chunk_received job - j_chunk_persisted job
      else if j_step job = DL_STEP_STREAM \<and> j_stream_received job > j_stream_persisted job
      then j_stream_received job - j_stream_persisted job
      else 0)"

definition should_persist_now :: "env \<Rightarrow> DownloadJob \<Rightarrow> bool \<Rightarrow> bool \<times> DownloadJob" where
  "should_persist_now e job force =
     (if job_unpersisted_bytes job = 0 then (False, job)
      else if force then (True, job)
      else if j_bytes_since_persist job \<ge> DL_PROGRESS_PERSIST_MIN_BYTES then (True, job)
      else let (now, job) = mg_millis e job
           in (j_last_persist_ms job = 0
               \<or> now - j_last_persist_ms job \<ge> DL_PROGRESS_PERSIST_INTERVAL_MS, job))"

text \<open>The loop over the slots, from index \<open>i\<close>; the flag is \<open>changed\<close>.\<close>

fun persist_slots :: "env \<Rightarrow> nat \<Rightarrow> nat \<Rightarrow> bool \<Rightarrow> DownloadJob \<Rightarrow> bool \<times> DownloadJob" where
  "persist_slots e 0 i changed job = (changed, job)"
| "persist_slots e (Suc n) i changed job =
     (let s = slot_at job i in
      if \<not> slot_unpersisted s then persist_slots e n (Suc i) changed job
      else let start = cs_chunk_write_offset s + cs_persisted_received s;
               end = cs_chunk_write_offset s + cs_chunk_received s - 1;
               (rc, job) = mark_done e job start end
        in if rc \<noteq> 0 then persist_slots e n (Suc i) changed job
           else persist_slots e n (Suc i) True
                  (put_slot i (s\<lparr>cs_persisted_received := cs_chunk_received s\<rparr>) job))"

text \<open>The tail shared by the places that record progress: refresh the counter, drain the
  writer, save the state only when that worked, and note the time.\<close>

definition record_progress :: "env \<Rightarrow> DownloadJob \<Rightarrow> DownloadJob" where
  "record_progress e job =
     (let job = job\<lparr>j_state := (j_state job)\<lparr>ds_bytes_downloaded := download_state_bytes_done (j_state job)\<rparr>\<rparr>;
          (drained, job) = drain_temp_file e job;
          job = (if drained then state_save e job else job);
          job = job\<lparr>j_bytes_since_persist := 0\<rparr>;
          (t, job) = mg_millis e job
      in job\<lparr>j_last_persist_ms := t\<rparr>)"

definition persist_buffered_progress :: "env \<Rightarrow> DownloadJob \<Rightarrow> bool \<Rightarrow> bool \<times> DownloadJob" where
  "persist_buffered_progress e job force =
     (if j_state_path job = None then (False, job)
      else let (yes, job) = should_persist_now e job force in
        if \<not> yes then (False, job)
        else let (changed, job) =
          (if j_slots job \<noteq> [] then persist_slots e (length (j_slots job)) 0 False job
           else if j_step job = DL_STEP_CHUNK \<and> j_streaming job \<and> j_chunk_received job > j_chunk_persisted job
           then (let start = j_chunk_write_offset job + j_chunk_persisted job;
                     end = j_chunk_write_offset job + j_chunk_received job - 1;
                     (rc, job) = mark_done e job start end
                 in if rc = 0 then (True, job\<lparr>j_chunk_persisted := j_chunk_received job\<rparr>) else (False, job))
           else if j_step job = DL_STEP_STREAM \<and> j_stream_received job > j_stream_persisted job
           then (let (rc, job) = mark_done e job 0 (j_stream_received job - 1)
                 in if rc = 0 then (True, job\<lparr>j_stream_persisted := j_stream_received job\<rparr>) else (False, job))
           else (False, job))
          in (changed, if changed then record_progress e job else job))"


subsection \<open>The item list and the retry budget\<close>

definition download_status_is_valid :: "cstring \<Rightarrow> bool" where
  "download_status_is_valid status =
     (case status of None \<Rightarrow> False | Some s \<Rightarrow>
        if s = [] then False
        else if starts_with ''dl-'' s then False
        else s = ''queued'' \<or> s = ''downloading'' \<or> s = ''paused'' \<or> s = ''stopped''
             \<or> s = ''completed'' \<or> s = ''failed'')"

definition download_status_normalize :: "string \<Rightarrow> string \<Rightarrow> string" where
  "download_status_normalize status fallback =
     (if download_status_is_valid (Some status) then status
      else if download_status_is_valid (Some fallback) then fallback
      else ''queued'')"

definition sync_state_metadata :: "env \<Rightarrow> DownloadJob \<Rightarrow> string \<Rightarrow> DownloadJob" where
  "sync_state_metadata e job status =
     (if j_state_path job = None then job
      else let (_, job) = persist_buffered_progress e job True;
               st = j_state job;
               st = st\<lparr>ds_status := Some status, ds_bytes_downloaded := download_state_bytes_done st,
                      ds_id := Some (j_item_id job), ds_url := Some (j_url job)\<rparr>
           in state_save e (job\<lparr>j_state := st\<rparr>))"

definition read_config_item_queue_id :: "env \<Rightarrow> DownloadJob \<Rightarrow> cstring \<times> DownloadJob" where
  "read_config_item_queue_id e job =
     (e_item_field e (j_tick job) (j_item_id job) ''queueId'', job\<lparr>j_tick := Suc (j_tick job)\<rparr>)"

definition dm_item_upsert :: "env \<Rightarrow> DownloadJob \<Rightarrow> string \<Rightarrow> DownloadJob" where
  "dm_item_upsert e job status =
     (let normalized = download_status_normalize status ''downloading'';
          (config_queue_id, job) = read_config_item_queue_id e job;
          job = (case config_queue_id of
                   None \<Rightarrow> job
                 | Some q \<Rightarrow> if q \<noteq> [] then job\<lparr>j_state := (j_state job)\<lparr>ds_queue_id := Some q\<rparr>\<rparr> else job);
          job = sync_state_metadata e job normalized;
          (ok, job) = ask e job
      in if \<not> ok then job
         else let (t, job) = mg_millis e job
              in job\<lparr>j_last_upsert_ms := t, j_log := j_log job @ [EvUpsert normalized]\<rparr>)"

definition dm_item_upsert_throttled :: "env \<Rightarrow> DownloadJob \<Rightarrow> string \<Rightarrow> DownloadJob" where
  "dm_item_upsert_throttled e job status =
     (if j_last_upsert_ms job \<noteq> 0
      then let (now, job) = mg_millis e job
           in if now - j_last_upsert_ms job < DL_UI_REFRESH_INTERVAL_MS then job
              else dm_item_upsert e job status
      else dm_item_upsert e job status)"

text \<open>A positive decimal number, truncated to 32 bits.\<close>

definition parse_positive_u32 :: "cstring \<Rightarrow> u32 option" where
  "parse_positive_u32 value =
     (case value of None \<Rightarrow> None | Some s \<Rightarrow>
        if s = [] \<or> strtoull_failed 10 s \<or> strtoull_value 10 s = 0 then None
        else Some (ucast (strtoull_value 10 s)))"

definition read_item_optional_uint32 :: "env \<Rightarrow> DownloadJob \<Rightarrow> string \<Rightarrow> u32 option \<times> DownloadJob" where
  "read_item_optional_uint32 e job field =
     (parse_positive_u32 (e_item_field e (j_tick job) (j_item_id job) field),
      job\<lparr>j_tick := Suc (j_tick job)\<rparr>)"

definition read_queue_max_retries :: "env \<Rightarrow> DownloadJob \<Rightarrow> cstring \<Rightarrow> u32 \<times> DownloadJob" where
  "read_queue_max_retries e job queue_id =
     (case queue_id of None \<Rightarrow> (0, job) | Some q \<Rightarrow>
        if q = [] then (0, job)
        else (case parse_positive_u32 (e_queue_field e (j_tick job) q ''maxRetries'') of
                None \<Rightarrow> 0 | Some n \<Rightarrow> n, job\<lparr>j_tick := Suc (j_tick job)\<rparr>))"

definition resolve_max_retries :: "env \<Rightarrow> DownloadJob \<Rightarrow> u32 \<times> DownloadJob" where
  "resolve_max_retries e job =
     (let (item_limit, job) = read_item_optional_uint32 e job ''maxRetries'' in
      case item_limit of
        Some n \<Rightarrow> (n, job)
      | None \<Rightarrow>
          let (queue_limit, job) = read_queue_max_retries e job (ds_queue_id (j_state job))
          in (if queue_limit > 0 then queue_limit else DL_DEFAULT_MAX_RETRIES, job))"

definition load_job_retry_state :: "env \<Rightarrow> DownloadJob \<Rightarrow> DownloadJob" where
  "load_job_retry_state e job =
     (let (n, job) = read_item_optional_uint32 e job ''errorCount''
      in case n of Some n \<Rightarrow> job\<lparr>j_error_count := n\<rparr> | None \<Rightarrow> job)"

definition record_recoverable_error :: "env \<Rightarrow> DownloadJob \<Rightarrow> bool \<times> DownloadJob" where
  "record_recoverable_error e job =
     (let job = job\<lparr>j_error_count := j_error_count job + 1\<rparr>;
          (limit, job) = resolve_max_retries e job
      in if j_error_count job \<ge> limit
         then (True, dm_item_upsert e (set_error (ErrMaxRetries limit) job) ''failed'')
         else (False, dm_item_upsert e job ''downloading''))"

definition reset_retry_count_on_success :: "DownloadJob \<Rightarrow> DownloadJob" where
  "reset_retry_count_on_success job =
     (if j_error_count job = 0 then job else job\<lparr>j_error_count := 0\<rparr>)"

definition note_segment_failure :: "env \<Rightarrow> DownloadJob \<Rightarrow> DownloadJob" where
  "note_segment_failure e job =
     (let job = job\<lparr>j_segment_error_count := Suc (j_segment_error_count job)\<rparr>;
          (stop, job) = record_recoverable_error e job
      in if stop then job else job\<lparr>j_schedule_deferred := True\<rparr>)"

subsection \<open>Finishing a download\<close>

definition request_close :: "DownloadJob \<Rightarrow> nat \<Rightarrow> bool \<Rightarrow> DownloadJob" where
  "request_close job c schedule_after_close =
     upd_conn c (\<lambda>m. m\<lparr>mc_is_draining := True\<rparr>) (job\<lparr>j_pending_schedule := schedule_after_close\<rparr>)"

text \<open>The name after the last path separator.\<close>

definition path_basename :: "string \<Rightarrow> string" where
  "path_basename p = (case strrchr p CHR ''/'' of None \<Rightarrow> p | Some t \<Rightarrow> drop 1 t)"

definition finalize_download :: "env \<Rightarrow> DownloadJob \<Rightarrow> bool \<times> DownloadJob" where
  "finalize_download e job =
     (if j_done job then (\<not> j_failed job, job)
      else let (_, job) = persist_buffered_progress e job True;
               (rc, job) = close_file e job in
        if rc \<noteq> 0 then (False, set_error ErrFlush job)
        else let total_size = ds_total_size (j_state job);
                 finished = (if j_step job = DL_STEP_STREAM then j_stream_received job
                             else download_state_bytes_done (j_state job)) in
          if total_size > 0 \<and> finished < total_size
          then (False, set_error (ErrIncomplete finished total_size) job)
          else (case e_unique_dest e (j_tick job) (the (j_dest_path job)) of
                  None \<Rightarrow> (False, set_error ErrResolveDest (job\<lparr>j_tick := Suc (j_tick job)\<rparr>))
                | Some unique_dest \<Rightarrow>
                    let job = job\<lparr>j_tick := Suc (j_tick job)\<rparr>;
                        job = (if Some unique_dest \<noteq> j_dest_path job
                               then let base = path_basename unique_dest
                                    in job\<lparr>j_dest_path := Some unique_dest, j_filename := Some base,
                                         j_state := (j_state job)\<lparr>ds_dest_path := Some unique_dest,
                                           ds_filename := Some base\<rparr>\<rparr>
                               else job);
                        (moved, job) = ask e job
                    in if \<not> moved then (False, set_error ErrMoveFile job)
                       else let job = job\<lparr>j_log := j_log job @ [EvMoveFile (j_temp_path job) (j_dest_path job)],
                                     j_state := (j_state job)\<lparr>ds_temp_path := None\<rparr>\<rparr>;
                                job = dm_item_upsert e job ''completed''
                            in (True, job\<lparr>j_done := True\<rparr>)))"

subsection \<open>Transfer-Encoding: chunked\<close>

text \<open>The C string in a character buffer ends at the first NUL.\<close>

definition c_string_of :: "bytes \<Rightarrow> string" where
  "c_string_of bs = takeWhile (\<lambda>c. code_of c \<noteq> 0) bs"

lemma chunk_take_pos: "r \<noteq> (of_nat (min (Suc n) (unat r)) :: u64) \<Longrightarrow> 0 < unat r"
  by (cases "unat r") (auto simp: unat_eq_0)

function (sequential) append_stream_chunked :: "env \<Rightarrow> DownloadJob \<Rightarrow> bytes \<Rightarrow> bool \<times> DownloadJob" where
  "append_stream_chunked e job [] = (True, job)"
| "append_stream_chunked e job (ch # data) =
     (case j_chunked_state job of
        DL_CHUNKED_STATE_SIZE \<Rightarrow>
          if code_of ch = 10
          then if j_chunked_line job = [] then append_stream_chunked e job data
               else let line = c_string_of (j_chunked_line job);
                        size = strtoull_value 16 line;
                        job = job\<lparr>j_chunked_line := []\<rparr>
                 in if strtoull_failed 16 line then (False, set_error ErrInvalidChunkedEncoding job)
                    else if size = 0
                    then (True, job\<lparr>j_chunked_complete := True, j_chunked_state := DL_CHUNKED_STATE_DONE\<rparr>)
                    else append_stream_chunked e
                           (job\<lparr>j_chunked_remaining := size, j_chunked_state := DL_CHUNKED_STATE_DATA\<rparr>) data
          else if code_of ch \<noteq> 13 \<and> length (j_chunked_line job) + 1 < 20
          then append_stream_chunked e (job\<lparr>j_chunked_line := j_chunked_line job @ [ch]\<rparr>) data
          else append_stream_chunked e job data
      | DL_CHUNKED_STATE_DATA \<Rightarrow>
          let take_len = min (length (ch # data)) (unat (j_chunked_remaining job));
              (ok, job') = append_stream e job (take take_len (ch # data)) in
          if \<not> ok then (False, job')
          else let left = j_chunked_remaining job - of_nat take_len;
                   job' = job'\<lparr>j_chunked_remaining := left,
                     j_chunked_state := (if left = 0 then DL_CHUNKED_STATE_SIZE else DL_CHUNKED_STATE_DATA)\<rparr>
               in append_stream_chunked e job' (drop take_len (ch # data))
      | DL_CHUNKED_STATE_DONE \<Rightarrow> (True, job))"
  by pat_completeness auto
termination
  by (relation "measures [\<lambda>(e, job, data). length data,
      \<lambda>(e, job, data). if j_chunked_state job = DL_CHUNKED_STATE_DATA then 1 else 0]")
    (auto dest!: chunk_take_pos)

definition append_stream_decoded :: "env \<Rightarrow> DownloadJob \<Rightarrow> bytes \<Rightarrow> bool \<times> DownloadJob" where
  "append_stream_decoded e job data =
     (if j_chunked_encoding job then append_stream_chunked e job data else append_stream e job data)"


subsection \<open>Examples\<close>

text \<open>A zero-initialized job and an environment in which every call works and the clock stands still,
  for the examples.\<close>

definition zero_job :: DownloadJob where
  "zero_job = \<lparr>j_url = [], j_current_url = [], j_item_id = [], j_filename = None,
     j_filename_inferred = False, j_temp_path = None, j_dest_path = None, j_state_path = None,
     j_state = calloc_state, j_file_open = False, j_slots = [], j_seg_cfg = sample_cfg,
     j_segment_mode = False, j_segment_disabled = False, j_pending_segment_enable = False,
     j_step = DL_STEP_STREAM, j_active_range_start = 0, j_active_range_end = 0,
     j_chunk_write_offset = 0, j_chunk_received = 0, j_chunk_expected = 0, j_stream_received = 0,
     j_stream_expected = 0, j_stream_persisted = 0, j_chunk_persisted = 0,
     j_chunked_encoding = False, j_chunked_complete = False,
     j_chunked_state = DL_CHUNKED_STATE_SIZE, j_chunked_remaining = 0, j_chunked_line = [],
     j_streaming = False, j_pending_schedule = False, j_schedule_deferred = False,
     j_request_sent = False, j_headers_received = False, j_use_ranges = False,
     j_conn_keep_alive = False, j_redirect_count = 0, j_done = False, j_failed = False,
     j_error = None, j_connect_deadline_ms = 0, j_last_activity_ms = 0, j_last_progress_ms = 0,
     j_last_persist_ms = 0, j_last_upsert_ms = 0, j_bytes_since_persist = 0,
     j_segment_error_count = 0, j_error_count = 0,
     j_conns = (\<lambda>_. \<lparr>mc_recv = [], mc_is_draining = False, mc_data0 = False\<rparr>),
     j_tick = 0, j_handed = (\<lambda>_. None), j_flushed = (\<lambda>_. None), j_saved = None,
     j_log = []\<rparr>"

definition sample_env :: env where
  "sample_env = \<lparr>e_ok = (\<lambda>_. True), e_millis = (\<lambda>_. 0), e_file_size = (\<lambda>_. 0),
     e_item_field = (\<lambda>_ _ _. None), e_queue_field = (\<lambda>_ _ _. None), e_unique_dest = (\<lambda>_ p. Some p),
     e_connect = (\<lambda>t. Some t), e_download_path = (\<lambda>_. None)\<rparr>"

lemma sample_env_sel [simp]: "e_ok sample_env t = True" "e_millis sample_env t = 0" "e_connect sample_env t = Some t"
  "e_item_field sample_env t a b = None" "e_unique_dest sample_env t p = Some p"
  by (simp_all add: sample_env_def)

end
