(* ===== verification/Job_Events.thy ===== *)
theory Job_Events
  imports Job Http Paths
begin

text \<open>
  The event handlers of \<^verbatim>\<open>src/src/download.c\<close>: response headers, body bytes, the end of a
  segment, a closed connection, the fall-back from segments to one stream, and the scheduling
  of new segment requests.  The connection layer is mongoose: a message is what
  \<open>mg_http_parse\<close> reports of the receive buffer, and the library's own functions are the
  fields of \<open>mg_api\<close>.  The proxy part of the connection context is in the proxy theory.
\<close>

subsection \<open>Messages and the library\<close>

record http_message =
  hm_status :: int
  hm_header :: "string \<Rightarrow> cstring"
  hm_head_len :: nat
  hm_body_len :: nat
  hm_proto :: string

record mg_api =
  ma_url_host :: "string \<Rightarrow> string"
  ma_url_decode :: "string \<Rightarrow> cstring"
  ma_http_parse :: "bytes \<Rightarrow> http_message option"

definition print_progress :: "env \<Rightarrow> DownloadJob \<Rightarrow> DownloadJob" where
  "print_progress e job = (let (now, job) = mg_millis e job in job\<lparr>j_last_progress_ms := now\<rparr>)"

definition recv_of :: "DownloadJob \<Rightarrow> nat \<Rightarrow> bytes" where
  "recv_of job c = mc_recv (j_conns job c)"

definition clear_recv :: "nat \<Rightarrow> DownloadJob \<Rightarrow> DownloadJob" where
  "clear_recv c job = upd_conn c (\<lambda>m. m\<lparr>mc_recv := []\<rparr>) job"

subsection \<open>Requests\<close>

definition chunk_request_keep_alive :: "DownloadJob \<Rightarrow> nat option \<Rightarrow> bool" where
  "chunk_request_keep_alive job slot =
     (if j_step job \<noteq> DL_STEP_CHUNK then False
      else case slot of Some i \<Rightarrow> j_segment_mode job \<and> cs_keep_alive (slot_at job i)
                      | None \<Rightarrow> j_conn_keep_alive job)"

text \<open>The bytes a request asks for, as the Range header states them: none, an open end, or a
  closed range.\<close>

definition send_request :: "DownloadJob \<Rightarrow> nat \<Rightarrow> u64 \<Rightarrow> u64 \<Rightarrow> bool \<Rightarrow> bool \<Rightarrow> DownloadJob" where
  "send_request job c range_start range_end keep_alive cont =
     job\<lparr>j_log := j_log job @ [EvRequest c range_start range_end keep_alive cont]\<rparr>"

definition send_request_for_slot :: "env \<Rightarrow> DownloadJob \<Rightarrow> nat \<Rightarrow> nat option \<Rightarrow> DownloadJob" where
  "send_request_for_slot e job c slot =
     (if mc_data0 (j_conns job c) then job
      else let job = upd_conn c (\<lambda>m. m\<lparr>mc_data0 := True\<rparr>) job;
               job = (case slot of
                        Some i \<Rightarrow> touch_slot_activity e
                          (put_slot i ((slot_at job i)\<lparr>cs_request_sent := True\<rparr>) job) i
                      | None \<Rightarrow> job\<lparr>j_request_sent := True\<rparr>);
               keep_alive = chunk_request_keep_alive job slot;
               cont = (case slot of Some i \<Rightarrow> cs_continuous (slot_at job i) | None \<Rightarrow> False)
           in if slot \<noteq> None \<and> j_step job = DL_STEP_CHUNK
              then send_request job c (cs_range_start (slot_at job (the slot)))
                     (cs_range_end (slot_at job (the slot))) keep_alive cont
              else if j_step job = DL_STEP_CHUNK
              then send_request job c (j_active_range_start job) (j_active_range_end job) keep_alive False
              else if j_step job = DL_STEP_STREAM
              then send_request job c (j_stream_received job) 0 False False
              else send_request job c 0 0 False False)"

subsection \<open>Received bytes\<close>

definition flush_recv_body :: "env \<Rightarrow> DownloadJob \<Rightarrow> nat option \<Rightarrow> nat \<Rightarrow> DownloadJob" where
  "flush_recv_body e job slot c =
     (if recv_of job c = [] then job
      else if slot \<noteq> None \<and> cs_streaming (slot_at job (the slot))
      then (let (ok, job) = slot_write_body e job (the slot) (recv_of job c)
            in if ok then clear_recv c job else job)
      else if \<not> j_streaming job then job
      else if j_step job = DL_STEP_CHUNK
      then (let len = of_nat (length (recv_of job c));
                (ok, job) = write_at_offset e job (recv_of job c)
                              (j_chunk_write_offset job + j_chunk_received job)
            in if \<not> ok then job
               else clear_recv c (job\<lparr>j_chunk_received := j_chunk_received job + len,
                      j_bytes_since_persist := j_bytes_since_persist job + len\<rparr>))
      else let (ok, job) = append_stream_decoded e job (recv_of job c)
           in if ok then clear_recv c job else job)"

definition buffered_http_body :: "DownloadJob \<Rightarrow> nat \<Rightarrow> http_message \<Rightarrow> nat" where
  "buffered_http_body job c hm =
     (if hm_body_len hm = 0 \<or> length (recv_of job c) \<le> hm_head_len hm then 0
      else let avail = length (recv_of job c) - hm_head_len hm
           in if hm_body_len hm < avail then hm_body_len hm else avail)"

text \<open>The first \<open>n\<close> body bytes in the receive buffer, and the removal of header and body.\<close>

definition body_bytes :: "DownloadJob \<Rightarrow> nat \<Rightarrow> http_message \<Rightarrow> nat \<Rightarrow> bytes" where
  "body_bytes job c hm n = take n (drop (hm_head_len hm) (recv_of job c))"

definition consume_recv :: "nat \<Rightarrow> nat \<Rightarrow> DownloadJob \<Rightarrow> DownloadJob" where
  "consume_recv c n job = upd_conn c (\<lambda>m. m\<lparr>mc_recv := drop n (mc_recv m)\<rparr>) job"

definition begin_stream_body :: "env \<Rightarrow> DownloadJob \<Rightarrow> nat \<Rightarrow> http_message \<Rightarrow> DownloadJob" where
  "begin_stream_body e job c hm =
     (let job = job\<lparr>j_streaming := True\<rparr>;
          to_write = buffered_http_body job c hm;
          (ok, job) = (if to_write > 0 then append_stream_decoded e job (body_bytes job c hm to_write)
                       else (True, job))
      in if \<not> ok then upd_conn c (\<lambda>m. m\<lparr>mc_is_draining := True\<rparr>) job
         else dm_item_upsert e (print_progress e (consume_recv c (hm_head_len hm + to_write) job)) ''downloading'')"

definition begin_chunk_body ::
  "env \<Rightarrow> DownloadJob \<Rightarrow> nat option \<Rightarrow> nat \<Rightarrow> http_message \<Rightarrow> DownloadJob" where
  "begin_chunk_body e job slot c hm =
     (let range_start = (case slot of Some i \<Rightarrow> cs_range_start (slot_at job i) | None \<Rightarrow> j_active_range_start job);
          job = (case slot of
                   Some i \<Rightarrow> touch_slot_activity e
                     (put_slot i ((slot_at job i)\<lparr>cs_streaming := True, cs_chunk_write_offset := range_start,
                        cs_chunk_received := 0\<rparr>) job) i
                 | None \<Rightarrow> job\<lparr>j_streaming := True, j_chunk_write_offset := range_start, j_chunk_received := 0\<rparr>);
          to_write = buffered_http_body job c hm;
          (ok, job) =
            (if to_write = 0 then (True, job)
             else case slot of
                    Some i \<Rightarrow> slot_write_body e job i (body_bytes job c hm to_write)
                  | None \<Rightarrow>
                      (let (ok, job) = write_at_offset e job (body_bytes job c hm to_write) range_start
                       in (ok, if ok then job\<lparr>j_chunk_received := j_chunk_received job + of_nat to_write,
                                      j_bytes_since_persist := j_bytes_since_persist job + of_nat to_write\<rparr>
                               else job)))
      in if \<not> ok then upd_conn c (\<lambda>m. m\<lparr>mc_is_draining := True\<rparr>) job
         else dm_item_upsert e (print_progress e (consume_recv c (hm_head_len hm + to_write) job)) ''downloading'')"

subsection \<open>The end of a segment\<close>

definition slot_pick_next_range :: "DownloadJob \<Rightarrow> nat \<Rightarrow> ByteRange option" where
  "slot_pick_next_range job i =
     (case segment_select_chunks (j_seg_cfg job) (j_state job) 1
             (Some (range_in_flight_predicate job (Some i))) of
        [] \<Rightarrow> None | r # _ \<Rightarrow> Some r)"

definition slot_reset_for_request :: "env \<Rightarrow> DownloadJob \<Rightarrow> nat \<Rightarrow> nat \<Rightarrow> u64 \<Rightarrow> u64 \<Rightarrow> DownloadJob" where
  "slot_reset_for_request e job i c range_start range_end =
     (let (t, job) = mg_millis e job;
          job = put_slot i ((slot_at job i)\<lparr>cs_range_start := range_start, cs_range_end := range_end,
                  cs_reserved_end := range_end, cs_chunk_write_offset := range_start,
                  cs_chunk_received := 0, cs_chunk_expected := 0, cs_response_remaining := 0,
                  cs_persisted_received := 0, cs_headers_received := False, cs_streaming := False,
                  cs_draining := False, cs_request_sent := False, cs_last_activity_ms := t\<rparr>) job
      in upd_conn c (\<lambda>m. m\<lparr>mc_data0 := False\<rparr>) job)"

definition slot_mark_segment_done :: "env \<Rightarrow> DownloadJob \<Rightarrow> nat \<Rightarrow> nat \<Rightarrow> bool \<times> DownloadJob" where
  "slot_mark_segment_done e job i c =
     (let slot = slot_at job i in
      if cs_chunk_received slot = 0 then (False, job)
      else let done_start = cs_range_start slot;
               done_end = cs_range_start slot + cs_chunk_received slot - 1 in
        if download_state_is_range_done (j_state job) done_start done_end then (True, job)
        else let job = flush_recv_body e job (Some i) c; slot = slot_at job i in
          if \<not> cs_continuous slot \<and> cs_chunk_expected slot > 0 \<and> cs_chunk_received slot < cs_chunk_expected slot
          then (False, job)
          else let (_, job) = mark_done e job done_start done_end;
                   slot = slot_at job i;
                   job = put_slot i (slot\<lparr>cs_persisted_received := cs_chunk_received slot\<rparr>) job
               in (True, record_progress e job))"

definition slot_reuse_for_next_range :: "env \<Rightarrow> DownloadJob \<Rightarrow> nat \<Rightarrow> nat \<Rightarrow> ByteRange \<Rightarrow> DownloadJob" where
  "slot_reuse_for_next_range e job i c nxt =
     (let job = slot_reset_for_request e job i c (br_start nxt) (br_end nxt);
          job = put_slot i ((slot_at job i)\<lparr>cs_request_sent := True\<rparr>) job;
          job = upd_conn c (\<lambda>m. m\<lparr>mc_data0 := True\<rparr>) job;
          job = send_request job c (br_start nxt) (br_end nxt) True (cs_continuous (slot_at job i))
      in touch_slot_activity e job i)"

text \<open>What follows a finished segment: the download is complete, or the connection is reused
  for the next range, or it is closed.\<close>

definition slot_next_or_close :: "env \<Rightarrow> DownloadJob \<Rightarrow> nat \<Rightarrow> nat \<Rightarrow> DownloadJob" where
  "slot_next_or_close e job i c =
     (if download_state_all_chunks_done (j_state job)
      then snd (finalize_download e (request_close (chunk_slot_release job i) c False))
      else case (if j_segment_mode job \<and> cs_keep_alive (slot_at job i)
                 then slot_pick_next_range job i else None) of
             Some nxt \<Rightarrow> slot_reuse_for_next_range e job i c nxt
           | None \<Rightarrow> (request_close (chunk_slot_release job i) c False)\<lparr>j_schedule_deferred := True\<rparr>)"

definition slot_finish_continuous :: "env \<Rightarrow> DownloadJob \<Rightarrow> nat \<Rightarrow> nat \<Rightarrow> DownloadJob" where
  "slot_finish_continuous e job i c =
     (let (ok, job) = slot_mark_segment_done e job i c in
      if \<not> ok then request_close (note_segment_failure e (chunk_slot_release job i)) c False
      else let job = put_slot i ((slot_at job i)\<lparr>cs_chunk_received := 0, cs_chunk_expected := 0,
                       cs_draining := False, cs_response_remaining := 0\<rparr>) job;
               job = dm_item_upsert_throttled e (print_progress e job) ''downloading''
           in slot_next_or_close e job i c)"

definition slot_finish_segment :: "env \<Rightarrow> DownloadJob \<Rightarrow> nat \<Rightarrow> nat \<Rightarrow> DownloadJob" where
  "slot_finish_segment e job i c =
     (if cs_continuous (slot_at job i) then slot_finish_continuous e job i c
      else let (ok, job) = slot_mark_segment_done e job i c in
        if \<not> ok then request_close (note_segment_failure e (chunk_slot_release job i)) c False
        else let job = put_slot i ((slot_at job i)\<lparr>cs_streaming := False, cs_chunk_received := 0,
                         cs_chunk_expected := 0\<rparr>) job;
                 job = dm_item_upsert_throttled e (print_progress e job) ''downloading''
             in slot_next_or_close e job i c)"

definition complete_chunk_slot :: "env \<Rightarrow> DownloadJob \<Rightarrow> nat \<Rightarrow> nat \<Rightarrow> bool \<times> DownloadJob" where
  "complete_chunk_slot e job i c =
     (let slot = slot_at job i in
      if cs_chunk_received slot = 0 then (False, job)
      else if download_state_is_range_done (j_state job) (cs_range_start slot)
                (cs_range_start slot + cs_chunk_received slot - 1)
      then (True, chunk_slot_release job i)
      else let (ok, job) = slot_mark_segment_done e job i c in
        if \<not> ok then (False, job)
        else (True, print_progress e (dm_item_upsert_throttled e (chunk_slot_release job i) ''downloading'')))"

subsection \<open>Between segments and a single stream\<close>

definition reset_chunk_progress :: "DownloadState \<Rightarrow> DownloadState" where
  "reset_chunk_progress st = st\<lparr>ds_done_ranges := [], ds_done_range_capacity := 0\<rparr>"

text \<open>Marking the connections of the slots in use as draining.\<close>

fun drain_slot_conns :: "ChunkSlot list \<Rightarrow> DownloadJob \<Rightarrow> DownloadJob" where
  "drain_slot_conns [] job = job"
| "drain_slot_conns (s # ss) job =
     drain_slot_conns ss
       (case cs_conn s of
          Some c \<Rightarrow> if cs_in_use s then upd_conn c (\<lambda>m. m\<lparr>mc_is_draining := True\<rparr>) job else job
        | None \<Rightarrow> job)"

definition disable_segment_mode :: "env \<Rightarrow> DownloadJob \<Rightarrow> DownloadJob" where
  "disable_segment_mode e job =
     (let job = job\<lparr>j_segment_mode := False, j_step := DL_STEP_STREAM, j_use_ranges := False,
                  j_segment_disabled := True\<rparr>;
          (_, job) = close_file e job;
          job = drain_slot_conns (j_slots job) job;
          job = job\<lparr>j_slots := map (\<lambda>_. empty_slot) (j_slots job)\<rparr>;
          job = job\<lparr>j_state := reset_chunk_progress (j_state job)\<rparr>;
          (n, job) = (if j_temp_path job \<noteq> None then existing_file_size e job else (0, job))
      in job\<lparr>j_stream_received := n, j_stream_expected := 0, j_chunk_received := 0,
             j_chunk_expected := 0, j_chunk_write_offset := 0, j_streaming := False,
             j_headers_received := False, j_request_sent := False\<rparr>)"

definition can_enable_segment_mode :: "DownloadJob \<Rightarrow> bool" where
  "can_enable_segment_mode job =
     (if \<not> j_use_ranges job \<or> j_segment_disabled job then False
      else if j_stream_received job > 0 then False
      else if \<not> segment_should_enable (j_seg_cfg job) (ds_total_size (j_state job)) (j_use_ranges job)
      then False else True)"

definition apply_segment_mode :: "DownloadJob \<Rightarrow> bool \<times> DownloadJob" where
  "apply_segment_mode job =
     (if \<not> can_enable_segment_mode job then (False, job)
      else let (rc, st) = download_state_init_chunks (j_state job) (ds_total_size (j_state job))
                            (sc_chunk_size (j_seg_cfg job))
           in if rc \<noteq> 0 then (False, job\<lparr>j_state := st\<rparr>)
              else (True, job\<lparr>j_state := st, j_segment_mode := True, j_step := DL_STEP_CHUNK\<rparr>))"

text \<open>The conjunction short-circuits: the temporary file is looked at when nothing is done.\<close>

definition job_has_partial_progress :: "env \<Rightarrow> DownloadJob \<Rightarrow> bool \<times> DownloadJob" where
  "job_has_partial_progress e job =
     (if job_bytes_done job > 0 then (True, job)
      else if j_temp_path job \<noteq> None
      then (let (n, job) = existing_file_size e job in (n > 0, job))
      else (False, job))"

definition handle_resume_unsupported :: "env \<Rightarrow> DownloadJob \<Rightarrow> DownloadJob" where
  "handle_resume_unsupported e job =
     (let (_, job) = close_file e job;
          job = job\<lparr>j_streaming := False, j_done := True, j_failed := False, j_error := None,
                  j_state := (j_state job)\<lparr>ds_description := Some ''resume_unsupported''\<rparr>\<rparr>
      in dm_item_upsert e job ''stopped'')"


subsection \<open>Response headers\<close>

definition store_header_value :: "cstring \<Rightarrow> cstring \<Rightarrow> cstring" where
  "store_header_value dest value =
     (case value of None \<Rightarrow> dest | Some v \<Rightarrow> if v = [] then dest else Some v)"

definition parse_content_range_total :: "string \<Rightarrow> u64 option" where
  "parse_content_range_total value =
     (case strchr value CHR ''/'' of None \<Rightarrow> None | Some slash \<Rightarrow>
        let buffer = drop 1 slash in
        if length buffer \<ge> 32 then None
        else let s = c_string_of buffer in
          if s = ''*'' then None
          else if strtoull_failed 10 s then None
          else Some (strtoull_value 10 s))"

text \<open>The working directory of the download is the directory of its state file.\<close>

definition job_dir_of :: "cstring \<Rightarrow> cstring" where
  "job_dir_of state_path =
     (case state_path of None \<Rightarrow> None | Some p \<Rightarrow>
        (case strrchr p CHR ''/'' of None \<Rightarrow> None | Some t \<Rightarrow> Some (upto_suffix p t)))"

definition apply_filename_from_headers ::
  "mg_api \<Rightarrow> env \<Rightarrow> DownloadJob \<Rightarrow> http_message \<Rightarrow> bool \<times> DownloadJob" where
  "apply_filename_from_headers mg e job hm =
     (if \<not> j_filename_inferred job then (True, job)
      else case hm_header hm ''Content-Disposition'' of
        None \<Rightarrow> (True, job)
      | Some disposition \<Rightarrow>
          case sanitize_filename (http_parse_content_disposition_filename (ma_url_decode mg) disposition) of
            None \<Rightarrow> (True, job)
          | Some sanitized \<Rightarrow>
              let download_dir = e_download_path e (j_tick job);
                  temp_path = path_join (job_dir_of (j_state_path job)) (Some sanitized);
                  dest_path = path_join download_dir (Some sanitized);
                  job = job\<lparr>j_tick := Suc (j_tick job), j_filename := Some sanitized,
                    j_temp_path := temp_path, j_dest_path := dest_path,
                    j_state := (j_state job)\<lparr>ds_filename := Some sanitized, ds_temp_path := temp_path,
                      ds_dest_path := dest_path, ds_filename_inferred := False\<rparr>,
                    j_filename_inferred := False\<rparr>
              in (temp_path \<noteq> None \<and> dest_path \<noteq> None \<and> j_state_path job \<noteq> None, job))"

definition handle_redirect :: "mg_api \<Rightarrow> DownloadJob \<Rightarrow> nat \<Rightarrow> http_message \<Rightarrow> bool \<times> DownloadJob" where
  "handle_redirect mg job c hm =
     (if \<not> http_is_redirect (hm_status hm) then (False, job)
      else case hm_header hm ''Location'' of
        None \<Rightarrow> (True, request_close (set_error ErrRedirectNoLocation job) c False)
      | Some location \<Rightarrow>
          if j_redirect_count job \<ge> DL_MAX_REDIRECTS
          then (True, request_close (set_error ErrTooManyRedirects job) c False)
          else case http_resolve_url (ma_url_host mg) (Some (j_current_url job)) location of
            None \<Rightarrow> (True, request_close (set_error ErrInvalidRedirect job) c False)
          | Some resolved \<Rightarrow>
              (True, request_close (job\<lparr>j_current_url := resolved,
                 j_redirect_count := j_redirect_count job + 1, j_headers_received := False,
                 j_request_sent := False, j_streaming := False\<rparr>) c True))"

text \<open>The slot keeps its connection alive unless the response says otherwise; \<open>None\<close> stands for
  the connection of the job itself.\<close>

definition clear_keep_alive :: "nat option \<Rightarrow> DownloadJob \<Rightarrow> DownloadJob" where
  "clear_keep_alive slot job =
     (case slot of Some i \<Rightarrow> put_slot i ((slot_at job i)\<lparr>cs_keep_alive := False\<rparr>) job
                 | None \<Rightarrow> job\<lparr>j_conn_keep_alive := False\<rparr>)"

definition note_connection_header :: "nat option \<Rightarrow> http_message \<Rightarrow> DownloadJob \<Rightarrow> DownloadJob" where
  "note_connection_header slot hm job =
     (let connection_hdr = hm_header hm ''Connection'';
          job = (case connection_hdr of
                   Some v \<Rightarrow> if strcaseeq v ''close'' then clear_keep_alive slot job else job
                 | None \<Rightarrow> job)
      in if length (hm_proto hm) \<ge> 8 \<and> strcaseeq (take 8 (hm_proto hm)) ''HTTP/1.0''
            \<and> (case connection_hdr of None \<Rightarrow> True | Some v \<Rightarrow> \<not> strcaseeq v ''keep-alive'')
         then clear_keep_alive slot job else job)"

text \<open>The validators of the response and whether the server supports ranges.\<close>

definition note_validators :: "http_message \<Rightarrow> DownloadJob \<Rightarrow> DownloadJob" where
  "note_validators hm job =
     (let st = j_state job;
          st = st\<lparr>ds_etag := store_header_value (ds_etag st) (hm_header hm ''ETag''),
                 ds_last_modified := store_header_value (ds_last_modified st) (hm_header hm ''Last-Modified'')\<rparr>;
          job = job\<lparr>j_state := st\<rparr>
      in case hm_header hm ''Accept-Ranges'' of
           Some v \<Rightarrow> if \<not> j_segment_disabled job then job\<lparr>j_use_ranges := \<not> strcaseeq v ''none''\<rparr> else job
         | None \<Rightarrow> job)"

definition note_content_range :: "http_message \<Rightarrow> DownloadJob \<Rightarrow> DownloadJob" where
  "note_content_range hm job =
     (case hm_header hm ''Content-Range'' of
        Some v \<Rightarrow>
          if ds_total_size (j_state job) = 0
          then (case parse_content_range_total v of
                  Some n \<Rightarrow> job\<lparr>j_state := (j_state job)\<lparr>ds_total_size := n\<rparr>\<rparr>
                | None \<Rightarrow> job)
          else job
      | None \<Rightarrow> job)"

definition note_content_length :: "nat option \<Rightarrow> http_message \<Rightarrow> DownloadJob \<Rightarrow> DownloadJob" where
  "note_content_length slot hm job =
     (case hm_header hm ''Content-Length'' of
        None \<Rightarrow> job
      | Some v \<Rightarrow>
          if length v \<ge> 32 then job
          else let len = strtoull_value 10 (c_string_of v) in
            if slot \<noteq> None \<and> j_step job = DL_STEP_CHUNK
            then (let i = the slot; s = slot_at job i
                  in put_slot i (if cs_continuous s then s\<lparr>cs_response_remaining := len\<rparr>
                                 else s\<lparr>cs_chunk_expected := len\<rparr>) job)
            else if j_step job = DL_STEP_CHUNK then job\<lparr>j_chunk_expected := len\<rparr>
            else if j_step job = DL_STEP_STREAM \<and> j_stream_expected job = 0
            then (let job = job\<lparr>j_stream_expected := j_stream_received job + len\<rparr>
                  in if ds_total_size (j_state job) = 0
                     then job\<lparr>j_state := (j_state job)\<lparr>ds_total_size := j_stream_expected job\<rparr>\<rparr>
                     else job)
            else job)"

text \<open>A range response without a length is taken to have exactly the length asked for.\<close>

definition assume_range_length :: "nat option \<Rightarrow> DownloadJob \<Rightarrow> DownloadJob" where
  "assume_range_length slot job =
     (if slot \<noteq> None \<and> j_step job = DL_STEP_CHUNK \<and> \<not> cs_continuous (slot_at job (the slot))
         \<and> cs_chunk_expected (slot_at job (the slot)) = 0
      then (let i = the slot; s = slot_at job i
            in put_slot i (s\<lparr>cs_chunk_expected := cs_range_end s - cs_range_start s + 1\<rparr>) job)
      else if slot = None \<and> j_step job = DL_STEP_CHUNK \<and> j_chunk_expected job = 0
      then job\<lparr>j_chunk_expected := j_active_range_end job - j_active_range_start job + 1\<rparr>
      else job)"

definition fall_back_to_stream :: "env \<Rightarrow> DownloadJob \<Rightarrow> nat option \<Rightarrow> nat \<Rightarrow> DownloadJob" where
  "fall_back_to_stream e job slot c =
     (let job = disable_segment_mode e job;
          job = (case slot of Some i \<Rightarrow> chunk_slot_release job i | None \<Rightarrow> job)
      in request_close (job\<lparr>j_schedule_deferred := True\<rparr>) c False)"

definition handle_response_headers ::
  "mg_api \<Rightarrow> env \<Rightarrow> DownloadJob \<Rightarrow> nat option \<Rightarrow> nat \<Rightarrow> http_message \<Rightarrow> DownloadJob" where
  "handle_response_headers mg e job slot c hm =
     (if (case slot of Some i \<Rightarrow> \<not> cs_in_use (slot_at job i) \<or> cs_conn (slot_at job i) \<noteq> Some c | None \<Rightarrow> False)
      then request_close job c False
      else let job = (case slot of Some i \<Rightarrow> put_slot i ((slot_at job i)\<lparr>cs_headers_received := True\<rparr>) job
                                 | None \<Rightarrow> job\<lparr>j_headers_received := True\<rparr>);
               status = hm_status hm;
               (redirected, job) = handle_redirect mg job c hm in
        if redirected then job
        else if status = 416
        then let job =
               (if j_step job = DL_STEP_CHUNK \<and> download_state_all_chunks_done (j_state job)
                then snd (finalize_download e job)
                else let (partial, job) = job_has_partial_progress e job
                     in if partial then handle_resume_unsupported e job
                        else set_error ErrRangeRejected job)
             in request_close job c False
        else if j_step job = DL_STEP_STREAM \<and> j_stream_received job > 0 \<and> status = 200
        then request_close (handle_resume_unsupported e job) c False
        else if j_step job = DL_STEP_CHUNK \<and> status \<noteq> 206
        then fall_back_to_stream e job slot c
        else if status < 200 \<or> status \<ge> 300
        then request_close (set_error (ErrHttpStatus status) job) c False
        else let job = note_connection_header slot hm (reset_retry_count_on_success job);
                 (named, job) = apply_filename_from_headers mg e job hm in
          if \<not> named then request_close (set_error ErrApplyFilename job) c False
          else let job = note_validators hm job;
                   chunked_response = (case hm_header hm ''Transfer-Encoding'' of
                                         Some v \<Rightarrow> strcaseeq v ''chunked'' | None \<Rightarrow> False) in
            if chunked_response \<and> j_step job = DL_STEP_CHUNK
            then fall_back_to_stream e job slot c
            else let job = (if j_step job = DL_STEP_STREAM
                            then job\<lparr>j_chunked_encoding := chunked_response, j_chunked_complete := False,
                                   j_chunked_state := DL_CHUNKED_STATE_SIZE, j_chunked_remaining := 0,
                                   j_chunked_line := []\<rparr>
                            else job);
                     job = note_content_length slot hm (note_content_range hm job) in
              if j_step job = DL_STEP_STREAM \<and> ds_total_size (j_state job) > 0
                 \<and> \<not> j_segment_mode job \<and> can_enable_segment_mode job
              then (request_close (job\<lparr>j_pending_segment_enable := True\<rparr>) c False)
                     \<lparr>j_schedule_deferred := True\<rparr>
              else let job = assume_range_length slot job in
                if j_step job = DL_STEP_CHUNK then begin_chunk_body e job slot c hm
                else begin_stream_body e job c hm)"

definition try_parse_pending_response ::
  "mg_api \<Rightarrow> env \<Rightarrow> DownloadJob \<Rightarrow> nat option \<Rightarrow> nat \<Rightarrow> bool \<times> DownloadJob" where
  "try_parse_pending_response mg e job slot c =
     (if (case slot of Some i \<Rightarrow> cs_headers_received (slot_at job i) | None \<Rightarrow> j_headers_received job)
         \<or> recv_of job c = []
      then (False, job)
      else case ma_http_parse mg (recv_of job c) of
        None \<Rightarrow> (False, job)
      | Some hm \<Rightarrow>
          let job = (case slot of Some i \<Rightarrow> put_slot i ((slot_at job i)\<lparr>cs_headers_received := True\<rparr>) job
                                | None \<Rightarrow> job\<lparr>j_headers_received := True\<rparr>)
          in (True, handle_response_headers mg e job slot c hm))"

subsection \<open>A closed connection\<close>

definition on_connection_closed ::
  "mg_api \<Rightarrow> env \<Rightarrow> DownloadJob \<Rightarrow> nat option \<Rightarrow> nat \<Rightarrow> DownloadJob" where
  "on_connection_closed mg e job slot c =
     (if j_done job \<or> j_failed job then job
      else if (case slot of Some i \<Rightarrow> \<not> cs_in_use (slot_at job i) \<or> cs_conn (slot_at job i) \<noteq> Some c | None \<Rightarrow> False)
      then job
      else let headers_received = (case slot of Some i \<Rightarrow> cs_headers_received (slot_at job i) | None \<Rightarrow> j_headers_received job);
               streaming = (case slot of Some i \<Rightarrow> cs_streaming (slot_at job i) | None \<Rightarrow> j_streaming job);
               request_sent = (case slot of Some i \<Rightarrow> cs_request_sent (slot_at job i) | None \<Rightarrow> j_request_sent job);
               job = (if \<not> headers_received then snd (try_parse_pending_response mg e job slot c) else job);
               job = flush_recv_body e job slot c in
        if j_pending_schedule job
        then (case slot of Some i \<Rightarrow> chunk_slot_release (job\<lparr>j_pending_schedule := False\<rparr>) i
                         | None \<Rightarrow> job\<lparr>j_pending_schedule := False\<rparr>)\<lparr>j_schedule_deferred := True\<rparr>
        else if j_step job = DL_STEP_CHUNK \<and> headers_received
             \<and> (streaming \<or> (case slot of Some i \<Rightarrow> cs_chunk_received (slot_at job i) | None \<Rightarrow> j_chunk_received job) > 0)
        then (let (ok, job) =
                (case slot of
                   Some i \<Rightarrow>
                     (let (completed, job) = complete_chunk_slot e job i c
                      in if completed then (True, job)
                         else (False, note_segment_failure e (chunk_slot_release job i)))
                 | None \<Rightarrow>
                     let job = flush_recv_body e job None c in
                     if j_chunk_expected job > 0 \<and> j_chunk_received job < j_chunk_expected job
                     then (False, dm_item_upsert e (set_error
                             (ErrIncompleteRange (j_active_range_start job) (j_active_range_end job)
                                (j_chunk_received job) (j_chunk_expected job)) job) ''failed'')
                     else let (_, job) = mark_done e job (j_active_range_start job) (j_active_range_end job);
                              job = job\<lparr>j_chunk_persisted := j_chunk_received job\<rparr>;
                              job = record_progress e job;
                              job = job\<lparr>j_streaming := False, j_chunk_received := 0, j_chunk_expected := 0\<rparr>
                          in (True, print_progress e (dm_item_upsert_throttled e job ''downloading'')))
              in if \<not> ok then job
                 else if download_state_all_chunks_done (j_state job) then snd (finalize_download e job)
                 else job\<lparr>j_schedule_deferred := True\<rparr>)
        else if j_step job = DL_STEP_STREAM \<and> (streaming \<or> j_stream_received job > 0)
        then (if j_chunked_encoding job \<and> \<not> j_chunked_complete job
              then dm_item_upsert e (set_error (ErrChunkedTruncated (j_stream_received job)) job) ''failed''
              else if j_chunked_encoding job \<or> j_stream_expected job = 0
                   \<or> j_stream_received job \<ge> j_stream_expected job
              then snd (finalize_download e job)
              else dm_item_upsert e (set_error (ErrClosedEarly (j_stream_received job) (j_stream_expected job)) job) ''failed'')
        else if j_step job = DL_STEP_STREAM \<and> j_pending_segment_enable job
        then (let (ok, job) = apply_segment_mode (job\<lparr>j_pending_segment_enable := False\<rparr>)
              in if ok then job\<lparr>j_schedule_deferred := True\<rparr>
                 else dm_item_upsert e (set_error ErrEnableSegments job) ''failed'')
        else if j_step job = DL_STEP_CHUNK
        then (let job = (case slot of Some i \<Rightarrow> chunk_slot_release job i | None \<Rightarrow> job)
              in if download_state_all_chunks_done (j_state job) then snd (finalize_download e job)
                 else if j_segment_mode job then note_segment_failure e job
                 else job\<lparr>j_schedule_deferred := True\<rparr>)
        else dm_item_upsert e
               (set_error (if \<not> request_sent
                           then if j_redirect_count job > 0 then ErrRedirectConnection else ErrSendRequest
                           else ErrClosedBeforeStart) job) ''failed'')"


subsection \<open>Scheduling\<close>

text \<open>A new connection: its number is fresh at the library, its buffer empty.\<close>

definition dl_connect :: "env \<Rightarrow> DownloadJob \<Rightarrow> nat option \<Rightarrow> bool \<times> DownloadJob" where
  "dl_connect e job slot =
     (case e_connect e (j_tick job) of
        None \<Rightarrow> (False, set_error ErrConnect (job\<lparr>j_tick := Suc (j_tick job)\<rparr>))
      | Some c \<Rightarrow>
          let job = upd_conn c (\<lambda>_. \<lparr>mc_recv = [], mc_is_draining = False, mc_data0 = False\<rparr>)
                      (job\<lparr>j_tick := Suc (j_tick job)\<rparr>)
          in (True, case slot of Some i \<Rightarrow> put_slot i ((slot_at job i)\<lparr>cs_conn := Some c\<rparr>) job
                               | None \<Rightarrow> job))"

fun connect_selected :: "env \<Rightarrow> ByteRange list \<Rightarrow> DownloadJob \<Rightarrow> DownloadJob" where
  "connect_selected e [] job = job"
| "connect_selected e (r # rs) job =
     (case chunk_slot_acquire e job (br_start r) (br_end r) of
        (None, job) \<Rightarrow> job
      | (Some i, job) \<Rightarrow>
          let (ok, job) = dl_connect e job (Some i)
          in connect_selected e rs (if ok then job else chunk_slot_release job i))"

definition schedule_pending_chunks :: "env \<Rightarrow> DownloadJob \<Rightarrow> DownloadJob" where
  "schedule_pending_chunks e job =
     (if j_failed job \<or> j_done job \<or> j_step job \<noteq> DL_STEP_CHUNK then job
      else if download_state_all_chunks_done (j_state job) then snd (finalize_download e job)
      else let active = of_nat (count_active_slots job) in
        if active \<ge> sc_concurrency (j_seg_cfg job) then job
        else let capacity = sc_concurrency (j_seg_cfg job) - active;
                 max_select = (if capacity < DL_MAX_SEGMENT_CONCURRENCY then capacity else DL_MAX_SEGMENT_CONCURRENCY)
             in connect_selected e
                  (segment_select_chunks (j_seg_cfg job) (j_state job) max_select
                     (Some (range_in_flight_predicate job None))) job)"

function next_pending_from :: "DownloadState \<Rightarrow> u64 \<Rightarrow> u64 \<Rightarrow> (u64 \<times> u64) option" where
  "next_pending_from st segment_count i =
     (if i < segment_count
      then if download_state_is_segment_done st i then next_pending_from st segment_count (i + 1)
           else Some (segment_chunk_range st i)
      else None)"
  by pat_completeness auto
termination
  by (relation "measure (\<lambda>(st, n, i). unat n - unat i)") (auto intro: u64_loop_decr)

declare next_pending_from.simps [simp del]

definition next_pending_segment :: "DownloadJob \<Rightarrow> (u64 \<times> u64) option" where
  "next_pending_segment job =
     (if ds_total_size (j_state job) = 0 then None
      else next_pending_from (j_state job) (download_state_segment_count (j_state job)) 0)"

definition schedule_next :: "env \<Rightarrow> DownloadJob \<Rightarrow> DownloadJob" where
  "schedule_next e job =
     (if j_failed job \<or> j_done job then job
      else if j_step job = DL_STEP_CHUNK \<and> j_segment_mode job then schedule_pending_chunks e job
      else let job = job\<lparr>j_headers_received := False, j_request_sent := False, j_streaming := False,
                       j_chunk_received := 0, j_chunk_expected := 0, j_chunk_write_offset := 0\<rparr> in
        if j_step job = DL_STEP_CHUNK
        then (case next_pending_segment job of
                None \<Rightarrow> snd (finalize_download e job)
              | Some (start, end) \<Rightarrow>
                  snd (dl_connect e (job\<lparr>j_active_range_start := start, j_active_range_end := end\<rparr>) None))
        else snd (dl_connect e job None))"

definition prepare_chunk_download :: "DownloadJob \<Rightarrow> bool \<times> DownloadJob" where
  "prepare_chunk_download job =
     (if ds_total_size (j_state job) = 0 then (False, job)
      else let enable = segment_should_enable (j_seg_cfg job) (ds_total_size (j_state job)) (j_use_ranges job);
               (rc, st) = (if enable then download_state_init_chunks (j_state job) (ds_total_size (j_state job))
                                            (sc_chunk_size (j_seg_cfg job))
                           else (0, j_state job));
               job = job\<lparr>j_state := st\<rparr>
           in if rc \<noteq> 0 then (False, job)
              else if download_state_all_chunks_done (j_state job) then (False, job)
              else let job = job\<lparr>j_step := DL_STEP_CHUNK\<rparr>;
                       job = (if segment_should_enable (j_seg_cfg job) (ds_total_size (j_state job)) (j_use_ranges job)
                              then job\<lparr>j_segment_mode := True\<rparr> else job)
                   in case next_pending_segment job of
                        None \<Rightarrow> (False, job)
                      | Some (start, end) \<Rightarrow>
                          (True, job\<lparr>j_active_range_start := start, j_active_range_end := end\<rparr>))"

subsection \<open>Body bytes arriving: MG_EV_READ\<close>

text \<open>The discarding of a drained response tail.\<close>

definition drain_response :: "env \<Rightarrow> DownloadJob \<Rightarrow> nat \<Rightarrow> nat \<Rightarrow> DownloadJob" where
  "drain_response e job i c =
     (let slot = slot_at job i;
          len = of_nat (length (recv_of job c));
          discard = (if cs_response_remaining slot > 0 \<and> len > cs_response_remaining slot
                     then cs_response_remaining slot else len);
          job = put_slot i (slot\<lparr>cs_response_remaining :=
                  (if cs_response_remaining slot \<ge> discard then cs_response_remaining slot - discard else 0)\<rparr>) job;
          job = touch_slot_activity e (clear_recv c job) i
      in if cs_response_remaining (slot_at job i) = 0 then slot_finish_continuous e job i c else job)"

text \<open>After a write, a slot at the end of its reservation that cannot extend it gives up the
  connection when much of the response is left, and drains the rest otherwise.  The flag says
  that the handler returns.\<close>

definition slot_reservation_end :: "env \<Rightarrow> DownloadJob \<Rightarrow> nat \<Rightarrow> nat \<Rightarrow> bool \<times> DownloadJob" where
  "slot_reservation_end e job i c =
     (let slot = slot_at job i in
      if cs_continuous slot \<and> cs_streaming slot \<and> \<not> cs_draining slot
         \<and> cs_range_start slot + cs_chunk_received slot = cs_reserved_end slot + 1
      then let (extended, job) = slot_try_extend_reservation job i in
        if extended then (False, job)
        else if cs_response_remaining (slot_at job i) > DL_DRAIN_MAX_BYTES
        then (True, slot_finish_continuous e (put_slot i ((slot_at job i)\<lparr>cs_keep_alive := False\<rparr>) job) i c)
        else (False, slot_begin_draining job i)
      else (False, job))"

text \<open>What happens after the bytes of one read event have been stored.\<close>

definition after_body_bytes :: "env \<Rightarrow> DownloadJob \<Rightarrow> nat option \<Rightarrow> nat \<Rightarrow> DownloadJob" where
  "after_body_bytes e job slot c =
     (if (case slot of Some i \<Rightarrow> cs_draining (slot_at job i) | None \<Rightarrow> False) then job
      else if (case slot of Some i \<Rightarrow> let s = slot_at job i in cs_streaming s \<and> \<not> cs_continuous s
                  \<and> cs_chunk_expected s > 0 \<and> cs_chunk_received s \<ge> cs_chunk_expected s | None \<Rightarrow> False)
      then slot_finish_segment e job (the slot) c
      else if (case slot of Some i \<Rightarrow> let s = slot_at job i in cs_continuous s \<and> \<not> cs_draining s
                  \<and> cs_response_remaining s = 0 \<and> cs_chunk_received s > 0 | None \<Rightarrow> False)
      then slot_finish_continuous e job (the slot) c
      else let (now, job) = mg_millis e job in
        if now - j_last_progress_ms job \<ge> 200
        then let job = print_progress e job;
                 (_, job) = persist_buffered_progress e job False
             in dm_item_upsert_throttled e job ''downloading''
        else job)"

definition store_body_bytes :: "env \<Rightarrow> DownloadJob \<Rightarrow> nat option \<Rightarrow> nat \<Rightarrow> DownloadJob" where
  "store_body_bytes e job slot c =
     (let data = recv_of job c; len = of_nat (length data) in
      case slot of
        Some i \<Rightarrow>
          let (ok, job) = slot_write_body e job i data in
          if \<not> ok then request_close job c False
          else let (returned, job) = slot_reservation_end e job i c in
            if returned then job else after_body_bytes e (clear_recv c job) slot c
      | None \<Rightarrow>
          if j_step job = DL_STEP_CHUNK
          then let (ok, job) = write_at_offset e job data (j_chunk_write_offset job + j_chunk_received job) in
            if \<not> ok then request_close job c False
            else after_body_bytes e (clear_recv c (job\<lparr>j_chunk_received := j_chunk_received job + len,
                   j_bytes_since_persist := j_bytes_since_persist job + len\<rparr>)) slot c
          else let (ok, job) = append_stream_decoded e job data in
            if \<not> ok then request_close job c False
            else if j_chunked_encoding job \<and> j_chunked_complete job
            then request_close (clear_recv c job) c False
            else after_body_bytes e (clear_recv c job) slot c)"

text \<open>The read event once a possible proxy tunnel is up.\<close>

definition on_read :: "mg_api \<Rightarrow> env \<Rightarrow> DownloadJob \<Rightarrow> nat option \<Rightarrow> nat \<Rightarrow> DownloadJob" where
  "on_read mg e job slot c =
     (let streaming = (case slot of Some i \<Rightarrow> cs_streaming (slot_at job i) | None \<Rightarrow> j_streaming job);
          headers_received = (case slot of Some i \<Rightarrow> cs_headers_received (slot_at job i) | None \<Rightarrow> j_headers_received job);
          request_sent = (case slot of Some i \<Rightarrow> cs_request_sent (slot_at job i) | None \<Rightarrow> j_request_sent job);
          (parsed, job) =
            (if slot \<noteq> None \<and> request_sent \<and> \<not> headers_received \<and> \<not> streaming \<and> recv_of job c \<noteq> []
             then try_parse_pending_response mg e job slot c else (False, job))
      in if parsed then job
         else let (parsed, job) =
                (if slot = None \<and> j_step job = DL_STEP_CHUNK \<and> j_request_sent job \<and> \<not> j_headers_received job
                    \<and> \<not> j_streaming job \<and> recv_of job c \<noteq> []
                 then try_parse_pending_response mg e job None c else (False, job))
           in if parsed then job
              else let draining = (case slot of Some i \<Rightarrow> cs_draining (slot_at job i) | None \<Rightarrow> False) in
                if (streaming \<or> draining) \<and> recv_of job c \<noteq> []
                then if draining then drain_response e job (the slot) c
                     else store_body_bytes e job slot c
                else job)"

subsection \<open>A complete message: MG_EV_HTTP_MSG\<close>

definition on_http_msg :: "env \<Rightarrow> DownloadJob \<Rightarrow> nat option \<Rightarrow> nat \<Rightarrow> http_message \<Rightarrow> DownloadJob" where
  "on_http_msg e job slot c hm =
     (let streaming = (case slot of Some i \<Rightarrow> cs_streaming (slot_at job i) | None \<Rightarrow> j_streaming job);
          headers_received = (case slot of Some i \<Rightarrow> cs_headers_received (slot_at job i) | None \<Rightarrow> j_headers_received job);
          range_start = (case slot of Some i \<Rightarrow> cs_range_start (slot_at job i) | None \<Rightarrow> j_active_range_start job);
          range_end = (case slot of Some i \<Rightarrow> cs_range_end (slot_at job i) | None \<Rightarrow> j_active_range_end job)
      in if streaming \<or> headers_received then job
         else if j_step job \<noteq> DL_STEP_CHUNK then job
         else if hm_body_len hm = 0 then job
         else let body_len = of_nat (hm_body_len hm) :: u64;
                  range_span = range_end - range_start + 1;
                  body_len = (if range_end \<ge> range_start \<and> body_len > range_span then range_span else body_len);
                  (ok, job) = write_at_offset e job (body_bytes job c hm (unat body_len)) range_start
           in if \<not> ok then request_close job c False
              else case slot of
                Some i \<Rightarrow>
                  slot_finish_segment e
                    (put_slot i ((slot_at job i)\<lparr>cs_chunk_received := body_len, cs_chunk_expected := body_len\<rparr>) job) i c
              | None \<Rightarrow>
                  let (_, job) = mark_done e job range_start (range_start + body_len - 1);
                      job = print_progress e (dm_item_upsert_throttled e job ''downloading'')
                  in if download_state_all_chunks_done (j_state job)
                     then snd (finalize_download e (request_close job c False))
                     else if j_conn_keep_alive job
                     then (case next_pending_segment job of
                             Some (start, end) \<Rightarrow>
                               let job = job\<lparr>j_active_range_start := start, j_active_range_end := end,
                                     j_headers_received := False, j_streaming := False,
                                     j_chunk_received := 0, j_chunk_expected := 0\<rparr>;
                                   job = send_request job c start end True False
                               in upd_conn c (\<lambda>m. m\<lparr>mc_data0 := True\<rparr>) (job\<lparr>j_request_sent := True\<rparr>)
                           | None \<Rightarrow> request_close job c False)
                     else request_close job c True)"

end
