(* ===== verification/Handler.thy ===== *)
theory Handler
  imports Job_Events Proxy
begin

text \<open>
  The event handler of a download connection (\<open>dl_handler\<close> of \<^verbatim>\<open>src/src/download.c\<close>) with the
  context of the connection: the proxy tunnel in front of it, the time-outs, and the dispatch of
  the events of the connection library to the handlers of \<open>Job_Events\<close>.
\<close>

subsection \<open>The context of a connection\<close>

record DlConnCtx =
  cx_proxy_url :: cstring
  cx_proxy_kind :: ProxyKind
  cx_socks :: ProxySocksCtx
  cx_use_proxy :: bool
  cx_proxy_tunnel_done :: bool
  cx_proxy_http_forward :: bool

definition zero_socks :: ProxySocksCtx where
  "zero_socks = \<lparr>px_stage = ProxySocksStageNone, px_username = [], px_password = [], px_has_auth = False\<rparr>"

text \<open>The part of \<open>dl_connect\<close> before the connection is opened: the context and the URL to
  connect to, or \<open>None\<close> when the proxy URL is invalid.\<close>

definition dl_conn_target :: "url_api \<Rightarrow> DownloadJob \<Rightarrow> (DlConnCtx \<times> string) option" where
  "dl_conn_target ua job =
     (let proxy_url = ds_proxy (j_state job);
          ctx = \<lparr>cx_proxy_url = None, cx_proxy_kind = ProxyKindNone, cx_socks = zero_socks,
                 cx_use_proxy = proxy_url \<noteq> None, cx_proxy_tunnel_done = False, cx_proxy_http_forward = False\<rparr>
      in case proxy_url of
           None \<Rightarrow> Some (ctx, j_current_url job)
         | Some p \<Rightarrow>
             (let ctx = ctx\<lparr>cx_proxy_url := Some p, cx_proxy_kind := proxy_kind_from_url (Some p),
                    cx_proxy_http_forward := proxy_uses_http_forward (Some p) (Some (j_current_url job))\<rparr>
              in case proxy_connect_url ua (Some p) of
                   None \<Rightarrow> None
                 | Some connect_url \<Rightarrow> Some (ctx, connect_url)))"

text \<open>The text of a request; the version is that of the build.\<close>

definition request_text ::
  "url_api \<Rightarrow> (string \<Rightarrow> string) \<Rightarrow> string \<Rightarrow> DlConnCtx \<Rightarrow> DownloadJob \<Rightarrow> u64 \<Rightarrow> u64 \<Rightarrow> bool \<Rightarrow> bool \<Rightarrow> string" where
  "request_text ua url_uri version ctx job range_start range_end keep_alive cont =
     (let uri = (if cx_proxy_http_forward ctx then j_current_url job else url_uri (j_current_url job));
          st = j_state job in
      ''GET '' @ uri @ '' HTTP/1.1'' @ crlf @
      ''Host: '' @ ua_host ua (j_current_url job) @ crlf @
      ''User-Agent: Avar/'' @ version @ crlf @
      ''Accept: */*'' @ crlf @
      ''Accept-Encoding: identity'' @ crlf @
      ''Connection: '' @ (if keep_alive then ''keep-alive'' else ''close'') @ crlf @
      (case ds_etag st of
         Some etag \<Rightarrow> ''If-Range: '' @ etag @ crlf
       | None \<Rightarrow> (case ds_last_modified st of Some m \<Rightarrow> ''If-Range: '' @ m @ crlf | None \<Rightarrow> [])) @
      (if j_step job = DL_STEP_CHUNK
       then if cont then ''Range: bytes='' @ show_nat (unat range_start) @ ''-'' @ crlf
            else ''Range: bytes='' @ show_nat (unat range_start) @ ''-'' @ show_nat (unat range_end) @ crlf
       else if j_step job = DL_STEP_STREAM \<and> range_start > 0
       then ''Range: bytes='' @ show_nat (unat range_start) @ ''-'' @ crlf
       else []) @ crlf)"

subsection \<open>Events\<close>

datatype mg_event = MG_EV_POLL | MG_EV_OPEN | MG_EV_CONNECT | MG_EV_TLS_HS | MG_EV_WRITE
  | MG_EV_HTTP_HDRS http_message | MG_EV_HTTP_MSG http_message | MG_EV_READ | MG_EV_CLOSE
  | MG_EV_ERROR string

record mg_flags =
  mf_is_connecting :: bool
  mf_is_resolving :: bool
  mf_is_tls :: bool
  mf_is_tls_hs :: bool

definition DL_CONNECT_TIMEOUT_MS :: u64 where "DL_CONNECT_TIMEOUT_MS = 5000"
definition DL_IDLE_TIMEOUT_MS :: u64 where "DL_IDLE_TIMEOUT_MS = 20000"

definition handle_error :: "env \<Rightarrow> DownloadJob \<Rightarrow> nat option \<Rightarrow> string \<Rightarrow> DownloadJob" where
  "handle_error e job slot message =
     (if j_done job \<or> j_failed job then job
      else if slot \<noteq> None \<and> j_segment_mode job then job
      else dm_item_upsert e
             (set_error (ErrNetwork (if message \<noteq> [] then message else ''Network error'')) job) ''failed'')"

text \<open>\<open>mg_error\<close> of the library closes the connection and calls the handler with the error.\<close>

definition mg_error :: "env \<Rightarrow> nat option \<Rightarrow> nat \<Rightarrow> string \<Rightarrow> DownloadJob \<Rightarrow> DownloadJob" where
  "mg_error e slot c msg job =
     (let job = job\<lparr>j_log := j_log job @ [EvNetError c msg]\<rparr>
      in if j_done job then job else handle_error e job slot msg)"

definition mg_send_all :: "nat \<Rightarrow> string list \<Rightarrow> DownloadJob \<Rightarrow> DownloadJob" where
  "mg_send_all c out job = job\<lparr>j_log := j_log job @ map (EvSend c) out\<rparr>"

definition init_download_tls :: "nat \<Rightarrow> DownloadJob \<Rightarrow> DownloadJob" where
  "init_download_tls c job = job\<lparr>j_log := j_log job @ [EvTlsInit c]\<rparr>"

text \<open>Time-outs: a connection that does not come up, and a connection without activity.\<close>

definition handle_poll :: "env \<Rightarrow> mg_flags \<Rightarrow> DownloadJob \<Rightarrow> nat option \<Rightarrow> nat \<Rightarrow> DownloadJob" where
  "handle_poll e fl job slot c =
     (let (now, job) = mg_millis e job;
          job = (if now > j_connect_deadline_ms job \<and> (mf_is_connecting fl \<or> mf_is_resolving fl)
                 then mg_error e slot c ''Connect timeout'' job else job)
      in if j_failed job then job
         else let (now, job) = mg_millis e job in
           if j_segment_mode job \<and> (case slot of Some i \<Rightarrow> cs_in_use (slot_at job i) \<and> cs_request_sent (slot_at job i)
                                               | None \<Rightarrow> False)
           then if now - cs_last_activity_ms (slot_at job (the slot)) > DL_IDLE_TIMEOUT_MS
                then mg_error e slot c ''Segment stalled'' job else job
           else if \<not> j_segment_mode job \<and> now - j_last_activity_ms job > DL_IDLE_TIMEOUT_MS
           then mg_error e slot c ''Download stalled'' job
           else job)"

definition handle_open :: "env \<Rightarrow> DownloadJob \<Rightarrow> DownloadJob" where
  "handle_open e job =
     (let (t, job) = mg_millis e job;
          job = job\<lparr>j_connect_deadline_ms := t + DL_CONNECT_TIMEOUT_MS\<rparr>;
          (t, job) = mg_millis e job
      in job\<lparr>j_last_activity_ms := t\<rparr>)"

definition reset_connection :: "DownloadJob \<Rightarrow> nat option \<Rightarrow> nat \<Rightarrow> DownloadJob" where
  "reset_connection job slot c =
     (let job = upd_conn c (\<lambda>m. m\<lparr>mc_data0 := False\<rparr>) job in
      case slot of
        Some i \<Rightarrow> put_slot i ((slot_at job i)\<lparr>cs_headers_received := False, cs_request_sent := False,
                    cs_streaming := False\<rparr>) job
      | None \<Rightarrow> job\<lparr>j_headers_received := False, j_request_sent := False, j_streaming := False\<rparr>)"

definition handle_connect ::
  "url_api \<Rightarrow> env \<Rightarrow> mg_flags \<Rightarrow> DlConnCtx \<Rightarrow> DownloadJob \<Rightarrow> nat option \<Rightarrow> nat \<Rightarrow> DlConnCtx \<times> DownloadJob" where
  "handle_connect ua e fl ctx job slot c =
     (let job = reset_connection job slot c in
      if cx_use_proxy ctx \<and> \<not> cx_proxy_tunnel_done ctx
      then if cx_proxy_kind ctx = ProxyKindSocks5
           then (let (socks, out) = proxy_socks5_begin (cx_proxy_url ctx)
                 in (ctx\<lparr>cx_socks := socks\<rparr>, mg_send_all c out job))
           else if proxy_target_is_https (Some (j_current_url job))
           then (ctx, mg_send_all c (proxy_send_connect ua (j_current_url job) (cx_proxy_url ctx)) job)
           else (ctx, send_request_for_slot e job c slot)
      else if mf_is_tls fl then (ctx, init_download_tls c job)
      else (ctx, send_request_for_slot e job c slot))"

text \<open>The tunnel is up: the request follows, or the TLS handshake first.\<close>

definition tunnel_open :: "env \<Rightarrow> DownloadJob \<Rightarrow> nat option \<Rightarrow> nat \<Rightarrow> DownloadJob" where
  "tunnel_open e job slot c =
     (let job = clear_recv c job in
      if proxy_target_is_https (Some (j_current_url job)) then init_download_tls c job
      else send_request_for_slot e job c slot)"

definition handle_proxy_read ::
  "url_api \<Rightarrow> env \<Rightarrow> DlConnCtx \<Rightarrow> DownloadJob \<Rightarrow> nat option \<Rightarrow> nat \<Rightarrow> DlConnCtx \<times> DownloadJob" where
  "handle_proxy_read ua e ctx job slot c =
     (if cx_proxy_kind ctx = ProxyKindSocks5
      then let (ok, socks, out) = proxy_socks5_handle_read ua (recv_of job c) (j_current_url job) (cx_socks ctx);
               ctx = ctx\<lparr>cx_socks := socks\<rparr>;
               job = mg_send_all c out job
           in if ok then (ctx\<lparr>cx_proxy_tunnel_done := True\<rparr>, tunnel_open e job slot c)
              else if px_stage socks = ProxySocksStageFailed
              then (ctx, request_close (set_error (ErrNetwork ''SOCKS5 proxy failed'') job) c False)
              else (ctx, job)
      else if proxy_connect_response_ok (recv_of job c)
      then (ctx\<lparr>cx_proxy_tunnel_done := True\<rparr>, tunnel_open e job slot c)
      else if length (recv_of job c) \<ge> 12
      then (ctx, request_close (set_error (ErrNetwork ''Proxy CONNECT failed'') job) c False)
      else (ctx, job))"

definition dl_handler ::
  "url_api \<Rightarrow> mg_api \<Rightarrow> env \<Rightarrow> mg_flags \<Rightarrow> DlConnCtx \<Rightarrow> DownloadJob \<Rightarrow> nat option \<Rightarrow> nat \<Rightarrow> mg_event
   \<Rightarrow> DlConnCtx \<times> DownloadJob" where
  "dl_handler ua mg e fl ctx job slot c ev =
     (if j_done job then (ctx, job)
      else case ev of
        MG_EV_POLL \<Rightarrow> (ctx, handle_poll e fl job slot c)
      | MG_EV_OPEN \<Rightarrow> (ctx, handle_open e job)
      | MG_EV_CONNECT \<Rightarrow> handle_connect ua e fl ctx job slot c
      | MG_EV_TLS_HS \<Rightarrow> (ctx, send_request_for_slot e job c slot)
      | MG_EV_WRITE \<Rightarrow>
          (ctx, if \<not> (case slot of Some i \<Rightarrow> cs_request_sent (slot_at job i) | None \<Rightarrow> j_request_sent job)
                   \<and> \<not> mf_is_connecting fl \<and> \<not> mf_is_tls_hs fl
                then send_request_for_slot e job c slot else job)
      | MG_EV_HTTP_HDRS hm \<Rightarrow> (ctx, handle_response_headers mg e job slot c hm)
      | MG_EV_HTTP_MSG hm \<Rightarrow> (ctx, on_http_msg e job slot c hm)
      | MG_EV_READ \<Rightarrow>
          if cx_use_proxy ctx \<and> \<not> cx_proxy_tunnel_done ctx \<and> recv_of job c \<noteq> []
          then handle_proxy_read ua e ctx job slot c
          else (ctx, on_read mg e job slot c)
      | MG_EV_CLOSE \<Rightarrow> (ctx, on_connection_closed mg e job slot c)
      | MG_EV_ERROR message \<Rightarrow> (ctx, handle_error e job slot message))"

end
