(* ===== verification/Job_Safety.thy ===== *)
theory Job_Safety
  imports Job_Events
begin

text \<open>
  Safety of a segmented download.  \<open>R\<close> is the content of the remote resource.  The invariant
  \<open>job_inv cl R\<close> says that the range array is well formed, that every slot has received bytes of
  the resource into its own reservation, that no two slots reserve a common byte and that
  every byte recorded as done has been given to the file writer with the content of the
  resource.  Each handler keeps it, under the assumption that a connection delivers the bytes
  of the resource in the order of its request; so a file that is moved to its destination is
  complete and correct.
\<close>

subsection \<open>The invariant\<close>

definition content_ok :: "(nat \<Rightarrow> char) \<Rightarrow> (u64 \<Rightarrow> char option) \<Rightarrow> nat set \<Rightarrow> bool" where
  "content_ok R f S \<longleftrightarrow> (\<forall>n\<in>S. f (of_nat n) = Some (R n))"

abbreviation slot_range :: "ChunkSlot \<Rightarrow> nat set" where
  "slot_range s \<equiv> {unat (cs_range_start s)..unat (cs_reserved_end s)}"

abbreviation slot_pos :: "ChunkSlot \<Rightarrow> nat" where
  "slot_pos s \<equiv> unat (cs_range_start s) + unat (cs_chunk_received s)"

definition slot_inv :: "(nat \<Rightarrow> char) \<Rightarrow> DownloadState \<Rightarrow> (u64 \<Rightarrow> char option) \<Rightarrow> ChunkSlot \<Rightarrow> bool" where
  "slot_inv R st f s \<longleftrightarrow> (cs_in_use s \<longrightarrow> cs_continuous s
     \<and> cs_range_start s \<le> cs_reserved_end s \<and> unat (cs_reserved_end s) < file_len st
     \<and> slot_pos s \<le> Suc (unat (cs_reserved_end s))
     \<and> (cs_streaming s \<longrightarrow> cs_chunk_write_offset s = cs_range_start s)
     \<and> content_ok R f {unat (cs_range_start s)..<slot_pos s})"

definition slots_disjoint :: "ChunkSlot list \<Rightarrow> bool" where
  "slots_disjoint ss \<longleftrightarrow> (\<forall>i j. i < length ss \<longrightarrow> j < length ss \<longrightarrow> i \<noteq> j \<longrightarrow>
     cs_in_use (ss ! i) \<longrightarrow> cs_in_use (ss ! j) \<longrightarrow> slot_range (ss ! i) \<inter> slot_range (ss ! j) = {})"

definition core_inv ::
  "(nat \<Rightarrow> char) \<Rightarrow> DownloadState \<Rightarrow> ChunkSlot list \<Rightarrow> (u64 \<Rightarrow> char option) \<Rightarrow> bool" where
  "core_inv R st ss f \<longleftrightarrow> state_wf st \<and> segments_fit st \<and> (\<forall>s\<in>set ss. slot_inv R st f s)
     \<and> slots_disjoint ss \<and> content_ok R f (covered (ds_done_ranges st))"

definition moved_file :: "job_event list \<Rightarrow> bool" where
  "moved_file evs \<longleftrightarrow> (\<exists>a b. EvMoveFile a b \<in> set evs)"

text \<open>The flag \<open>cl\<close> is set while the file is being closed: a job that is not done has its file open,
  or has written nothing yet.\<close>

definition job_inv :: "bool \<Rightarrow> (nat \<Rightarrow> char) \<Rightarrow> DownloadJob \<Rightarrow> bool" where
  "job_inv cl R job \<longleftrightarrow> core_inv R (j_state job) (j_slots job) (j_handed job)
     \<and> (cl \<or> j_done job \<or> j_file_open job \<or> j_handed job = (\<lambda>_. None))
     \<and> length (j_slots job) \<le> 32 \<and> j_slots job \<noteq> [] \<and> sc_concurrency (j_seg_cfg job) \<noteq> 0
     \<and> j_segment_mode job \<and> j_step job = DL_STEP_CHUNK \<and> \<not> j_streaming job
     \<and> (moved_file (j_log job) \<longrightarrow>
          content_ok R (j_handed job) {..<file_len (j_state job)})"

lemma content_ok_empty [simp]: "content_ok R f {}"
  by (simp add: content_ok_def)

lemma content_ok_Un [simp]: "content_ok R f (A \<union> B) \<longleftrightarrow> content_ok R f A \<and> content_ok R f B"
  by (auto simp: content_ok_def)

lemma content_ok_subset: "content_ok R f A \<Longrightarrow> B \<subseteq> A \<Longrightarrow> content_ok R f B"
  by (auto simp: content_ok_def)

lemma slot_inv_unused [simp]: "\<not> cs_in_use s \<Longrightarrow> slot_inv R st f s"
  by (simp add: slot_inv_def)

lemma empty_slot_unused [simp]: "cs_in_use empty_slot = False"
  by (simp add: empty_slot_def)

lemma moved_file_append [simp]:
  "moved_file (evs @ [EvUpsert s]) = moved_file evs" "moved_file (evs @ [EvRequest c x y k o']) = moved_file evs"
  "moved_file (evs @ [EvNetError c s]) = moved_file evs" "moved_file (evs @ [EvTlsInit c]) = moved_file evs"
  "moved_file (evs @ [EvSend c s]) = moved_file evs" "moved_file (evs @ map (EvSend c) ss) = moved_file evs"
  by (auto simp: moved_file_def)

subsection \<open>Changes that do not matter\<close>

text \<open>Two states that agree on the range array and the sizes.\<close>

definition same_ranges :: "DownloadState \<Rightarrow> DownloadState \<Rightarrow> bool" where
  "same_ranges st st' \<longleftrightarrow> ds_done_ranges st' = ds_done_ranges st \<and> ds_total_size st' = ds_total_size st
     \<and> ds_chunk_size st' = ds_chunk_size st \<and> ds_done_range_capacity st' = ds_done_range_capacity st"

lemma core_inv_same_ranges:
  "same_ranges st st' \<Longrightarrow> core_inv R st' ss f = core_inv R st ss f"
  by (simp add: same_ranges_def core_inv_def state_wf_def segments_fit_def slot_inv_def
      effective_chunk_size_def)

lemma job_inv_state:
  assumes "same_ranges (j_state job) st"
  shows "job_inv cl R (job\<lparr>j_state := st\<rparr>) = job_inv cl R job"
  using core_inv_same_ranges [OF assms] assms by (simp add: job_inv_def same_ranges_def)

text \<open>The fields that the invariant does not read.\<close>

lemma job_inv_irrelevant [simp]:
  "job_inv cl R (job\<lparr>j_tick := a\<rparr>) = job_inv cl R job"
  "job_inv cl R (job\<lparr>j_conns := b\<rparr>) = job_inv cl R job"
  "job_inv cl R (job\<lparr>j_flushed := c\<rparr>) = job_inv cl R job"
  "job_inv cl R (job\<lparr>j_saved := d\<rparr>) = job_inv cl R job"
  "job_inv cl R (job\<lparr>j_last_activity_ms := t\<rparr>) = job_inv cl R job"
  "job_inv cl R (job\<lparr>j_connect_deadline_ms := t\<rparr>) = job_inv cl R job"
  "job_inv cl R (job\<lparr>j_last_progress_ms := t\<rparr>) = job_inv cl R job"
  "job_inv cl R (job\<lparr>j_last_persist_ms := t\<rparr>) = job_inv cl R job"
  "job_inv cl R (job\<lparr>j_last_upsert_ms := t\<rparr>) = job_inv cl R job"
  "job_inv cl R (job\<lparr>j_bytes_since_persist := t\<rparr>) = job_inv cl R job"
  "job_inv cl R (job\<lparr>j_error_count := n\<rparr>) = job_inv cl R job"
  "job_inv cl R (job\<lparr>j_segment_error_count := m\<rparr>) = job_inv cl R job"
  "job_inv cl R (job\<lparr>j_schedule_deferred := x\<rparr>) = job_inv cl R job"
  "job_inv cl R (job\<lparr>j_pending_schedule := x\<rparr>) = job_inv cl R job"
  "job_inv cl R (job\<lparr>j_headers_received := x\<rparr>) = job_inv cl R job"
  "job_inv cl R (job\<lparr>j_request_sent := x\<rparr>) = job_inv cl R job"
  "job_inv cl R (job\<lparr>j_conn_keep_alive := x\<rparr>) = job_inv cl R job"
  "job_inv cl R (job\<lparr>j_use_ranges := x\<rparr>) = job_inv cl R job"
  "job_inv cl R (job\<lparr>j_dest_path := p\<rparr>) = job_inv cl R job"
  "job_inv cl R (job\<lparr>j_temp_path := p\<rparr>) = job_inv cl R job"
  "job_inv cl R (job\<lparr>j_filename := p\<rparr>) = job_inv cl R job"
  "job_inv cl R (job\<lparr>j_filename_inferred := x\<rparr>) = job_inv cl R job"
  "moved_file l = moved_file (j_log job) \<Longrightarrow> job_inv cl R (job\<lparr>j_log := l\<rparr>) = job_inv cl R job"
  by (simp_all add: job_inv_def)

lemma job_inv_done [simp]: "job_inv cl R job \<Longrightarrow> job_inv cl R (job\<lparr>j_done := True\<rparr>)"
  by (simp add: job_inv_def)

subsection \<open>Rules for sequences\<close>

text \<open>A sequence of assignments keeps the invariant when each step does.\<close>

lemma inv_let [inv_intros]:
  "job_inv cl R a \<Longrightarrow> (\<And>x. job_inv cl R x \<Longrightarrow> job_inv cl R (f x)) \<Longrightarrow> job_inv cl R (let x = a in f x)"
  by simp

lemma inv_let_pair [inv_intros]:
  "job_inv cl R (snd a) \<Longrightarrow> (\<And>b x. job_inv cl R x \<Longrightarrow> job_inv cl R (f b x)) \<Longrightarrow> job_inv cl R (let (b, x) = a in f b x)"
  by (cases a) simp

lemma inv_let_snd [inv_intros]:
  "job_inv cl R a \<Longrightarrow> (\<And>x. job_inv cl R x \<Longrightarrow> job_inv cl R (snd (f x))) \<Longrightarrow> job_inv cl R (snd (let x = a in f x))"
  by simp

lemma inv_let_pair_snd [inv_intros]:
  "job_inv cl R (snd a) \<Longrightarrow> (\<And>b x. job_inv cl R x \<Longrightarrow> job_inv cl R (snd (f b x)))
    \<Longrightarrow> job_inv cl R (snd (let (b, x) = a in f b x))"
  by (cases a) simp

text \<open>Values that are not jobs.\<close>

lemma inv_let_val [inv_intros]:
  fixes s :: string and b :: bool and w :: u64 and n :: nat and k :: ChunkSlot
  shows "(\<And>x. x = s \<Longrightarrow> job_inv cl R (f1 x)) \<Longrightarrow> job_inv cl R (let x = s in f1 x)"
    and "(\<And>x. x = b \<Longrightarrow> job_inv cl R (f2 x)) \<Longrightarrow> job_inv cl R (let x = b in f2 x)"
    and "(\<And>x. x = w \<Longrightarrow> job_inv cl R (f3 x)) \<Longrightarrow> job_inv cl R (let x = w in f3 x)"
    and "(\<And>x. x = n \<Longrightarrow> job_inv cl R (f4 x)) \<Longrightarrow> job_inv cl R (let x = n in f4 x)"
    and "(\<And>x. x = k \<Longrightarrow> job_inv cl R (f5 x)) \<Longrightarrow> job_inv cl R (let x = k in f5 x)"
    and "(\<And>x. x = s \<Longrightarrow> job_inv cl R (snd (g1 x))) \<Longrightarrow> job_inv cl R (snd (let x = s in g1 x))"
    and "(\<And>x. x = b \<Longrightarrow> job_inv cl R (snd (g2 x))) \<Longrightarrow> job_inv cl R (snd (let x = b in g2 x))"
    and "(\<And>x. x = w \<Longrightarrow> job_inv cl R (snd (g3 x))) \<Longrightarrow> job_inv cl R (snd (let x = w in g3 x))"
    and "(\<And>x. x = n \<Longrightarrow> job_inv cl R (snd (g4 x))) \<Longrightarrow> job_inv cl R (snd (let x = n in g4 x))"
    and "(\<And>x. x = k \<Longrightarrow> job_inv cl R (snd (g5 x))) \<Longrightarrow> job_inv cl R (snd (let x = k in g5 x))"
  by simp_all

lemma inv_if [inv_intros]:
  "(b \<Longrightarrow> job_inv cl R x) \<Longrightarrow> (\<not> b \<Longrightarrow> job_inv cl R y) \<Longrightarrow> job_inv cl R (if b then x else y)"
  by simp

lemma inv_if_snd [inv_intros]:
  "(b \<Longrightarrow> job_inv cl R (snd x)) \<Longrightarrow> (\<not> b \<Longrightarrow> job_inv cl R (snd y)) \<Longrightarrow> job_inv cl R (snd (if b then x else y))"
  by simp

lemma inv_case_option [inv_intros]:
  "(x = None \<Longrightarrow> job_inv cl R a) \<Longrightarrow> (\<And>v. x = Some v \<Longrightarrow> job_inv cl R (f v))
    \<Longrightarrow> job_inv cl R (case x of None \<Rightarrow> a | Some v \<Rightarrow> f v)"
  by (cases x) auto

lemma inv_case_option_snd [inv_intros]:
  "(x = None \<Longrightarrow> job_inv cl R (snd a)) \<Longrightarrow> (\<And>v. x = Some v \<Longrightarrow> job_inv cl R (snd (f v)))
    \<Longrightarrow> job_inv cl R (snd (case x of None \<Rightarrow> a | Some v \<Rightarrow> f v))"
  by (cases x) auto

lemma inv_pair_snd [inv_intros]: "job_inv cl R x \<Longrightarrow> job_inv cl R (snd (b, x))"
  by simp

subsection \<open>The small operations\<close>

lemma inv_ask [inv_intros]: "job_inv cl R job \<Longrightarrow> job_inv cl R (snd (ask e job))"
  by (simp add: ask_def)

lemma inv_millis [inv_intros]: "job_inv cl R job \<Longrightarrow> job_inv cl R (snd (mg_millis e job))"
  by (simp add: mg_millis_def)

lemma inv_set_error [inv_intros]: "job_inv cl R job \<Longrightarrow> job_inv cl R (set_error err job)"
  by (simp add: set_error_def job_inv_def)

lemma inv_upd_conn [inv_intros]: "job_inv cl R job \<Longrightarrow> job_inv cl R (upd_conn c f job)"
  by (simp add: upd_conn_def)

lemma inv_request_close [inv_intros]: "job_inv cl R job \<Longrightarrow> job_inv cl R (request_close job c b)"
  by (simp add: request_close_def inv_upd_conn)

lemma inv_state_save [inv_intros]: "job_inv cl R job \<Longrightarrow> job_inv cl R (state_save e job)"
  unfolding state_save_def by (intro inv_intros) (simp_all add: ask_def)

lemma inv_drain [inv_intros]: "job_inv cl R job \<Longrightarrow> job_inv cl R (snd (drain_temp_file e job))"
  unfolding drain_temp_file_def by (intro inv_intros) (simp_all add: ask_def)

lemma inv_print_progress [inv_intros]: "job_inv cl R job \<Longrightarrow> job_inv cl R (print_progress e job)"
  unfolding print_progress_def by (intro inv_intros) (simp_all add: mg_millis_def)

lemma inv_send_request [inv_intros]: "job_inv cl R job \<Longrightarrow> job_inv cl R (send_request job c a b k x)"
  by (simp add: send_request_def)

lemma inv_clear_recv [inv_intros]: "job_inv cl R job \<Longrightarrow> job_inv cl R (clear_recv c job)"
  unfolding clear_recv_def by (intro inv_intros)

lemma inv_consume_recv [inv_intros]: "job_inv cl R job \<Longrightarrow> job_inv cl R (consume_recv c n job)"
  unfolding consume_recv_def by (intro inv_intros)


subsection \<open>Changing one slot\<close>

text \<open>A slot that reserves no more than the one it replaces.\<close>

definition slot_shrinks :: "ChunkSlot \<Rightarrow> ChunkSlot \<Rightarrow> bool" where
  "slot_shrinks old new \<longleftrightarrow> (cs_in_use new \<longrightarrow> cs_in_use old
     \<and> cs_range_start new = cs_range_start old \<and> cs_reserved_end new = cs_reserved_end old)"

lemma slots_disjoint_update:
  assumes "slots_disjoint ss" and "i < length ss"
    and "cs_in_use s \<Longrightarrow> \<forall>j<length ss. j \<noteq> i \<longrightarrow> cs_in_use (ss ! j) \<longrightarrow> slot_range s \<inter> slot_range (ss ! j) = {}"
  shows "slots_disjoint (ss[i := s])"
  unfolding slots_disjoint_def
proof (intro allI impI)
  fix a b
  assume ab: "a < length (ss[i := s])" "b < length (ss[i := s])" "a \<noteq> b"
    "cs_in_use (ss[i := s] ! a)" "cs_in_use (ss[i := s] ! b)"
  consider "a = i" | "b = i" "a \<noteq> i" | "a \<noteq> i" "b \<noteq> i" by blast
  then show "slot_range (ss[i := s] ! a) \<inter> slot_range (ss[i := s] ! b) = {}"
  proof cases
    case 1
    then show ?thesis using ab assms(2,3) by simp
  next
    case 2
    then have "slot_range s \<inter> slot_range (ss ! a) = {}" using ab assms(2,3) by simp
    then show ?thesis using 2 assms(2) by (simp add: Int_commute)
  next
    case 3
    then show ?thesis using ab assms(1) by (simp add: slots_disjoint_def)
  qed
qed

lemma slots_disjoint_at:
  "slots_disjoint ss \<Longrightarrow> i < length ss \<Longrightarrow> j < length ss \<Longrightarrow> i \<noteq> j \<Longrightarrow> cs_in_use (ss ! i)
    \<Longrightarrow> cs_in_use (ss ! j) \<Longrightarrow> slot_range (ss ! i) \<inter> slot_range (ss ! j) = {}"
  by (simp add: slots_disjoint_def)

lemma inv_put_slot:
  assumes inv: "job_inv cl R job"
    and s: "i < length (j_slots job) \<Longrightarrow> slot_inv R (j_state job) (j_handed job) s"
    and sh: "i < length (j_slots job) \<Longrightarrow> slot_shrinks (slot_at job i) s"
  shows "job_inv cl R (put_slot i s job)"
proof (cases "i < length (j_slots job)")
  case True
  have d: "slots_disjoint ((j_slots job)[i := s])"
  proof (rule slots_disjoint_update [OF _ True])
    show "slots_disjoint (j_slots job)" using inv by (simp add: job_inv_def core_inv_def)
    then show "\<forall>j<length (j_slots job). j \<noteq> i \<longrightarrow> cs_in_use (j_slots job ! j)
        \<longrightarrow> slot_range s \<inter> slot_range (j_slots job ! j) = {}" if "cs_in_use s"
      using sh [OF True] that True slots_disjoint_at [of "j_slots job" i]
      by (simp add: slot_shrinks_def slot_at_def)
  qed
  have "\<forall>x\<in>set ((j_slots job)[i := s]). slot_inv R (j_state job) (j_handed job) x"
    using inv s [OF True] set_update_subset_insert [of "j_slots job" i s]
    by (auto simp: job_inv_def core_inv_def)
  then show ?thesis using inv d by (simp add: job_inv_def core_inv_def put_slot_def)
next
  case False
  then show ?thesis using inv by (simp add: put_slot_def list_update_beyond)
qed

lemma inv_slot_at:
  "job_inv cl R job \<Longrightarrow> i < length (j_slots job) \<Longrightarrow> slot_inv R (j_state job) (j_handed job) (slot_at job i)"
  by (simp add: job_inv_def core_inv_def slot_at_def)

text \<open>Updates of a slot's flags and counters that the invariant does not read.\<close>

lemma slot_irrelevant [simp]:
  "slot_inv R st f (s\<lparr>cs_last_activity_ms := t\<rparr>) = slot_inv R st f s"
  "slot_inv R st f (s\<lparr>cs_headers_received := b\<rparr>) = slot_inv R st f s"
  "slot_inv R st f (s\<lparr>cs_request_sent := b\<rparr>) = slot_inv R st f s"
  "slot_inv R st f (s\<lparr>cs_keep_alive := b\<rparr>) = slot_inv R st f s"
  "slot_inv R st f (s\<lparr>cs_conn := c\<rparr>) = slot_inv R st f s"
  "slot_inv R st f (s\<lparr>cs_draining := b\<rparr>) = slot_inv R st f s"
  "slot_inv R st f (s\<lparr>cs_persisted_received := t\<rparr>) = slot_inv R st f s"
  "slot_inv R st f (s\<lparr>cs_response_remaining := t\<rparr>) = slot_inv R st f s"
  "slot_inv R st f (s\<lparr>cs_chunk_expected := t\<rparr>) = slot_inv R st f s"
  by (simp_all add: slot_inv_def)

lemma slot_inv_stop_streaming: "slot_inv R st f s \<Longrightarrow> slot_inv R st f (s\<lparr>cs_streaming := False\<rparr>)"
  by (simp add: slot_inv_def)

lemma slot_inv_restart: "slot_inv R st f s \<Longrightarrow> slot_inv R st f (s\<lparr>cs_chunk_received := 0\<rparr>)"
  by (auto simp: slot_inv_def word_le_nat_alt)

lemma slot_shrinks_refl [simp]: "slot_shrinks s s"
  by (simp add: slot_shrinks_def)

lemma inv_upd_slot:
  assumes "job_inv cl R job"
    and "\<And>s. slot_inv R (j_state job) (j_handed job) s \<Longrightarrow> slot_inv R (j_state job) (j_handed job) (g s)"
    and "\<And>s. slot_shrinks s (g s)"
  shows "job_inv cl R (put_slot i (g (slot_at job i)) job)"
  by (rule inv_put_slot) (use assms inv_slot_at in auto)

lemma inv_touch [inv_intros]: "job_inv cl R job \<Longrightarrow> job_inv cl R (touch_slot_activity e job i)"
  unfolding touch_slot_activity_def
  by (intro inv_intros) (auto intro!: inv_upd_slot simp: slot_shrinks_def)

lemma inv_release [inv_intros]: "job_inv cl R job \<Longrightarrow> job_inv cl R (chunk_slot_release job i)"
  unfolding chunk_slot_release_def by (rule inv_put_slot) (simp_all add: slot_shrinks_def)

lemma inv_begin_draining [inv_intros]: "job_inv cl R job \<Longrightarrow> job_inv cl R (slot_begin_draining job i)"
  unfolding slot_begin_draining_def
  by (rule inv_upd_slot) (auto simp: slot_shrinks_def slot_inv_stop_streaming slot_inv_def)

subsection \<open>Recording progress\<close>

lemma job_inv_wf: "job_inv cl R job \<Longrightarrow> state_wf (j_state job) \<and> segments_fit (j_state job)"
  by (simp add: job_inv_def core_inv_def)

lemma same_but_ranges_fit: "same_but_ranges st st' \<Longrightarrow> segments_fit st' = segments_fit st"
  using same_but_ranges_sel [of st st'] by (simp add: segments_fit_def effective_chunk_size_def)

lemma slot_inv_state:
  "ds_total_size st' = ds_total_size st \<Longrightarrow> slot_inv R st' f s = slot_inv R st f s"
  by (simp add: slot_inv_def)

text \<open>Marking bytes that have been written.\<close>

lemma inv_mark_done:
  assumes inv: "job_inv cl R job" and se: "start \<le> end"
    and ok: "content_ok R (j_handed job) {unat start..unat end}"
  shows "job_inv cl R (snd (mark_done e job start end))"
proof -
  obtain rc st where m: "download_state_mark_range_done (\<lambda>_. e_ok e (j_tick job)) (j_state job) start end = (rc, st)"
    by fastforce
  have t: "ds_total_size (j_state job) \<noteq> 0" using job_inv_wf [OF inv] by (simp add: segments_fit_def)
  from mark_range_done_spec [OF _ se _ m] job_inv_wf [OF inv] t
  consider "st = j_state job"
    | "state_wf st" "same_but_ranges (j_state job) st"
      "covered (ds_done_ranges st) = covered (ds_done_ranges (j_state job)) \<union> request_bytes (j_state job) start end"
    by blast
  then have "core_inv R st (j_slots job) (j_handed job) \<and> ds_total_size st = ds_total_size (j_state job)"
  proof cases
    case 1
    then show ?thesis using inv by (simp add: job_inv_def)
  next
    case 2
    have "content_ok R (j_handed job) (request_bytes (j_state job) start end)"
      using ok by (rule content_ok_subset) (auto simp: request_bytes_def)
    moreover have "segments_fit st" using same_but_ranges_fit [OF 2(2)] job_inv_wf [OF inv] by simp
    moreover note tot = same_but_ranges_sel(1) [OF 2(2)]
    ultimately show ?thesis using inv 2(1,3)
      unfolding job_inv_def core_inv_def slot_inv_state [OF tot] content_ok_Un by simp
  qed
  then have c: "core_inv R st (j_slots job) (j_handed job)" "ds_total_size st = ds_total_size (j_state job)"
    by blast+
  have "job_inv cl R (job\<lparr>j_tick := Suc (j_tick job), j_state := st\<rparr>)"
    using inv c unfolding job_inv_def by simp
  then show ?thesis by (simp add: mark_done_def ask_def m)
qed

lemma inv_record_progress [inv_intros]: "job_inv cl R job \<Longrightarrow> job_inv cl R (record_progress e job)"
  unfolding record_progress_def
  by (intro inv_intros) (simp_all add: job_inv_state same_ranges_def inv_state_save inv_drain inv_millis)


lemma file_len_bound: "segments_fit st \<Longrightarrow> file_len st < 9223372036854775808"
  using chunk_len_pos [of st] unfolding segments_fit_def by linarith

text \<open>Positions inside a slot do not wrap.\<close>

lemma slot_inv_nat:
  assumes "slot_inv R st f s" "cs_in_use s" "segments_fit st" "unat k \<le> unat (cs_chunk_received s)"
  shows "unat (cs_range_start s + k) = unat (cs_range_start s) + unat k"
    and "slot_pos s \<le> file_len st" and "slot_pos s \<le> Suc (unat (cs_reserved_end s))"
    and "file_len st < 9223372036854775808" and "unat (cs_reserved_end s) < file_len st"
proof -
  show b: "file_len st < 9223372036854775808" using assms(3) by (rule file_len_bound)
  show p: "slot_pos s \<le> Suc (unat (cs_reserved_end s))" and r: "unat (cs_reserved_end s) < file_len st"
    using assms(1,2) by (simp_all add: slot_inv_def)
  then show "slot_pos s \<le> file_len st" by linarith
  then show "unat (cs_range_start s + k) = unat (cs_range_start s) + unat k"
    using b assms(4) by (intro unat_add_small) linarith
qed

lemma slot_range_end_nat:
  assumes "slot_inv R st f s" "cs_in_use s" "segments_fit st" "cs_chunk_received s \<noteq> 0"
  shows "unat (cs_range_start s + cs_chunk_received s - 1) = slot_pos s - 1"
    and "0 < unat (cs_chunk_received s)"
proof -
  show pos: "0 < unat (cs_chunk_received s)" using assms(4) by (simp add: unat_gt_0)
  have "unat (cs_range_start s + cs_chunk_received s) = slot_pos s"
    by (rule slot_inv_nat(1) [OF assms(1-3)]) simp
  then show "unat (cs_range_start s + cs_chunk_received s - 1) = slot_pos s - 1"
    using pos by (subst unat_dec) auto
qed

lemma slots_length [simp]:
  "length (j_slots (put_slot i s job)) = length (j_slots job)"
  "length (j_slots (snd (mark_done e job a b))) = length (j_slots job)"
  by (simp_all add: put_slot_def mark_done_def ask_def Let_def split_beta)

lemma persist_slots_step:
  "persist_slots e (Suc n) i changed job =
     (if \<not> slot_unpersisted (slot_at job i) then persist_slots e n (Suc i) changed job
      else let s = slot_at job i;
               r = mark_done e job (cs_chunk_write_offset s + cs_persisted_received s)
                     (cs_chunk_write_offset s + cs_chunk_received s - 1)
        in if fst r \<noteq> 0 then persist_slots e n (Suc i) changed (snd r)
           else persist_slots e n (Suc i) True
                  (put_slot i (s\<lparr>cs_persisted_received := cs_chunk_received s\<rparr>) (snd r)))"
  by (simp add: Let_def split_beta)

lemma slot_at_mark_done [simp]: "slot_at (snd (mark_done e job a b)) i = slot_at job i"
  by (simp add: slot_at_def mark_done_def ask_def Let_def split_beta)

lemma inv_mark_slot:
  assumes inv: "job_inv cl R job" and i: "i < length (j_slots job)" and s: "s = slot_at job i"
    and un: "slot_unpersisted s"
  shows "job_inv cl R (snd (mark_done e job (cs_chunk_write_offset s + cs_persisted_received s)
           (cs_chunk_write_offset s + cs_chunk_received s - 1)))"
proof (rule inv_mark_done [OF inv])
  have si: "slot_inv R (j_state job) (j_handed job) s" using inv_slot_at [OF inv i] s by simp
  have use: "cs_in_use s" "cs_streaming s" and lt: "unat (cs_persisted_received s) < unat (cs_chunk_received s)"
    using un by (auto simp: slot_unpersisted_def u64_order)
  have fit: "segments_fit (j_state job)" using job_inv_wf [OF inv] by blast
  have off: "cs_chunk_write_offset s = cs_range_start s" using si use by (simp add: slot_inv_def)
  have a: "unat (cs_chunk_write_offset s + cs_persisted_received s)
      = unat (cs_range_start s) + unat (cs_persisted_received s)"
    unfolding off by (rule slot_inv_nat(1) [OF si use(1) fit]) (use lt in simp)
  have r0: "cs_chunk_received s \<noteq> 0" using lt by auto
  have b: "unat (cs_chunk_write_offset s + cs_chunk_received s - 1) = slot_pos s - 1"
    unfolding off by (rule slot_range_end_nat(1) [OF si use(1) fit r0])
  show "cs_chunk_write_offset s + cs_persisted_received s \<le> cs_chunk_write_offset s + cs_chunk_received s - 1"
    unfolding word_le_nat_alt a b using lt by linarith
  have "content_ok R (j_handed job) {unat (cs_range_start s)..<slot_pos s}"
    using si use by (simp add: slot_inv_def)
  then show "content_ok R (j_handed job) {unat (cs_chunk_write_offset s + cs_persisted_received s)
      ..unat (cs_chunk_write_offset s + cs_chunk_received s - 1)}"
    unfolding a b by (rule content_ok_subset) (use lt in auto)
qed

lemma inv_persist_slots:
  "job_inv cl R job \<Longrightarrow> i + n \<le> length (j_slots job) \<Longrightarrow> job_inv cl R (snd (persist_slots e n i changed job))"
proof (induction n arbitrary: i changed job)
  case (Suc n)
  let ?s = "slot_at job i"
  let ?r = "mark_done e job (cs_chunk_write_offset ?s + cs_persisted_received ?s)
              (cs_chunk_write_offset ?s + cs_chunk_received ?s - 1)"
  have i: "i < length (j_slots job)" using Suc.prems(2) by simp
  show ?case
  proof (cases "slot_unpersisted ?s")
    case True
    have m: "job_inv cl R (snd ?r)" by (rule inv_mark_slot [OF Suc.prems(1) i refl True])
    have "job_inv cl R (put_slot i (?s\<lparr>cs_persisted_received := cs_chunk_received ?s\<rparr>) (snd ?r))"
    proof (rule inv_put_slot [OF m])
      show "slot_shrinks (slot_at (snd ?r) i) (?s\<lparr>cs_persisted_received := cs_chunk_received ?s\<rparr>)"
        by (simp add: slot_shrinks_def)
      show "slot_inv R (j_state (snd ?r)) (j_handed (snd ?r)) (?s\<lparr>cs_persisted_received := cs_chunk_received ?s\<rparr>)"
        using inv_slot_at [OF m, of i] i by simp
    qed
    then show ?thesis using Suc True m by (auto simp: persist_slots_step Let_def simp del: persist_slots.simps)
  next
    case False
    then show ?thesis using Suc by (simp add: persist_slots_step del: persist_slots.simps)
  qed
qed simp

lemma inv_should_persist [inv_intros]: "job_inv cl R job \<Longrightarrow> job_inv cl R (snd (should_persist_now e job force))"
  unfolding should_persist_now_def by (intro inv_intros)

lemma inv_persist [inv_intros]:
  assumes inv: "job_inv cl R job" shows "job_inv cl R (snd (persist_buffered_progress e job force))"
proof -
  have slots: "j_slots job \<noteq> []" if "job_inv cl R job" for job using that by (simp add: job_inv_def)
  show ?thesis unfolding persist_buffered_progress_def
    by (intro inv_intros inv) (use slots in \<open>auto intro: inv_persist_slots\<close>)
qed

lemma inv_sync [inv_intros]: "job_inv cl R job \<Longrightarrow> job_inv cl R (sync_state_metadata e job s)"
  unfolding sync_state_metadata_def
  by (auto intro!: inv_state_save simp: Let_def split_beta job_inv_state same_ranges_def inv_persist)

lemma inv_upsert [inv_intros]: "job_inv cl R job \<Longrightarrow> job_inv cl R (dm_item_upsert e job s)"
  unfolding dm_item_upsert_def read_config_item_queue_id_def
  by (intro inv_intros) (auto simp: job_inv_state same_ranges_def inv_sync inv_ask inv_millis split: option.splits)

lemma inv_upsert_throttled [inv_intros]: "job_inv cl R job \<Longrightarrow> job_inv cl R (dm_item_upsert_throttled e job s)"
  unfolding dm_item_upsert_throttled_def by (intro inv_intros)

lemma inv_resolve_max_retries [inv_intros]: "job_inv cl R job \<Longrightarrow> job_inv cl R (snd (resolve_max_retries e job))"
  unfolding resolve_max_retries_def read_item_optional_uint32_def read_queue_max_retries_def
  by (intro inv_intros) (auto split: option.splits)

lemma inv_recoverable_error [inv_intros]: "job_inv cl R job \<Longrightarrow> job_inv cl R (snd (record_recoverable_error e job))"
  unfolding record_recoverable_error_def by (intro inv_intros) simp_all

lemma inv_note_failure [inv_intros]: "job_inv cl R job \<Longrightarrow> job_inv cl R (note_segment_failure e job)"
  unfolding note_segment_failure_def by (intro inv_intros) (simp_all add: inv_recoverable_error)


subsection \<open>Writing bytes\<close>

definition bytes_match :: "(nat \<Rightarrow> char) \<Rightarrow> nat \<Rightarrow> bytes \<Rightarrow> bool" where
  "bytes_match R a data \<longleftrightarrow> (\<forall>k<length data. data ! k = R (a + k))"

lemma bytes_match_Nil [simp]: "bytes_match R a []"
  by (simp add: bytes_match_def)

lemma bytes_match_take: "bytes_match R a data \<Longrightarrow> bytes_match R a (take n data)"
  by (simp add: bytes_match_def)

lemma bytes_match_Cons: "bytes_match R a (c # cs) \<longleftrightarrow> c = R a \<and> bytes_match R (Suc a) cs"
  unfolding bytes_match_def by (auto simp: less_Suc_eq_0_disj nth_Cons split: nat.splits)

lemma of_nat_u64_eq: "a < 18446744073709551616 \<Longrightarrow> b < 18446744073709551616 \<Longrightarrow> (of_nat a :: u64) = of_nat b \<longleftrightarrow> a = b"
  by (metis unat_of_nat_small)

lemma write_bytes_at:
  assumes "a + length data < 18446744073709551616" "n < 18446744073709551616"
  shows "write_bytes f (of_nat a) data (of_nat n)
    = (if a \<le> n \<and> n < a + length data then Some (data ! (n - a)) else f (of_nat n))"
  using assms(1)
proof (induction data arbitrary: a f)
  case (Cons c cs)
  have "write_bytes f (of_nat a) (c # cs) (of_nat n)
      = write_bytes (f(of_nat a := Some c)) (of_nat (Suc a)) cs (of_nat n)" by (simp add: add.commute)
  also have "\<dots> = (if Suc a \<le> n \<and> n < Suc a + length cs then Some (cs ! (n - Suc a))
      else (f(of_nat a := Some c)) (of_nat n))"
    using Cons.prems by (intro Cons.IH) simp
  finally have step: "write_bytes f (of_nat a) (c # cs) (of_nat n)
      = (if Suc a \<le> n \<and> n < Suc a + length cs then Some (cs ! (n - Suc a))
         else (f(of_nat a := Some c)) (of_nat n))" .
  have eq: "(of_nat n :: u64) = of_nat a \<longleftrightarrow> n = a"
    using Cons.prems assms(2) by (intro of_nat_u64_eq) auto
  consider "n = a" | "n < a" | "a < n" by linarith
  then show ?case
  proof cases
    case 1
    then show ?thesis using step by (simp del: write_bytes.simps)
  next
    case 3
    then have "(c # cs) ! (n - a) = cs ! (n - Suc a)" by (simp add: nth_Cons')
    then show ?thesis using 3 by (simp add: step eq del: write_bytes.simps)
  qed (simp_all add: step eq del: write_bytes.simps)
qed auto

lemma content_ok_write:
  assumes "a + length data < 18446744073709551616" "bytes_match R a data"
    and "content_ok R f S" "S \<subseteq> {..<18446744073709551616}"
  shows "content_ok R (write_bytes f (of_nat a) data) (S \<union> {a..<a + length data})"
  unfolding content_ok_def
proof
  fix n assume n: "n \<in> S \<union> {a..<a + length data}"
  then have "n < 18446744073709551616" using assms(1,4) by auto
  from write_bytes_at [OF assms(1) this, of f]
  show "write_bytes f (of_nat a) data (of_nat n) = Some (R n)"
    using n assms(2,3) by (auto simp: bytes_match_def content_ok_def)
qed

lemma slot_inv_write:
  assumes "slot_inv R st f s" "segments_fit st" "a + length data \<le> file_len st" "bytes_match R a data"
  shows "slot_inv R st (write_bytes f (of_nat a) data) s"
proof (cases "cs_in_use s")
  case True
  have b: "file_len st < 9223372036854775808" using assms(2) by (rule file_len_bound)
  have "slot_pos s \<le> file_len st" using assms(1) True by (auto simp: slot_inv_def)
  then have "{unat (cs_range_start s)..<slot_pos s} \<subseteq> {..<18446744073709551616}" using b by auto
  then have "content_ok R (write_bytes f (of_nat a) data) ({unat (cs_range_start s)..<slot_pos s} \<union> {a..<a + length data})"
    using assms True b by (intro content_ok_write) (auto simp: slot_inv_def)
  then show ?thesis using assms(1) True by (simp add: slot_inv_def)
qed simp

lemma inv_written:
  assumes inv: "job_inv cl R job" and m: "bytes_match R a data" and le: "a + length data \<le> file_len (j_state job)"
    and op: "j_file_open job"
  shows "job_inv cl R (job\<lparr>j_handed := write_bytes (j_handed job) (of_nat a) data\<rparr>)"
proof -
  have fit: "segments_fit (j_state job)" using job_inv_wf [OF inv] by blast
  have b: "a + length data < 18446744073709551616" using file_len_bound [OF fit] le by linarith
  have keep: "content_ok R (write_bytes (j_handed job) (of_nat a) data) S"
    if "content_ok R (j_handed job) S" "S \<subseteq> {..<file_len (j_state job)}" for S
  proof -
    have "S \<subseteq> {..<18446744073709551616}" using that(2) file_len_bound [OF fit] by force
    from content_ok_write [OF b m that(1) this] show ?thesis by simp
  qed
  have "covered (ds_done_ranges (j_state job)) \<subseteq> {..<file_len (j_state job)}"
    using job_inv_wf [OF inv] by (auto simp: state_wf_def segments_fit_def)
  then show ?thesis using inv op keep slot_inv_write [OF _ fit le m]
    by (auto simp: job_inv_def core_inv_def)
qed

text \<open>Opening and writing; the file that is not open yet holds nothing of the download.\<close>

definition writable :: "DownloadJob \<Rightarrow> bool" where
  "writable job \<longleftrightarrow> j_file_open job \<or> j_handed job = (\<lambda>_. None)"

lemma job_inv_writable: "job_inv False R job \<Longrightarrow> \<not> j_done job \<Longrightarrow> writable job"
  by (auto simp: job_inv_def writable_def)

lemma open_temp_file_inv:
  assumes inv: "job_inv cl R job" and nd: "writable job" and r: "open_temp_file e job mode = (ok, job')"
  shows "job_inv cl R job' \<and> j_slots job' = j_slots job \<and> j_state job' = j_state job
    \<and> j_done job' = j_done job \<and> j_conns job' = j_conns job \<and> writable job' \<and> (ok \<longrightarrow> j_file_open job')"
proof -
  have "j_handed job = (\<lambda>_. None)" if "\<not> j_file_open job" using nd that by (simp add: writable_def)
  then show ?thesis using inv nd r
    by (auto simp: writable_def open_temp_file_def ask_def job_inv_def Let_def split: if_splits prod.splits)
qed

lemma write_at_offset_inv:
  assumes inv: "job_inv cl R job" and nd: "writable job" and m: "bytes_match R (unat off) data"
    and le: "unat off + length data \<le> file_len (j_state job)"
    and r: "write_at_offset e job data off = (ok, job')"
  shows "job_inv cl R job' \<and> j_slots job' = j_slots job \<and> j_state job' = j_state job
    \<and> j_conns job' = j_conns job \<and> writable job'
    \<and> (ok \<longrightarrow> j_done job' = j_done job \<and> content_ok R (j_handed job') {unat off..<unat off + length data})"
proof -
  obtain opened job1 where o: "(if j_file_open job then (True, job)
         else let (ok, job) = open_temp_file e job ''r+b''
              in if ok then (True, job) else open_temp_file e job ''w+b'') = (opened, job1)"
    by fastforce
  have 1: "job_inv cl R job1 \<and> j_slots job1 = j_slots job \<and> j_state job1 = j_state job
      \<and> j_done job1 = j_done job \<and> j_conns job1 = j_conns job \<and> writable job1 \<and> (opened \<longrightarrow> j_file_open job1)"
  proof (cases "j_file_open job")
    case True
    then show ?thesis using o inv nd by simp
  next
    case False
    obtain ok2 job2 where 2: "open_temp_file e job ''r+b'' = (ok2, job2)" by fastforce
    note i2 = open_temp_file_inv [OF inv nd 2]
    show ?thesis
    proof (cases ok2)
      case True
      then show ?thesis using o False 2 i2 by simp
    next
      case no: False
      then have "open_temp_file e job2 ''w+b'' = (opened, job1)" using o False 2 by simp
      from open_temp_file_inv [OF conjunct1 [OF i2] _ this] i2 nd show ?thesis by simp
    qed
  qed
  show ?thesis
  proof (cases opened)
    case False
    then have "job' = set_error ErrOpenTempFile job1 \<and> \<not> ok" using r o by (simp add: write_at_offset_def)
    then show ?thesis using 1 by (auto simp: inv_set_error) (simp_all add: set_error_def writable_def)
  next
    case opened: True
    show ?thesis
    proof (cases "e_ok e (j_tick job1)")
      case False
      then have "job' = set_error ErrWriteTempFile (snd (ask e job1)) \<and> \<not> ok"
        using r o opened by (simp add: write_at_offset_def ask_def)
      then show ?thesis using 1 by (auto simp: inv_set_error inv_ask) (simp_all add: set_error_def ask_def writable_def)
    next
      case True
      let ?w = "write_bytes (j_handed job1) off data"
      have w: "write_bytes (j_handed job1) (of_nat (unat off)) data = ?w" by simp
      have "job_inv cl R (job1\<lparr>j_handed := ?w\<rparr>)"
        unfolding w [symmetric] by (rule inv_written) (use 1 opened m le in auto)
      moreover have "content_ok R ?w {unat off..<unat off + length data}"
      proof -
        have b: "unat off + length data < 18446744073709551616"
          using file_len_bound [of "j_state job"] job_inv_wf [OF inv] le by linarith
        show ?thesis using content_ok_write [OF b m, of "j_handed job1" "{}"] by simp
      qed
      ultimately show ?thesis using r o opened True 1 nd
        by (auto simp: write_at_offset_def ask_def mg_millis_def writable_def)
    qed
  qed
qed


subsection \<open>Extending a reservation\<close>

text \<open>The loop over the slots collects every reservation when there is room for all of them.\<close>

lemma in_flight_loop_mem:
  "length ss \<le> room \<Longrightarrow> k < length ss \<Longrightarrow> cs_in_use (ss ! k) \<Longrightarrow> exclude \<noteq> Some (i + k) \<Longrightarrow>
   \<lparr>br_start = cs_range_start (ss ! k), br_end = cs_reserved_end (ss ! k)\<rparr>
     \<in> set (in_flight_loop ss i exclude room)"
proof (induction ss i exclude room arbitrary: k rule: in_flight_loop.induct)
  case (2 s ss i exclude room)
  have room: "room \<noteq> 0" using 2 by auto
  show ?case
  proof (cases k)
    case 0
    then show ?thesis using 2 room by auto
  next
    case (Suc j)
    then have j: "j < length ss" "cs_in_use (ss ! j)" "exclude \<noteq> Some (Suc i + j)" using "2.prems" by auto
    show ?thesis
    proof (cases "\<not> cs_in_use s \<or> exclude = Some i")
      case True
      have "length ss \<le> room" using "2.prems"(1) by simp
      from "2.IH"(1) [OF room True this j] show ?thesis using True room Suc by simp
    next
      case False
      have "length ss \<le> room - 1" using "2.prems"(1) by simp
      from "2.IH"(2) [OF room False this j] show ?thesis using False room Suc by simp
    qed
  qed
qed simp

definition reserve_to :: "u64 \<Rightarrow> u64 \<Rightarrow> nat \<Rightarrow> DownloadJob \<Rightarrow> DownloadJob" where
  "reserve_to x y i job = put_slot i ((slot_at job i)\<lparr>cs_reserved_end := x, cs_range_end := y\<rparr>) job"

lemma extend_inv:
  assumes inv: "job_inv cl R job" and i: "i < length (j_slots job)" and u: "cs_in_use (slot_at job i)"
    and r: "slot_try_extend_reservation job i = (True, job')"
  shows "job_inv cl R job' \<and> (\<exists>x. job' = reserve_to x x i job \<and> cs_reserved_end (slot_at job i) < x)"
proof -
  let ?s = "slot_at job i"
  define fl where "fl = slot_collect_in_flight job (Some i) (unat DL_MAX_SEGMENT_CONCURRENCY)"
  define x where "x = segment_next_reserve_end (j_state job) fl (cs_reserved_end ?s)"
  have gt: "cs_reserved_end ?s < x" and job': "job' = reserve_to x x i job"
    using r by (auto simp: slot_try_extend_reservation_def Let_def fl_def x_def reserve_to_def split: if_splits)
  from next_reserve_end_spec [OF _ _ x_def] gt job_inv_wf [OF inv]
  have x: "x < ds_total_size (j_state job)"
      "\<forall>q\<in>set fl. {unat (cs_reserved_end ?s) + 1..unat x} \<inter> range_bytes q = {}"
    by auto
  let ?n = "?s\<lparr>cs_reserved_end := x, cs_range_end := x\<rparr>"
  note si = inv_slot_at [OF inv i]
  have "slot_inv R (j_state job) (j_handed job) ?n"
    using si gt x(1) by (auto simp: slot_inv_def u64_order)
  then have all: "\<forall>s\<in>set ((j_slots job)[i := ?n]). slot_inv R (j_state job) (j_handed job) s"
    using inv set_update_subset_insert [of "j_slots job" i ?n] by (auto simp: job_inv_def core_inv_def)
  have len: "length (j_slots job) \<le> unat DL_MAX_SEGMENT_CONCURRENCY"
    using inv by (simp add: job_inv_def DL_MAX_SEGMENT_CONCURRENCY_def)
  have "slots_disjoint ((j_slots job)[i := ?n])"
  proof (rule slots_disjoint_update [OF _ i], goal_cases)
    case 1
    then show ?case using inv by (simp add: job_inv_def core_inv_def)
  next
    case 2
    show ?case
    proof (intro allI impI)
      fix j assume j: "j < length (j_slots job)" "j \<noteq> i" "cs_in_use (j_slots job ! j)"
      let ?q = "\<lparr>br_start = cs_range_start (j_slots job ! j), br_end = cs_reserved_end (j_slots job ! j)\<rparr>"
      have "?q \<in> set fl" unfolding fl_def slot_collect_in_flight_def
        by (rule in_flight_loop_mem [OF len j(1,3)]) (use j in simp)
      then have new: "{unat (cs_reserved_end ?s) + 1..unat x} \<inter> slot_range (j_slots job ! j) = {}"
        using x(2) by (auto simp: range_bytes_def)
      have old: "slot_range ?s \<inter> slot_range (j_slots job ! j) = {}"
        using inv i j u slots_disjoint_at [of "j_slots job" i j] by (simp add: job_inv_def core_inv_def slot_at_def)
      have "slot_range ?n \<subseteq> slot_range ?s \<union> {unat (cs_reserved_end ?s) + 1..unat x}" by auto
      then show "slot_range ?n \<inter> slot_range (j_slots job ! j) = {}" using new old by blast
    qed
  qed
  then have "job_inv cl R job'" using inv all by (simp add: job_inv_def core_inv_def job' reserve_to_def put_slot_def)
  then show ?thesis using job' gt by blast
qed

lemma reserve_to_sel [simp]:
  "j_state (reserve_to x y i job) = j_state job" "j_handed (reserve_to x y i job) = j_handed job"
  "j_done (reserve_to x y i job) = j_done job" "j_conns (reserve_to x y i job) = j_conns job"
  "length (j_slots (reserve_to x y i job)) = length (j_slots job)"
  "i < length (j_slots job) \<Longrightarrow> slot_at (reserve_to x y i job) i
     = (slot_at job i)\<lparr>cs_reserved_end := x, cs_range_end := y\<rparr>"
  "i < length (j_slots job) \<Longrightarrow> reserve_to x y i (reserve_to x' y' i job) = reserve_to x y i job"
  by (simp_all add: reserve_to_def put_slot_def slot_at_def)

lemma reserve_to_same [simp]:
  "reserve_to (cs_reserved_end (slot_at job i)) (cs_range_end (slot_at job i)) i job = job"
  by (simp add: reserve_to_def put_slot_def slot_at_def)

lemma extend_loop_inv:
  assumes "job_inv cl R job" "i < length (j_slots job)" "cs_in_use (slot_at job i)"
    and "avail = cs_reserved_end (slot_at job i) - pos + 1"
    and "extend_loop job i pos len avail = (avail', job')"
  shows "job_inv cl R job' \<and> (\<exists>x y. job' = reserve_to x y i job \<and> cs_reserved_end (slot_at job i) \<le> x
    \<and> avail' = x - pos + 1)"
  using assms
proof (induction job i pos len avail rule: extend_loop.induct)
  case (1 job i pos len avail)
  note inv = "1.prems"(1) and i = "1.prems"(2) and use = "1.prems"(3)
  obtain ok job1 where ext: "slot_try_extend_reservation job i = (ok, job1)" by fastforce
  show ?case
  proof (cases "len > avail \<and> ok")
    case False
    then have "avail' = avail \<and> job' = job" using "1.prems"(5) ext
      by (subst (asm) extend_loop.simps) (auto split: if_splits)
    then show ?thesis using inv "1.prems"(4)
      by (intro conjI exI [of _ "cs_reserved_end (slot_at job i)"] exI [of _ "cs_range_end (slot_at job i)"]) simp_all
  next
    case True
    then have ext': "slot_try_extend_reservation job i = (True, job1)" using ext by simp
    obtain x where x: "job1 = reserve_to x x i job" "cs_reserved_end (slot_at job i) < x" "job_inv cl R job1"
      using extend_inv [OF inv i use ext'] by blast
    have "extend_loop job1 i pos len (cs_reserved_end (slot_at job1 i) - pos + 1) = (avail', job')"
      using "1.prems"(5) True ext' by (subst (asm) extend_loop.simps) simp
    from "1.IH" [OF conjunct1 [OF True] ext' [symmetric] refl _ x(3) _ _ refl this]
    have "job_inv cl R job' \<and> (\<exists>x y. job' = reserve_to x y i job1 \<and> cs_reserved_end (slot_at job1 i) \<le> x
        \<and> avail' = x - pos + 1)"
      using i use x(1) by simp
    then obtain x' y' where *: "job_inv cl R job'" "job' = reserve_to x' y' i job1"
        "cs_reserved_end (slot_at job1 i) \<le> x'" "avail' = x' - pos + 1" by blast
    have "cs_reserved_end (slot_at job1 i) = x" using x(1) i by simp
    then have "cs_reserved_end (slot_at job i) \<le> x'" using *(3) x(2) by simp
    moreover have "job' = reserve_to x' y' i job" using *(2) x(1) i by simp
    ultimately show ?thesis using *(1,4) by blast
  qed
qed


subsection \<open>The bytes of one slot\<close>

text \<open>The bytes offered to a slot are those of the resource at the slot's position, unless the
  slot is at the end of its reservation and drops them.\<close>

definition feed_ok :: "(nat \<Rightarrow> char) \<Rightarrow> ChunkSlot \<Rightarrow> bytes \<Rightarrow> bool" where
  "feed_ok R s data \<longleftrightarrow> (slot_pos s \<le> unat (cs_reserved_end s) \<longrightarrow> bytes_match R (slot_pos s) data)"

lemma feed_ok_Nil [simp]: "feed_ok R s []"
  by (simp add: feed_ok_def)

text \<open>Two versions of a slot that differ in the counters a write changes.\<close>

definition slot_moved :: "ChunkSlot \<Rightarrow> ChunkSlot \<Rightarrow> bool" where
  "slot_moved s s' \<longleftrightarrow> (\<exists>x y r m t. s' = s\<lparr>cs_reserved_end := x, cs_range_end := y,
     cs_chunk_received := r, cs_response_remaining := m, cs_last_activity_ms := t\<rparr>)"

lemma slot_moved_sel:
  assumes "slot_moved s s'"
  shows "cs_in_use s' = cs_in_use s" "cs_streaming s' = cs_streaming s" "cs_conn s' = cs_conn s"
    "cs_range_start s' = cs_range_start s" "cs_continuous s' = cs_continuous s"
    "cs_draining s' = cs_draining s" "cs_keep_alive s' = cs_keep_alive s"
    "cs_headers_received s' = cs_headers_received s" "cs_chunk_expected s' = cs_chunk_expected s"
  using assms by (auto simp: slot_moved_def)

lemma slot_moved_refl [simp]: "slot_moved s s"
proof -
  have "s = s\<lparr>cs_reserved_end := cs_reserved_end s, cs_range_end := cs_range_end s,
     cs_chunk_received := cs_chunk_received s, cs_response_remaining := cs_response_remaining s,
     cs_last_activity_ms := cs_last_activity_ms s\<rparr>" by simp
  then show ?thesis unfolding slot_moved_def by blast
qed

lemma avail_nat:
  assumes "p \<le> x" "(x :: u64) \<noteq> UINT64_MAX"
  shows "unat (x - p + 1) = Suc (unat x) - unat p"
proof -
  have x: "unat x < 18446744073709551615" using assms(2) u64_le_max [of x] by (simp add: word_unat_eq_iff nless_le)
  have "unat (x - p) = unat x - unat p" using assms(1) by (intro unat_sub_le) (simp add: word_le_nat_alt)
  then have "unat (x - p + 1) = unat x - unat p + 1" using x by (subst unat_inc) auto
  then show ?thesis using assms(1) by (simp add: word_le_nat_alt Suc_diff_le)
qed

lemma prepare_write_inv:
  assumes inv: "job_inv cl R job" and i: "i < length (j_slots job)" and use: "cs_in_use (slot_at job i)"
    and r: "slot_prepare_write job i len = (ok, len', job')"
  shows "job_inv cl R job' \<and> (\<exists>x y. job' = reserve_to x y i job \<and> cs_reserved_end (slot_at job i) \<le> x)
    \<and> (ok \<longrightarrow> 0 < len' \<and> len' \<le> len \<and> slot_pos (slot_at job i) \<le> unat (cs_reserved_end (slot_at job i))
          \<and> slot_pos (slot_at job i) + unat len' \<le> Suc (unat (cs_reserved_end (slot_at job' i))))
    \<and> (\<not> ok \<longrightarrow> len' = 0)"
proof -
  let ?s = "slot_at job i"
  let ?pos = "cs_range_start ?s + cs_chunk_received ?s"
  have si: "slot_inv R (j_state job) (j_handed job) ?s" using inv_slot_at [OF inv i] .
  have fit: "segments_fit (j_state job)" using job_inv_wf [OF inv] by blast
  have cont: "cs_continuous ?s" using si use by (simp add: slot_inv_def)
  have pos: "unat ?pos = slot_pos ?s" by (rule slot_inv_nat(1) [OF si use fit]) simp
  have same: "job_inv cl R job \<and> (\<exists>x y. job = reserve_to x y i job \<and> cs_reserved_end ?s \<le> x)"
    using inv reserve_to_same [of job i] by (metis order_refl)
  show ?thesis
  proof (cases "len = 0 \<or> ?pos > cs_reserved_end ?s")
    case True
    then have "\<not> ok \<and> len' = 0 \<and> job' = job" using r i cont
      by (auto simp: slot_prepare_write_def Let_def split: if_splits)
    then show ?thesis using same by auto
  next
    case False
    obtain avail job1 where loop: "extend_loop job i ?pos len (cs_reserved_end ?s - ?pos + 1) = (avail, job1)"
      by fastforce
    have res: "ok = (0 < len')" "len' = (if len > avail then avail else len)" "job' = job1"
      using r i cont False loop by (auto simp: slot_prepare_write_def Let_def)
    obtain x y where x: "job_inv cl R job1" "job1 = reserve_to x y i job" "cs_reserved_end ?s \<le> x" "avail = x - ?pos + 1"
      using extend_loop_inv [OF inv i use refl loop] by blast
    have s1: "cs_reserved_end (slot_at job1 i) = x" using x(2) i by simp
    have "slot_inv R (j_state job1) (j_handed job1) (slot_at job1 i)" using inv_slot_at [OF x(1), of i] x(2) i by simp
    then have "unat x < file_len (j_state job)" using use i x(2) by (simp add: slot_inv_def)
    then have xm: "x \<noteq> UINT64_MAX" using file_len_bound [OF fit] by auto
    have le: "?pos \<le> cs_reserved_end ?s" using False by (simp add: not_less)
    then have "unat avail = Suc (unat x) - unat ?pos" using x(3,4) xm by (simp add: avail_nat)
    then have "slot_pos ?s + unat avail \<le> Suc (unat x)" using le x(3) pos by (simp add: u64_order)
    moreover have "unat len' \<le> unat avail" "len' \<le> len" using res(2) by (auto simp: u64_order)
    ultimately show ?thesis using res x(1,2,3) s1 le pos by (auto simp: u64_order unat_eq_0)
  qed
qed


text \<open>One write of body bytes: everything the handlers need to know about it.\<close>

lemma slot_write_body_inv:
  assumes inv: "job_inv cl R job" and w: "writable job" and i: "i < length (j_slots job)"
    and use: "cs_in_use (slot_at job i)" and str: "cs_streaming (slot_at job i)"
    and feed: "feed_ok R (slot_at job i) data" and r: "slot_write_body e job i data = (ok, job')"
  shows "job_inv cl R job' \<and> writable job' \<and> length (j_slots job') = length (j_slots job)
    \<and> j_conns job' = j_conns job \<and> slot_moved (slot_at job i) (slot_at job' i)
    \<and> unat (cs_chunk_received (slot_at job i)) \<le> unat (cs_chunk_received (slot_at job' i))
    \<and> (\<not> ok \<longrightarrow> feed_ok R (slot_at job' i) data) \<and> (ok \<longrightarrow> j_done job' = j_done job)"
proof -
  let ?s = "slot_at job i"
  obtain ok1 len1 job1 where p: "slot_prepare_write job i (of_nat (length data)) = (ok1, len1, job1)"
    using prod_cases3 by blast
  note pw = prepare_write_inv [OF inv i use p]
  obtain x y where x: "job1 = reserve_to x y i job" "cs_reserved_end ?s \<le> x" using pw by blast
  have inv1: "job_inv cl R job1" using pw by blast
  have s1: "slot_at job1 i = ?s\<lparr>cs_reserved_end := x, cs_range_end := y\<rparr>" using x(1) i by simp
  have mv1: "slot_moved ?s (slot_at job1 i)"
  proof -
    have "slot_at job1 i = ?s\<lparr>cs_reserved_end := x, cs_range_end := y, cs_chunk_received := cs_chunk_received ?s,
        cs_response_remaining := cs_response_remaining ?s, cs_last_activity_ms := cs_last_activity_ms ?s\<rparr>"
      by (simp add: s1)
    then show ?thesis unfolding slot_moved_def by blast
  qed
  have w1: "writable job1" using w x(1) by (simp add: writable_def reserve_to_def put_slot_def)
  have d1: "j_done job1 = j_done job" "j_conns job1 = j_conns job" "length (j_slots job1) = length (j_slots job)"
    using x(1) by simp_all
  show ?thesis
  proof (cases ok1)
    case False
    then have "ok \<and> job' = job1" using r p pw by (simp add: slot_write_body_def)
    then show ?thesis using inv1 w1 mv1 d1 s1 by simp
  next
    case True
    let ?s1 = "slot_at job1 i"
    have L: "0 < len1" "len1 \<le> of_nat (length data)" "slot_pos ?s \<le> unat (cs_reserved_end ?s)"
        "slot_pos ?s + unat len1 \<le> Suc (unat x)"
      using pw True s1 by simp_all
    have si1: "slot_inv R (j_state job1) (j_handed job1) ?s1" using inv_slot_at [OF inv1] i d1 by simp
    have fit: "segments_fit (j_state job1)" using job_inv_wf [OF inv1] by blast
    have use1: "cs_in_use ?s1" "cs_streaming ?s1" using use str s1 by simp_all
    have cont: "cs_continuous ?s1" using si1 use1 by (simp add: slot_inv_def)
    have off: "cs_chunk_write_offset ?s1 = cs_range_start ?s1" using si1 use1 by (simp add: slot_inv_def)
    have pos: "unat (cs_range_start ?s1 + cs_chunk_received ?s1) = slot_pos ?s1"
      by (rule slot_inv_nat(1) [OF si1 use1(1) fit]) simp
    have xl: "unat x < file_len (j_state job1)" using si1 use1 s1 by (simp add: slot_inv_def)
    have xm: "x \<noteq> UINT64_MAX" using xl file_len_bound [OF fit] by auto
    have re1: "cs_reserved_end ?s1 = x" "slot_pos ?s1 = slot_pos ?s" by (simp_all add: s1)
    have ple: "cs_range_start ?s1 + cs_chunk_received ?s1 \<le> x"
      using pos re1 L(3) x(2) by (simp add: u64_order)
    have rem: "slot_bytes_remaining ?s1 = x - (cs_range_start ?s1 + cs_chunk_received ?s1) + 1"
      using cont ple by (simp add: slot_bytes_remaining_def Let_def re1 not_less [symmetric])
    then have "unat (slot_bytes_remaining ?s1) = Suc (unat x) - slot_pos ?s"
      using avail_nat [OF ple xm] pos re1 by simp
    then have enough: "len1 \<le> slot_bytes_remaining ?s1" using L(4) by (simp add: u64_order)
    let ?data = "take (unat len1) data"
    have dl: "unat len1 \<le> length data"
    proof -
      have "unat (of_nat (length data) :: u64) \<le> length data" by (simp add: unat_of_nat take_bit_eq_mod)
      then show ?thesis using L(2) by (simp add: word_le_nat_alt)
    qed
    obtain ok2 job2 where wr: "write_at_offset e job1 ?data (cs_chunk_write_offset ?s1 + cs_chunk_received ?s1) = (ok2, job2)"
      by fastforce
    have at: "unat (cs_chunk_write_offset ?s1 + cs_chunk_received ?s1) = slot_pos ?s"
      using off pos re1 by simp
    have match: "bytes_match R (slot_pos ?s) data" using feed L(3) by (simp add: feed_ok_def)
    have "slot_pos ?s + length ?data \<le> file_len (j_state job1)" using L(4) xl dl by simp
    then have W: "job_inv cl R job2 \<and> j_slots job2 = j_slots job1 \<and> j_state job2 = j_state job1
        \<and> j_conns job2 = j_conns job1 \<and> writable job2
        \<and> (ok2 \<longrightarrow> j_done job2 = j_done job1 \<and>
             content_ok R (j_handed job2) {slot_pos ?s..<slot_pos ?s + length ?data})"
      using write_at_offset_inv [OF inv1 w1 _ _ wr] at bytes_match_take [OF match] by simp
    have s2: "slot_at job2 i = ?s1" using W by (simp add: slot_at_def)
    have len0: "len1 \<noteq> 0" and clamp: "(if slot_bytes_remaining ?s1 \<noteq> UINT64_MAX \<and> len1 > slot_bytes_remaining ?s1
        then slot_bytes_remaining ?s1 else len1) = len1"
      using L(1) enough by auto
    show ?thesis
    proof (cases ok2)
      case False
      have "\<not> ok \<and> job' = job2" using r p True wr clamp len0 False
        by (simp add: slot_write_body_def Let_def)
      moreover have "feed_ok R ?s1 data" using match re1 by (simp add: feed_ok_def)
      ultimately show ?thesis using W mv1 d1 s2 s1 by simp
    next
      case ok2: True
      let ?n = "?s1\<lparr>cs_chunk_received := cs_chunk_received ?s1 + len1,
           cs_response_remaining := (if cs_response_remaining ?s1 \<ge> len1
                then cs_response_remaining ?s1 - len1 else 0)\<rparr>"
      let ?job3 = "(put_slot i ?n job2)\<lparr>j_bytes_since_persist := j_bytes_since_persist job2 + len1\<rparr>"
      have "slot_write_body e job i data = (True, touch_slot_activity e ?job3 i)"
        unfolding slot_write_body_def p Let_def prod.case clamp wr s2 using True ok2 len0
        by (simp add: put_slot_def)
      then have res: "ok" "job' = touch_slot_activity e ?job3 i" using r by simp_all
      have len_pos: "slot_pos ?s + unat len1 \<le> file_len (j_state job1)" using L(4) xl by simp
      have rec: "unat (cs_chunk_received ?s1 + len1) = unat (cs_chunk_received ?s1) + unat len1"
        using len_pos re1 file_len_bound [OF fit] by (intro unat_add_small) linarith
      have ni: "slot_inv R (j_state job2) (j_handed job2) ?n"
      proof -
        have old: "slot_inv R (j_state job2) (j_handed job2) ?s1"
          using inv_slot_at [of cl R job2 i] W i d1 s2 by simp
        have c: "content_ok R (j_handed job2) ({unat (cs_range_start ?s1)..<slot_pos ?s1}
            \<union> {slot_pos ?s..<slot_pos ?s + length ?data})"
          using old use1 W ok2 by (simp add: slot_inv_def)
        have np: "slot_pos ?n = slot_pos ?s + unat len1" using rec re1(2) by simp
        have c2: "content_ok R (j_handed job2) {unat (cs_range_start ?n)..<slot_pos ?n}"
          unfolding np by (rule content_ok_subset [OF c]) (use dl re1(2) in auto)
        have "slot_pos ?n \<le> Suc (unat (cs_reserved_end ?n))" unfolding np using L(4) re1 by simp
        then show ?thesis using old c2 unfolding slot_inv_def by simp
      qed
      have "job_inv cl R (put_slot i ?n job2)"
        by (rule inv_put_slot) (use W ni s2 in \<open>simp_all add: slot_shrinks_def\<close>)
      then have "job_inv cl R job'" unfolding res(2) by (intro inv_touch) simp
      moreover obtain t where t: "slot_at job' i = ?n\<lparr>cs_last_activity_ms := t\<rparr>"
        using W i d1 by (simp add: res(2) touch_slot_activity_def mg_millis_def put_slot_def slot_at_def)
      then have "slot_moved ?s (slot_at job' i)" unfolding slot_moved_def
        by (intro exI [of _ x] exI [of _ y] exI [of _ "cs_chunk_received ?s1 + len1"]
            exI [of _ "cs_response_remaining ?n"] exI [of _ t]) (simp add: s1)
      moreover have "writable job'" "j_conns job' = j_conns job" "j_done job' = j_done job"
          "length (j_slots job') = length (j_slots job)"
        using W d1 ok2 by (simp_all add: res(2) touch_slot_activity_def mg_millis_def put_slot_def writable_def)
      moreover have "unat (cs_chunk_received ?s) \<le> unat (cs_chunk_received (slot_at job' i))"
        using rec by (simp add: t) (simp add: s1)
      ultimately show ?thesis using res(1) by simp
    qed
  qed
qed


subsection \<open>The end of a segment\<close>

definition feeds :: "(nat \<Rightarrow> char) \<Rightarrow> DownloadJob \<Rightarrow> nat \<Rightarrow> nat \<Rightarrow> bool" where
  "feeds R job i c \<longleftrightarrow> (cs_streaming (slot_at job i) \<longrightarrow> feed_ok R (slot_at job i) (recv_of job c))"

lemma recv_of_clear [simp]: "recv_of (clear_recv c job) c = []"
  by (simp add: recv_of_def clear_recv_def upd_conn_def)

lemma clear_recv_sel [simp]:
  "j_slots (clear_recv c job) = j_slots job" "j_state (clear_recv c job) = j_state job"
  "j_done (clear_recv c job) = j_done job" "writable (clear_recv c job) = writable job"
  "slot_at (clear_recv c job) i = slot_at job i"
  by (simp_all add: clear_recv_def upd_conn_def writable_def slot_at_def)

lemma flush_inv:
  assumes inv: "job_inv cl R job" and w: "writable job" and i: "i < length (j_slots job)"
    and use: "cs_in_use (slot_at job i)" and feed: "feeds R job i c"
    and r: "job' = flush_recv_body e job (Some i) c"
  shows "job_inv cl R job' \<and> writable job' \<and> length (j_slots job') = length (j_slots job)
    \<and> slot_moved (slot_at job i) (slot_at job' i) \<and> feeds R job' i c
    \<and> unat (cs_chunk_received (slot_at job i)) \<le> unat (cs_chunk_received (slot_at job' i))"
proof (cases "recv_of job c \<noteq> [] \<and> cs_streaming (slot_at job i)")
  case False
  then have "job' = job" using r inv by (auto simp: flush_recv_body_def job_inv_def)
  then show ?thesis using inv w feed by simp
next
  case True
  obtain ok job1 where wr: "slot_write_body e job i (recv_of job c) = (ok, job1)" by fastforce
  have "feed_ok R (slot_at job i) (recv_of job c)" using feed True by (simp add: feeds_def)
  note W = slot_write_body_inv [OF inv w i use conjunct2 [OF True] this wr]
  have j: "job' = (if ok then clear_recv c job1 else job1)" using r True wr by (simp add: flush_recv_body_def)
  show ?thesis
  proof (cases ok)
    case True
    then show ?thesis using W j inv_clear_recv by (simp add: feeds_def)
  next
    case False
    have "recv_of job1 c = recv_of job c" using W by (simp add: recv_of_def)
    then show ?thesis using W j False by (simp add: feeds_def)
  qed
qed

lemma inv_shrunk_slot:
  assumes "job_inv cl R job" and "slot_inv R (j_state job) (j_handed job) (slot_at job i)
      \<Longrightarrow> slot_inv R (j_state job) (j_handed job) s" and "slot_shrinks (slot_at job i) s"
  shows "job_inv cl R (put_slot i s job)"
  by (rule inv_put_slot) (use assms inv_slot_at in auto)

lemma mark_segment_inv:
  assumes inv: "job_inv cl R job" and w: "writable job" and i: "i < length (j_slots job)"
    and use: "cs_in_use (slot_at job i)" and feed: "feeds R job i c"
  shows "job_inv cl R (snd (slot_mark_segment_done e job i c))"
proof -
  let ?s = "slot_at job i"
  let ?a = "cs_range_start ?s" and ?b = "cs_range_start ?s + cs_chunk_received ?s - 1"
  show ?thesis
  proof (cases "cs_chunk_received ?s = 0 \<or> download_state_is_range_done (j_state job) ?a ?b")
    case True
    then have "snd (slot_mark_segment_done e job i c) = job" by (auto simp: slot_mark_segment_done_def Let_def)
    then show ?thesis using inv by simp
  next
    case False
    define job1 where "job1 = flush_recv_body e job (Some i) c"
    note F = flush_inv [OF inv w i use feed job1_def]
    let ?s1 = "slot_at job1 i"
    have fit: "segments_fit (j_state job)" using job_inv_wf [OF inv] by blast
    have si: "slot_inv R (j_state job) (j_handed job) ?s" using inv_slot_at [OF inv i] .
    have b: "unat ?b = slot_pos ?s - 1" "0 < unat (cs_chunk_received ?s)"
      using slot_range_end_nat [OF si use fit] False by simp_all
    have si1: "slot_inv R (j_state job1) (j_handed job1) ?s1" using inv_slot_at [of cl R job1 i] F i by simp
    have use1: "cs_in_use ?s1" and rs1: "cs_range_start ?s1 = ?a"
      using F slot_moved_sel [of ?s ?s1] use by simp_all
    have "content_ok R (j_handed job1) {unat ?a..<slot_pos ?s1}"
      using si1 use1 rs1 by (simp add: slot_inv_def)
    then have c: "content_ok R (j_handed job1) {unat ?a..unat ?b}"
      by (rule content_ok_subset) (use F rs1 b in auto)
    have ab: "?a \<le> ?b" using b by (simp add: word_le_nat_alt)
    have inv1: "job_inv cl R job1" using F by blast
    have m: "job_inv cl R (snd (mark_done e job1 ?a ?b))" by (rule inv_mark_done [OF inv1 ab c])
    have p: "job_inv cl R (put_slot i (?s1\<lparr>cs_persisted_received := cs_chunk_received ?s1\<rparr>) (snd (mark_done e job1 ?a ?b)))"
      using m by (rule inv_shrunk_slot) (simp_all add: slot_shrinks_def)
    show ?thesis using False inv1 inv_record_progress [OF p]
      unfolding slot_mark_segment_done_def Let_def job1_def [symmetric]
      by (auto simp: split_beta slot_at_mark_done)
  qed
qed


subsection \<open>Finishing the download\<close>

lemma job_inv_closing: "job_inv cl R job \<Longrightarrow> job_inv True R job"
  by (simp add: job_inv_def)

lemma job_inv_closed: "job_inv True R job \<Longrightarrow> job_inv cl R (job\<lparr>j_done := True\<rparr>)"
  by (simp add: job_inv_def)

lemma set_error_closed: "job_inv True R job \<Longrightarrow> job_inv cl R (set_error err job)"
  by (simp add: job_inv_def set_error_def)

lemma close_inv: "job_inv cl R job \<Longrightarrow> job_inv True R (snd (close_file e job))"
  by (auto simp: close_file_def ask_def job_inv_def Let_def)

text \<open>When all chunks are done every byte of the file has been written.\<close>

definition fully_written :: "(nat \<Rightarrow> char) \<Rightarrow> DownloadJob \<Rightarrow> bool" where
  "fully_written R job \<longleftrightarrow> content_ok R (j_handed job) {..<file_len (j_state job)}"

lemma all_done_complete:
  assumes inv: "job_inv cl R job" and "download_state_all_chunks_done (j_state job)"
  shows "fully_written R job"
proof -
  let ?st = "j_state job"
  have wf: "state_wf ?st" "ds_total_size ?st \<noteq> 0" using job_inv_wf [OF inv] by (auto simp: segments_fit_def)
  obtain k where k: "file_len ?st = Suc k" "unat (ds_total_size ?st - 1) = k" using u64_pred [OF wf(2)] by blast
  have "download_state_is_range_done ?st 0 (ds_total_size ?st - 1)"
    using assms(2) wf(2) by (simp add: download_state_all_chunks_done_def)
  then have "{0..k} \<subseteq> covered (ds_done_ranges ?st)"
    using is_range_done_iff [of ?st 0 "ds_total_size ?st - 1"] wf(1) k by (simp add: state_wf_def)
  moreover have "{..<file_len ?st} = {0..k}" using k by auto
  ultimately show ?thesis using inv content_ok_subset by (auto simp: job_inv_def core_inv_def fully_written_def)
qed

text \<open>Recording and closing change neither the written bytes nor the size.\<close>

definition keeps :: "DownloadJob \<Rightarrow> DownloadJob \<Rightarrow> bool" where
  "keeps job job' \<longleftrightarrow> j_handed job' = j_handed job \<and> ds_total_size (j_state job') = ds_total_size (j_state job)"

lemma keeps_trans: "keeps a b \<Longrightarrow> keeps b c \<Longrightarrow> keeps a c"
  by (simp add: keeps_def)

lemma keeps_complete: "keeps job job' \<Longrightarrow> fully_written R job \<Longrightarrow> fully_written R job'"
  by (simp add: keeps_def fully_written_def)

lemma mark_range_total:
  "ds_total_size (snd (download_state_mark_range_done ok st s e)) = ds_total_size st"
  by (simp add: download_state_mark_range_done_def insert_sorted_range_def ensure_range_capacity_def
      Let_def split_beta)

lemma keeps_mark_done: "keeps job (snd (mark_done e job a b))"
  by (simp add: keeps_def mark_done_def ask_def Let_def split_beta mark_range_total)

lemma keeps_put_slot: "keeps job (put_slot i s job)"
  by (simp add: keeps_def put_slot_def)

lemma keeps_persist_slots: "keeps job (snd (persist_slots e n i changed job))"
proof (induction n arbitrary: i changed job)
  case (Suc n)
  then show ?case unfolding persist_slots_step
    by (auto simp: Let_def intro: keeps_trans [OF keeps_mark_done]
        keeps_trans [OF keeps_mark_done keeps_trans [OF keeps_put_slot]])
qed (simp add: keeps_def)

lemma keeps_record_progress: "keeps job (record_progress e job)"
  by (auto simp: keeps_def record_progress_def drain_temp_file_def state_save_def ask_def mg_millis_def
      Let_def split_beta)

lemma keeps_should_persist: "keeps job (snd (should_persist_now e job force))"
  by (simp add: keeps_def should_persist_now_def mg_millis_def Let_def)

lemma keeps_close: "keeps job (snd (close_file e job))"
  by (simp add: keeps_def close_file_def ask_def Let_def)

lemma keeps_persist:
  assumes inv: "job_inv cl R job"
  shows "keeps job (snd (persist_buffered_progress e job force))"
proof -
  obtain yes job1 where s: "should_persist_now e job force = (yes, job1)" by fastforce
  have k1: "keeps job job1" using keeps_should_persist [of job e force] s by simp
  have ne: "j_slots job1 \<noteq> []" using inv_should_persist [OF inv, of e force] s by (simp add: job_inv_def)
  obtain ch job2 where p: "persist_slots e (length (j_slots job1)) 0 False job1 = (ch, job2)" by fastforce
  have k2: "keeps job1 job2" using keeps_persist_slots [of job1 e "length (j_slots job1)" 0 False] p by simp
  have "keeps job (record_progress e job2)" "keeps job job2"
    using keeps_trans [OF k1 keeps_trans [OF k2 keeps_record_progress]] keeps_trans [OF k1 k2] by blast+
  then show ?thesis using k1 ne s p by (simp add: persist_buffered_progress_def keeps_def)
qed

lemma moved_file_move [simp]: "moved_file (evs @ [EvMoveFile a b])"
  by (auto simp: moved_file_def)

lemma job_inv_move:
  "job_inv cl R job \<Longrightarrow> fully_written R job \<Longrightarrow> job_inv cl R (job\<lparr>j_log := l\<rparr>)"
  by (simp add: job_inv_def fully_written_def)

lemma complete_same [simp]:
  "fully_written R (job\<lparr>j_tick := a\<rparr>) = fully_written R job" "fully_written R (job\<lparr>j_dest_path := p\<rparr>) = fully_written R job"
  "fully_written R (job\<lparr>j_filename := p\<rparr>) = fully_written R job"
  "ds_total_size st = ds_total_size (j_state job) \<Longrightarrow> fully_written R (job\<lparr>j_state := st\<rparr>) = fully_written R job"
  by (simp_all add: fully_written_def)

lemma inv_finalize:
  assumes inv: "job_inv cl R job" and c: "fully_written R job"
  shows "job_inv cl R (snd (finalize_download e job))"
proof (cases "j_done job")
  case True
  then show ?thesis using inv by (simp add: finalize_download_def)
next
  case False
  define job1 where "job1 = snd (persist_buffered_progress e job True)"
  define job2 where "job2 = snd (close_file e job1)"
  have inv2: "job_inv True R job2" unfolding job2_def job1_def by (rule close_inv [OF inv_persist [OF inv]])
  have c2: "fully_written R job2"
    using keeps_complete [OF keeps_trans [OF keeps_persist [OF inv] keeps_close] c]
    unfolding job1_def job2_def .
  show ?thesis
    unfolding finalize_download_def Let_def split_beta job1_def [symmetric] job2_def [symmetric]
    using False inv2 c2
    by (auto intro!: set_error_closed job_inv_closed inv_upsert job_inv_move simp: job_inv_state same_ranges_def ask_def split: option.splits)
qed


subsection \<open>The next range of a slot\<close>

text \<open>A new range for a slot: inside the file and disjoint from what the other slots reserve.\<close>

definition free_range :: "DownloadJob \<Rightarrow> nat option \<Rightarrow> ByteRange \<Rightarrow> bool" where
  "free_range job exclude r \<longleftrightarrow> br_start r \<le> br_end r \<and> unat (br_end r) < file_len (j_state job)
     \<and> (\<forall>j<length (j_slots job). exclude \<noteq> Some j \<longrightarrow> cs_in_use (j_slots job ! j)
          \<longrightarrow> range_bytes r \<inter> slot_range (j_slots job ! j) = {})"

lemma no_overlap_loop_iff:
  "no_overlap_loop ss i exclude s e \<longleftrightarrow> (\<forall>k<length ss. exclude \<noteq> Some (i + k) \<longrightarrow> cs_in_use (ss ! k)
     \<longrightarrow> \<not> segment_ranges_overlap s e (cs_range_start (ss ! k)) (cs_reserved_end (ss ! k)))"
proof (induction ss i exclude s e rule: no_overlap_loop.induct)
  case (2 s ss i exclude start "end")
  have split: "(\<forall>k<length (s # ss). P k) \<longleftrightarrow> P 0 \<and> (\<forall>k<length ss. P (Suc k))" for P
    by (simp add: All_less_Suc2)
  show ?case unfolding split using 2 by auto
qed simp

lemma selected_ranges_free:
  assumes inv: "job_inv cl R job" and r: "r \<in> set (segment_select_chunks (j_seg_cfg job) (j_state job) m
      (Some (range_in_flight_predicate job exclude)))"
  shows "free_range job exclude r"
proof -
  let ?p = "Some (range_in_flight_predicate job exclude)"
  have fit: "segments_fit (j_state job)" and c: "sc_concurrency (j_seg_cfg job) \<noteq> 0"
    using inv job_inv_wf [OF inv] by (auto simp: job_inv_def)
  obtain js where js: "segment_select_chunks (j_seg_cfg job) (j_state job) m ?p = map (seg_of (j_state job)) js"
      "set js \<subseteq> set (pending_segments (j_state job) ?p)"
    using select_chunks_indices [OF fit c] by metis
  then obtain i where i: "r = seg_of (j_state job) i" "i < download_state_segment_count (j_state job)"
      "pending (j_state job) ?p i"
    using r by (auto simp: set_pending_segments)
  have ok: "range_ok r" using seg_of_nat(3) [OF fit i(2)] i(1) by simp
  have hi: "hi_of r < file_len (j_state job)"
    using seg_of_nat(2) [OF fit i(2)] i(1) file_len_pos [OF fit] by simp
  have "range_in_flight_predicate job exclude (br_start r) (br_end r)" using i(1,3) by (simp add: pending_def)
  then show ?thesis using ok hi
    by (auto simp: free_range_def range_in_flight_predicate_def no_overlap_loop_iff
        segment_ranges_overlap_iff range_ok_def word_le_nat_alt range_bytes_def)
qed

lemma selected_ranges_distinct:
  assumes inv: "job_inv cl R job" and out: "out = segment_select_chunks (j_seg_cfg job) (j_state job) m p"
    and "a < b" "b < length out"
  shows "range_bytes (out ! a) \<inter> range_bytes (out ! b) = {}"
proof -
  have fit: "segments_fit (j_state job)" and c: "sc_concurrency (j_seg_cfg job) \<noteq> 0"
    using inv job_inv_wf [OF inv] by (auto simp: job_inv_def)
  obtain js where js: "out = map (seg_of (j_state job)) js" "distinct js"
      "set js \<subseteq> set (pending_segments (j_state job) p)"
    using select_chunks_indices [OF fit c] unfolding out by metis
  have ab: "a < length js" "b < length js" using assms(3,4) js(1) by auto
  then have ne: "js ! a \<noteq> js ! b" using assms(3) js(2) by (simp add: nth_eq_iff_index_eq)
  have "js ! a < download_state_segment_count (j_state job)" "js ! b < download_state_segment_count (j_state job)"
    using subsetD [OF js(3) nth_mem [OF ab(1)]] subsetD [OF js(3) nth_mem [OF ab(2)]]
    by (auto simp: set_pending_segments)
  then show ?thesis using ab ne js(1) seg_of_disjoint [OF fit] by simp
qed

lemma inv_put_free:
  assumes inv: "job_inv cl R job" and s: "slot_inv R (j_state job) (j_handed job) s"
    and free: "free_range job (Some i) r"
    and eq: "cs_range_start s = br_start r" "cs_reserved_end s = br_end r"
  shows "job_inv cl R (put_slot i s job)"
proof (cases "i < length (j_slots job)")
  case True
  have d: "slots_disjoint ((j_slots job)[i := s])"
    using inv free eq
    by (intro slots_disjoint_update [OF _ True]) (auto simp: job_inv_def core_inv_def free_range_def range_bytes_def)
  have "\<forall>x\<in>set ((j_slots job)[i := s]). slot_inv R (j_state job) (j_handed job) x"
    using inv s set_update_subset_insert [of "j_slots job" i s] by (auto simp: job_inv_def core_inv_def)
  then show ?thesis using inv d by (simp add: job_inv_def core_inv_def put_slot_def)
next
  case False
  then show ?thesis using inv by (simp add: put_slot_def list_update_beyond)
qed

lemma fresh_slot_inv:
  assumes "cs_in_use s \<Longrightarrow> cs_continuous s" "br_start r \<le> br_end r" "unat (br_end r) < file_len st"
    and "cs_range_start s = br_start r" "cs_reserved_end s = br_end r" "cs_chunk_received s = 0" "\<not> cs_streaming s"
  shows "slot_inv R st f s"
  using assms by (auto simp: slot_inv_def word_le_nat_alt)

lemma inv_slot_reset:
  assumes inv: "job_inv cl R job" and free: "free_range job (Some i) r"
  shows "job_inv cl R (slot_reset_for_request e job i c (br_start r) (br_end r))"
proof -
  obtain t job1 where m: "mg_millis e job = (t, job1)" by fastforce
  have j1: "job1 = job\<lparr>j_tick := Suc (j_tick job)\<rparr>" using m by (simp add: mg_millis_def)
  have inv1: "job_inv cl R job1" using inv j1 by simp
  have free1: "free_range job1 (Some i) r" using free j1 by (simp add: free_range_def)
  let ?s = "(slot_at job1 i)\<lparr>cs_range_start := br_start r, cs_range_end := br_end r,
      cs_reserved_end := br_end r, cs_chunk_write_offset := br_start r,
      cs_chunk_received := 0, cs_chunk_expected := 0, cs_response_remaining := 0,
      cs_persisted_received := 0, cs_headers_received := False, cs_streaming := False,
      cs_draining := False, cs_request_sent := False, cs_last_activity_ms := t\<rparr>"
  have "job_inv cl R (put_slot i ?s job1)"
  proof (cases "i < length (j_slots job1)")
    case True
    have "slot_inv R (j_state job1) (j_handed job1) ?s"
      using inv_slot_at [OF inv1 True] free1
      by (intro fresh_slot_inv [of _ r]) (auto simp: slot_inv_def free_range_def)
    then show ?thesis by (rule inv_put_free [OF inv1 _ free1]) simp_all
  next
    case False
    then show ?thesis using inv1 by (simp add: put_slot_def list_update_beyond)
  qed
  then show ?thesis unfolding slot_reset_for_request_def m by (simp add: inv_upd_conn)
qed

lemma inv_reuse:
  assumes "job_inv cl R job" and "free_range job (Some i) r"
  shows "job_inv cl R (slot_reuse_for_next_range e job i c r)"
  unfolding slot_reuse_for_next_range_def Let_def
  by (intro inv_touch inv_send_request inv_upd_conn inv_shrunk_slot inv_slot_reset assms)
    (simp_all add: slot_shrinks_def)

lemma fully_written_frame [simp]:
  "fully_written R (request_close job c b) = fully_written R job"
  "fully_written R (chunk_slot_release job i) = fully_written R job"
  by (simp_all add: fully_written_def request_close_def upd_conn_def chunk_slot_release_def put_slot_def)

lemma inv_next_or_close:
  assumes inv: "job_inv cl R job"
  shows "job_inv cl R (slot_next_or_close e job i c)"
proof -
  have pick: "free_range job (Some i) r"
    if "(if j_segment_mode job \<and> cs_keep_alive (slot_at job i) then slot_pick_next_range job i else None) = Some r" for r
    using that selected_ranges_free [OF inv, of r 1 "Some i"]
    by (auto simp: slot_pick_next_range_def split: if_splits list.splits)
  show ?thesis unfolding slot_next_or_close_def
    using all_done_complete [OF inv] inv pick
    by (intro inv_intros) (auto intro!: inv_finalize inv_request_close inv_release inv_reuse)
qed


subsection \<open>The handlers keep the invariant\<close>

lemma finish_continuous_inv:
  assumes "job_inv cl R job" "writable job" "i < length (j_slots job)"
    and "cs_in_use (slot_at job i)" "feeds R job i c"
  shows "job_inv cl R (slot_finish_continuous e job i c)"
proof -
  obtain ok job1 where m: "slot_mark_segment_done e job i c = (ok, job1)" by fastforce
  have inv1: "job_inv cl R job1" using mark_segment_inv [OF assms, of e] m by simp
  have "job_inv cl R (put_slot i ((slot_at job1 i)\<lparr>cs_chunk_received := 0, cs_chunk_expected := 0,
      cs_draining := False, cs_response_remaining := 0\<rparr>) job1)"
    using inv1 by (rule inv_shrunk_slot) (auto simp: slot_inv_def slot_shrinks_def word_le_nat_alt)
  then show ?thesis unfolding slot_finish_continuous_def m Let_def using inv1
    by (auto intro!: inv_intros inv_next_or_close)
qed

lemma complete_slot_inv:
  assumes "job_inv cl R job" "writable job" "i < length (j_slots job)"
    and "cs_in_use (slot_at job i)" "feeds R job i c"
  shows "job_inv cl R (snd (complete_chunk_slot e job i c))"
proof -
  obtain ok job1 where m: "slot_mark_segment_done e job i c = (ok, job1)" by fastforce
  have "job_inv cl R job1" using mark_segment_inv [OF assms, of e] m by simp
  then show ?thesis unfolding complete_chunk_slot_def m Let_def using assms(1)
    by (auto intro!: inv_intros)
qed

lemma feeds_empty [simp]: "recv_of job c = [] \<Longrightarrow> feeds R job i c"
  by (simp add: feeds_def)

text \<open>A slot at the end of its reservation takes no more bytes.\<close>

lemma feeds_at_end:
  "cs_range_start (slot_at job i) + cs_chunk_received (slot_at job i) = cs_reserved_end (slot_at job i) + 1
   \<Longrightarrow> job_inv cl R job \<Longrightarrow> i < length (j_slots job) \<Longrightarrow> cs_in_use (slot_at job i) \<Longrightarrow> feeds R job i c"
proof -
  assume eq: "cs_range_start (slot_at job i) + cs_chunk_received (slot_at job i) = cs_reserved_end (slot_at job i) + 1"
    and inv: "job_inv cl R job" and i: "i < length (j_slots job)" and use: "cs_in_use (slot_at job i)"
  have fit: "segments_fit (j_state job)" using job_inv_wf [OF inv] by blast
  note N = slot_inv_nat [OF inv_slot_at [OF inv i] use fit]
  have "unat (cs_reserved_end (slot_at job i) + 1) = Suc (unat (cs_reserved_end (slot_at job i)))"
    using N(4,5) [OF order_refl] by (subst unat_inc) auto
  then have "slot_pos (slot_at job i) = Suc (unat (cs_reserved_end (slot_at job i)))"
    using N(1) [OF order_refl] eq by simp
  then show ?thesis by (simp add: feeds_def feed_ok_def)
qed

lemma reservation_end_inv:
  assumes inv: "job_inv cl R job" and w: "writable job" and i: "i < length (j_slots job)"
    and use: "cs_in_use (slot_at job i)" and r: "slot_reservation_end e job i c = (returned, job')"
  shows "job_inv cl R job'" and "\<not> returned \<Longrightarrow> writable job' \<and> length (j_slots job') = length (j_slots job)
    \<and> cs_in_use (slot_at job' i)"
proof -
  let ?s = "slot_at job i"
  have both: "job_inv cl R job' \<and> (\<not> returned \<longrightarrow> writable job' \<and> length (j_slots job') = length (j_slots job)
    \<and> cs_in_use (slot_at job' i))"
  proof (cases "cs_continuous ?s \<and> cs_streaming ?s \<and> \<not> cs_draining ?s
      \<and> cs_range_start ?s + cs_chunk_received ?s = cs_reserved_end ?s + 1")
    case False
    then show ?thesis using r inv w use by (auto simp: slot_reservation_end_def Let_def)
  next
    case True
    obtain ext job1 where x: "slot_try_extend_reservation job i = (ext, job1)" by fastforce
    show ?thesis
    proof (cases ext)
      case ext: True
      obtain y where "job1 = reserve_to y y i job" "job_inv cl R job1"
        using extend_inv [OF inv i use, of job1] x ext by auto
      then show ?thesis using r True x ext w i use
        by (auto simp: slot_reservation_end_def Let_def writable_def reserve_to_def put_slot_def slot_at_def)
    next
      case False
      have j1: "job1 = job" using x False by (auto simp: slot_try_extend_reservation_def Let_def split: if_splits)
      show ?thesis
      proof (cases "cs_response_remaining ?s > DL_DRAIN_MAX_BYTES")
        case big: True
        let ?j = "put_slot i (?s\<lparr>cs_keep_alive := False\<rparr>) job"
        have invj: "job_inv cl R ?j"
          using inv by (rule inv_shrunk_slot) (simp_all add: slot_shrinks_def)
        have sl: "slot_at ?j i = ?s\<lparr>cs_keep_alive := False\<rparr>" using i by (simp add: put_slot_def slot_at_def)
        have "job_inv cl R (slot_finish_continuous e ?j i c)"
          using True use i w
          by (intro finish_continuous_inv invj feeds_at_end [OF _ invj]) (simp_all only: sl slots_length, simp_all add: writable_def put_slot_def)
        then show ?thesis using r True x False j1 big
          by (simp add: slot_reservation_end_def Let_def)
      next
        case small: False
        then show ?thesis using r True x False j1 inv_begin_draining [OF inv] w i use
          by (auto simp: slot_reservation_end_def Let_def slot_begin_draining_def put_slot_def slot_at_def writable_def)
      qed
    qed
  qed
  then show "job_inv cl R job'" by blast
  show "writable job' \<and> length (j_slots job') = length (j_slots job) \<and> cs_in_use (slot_at job' i)" if "\<not> returned"
    using both that by blast
qed

end
