(* ===== verification/Job_Steps.thy ===== *)
theory Job_Steps
  imports Job_Safety Handler
begin

text \<open>
  The event handlers of a segmented download as a step relation, and the safety of every
  sequence of events.  Each step is one entry of the connection library into
  \<^verbatim>\<open>src/src/download.c\<close>: bytes arrive on the connection of a slot, a connection is closed, the
  scheduler opens connections, the item list is refreshed; between the steps the library
  changes the connections.  The assumption on the remote side is stated at the step: what
  arrives on a slot's connection are the bytes of the resource at the slot's position.
\<close>

subsection \<open>Bytes of a response\<close>

lemma after_body_inv:
  assumes inv: "job_inv cl R job" and w: "writable job" and i: "i < length (j_slots job)"
    and use: "cs_in_use (slot_at job i)" and e: "recv_of job c = []"
  shows "job_inv cl R (after_body_bytes e' job (Some i) c)"
proof -
  let ?s = "slot_at job i"
  have cont: "cs_continuous ?s" using inv_slot_at [OF inv i] use by (simp add: slot_inv_def)
  note fin = finish_continuous_inv [OF inv w i use feeds_empty [OF e]]
  show ?thesis
  proof (cases "cs_draining ?s \<or> cs_response_remaining ?s = 0 \<and> cs_chunk_received ?s > 0")
    case True
    then show ?thesis using cont fin inv by (auto simp: after_body_bytes_def Let_def)
  next
    case False
    have "job_inv cl R (let (now, job) = mg_millis e' job in
        if now - j_last_progress_ms job \<ge> 200
        then let job = print_progress e' job; (_, job) = persist_buffered_progress e' job False
             in dm_item_upsert_throttled e' job ''downloading''
        else job)"
      by (intro inv_intros inv)
    then show ?thesis using False cont by (auto simp: after_body_bytes_def Let_def)
  qed
qed

lemma drain_response_inv:
  assumes inv: "job_inv cl R job" and w: "writable job" and i: "i < length (j_slots job)"
    and use: "cs_in_use (slot_at job i)"
  shows "job_inv cl R (drain_response e job i c)"
proof -
  define left where "left = (let len = of_nat (length (recv_of job c));
      discard = (if cs_response_remaining (slot_at job i) > 0 \<and> len > cs_response_remaining (slot_at job i)
                 then cs_response_remaining (slot_at job i) else len)
    in if cs_response_remaining (slot_at job i) \<ge> discard then cs_response_remaining (slot_at job i) - discard else 0)"
  define job1 where "job1 = touch_slot_activity e (clear_recv c
      (put_slot i ((slot_at job i)\<lparr>cs_response_remaining := left\<rparr>) job)) i"
  have d: "drain_response e job i c
      = (if cs_response_remaining (slot_at job1 i) = 0 then slot_finish_continuous e job1 i c else job1)"
    by (simp only: drain_response_def job1_def left_def Let_def)
  have inv1: "job_inv cl R job1" unfolding job1_def
    by (intro inv_touch inv_clear_recv inv_shrunk_slot [OF inv]) (auto simp: slot_inv_def slot_shrinks_def)
  have rest: "writable job1" "i < length (j_slots job1)" "cs_in_use (slot_at job1 i)" "recv_of job1 c = []"
    using w i use by (auto simp: job1_def writable_def touch_slot_activity_def mg_millis_def clear_recv_def
        upd_conn_def put_slot_def slot_at_def recv_of_def)
  show ?thesis unfolding d using finish_continuous_inv [OF inv1 rest(1-3) feeds_empty [OF rest(4)]] inv1 by simp
qed

lemma store_body_inv:
  assumes inv: "job_inv cl R job" and w: "writable job" and i: "i < length (j_slots job)"
    and use: "cs_in_use (slot_at job i)" and str: "cs_streaming (slot_at job i)"
    and feed: "feed_ok R (slot_at job i) (recv_of job c)"
  shows "job_inv cl R (store_body_bytes e job (Some i) c)"
proof -
  obtain ok job1 where wr: "slot_write_body e job i (recv_of job c) = (ok, job1)" by fastforce
  note W = slot_write_body_inv [OF inv w i use str feed wr]
  have inv1: "job_inv cl R job1" and w1: "writable job1" and i1: "i < length (j_slots job1)"
    and u1: "cs_in_use (slot_at job1 i)" using W i use slot_moved_sel(1) [of "slot_at job i" "slot_at job1 i"] by auto
  obtain returned job2 where re: "slot_reservation_end e job1 i c = (returned, job2)" by fastforce
  note E = reservation_end_inv [OF inv1 w1 i1 u1 re]
  have "job_inv cl R (after_body_bytes e (clear_recv c job2) (Some i) c)" if "\<not> returned"
    using E(1) E(2) [OF that] i1 by (intro after_body_inv) (auto intro: inv_clear_recv)
  then show ?thesis using inv1 E(1) by (auto simp: store_body_bytes_def wr re Let_def intro: inv_request_close)
qed

subsection \<open>Headers of a range response\<close>

text \<open>What the safety of a range response rests on: the response is a redirect, a rejection of the
  range, or a 206 whose body starts with the bytes of the resource at the start of the slot's
  range; the body has no transfer encoding.\<close>

definition range_response :: "(nat \<Rightarrow> char) \<Rightarrow> DownloadJob \<Rightarrow> nat \<Rightarrow> nat \<Rightarrow> http_message \<Rightarrow> bool" where
  "range_response R job i c hm \<longleftrightarrow> http_is_redirect (hm_status hm) \<or> hm_status hm = 416
     \<or> hm_status hm = 206 \<and> hm_header hm ''Transfer-Encoding'' = None
       \<and> bytes_match R (unat (cs_range_start (slot_at job i)))
           (take (buffered_http_body job c hm) (drop (hm_head_len hm) (recv_of job c)))"

lemma inv_state_fields [simp]:
  "job_inv cl R (job\<lparr>j_state := (j_state job)\<lparr>ds_description := x\<rparr>\<rparr>) = job_inv cl R job"
  "job_inv cl R (job\<lparr>j_state := (j_state job)\<lparr>ds_etag := y, ds_last_modified := z\<rparr>\<rparr>) = job_inv cl R job"
  "job_inv cl R (job\<lparr>j_state := (j_state job)\<lparr>ds_filename := a, ds_temp_path := b, ds_dest_path := d,
      ds_filename_inferred := g\<rparr>\<rparr>) = job_inv cl R job"
  by (rule job_inv_state; simp add: same_ranges_def)+

lemma inv_more_fields [simp]:
  "job_inv cl R (job\<lparr>j_current_url := u\<rparr>) = job_inv cl R job"
  "job_inv cl R (job\<lparr>j_redirect_count := k\<rparr>) = job_inv cl R job"
  "job_inv cl R job \<Longrightarrow> job_inv cl R (job\<lparr>j_streaming := False\<rparr>)"
  "job_inv cl R (job\<lparr>j_pending_segment_enable := b\<rparr>) = job_inv cl R job"
  "job_inv cl R (job\<lparr>j_failed := b\<rparr>) = job_inv cl R job"
  "job_inv cl R (job\<lparr>j_error := er\<rparr>) = job_inv cl R job"
  by (simp_all add: job_inv_def)

lemma inv_redirected:
  "job_inv cl R job \<Longrightarrow> job_inv cl R (job\<lparr>j_current_url := u, j_redirect_count := k, j_headers_received := False,
     j_request_sent := False, j_streaming := False\<rparr>)"
  by (simp add: job_inv_def)

lemma inv_redirect: "job_inv cl R job \<Longrightarrow> job_inv cl R (snd (handle_redirect mg job c hm))"
  unfolding handle_redirect_def Let_def
  by (auto intro!: inv_request_close inv_set_error inv_redirected split: option.splits)

lemma inv_stopped:
  assumes "job_inv True R job"
  shows "job_inv cl R (job\<lparr>j_streaming := False, j_done := True, j_failed := b, j_error := er,
     j_state := (j_state job)\<lparr>ds_description := d\<rparr>\<rparr>)"
  using core_inv_same_ranges [of "j_state job" "(j_state job)\<lparr>ds_description := d\<rparr>"] assms
  by (simp add: job_inv_def same_ranges_def)

lemma inv_resume_unsupported: "job_inv cl R job \<Longrightarrow> job_inv cl R (handle_resume_unsupported e job)"
  unfolding handle_resume_unsupported_def Let_def split_beta
  by (intro inv_upsert inv_stopped close_inv)

lemma inv_partial_progress: "job_inv cl R job \<Longrightarrow> job_inv cl R (snd (job_has_partial_progress e job))"
  by (auto simp: job_has_partial_progress_def existing_file_size_def)


lemma inv_clear_keep_alive [inv_intros]: "job_inv cl R job \<Longrightarrow> job_inv cl R (clear_keep_alive slot job)"
  by (auto simp: clear_keep_alive_def slot_shrinks_def intro!: inv_shrunk_slot split: option.splits)

lemma inv_note_connection: "job_inv cl R job \<Longrightarrow> job_inv cl R (note_connection_header slot hm job)"
  by (auto simp: note_connection_header_def Let_def intro: inv_clear_keep_alive split: option.splits)

lemma inv_reset_retry [inv_intros]: "job_inv cl R job \<Longrightarrow> job_inv cl R (reset_retry_count_on_success job)"
  by (simp add: reset_retry_count_on_success_def)

lemma inv_named:
  assumes "job_inv cl R job"
  shows "job_inv cl R (job\<lparr>j_tick := n, j_filename := f, j_temp_path := tp, j_dest_path := dp,
     j_state := (j_state job)\<lparr>ds_filename := f, ds_temp_path := tp, ds_dest_path := dp, ds_filename_inferred := g\<rparr>,
     j_filename_inferred := g\<rparr>)"
  using core_inv_same_ranges [of "j_state job" "(j_state job)\<lparr>ds_filename := f, ds_temp_path := tp, ds_dest_path := dp,
      ds_filename_inferred := g\<rparr>"] assms
  by (simp add: job_inv_def same_ranges_def)

lemma inv_apply_filename: "job_inv cl R job \<Longrightarrow> job_inv cl R (snd (apply_filename_from_headers mg e job hm))"
  unfolding apply_filename_from_headers_def Let_def by (intro inv_intros inv_named) auto

lemma inv_validators: "job_inv cl R job \<Longrightarrow> job_inv cl R (note_validators hm job)"
  by (auto simp: note_validators_def Let_def split: option.splits)

lemma inv_content_range: "job_inv cl R job \<Longrightarrow> note_content_range hm job = job"
  using job_inv_wf [of cl R job] by (auto simp: note_content_range_def segments_fit_def split: option.splits)

lemma inv_content_length:
  assumes "job_inv cl R job" shows "job_inv cl R (note_content_length (Some i) hm job)"
  using assms
  by (auto simp: note_content_length_def Let_def slot_shrinks_def job_inv_def [of cl R job] split: option.splits
      intro!: inv_shrunk_slot [OF assms])

lemma inv_assume_length:
  assumes "job_inv cl R job" "i < length (j_slots job)" "cs_in_use (slot_at job i)"
  shows "assume_range_length (Some i) job = job"
  using inv_slot_at [OF assms(1,2)] assms(3) by (simp add: assume_range_length_def slot_inv_def)


text \<open>The steps that read the headers leave the connection and the range of the slot alone.\<close>

definition same_feed :: "nat \<Rightarrow> nat \<Rightarrow> DownloadJob \<Rightarrow> DownloadJob \<Rightarrow> bool" where
  "same_feed i c job job' \<longleftrightarrow> j_conns job' = j_conns job \<and> length (j_slots job') = length (j_slots job)
     \<and> (i < length (j_slots job) \<longrightarrow> cs_in_use (slot_at job' i) = cs_in_use (slot_at job i)
          \<and> cs_range_start (slot_at job' i) = cs_range_start (slot_at job i))
     \<and> j_handed job' = j_handed job \<and> j_file_open job' = j_file_open job \<and> j_step job' = j_step job"

lemma same_feed_refl [simp]: "same_feed i c job job"
  by (simp add: same_feed_def)

lemma same_feed_trans: "same_feed i c a b \<Longrightarrow> same_feed i c b d \<Longrightarrow> same_feed i c a d"
  by (simp add: same_feed_def)

lemma same_feed_put:
  assumes "cs_in_use s = cs_in_use (slot_at job i)" "cs_range_start s = cs_range_start (slot_at job i)"
  shows "same_feed i c job (put_slot i s job)"
  using assms by (simp add: same_feed_def put_slot_def slot_at_def)

lemma same_feed_headers:
  "same_feed i c job (clear_keep_alive (Some i) job)" "same_feed i c job (note_connection_header (Some i) hm job)"
  "same_feed i c job (reset_retry_count_on_success job)" "same_feed i c job (note_validators hm job)"
  "same_feed i c job (note_content_length (Some i) hm job)"
  "same_feed i c job (snd (apply_filename_from_headers mg e job hm))"
proof -
  show k: "same_feed i c job (clear_keep_alive (Some i) job)" for job
    by (simp add: clear_keep_alive_def same_feed_put)
  show "same_feed i c job (note_connection_header (Some i) hm job)"
    by (auto simp: note_connection_header_def Let_def intro: k same_feed_trans [OF k k] split: option.splits)
  show "same_feed i c job (reset_retry_count_on_success job)"
    by (simp add: reset_retry_count_on_success_def same_feed_def slot_at_def)
  show "same_feed i c job (note_validators hm job)"
    by (auto simp: note_validators_def Let_def same_feed_def slot_at_def split: option.splits)
  show "same_feed i c job (note_content_length (Some i) hm job)"
    by (auto simp: note_content_length_def Let_def same_feed_def put_slot_def slot_at_def split: option.splits)
  show "same_feed i c job (snd (apply_filename_from_headers mg e job hm))"
    by (auto simp: apply_filename_from_headers_def Let_def same_feed_def slot_at_def split: option.splits)
qed

lemma begin_chunk_inv:
  assumes inv: "job_inv cl R job" and w: "writable job" and i: "i < length (j_slots job)"
    and use: "cs_in_use (slot_at job i)"
    and body: "bytes_match R (unat (cs_range_start (slot_at job i)))
           (take (buffered_http_body job c hm) (drop (hm_head_len hm) (recv_of job c)))"
  shows "job_inv cl R (begin_chunk_body e job (Some i) c hm)"
proof -
  let ?s = "(slot_at job i)\<lparr>cs_streaming := True, cs_chunk_write_offset := cs_range_start (slot_at job i), cs_chunk_received := 0\<rparr>"
  define job1 where "job1 = touch_slot_activity e (put_slot i ?s job) i"
  have inv1: "job_inv cl R job1" unfolding job1_def
    by (intro inv_touch inv_shrunk_slot [OF inv]) (auto simp: slot_inv_def slot_shrinks_def word_le_nat_alt)
  have r: "writable job1" "i < length (j_slots job1)" "cs_in_use (slot_at job1 i)" "cs_streaming (slot_at job1 i)"
      "recv_of job1 c = recv_of job c" "slot_pos (slot_at job1 i) = unat (cs_range_start (slot_at job i))"
    using w i use by (auto simp: job1_def writable_def touch_slot_activity_def mg_millis_def
        put_slot_def slot_at_def recv_of_def)
  have bb: "buffered_http_body job1 c hm = buffered_http_body job c hm"
    by (simp only: buffered_http_body_def r(5))
  define n where "n = buffered_http_body job c hm"
  have tail: "job_inv cl R (dm_item_upsert e (print_progress e (consume_recv c k j)) ''downloading'')"
    if "job_inv cl R j" for j k using that by (intro inv_intros)
  have d: "begin_chunk_body e job (Some i) c hm =
     (let (ok, job) = (if n = 0 then (True, job1) else slot_write_body e job1 i (body_bytes job1 c hm n))
      in if \<not> ok then upd_conn c (\<lambda>m. m\<lparr>mc_is_draining := True\<rparr>) job
         else dm_item_upsert e (print_progress e (consume_recv c (hm_head_len hm + n) job)) ''downloading'')"
    unfolding begin_chunk_body_def option.case Let_def job1_def [symmetric] bb n_def [symmetric] ..
  show ?thesis
  proof (cases "n = 0")
    case True
    then show ?thesis unfolding d using tail [OF inv1] by simp
  next
    case False
    obtain ok job2 where wr: "slot_write_body e job1 i (body_bytes job1 c hm n) = (ok, job2)" by fastforce
    have "feed_ok R (slot_at job1 i) (body_bytes job1 c hm n)"
      using body r(5,6) by (simp add: feed_ok_def body_bytes_def n_def)
    note W = slot_write_body_inv [OF inv1 r(1-4) this wr]
    then show ?thesis unfolding d using False wr tail [of job2] inv_upd_conn [of cl R job2] by simp
  qed
qed


lemma same_feed_writable: "same_feed i c job job' \<Longrightarrow> writable job' = writable job"
  by (simp add: same_feed_def writable_def)

lemma same_feed_sel:
  assumes "same_feed i c job job'" "i < length (j_slots job)"
  shows "i < length (j_slots job')" "cs_in_use (slot_at job' i) = cs_in_use (slot_at job i)"
    "cs_range_start (slot_at job' i) = cs_range_start (slot_at job i)" "recv_of job' c = recv_of job c"
    "buffered_http_body job' c hm = buffered_http_body job c hm"
  using assms by (auto simp: same_feed_def recv_of_def buffered_http_body_def)

lemma response_headers_inv:
  assumes inv: "job_inv cl R job" and w: "writable job" and i: "i < length (j_slots job)"
    and resp: "range_response R job i c hm"
  shows "job_inv cl R (handle_response_headers mg e job (Some i) c hm)"
proof (cases "\<not> cs_in_use (slot_at job i) \<or> cs_conn (slot_at job i) \<noteq> Some c")
  case True
  then show ?thesis using inv_request_close [OF inv] by (simp add: handle_response_headers_def)
next
  case False
  then have own: "(\<not> cs_in_use (slot_at job i) \<or> cs_conn (slot_at job i) \<noteq> Some c) = False" by blast
  let ?j0 = "put_slot i ((slot_at job i)\<lparr>cs_headers_received := True\<rparr>) job"
  have inv0: "job_inv cl R ?j0" using inv by (rule inv_shrunk_slot) (simp_all add: slot_shrinks_def)
  have f0: "same_feed i c job ?j0" by (rule same_feed_put) simp_all
  obtain redirected job1 where rd: "handle_redirect mg ?j0 c hm = (redirected, job1)" by fastforce
  have inv1: "job_inv cl R job1" using inv_redirect [OF inv0, of mg c hm] rd by simp
  show ?thesis
  proof (cases "redirected \<or> hm_status hm = 416")
    case True
    have step: "j_step job1 = DL_STEP_CHUNK" using inv1 by (simp add: job_inv_def)
    have fin: "job_inv cl R (snd (finalize_download e job1))" if "download_state_all_chunks_done (j_state job1)"
      by (rule inv_finalize [OF inv1 all_done_complete [OF inv1 that]])
    have part: "job_inv cl R (let (partial, job) = job_has_partial_progress e job1
        in if partial then handle_resume_unsupported e job else set_error ErrRangeRejected job)"
      using inv_partial_progress [OF inv1, of e]
      by (auto simp: split_beta intro: inv_resume_unsupported inv_set_error)
    have eq: "handle_response_headers mg e job (Some i) c hm = (if redirected then job1
        else request_close (if download_state_all_chunks_done (j_state job1) then snd (finalize_download e job1)
          else let (partial, job) = job_has_partial_progress e job1
               in if partial then handle_resume_unsupported e job else set_error ErrRangeRejected job) c False)"
      unfolding handle_response_headers_def option.case own if_False Let_def rd split_conv
      using True step by (cases redirected) (simp_all only: if_True if_False simp_thms)
    show ?thesis unfolding eq using inv1 fin part by (auto intro: inv_request_close)
  next
    case plain: False
    have j1: "job1 = ?j0" using rd plain by (auto simp: handle_redirect_def split: if_splits option.splits)
    have status: "hm_status hm = 206" "hm_header hm ''Transfer-Encoding'' = None" and
      body: "bytes_match R (unat (cs_range_start (slot_at job i)))
           (take (buffered_http_body job c hm) (drop (hm_head_len hm) (recv_of job c)))"
      using resp plain rd by (auto simp: range_response_def handle_redirect_def split: if_splits option.splits)
    define job2 where "job2 = note_connection_header (Some i) hm (reset_retry_count_on_success job1)"
    have inv2: "job_inv cl R job2" unfolding job2_def by (intro inv_note_connection inv_reset_retry inv1)
    have f2: "same_feed i c job job2" unfolding job2_def j1
      by (rule same_feed_trans [OF f0 same_feed_trans [OF same_feed_headers(3) same_feed_headers(2)]])
    obtain named job3 where nm: "apply_filename_from_headers mg e job2 hm = (named, job3)" by fastforce
    have inv3: "job_inv cl R job3" using inv_apply_filename [OF inv2, of mg e hm] nm by simp
    have f3: "same_feed i c job job3"
      using same_feed_trans [OF f2 same_feed_headers(6) [of i c job2 mg e hm]] nm by simp
    define job4 where "job4 = note_validators hm job3"
    have inv4: "job_inv cl R job4" unfolding job4_def by (rule inv_validators [OF inv3])
    define job5 where "job5 = note_content_length (Some i) hm (note_content_range hm job4)"
    have inv5: "job_inv cl R job5" unfolding job5_def inv_content_range [OF inv4] by (rule inv_content_length [OF inv4])
    have f4: "same_feed i c job job4" unfolding job4_def by (rule same_feed_trans [OF f3 same_feed_headers(4)])
    have f5: "same_feed i c job job5" unfolding job5_def inv_content_range [OF inv4]
      by (rule same_feed_trans [OF f4 same_feed_headers(5)])
    note S = same_feed_sel [OF f5 i]
    have u5: "cs_in_use (slot_at job5 i)" using S(2) False by simp
    have ass: "assume_range_length (Some i) job5 = job5" by (rule inv_assume_length [OF inv5 S(1) u5])
    have w5: "writable job5" using w same_feed_writable [OF f5] by simp
    have fin: "job_inv cl R (begin_chunk_body e job5 (Some i) c hm)"
      by (rule begin_chunk_inv [OF inv5 w5 S(1) u5]) (use body S in simp)
    have steps: "j_step job1 = DL_STEP_CHUNK" "j_step job4 = DL_STEP_CHUNK" "j_step job5 = DL_STEP_CHUNK"
      using inv1 inv4 inv5 by (auto simp: job_inv_def)
    have r: "redirected = False" using plain by simp
    have codes: "(206::int) \<noteq> 416" "\<not> (206::int) < 200" "\<not> (206::int) \<ge> 300" "(206::int) \<noteq> 200"
        "DL_STEP_CHUNK \<noteq> DL_STEP_STREAM" by simp_all
    have eq: "handle_response_headers mg e job (Some i) c hm = (if \<not> named then request_close (set_error ErrApplyFilename job3) c False
        else begin_chunk_body e job5 (Some i) c hm)"
      unfolding handle_response_headers_def option.case own if_False Let_def rd split_conv r
        job2_def [symmetric] nm job4_def [symmetric] status steps job5_def [symmetric]
      by (simp only: codes simp_thms if_False if_True steps job5_def [symmetric] ass)
    show ?thesis unfolding eq using inv3 fin by (auto intro: inv_request_close inv_set_error)
  qed
qed

lemma try_parse_inv:
  assumes inv: "job_inv cl R job" and w: "writable job" and i: "i < length (j_slots job)"
    and resp: "\<And>hm. ma_http_parse mg (recv_of job c) = Some hm \<Longrightarrow> range_response R job i c hm"
  shows "job_inv cl R (snd (try_parse_pending_response mg e job (Some i) c))"
proof (cases "cs_headers_received (slot_at job i) \<or> recv_of job c = []")
  case True
  then show ?thesis using inv by (auto simp: try_parse_pending_response_def)
next
  case False
  show ?thesis
  proof (cases "ma_http_parse mg (recv_of job c)")
    case None
    then show ?thesis using False inv by (simp add: try_parse_pending_response_def)
  next
    case (Some hm)
    let ?j = "put_slot i ((slot_at job i)\<lparr>cs_headers_received := True\<rparr>) job"
    have invj: "job_inv cl R ?j" using inv by (rule inv_shrunk_slot) (simp_all add: slot_shrinks_def)
    have f: "same_feed i c job ?j" by (rule same_feed_put) simp_all
    have "range_response R ?j i c hm"
      using resp [OF Some] same_feed_sel [OF f i] by (simp add: range_response_def)
    then have "job_inv cl R (handle_response_headers mg e ?j (Some i) c hm)"
      using response_headers_inv [OF invj] w i same_feed_writable [OF f] same_feed_sel(1) [OF f i] by blast
    then show ?thesis using False Some by (simp add: try_parse_pending_response_def Let_def)
  qed
qed

lemma on_read_inv:
  assumes inv: "job_inv cl R job" and w: "writable job" and i: "i < length (j_slots job)"
    and use: "cs_in_use (slot_at job i)" and feed: "feeds R job i c"
    and resp: "\<And>hm. \<not> cs_headers_received (slot_at job i) \<Longrightarrow> ma_http_parse mg (recv_of job c) = Some hm
      \<Longrightarrow> range_response R job i c hm"
  shows "job_inv cl R (on_read mg e job (Some i) c)"
proof -
  let ?s = "slot_at job i"
  have drain: "job_inv cl R (drain_response e job i c)" by (rule drain_response_inv [OF inv w i use])
  have store: "cs_streaming ?s \<Longrightarrow> job_inv cl R (store_body_bytes e job (Some i) c)"
    using feed by (intro store_body_inv inv w i use) (simp_all add: feeds_def)
  obtain parsed job1 where p: "try_parse_pending_response mg e job (Some i) c = (parsed, job1)" by fastforce
  show ?thesis
  proof (cases "cs_request_sent ?s \<and> \<not> cs_headers_received ?s \<and> \<not> cs_streaming ?s \<and> recv_of job c \<noteq> [] \<and> parsed")
    case True
    have "job_inv cl R job1" using try_parse_inv [OF inv w i, of mg c e] resp True p by simp
    then show ?thesis using True p by (simp add: on_read_def Let_def)
  next
    case False
    have same: "job1 = job" if "\<not> parsed" using p that
      by (auto simp: try_parse_pending_response_def Let_def split: if_splits option.splits)
    show ?thesis
    proof (cases "cs_request_sent ?s \<and> \<not> cs_headers_received ?s \<and> \<not> cs_streaming ?s \<and> recv_of job c \<noteq> []")
      case True
      then have np: "\<not> parsed" using False by blast
      then show ?thesis using True p same [OF np] inv drain store by (simp add: on_read_def Let_def)
    next
      case False
      then show ?thesis using inv drain store by (auto simp: on_read_def Let_def)
    qed
  qed
qed


subsection \<open>A closed connection\<close>

lemma inv_pending_off: "job_inv cl R job \<Longrightarrow> job_inv cl R (job\<lparr>j_pending_schedule := False\<rparr>)"
  by simp

lemma closed_inv:
  assumes inv: "job_inv cl R job" and w: "\<not> j_done job \<Longrightarrow> writable job" and i: "i < length (j_slots job)"
    and feed: "feeds R job i c"
    and hd: "cs_headers_received (slot_at job i) \<or> recv_of job c = [] \<or> ma_http_parse mg (recv_of job c) = None"
  shows "job_inv cl R (on_connection_closed mg e job (Some i) c)"
proof (cases "j_done job \<or> j_failed job \<or> \<not> cs_in_use (slot_at job i) \<or> cs_conn (slot_at job i) \<noteq> Some c")
  case True
  then show ?thesis using inv by (auto simp: on_connection_closed_def)
next
  case False
  let ?s = "slot_at job i"
  have use: "cs_in_use ?s" and own: "(\<not> cs_in_use ?s \<or> cs_conn ?s \<noteq> Some c) = False"
    and live: "(j_done job \<or> j_failed job) = False" using False by auto
  have np: "(if \<not> cs_headers_received ?s then snd (try_parse_pending_response mg e job (Some i) c) else job) = job"
    using hd by (auto simp: try_parse_pending_response_def)
  define job1 where "job1 = flush_recv_body e job (Some i) c"
  have wr: "writable job" using w False by blast
  note F = flush_inv [OF inv wr i use feed job1_def]
  have inv1: "job_inv cl R job1" and w1: "writable job1" and i1: "i < length (j_slots job1)"
    and u1: "cs_in_use (slot_at job1 i)" and f1: "feeds R job1 i c"
    using F i use slot_moved_sel(1) [of ?s "slot_at job1 i"] by auto
  have step1: "j_step job1 = DL_STEP_CHUNK" and seg1: "j_segment_mode job1" using inv1 by (auto simp: job_inv_def)
  obtain completed job2 where cc: "complete_chunk_slot e job1 i c = (completed, job2)" by fastforce
  have inv2: "job_inv cl R job2" using complete_slot_inv [OF inv1 w1 i1 u1 f1, of e] cc by simp
  have fail: "job_inv cl R (note_segment_failure e (chunk_slot_release job2 i))"
    by (intro inv_note_failure inv_release inv2)
  have done2: "job_inv cl R (if download_state_all_chunks_done (j_state job2) then snd (finalize_download e job2)
      else job2\<lparr>j_schedule_deferred := True\<rparr>)"
    using inv_finalize [OF inv2 all_done_complete [OF inv2]] inv2 by simp
  have rel: "job_inv cl R (chunk_slot_release job1 i)" by (intro inv_release inv1)
  have segm: "j_segment_mode (chunk_slot_release job1 i)" using rel by (simp add: job_inv_def)
  have late: "job_inv cl R (if download_state_all_chunks_done (j_state (chunk_slot_release job1 i))
      then snd (finalize_download e (chunk_slot_release job1 i)) else note_segment_failure e (chunk_slot_release job1 i))"
    using inv_finalize [OF rel all_done_complete [OF rel]] inv_note_failure [OF rel] by simp
  have eq: "on_connection_closed mg e job (Some i) c =
     (if j_pending_schedule job1
      then (chunk_slot_release (job1\<lparr>j_pending_schedule := False\<rparr>) i)\<lparr>j_schedule_deferred := True\<rparr>
      else if cs_headers_received ?s \<and> (cs_streaming ?s \<or> cs_chunk_received (slot_at job1 i) > 0)
      then (if \<not> completed then note_segment_failure e (chunk_slot_release job2 i)
            else if download_state_all_chunks_done (j_state job2) then snd (finalize_download e job2)
            else job2\<lparr>j_schedule_deferred := True\<rparr>)
      else if download_state_all_chunks_done (j_state (chunk_slot_release job1 i))
      then snd (finalize_download e (chunk_slot_release job1 i))
      else note_segment_failure e (chunk_slot_release job1 i))"
    unfolding on_connection_closed_def option.case live own if_False Let_def np job1_def [symmetric] step1 cc split_conv
    using step1 segm by (cases completed) (simp_all only: if_True if_False simp_thms split_conv DlStep.distinct)
  show ?thesis unfolding eq
    using inv1 fail done2 late inv_release [OF inv_pending_off [OF inv1], of i] by simp
qed

subsection \<open>Scheduling\<close>

lemma first_free_Some: "first_free ss i = Some k \<Longrightarrow> i \<le> k \<and> k - i < length ss \<and> \<not> cs_in_use (ss ! (k - i))"
proof (induction ss i rule: first_free.induct)
  case (2 s ss i)
  show ?case
  proof (cases "cs_in_use s")
    case True
    then have k: "Suc i \<le> k" "k - Suc i < length ss" "\<not> cs_in_use (ss ! (k - Suc i))" using 2 by auto
    then have "k - i = Suc (k - Suc i)" by simp
    then show ?thesis using k by simp
  next
    case False
    then show ?thesis using 2(2) by auto
  qed
qed simp

lemma acquire_inv:
  assumes inv: "job_inv cl R job" and free: "free_range job None r"
    and r: "chunk_slot_acquire e job (br_start r) (br_end r) = (Some i, job')"
  shows "job_inv cl R job'" and "free_range job None q \<Longrightarrow> range_bytes q \<inter> range_bytes r = {} \<Longrightarrow> free_range job' None q"
proof -
  obtain t job1 where m: "mg_millis e job = (t, job1)" by fastforce
  have j1: "job1 = job\<lparr>j_tick := Suc (j_tick job)\<rparr>" using m by (simp add: mg_millis_def)
  let ?s = "empty_slot\<lparr>cs_in_use := True, cs_range_start := br_start r, cs_range_end := br_end r,
      cs_reserved_end := br_end r, cs_continuous := j_segment_mode job1, cs_keep_alive := j_segment_mode job1,
      cs_last_activity_ms := t\<rparr>"
  have ff: "first_free (j_slots job) 0 = Some i" "job' = put_slot i ?s job1"
    using r m by (auto simp: chunk_slot_acquire_def split: option.splits)
  then have i: "i < length (j_slots job)" using first_free_Some [of "j_slots job" 0 i] by auto
  have inv1: "job_inv cl R job1" using inv j1 by simp
  have free1: "free_range job1 (Some i) r" using free j1 by (simp add: free_range_def)
  have seg: "j_segment_mode job1" using inv1 by (simp add: job_inv_def)
  have "slot_inv R (j_state job1) (j_handed job1) ?s"
    by (rule fresh_slot_inv [of _ r]) (use seg free1 in \<open>simp_all add: free_range_def empty_slot_def\<close>)
  then show "job_inv cl R job'" unfolding ff(2) by (rule inv_put_free [OF inv1 _ free1]) simp_all
  show "free_range job' None q" if "free_range job None q" "range_bytes q \<inter> range_bytes r = {}"
    using that ff(2) i by (auto simp: free_range_def j1 put_slot_def nth_list_update range_bytes_def)
qed

lemma connect_inv:
  assumes "job_inv cl R job" shows "job_inv cl R (snd (dl_connect e job (Some i)))"
  using assms by (auto simp: dl_connect_def Let_def slot_shrinks_def split: option.splits
      intro!: inv_set_error inv_shrunk_slot inv_upd_conn)

lemma free_range_put:
  assumes free: "free_range job None q" and s: "slot_shrinks (slot_at job i) s"
  shows "free_range (put_slot i s job) None q"
proof -
  have "range_bytes q \<inter> slot_range ((j_slots job)[i := s] ! j) = {}"
    if "j < length (j_slots job)" "cs_in_use ((j_slots job)[i := s] ! j)" for j
    using that free s by (cases "i = j") (auto simp: free_range_def slot_shrinks_def slot_at_def)
  then show ?thesis using free by (simp add: free_range_def put_slot_def)
qed

lemma free_range_connect:
  assumes free: "free_range job None q" shows "free_range (snd (dl_connect e job (Some i))) None q"
proof (cases "e_connect e (j_tick job)")
  case None
  then show ?thesis using free by (simp add: dl_connect_def free_range_def set_error_def)
next
  case (Some c)
  let ?j = "upd_conn c (\<lambda>_. \<lparr>mc_recv = [], mc_is_draining = False, mc_data0 = False\<rparr>) (job\<lparr>j_tick := Suc (j_tick job)\<rparr>)"
  have "free_range ?j None q" using free by (simp add: free_range_def upd_conn_def)
  then show ?thesis using Some by (simp add: dl_connect_def Let_def free_range_put slot_shrinks_def)
qed

lemma free_range_release: "free_range job None q \<Longrightarrow> free_range (chunk_slot_release job i) None q"
  unfolding chunk_slot_release_def by (rule free_range_put) (simp_all add: slot_shrinks_def)

lemma connect_selected_inv:
  assumes "job_inv cl R job" "\<And>r. r \<in> set rs \<Longrightarrow> free_range job None r"
    and "\<And>a b. a < b \<Longrightarrow> b < length rs \<Longrightarrow> range_bytes (rs ! a) \<inter> range_bytes (rs ! b) = {}"
  shows "job_inv cl R (connect_selected e rs job)"
  using assms
proof (induction rs arbitrary: job)
  case (Cons r rs)
  obtain k job1 where a: "chunk_slot_acquire e job (br_start r) (br_end r) = (k, job1)" by fastforce
  show ?case
  proof (cases k)
    case None
    then have "job1 = job" using a by (auto simp: chunk_slot_acquire_def split_beta split: option.splits)
    then show ?thesis using None a Cons.prems(1) by simp
  next
    case (Some i)
    note A = acquire_inv [OF Cons.prems(1) Cons.prems(2) [of r], of e i job1]
    obtain ok job2 where c: "dl_connect e job1 (Some i) = (ok, job2)" by fastforce
    let ?j = "if ok then job2 else chunk_slot_release job2 i"
    have inv2: "job_inv cl R ?j" using connect_inv [OF A(1), of e i] a Some c by (auto intro: inv_release)
    have disj: "range_bytes q \<inter> range_bytes r = {}" if q: "q \<in> set rs" for q
    proof -
      obtain m where "m < length rs" "q = rs ! m" using q by (auto simp: in_set_conv_nth)
      then show ?thesis using Cons.prems(3) [of 0 "Suc m"] by (auto simp: Int_commute)
    qed
    have fr: "free_range ?j None q" if q: "q \<in> set rs" for q
    proof -
      have "free_range job1 None q" using A(2) [OF _ _ Cons.prems(2) [of q] disj [OF q]] a Some q by simp
      then have "free_range job2 None q" using free_range_connect [of job1 q e i] c by simp
      then show ?thesis by (simp add: free_range_release)
    qed
    have "job_inv cl R (connect_selected e rs ?j)"
      by (rule Cons.IH [OF inv2 fr]) (use Cons.prems(3) [of "Suc a" "Suc b" for a b] in auto)
    then show ?thesis using a Some c by simp
  qed
qed simp

lemma schedule_inv:
  assumes inv: "job_inv cl R job" shows "job_inv cl R (schedule_next e job)"
proof -
  have con: "job_inv cl R (connect_selected e
      (segment_select_chunks (j_seg_cfg job) (j_state job) m (Some (range_in_flight_predicate job None))) job)" for m
    by (rule connect_selected_inv [OF inv]) (rule selected_ranges_free [OF inv], assumption,
        rule selected_ranges_distinct [OF inv refl])
  have "job_inv cl R (schedule_pending_chunks e job)"
    unfolding schedule_pending_chunks_def Let_def
    using inv inv_finalize [OF inv all_done_complete [OF inv]] con by simp
  then show ?thesis using inv by (auto simp: schedule_next_def job_inv_def)
qed


subsection \<open>The event handler\<close>

lemma inv_net_error: "job_inv cl R job \<Longrightarrow> job_inv cl R (mg_error e slot c msg job)"
  unfolding mg_error_def handle_error_def Let_def
  by (auto intro!: inv_upsert inv_set_error)

lemma inv_poll: "job_inv cl R job \<Longrightarrow> job_inv cl R (handle_poll e fl job slot c)"
  unfolding handle_poll_def by (intro inv_intros inv_net_error)

lemma inv_open: "job_inv cl R job \<Longrightarrow> job_inv cl R (handle_open e job)"
  by (simp add: handle_open_def mg_millis_def Let_def)

lemma inv_send_all [inv_intros]: "job_inv cl R job \<Longrightarrow> job_inv cl R (mg_send_all c out job)"
  by (simp add: mg_send_all_def)

lemma inv_tls [inv_intros]: "job_inv cl R job \<Longrightarrow> job_inv cl R (init_download_tls c job)"
  by (simp add: init_download_tls_def)

lemma inv_reset_connection:
  assumes "job_inv cl R job" shows "job_inv cl R (reset_connection job (Some i) c)"
proof -
  have "job_inv cl R (put_slot i ((slot_at j i)\<lparr>cs_headers_received := False, cs_request_sent := False,
      cs_streaming := False\<rparr>) j)" if "job_inv cl R j" for j
    using that by (rule inv_shrunk_slot) (auto simp: slot_inv_def slot_shrinks_def)
  then show ?thesis using assms by (simp add: reset_connection_def Let_def inv_upd_conn)
qed

lemma inv_request_slot:
  assumes "job_inv cl R job" shows "job_inv cl R (send_request_for_slot e job c (Some i))"
proof -
  define job1 where "job1 = upd_conn c (\<lambda>m. m\<lparr>mc_data0 := True\<rparr>) job"
  define job2 where "job2 = touch_slot_activity e (put_slot i ((slot_at job1 i)\<lparr>cs_request_sent := True\<rparr>) job1) i"
  have inv2: "job_inv cl R job2" unfolding job2_def job1_def
    by (intro inv_touch inv_shrunk_slot inv_upd_conn assms) (simp_all add: slot_shrinks_def)
  then have "j_step job2 = DL_STEP_CHUNK" by (simp add: job_inv_def)
  then show ?thesis using assms inv2
    by (simp add: send_request_for_slot_def Let_def job1_def [symmetric] job2_def [symmetric] inv_send_request)
qed

lemma inv_connect:
  assumes "job_inv cl R job" shows "job_inv cl R (snd (handle_connect ua e fl ctx job (Some i) c))"
  using inv_reset_connection [OF assms, of i c]
  by (auto simp: handle_connect_def Let_def split_beta intro: inv_send_all inv_tls inv_request_slot)

lemma inv_tunnel: "job_inv cl R job \<Longrightarrow> job_inv cl R (tunnel_open e job (Some i) c)"
  by (auto simp: tunnel_open_def Let_def intro: inv_tls inv_request_slot inv_clear_recv)

lemma inv_proxy_read:
  assumes "job_inv cl R job" shows "job_inv cl R (snd (handle_proxy_read ua e ctx job (Some i) c))"
  using assms
  by (auto simp: handle_proxy_read_def Let_def split_beta intro!: inv_tunnel inv_send_all inv_request_close inv_set_error)

lemma inv_error: "job_inv cl R job \<Longrightarrow> job_inv cl R (handle_error e job slot msg)"
  by (auto simp: handle_error_def intro!: inv_upsert inv_set_error)

text \<open>What the connection of a slot delivers with an event.\<close>

definition delivers :: "mg_api \<Rightarrow> (nat \<Rightarrow> char) \<Rightarrow> DownloadJob \<Rightarrow> nat \<Rightarrow> nat \<Rightarrow> mg_event \<Rightarrow> bool" where
  "delivers mg R job i c ev \<longleftrightarrow> i < length (j_slots job) \<and> (case ev of
       MG_EV_READ \<Rightarrow> cs_in_use (slot_at job i) \<and> feeds R job i c
         \<and> (\<not> cs_headers_received (slot_at job i) \<longrightarrow>
              (case ma_http_parse mg (recv_of job c) of None \<Rightarrow> True | Some hm \<Rightarrow> range_response R job i c hm))
     | MG_EV_HTTP_HDRS hm \<Rightarrow> range_response R job i c hm
     | MG_EV_HTTP_MSG hm \<Rightarrow> cs_headers_received (slot_at job i)
     | MG_EV_CLOSE \<Rightarrow> feeds R job i c
         \<and> (cs_headers_received (slot_at job i) \<or> recv_of job c = [] \<or> ma_http_parse mg (recv_of job c) = None)
     | _ \<Rightarrow> True)"

lemma handler_inv:
  assumes inv: "job_inv False R job" and d: "delivers mg R job i c ev"
  shows "job_inv False R (snd (dl_handler ua mg e fl ctx job (Some i) c ev))"
proof (cases "j_done job")
  case True
  then show ?thesis using inv by (simp add: dl_handler_def)
next
  case False
  then have w: "writable job" using job_inv_writable [OF inv] by blast
  have i: "i < length (j_slots job)" using d by (simp add: delivers_def)
  show ?thesis
  proof (cases ev)
    case (MG_EV_HTTP_HDRS hm)
    then have "range_response R job i c hm" using d by (simp add: delivers_def)
    then show ?thesis using MG_EV_HTTP_HDRS False response_headers_inv [OF inv w i] by (simp add: dl_handler_def)
  next
    case (MG_EV_HTTP_MSG hm)
    then show ?thesis using inv False d by (simp add: dl_handler_def delivers_def on_http_msg_def)
  next
    case MG_EV_READ
    have "job_inv False R (on_read mg e job (Some i) c)"
      using d MG_EV_READ by (intro on_read_inv [OF inv w i]) (auto simp: delivers_def split: option.splits)
    then show ?thesis using MG_EV_READ False inv_proxy_read [OF inv] by (simp add: dl_handler_def)
  next
    case MG_EV_CLOSE
    have "job_inv False R (on_connection_closed mg e job (Some i) c)"
      using d MG_EV_CLOSE w by (intro closed_inv [OF inv]) (auto simp: delivers_def)
    then show ?thesis using MG_EV_CLOSE False by (simp add: dl_handler_def)
  qed (use False inv in \<open>auto simp: dl_handler_def intro: inv_poll inv_open inv_connect inv_request_slot inv_error\<close>)
qed

subsection \<open>Steps and reachable jobs\<close>

text \<open>One step of a segmented download: an event on the connection of a slot, the scheduler, an
  update of the item list, the end by pause or cancellation, or a change of the connections by the
  library.\<close>

inductive job_step :: "url_api \<Rightarrow> mg_api \<Rightarrow> (nat \<Rightarrow> char) \<Rightarrow> env \<Rightarrow> DownloadJob \<Rightarrow> DownloadJob \<Rightarrow> bool"
  for ua mg R e where
  event: "delivers mg R job i c ev \<Longrightarrow> dl_handler ua mg e fl ctx job (Some i) c ev = (ctx', job')
    \<Longrightarrow> job_step ua mg R e job job'"
| schedule: "job_step ua mg R e job (schedule_next e (job\<lparr>j_schedule_deferred := False\<rparr>))"
| upsert: "job_step ua mg R e job (dm_item_upsert e job status)"
| stop: "job_step ua mg R e job (dm_item_upsert e (job\<lparr>j_done := True\<rparr>) status)"
| network: "job_step ua mg R e job (job\<lparr>j_conns := conns\<rparr>)"

inductive_cases job_step_E: "job_step ua mg R e job job'"

lemma step_inv: "job_step ua mg R e job job' \<Longrightarrow> job_inv False R job \<Longrightarrow> job_inv False R job'"
proof (induction rule: job_step.induct)
  case (event job i c ev fl ctx ctx' job')
  then show ?case using handler_inv [of R job mg i c ev ua e fl ctx] by simp
next
  case (schedule job)
  then show ?case by (intro schedule_inv) simp
qed (auto intro: inv_upsert)

inductive reaches :: "url_api \<Rightarrow> mg_api \<Rightarrow> (nat \<Rightarrow> char) \<Rightarrow> env \<Rightarrow> DownloadJob \<Rightarrow> DownloadJob \<Rightarrow> bool"
  for ua mg R e job where
  start: "reaches ua mg R e job job"
| step: "reaches ua mg R e job job' \<Longrightarrow> job_step ua mg R e job' job'' \<Longrightarrow> reaches ua mg R e job job''"

lemma reaches_inv: "reaches ua mg R e job job' \<Longrightarrow> job_inv False R job \<Longrightarrow> job_inv False R job'"
  by (induction rule: reaches.induct) (auto intro: step_inv)

text \<open>A download that starts from nothing in segment mode.\<close>

definition fresh_job :: "DownloadJob \<Rightarrow> bool" where
  "fresh_job job \<longleftrightarrow> segments_fit (j_state job) \<and> ds_done_ranges (j_state job) = []
     \<and> j_slots job \<noteq> [] \<and> length (j_slots job) \<le> 32 \<and> (\<forall>s\<in>set (j_slots job). s = empty_slot)
     \<and> sc_concurrency (j_seg_cfg job) \<noteq> 0 \<and> j_segment_mode job \<and> j_step job = DL_STEP_CHUNK
     \<and> \<not> j_streaming job \<and> j_handed job = (\<lambda>_. None) \<and> j_log job = []"

lemma fresh_inv:
  assumes "fresh_job job" shows "job_inv False R job"
proof -
  have un: "\<not> cs_in_use s" if "s \<in> set (j_slots job)" for s
    using that assms by (auto simp: fresh_job_def)
  have "slots_disjoint (j_slots job)" using un by (simp add: slots_disjoint_def)
  moreover have "state_wf (j_state job)" using assms by (simp add: fresh_job_def state_wf_def ranges_wf_def covered_def)
  ultimately have "core_inv R (j_state job) (j_slots job) (j_handed job)"
    using assms un by (simp add: core_inv_def fresh_job_def covered_def)
  then show ?thesis using assms by (simp add: job_inv_def fresh_job_def moved_file_def)
qed

lemma reachable_inv:
  "fresh_job job0 \<Longrightarrow> reaches ua mg R e job0 job \<Longrightarrow> job_inv False R job"
  using reaches_inv fresh_inv by blast

lemma reachable_complete:
  assumes "fresh_job job0" "reaches ua mg R e job0 job" "EvMoveFile src dst \<in> set (j_log job)"
    "n < unat (ds_total_size (j_state job))"
  shows "j_handed job (of_nat n) = Some (R n)"
  using reachable_inv [OF assms(1,2)] assms(3,4) by (auto simp: job_inv_def moved_file_def content_ok_def)

lemma reachable_separate:
  assumes "fresh_job job0" "reaches ua mg R e job0 job"
    and "i < length (j_slots job)" "k < length (j_slots job)" "i \<noteq> k"
    "cs_in_use (slot_at job i)" "cs_in_use (slot_at job k)"
  shows "slot_range (slot_at job i) \<inter> slot_range (slot_at job k) = {}"
    and "unat (cs_reserved_end (slot_at job i)) < unat (ds_total_size (j_state job))"
    and "\<forall>n\<in>covered (ds_done_ranges (j_state job)). j_handed job (of_nat n) = Some (R n)"
proof -
  have core: "core_inv R (j_state job) (j_slots job) (j_handed job)"
    using reachable_inv [OF assms(1,2)] by (simp add: job_inv_def)
  show "slot_range (slot_at job i) \<inter> slot_range (slot_at job k) = {}"
    using core assms(3-7) slots_disjoint_at [of "j_slots job" i k] by (simp add: core_inv_def slot_at_def)
  have "slot_inv R (j_state job) (j_handed job) (slot_at job i)" using core assms(3) by (simp add: core_inv_def slot_at_def)
  then show "unat (cs_reserved_end (slot_at job i)) < unat (ds_total_size (j_state job))"
    using assms(6) by (simp add: slot_inv_def)
  show "\<forall>n\<in>covered (ds_done_ranges (j_state job)). j_handed job (of_nat n) = Some (R n)"
    using core by (simp add: core_inv_def content_ok_def)
qed


subsection \<open>The properties\<close>



text \<open>A download of two bytes: the scheduler connects, the response brings both bytes, the server
  closes the connection, the file is moved.\<close>

definition sample_job :: "u64 \<Rightarrow> nat \<Rightarrow> DownloadJob" where
  "sample_job n slots = zero_job\<lparr>j_state := calloc_state\<lparr>ds_total_size := n, ds_chunk_size := 4\<rparr>,
     j_slots := replicate slots empty_slot, j_segment_mode := True, j_step := DL_STEP_CHUNK,
     j_use_ranges := True, j_dest_path := Some ''/d/f'', j_temp_path := Some ''/t/f'', j_state_path := Some ''/t/s''\<rparr>"

definition sample_mg :: mg_api where
  "sample_mg = \<lparr>ma_url_host = (\<lambda>u. u), ma_url_decode = (\<lambda>_. None), ma_http_parse = (\<lambda>_. None)\<rparr>"

definition sample_flags :: mg_flags where
  "sample_flags = \<lparr>mf_is_connecting = False, mf_is_resolving = False, mf_is_tls = False, mf_is_tls_hs = False\<rparr>"

definition sample_ctx :: DlConnCtx where
  "sample_ctx = \<lparr>cx_proxy_url = None, cx_proxy_kind = ProxyKindNone, cx_socks = zero_socks,
     cx_use_proxy = False, cx_proxy_tunnel_done = False, cx_proxy_http_forward = False\<rparr>"

definition sample_content :: "nat \<Rightarrow> char" where
  "sample_content n = (if n = 0 then CHR ''h'' else CHR ''i'')"

definition sample_reply :: http_message where
  "sample_reply = \<lparr>hm_status = 206, hm_header = (\<lambda>_. None), hm_head_len = 1, hm_body_len = 2,
     hm_proto = ''HTTP/1.1''\<rparr>"

abbreviation sample_file :: "u64 \<Rightarrow> char option" where
  "sample_file \<equiv> [0 \<mapsto> CHR ''h'', 1 \<mapsto> CHR ''i'']"

definition sample_st :: DownloadState where
  "sample_st = calloc_state\<lparr>ds_total_size := 2, ds_chunk_size := 4\<rparr>"

definition sample_st_done :: DownloadState where
  "sample_st_done = sample_st\<lparr>ds_done_ranges := [\<lparr>br_start = 0, br_end = 1\<rparr>], ds_done_range_capacity := 4,
     ds_status := Some ''downloading'', ds_bytes_downloaded := 2, ds_id := Some [], ds_url := Some []\<rparr>"

definition sample_slot :: ChunkSlot where
  "sample_slot = empty_slot\<lparr>cs_in_use := True, cs_range_end := 1, cs_reserved_end := 1, cs_continuous := True,
     cs_keep_alive := True, cs_conn := Some 1\<rparr>"

text \<open>The job after the connection, after the arrival of the response, with its bytes written, and
  with the progress recorded.\<close>

definition sample_arrived :: DownloadJob where
  "sample_arrived = (sample_job 2 1)\<lparr>j_tick := 2, j_slots := [sample_slot],
     j_conns := (\<lambda>_. \<lparr>mc_recv = ''Hhi'', mc_is_draining = False, mc_data0 = True\<rparr>)\<rparr>"

definition sample_written :: DownloadJob where
  "sample_written = sample_arrived\<lparr>j_slots := [sample_slot\<lparr>cs_headers_received := True, cs_streaming := True, cs_chunk_received := 2\<rparr>],
     j_tick := 9, j_bytes_since_persist := 2, j_file_open := True, j_handed := sample_file,
     j_conns := (\<lambda>_. \<lparr>mc_recv = ''Hhi'', mc_is_draining = False, mc_data0 = True\<rparr>)
       (1 := \<lparr>mc_recv = [], mc_is_draining = False, mc_data0 = True\<rparr>)\<rparr>"

definition sample_recorded :: DownloadJob where
  "sample_recorded = sample_written\<lparr>j_state := sample_st_done,
     j_slots := [sample_slot\<lparr>cs_headers_received := True, cs_streaming := True, cs_chunk_received := 2, cs_persisted_received := 2\<rparr>],
     j_bytes_since_persist := 0, j_tick := 17, j_flushed := sample_file, j_saved := Some sample_st_done,
     j_log := [EvUpsert ''downloading'']\<rparr>"

lemmas sample_jobs = sample_recorded_def sample_written_def sample_arrived_def sample_job_def zero_job_def
  sample_slot_def empty_slot_def

lemma sample_reply_sel [simp]: "hm_status sample_reply = 206" "hm_header sample_reply = (\<lambda>_. None)"
  "hm_head_len sample_reply = 1" "hm_body_len sample_reply = 2" "hm_proto sample_reply = ''HTTP/1.1''"
  by (simp_all add: sample_reply_def)

lemma sample_fresh: "fresh_job (sample_job 2 1)"
  by (simp add: fresh_job_def sample_job_def zero_job_def segments_fit_def effective_chunk_size_def calloc_state_def sample_cfg_def)

lemma sample_select: "segment_select_chunks sample_cfg sample_st 2 (Some (\<lambda>_ _. True)) = [\<lparr>br_start = 0, br_end = 1\<rparr>]"
  by code_simp

lemma sample_states: "download_state_all_chunks_done sample_st = False" "download_state_all_chunks_done sample_st_done = True"
  "download_state_is_range_done sample_st_done 0 1 = True" "download_state_bytes_done sample_st_done = 2"
  "ds_total_size sample_st_done = 2"
  "download_state_mark_range_done (\<lambda>_. True) sample_st 0 1
     = (0, sample_st\<lparr>ds_done_ranges := [\<lparr>br_start = 0, br_end = 1\<rparr>], ds_done_range_capacity := 4\<rparr>)"
  "download_state_bytes_done (sample_st\<lparr>ds_done_ranges := [\<lparr>br_start = 0, br_end = 1\<rparr>], ds_done_range_capacity := 4\<rparr>) = 2"
  "download_state_bytes_done (sample_st\<lparr>ds_done_ranges := [\<lparr>br_start = 0, br_end = 1\<rparr>], ds_done_range_capacity := 4,
     ds_bytes_downloaded := 2\<rparr>) = 2"
  "download_status_normalize ''downloading'' ''downloading'' = ''downloading''"
  "download_status_normalize ''completed'' ''downloading'' = ''completed''"
  by code_simp+

lemma sample_no_flight: "j_slots job = [empty_slot] \<Longrightarrow> range_in_flight_predicate job None = (\<lambda>_ _. True)"
  by (intro ext) (simp add: range_in_flight_predicate_def)

lemma sample_schedule:
  "(schedule_next sample_env ((sample_job 2 1)\<lparr>j_schedule_deferred := False\<rparr>))\<lparr>j_conns :=
     (\<lambda>_. \<lparr>mc_recv = ''Hhi'', mc_is_draining = False, mc_data0 = True\<rparr>)\<rparr> = sample_arrived"
proof -
  let ?j = "(sample_job 2 1)\<lparr>j_schedule_deferred := False\<rparr>"
  have s: "j_failed ?j = False" "j_done ?j = False" "j_step ?j = DL_STEP_CHUNK" "j_state ?j = sample_st"
      "j_seg_cfg ?j = sample_cfg" "j_slots ?j = [empty_slot]" "j_segment_mode ?j = True"
    by (simp_all add: sample_job_def zero_job_def sample_st_def)
  have c: "sc_concurrency sample_cfg = 2" by (simp add: sample_cfg_def)
  have "schedule_next sample_env ?j = connect_selected sample_env [\<lparr>br_start = 0, br_end = 1\<rparr>] ?j"
    unfolding schedule_next_def schedule_pending_chunks_def Let_def s sample_no_flight [OF s(6)] count_active_slots_def c
    by (simp add: sample_states sample_select DL_MAX_SEGMENT_CONCURRENCY_def)
  then show ?thesis
    by (simp add: chunk_slot_acquire_def mg_millis_def dl_connect_def upd_conn_def put_slot_def slot_at_def sample_jobs)
qed

lemma sample_delivers: "delivers sample_mg sample_content sample_arrived 0 1 (MG_EV_HTTP_HDRS sample_reply)"
  by (auto simp: delivers_def sample_jobs range_response_def bytes_match_def buffered_http_body_def recv_of_def slot_at_def
      sample_content_def less_Suc_eq numeral_2_eq_2)

lemma sample_extend: "extend_loop job 0 0 2 2 = (2, job)"
  by (subst extend_loop.simps) simp

lemma sample_headers: "handle_response_headers sample_mg sample_env sample_arrived (Some 0) 1 sample_reply
    = begin_chunk_body sample_env (sample_arrived\<lparr>j_slots := [sample_slot\<lparr>cs_headers_received := True\<rparr>]\<rparr>) (Some 0) 1 sample_reply"
  by (simp add: sample_jobs handle_response_headers_def slot_at_def put_slot_def handle_redirect_def http_is_redirect_def
      note_connection_header_def reset_retry_count_on_success_def apply_filename_from_headers_def note_validators_def
      store_header_value_def strcaseeq_def strlower_def tolower_def isupper_def code_of_def
      note_content_range_def note_content_length_def can_enable_segment_mode_def assume_range_length_def)

lemma sample_body: "begin_chunk_body sample_env (sample_arrived\<lparr>j_slots := [sample_slot\<lparr>cs_headers_received := True\<rparr>]\<rparr>) (Some 0) 1 sample_reply
    = dm_item_upsert sample_env sample_written ''downloading''"
  by (simp add: begin_chunk_body_def Let_def sample_jobs touch_slot_activity_def mg_millis_def put_slot_def slot_at_def
      buffered_http_body_def body_bytes_def recv_of_def slot_write_body_def slot_prepare_write_def sample_extend
      slot_bytes_remaining_def write_at_offset_def open_temp_file_def ask_def print_progress_def consume_recv_def upd_conn_def)


lemma sample_upsert: "dm_item_upsert sample_env sample_written ''downloading'' = sample_recorded"
  by (simp add: dm_item_upsert_def sync_state_metadata_def persist_buffered_progress_def should_persist_now_def
      job_unpersisted_bytes_def slot_unpersisted_def read_config_item_queue_id_def Let_def ask_def mg_millis_def
      sample_jobs slot_at_def put_slot_def mark_done_def sample_states record_progress_def drain_temp_file_def
      state_save_def sample_st_def [symmetric] sample_st_done_def)


definition sample_closed :: DownloadJob where
  "sample_closed = on_connection_closed sample_mg sample_env sample_recorded (Some 0) 1"

lemma sample_closed_log:
  "j_log sample_closed = [EvUpsert ''downloading'', EvMoveFile (Some ''/t/f'') (Some ''/d/f''), EvUpsert ''completed'']"
  "ds_total_size (j_state sample_closed) = 2"
  by (simp_all add: sample_closed_def on_connection_closed_def sample_jobs slot_at_def flush_recv_body_def recv_of_def
      complete_chunk_slot_def sample_states chunk_slot_release_def put_slot_def finalize_download_def close_file_def
      dm_item_upsert_def sync_state_metadata_def persist_buffered_progress_def should_persist_now_def
      job_unpersisted_bytes_def slot_unpersisted_def read_config_item_queue_id_def Let_def ask_def mg_millis_def
      state_save_def)

lemma sample_live: "j_done sample_arrived = False" "j_done sample_recorded = False"
  by (simp_all add: sample_jobs)

lemma sample_reaches: "reaches sample_urls sample_mg sample_content sample_env (sample_job 2 1) sample_closed"
proof -
  note step = reaches.step
  have a: "reaches sample_urls sample_mg sample_content sample_env (sample_job 2 1) sample_arrived"
    unfolding sample_schedule [symmetric]
    by (rule step [OF step [OF reaches.start job_step.schedule] job_step.network])
  have r: "dl_handler sample_urls sample_mg sample_env sample_flags sample_ctx sample_arrived (Some 0) 1
      (MG_EV_HTTP_HDRS sample_reply) = (sample_ctx, sample_recorded)"
    unfolding dl_handler_def sample_live by (simp only: if_False mg_event.case sample_headers sample_body sample_upsert)
  have c: "dl_handler sample_urls sample_mg sample_env sample_flags sample_ctx sample_recorded (Some 0) 1 MG_EV_CLOSE
      = (sample_ctx, sample_closed)"
    by (simp add: dl_handler_def sample_live sample_closed_def)
  have d: "delivers sample_mg sample_content sample_recorded 0 1 MG_EV_CLOSE"
    by (simp add: delivers_def sample_jobs feeds_def slot_at_def recv_of_def)
  show ?thesis by (rule step [OF step [OF a job_step.event [OF sample_delivers r]] job_step.event [OF d c]])
qed


text \<open>Two connections on a file of eight bytes.\<close>

definition sample_two :: DownloadJob where
  "sample_two = schedule_next sample_env ((sample_job 8 2)\<lparr>j_schedule_deferred := False\<rparr>)"

lemma sample_two_slots: "length (j_slots sample_two) = 2 \<and> cs_in_use (slot_at sample_two 0) \<and> cs_in_use (slot_at sample_two 1)"
  by code_simp


end
