(* ===== verification/Stream_Decoding.thy ===== *)
theory Stream_Decoding
  imports Job
begin

text \<open>
  The incremental decoder of \<open>Transfer-Encoding: chunked\<close> (\<open>append_stream_chunked\<close> of
  \<^verbatim>\<open>src/src/download.c\<close>) against a reference decoder that reads one byte at a time.  The
  reference is compositional, so the way the network cuts a response into reads does not
  matter, and it inverts the encoding.
\<close>

subsection \<open>The reference decoder\<close>

record chunk_state =
  ck_state :: ChunkedState
  ck_remaining :: u64
  ck_line :: string
  ck_complete :: bool

definition ck_of :: "DownloadJob \<Rightarrow> chunk_state" where
  "ck_of job = \<lparr>ck_state = j_chunked_state job, ck_remaining = j_chunked_remaining job,
     ck_line = j_chunked_line job, ck_complete = j_chunked_complete job\<rparr>"

text \<open>One byte: the new state and the payload, or \<open>None\<close> when a size line is no number.\<close>

definition decode_byte :: "chunk_state \<Rightarrow> char \<Rightarrow> (chunk_state \<times> bytes) option" where
  "decode_byte st ch =
     (case ck_state st of
        DL_CHUNKED_STATE_SIZE \<Rightarrow>
          if code_of ch = 10
          then if ck_line st = [] then Some (st, [])
               else let line = c_string_of (ck_line st); size = strtoull_value 16 line; st = st\<lparr>ck_line := []\<rparr> in
                 if strtoull_failed 16 line then None
                 else if size = 0 then Some (st\<lparr>ck_complete := True, ck_state := DL_CHUNKED_STATE_DONE\<rparr>, [])
                 else Some (st\<lparr>ck_remaining := size, ck_state := DL_CHUNKED_STATE_DATA\<rparr>, [])
          else if code_of ch \<noteq> 13 \<and> length (ck_line st) + 1 < 20
          then Some (st\<lparr>ck_line := ck_line st @ [ch]\<rparr>, [])
          else Some (st, [])
      | DL_CHUNKED_STATE_DATA \<Rightarrow>
          let left = ck_remaining st - 1
          in Some (st\<lparr>ck_remaining := left,
                ck_state := (if left = 0 then DL_CHUNKED_STATE_SIZE else DL_CHUNKED_STATE_DATA)\<rparr>, [ch])
      | DL_CHUNKED_STATE_DONE \<Rightarrow> Some (st, []))"

fun decode :: "chunk_state \<Rightarrow> bytes \<Rightarrow> (chunk_state \<times> bytes) option" where
  "decode st [] = Some (st, [])"
| "decode st (c # cs) =
     (case decode_byte st c of
        None \<Rightarrow> None
      | Some (st', out) \<Rightarrow>
          (case decode st' cs of None \<Rightarrow> None | Some (st'', out') \<Rightarrow> Some (st'', out @ out')))"

definition ck_ok :: "chunk_state \<Rightarrow> bool" where
  "ck_ok st \<longleftrightarrow> (ck_state st = DL_CHUNKED_STATE_DATA \<longrightarrow> ck_remaining st \<noteq> 0)"

lemma decode_append:
  "decode st (a @ b) = (case decode st a of None \<Rightarrow> None | Some (st', out) \<Rightarrow>
     (case decode st' b of None \<Rightarrow> None | Some (st'', out') \<Rightarrow> Some (st'', out @ out')))"
  by (induction st a rule: decode.induct) (auto split: option.splits prod.splits)

lemma decode_byte_ok: "ck_ok st \<Longrightarrow> decode_byte st c = Some (st', out) \<Longrightarrow> ck_ok st'"
  by (auto simp: decode_byte_def ck_ok_def Let_def split: ChunkedState.splits if_splits)

lemma decode_ok: "ck_ok st \<Longrightarrow> decode st cs = Some (st', out) \<Longrightarrow> ck_ok st'"
  by (induction st cs arbitrary: out rule: decode.induct)
    (auto split: option.splits prod.splits dest: decode_byte_ok)

text \<open>Inside a chunk the decoder passes bytes through until the chunk ends.\<close>

lemma decode_data:
  assumes "ck_state st = DL_CHUNKED_STATE_DATA" "length bs \<le> unat (ck_remaining st)" "bs \<noteq> []"
  shows "decode st bs = Some (st\<lparr>ck_remaining := ck_remaining st - of_nat (length bs),
     ck_state := (if ck_remaining st - of_nat (length bs) = 0 then DL_CHUNKED_STATE_SIZE else DL_CHUNKED_STATE_DATA)\<rparr>, bs)"
  using assms
proof (induction bs arbitrary: st)
  case (Cons c bs)
  let ?st = "st\<lparr>ck_remaining := ck_remaining st - 1,
      ck_state := (if ck_remaining st - 1 = 0 then DL_CHUNKED_STATE_SIZE else DL_CHUNKED_STATE_DATA)\<rparr>"
  have b: "decode_byte st c = Some (?st, [c])" using Cons.prems(1) by (simp add: decode_byte_def Let_def)
  have nz: "ck_remaining st \<noteq> 0" using Cons.prems(2) by auto
  have pred: "unat (ck_remaining st - 1) = unat (ck_remaining st) - 1"
    using nz by (simp add: unat_minus_one)
  show ?case
  proof (cases "bs = []")
    case True
    then show ?thesis using b by simp
  next
    case False
    have len: "length bs \<le> unat (ck_remaining ?st)" using Cons.prems(2) pred by simp
    then have "ck_remaining st - 1 \<noteq> 0" using False by auto
    then have st: "ck_state ?st = DL_CHUNKED_STATE_DATA" by simp
    show ?thesis using Cons.IH [OF st len False] b by (simp add: algebra_simps)
  qed
qed simp


lemma decode_done: "ck_state st = DL_CHUNKED_STATE_DONE \<Longrightarrow> decode st bs = Some (st, [])"
  by (induction bs) (simp_all add: decode_byte_def)

subsection \<open>The decoder of the code\<close>

text \<open>The job after the payload \<open>out\<close> has been appended to the file.\<close>

definition appended :: "DownloadJob \<Rightarrow> bytes \<Rightarrow> DownloadJob \<Rightarrow> bool" where
  "appended job out job' \<longleftrightarrow> j_handed job' = write_bytes (j_handed job) (j_stream_received job) out
     \<and> j_stream_received job' = j_stream_received job + of_nat (length out) \<and> j_file_open job'
     \<and> j_chunked_encoding job' = j_chunked_encoding job"

lemma appended_refl: "j_file_open job \<Longrightarrow> appended job [] job"
  by (simp add: appended_def)

lemma appended_trans: "appended a x b \<Longrightarrow> appended b y c \<Longrightarrow> appended a (x @ y) c"
  by (simp add: appended_def write_bytes_append)

lemma append_stream_writes:
  assumes "\<And>t. e_ok e t" "j_file_open job" "data \<noteq> []"
  obtains job' where "append_stream e job data = (True, job')" "appended job data job'" "ck_of job' = ck_of job"
proof
  let ?j = "snd (append_stream e job data)"
  show "append_stream e job data = (True, ?j)"
    using assms by (simp add: append_stream_def ask_def mg_millis_def Let_def)
  show "appended job data ?j" "ck_of ?j = ck_of job"
    using assms by (simp_all add: append_stream_def ask_def mg_millis_def Let_def appended_def ck_of_def)
qed

text \<open>What the decoder of the code does against what the reference decoder returns.\<close>

definition decodes_as :: "DownloadJob \<Rightarrow> (chunk_state \<times> bytes) option \<Rightarrow> bool \<times> DownloadJob \<Rightarrow> bool" where
  "decodes_as job spec r \<longleftrightarrow> (case spec of
       None \<Rightarrow> \<not> fst r \<and> j_failed (snd r)
     | Some (st, out) \<Rightarrow> fst r \<and> ck_of (snd r) = st \<and> appended job out (snd r))"

lemma decodes_as_step:
  assumes "appended job out job1" "decodes_as job1 spec r"
  shows "decodes_as job (case spec of None \<Rightarrow> None | Some (st, out') \<Rightarrow> Some (st, out @ out')) r"
  using assms by (auto simp: decodes_as_def intro: appended_trans split: option.splits prod.splits)

lemma ck_of_sel [simp]:
  "ck_state (ck_of job) = j_chunked_state job" "ck_remaining (ck_of job) = j_chunked_remaining job"
  "ck_line (ck_of job) = j_chunked_line job" "ck_complete (ck_of job) = j_chunked_complete job"
  by (simp_all add: ck_of_def)

lemma appended_frame:
  assumes "appended job out job1"
  shows "appended job out (job1\<lparr>j_chunked_remaining := r, j_chunked_state := s\<rparr>)"
  using assms by (simp add: appended_def)

lemma appended_line: "appended (job\<lparr>j_chunked_line := l\<rparr>) = appended job"
  "appended (job\<lparr>j_chunked_remaining := r\<rparr>) = appended job" "appended (job\<lparr>j_chunked_state := s\<rparr>) = appended job"
  by (intro ext, simp add: appended_def)+

lemma decodes_as_frame: "decodes_as (job\<lparr>j_chunked_line := l\<rparr>) = decodes_as job"
  "decodes_as (job\<lparr>j_chunked_remaining := x\<rparr>) = decodes_as job" "decodes_as (job\<lparr>j_chunked_state := s\<rparr>) = decodes_as job"
  by (intro ext, simp only: decodes_as_def appended_line)+

lemma decode_silent: "decode_byte st c = Some (st', []) \<Longrightarrow> decode st (c # cs) = decode st' cs"
  by (simp split: option.splits)

lemma chunked_data_step:
  assumes "j_chunked_state job = DL_CHUNKED_STATE_DATA" "data \<noteq> []"
    and "n = min (length data) (unat (j_chunked_remaining job))" "left = j_chunked_remaining job - of_nat n"
  shows "append_stream_chunked e job data = (let (ok, job') = append_stream e job (take n data) in
      if \<not> ok then (False, job')
      else append_stream_chunked e (job'\<lparr>j_chunked_remaining := left,
        j_chunked_state := (if left = 0 then DL_CHUNKED_STATE_SIZE else DL_CHUNKED_STATE_DATA)\<rparr>) (drop n data))"
  using assms(1,2) unfolding assms(4,3) by (cases data) (simp_all only: append_stream_chunked.simps ChunkedState.case Let_def list.distinct simp_thms)

lemma chunked_refines:
  assumes "\<And>t. e_ok e t" "j_file_open job" "ck_ok (ck_of job)"
  shows "decodes_as job (decode (ck_of job) data) (append_stream_chunked e job data)"
  using assms(2,3)
proof (induction "length data" arbitrary: job data rule: less_induct)
  case less
  show ?case
  proof (cases data)
    case Nil
    then show ?thesis using less.prems by (simp add: decodes_as_def appended_refl)
  next
    case (Cons ch rest)
    have IH: "decodes_as job1 (decode (ck_of job1) d) (append_stream_chunked e job1 d)"
      if "length d < length data" "j_file_open job1" "ck_ok (ck_of job1)" for job1 d
      using less.hyps that by blast
    show ?thesis
    proof (cases "j_chunked_state job")
      case DL_CHUNKED_STATE_DONE
      then show ?thesis using less.prems Cons decode_done [of "ck_of job"]
        by (simp add: decodes_as_def appended_refl del: decode.simps)
    next
      case DL_CHUNKED_STATE_SIZE
      note st = DL_CHUNKED_STATE_SIZE
      have size: "j_file_open job" "ck_ok (ck_of job)" using less.prems by auto
      let ?line = "c_string_of (j_chunked_line job)"
      have go: ?thesis
        if "decode_byte (ck_of job) ch = Some (ck_of job1, [])" "append_stream_chunked e job data = append_stream_chunked e job1 rest"
          "decodes_as job1 = decodes_as job" "j_file_open job1" "ck_ok (ck_of job1)" for job1
        using IH [of rest job1] that Cons decode_silent [OF that(1), of rest] by simp
      consider (blank) "code_of ch = 10" "j_chunked_line job = []"
        | (bad) "code_of ch = 10" "j_chunked_line job \<noteq> []" "strtoull_failed 16 ?line"
        | (last) "code_of ch = 10" "j_chunked_line job \<noteq> []" "\<not> strtoull_failed 16 ?line" "strtoull_value 16 ?line = 0"
        | (chunk) "code_of ch = 10" "j_chunked_line job \<noteq> []" "\<not> strtoull_failed 16 ?line" "strtoull_value 16 ?line \<noteq> 0"
        | (collect) "code_of ch \<noteq> 10" "code_of ch \<noteq> 13 \<and> length (j_chunked_line job) + 1 < 20"
        | (skip) "code_of ch \<noteq> 10" "\<not> (code_of ch \<noteq> 13 \<and> length (j_chunked_line job) + 1 < 20)"
        by blast
      then show ?thesis
      proof cases
        case blank
        then show ?thesis using size st Cons by (intro go [of job]) (auto simp: decode_byte_def)
      next
        case bad
        then show ?thesis using st Cons by (simp add: decodes_as_def decode_byte_def Let_def set_error_def)
      next
        case last
        let ?st = "(ck_of job)\<lparr>ck_line := [], ck_complete := True, ck_state := DL_CHUNKED_STATE_DONE\<rparr>"
        have "decode_byte (ck_of job) ch = Some (?st, [])" using last st by (simp add: decode_byte_def Let_def)
        then have "decode (ck_of job) data = Some (?st, [])" using Cons decode_silent decode_done [of ?st] by simp
        then show ?thesis using last st Cons size
          by (simp add: decodes_as_def Let_def appended_def ck_of_def)
      next
        case chunk
        let ?j = "job\<lparr>j_chunked_line := [], j_chunked_remaining := strtoull_value 16 ?line, j_chunked_state := DL_CHUNKED_STATE_DATA\<rparr>"
        show ?thesis
          by (rule go [of ?j]) (use chunk st Cons size in \<open>simp_all add: decode_byte_def Let_def decodes_as_frame ck_ok_def ck_of_def\<close>)
      next
        case collect
        show ?thesis
          by (rule go [of "job\<lparr>j_chunked_line := j_chunked_line job @ [ch]\<rparr>"])
            (use collect st Cons size in \<open>simp_all add: decode_byte_def decodes_as_frame ck_ok_def ck_of_def\<close>)
      next
        case skip
        then show ?thesis using size st Cons by (intro go [of job]) (auto simp: decode_byte_def)
      qed
    next
      case DL_CHUNKED_STATE_DATA
      note st = DL_CHUNKED_STATE_DATA
      define n where "n = min (length data) (unat (j_chunked_remaining job))"
      have nz: "j_chunked_remaining job \<noteq> 0" using less.prems st by (simp add: ck_ok_def)
      then have n: "0 < n" "n \<le> length data" "n \<le> unat (j_chunked_remaining job)" using Cons by (auto simp: n_def unat_gt_0)
      have len: "length (take n data) = n" "take n data \<noteq> []" using n by auto
      obtain job1 where w: "append_stream e job (take n data) = (True, job1)" "appended job (take n data) job1"
          "ck_of job1 = ck_of job"
        using append_stream_writes [OF assms(1) less.prems(1) len(2)] by blast
      define left where "left = j_chunked_remaining job - of_nat n"
      let ?j = "job1\<lparr>j_chunked_remaining := left,
          j_chunked_state := (if left = 0 then DL_CHUNKED_STATE_SIZE else DL_CHUNKED_STATE_DATA)\<rparr>"
      have code: "append_stream_chunked e job data = append_stream_chunked e ?j (drop n data)"
        using chunked_data_step [OF st _ n_def left_def, of e] w(1) Cons by simp
      have ck: "ck_of ?j = (ck_of job)\<lparr>ck_remaining := left,
          ck_state := (if left = 0 then DL_CHUNKED_STATE_SIZE else DL_CHUNKED_STATE_DATA)\<rparr>"
        using w(3) by (simp add: ck_of_def)
      have d: "decode (ck_of job) (take n data) = Some (ck_of ?j, take n data)"
        unfolding ck unfolding left_def using decode_data [of "ck_of job" "take n data"] st n len by simp
      have spec: "decode (ck_of job) data = (case decode (ck_of ?j) (drop n data) of None \<Rightarrow> None
          | Some (st, out') \<Rightarrow> Some (st, take n data @ out'))"
        using decode_append [of "ck_of job" "take n data" "drop n data"] d by simp
      have "decodes_as ?j (decode (ck_of ?j) (drop n data)) (append_stream_chunked e ?j (drop n data))"
        using n w(2) by (intro IH) (auto simp: appended_def ck_ok_def)
      then show ?thesis unfolding spec code by (rule decodes_as_step [OF appended_frame [OF w(2)]])
    qed
  qed
qed


subsection \<open>The encoding\<close>

fun show_hex :: "nat \<Rightarrow> string" where
  "show_hex n = (if n < 16 then [if n < 10 then char_of (48 + n) else char_of (87 + n)]
     else show_hex (n div 16) @ [if n mod 16 < 10 then char_of (48 + n mod 16) else char_of (87 + n mod 16)])"

declare show_hex.simps [simp del]

definition line_end :: bytes where
  "line_end = [char_of (13::nat), char_of (10::nat)]"

fun chunk_encode :: "bytes list \<Rightarrow> bytes" where
  "chunk_encode [] = ''0'' @ line_end @ line_end"
| "chunk_encode (c # cs) = show_hex (length c) @ line_end @ c @ line_end @ chunk_encode cs"

definition hex_char :: "char \<Rightarrow> bool" where
  "hex_char c \<longleftrightarrow> 48 \<le> code_of c \<and> code_of c \<le> 57 \<or> 97 \<le> code_of c \<and> code_of c \<le> 102"

lemma hex_char_digit: "hex_char c \<Longrightarrow> digit_in_base 16 c"
  by (auto simp: hex_char_def digit_in_base_def digit_value_def isdigit_def isupper_def islower_def)

lemma show_hex_chars: "c \<in> set (show_hex n) \<Longrightarrow> hex_char c"
proof (induction n rule: show_hex.induct)
  case (1 n)
  then show ?case
    by (subst (asm) show_hex.simps) (auto simp: hex_char_def split: if_splits)
qed

lemma digit_value_hex: "n < 16 \<Longrightarrow> digit_value (if n < 10 then char_of (48 + n) else char_of (87 + n)) = Some n"
  by (auto simp: digit_value_def isdigit_def isupper_def islower_def)

lemma digits_value_show_hex: "digits_value 16 (show_hex n) = n"
proof (induction n rule: show_hex.induct)
  case (1 n)
  then show ?case using digit_value_hex [of n] digit_value_hex [of "n mod 16"]
    by (subst show_hex.simps) (auto simp: digits_value_def [of 16 "[_]"])
qed

lemma show_hex_length: "n < 16 ^ k \<Longrightarrow> 0 < k \<Longrightarrow> length (show_hex n) \<le> k"
proof (induction n arbitrary: k rule: show_hex.induct)
  case (1 n)
  show ?case
  proof (cases "n < 16")
    case True
    then show ?thesis using 1 by (subst show_hex.simps) simp
  next
    case False
    then obtain j where k: "k = Suc j" "0 < j" using 1(2,3) by (cases k; cases "k - 1") auto
    have "n div 16 < 16 ^ j" using 1(2) k by (simp add: div_less_iff_less_mult mult.commute)
    then have "length (show_hex (n div 16)) \<le> j" using 1(1) False k by simp
    then show ?thesis using False k by (subst show_hex.simps) simp
  qed
qed

lemma show_hex_nonempty [simp]: "show_hex n \<noteq> []"
  by (subst show_hex.simps) simp

lemma hex_char_plain: "hex_char c \<Longrightarrow> \<not> isspace c \<and> code_of c \<noteq> 0 \<and> code_of c \<noteq> 10 \<and> code_of c \<noteq> 13
    \<and> c \<noteq> CHR ''-'' \<and> c \<noteq> CHR ''+'' \<and> tolower c \<noteq> CHR ''x''"
proof -
  assume h: "hex_char c"
  have "code_of (tolower c) = code_of c" using h by (auto simp: tolower_def isupper_def hex_char_def)
  then have "tolower c = c" by (rule code_of_inj)
  then show ?thesis using h by (auto simp: hex_char_def isspace_def code_of_def)
qed

lemma strtoull_show_hex:
  assumes "n \<le> 18446744073709551615"
  shows "strtoull 16 (show_hex n) = (of_nat n, [])"
proof -
  obtain c cs where s: "show_hex n = c # cs" by (cases "show_hex n") auto
  have all: "\<forall>x\<in>set (show_hex n). hex_char x" using show_hex_chars by blast
  have c: "\<not> isspace c" "c \<noteq> CHR ''-''" "c \<noteq> CHR ''+''" using all hex_char_plain [of c] by (auto simp: s)
  have sp: "skip_space (show_hex n) = show_hex n" using c by (simp add: skip_space_def s)
  have pre: "strip_0x 16 (show_hex n) = show_hex n"
  proof (cases "length (show_hex n) > 2")
    case True
    then have "tolower (show_hex n ! 1) \<noteq> CHR ''x''" using all hex_char_plain by simp
    then show ?thesis by (simp add: strip_0x_def)
  qed (simp add: strip_0x_def)
  have tw: "takeWhile (digit_in_base 16) (show_hex n) = show_hex n"
    using all hex_char_digit by (auto simp: takeWhile_eq_all_conv)
  have t: "(case show_hex n of [] \<Rightarrow> [] | x # r \<Rightarrow> if x = CHR ''-'' \<or> x = CHR ''+'' then r else show_hex n) = show_hex n"
    "(case show_hex n of [] \<Rightarrow> False | x # _ \<Rightarrow> x = CHR ''-'') = False" using c by (simp_all add: s)
  show ?thesis using assms unfolding strtoull_def sp Let_def t pre tw by (simp add: digits_value_show_hex)
qed


lemma decode_compose:
  "decode st a = Some (st', x) \<Longrightarrow> decode st' b = Some (st'', y) \<Longrightarrow> decode st (a @ b) = Some (st'', x @ y)"
  by (simp add: decode_append)

lemma decode_line:
  assumes "ck_state st = DL_CHUNKED_STATE_SIZE" "\<forall>c\<in>set ds. code_of c \<noteq> 10 \<and> code_of c \<noteq> 13"
    and "length (ck_line st) + length ds < 20"
  shows "decode st ds = Some (st\<lparr>ck_line := ck_line st @ ds\<rparr>, [])"
  using assms
proof (induction ds arbitrary: st)
  case (Cons d ds)
  have b: "decode_byte st d = Some (st\<lparr>ck_line := ck_line st @ [d]\<rparr>, [])"
    using Cons.prems by (simp add: decode_byte_def)
  show ?case using Cons.IH [of "st\<lparr>ck_line := ck_line st @ [d]\<rparr>"] Cons.prems b by simp
qed simp

lemma code_10_13 [simp]: "code_of (char_of (10::nat)) = 10" "code_of (char_of (13::nat)) = 13"
  by simp_all

lemma decode_line_end:
  assumes "ck_state st = DL_CHUNKED_STATE_SIZE"
  shows "decode st line_end = decode st [char_of (10::nat)]"
  unfolding line_end_def by (rule decode_silent) (use assms in \<open>simp add: decode_byte_def\<close>)

lemma decode_size:
  assumes st: "ck_state st = DL_CHUNKED_STATE_SIZE" "ck_line st = []" and n: "n \<le> 18446744073709551615"
  shows "decode st (show_hex n @ line_end) = Some (if n = 0 then st\<lparr>ck_complete := True, ck_state := DL_CHUNKED_STATE_DONE\<rparr>
     else st\<lparr>ck_remaining := of_nat n, ck_state := DL_CHUNKED_STATE_DATA\<rparr>, [])"
proof -
  let ?st = "st\<lparr>ck_line := show_hex n\<rparr>"
  have chars: "\<forall>c\<in>set (show_hex n). code_of c \<noteq> 10 \<and> code_of c \<noteq> 13 \<and> code_of c \<noteq> 0"
    using show_hex_chars hex_char_plain by blast
  have "length (show_hex n) \<le> 16" using n by (intro show_hex_length) simp_all
  then have line: "decode st (show_hex n) = Some (?st, [])" using decode_line [of st "show_hex n"] st chars by simp
  have c: "c_string_of (show_hex n) = show_hex n" using chars by (auto simp: c_string_of_def takeWhile_eq_all_conv)
  have v: "strtoull_value 16 (show_hex n) = of_nat n" "\<not> strtoull_failed 16 (show_hex n)"
    using strtoull_show_hex [OF n] by (simp_all add: strtoull_value_def strtoull_failed_def show_hex_nonempty [symmetric] del: show_hex_nonempty)
  have z: "(of_nat n :: u64) = 0 \<longleftrightarrow> n = 0" using unat_of_nat_small [of n] n by auto
  have "decode ?st line_end = Some (if n = 0 then st\<lparr>ck_line := [], ck_complete := True, ck_state := DL_CHUNKED_STATE_DONE\<rparr>
     else st\<lparr>ck_line := [], ck_remaining := of_nat n, ck_state := DL_CHUNKED_STATE_DATA\<rparr>, [])"
    using st by (subst decode_line_end) (simp_all add: decode_byte_def c v z)
  then have "decode st (show_hex n @ line_end) = Some (if n = 0 then st\<lparr>ck_line := [], ck_complete := True, ck_state := DL_CHUNKED_STATE_DONE\<rparr>
     else st\<lparr>ck_line := [], ck_remaining := of_nat n, ck_state := DL_CHUNKED_STATE_DATA\<rparr>, [] @ [])"
    by (rule decode_compose [OF line])
  moreover have "st\<lparr>ck_line := []\<rparr> = st" using st(2) by (cases st) simp
  ultimately show ?thesis using st(2) by (cases st) auto
qed

lemma decode_chunk:
  assumes "ck_state st = DL_CHUNKED_STATE_SIZE" "ck_line st = []" "c \<noteq> []" "length c \<le> 18446744073709551615"
  shows "decode st (show_hex (length c) @ line_end @ c @ line_end) = Some (st\<lparr>ck_remaining := 0\<rparr>, c)"
proof -
  let ?d = "st\<lparr>ck_remaining := of_nat (length c), ck_state := DL_CHUNKED_STATE_DATA\<rparr>"
  let ?e = "st\<lparr>ck_remaining := 0, ck_state := DL_CHUNKED_STATE_SIZE\<rparr>"
  have a: "decode st (show_hex (length c) @ line_end) = Some (?d, [])"
    using decode_size [OF assms(1,2,4)] assms(3) by simp
  have len: "unat (of_nat (length c) :: u64) = length c" using assms(4) by (simp add: unat_of_nat_small)
  have b: "decode ?d c = Some (?e, c)" using decode_data [of ?d c] assms(3) len by simp
  have e: "decode ?e line_end = Some (?e, [])"
    using assms(2) by (subst decode_line_end) (simp_all add: decode_byte_def)
  have "decode st ((show_hex (length c) @ line_end) @ c @ line_end) = Some (?e, [] @ c @ [])"
    by (rule decode_compose [OF a decode_compose [OF b e]])
  moreover have "?e = st\<lparr>ck_remaining := 0\<rparr>" using assms(1) by (cases st) simp
  ultimately show ?thesis by simp
qed

lemma decode_encode:
  assumes "\<forall>c\<in>set cs. c \<noteq> [] \<and> length c \<le> 18446744073709551615"
    and "ck_state st = DL_CHUNKED_STATE_SIZE" "ck_line st = []"
  shows "\<exists>st'. decode st (chunk_encode cs) = Some (st', concat cs) \<and> ck_complete st' \<and> ck_state st' = DL_CHUNKED_STATE_DONE"
  using assms
proof (induction cs arbitrary: st)
  case Nil
  let ?st = "st\<lparr>ck_complete := True, ck_state := DL_CHUNKED_STATE_DONE\<rparr>"
  have "show_hex 0 = ''0''" by code_simp
  then have "decode st (''0'' @ line_end) = Some (?st, [])" using decode_size [OF Nil(2,3), of 0] by simp
  then have "decode st ((''0'' @ line_end) @ line_end) = Some (?st, [] @ [])"
    by (rule decode_compose) (simp add: decode_done)
  then show ?case by (intro exI [of _ ?st]) (simp only: chunk_encode.simps append_assoc concat.simps append_Nil, simp)
next
  case (Cons c cs)
  have a: "decode st (show_hex (length c) @ line_end @ c @ line_end) = Some (st\<lparr>ck_remaining := 0\<rparr>, c)"
    using Cons.prems by (intro decode_chunk) auto
  obtain st' where b: "decode (st\<lparr>ck_remaining := 0\<rparr>) (chunk_encode cs) = Some (st', concat cs)"
      "ck_complete st'" "ck_state st' = DL_CHUNKED_STATE_DONE"
    using Cons.IH [of "st\<lparr>ck_remaining := 0\<rparr>"] Cons.prems by auto
  have "decode st ((show_hex (length c) @ line_end @ c @ line_end) @ chunk_encode cs) = Some (st', c @ concat cs)"
    by (rule decode_compose [OF a b(1)])
  then show ?case using b by (intro exI [of _ st']) simp
qed

subsection \<open>Reads\<close>

text \<open>The reads of a response body, one after the other.\<close>

fun feed_reads :: "env \<Rightarrow> DownloadJob \<Rightarrow> bytes list \<Rightarrow> bool \<times> DownloadJob" where
  "feed_reads e job [] = (True, job)"
| "feed_reads e job (d # ds) =
     (let (ok, job') = append_stream_decoded e job d in if ok then feed_reads e job' ds else (False, job'))"

lemma feed_refines:
  assumes "\<And>t. e_ok e t" "j_file_open job" "ck_ok (ck_of job)" "j_chunked_encoding job"
  shows "decodes_as job (decode (ck_of job) (concat reads)) (feed_reads e job reads)"
  using assms(2-4)
proof (induction reads arbitrary: job)
  case Nil
  then show ?case by (simp add: decodes_as_def appended_refl)
next
  case (Cons d ds)
  obtain ok job1 where s: "append_stream_chunked e job d = (ok, job1)" by fastforce
  have r: "decodes_as job (decode (ck_of job) d) (ok, job1)"
    using chunked_refines [OF assms(1) Cons.prems(1,2), of d] s by simp
  show ?case
  proof (cases "decode (ck_of job) d")
    case None
    then show ?thesis using r s Cons.prems by (simp add: decodes_as_def append_stream_decoded_def decode_append)
  next
    case (Some p)
    obtain st out where p: "p = (st, out)" by fastforce
    have j1: ok "ck_of job1 = st" "appended job out job1" using r Some p by (simp_all add: decodes_as_def)
    have "decodes_as job1 (decode (ck_of job1) (concat ds)) (feed_reads e job1 ds)"
      using j1 Cons.prems decode_ok [OF Cons.prems(2)] Some p by (intro Cons.IH) (auto simp: appended_def)
    then show ?thesis
      using decodes_as_step [OF j1(3)] s Some p j1 Cons.prems by (simp add: append_stream_decoded_def decode_append)
  qed
qed


subsection \<open>Properties\<close>

text \<open>C23. The decoder of the code, which takes whole runs of payload from a read, does what the
  byte-by-byte reference decoder does, for every way of cutting the response into reads: it
  fails exactly when the reference rejects the input, and otherwise it appends exactly the
  decoded payload to the file and ends in the decoder state of the reference.\<close>

theorem append_stream_chunked_equiv:
  assumes "\<And>t. e_ok e t" "j_file_open job" "j_chunked_encoding job"
    and "j_chunked_state job = DL_CHUNKED_STATE_DATA \<Longrightarrow> j_chunked_remaining job \<noteq> 0"
    and "feed_reads e job reads = (ok, job')"
  shows "(case decode (ck_of job) (concat reads) of
      None \<Rightarrow> \<not> ok \<and> j_failed job'
    | Some (st, out) \<Rightarrow> ok \<and> ck_of job' = st
        \<and> j_handed job' = write_bytes (j_handed job) (j_stream_received job) out
        \<and> j_stream_received job' = j_stream_received job + of_nat (length out))"
proof -
  have "decodes_as job (decode (ck_of job) (concat reads)) (ok, job')"
    using feed_refines [of e job reads] assms by (simp add: ck_ok_def)
  then show ?thesis by (auto simp: decodes_as_def appended_def split: option.splits)
qed

text \<open>C24. Round trip of chunked bodies: when the bytes of the reads together are the chunked
  encoding of a list of non-empty chunks, the code reports a complete body and the file holds
  the concatenation of the chunks from the current position on.\<close>

theorem chunked_body_roundtrip:
  assumes "\<And>t. e_ok e t" "j_file_open job" "j_chunked_encoding job"
    and "j_chunked_state job = DL_CHUNKED_STATE_SIZE" "j_chunked_line job = []"
    and "\<forall>c\<in>set chunks. c \<noteq> [] \<and> length c \<le> 18446744073709551615"
    and "concat reads = chunk_encode chunks" "feed_reads e job reads = (ok, job')"
  shows "ok \<and> j_chunked_complete job' \<and> j_handed job' = write_bytes (j_handed job) (j_stream_received job) (concat chunks)
    \<and> j_stream_received job' = j_stream_received job + of_nat (length (concat chunks))"
proof -
  obtain st where d: "decode (ck_of job) (concat reads) = Some (st, concat chunks)" "ck_complete st"
    using decode_encode [of chunks "ck_of job"] assms(4-7) by auto
  have "decodes_as job (decode (ck_of job) (concat reads)) (ok, job')"
    using feed_refines [of e job reads] assms by (simp add: ck_ok_def)
  then show ?thesis using d by (auto simp: decodes_as_def appended_def)
qed


definition sample_stream :: DownloadJob where
  "sample_stream = zero_job\<lparr>j_file_open := True, j_chunked_encoding := True\<rparr>"

lemma sample_stream_sel: "j_file_open sample_stream" "j_chunked_encoding sample_stream"
  "j_chunked_state sample_stream = DL_CHUNKED_STATE_SIZE" "j_chunked_line sample_stream = []"
  "j_handed sample_stream = (\<lambda>_. None)" "j_stream_received sample_stream = 0"
  by (simp_all add: sample_stream_def zero_job_def)

theorem append_stream_chunked_equiv_witness:
  "\<exists>ok job'. feed_reads sample_env sample_stream [''z'', [char_of (10::nat)]] = (ok, job') \<and> \<not> ok"
proof -
  obtain ok job' where r: "feed_reads sample_env sample_stream [''z'', [char_of (10::nat)]] = (ok, job')" by fastforce
  have d: "decode (ck_of sample_stream) (concat [''z'', [char_of (10::nat)]]) = None"
    by (simp add: decode_byte_def sample_stream_sel c_string_of_def code_of_def strtoull_failed_def strtoull_def
        skip_space_def isspace_def strip_0x_def digit_in_base_def digit_value_def isdigit_def isupper_def islower_def)
  have "\<not> ok"
    using append_stream_chunked_equiv [OF _ sample_stream_sel(1,2) _ r] sample_stream_sel(3) d by simp
  then show ?thesis using r by blast
qed

theorem chunked_body_roundtrip_witness:
  "\<exists>ok job'. feed_reads sample_env sample_stream [take 4 (chunk_encode [''ab'', ''c'']), drop 4 (chunk_encode [''ab'', ''c''])] = (ok, job')
     \<and> ok \<and> j_handed job' 2 = Some CHR ''c''"
proof -
  let ?r = "[take 4 (chunk_encode [''ab'', ''c'']), drop 4 (chunk_encode [''ab'', ''c''])]"
  obtain ok job' where r: "feed_reads sample_env sample_stream ?r = (ok, job')" by fastforce
  have c: "concat ?r = chunk_encode [''ab'', ''c'']" by (simp only: concat.simps append_Nil2 append_take_drop_id)
  have "ok \<and> j_handed job' = write_bytes (\<lambda>_. None) 0 ''abc''"
    using chunked_body_roundtrip [OF _ sample_stream_sel(1-4) _ c r] by (simp add: sample_stream_sel)
  then show ?thesis using r by auto
qed

end
