(* ===== verification/Async_File.thy ===== *)
theory Async_File
  imports Job
begin

text \<open>
  The asynchronous file writer \<^verbatim>\<open>src/src/file_async.c\<close>: two swap buffers, one producer and a
  worker of the thread pool.  The operations are first given step by step, with the worker
  running between any two steps of the producer; a step that would wait on the condition
  variable is not enabled.  The content that the file will have, \<open>logical\<close>, overlays the disk
  with the buffer in flight and the buffer being filled; a write extends it, everything else
  keeps it, and a successful drain leaves it on the disk.
\<close>

subsection \<open>Data\<close>

record SwapBuffer =
  sb_offset :: u64
  sb_data :: bytes

text \<open>\<open>af_disk\<close> is what has been given to the operating system.\<close>

record AvarAsyncFile =
  af_disk :: "u64 \<Rightarrow> char option"
  af_bufs :: "SwapBuffer list"
  af_active :: nat
  af_pending :: "nat option"
  af_worker_queued :: bool
  af_failed :: bool

definition ASYNC_FILE_BUFFER_SIZE :: nat where
  "ASYNC_FILE_BUFFER_SIZE = 256 * 1024"

text \<open>The outcome of seek, write and flush: a short write leaves a prefix in the file.\<close>

datatype io_result = IoOk | IoSeekFailed | IoShort nat | IoFlushFailed

definition avar_async_file_open :: "(u64 \<Rightarrow> char option) \<Rightarrow> AvarAsyncFile" where
  "avar_async_file_open disk = \<lparr>af_disk = disk, af_bufs = replicate 2 \<lparr>sb_offset = 0, sb_data = []\<rparr>,
     af_active = 0, af_pending = None, af_worker_queued = False, af_failed = False\<rparr>"

abbreviation active_buf :: "AvarAsyncFile \<Rightarrow> SwapBuffer" where
  "active_buf f \<equiv> af_bufs f ! af_active f"

definition put_buf :: "nat \<Rightarrow> SwapBuffer \<Rightarrow> AvarAsyncFile \<Rightarrow> AvarAsyncFile" where
  "put_buf i b f = f\<lparr>af_bufs := (af_bufs f)[i := b]\<rparr>"

definition async_file_write_buffer :: "io_result \<Rightarrow> AvarAsyncFile \<Rightarrow> SwapBuffer \<Rightarrow> bool \<times> AvarAsyncFile" where
  "async_file_write_buffer io f buf =
     (case io of
        IoSeekFailed \<Rightarrow> (False, f)
      | IoShort n \<Rightarrow>
          (length (sb_data buf) \<le> n,
           f\<lparr>af_disk := write_bytes (af_disk f) (sb_offset buf) (take n (sb_data buf))\<rparr>)
      | IoFlushFailed \<Rightarrow> (False, f\<lparr>af_disk := write_bytes (af_disk f) (sb_offset buf) (sb_data buf)\<rparr>)
      | IoOk \<Rightarrow> (True, f\<lparr>af_disk := write_bytes (af_disk f) (sb_offset buf) (sb_data buf)\<rparr>))"

subsection \<open>The producer\<close>

text \<open>\<open>async_file_submit_locked\<close>: \<open>None\<close> when it has to wait for the hand-off before.  \<open>pool\<close>
  tells whether the pool took the task; otherwise the buffer is written inline.\<close>

definition async_file_submit_locked :: "bool \<Rightarrow> io_result \<Rightarrow> AvarAsyncFile \<Rightarrow> AvarAsyncFile option" where
  "async_file_submit_locked pool io f =
     (if sb_data (active_buf f) = [] then Some f
      else if af_pending f \<noteq> None then None
      else if af_failed f then Some (put_buf (af_active f) ((active_buf f)\<lparr>sb_data := []\<rparr>) f)
      else let i = af_active f;
               f = f\<lparr>af_pending := Some i, af_active := 1 - i\<rparr>;
               f = put_buf (af_active f) ((active_buf f)\<lparr>sb_data := []\<rparr>) f
           in if \<not> af_worker_queued f
              then if pool then Some (f\<lparr>af_worker_queued := True\<rparr>)
                   else let (ok, f) = async_file_write_buffer io f (af_bufs f ! i);
                            f = (if \<not> ok then f\<lparr>af_failed := True\<rparr> else f)
                        in Some (f\<lparr>af_pending := None\<rparr>)
              else Some f)"

text \<open>One round of the loop of \<open>avar_async_file_write\<close>, with data left and no error: the buffer is
  submitted when the write does not continue it or it is full, otherwise it takes as many
  bytes as fit.\<close>

definition write_round ::
  "bool \<Rightarrow> io_result \<Rightarrow> AvarAsyncFile \<Rightarrow> u64 \<Rightarrow> bytes \<Rightarrow> (AvarAsyncFile \<times> u64 \<times> bytes) option" where
  "write_round pool io f offset data =
     (let buf = active_buf f in
      if sb_data buf \<noteq> [] \<and> offset \<noteq> sb_offset buf + of_nat (length (sb_data buf))
      then map_option (\<lambda>f. (f, offset, data)) (async_file_submit_locked pool io f)
      else let buf = (if sb_data buf = [] then buf\<lparr>sb_offset := offset\<rparr> else buf);
               room = ASYNC_FILE_BUFFER_SIZE - length (sb_data buf) in
        if room = 0
        then map_option (\<lambda>f. (f, offset, data)) (async_file_submit_locked pool io f)
        else let chunk = (if length data < room then length data else room)
             in Some (put_buf (af_active f) (buf\<lparr>sb_data := sb_data buf @ take chunk data\<rparr>) f,
                      offset + of_nat chunk, drop chunk data))"

subsection \<open>Content\<close>

definition overlay :: "(u64 \<Rightarrow> char option) \<Rightarrow> SwapBuffer \<Rightarrow> (u64 \<Rightarrow> char option)" where
  "overlay d b = write_bytes d (sb_offset b) (sb_data b)"

definition logical :: "AvarAsyncFile \<Rightarrow> u64 \<Rightarrow> char option" where
  "logical f = overlay (case af_pending f of None \<Rightarrow> af_disk f | Some i \<Rightarrow> overlay (af_disk f) (af_bufs f ! i))
     (active_buf f)"

text \<open>The two buffers exist, the one in flight is not the one being filled, and a buffer in flight
  has a worker.\<close>

definition af_wf :: "AvarAsyncFile \<Rightarrow> bool" where
  "af_wf f \<longleftrightarrow> length (af_bufs f) = 2 \<and> af_active f < 2
     \<and> (\<forall>i. af_pending f = Some i \<longrightarrow> i < 2 \<and> i \<noteq> af_active f)
     \<and> (af_pending f \<noteq> None \<longleftrightarrow> af_worker_queued f)
     \<and> (\<forall>b\<in>set (af_bufs f). length (sb_data b) \<le> ASYNC_FILE_BUFFER_SIZE)"

lemma overlay_empty [simp]: "sb_data b = [] \<Longrightarrow> overlay d b = d"
  by (simp add: overlay_def)


lemma put_buf_sel [simp]:
  "af_disk (put_buf i b f) = af_disk f" "af_active (put_buf i b f) = af_active f"
  "af_pending (put_buf i b f) = af_pending f" "af_failed (put_buf i b f) = af_failed f"
  "af_worker_queued (put_buf i b f) = af_worker_queued f" "af_bufs (put_buf i b f) = (af_bufs f)[i := b]"
  by (simp_all add: put_buf_def)

subsection \<open>The worker\<close>

text \<open>Where the task of the pool is: waiting in the pool's queue, writing a buffer without the lock,
  or about to take the lock again with the outcome.\<close>

datatype worker = W_Idle | W_Queued | W_Writing nat | W_Wrote bool

text \<open>The loop test of \<open>async_file_worker\<close>, with the lock held.\<close>

definition worker_check :: "AvarAsyncFile \<Rightarrow> worker \<times> AvarAsyncFile" where
  "worker_check f = (case af_pending f of Some i \<Rightarrow> (W_Writing i, f)
                     | None \<Rightarrow> (W_Idle, f\<lparr>af_worker_queued := False\<rparr>))"

definition worker_finish :: "bool \<Rightarrow> AvarAsyncFile \<Rightarrow> worker \<times> AvarAsyncFile" where
  "worker_finish ok f =
     (let f = (if \<not> ok then f\<lparr>af_failed := True\<rparr> else f) in worker_check (f\<lparr>af_pending := None\<rparr>))"

subsection \<open>Producer and worker interleaved\<close>

text \<open>What the calling thread is in: no call, \<open>avar_async_file_write\<close> with the bytes left,
  \<open>avar_async_file_drain\<close> before its submit and in its wait, called on its own, by
  \<open>avar_async_file_sync\<close> or by \<open>avar_async_file_close\<close>; the wait of \<open>avar_async_file_close\<close> for
  the worker, with the result of the sync; after it.\<close>

datatype purpose = ForDrain | ForSync | ForClose

datatype producer = P_Idle | P_Write u64 bytes | P_Drain purpose | P_Wait purpose | P_Closing int | P_Closed

text \<open>\<open>r_spec\<close> is the content that the calls so far ask for; no step reads it.\<close>

record af_run =
  r_file :: AvarAsyncFile
  r_prod :: producer
  r_work :: worker
  r_rc :: int
  r_spec :: "u64 \<Rightarrow> char option"

definition avar_async_file_error :: "AvarAsyncFile \<Rightarrow> int" where
  "avar_async_file_error f = (if af_failed f then -1 else 0)"

text \<open>\<open>avar_async_file_sync\<close> after its drain; \<open>synced\<close> is the answer of \<open>file_sync_to_disk\<close>.\<close>

definition sync_result :: "bool \<Rightarrow> AvarAsyncFile \<Rightarrow> int \<times> AvarAsyncFile" where
  "sync_result synced f =
     (if avar_async_file_error f \<noteq> 0 then (-1, f)
      else if \<not> synced then (-1, f\<lparr>af_failed := True\<rparr>) else (0, f))"

definition close_result :: "int \<Rightarrow> bool \<Rightarrow> int" where
  "close_result rc fclose_ok = (if rc = 0 \<and> fclose_ok then 0 else -1)"

text \<open>A task that the step has submitted is in the pool's queue.\<close>

definition after_submit :: "af_run \<Rightarrow> AvarAsyncFile \<Rightarrow> worker" where
  "after_submit c f = (if af_worker_queued f \<and> \<not> af_worker_queued (r_file c) then W_Queued else r_work c)"

inductive af_call :: "af_run \<Rightarrow> af_run \<Rightarrow> bool" where
  begin_write: "r_prod c = P_Idle \<Longrightarrow>
     af_call c (c\<lparr>r_prod := P_Write off data, r_spec := write_bytes (r_spec c) off data\<rparr>)"
| begin_drain: "r_prod c = P_Idle \<Longrightarrow> af_call c (c\<lparr>r_prod := P_Drain k\<rparr>)"

inductive af_internal :: "af_run \<Rightarrow> af_run \<Rightarrow> bool" where
  round: "r_prod c = P_Write off data \<Longrightarrow> data \<noteq> [] \<Longrightarrow> \<not> af_failed (r_file c) \<Longrightarrow>
     write_round pool io (r_file c) off data = Some (f, off', data') \<Longrightarrow>
     af_internal c (c\<lparr>r_file := f, r_prod := P_Write off' data', r_work := after_submit c f\<rparr>)"
| write_end: "r_prod c = P_Write off data \<Longrightarrow> data = [] \<or> af_failed (r_file c) \<Longrightarrow>
     af_internal c (c\<lparr>r_prod := P_Idle, r_rc := avar_async_file_error (r_file c)\<rparr>)"
| drain_submit: "r_prod c = P_Drain k \<Longrightarrow> async_file_submit_locked pool io (r_file c) = Some f \<Longrightarrow>
     af_internal c (c\<lparr>r_file := f, r_prod := P_Wait k, r_work := after_submit c f\<rparr>)"
| drain_end: "r_prod c = P_Wait ForDrain \<Longrightarrow> af_pending (r_file c) = None \<Longrightarrow>
     af_internal c (c\<lparr>r_prod := P_Idle, r_rc := avar_async_file_error (r_file c)\<rparr>)"
| sync_end: "r_prod c = P_Wait ForSync \<Longrightarrow> af_pending (r_file c) = None \<Longrightarrow>
     sync_result synced (r_file c) = (rc, f) \<Longrightarrow>
     af_internal c (c\<lparr>r_file := f, r_prod := P_Idle, r_rc := rc\<rparr>)"
| close_sync: "r_prod c = P_Wait ForClose \<Longrightarrow> af_pending (r_file c) = None \<Longrightarrow>
     sync_result synced (r_file c) = (rc, f) \<Longrightarrow>
     af_internal c (c\<lparr>r_file := f, r_prod := P_Closing rc\<rparr>)"
| close_end: "r_prod c = P_Closing rc \<Longrightarrow> \<not> af_worker_queued (r_file c) \<Longrightarrow>
     af_internal c (c\<lparr>r_prod := P_Closed, r_rc := close_result rc fclose_ok\<rparr>)"
| pick: "r_work c = W_Queued \<Longrightarrow> worker_check (r_file c) = (w, f) \<Longrightarrow>
     af_internal c (c\<lparr>r_file := f, r_work := w\<rparr>)"
| write_out: "r_work c = W_Writing i \<Longrightarrow>
     async_file_write_buffer io (r_file c) (af_bufs (r_file c) ! i) = (ok, f) \<Longrightarrow>
     af_internal c (c\<lparr>r_file := f, r_work := W_Wrote ok\<rparr>)"
| finish: "r_work c = W_Wrote ok \<Longrightarrow> worker_finish ok (r_file c) = (w, f) \<Longrightarrow>
     af_internal c (c\<lparr>r_file := f, r_work := w\<rparr>)"

definition af_step :: "af_run \<Rightarrow> af_run \<Rightarrow> bool" where
  "af_step c c' \<longleftrightarrow> af_call c c' \<or> af_internal c c'"

definition fresh_run :: "(u64 \<Rightarrow> char option) \<Rightarrow> af_run" where
  "fresh_run d = \<lparr>r_file = avar_async_file_open d, r_prod = P_Idle, r_work = W_Idle, r_rc = 0, r_spec = d\<rparr>"

definition af_reachable :: "af_run \<Rightarrow> bool" where
  "af_reachable c \<longleftrightarrow> (\<exists>d. af_step\<^sup>*\<^sup>* (fresh_run d) c)"

subsection \<open>The invariant\<close>

fun pending_bytes :: "producer \<Rightarrow> (u64 \<Rightarrow> char option) \<Rightarrow> (u64 \<Rightarrow> char option)" where
  "pending_bytes (P_Write off data) d = write_bytes d off data"
| "pending_bytes _ d = d"

text \<open>Where the worker is agrees with the flags, and a buffer reported as written is on the disk.\<close>

definition work_ok :: "AvarAsyncFile \<Rightarrow> worker \<Rightarrow> bool" where
  "work_ok f w \<longleftrightarrow> (case w of
      W_Idle \<Rightarrow> af_pending f = None
    | W_Queued \<Rightarrow> af_pending f \<noteq> None
    | W_Writing i \<Rightarrow> af_pending f = Some i
    | W_Wrote ok \<Rightarrow> (\<exists>i. af_pending f = Some i \<and> (ok \<longrightarrow> overlay (af_disk f) (af_bufs f ! i) = af_disk f)))"

definition af_inv :: "af_run \<Rightarrow> bool" where
  "af_inv c \<longleftrightarrow> af_wf (r_file c) \<and> work_ok (r_file c) (r_work c)
     \<and> (\<not> af_failed (r_file c) \<and> r_work c \<noteq> W_Wrote False \<longrightarrow>
          pending_bytes (r_prod c) (logical (r_file c)) = r_spec c)
     \<and> ((\<exists>k. r_prod c = P_Wait k) \<or> (\<exists>rc. r_prod c = P_Closing rc) \<longrightarrow> sb_data (active_buf (r_file c)) = [])
     \<and> (\<forall>rc. r_prod c = P_Closing rc \<longrightarrow> af_pending (r_file c) = None \<and> (rc = 0 \<longrightarrow> \<not> af_failed (r_file c))
          \<and> (rc \<noteq> 0 \<longrightarrow> af_failed (r_file c)))"

lemma write_buffer_ok:
  "async_file_write_buffer io f b = (True, f') \<Longrightarrow> f' = f\<lparr>af_disk := overlay (af_disk f) b\<rparr>"
  by (auto simp: async_file_write_buffer_def overlay_def split: io_result.splits)

lemma write_buffer_frame:
  "async_file_write_buffer io f b = (ok, f') \<Longrightarrow> \<exists>d. f' = f\<lparr>af_disk := d\<rparr>"
  by (rule exI [of _ "af_disk f'"]) (auto simp: async_file_write_buffer_def split: io_result.splits)

lemma overlay_twice: "length (sb_data b) \<le> ASYNC_FILE_BUFFER_SIZE \<Longrightarrow> overlay (overlay d b) b = overlay d b"
  by (simp add: overlay_def write_bytes_twice ASYNC_FILE_BUFFER_SIZE_def)

text \<open>What a submit leaves, in its four outcomes.\<close>

lemma submit_cases:
  assumes "async_file_submit_locked pool io f = Some f'" "af_wf f"
  obtains (empty) "f' = f" "sb_data (active_buf f) = []"
  | (failed) "af_failed f" "f' = put_buf (af_active f) ((active_buf f)\<lparr>sb_data := []\<rparr>) f" "af_pending f = None"
  | (handed) d where "af_pending f = None" "\<not> af_failed f" "sb_data (active_buf f) \<noteq> []"
      "f' = put_buf (1 - af_active f) ((af_bufs f ! (1 - af_active f))\<lparr>sb_data := []\<rparr>)
              (f\<lparr>af_pending := Some (af_active f), af_active := 1 - af_active f, af_worker_queued := True\<rparr>)"
  | (inline) d b where "af_pending f = None" "\<not> af_failed f" "sb_data (active_buf f) \<noteq> []"
      "b \<or> d = overlay (af_disk f) (active_buf f)"
      "f' = (put_buf (1 - af_active f) ((af_bufs f ! (1 - af_active f))\<lparr>sb_data := []\<rparr>)
              (f\<lparr>af_active := 1 - af_active f\<rparr>))\<lparr>af_disk := d, af_failed := b\<rparr>"
proof (cases "sb_data (active_buf f) = []")
  case True then show ?thesis using assms(1) by (intro that(1)) (auto simp: async_file_submit_locked_def)
next
  case False
  note ne = this
  have pend: "af_pending f = None"
    using assms(1) False by (auto simp: async_file_submit_locked_def split: if_splits)
  show ?thesis
  proof (cases "af_failed f")
    case True then show ?thesis using assms(1) False pend by (intro that(2)) (auto simp: async_file_submit_locked_def)
  next
    case nf: False
    have nq: "\<not> af_worker_queued f" using assms(2) pend by (simp add: af_wf_def)
    have act: "af_active f < 2" using assms(2) by (simp add: af_wf_def)
    define g where "g = put_buf (1 - af_active f) ((af_bufs f ! (1 - af_active f))\<lparr>sb_data := []\<rparr>)
              (f\<lparr>af_pending := Some (af_active f), af_active := 1 - af_active f\<rparr>)"
    show ?thesis
    proof (cases pool)
      case True
      then have "f' = g\<lparr>af_worker_queued := True\<rparr>"
        using assms(1) False pend nf nq by (simp add: async_file_submit_locked_def g_def put_buf_def Let_def)
      then show ?thesis using False pend nf by (intro that(3)) (auto simp: g_def put_buf_def)
    next
      case False
      have same: "af_bufs g ! af_active f = active_buf f" using act by (auto simp: g_def put_buf_def nth_list_update less_2_cases_iff)
      obtain ok h where w: "async_file_write_buffer io g (af_bufs g ! af_active f) = (ok, h)" by fastforce
      obtain d where d: "h = g\<lparr>af_disk := d\<rparr>" using write_buffer_frame [OF w] by auto
      have "f' = (if \<not> ok then h\<lparr>af_failed := True\<rparr> else h)\<lparr>af_pending := None\<rparr>"
        using assms(1) ne False pend nf nq w
        by (simp add: async_file_submit_locked_def g_def put_buf_def Let_def)
      then have "f' = (put_buf (1 - af_active f) ((af_bufs f ! (1 - af_active f))\<lparr>sb_data := []\<rparr>)
              (f\<lparr>af_active := 1 - af_active f\<rparr>))\<lparr>af_disk := d, af_failed := \<not> ok\<rparr>"
        using pend nf by (cases ok) (simp_all add: d g_def put_buf_def)
      moreover have "\<not> ok \<or> d = overlay (af_disk f) (active_buf f)"
        using w d same write_buffer_ok [of io g "active_buf f" h]
        by (cases ok) (auto simp: g_def put_buf_def dest: arg_cong [where f = af_disk])
      ultimately show ?thesis using ne pend nf by (intro that(4)) auto
    qed
  qed
qed


lemma submit_wf:
  assumes "async_file_submit_locked pool io f = Some f'" "af_wf f"
  shows "af_wf f'"
  using assms(2) by (cases rule: submit_cases [OF assms])
    (auto simp: af_wf_def less_2_cases_iff dest!: set_update_memI set_update_subset_insert [THEN subsetD])

text \<open>A submit that ends without an error loses no byte.\<close>

lemma submit_content:
  assumes "async_file_submit_locked pool io f = Some f'" "af_wf f" "\<not> af_failed f'"
  shows "logical f' = logical f"
proof -
  have two: "af_active f < 2" "length (af_bufs f) = 2" using assms(2) by (simp_all add: af_wf_def)
  show ?thesis using assms(3) two by (cases rule: submit_cases [OF assms(1,2)])
    (auto simp: logical_def less_2_cases_iff split: option.splits)
qed

lemma submit_empties:
  assumes "async_file_submit_locked pool io f = Some f'" "af_wf f"
  shows "sb_data (active_buf f') = []"
proof -
  have two: "af_active f < 2" "length (af_bufs f) = 2" using assms(2) by (simp_all add: af_wf_def)
  show ?thesis using two by (cases rule: submit_cases [OF assms]) (auto simp: less_2_cases_iff)
qed

lemma submit_failed_mono:
  assumes "async_file_submit_locked pool io f = Some f'" "af_wf f" "af_failed f"
  shows "af_failed f'"
  using assms(3) by (cases rule: submit_cases [OF assms(1,2)]) auto

text \<open>What the worker sees changes by a submit only when nothing was in flight.\<close>

lemma submit_work:
  assumes "async_file_submit_locked pool io f = Some f'" "af_wf f" "work_ok f w"
  shows "work_ok f' (if af_worker_queued f' \<and> \<not> af_worker_queued f then W_Queued else w)"
  using assms(2,3) by (cases rule: submit_cases [OF assms(1,2)])
    (auto simp: work_ok_def af_wf_def split: worker.splits)

text \<open>A round of the write loop is a submit or moves bytes into the active buffer.\<close>

lemma write_round_cases:
  assumes "write_round pool io f off data = Some (f', off', data')"
  obtains (submit) "async_file_submit_locked pool io f = Some f'" "off' = off" "data' = data"
      "sb_data (active_buf f) \<noteq> []"
  | (copy) n buf where "sb_data buf = sb_data (active_buf f)"
      "sb_offset buf = (if sb_data (active_buf f) = [] then off else sb_offset (active_buf f))"
      "off = sb_offset buf + of_nat (length (sb_data buf))" "n \<le> length data"
      "data \<noteq> [] \<longrightarrow> 0 < n" "length (sb_data buf) + n \<le> ASYNC_FILE_BUFFER_SIZE \<or> n = 0"
      "f' = put_buf (af_active f) (buf\<lparr>sb_data := sb_data buf @ take n data\<rparr>) f"
      "off' = off + of_nat n" "data' = drop n data"
proof -
  define b where "b = active_buf f"
  show ?thesis
  proof (cases "sb_data b \<noteq> [] \<and> off \<noteq> sb_offset b + of_nat (length (sb_data b))")
    case True then show ?thesis using assms by (intro that(1)) (auto simp: write_round_def b_def)
  next
    case cont: False
    define buf where "buf = (if sb_data b = [] then b\<lparr>sb_offset := off\<rparr> else b)"
    have len: "length (sb_data buf) = length (sb_data b)" by (simp add: buf_def)
    show ?thesis
    proof (cases "ASYNC_FILE_BUFFER_SIZE - length (sb_data b) = 0")
      case True
      then have "sb_data b \<noteq> []" by (auto simp: ASYNC_FILE_BUFFER_SIZE_def)
      then show ?thesis using assms True cont by (intro that(1)) (auto simp: write_round_def b_def Let_def)
    next
      case False
      define n where "n = (if length data < ASYNC_FILE_BUFFER_SIZE - length (sb_data b) then length data
                           else ASYNC_FILE_BUFFER_SIZE - length (sb_data b))"
      have "write_round pool io f off data
              = Some (put_buf (af_active f) (buf\<lparr>sb_data := sb_data buf @ take n data\<rparr>) f, off + of_nat n, drop n data)"
        using cont False unfolding write_round_def Let_def b_def [symmetric] buf_def [symmetric]
        by (auto simp: len n_def)
      then show ?thesis using assms cont False
        by (intro that(2) [of buf n]) (auto simp: buf_def b_def [symmetric] n_def)
    qed
  qed
qed


lemma write_round_wf:
  assumes "write_round pool io f off data = Some (f', off', data')" "af_wf f"
  shows "af_wf f'"
  using assms(2) submit_wf [OF _ assms(2)]
  by (cases rule: write_round_cases [OF assms(1)])
    (auto simp: af_wf_def dest!: set_update_subset_insert [THEN subsetD])

lemma write_round_work:
  assumes "write_round pool io f off data = Some (f', off', data')" "af_wf f" "work_ok f w"
  shows "work_ok f' (if af_worker_queued f' \<and> \<not> af_worker_queued f then W_Queued else w)"
proof (rule write_round_cases [OF assms(1)])
  assume "async_file_submit_locked pool io f = Some f'"
  then show ?thesis using assms(2,3) by (rule submit_work)
next
  fix n buf assume "f' = put_buf (af_active f) (buf\<lparr>sb_data := sb_data buf @ take n data\<rparr>) f"
  then show ?thesis using assms(2,3) by (auto simp: work_ok_def af_wf_def split: worker.splits)
qed

lemma write_round_content:
  assumes "write_round pool io f off data = Some (f', off', data')" "af_wf f" "\<not> af_failed f'"
  shows "write_bytes (logical f') off' data' = write_bytes (logical f) off data"
proof (rule write_round_cases [OF assms(1)])
  assume "async_file_submit_locked pool io f = Some f'" "off' = off" "data' = data"
  then show ?thesis using submit_content [OF _ assms(2,3)] by simp
next
  fix n buf
  assume a: "sb_data buf = sb_data (active_buf f)"
    "sb_offset buf = (if sb_data (active_buf f) = [] then off else sb_offset (active_buf f))"
    "off = sb_offset buf + of_nat (length (sb_data buf))" "n \<le> length data"
    "f' = put_buf (af_active f) (buf\<lparr>sb_data := sb_data buf @ take n data\<rparr>) f"
    "off' = off + of_nat n" "data' = drop n data"
  define d where "d = (case af_pending f of None \<Rightarrow> af_disk f | Some i \<Rightarrow> overlay (af_disk f) (af_bufs f ! i))"
  have wf: "af_active f < length (af_bufs f)" "\<forall>i. af_pending f = Some i \<longrightarrow> i \<noteq> af_active f"
    using assms(2) by (auto simp: af_wf_def)
  have old: "logical f = write_bytes d (sb_offset buf) (sb_data buf)"
    using a(1,2) by (auto simp: logical_def d_def [symmetric] overlay_def)
  have "logical f' = write_bytes d (sb_offset buf) (sb_data buf @ take n data)"
    using wf by (auto simp: logical_def a(5) d_def overlay_def split: option.splits)
  also have "\<dots> = write_bytes (logical f) off (take n data)"
    unfolding old by (subst write_bytes_append) (simp add: a(3) [symmetric])
  finally have "write_bytes (logical f') off' data' = write_bytes (logical f) off (take n data @ drop n data)"
    using a(4) by (simp only: write_bytes_append a(6,7) length_take min_absorb2)
  then show ?thesis by simp
qed

lemma write_round_failed:
  assumes "write_round pool io f off data = Some (f', off', data')" "af_wf f" "af_failed f"
  shows "af_failed f'"
  using assms(3) submit_failed_mono [OF _ assms(2,3)]
  by (cases rule: write_round_cases [OF assms(1)]) auto

text \<open>The worker's steps.\<close>

lemma worker_finish_eq:
  "worker_finish ok f = (W_Idle, f\<lparr>af_failed := af_failed f \<or> \<not> ok, af_pending := None, af_worker_queued := False\<rparr>)"
  by (simp add: worker_finish_def worker_check_def Let_def)

lemma worker_finish_content:
  "overlay (af_disk f) (af_bufs f ! i) = af_disk f \<Longrightarrow> af_pending f = Some i \<Longrightarrow>
   logical (f\<lparr>af_failed := b, af_pending := None, af_worker_queued := q\<rparr>) = logical f"
  by (simp add: logical_def)

lemma write_out_content:
  "af_pending f = Some i \<Longrightarrow> length (sb_data (af_bufs f ! i)) \<le> ASYNC_FILE_BUFFER_SIZE \<Longrightarrow>
   logical (f\<lparr>af_disk := overlay (af_disk f) (af_bufs f ! i)\<rparr>) = logical f"
  by (simp add: logical_def overlay_twice)

lemma af_wf_disk [simp]: "af_wf (f\<lparr>af_disk := d\<rparr>) = af_wf f"
  by (simp add: af_wf_def)

lemma af_wf_finish: "af_wf f \<Longrightarrow> af_wf (f\<lparr>af_failed := b, af_pending := None, af_worker_queued := False\<rparr>)"
  by (simp add: af_wf_def)

lemma set_failed_simps [simp]:
  "af_wf (f\<lparr>af_failed := b\<rparr>) = af_wf f" "work_ok (f\<lparr>af_failed := b\<rparr>) w = work_ok f w"
  "logical (f\<lparr>af_failed := b\<rparr>) = logical f"
  by (simp_all add: af_wf_def work_ok_def logical_def cong: option.case_cong worker.case_cong)

lemma sync_result_cases:
  assumes "sync_result synced f = (rc, f')"
  obtains "rc = 0" "f' = f" "\<not> af_failed f" | "rc = -1" "f' = f\<lparr>af_failed := True\<rparr>"
proof (cases "rc = 0")
  case True
  then show ?thesis using assms by (intro that(1)) (auto simp: sync_result_def avar_async_file_error_def split: if_splits)
next
  case False
  then have "rc = -1 \<and> f' = f\<lparr>af_failed := True\<rparr>"
    using assms by (auto simp: sync_result_def avar_async_file_error_def split: if_splits)
  then show ?thesis by (intro that(2)) auto
qed

inductive_cases af_internal_E: "af_internal c c'"
inductive_cases af_call_E: "af_call c c'"

lemma af_inv_fresh: "af_inv (fresh_run d)"
  by (simp add: af_inv_def fresh_run_def avar_async_file_open_def af_wf_def work_ok_def logical_def
      ASYNC_FILE_BUFFER_SIZE_def)

lemma af_inv_call: "af_call c c' \<Longrightarrow> af_inv c \<Longrightarrow> af_inv c'"
  by (erule af_call_E) (auto simp: af_inv_def)

lemma pending_buffer_small:
  "af_wf f \<Longrightarrow> af_pending f = Some i \<Longrightarrow> length (sb_data (af_bufs f ! i)) \<le> ASYNC_FILE_BUFFER_SIZE"
  by (auto simp: af_wf_def)

lemma after_submit_not_failed:
  "after_submit c f \<noteq> W_Wrote False \<Longrightarrow> work_ok (r_file c) (r_work c) \<Longrightarrow> af_wf (r_file c) \<Longrightarrow> r_work c \<noteq> W_Wrote False"
  by (auto simp: after_submit_def work_ok_def af_wf_def split: if_splits)

lemma af_inv_internal:
  assumes "af_internal c c'" "af_inv c"
  shows "af_inv c'"
proof -
  note I = assms(2) [unfolded af_inv_def]
  note wf = I [THEN conjunct1] and work = I [THEN conjunct2, THEN conjunct1]
  note content = I [THEN conjunct2, THEN conjunct2, THEN conjunct1]
  show ?thesis using assms(1)
  proof (rule af_internal_E)
    fix off data pool io f off' data'
    assume a: "c' = c\<lparr>r_file := f, r_prod := P_Write off' data', r_work := after_submit c f\<rparr>"
      "r_prod c = P_Write off data" "\<not> af_failed (r_file c)"
      "write_round pool io (r_file c) off data = Some (f, off', data')"
    show ?thesis
      using a(1,2,3) write_round_wf [OF a(4) wf] write_round_work [OF a(4) wf work] content
        write_round_content [OF a(4) wf] after_submit_not_failed [OF _ work wf, of f]
      by (auto simp: af_inv_def after_submit_def)
  next
    fix k pool io f
    assume a: "c' = c\<lparr>r_file := f, r_prod := P_Wait k, r_work := after_submit c f\<rparr>"
      "r_prod c = P_Drain k" "async_file_submit_locked pool io (r_file c) = Some f"
    show ?thesis
      using a(1,2) submit_wf [OF a(3) wf] submit_work [OF a(3) wf work] content submit_failed_mono [OF a(3) wf]
        submit_content [OF a(3) wf] submit_empties [OF a(3) wf] after_submit_not_failed [OF _ work wf, of f]
      by (auto simp: af_inv_def after_submit_def)
  next
    fix w f
    assume "c' = c\<lparr>r_file := f, r_work := w\<rparr>" "r_work c = W_Queued" "worker_check (r_file c) = (w, f)"
    then show ?thesis using I by (auto simp: af_inv_def worker_check_def work_ok_def split: option.splits)
  next
    fix i io ok f
    assume a: "c' = c\<lparr>r_file := f, r_work := W_Wrote ok\<rparr>" "r_work c = W_Writing i"
      "async_file_write_buffer io (r_file c) (af_bufs (r_file c) ! i) = (ok, f)"
    have p: "af_pending (r_file c) = Some i" using work a(2) by (simp add: work_ok_def)
    note small = pending_buffer_small [OF wf p]
    obtain d where d: "f = (r_file c)\<lparr>af_disk := d\<rparr>" using write_buffer_frame [OF a(3)] by auto
    show ?thesis
    proof (cases ok)
      case True
      have "f = (r_file c)\<lparr>af_disk := overlay (af_disk (r_file c)) (af_bufs (r_file c) ! i)\<rparr>"
        using a(3) True write_buffer_ok by simp
      then show ?thesis using a(1,2) I p True write_out_content [OF p small] overlay_twice [OF small]
        by (simp add: af_inv_def work_ok_def)
    next
      case False
      then show ?thesis using a(1,2) I p d by (simp add: af_inv_def work_ok_def)
    qed
  next
    fix ok w f
    assume a: "c' = c\<lparr>r_file := f, r_work := w\<rparr>" "r_work c = W_Wrote ok" "worker_finish ok (r_file c) = (w, f)"
    obtain i where i: "af_pending (r_file c) = Some i"
      "ok \<longrightarrow> overlay (af_disk (r_file c)) (af_bufs (r_file c) ! i) = af_disk (r_file c)"
      using work a(2) by (auto simp: work_ok_def)
    have f: "w = W_Idle" "f = (r_file c)\<lparr>af_failed := af_failed (r_file c) \<or> \<not> ok, af_pending := None, af_worker_queued := False\<rparr>"
      using a(3) by (auto simp: worker_finish_eq)
    show ?thesis using I a(1,2) f i af_wf_finish [OF wf] worker_finish_content [of "r_file c" i]
      by (auto simp: af_inv_def work_ok_def)
  next
    fix synced rc f
    assume a: "c' = c\<lparr>r_file := f, r_prod := P_Idle, r_rc := rc\<rparr>" "r_prod c = P_Wait ForSync"
      "sync_result synced (r_file c) = (rc, f)"
    show ?thesis using I a(1,2) by (cases rule: sync_result_cases [OF a(3)]) (auto simp: af_inv_def)
  next
    fix synced rc f
    assume a: "c' = c\<lparr>r_file := f, r_prod := P_Closing rc\<rparr>" "r_prod c = P_Wait ForClose"
      "af_pending (r_file c) = None" "sync_result synced (r_file c) = (rc, f)"
    show ?thesis using I a(1-3) by (cases rule: sync_result_cases [OF a(4)]) (auto simp: af_inv_def)
  qed (use I in \<open>auto simp: af_inv_def\<close>)
qed

lemma af_inv_reachable:
  assumes "af_reachable c" shows "af_inv c"
proof -
  obtain d where "af_step\<^sup>*\<^sup>* (fresh_run d) c" using assms by (auto simp: af_reachable_def)
  then show ?thesis
    by (induction rule: rtranclp_induct) (auto simp: af_inv_fresh af_step_def intro: af_inv_call af_inv_internal)
qed


subsection \<open>Every call returns\<close>

fun bytes_left :: "producer \<Rightarrow> nat" where
  "bytes_left (P_Write off data) = length data"
| "bytes_left _ = 0"

fun stage :: "producer \<Rightarrow> nat" where
  "stage P_Idle = 0" | "stage P_Closed = 0" | "stage (P_Closing _) = 1" | "stage (P_Wait _) = 2" | "stage (P_Drain _) = 3"
| "stage (P_Write _ _) = 3"

fun work_left :: "worker \<Rightarrow> nat" where
  "work_left W_Idle = 0" | "work_left (W_Wrote _) = 1" | "work_left (W_Writing _) = 2" | "work_left W_Queued = 3"

definition af_order :: "(af_run \<times> af_run) set" where
  "af_order = measures [bytes_left \<circ> r_prod, stage \<circ> r_prod,
     \<lambda>c. if sb_data (active_buf (r_file c)) = [] then 0 else 1, work_left \<circ> r_work]"

lemma wf_af_order: "wf af_order"
  by (simp add: af_order_def)

lemma write_buffer_active:
  "async_file_write_buffer io f b = (ok, f') \<Longrightarrow> active_buf f' = active_buf f"
  using write_buffer_frame by fastforce

lemma internal_decreases:
  assumes "af_internal c c'" "af_inv c"
  shows "(c', c) \<in> af_order"
  using assms(1)
proof (rule af_internal_E)
  fix off data pool io f off' data'
  assume a: "c' = c\<lparr>r_file := f, r_prod := P_Write off' data', r_work := after_submit c f\<rparr>"
    "r_prod c = P_Write off data" "data \<noteq> []" "write_round pool io (r_file c) off data = Some (f, off', data')"
  have wf: "af_wf (r_file c)" using assms(2) by (simp add: af_inv_def)
  show ?thesis
    using a(3) submit_empties [OF _ wf] by (cases rule: write_round_cases [OF a(4)]) (auto simp: a(1,2) af_order_def)
next
  fix w f
  assume "c' = c\<lparr>r_file := f, r_work := w\<rparr>" "r_work c = W_Queued" "worker_check (r_file c) = (w, f)"
  then show ?thesis by (auto simp: af_order_def worker_check_def split: option.splits)
next
  fix i io ok f
  assume "c' = c\<lparr>r_file := f, r_work := W_Wrote ok\<rparr>" "r_work c = W_Writing i"
    "async_file_write_buffer io (r_file c) (af_bufs (r_file c) ! i) = (ok, f)"
  then show ?thesis using write_buffer_active [of io "r_file c" _ ok f] by (simp add: af_order_def)
next
  fix ok w f
  assume "c' = c\<lparr>r_file := f, r_work := w\<rparr>" "r_work c = W_Wrote ok" "worker_finish ok (r_file c) = (w, f)"
  then show ?thesis by (auto simp: af_order_def worker_finish_eq)
qed (auto simp: af_order_def)

lemma submit_enabled: "af_pending f = None \<Longrightarrow> async_file_submit_locked True io f \<noteq> None"
  by (simp add: async_file_submit_locked_def Let_def)

lemma write_round_enabled:
  "af_pending f = None \<Longrightarrow> write_round True io f off data \<noteq> None"
  using submit_enabled by (simp add: write_round_def Let_def)

text \<open>With a buffer in flight the worker can move; without one the producer can.\<close>

lemma internal_enabled:
  assumes "af_inv c" "r_prod c \<noteq> P_Idle" "r_prod c \<noteq> P_Closed"
  shows "\<exists>c'. af_internal c c'"
proof (cases "af_pending (r_file c)")
  case None
  show ?thesis
  proof (cases "r_prod c")
    case (P_Write off data)
    show ?thesis
    proof (cases "data = [] \<or> af_failed (r_file c)")
      case False
      obtain f off' data' where "write_round True IoOk (r_file c) off data = Some (f, off', data')"
        using write_round_enabled [OF None] by fastforce
      then show ?thesis using P_Write False by (blast intro: round)
    qed (use P_Write in \<open>blast intro: write_end\<close>)
  next
    case (P_Drain k)
    obtain f where "async_file_submit_locked True IoOk (r_file c) = Some f" using submit_enabled [OF None] by blast
    then show ?thesis using P_Drain by (blast intro: drain_submit)
  next
    case (P_Wait k)
    obtain rc f where "sync_result True (r_file c) = (rc, f)" by fastforce
    then show ?thesis using None P_Wait by (cases k) (blast intro: drain_end sync_end close_sync)+
  next
    case (P_Closing rc)
    have "\<not> af_worker_queued (r_file c)" using None assms(1) by (simp add: af_inv_def af_wf_def)
    then show ?thesis using P_Closing by (blast intro: close_end)
  qed (use assms(2,3) in simp_all)
next
  case (Some i)
  then have w: "r_work c \<noteq> W_Idle" using assms(1) by (auto simp: af_inv_def work_ok_def)
  show ?thesis
  proof (cases "r_work c")
    case W_Queued
    obtain w f where "worker_check (r_file c) = (w, f)" by fastforce
    then show ?thesis using W_Queued by (blast intro: pick)
  next
    case (W_Writing i)
    obtain ok f where "async_file_write_buffer IoOk (r_file c) (af_bufs (r_file c) ! i) = (ok, f)" by fastforce
    then show ?thesis using W_Writing by (blast intro: write_out)
  next
    case (W_Wrote ok)
    obtain w f where "worker_finish ok (r_file c) = (w, f)" by fastforce
    then show ?thesis using W_Wrote by (blast intro: finish)
  qed (use w in simp)
qed

lemma no_endless_run:
  assumes "af_inv (s 0)" "\<And>n. af_internal (s n) (s (Suc n))"
  shows False
proof -
  have inv: "af_inv (s n)" for n by (induction n) (use assms af_inv_internal in blast)+
  show False using internal_decreases [OF assms(2) inv] wf_af_order wf_iff_no_infinite_down_chain by blast
qed

subsection \<open>Errors stay\<close>

lemma failed_internal:
  assumes "af_internal c c'" "af_inv c" "af_failed (r_file c)"
  shows "af_failed (r_file c')"
proof -
  have wf: "af_wf (r_file c)" using assms(2) by (simp add: af_inv_def)
  show ?thesis using assms(1)
    by (rule af_internal_E)
      (use wf assms(3) in \<open>auto intro: submit_failed_mono write_round_failed
        dest: write_buffer_frame elim!: sync_result_cases simp: worker_check_def worker_finish_eq split: option.splits\<close>)
qed

lemma failed_steps:
  assumes "af_step\<^sup>*\<^sup>* c c'" "af_inv c" "af_failed (r_file c)"
  shows "af_inv c' \<and> af_failed (r_file c')"
  using assms(1)
proof (induction rule: rtranclp_induct)
  case (step y z)
  from step(2) show ?case unfolding af_step_def
  proof
    assume "af_call y z" then show ?thesis using step(3) af_inv_call by (auto elim: af_call_E)
  qed (use step(3) af_inv_internal failed_internal in blast)
qed (use assms in simp)

lemma finished_call:
  assumes "af_internal c c'" "r_prod c \<noteq> r_prod c'" "r_prod c' = P_Idle \<or> r_prod c' = P_Closed"
    "af_inv c" "af_failed (r_file c)"
  shows "r_rc c' = -1"
  using assms(1)
  by (rule af_internal_E)
    (use assms(2-5) in \<open>auto simp: avar_async_file_error_def sync_result_def close_result_def af_inv_def split: if_splits\<close>)

text \<open>The disk holds the whole content when nothing is in flight and the active buffer is empty.\<close>

lemma quiet_content:
  assumes "af_inv c" "af_pending (r_file c) = None" "\<not> af_failed (r_file c)"
    "(\<exists>k. r_prod c = P_Wait k) \<or> (\<exists>rc. r_prod c = P_Closing rc)"
  shows "af_disk (r_file c) = r_spec c"
proof -
  have "r_work c \<noteq> W_Wrote False" using assms(1,2) by (auto simp: af_inv_def work_ok_def)
  then have "logical (r_file c) = r_spec c" using assms(1,3,4) by (auto simp: af_inv_def)
  then show ?thesis using assms(1,2,4) by (auto simp: logical_def af_inv_def)
qed

fun draining :: "producer \<Rightarrow> bool" where
  "draining (P_Wait k) = True" | "draining (P_Closing rc) = True" | "draining _ = False"

lemma drained:
  assumes "af_inv c" "af_internal c c'" "draining (r_prod c)" "\<not> draining (r_prod c')" "r_rc c' = 0"
  shows "af_disk (r_file c') = r_spec c'"
  using assms(2)
proof (rule af_internal_E)
  fix rc synced f
  assume a: "c' = c\<lparr>r_file := f, r_prod := P_Idle, r_rc := rc\<rparr>" "r_prod c = P_Wait ForSync"
    "af_pending (r_file c) = None" "sync_result synced (r_file c) = (rc, f)"
  then show ?thesis using assms(1,5) quiet_content [of c]
    by (auto simp: sync_result_def avar_async_file_error_def split: if_splits)
next
  fix rc fclose_ok
  assume a: "c' = c\<lparr>r_prod := P_Closed, r_rc := close_result rc fclose_ok\<rparr>" "r_prod c = P_Closing rc"
  then have "rc = 0" using assms(5) by (auto simp: close_result_def split: if_splits)
  then have "af_pending (r_file c) = None" "\<not> af_failed (r_file c)" using assms(1) a(2) by (auto simp: af_inv_def)
  then show ?thesis using quiet_content [OF assms(1)] a by simp
next
  assume "c' = c\<lparr>r_prod := P_Idle, r_rc := avar_async_file_error (r_file c)\<rparr>" "r_prod c = P_Wait ForDrain"
    "af_pending (r_file c) = None"
  then show ?thesis using assms(1,5) quiet_content [of c] by (auto simp: avar_async_file_error_def split: if_splits)
qed (use assms(3,4) in auto)

subsection \<open>A run\<close>

text \<open>Three bytes are written and the file is drained, the worker taking the buffer.\<close>

definition sample_disk :: "u64 \<Rightarrow> char option" where
  "sample_disk = (\<lambda>_. None)"

definition sample_waiting :: "bool \<Rightarrow> af_run" where
  "sample_waiting failed = \<lparr>r_file = \<lparr>af_disk = (if failed then sample_disk else write_bytes sample_disk 8 ''abc''),
      af_bufs = [\<lparr>sb_offset = 8, sb_data = ''abc''\<rparr>, \<lparr>sb_offset = 0, sb_data = []\<rparr>],
      af_active = 1, af_pending = None, af_worker_queued = False, af_failed = failed\<rparr>,
    r_prod = P_Wait ForDrain, r_work = W_Idle, r_rc = 0, r_spec = write_bytes sample_disk 8 ''abc''\<rparr>"

lemma sample_waiting_reachable: "af_reachable (sample_waiting failed)"
proof -
  define io where "io = (if failed then IoSeekFailed else IoOk)"
  define b where "b = \<lparr>sb_offset = 8, sb_data = ''abc''\<rparr>"
  define e where "e = \<lparr>sb_offset = 0, sb_data = ([] :: bytes)\<rparr>"
  define sp where "sp = write_bytes sample_disk 8 ''abc''"
  define c0 where "c0 = fresh_run sample_disk"
  define c1 where "c1 = c0\<lparr>r_prod := P_Write 8 ''abc'', r_spec := sp\<rparr>"
  define f2 where "f2 = (avar_async_file_open sample_disk)\<lparr>af_bufs := [b, e]\<rparr>"
  define c2 where "c2 = c1\<lparr>r_file := f2, r_prod := P_Write 11 []\<rparr>"
  define c3 where "c3 = c2\<lparr>r_prod := P_Idle, r_rc := 0\<rparr>"
  define c4 where "c4 = c3\<lparr>r_prod := P_Drain ForDrain\<rparr>"
  define f5 where "f5 = f2\<lparr>af_pending := Some 0, af_active := 1, af_worker_queued := True\<rparr>"
  define c5 where "c5 = c4\<lparr>r_file := f5, r_prod := P_Wait ForDrain, r_work := W_Queued\<rparr>"
  define c6 where "c6 = c5\<lparr>r_work := W_Writing 0\<rparr>"
  define d where "d = (if failed then sample_disk else sp)"
  define c7 where "c7 = c6\<lparr>r_file := f5\<lparr>af_disk := d\<rparr>, r_work := W_Wrote (\<not> failed)\<rparr>"
  define c8 where "c8 = c7\<lparr>r_file := f5\<lparr>af_disk := d, af_failed := failed, af_pending := None, af_worker_queued := False\<rparr>,
      r_work := W_Idle\<rparr>"
  note ds = c0_def c1_def c2_def c3_def c4_def c5_def c6_def c7_def c8_def f2_def f5_def b_def e_def fresh_run_def
    avar_async_file_open_def
  note rest = sp_def d_def put_buf_def Let_def ASYNC_FILE_BUFFER_SIZE_def
  have s1: "af_step c0 c1" using begin_write [of c0 8 "''abc''"] by (simp add: af_step_def ds rest)
  have r: "write_round True IoOk (r_file c1) 8 ''abc'' = Some (f2, 11, [])"
    by (simp add: write_round_def ds rest numeral_2_eq_2)
  have s2: "af_step c1 c2" using round [OF _ _ _ r] by (simp add: af_step_def after_submit_def ds rest)
  have s3: "af_step c2 c3" using write_end [of c2 11 "[]"] by (simp add: af_step_def avar_async_file_error_def ds rest)
  have s4: "af_step c3 c4" using begin_drain [of c3 ForDrain] by (simp add: af_step_def ds rest)
  have r: "async_file_submit_locked True IoOk (r_file c4) = Some f5"
    by (simp add: async_file_submit_locked_def ds rest numeral_2_eq_2)
  have s5: "af_step c4 c5" using drain_submit [OF _ r] by (simp add: af_step_def after_submit_def ds rest)
  have s6: "af_step c5 c6" using pick [of c5 "W_Writing 0" f5] by (simp add: af_step_def worker_check_def ds rest)
  have r: "async_file_write_buffer io (r_file c6) (af_bufs (r_file c6) ! 0) = (\<not> failed, f5\<lparr>af_disk := d\<rparr>)"
    by (simp add: async_file_write_buffer_def io_def ds rest)
  have s7: "af_step c6 c7" using write_out [OF _ r] by (simp add: af_step_def ds rest)
  have s8: "af_step c7 c8" using finish [of c7 "\<not> failed"] by (cases failed) (simp_all add: af_step_def worker_finish_eq c8_def ds rest)
  have "c8 = sample_waiting failed" by (simp add: sample_waiting_def ds rest)
  moreover have "af_step\<^sup>*\<^sup>* c0 c8"
    using s1 s2 s3 s4 s5 s6 s7 s8 by (meson rtranclp.rtrancl_refl rtranclp.rtrancl_into_rtrancl)
  ultimately show ?thesis unfolding af_reachable_def c0_def by auto
qed

lemma sample_waiting_ends:
  "af_internal (sample_waiting failed) ((sample_waiting failed)\<lparr>r_prod := P_Idle, r_rc := if failed then -1 else 0\<rparr>)"
  using drain_end [of "sample_waiting failed"] by (simp add: sample_waiting_def avar_async_file_error_def)

subsection \<open>Properties\<close>

text \<open>C4. However the pool's worker is interleaved with the calling thread, and whatever the pool and the disk
  answer: when a drain, a sync or the closing of the asynchronous file returns 0, the file given to the
  operating system holds exactly what all the writes so far put into it.\<close>

theorem drained_file_holds_all_writes:
  assumes "af_reachable c" "draining (r_prod c)" "af_internal c c'" "\<not> draining (r_prod c')" "r_rc c' = 0"
  shows "af_disk (r_file c') = r_spec c'"
  using drained [OF af_inv_reachable [OF assms(1)] assms(3,2,4,5)] .

theorem drained_file_holds_all_writes_witness:
  "\<exists>c' :: af_run. af_disk (r_file c') = r_spec c' \<and> r_spec c' 9 = Some CHR ''b''"
proof -
  let ?c = "(sample_waiting False)\<lparr>r_prod := P_Idle, r_rc := if False then -1 else 0\<rparr>"
  have "af_disk (r_file ?c) = r_spec ?c"
    by (rule drained_file_holds_all_writes [OF sample_waiting_reachable _ sample_waiting_ends])
      (simp_all add: sample_waiting_def)
  moreover have "r_spec ?c 9 = Some CHR ''b''" by (simp add: sample_waiting_def)
  ultimately show ?thesis by (intro exI [of _ ?c] conjI)
qed





end
