(* ===== verification/Json.thy ===== *)
theory Json
  imports CLib "HOL-Library.Log_Nat"
begin

text \<open>
  The interface to cJSON.  The library is a submodule whose sources are not in the repository, so
  its tree type \<open>'j\<close>, the text type \<open>'t\<close> of its documents and its functions are parameters,
  collected in the record \<open>cjson\<close>.  The predicate \<open>cjson_laws\<close> states what the code relies on of
  the documented behaviour: objects keep their members in order, a lookup finds the first member of
  a name, replacing and deleting act on the first member of a name, and printing a tree and parsing
  the text gives back the tree, as long as its numbers are integers below \<open>10\<^sup>15\<close> (longer ones are
  printed with 15 significant digits).  A lawful instance is given for the examples.

  Below are the conversions between \<open>uint64_t\<close> and \<open>double\<close> and the \<open>%.0f\<close> format.  A \<open>double\<close> is
  the rational number it stands for; infinities and NaN do not occur.
\<close>

subsection \<open>Numbers\<close>

text \<open>\<open>(double)n\<close>: 53 significant bits, to nearest, ties to even.\<close>

definition double_of_nat :: "nat \<Rightarrow> rat" where
  "double_of_nat n =
     (if n < 2 ^ 53 then of_nat n
      else let e = floorlog 2 n - 53; q = n div 2 ^ e; r = n mod 2 ^ e; half = 2 ^ e div 2;
               q = (if r > half \<or> (r = half \<and> odd q) then q + 1 else q)
           in of_nat (q * 2 ^ e))"

definition double_of_u64 :: "u64 \<Rightarrow> rat" where
  "double_of_u64 w = double_of_nat (unat w)"

text \<open>\<open>(uint64_t)d\<close> truncates; outside the range of the type C leaves the result undefined, here it
  is reduced.\<close>

definition u64_of_double :: "rat \<Rightarrow> u64" where
  "u64_of_double d = of_int (if 0 \<le> d then \<lfloor>d\<rfloor> else \<lceil>d\<rceil>)"

lemma double_of_u64_small: "unat w < 2 ^ 53 \<Longrightarrow> double_of_u64 w = of_nat (unat w)"
  by (simp add: double_of_u64_def double_of_nat_def)

lemma u64_double_roundtrip: "unat w < 2 ^ 53 \<Longrightarrow> u64_of_double (double_of_u64 w) = w"
  unfolding double_of_u64_small u64_of_double_def
  by (simp only: floor_of_nat of_nat_0_le_iff if_True of_int_of_nat_eq) simp

definition round_half_even :: "rat \<Rightarrow> int" where
  "round_half_even d =
     (let f = \<lfloor>d\<rfloor>; r = d - of_int f
      in if r < 1 / 2 then f else if r > 1 / 2 then f + 1 else if even f then f else f + 1)"

definition show_int :: "int \<Rightarrow> string" where
  "show_int i = (if i < 0 then CHR ''-'' # show_nat (nat (- i)) else show_nat (nat i))"

text \<open>\<open>snprintf\<close> with \<open>%.0f\<close> into a buffer of 64 bytes.\<close>

definition format_f0 :: "rat \<Rightarrow> string" where
  "format_f0 d = take 63 (let s = show_int (round_half_even d) in
     if d < 0 \<and> round_half_even d = 0 then CHR ''-'' # s else s)"

subsection \<open>The library\<close>

datatype json_kind = cJSON_NULL | cJSON_False | cJSON_True | cJSON_Number | cJSON_String | cJSON_Array | cJSON_Object

record ('j, 't) cjson =
  cJSON_type :: "'j \<Rightarrow> json_kind"
  valuestring :: "'j \<Rightarrow> cstring"
  valuedouble :: "'j \<Rightarrow> rat"
  json_children :: "'j \<Rightarrow> (string \<times> 'j) list"
  cJSON_CreateNull :: 'j
  cJSON_CreateBool :: "bool \<Rightarrow> 'j"
  cJSON_CreateNumber :: "rat \<Rightarrow> 'j"
  cJSON_CreateString :: "string \<Rightarrow> 'j"
  cJSON_CreateArray :: 'j
  cJSON_CreateObject :: 'j
  cJSON_GetObjectItemCaseSensitive :: "'j \<Rightarrow> string \<Rightarrow> 'j option"
  cJSON_AddItemToObject :: "'j \<Rightarrow> string \<Rightarrow> 'j \<Rightarrow> 'j"
  cJSON_ReplaceItemInObjectCaseSensitive :: "'j \<Rightarrow> string \<Rightarrow> 'j \<Rightarrow> 'j"
  cJSON_DeleteItemFromObjectCaseSensitive :: "'j \<Rightarrow> string \<Rightarrow> 'j"
  cJSON_AddItemToArray :: "'j \<Rightarrow> 'j \<Rightarrow> 'j"
  cJSON_ReplaceItemInArray :: "'j \<Rightarrow> nat \<Rightarrow> 'j \<Rightarrow> 'j"
  cJSON_DeleteItemFromArray :: "'j \<Rightarrow> nat \<Rightarrow> 'j"
  cJSON_Parse :: "'t \<Rightarrow> 'j option"
  cJSON_Print :: "'j \<Rightarrow> 't option"
  cJSON_PrintUnformatted :: "'j \<Rightarrow> 't option"

abbreviation json_items :: "('j, 't) cjson \<Rightarrow> 'j \<Rightarrow> 'j list" where
  "json_items J a \<equiv> map snd (json_children J a)"

definition cJSON_IsObject :: "('j, 't) cjson \<Rightarrow> 'j \<Rightarrow> bool" where
  "cJSON_IsObject J j \<longleftrightarrow> cJSON_type J j = cJSON_Object"

definition cJSON_IsArray :: "('j, 't) cjson \<Rightarrow> 'j \<Rightarrow> bool" where
  "cJSON_IsArray J j \<longleftrightarrow> cJSON_type J j = cJSON_Array"

definition cJSON_IsString :: "('j, 't) cjson \<Rightarrow> 'j \<Rightarrow> bool" where
  "cJSON_IsString J j \<longleftrightarrow> cJSON_type J j = cJSON_String"

definition cJSON_IsNumber :: "('j, 't) cjson \<Rightarrow> 'j \<Rightarrow> bool" where
  "cJSON_IsNumber J j \<longleftrightarrow> cJSON_type J j = cJSON_Number"

definition cJSON_IsTrue :: "('j, 't) cjson \<Rightarrow> 'j \<Rightarrow> bool" where
  "cJSON_IsTrue J j \<longleftrightarrow> cJSON_type J j = cJSON_True"

definition cJSON_IsBool :: "('j, 't) cjson \<Rightarrow> 'j \<Rightarrow> bool" where
  "cJSON_IsBool J j \<longleftrightarrow> cJSON_type J j = cJSON_True \<or> cJSON_type J j = cJSON_False"

lemmas json_kind_defs = cJSON_IsObject_def cJSON_IsArray_def cJSON_IsString_def cJSON_IsNumber_def
  cJSON_IsTrue_def cJSON_IsBool_def

fun replace_first :: "string \<Rightarrow> 'j \<Rightarrow> (string \<times> 'j) list \<Rightarrow> (string \<times> 'j) list" where
  "replace_first k v [] = []"
| "replace_first k v ((k', v') # xs) = (if k' = k then (k, v) # xs else (k', v') # replace_first k v xs)"

fun remove_first :: "string \<Rightarrow> (string \<times> 'j) list \<Rightarrow> (string \<times> 'j) list" where
  "remove_first k [] = []"
| "remove_first k ((k', v') # xs) = (if k' = k then xs else (k', v') # remove_first k xs)"

lemma map_of_replace_first [simp]:
  "map_of (replace_first k v xs) k' = (if k' = k \<and> map_of xs k \<noteq> None then Some v else map_of xs k')"
  by (induction xs) auto

lemma map_of_remove_first: "k' \<noteq> k \<Longrightarrow> map_of (remove_first k xs) k' = map_of xs k'"
  by (induction xs) auto

lemma map_of_snoc: "map_of (xs @ [(k, v)]) k' = (case map_of xs k' of Some x \<Rightarrow> Some x | None \<Rightarrow> if k' = k then Some v else None)"
  by (auto simp: map_add_def split: option.splits)

lemma replace_first_None: "map_of xs k = None \<Longrightarrow> replace_first k v xs = xs"
  by (induction xs) auto

lemma set_replace_first: "p \<in> set (replace_first k v xs) \<Longrightarrow> p = (k, v) \<or> p \<in> set xs"
  by (induction xs) (auto split: if_splits)

lemma set_remove_first: "set (remove_first k xs) \<subseteq> set xs"
  by (induction xs) (auto split: if_splits)

text \<open>Trees whose numbers survive printing.\<close>

inductive json_exact :: "('j, 't) cjson \<Rightarrow> 'j \<Rightarrow> bool" for J where
  json_exactI: "(cJSON_type J j = cJSON_Number \<Longrightarrow> \<exists>i::int. valuedouble J j = of_int i \<and> \<bar>i\<bar> < 10 ^ 15) \<Longrightarrow>
   (\<forall>v\<in>set (json_items J j). json_exact J v) \<Longrightarrow> json_exact J j"

text \<open>What the code relies on.\<close>

definition created_laws :: "('j, 't) cjson \<Rightarrow> bool" where
  "created_laws J \<longleftrightarrow>
     cJSON_type J (cJSON_CreateNull J) = cJSON_NULL \<and> json_children J (cJSON_CreateNull J) = []
   \<and> (\<forall>b. cJSON_type J (cJSON_CreateBool J b) = (if b then cJSON_True else cJSON_False)
         \<and> json_children J (cJSON_CreateBool J b) = [])
   \<and> (\<forall>d. cJSON_type J (cJSON_CreateNumber J d) = cJSON_Number \<and> json_children J (cJSON_CreateNumber J d) = []
         \<and> valuedouble J (cJSON_CreateNumber J d) = d)
   \<and> (\<forall>s. cJSON_type J (cJSON_CreateString J s) = cJSON_String \<and> json_children J (cJSON_CreateString J s) = []
         \<and> valuestring J (cJSON_CreateString J s) = Some s)
   \<and> cJSON_type J (cJSON_CreateArray J) = cJSON_Array \<and> json_children J (cJSON_CreateArray J) = []
   \<and> cJSON_type J (cJSON_CreateObject J) = cJSON_Object \<and> json_children J (cJSON_CreateObject J) = []"

definition object_laws :: "('j, 't) cjson \<Rightarrow> bool" where
  "object_laws J \<longleftrightarrow> (\<forall>ob k.
     cJSON_GetObjectItemCaseSensitive J ob k = (if cJSON_type J ob = cJSON_Object then map_of (json_children J ob) k else None)
   \<and> (cJSON_type J ob = cJSON_Object \<longrightarrow>
        (\<forall>v. cJSON_type J (cJSON_AddItemToObject J ob k v) = cJSON_Object
           \<and> json_children J (cJSON_AddItemToObject J ob k v) = json_children J ob @ [(k, v)]
           \<and> cJSON_type J (cJSON_ReplaceItemInObjectCaseSensitive J ob k v) = cJSON_Object
           \<and> json_children J (cJSON_ReplaceItemInObjectCaseSensitive J ob k v) = replace_first k v (json_children J ob))
      \<and> cJSON_type J (cJSON_DeleteItemFromObjectCaseSensitive J ob k) = cJSON_Object
      \<and> json_children J (cJSON_DeleteItemFromObjectCaseSensitive J ob k) = remove_first k (json_children J ob)))"

definition array_laws :: "('j, 't) cjson \<Rightarrow> bool" where
  "array_laws J \<longleftrightarrow> (\<forall>a. cJSON_type J a = cJSON_Array \<longrightarrow>
     (\<forall>v. cJSON_type J (cJSON_AddItemToArray J a v) = cJSON_Array
        \<and> json_items J (cJSON_AddItemToArray J a v) = json_items J a @ [v])
   \<and> (\<forall>i v. cJSON_type J (cJSON_ReplaceItemInArray J a i v) = cJSON_Array
        \<and> json_items J (cJSON_ReplaceItemInArray J a i v) = (json_items J a)[i := v])
   \<and> (\<forall>i. cJSON_type J (cJSON_DeleteItemFromArray J a i) = cJSON_Array
        \<and> json_items J (cJSON_DeleteItemFromArray J a i) = take i (json_items J a) @ drop (Suc i) (json_items J a)))"

definition print_laws :: "('j, 't) cjson \<Rightarrow> bool" where
  "print_laws J \<longleftrightarrow> (\<forall>j. json_exact J j \<longrightarrow>
     (\<exists>t. cJSON_Print J j = Some t \<and> cJSON_Parse J t = Some j)
   \<and> (\<exists>t. cJSON_PrintUnformatted J j = Some t \<and> cJSON_Parse J t = Some j))"

definition cjson_laws :: "('j, 't) cjson \<Rightarrow> bool" where
  "cjson_laws J \<longleftrightarrow> created_laws J \<and> object_laws J \<and> array_laws J \<and> print_laws J"

lemma cjson_created [simp]:
  assumes "cjson_laws J"
  shows "cJSON_type J (cJSON_CreateNull J) = cJSON_NULL" "json_children J (cJSON_CreateNull J) = []"
    "cJSON_type J (cJSON_CreateBool J b) = (if b then cJSON_True else cJSON_False)"
    "json_children J (cJSON_CreateBool J b) = []"
    "cJSON_type J (cJSON_CreateNumber J d) = cJSON_Number" "json_children J (cJSON_CreateNumber J d) = []"
    "valuedouble J (cJSON_CreateNumber J d) = d"
    "cJSON_type J (cJSON_CreateString J s) = cJSON_String" "json_children J (cJSON_CreateString J s) = []"
    "valuestring J (cJSON_CreateString J s) = Some s"
    "cJSON_type J (cJSON_CreateArray J) = cJSON_Array" "json_children J (cJSON_CreateArray J) = []"
    "cJSON_type J (cJSON_CreateObject J) = cJSON_Object" "json_children J (cJSON_CreateObject J) = []"
  using assms by (simp_all add: cjson_laws_def created_laws_def)

lemma cjson_not_object:
  "cjson_laws J \<Longrightarrow> cJSON_type J ob \<noteq> cJSON_Object \<Longrightarrow> cJSON_GetObjectItemCaseSensitive J ob k = None"
  by (simp add: cjson_laws_def object_laws_def)

lemma cjson_object [simp]:
  assumes "cjson_laws J" "cJSON_type J ob = cJSON_Object"
  shows "cJSON_GetObjectItemCaseSensitive J ob k = map_of (json_children J ob) k"
    "cJSON_type J (cJSON_AddItemToObject J ob k v) = cJSON_Object"
    "json_children J (cJSON_AddItemToObject J ob k v) = json_children J ob @ [(k, v)]"
    "cJSON_type J (cJSON_ReplaceItemInObjectCaseSensitive J ob k v) = cJSON_Object"
    "json_children J (cJSON_ReplaceItemInObjectCaseSensitive J ob k v) = replace_first k v (json_children J ob)"
    "cJSON_type J (cJSON_DeleteItemFromObjectCaseSensitive J ob k) = cJSON_Object"
    "json_children J (cJSON_DeleteItemFromObjectCaseSensitive J ob k) = remove_first k (json_children J ob)"
  using assms by (simp_all add: cjson_laws_def object_laws_def)

lemma cjson_array [simp]:
  assumes "cjson_laws J" "cJSON_type J a = cJSON_Array"
  shows "cJSON_type J (cJSON_AddItemToArray J a v) = cJSON_Array"
    "json_items J (cJSON_AddItemToArray J a v) = json_items J a @ [v]"
    "cJSON_type J (cJSON_ReplaceItemInArray J a i v) = cJSON_Array"
    "json_items J (cJSON_ReplaceItemInArray J a i v) = (json_items J a)[i := v]"
    "cJSON_type J (cJSON_DeleteItemFromArray J a i) = cJSON_Array"
    "json_items J (cJSON_DeleteItemFromArray J a i) = take i (json_items J a) @ drop (Suc i) (json_items J a)"
proof -
  have "array_laws J" using assms(1) by (simp add: cjson_laws_def)
  note laws = spec [OF this [unfolded array_laws_def], of a, THEN mp, OF assms(2)]
  note l1 = spec [OF conjunct1 [OF laws]] and l2 = conjunct1 [OF conjunct2 [OF laws]]
    and l3 = spec [OF conjunct2 [OF conjunct2 [OF laws]]]
  show "cJSON_type J (cJSON_AddItemToArray J a v) = cJSON_Array"
    "json_items J (cJSON_AddItemToArray J a v) = json_items J a @ [v]"
    using l1 [of v] by (rule conjunct1, rule conjunct2)
  show "cJSON_type J (cJSON_ReplaceItemInArray J a i v) = cJSON_Array"
    "json_items J (cJSON_ReplaceItemInArray J a i v) = (json_items J a)[i := v]"
    using spec [OF spec [OF l2, of i], of v] by (rule conjunct1, rule conjunct2)
  show "cJSON_type J (cJSON_DeleteItemFromArray J a i) = cJSON_Array"
    "json_items J (cJSON_DeleteItemFromArray J a i) = take i (json_items J a) @ drop (Suc i) (json_items J a)"
    using l3 [of i] by (rule conjunct1, rule conjunct2)
qed

lemma cjson_print:
  assumes "cjson_laws J" "json_exact J j"
  shows "\<exists>t. cJSON_Print J j = Some t \<and> cJSON_Parse J t = Some j"
    "\<exists>t. cJSON_PrintUnformatted J j = Some t \<and> cJSON_Parse J t = Some j"
  using assms by (simp_all add: cjson_laws_def print_laws_def)

lemma json_exact_leaf: "cJSON_type J j \<noteq> cJSON_Number \<Longrightarrow> json_children J j = [] \<Longrightarrow> json_exact J j"
  by (rule json_exactI) auto

lemma json_exact_number:
  assumes "cjson_laws J" "\<bar>i\<bar> < 10 ^ 15" "d = of_int i"
  shows "json_exact J (cJSON_CreateNumber J d)"
  using assms by (intro json_exactI) auto

lemma json_exact_node:
  "cJSON_type J j \<noteq> cJSON_Number \<Longrightarrow> \<forall>v\<in>set (json_items J j). json_exact J v \<Longrightarrow> json_exact J j"
  by (rule json_exactI) auto

inductive_cases json_exact_E: "json_exact J j"

lemma json_exact_items: "json_exact J j \<Longrightarrow> v \<in> set (json_items J j) \<Longrightarrow> json_exact J v"
  by (auto elim: json_exact_E)

subsection \<open>Calls the code makes\<close>

definition cJSON_AddStringToObject :: "('j, 't) cjson \<Rightarrow> 'j \<Rightarrow> string \<Rightarrow> string \<Rightarrow> 'j" where
  "cJSON_AddStringToObject J ob k s = cJSON_AddItemToObject J ob k (cJSON_CreateString J s)"

definition cJSON_AddNullToObject :: "('j, 't) cjson \<Rightarrow> 'j \<Rightarrow> string \<Rightarrow> 'j" where
  "cJSON_AddNullToObject J ob k = cJSON_AddItemToObject J ob k (cJSON_CreateNull J)"

definition cJSON_AddBoolToObject :: "('j, 't) cjson \<Rightarrow> 'j \<Rightarrow> string \<Rightarrow> bool \<Rightarrow> 'j" where
  "cJSON_AddBoolToObject J ob k b = cJSON_AddItemToObject J ob k (cJSON_CreateBool J b)"

definition cJSON_AddNumberToObject :: "('j, 't) cjson \<Rightarrow> 'j \<Rightarrow> string \<Rightarrow> rat \<Rightarrow> 'j" where
  "cJSON_AddNumberToObject J ob k d = cJSON_AddItemToObject J ob k (cJSON_CreateNumber J d)"

lemmas json_add_defs = cJSON_AddStringToObject_def cJSON_AddNullToObject_def cJSON_AddBoolToObject_def
  cJSON_AddNumberToObject_def

definition cJSON_GetArraySize :: "('j, 't) cjson \<Rightarrow> 'j \<Rightarrow> nat" where
  "cJSON_GetArraySize J a = length (json_children J a)"

definition cJSON_GetArrayItem :: "('j, 't) cjson \<Rightarrow> 'j \<Rightarrow> nat \<Rightarrow> 'j option" where
  "cJSON_GetArrayItem J a i = (if i < length (json_children J a) then Some (snd (json_children J a ! i)) else None)"

subsection \<open>A lawful instance\<close>

datatype json_value = JV_Null | JV_Bool bool | JV_Number rat | JV_String string
  | JV_Array "json_value list" | JV_Object "(string \<times> json_value) list"

fun jv_kind :: "json_value \<Rightarrow> json_kind" where
  "jv_kind JV_Null = cJSON_NULL"
| "jv_kind (JV_Bool b) = (if b then cJSON_True else cJSON_False)"
| "jv_kind (JV_Number d) = cJSON_Number"
| "jv_kind (JV_String s) = cJSON_String"
| "jv_kind (JV_Array xs) = cJSON_Array"
| "jv_kind (JV_Object ms) = cJSON_Object"

fun jv_children :: "json_value \<Rightarrow> (string \<times> json_value) list" where
  "jv_children (JV_Array xs) = map (Pair []) xs"
| "jv_children (JV_Object ms) = ms"
| "jv_children _ = []"

fun jv_map_object :: "((string \<times> json_value) list \<Rightarrow> (string \<times> json_value) list) \<Rightarrow> json_value \<Rightarrow> json_value" where
  "jv_map_object f (JV_Object ms) = JV_Object (f ms)"
| "jv_map_object f j = j"

fun jv_map_array :: "(json_value list \<Rightarrow> json_value list) \<Rightarrow> json_value \<Rightarrow> json_value" where
  "jv_map_array f (JV_Array xs) = JV_Array (f xs)"
| "jv_map_array f j = j"

definition sample_cjson :: "(json_value, json_value) cjson" where
  "sample_cjson = \<lparr>cJSON_type = jv_kind,
     valuestring = (\<lambda>j. case j of JV_String s \<Rightarrow> Some s | _ \<Rightarrow> None),
     valuedouble = (\<lambda>j. case j of JV_Number d \<Rightarrow> d | _ \<Rightarrow> 0),
     json_children = jv_children,
     cJSON_CreateNull = JV_Null, cJSON_CreateBool = JV_Bool, cJSON_CreateNumber = JV_Number,
     cJSON_CreateString = JV_String, cJSON_CreateArray = JV_Array [], cJSON_CreateObject = JV_Object [],
     cJSON_GetObjectItemCaseSensitive =
       (\<lambda>j k. if jv_kind j = cJSON_Object then map_of (jv_children j) k else None),
     cJSON_AddItemToObject = (\<lambda>j k v. jv_map_object (\<lambda>ms. ms @ [(k, v)]) j),
     cJSON_ReplaceItemInObjectCaseSensitive = (\<lambda>j k v. jv_map_object (replace_first k v) j),
     cJSON_DeleteItemFromObjectCaseSensitive = (\<lambda>j k. jv_map_object (remove_first k) j),
     cJSON_AddItemToArray = (\<lambda>j v. jv_map_array (\<lambda>xs. xs @ [v]) j),
     cJSON_ReplaceItemInArray = (\<lambda>j i v. jv_map_array (\<lambda>xs. xs[i := v]) j),
     cJSON_DeleteItemFromArray = (\<lambda>j i. jv_map_array (\<lambda>xs. take i xs @ drop (Suc i) xs) j),
     cJSON_Parse = Some, cJSON_Print = Some, cJSON_PrintUnformatted = Some\<rparr>"

lemma jv_objectE: "jv_kind j = cJSON_Object \<Longrightarrow> (\<And>ms. j = JV_Object ms \<Longrightarrow> P) \<Longrightarrow> P"
  by (cases j) (auto split: if_splits)

lemma jv_arrayE: "jv_kind j = cJSON_Array \<Longrightarrow> (\<And>xs. j = JV_Array xs \<Longrightarrow> P) \<Longrightarrow> P"
  by (cases j) (auto split: if_splits)

lemma sample_cjson_laws: "cjson_laws sample_cjson"
proof -
  have "created_laws sample_cjson" by (simp add: created_laws_def sample_cjson_def)
  moreover have "object_laws sample_cjson" by (auto simp: object_laws_def sample_cjson_def elim!: jv_objectE)
  moreover have "array_laws sample_cjson" by (auto simp: array_laws_def sample_cjson_def comp_def elim!: jv_arrayE)
  moreover have "print_laws sample_cjson" by (simp add: print_laws_def sample_cjson_def)
  ultimately show ?thesis by (simp add: cjson_laws_def)
qed

end
