(* ===== verification/Files.thy ===== *)
theory Files
  imports CLib
begin

text \<open>
  How the program replaces a file: write a temporary file beside it, sync, rename
  (\<^verbatim>\<open>download_state_save\<close>, \<^verbatim>\<open>persist_config\<close>) or \<^verbatim>\<open>move_file_atomic\<close> (\<^verbatim>\<open>bookmark.c\<close>).  A file
  system maps paths to the text of a file and whether that text has reached the disk; a power
  loss may leave anything of a text that has not.  The operations return every state they pass
  through, so that a crash between two of their steps can be stated.  The texts \<open>'t\<close> are opaque.
\<close>

subsection \<open>File systems and crashes\<close>

record 't disk_file =
  f_text :: 't
  f_synced :: bool

type_synonym 't fs = "string \<Rightarrow> 't disk_file option"

definition after_crash :: "'t fs \<Rightarrow> 't fs \<Rightarrow> bool" where
  "after_crash fs fs' \<longleftrightarrow> (\<forall>p. case fs p of
      None \<Rightarrow> fs' p = None
    | Some f \<Rightarrow> if f_synced f then fs' p = Some f else \<exists>t. fs' p = Some \<lparr>f_text = t, f_synced = True\<rparr>)"

text \<open>Reading a whole file: \<open>ok\<close> tells whether opening, seeking and allocating work.\<close>

definition read_text :: "bool \<Rightarrow> 't fs \<Rightarrow> string \<Rightarrow> 't option" where
  "read_text ok fs path = (if \<not> ok then None else map_option f_text (fs path))"

subsection \<open>Writing a temporary file and renaming it\<close>

text \<open>The answers of the system: \<open>si_torn\<close> is what a short write leaves, or the file just opened.\<close>

record 't save_io =
  si_open :: bool
  si_torn :: 't
  si_written :: bool
  si_synced :: bool
  si_renamed :: bool

definition replace_via_temp :: "string \<Rightarrow> 't save_io \<Rightarrow> string \<Rightarrow> 't \<Rightarrow> 't fs \<Rightarrow> int \<times> 't fs list" where
  "replace_via_temp suffix io path text fs =
     (if \<not> si_open io then (-1, [])
      else let tmp = path @ suffix;
               opened = fs(tmp \<mapsto> \<lparr>f_text = si_torn io, f_synced = False\<rparr>);
               content = (if si_written io then text else si_torn io);
               written = opened(tmp \<mapsto> \<lparr>f_text = content, f_synced = False\<rparr>);
               synced = (if si_synced io then written(tmp \<mapsto> \<lparr>f_text = content, f_synced = True\<rparr>) else written);
               removed = synced(tmp := None)
           in if \<not> si_written io \<or> \<not> si_synced io then (-1, [opened, written, synced, removed])
              else if \<not> si_renamed io then (-1, [opened, written, synced, removed])
              else (0, [opened, written, synced, synced(path := synced tmp, tmp := None)]))"

subsection \<open>Moving a file\<close>

text \<open>\<open>move_file_atomic\<close>: \<open>rename\<close>, and across file systems a copy that is synced before the source
  is removed.\<close>

datatype rename_answer = Renamed | CrossDevice | RenameFailed

record 't move_io =
  mv_rename :: rename_answer
  mv_open :: bool
  mv_torn :: 't
  mv_copied :: bool
  mv_synced :: bool

definition move_file_atomic :: "'t move_io \<Rightarrow> string \<Rightarrow> string \<Rightarrow> 't fs \<Rightarrow> int \<times> 't fs list" where
  "move_file_atomic io src dest fs =
     (case fs src of None \<Rightarrow> (-1, []) | Some f \<Rightarrow>
      (case mv_rename io of
         RenameFailed \<Rightarrow> (-1, [])
       | Renamed \<Rightarrow> (0, [(fs(dest \<mapsto> f))(src := if src = dest then Some f else None)])
       | CrossDevice \<Rightarrow>
           if \<not> mv_open io then (-1, [])
           else let opened = fs(dest \<mapsto> \<lparr>f_text = mv_torn io, f_synced = False\<rparr>)
                in if \<not> mv_copied io then (-1, [opened, opened(dest := None)])
                   else let copied = opened(dest \<mapsto> \<lparr>f_text = f_text f, f_synced = False\<rparr>)
                        in if \<not> mv_synced io then (-1, [opened, copied, copied(dest := None)])
                           else let synced = copied(dest \<mapsto> \<lparr>f_text = f_text f, f_synced = True\<rparr>)
                                in (0, [opened, copied, synced, synced(src := None)])))"

text \<open>\<open>persist_json_file\<close> of the bookmarks: the temporary file is written and synced, then moved.\<close>

definition replace_via_move ::
  "string \<Rightarrow> 't save_io \<times> 't move_io \<Rightarrow> string \<Rightarrow> 't \<Rightarrow> 't fs \<Rightarrow> int \<times> 't fs list" where
  "replace_via_move suffix ios path text fs =
     (let io = fst ios; mv = snd ios; tmp = path @ suffix in
      if \<not> si_open io then (-1, [])
      else let opened = fs(tmp \<mapsto> \<lparr>f_text = si_torn io, f_synced = False\<rparr>);
               content = (if si_written io then text else si_torn io);
               written = opened(tmp \<mapsto> \<lparr>f_text = content, f_synced = False\<rparr>);
               synced = (if si_synced io then written(tmp \<mapsto> \<lparr>f_text = content, f_synced = True\<rparr>) else written)
           in if \<not> si_written io \<or> \<not> si_synced io
              then (-1, [opened, written, synced, synced(tmp := None)])
              else let (rc, moves) = move_file_atomic mv tmp path synced
                   in if rc \<noteq> 0
                      then (-1, [opened, written, synced] @ moves @ [(last (synced # moves))(tmp := None)])
                      else (0, [opened, written, synced] @ moves))"

subsection \<open>Crash safety of a replacement\<close>

text \<open>The contract: at every step the file is untouched or holds the whole new text, synced; success
  means the new text, failure the old state of the file.  \<open>good\<close> restricts the answers of the system.\<close>

locale crash_safe_writer =
  fixes writer :: "'io \<Rightarrow> string \<Rightarrow> 't \<Rightarrow> 't fs \<Rightarrow> int \<times> 't fs list"
    and good :: "'io \<Rightarrow> bool"
  assumes untouched_or_new: "good io \<Longrightarrow> writer io path t fs = (rc, tr) \<Longrightarrow> fs' \<in> set tr \<Longrightarrow>
      fs' path = fs path \<or> fs' path = Some \<lparr>f_text = t, f_synced = True\<rparr>"
    and success: "good io \<Longrightarrow> writer io path t fs = (0, tr) \<Longrightarrow>
      last (fs # tr) path = Some \<lparr>f_text = t, f_synced = True\<rparr>"
    and failure: "good io \<Longrightarrow> writer io path t fs = (rc, tr) \<Longrightarrow> rc \<noteq> 0 \<Longrightarrow> last (fs # tr) path = fs path"

text \<open>A sequence of replacements of one file, each in the file system the one before has left.\<close>

fun write_sequence ::
  "('io \<Rightarrow> string \<Rightarrow> 't \<Rightarrow> 't fs \<Rightarrow> int \<times> 't fs list) \<Rightarrow> string \<Rightarrow> ('io \<times> 't) list \<Rightarrow> 't fs \<Rightarrow> 't fs list" where
  "write_sequence writer path [] fs = []"
| "write_sequence writer path ((io, t) # ws) fs =
     (let (rc, tr) = writer io path t fs in tr @ write_sequence writer path ws (last (fs # tr)))"

context crash_safe_writer begin

lemma last_state:
  assumes "good io" "writer io path t fs = (rc, tr)"
  shows "last (fs # tr) path = fs path \<or> last (fs # tr) path = Some \<lparr>f_text = t, f_synced = True\<rparr>"
  using success [of io path t fs tr] failure [OF assms] assms by (cases "rc = 0") auto

lemma sequence_states:
  "\<forall>w\<in>set ws. good (fst w) \<Longrightarrow> fs' \<in> set (write_sequence writer path ws fs) \<Longrightarrow>
   fs' path = fs path \<or> (\<exists>t\<in>snd ` set ws. fs' path = Some \<lparr>f_text = t, f_synced = True\<rparr>)"
proof (induction ws arbitrary: fs)
  case (Cons w ws)
  obtain io t where w: "w = (io, t)" by fastforce
  obtain rc tr where r: "writer io path t fs = (rc, tr)" by fastforce
  have g: "good io" "\<forall>w\<in>set ws. good (fst w)" using Cons.prems(1) w by auto
  from Cons.prems(2) have "fs' \<in> set tr \<or> fs' \<in> set (write_sequence writer path ws (last (fs # tr)))"
    by (auto simp: w r)
  then show ?case
  proof
    assume "fs' \<in> set tr"
    from untouched_or_new [OF g(1) r this] show ?thesis by (auto simp: w)
  next
    assume "fs' \<in> set (write_sequence writer path ws (last (fs # tr)))"
    from Cons.IH [OF g(2) this] last_state [OF g(1) r] show ?thesis
      by (auto simp: w simp del: last.simps)
  qed
qed simp

text \<open>A power loss anywhere in a sequence of replacements leaves the old text or one of the new ones.\<close>

lemma crash_anywhere:
  assumes "\<forall>w\<in>set ws. good (fst w)" "fs path = Some \<lparr>f_text = old, f_synced = True\<rparr>"
    "fs' \<in> set (fs # write_sequence writer path ws fs)" "after_crash fs' fs''"
  shows "\<exists>t. t \<in> insert old (snd ` set ws) \<and> fs'' path = Some \<lparr>f_text = t, f_synced = True\<rparr>"
proof -
  have "\<exists>t. t \<in> insert old (snd ` set ws) \<and> fs' path = Some \<lparr>f_text = t, f_synced = True\<rparr>"
  proof (cases "fs' = fs")
    case True then show ?thesis using assms(2) by blast
  next
    case False
    then have "fs' \<in> set (write_sequence writer path ws fs)" using assms(3) by simp
    from sequence_states [OF assms(1) this] show ?thesis using assms(2) by (metis insertCI)
  qed
  then obtain t where t: "t \<in> insert old (snd ` set ws)" "fs' path = Some \<lparr>f_text = t, f_synced = True\<rparr>" by blast
  have "fs'' path = Some \<lparr>f_text = t, f_synced = True\<rparr>"
    using spec [OF assms(4) [unfolded after_crash_def], of path] by (simp add: t(2))
  then show ?thesis using t(1) by blast
qed

end

lemma replace_via_temp_states:
  assumes "replace_via_temp ''.tmp'' io path t fs = (rc, tr)"
  shows "\<forall>fs'\<in>set tr. fs' path = fs path \<or> fs' path = Some \<lparr>f_text = t, f_synced = True\<rparr>"
    "last (fs # tr) path = (if rc = 0 then Some \<lparr>f_text = t, f_synced = True\<rparr> else fs path)"
  using assms unfolding atomize_conj
  by (cases "si_open io"; cases "si_written io"; cases "si_synced io"; cases "si_renamed io")
    (simp_all add: replace_via_temp_def Let_def, (elim conjE; clarsimp)+)

interpretation state_writer: crash_safe_writer "replace_via_temp ''.tmp''" "\<lambda>_. True"
proof
  show "fs' path = fs path \<or> fs' path = Some \<lparr>f_text = t, f_synced = True\<rparr>"
    if "replace_via_temp ''.tmp'' io path t fs = (rc, tr)" "fs' \<in> set tr" for io path t fs rc tr fs'
    using replace_via_temp_states(1) [OF that(1)] that(2) by blast
  show "last (fs # tr) path = Some \<lparr>f_text = t, f_synced = True\<rparr>"
    if "replace_via_temp ''.tmp'' io path t fs = (0, tr)" for io path t fs tr
    using replace_via_temp_states(2) [OF that] by (simp only: refl if_True)
  show "last (fs # tr) path = fs path"
    if "replace_via_temp ''.tmp'' io path t fs = (rc, tr)" "rc \<noteq> 0" for io path t fs rc tr
    using replace_via_temp_states(2) [OF that(1)] that(2) by (simp only: if_False)
qed

definition same_device :: "'t save_io \<times> 't move_io \<Rightarrow> bool" where
  "same_device ios \<longleftrightarrow> mv_rename (snd ios) \<noteq> CrossDevice"

text \<open>On one device the move is a rename.\<close>

lemma replace_via_move_eq:
  assumes "same_device ios"
  shows "replace_via_move ''.tmp'' ios path t fs
    = replace_via_temp ''.tmp'' ((fst ios)\<lparr>si_renamed := (mv_rename (snd ios) = Renamed)\<rparr>) path t fs"
proof (cases "mv_rename (snd ios)")
  case CrossDevice then show ?thesis using assms by (simp add: same_device_def)
qed (simp_all add: replace_via_move_def replace_via_temp_def move_file_atomic_def Let_def)

interpretation bookmark_writer: crash_safe_writer "replace_via_move ''.tmp''" same_device
  by unfold_locales
    (unfold replace_via_move_eq,
      erule (1) state_writer.untouched_or_new [OF TrueI],
      erule state_writer.success [OF TrueI],
      erule (1) state_writer.failure [OF TrueI])

end
