(* ===== verification/State_File.thy ===== *)
theory State_File
  imports Job Json Files
begin

text \<open>
  The state file of a download: \<^verbatim>\<open>download_state_save\<close> and \<^verbatim>\<open>download_state_load\<close> of
  \<^verbatim>\<open>src/src/download_state.c\<close>, with the two formats of finished parts that the loader accepts, and
  the guard of \<^verbatim>\<open>src/src/download_io.c\<close> that lets a download write only its own state.  cJSON and the
  text type are parameters (theory Json); the steps on the disk are those of theory Files.
\<close>

subsection \<open>Reading members\<close>

definition json_get_string :: "('j, 't) cjson \<Rightarrow> 'j \<Rightarrow> string \<Rightarrow> cstring" where
  "json_get_string J obj key =
     (case cJSON_GetObjectItemCaseSensitive J obj key of
        None \<Rightarrow> None
      | Some item \<Rightarrow> if \<not> cJSON_IsString J item then None else valuestring J item)"

definition json_get_u64 :: "('j, 't) cjson \<Rightarrow> 'j \<Rightarrow> string \<Rightarrow> u64" where
  "json_get_u64 J obj key =
     (case cJSON_GetObjectItemCaseSensitive J obj key of
        None \<Rightarrow> 0
      | Some item \<Rightarrow> if \<not> cJSON_IsNumber J item then 0 else u64_of_double (valuedouble J item))"

definition json_add_string_or_null :: "('j, 't) cjson \<Rightarrow> 'j \<Rightarrow> string \<Rightarrow> cstring \<Rightarrow> 'j" where
  "json_add_string_or_null J obj key val =
     (case val of Some s \<Rightarrow> cJSON_AddStringToObject J obj key s | None \<Rightarrow> cJSON_AddNullToObject J obj key)"

subsection \<open>Saving\<close>

definition range_pair :: "('j, 't) cjson \<Rightarrow> ByteRange \<Rightarrow> 'j" where
  "range_pair J r =
     cJSON_AddItemToArray J
       (cJSON_AddItemToArray J (cJSON_CreateArray J) (cJSON_CreateNumber J (double_of_u64 (br_start r))))
       (cJSON_CreateNumber J (double_of_u64 (br_end r)))"

text \<open>The array is filled before it is attached; in the code it is attached first and filled in place.\<close>

definition add_array :: "('j, 't) cjson \<Rightarrow> 'j \<Rightarrow> string \<Rightarrow> 'j list \<Rightarrow> 'j" where
  "add_array J obj key xs =
     cJSON_AddItemToObject J obj key (foldl (cJSON_AddItemToArray J) (cJSON_CreateArray J) xs)"

definition add_optional_string :: "('j, 't) cjson \<Rightarrow> 'j \<Rightarrow> string \<Rightarrow> cstring \<Rightarrow> 'j" where
  "add_optional_string J obj key val =
     (case val of Some s \<Rightarrow> cJSON_AddStringToObject J obj key s | None \<Rightarrow> obj)"

definition state_root :: "('j, 't) cjson \<Rightarrow> DownloadState \<Rightarrow> 'j" where
  "state_root J st =
     (let r = cJSON_CreateObject J;
          r = json_add_string_or_null J r ''id'' (ds_id st);
          r = json_add_string_or_null J r ''url'' (ds_url st);
          r = json_add_string_or_null J r ''filename'' (ds_filename st);
          r = cJSON_AddBoolToObject J r ''filenameInferred'' (ds_filename_inferred st);
          r = json_add_string_or_null J r ''status'' (ds_status st);
          r = json_add_string_or_null J r ''proxy'' (ds_proxy st);
          r = cJSON_AddNumberToObject J r ''bytesDownloaded'' (double_of_u64 (ds_bytes_downloaded st));
          r = cJSON_AddNumberToObject J r ''totalBytes'' (double_of_u64 (ds_total_size st));
          r = json_add_string_or_null J r ''queuedAt'' (ds_queued_at st);
          r = json_add_string_or_null J r ''lastTryAt'' (ds_last_try_at st);
          r = json_add_string_or_null J r ''description'' (ds_description st);
          r = json_add_string_or_null J r ''originalPage'' (ds_original_page st);
          r = json_add_string_or_null J r ''referer'' (ds_referer st);
          r = json_add_string_or_null J r ''streamKind'' (ds_stream_kind st);
          r = (if ds_ts_segments st \<noteq> []
               then add_array J r ''tsSegments'' (map (cJSON_CreateString J) (ds_ts_segments st)) else r);
          r = json_add_string_or_null J r ''addedThrough''
                (case ds_added_through st of Some s \<Rightarrow> Some s | None \<Rightarrow> Some ''direct'');
          r = json_add_string_or_null J r ''queueId'' (ds_queue_id st);
          r = add_optional_string J r ''temp_path'' (ds_temp_path st);
          r = add_optional_string J r ''dest_path'' (ds_dest_path st);
          r = add_optional_string J r ''etag'' (ds_etag st);
          r = add_optional_string J r ''lastModified'' (ds_last_modified st);
          r = cJSON_AddNumberToObject J r ''chunk_size'' (double_of_u64 (ds_chunk_size st))
      in add_array J r ''done_ranges'' (map (range_pair J) (ds_done_ranges st)))"

definition download_state_save ::
  "('j, 't) cjson \<Rightarrow> (string \<Rightarrow> bool) \<Rightarrow> 't save_io \<Rightarrow> DownloadState \<Rightarrow> cstring \<Rightarrow> 't fs \<Rightarrow> int \<times> 't fs list" where
  "download_state_save J write_allowed io st path fs =
     (case path of None \<Rightarrow> (-1, []) | Some path \<Rightarrow>
        if \<not> write_allowed path then (-1, [])
        else (case cJSON_PrintUnformatted J (state_root J st) of
                None \<Rightarrow> (-1, [])
              | Some text \<Rightarrow> replace_via_temp ''.tmp'' io path text fs))"

subsection \<open>Loading\<close>

text \<open>The loop of \<open>load_done_ranges\<close>.\<close>

fun done_ranges_loop :: "('j, 't) cjson \<Rightarrow> (nat \<Rightarrow> bool) \<Rightarrow> DownloadState \<Rightarrow> 'j list \<Rightarrow> int \<times> DownloadState" where
  "done_ranges_loop J realloc_ok st [] = (0, st)"
| "done_ranges_loop J realloc_ok st (item # items) =
     (if \<not> cJSON_IsArray J item \<or> cJSON_GetArraySize J item < 2
      then done_ranges_loop J realloc_ok st items
      else let start_item = json_items J item ! 0; end_item = json_items J item ! 1 in
        if \<not> cJSON_IsNumber J start_item \<or> \<not> cJSON_IsNumber J end_item
        then done_ranges_loop J realloc_ok st items
        else let (rc, st') = download_state_mark_range_done realloc_ok st
                    (u64_of_double (valuedouble J start_item)) (u64_of_double (valuedouble J end_item))
             in if rc \<noteq> 0 then (-1, st') else done_ranges_loop J realloc_ok st' items)"

definition load_done_ranges :: "('j, 't) cjson \<Rightarrow> (nat \<Rightarrow> bool) \<Rightarrow> DownloadState \<Rightarrow> 'j \<Rightarrow> int \<times> DownloadState" where
  "load_done_ranges J realloc_ok st ranges =
     (if \<not> cJSON_IsArray J ranges then (-1, st) else done_ranges_loop J realloc_ok st (json_items J ranges))"

text \<open>The older format: an array of flags, one for each chunk.\<close>

fun legacy_loop :: "('j, 't) cjson \<Rightarrow> (nat \<Rightarrow> bool) \<Rightarrow> u64 \<Rightarrow> DownloadState \<Rightarrow> nat \<Rightarrow> 'j list \<Rightarrow> int \<times> DownloadState" where
  "legacy_loop J realloc_ok chunk_size st i [] = (0, st)"
| "legacy_loop J realloc_ok chunk_size st i (item # items) =
     (if \<not> cJSON_IsTrue J item then legacy_loop J realloc_ok chunk_size st (Suc i) items
      else let start = of_nat i * chunk_size;
               end = start + chunk_size - 1;
               end = (if ds_total_size st > 0 \<and> end \<ge> ds_total_size st then ds_total_size st - 1 else end);
               (rc, st') = download_state_mark_range_done realloc_ok st start end
           in if rc \<noteq> 0 then (-1, st') else legacy_loop J realloc_ok chunk_size st' (Suc i) items)"

definition load_legacy_chunks ::
  "('j, 't) cjson \<Rightarrow> (nat \<Rightarrow> bool) \<Rightarrow> DownloadState \<Rightarrow> 'j option \<Rightarrow> u64 \<Rightarrow> int \<times> DownloadState" where
  "load_legacy_chunks J realloc_ok st chunks chunk_count =
     (case chunks of None \<Rightarrow> (0, st) | Some chunks \<Rightarrow>
        if \<not> cJSON_IsArray J chunks \<or> chunk_count = 0 then (0, st)
        else legacy_loop J realloc_ok (effective_chunk_size st) st 0
               (take (unat chunk_count) (json_items J chunks)))"

definition load_ts_segments :: "('j, 't) cjson \<Rightarrow> DownloadState \<Rightarrow> 'j \<Rightarrow> int \<times> DownloadState" where
  "load_ts_segments J st segments =
     (if \<not> cJSON_IsArray J segments then (-1, st)
      else if json_children J segments = [] then (0, st)
      else (0, st\<lparr>ds_ts_segments := List.map_filter
               (\<lambda>item. if \<not> cJSON_IsString J item then None else valuestring J item) (json_items J segments)\<rparr>))"

text \<open>The members of the tree that are single values.\<close>

definition load_fields :: "('j, 't) cjson \<Rightarrow> 'j \<Rightarrow> DownloadState" where
  "load_fields J tree = calloc_state\<lparr>
     ds_id := json_get_string J tree ''id'',
     ds_url := json_get_string J tree ''url'',
     ds_filename := json_get_string J tree ''filename'',
     ds_filename_inferred := (case cJSON_GetObjectItemCaseSensitive J tree ''filenameInferred'' of
        Some b \<Rightarrow> if cJSON_IsBool J b then cJSON_IsTrue J b else True | None \<Rightarrow> True),
     ds_temp_path := json_get_string J tree ''temp_path'',
     ds_dest_path := json_get_string J tree ''dest_path'',
     ds_status := (let s = json_get_string J tree ''status'' in if download_status_is_valid s then s else None),
     ds_proxy := json_get_string J tree ''proxy'',
     ds_queued_at := json_get_string J tree ''queuedAt'',
     ds_last_try_at := json_get_string J tree ''lastTryAt'',
     ds_description := json_get_string J tree ''description'',
     ds_original_page := json_get_string J tree ''originalPage'',
     ds_referer := json_get_string J tree ''referer'',
     ds_stream_kind := json_get_string J tree ''streamKind''\<rparr>"

definition load_more_fields :: "('j, 't) cjson \<Rightarrow> 'j \<Rightarrow> DownloadState \<Rightarrow> DownloadState" where
  "load_more_fields J tree st = st\<lparr>
     ds_added_through := json_get_string J tree ''addedThrough'',
     ds_queue_id := json_get_string J tree ''queueId'',
     ds_etag := json_get_string J tree ''etag'',
     ds_last_modified := json_get_string J tree ''lastModified'',
     ds_total_size := (let n = json_get_u64 J tree ''totalBytes'' in
        if n = 0 then json_get_u64 J tree ''total_size'' else n),
     ds_bytes_downloaded := json_get_u64 J tree ''bytesDownloaded'',
     ds_chunk_size := (let n = (case cJSON_GetObjectItemCaseSensitive J tree ''chunk_size'' of
           Some item \<Rightarrow> if cJSON_IsNumber J item then u64_of_double (valuedouble J item) else DL_CHUNK_SIZE
         | None \<Rightarrow> DL_CHUNK_SIZE) in if n = 0 then DL_CHUNK_SIZE else n)\<rparr>"

definition load_parts :: "('j, 't) cjson \<Rightarrow> (nat \<Rightarrow> bool) \<Rightarrow> 'j \<Rightarrow> DownloadState \<Rightarrow> int \<times> DownloadState" where
  "load_parts J realloc_ok tree st =
     (let legacy = (let chunk_count = (case cJSON_GetObjectItemCaseSensitive J tree ''chunk_count'' of
                          Some item \<Rightarrow> if cJSON_IsNumber J item then Some (u64_of_double (valuedouble J item)) else None
                        | None \<Rightarrow> None);
                        chunk_count = (case chunk_count of Some n \<Rightarrow> n
                          | None \<Rightarrow> if ds_total_size st > 0 then download_state_segment_count st else 0)
                    in load_legacy_chunks J realloc_ok st
                         (cJSON_GetObjectItemCaseSensitive J tree ''chunks'') chunk_count)
      in case cJSON_GetObjectItemCaseSensitive J tree ''done_ranges'' of
           Some ranges \<Rightarrow> if cJSON_IsArray J ranges then load_done_ranges J realloc_ok st ranges else legacy
         | None \<Rightarrow> legacy)"

definition state_of_root :: "('j, 't) cjson \<Rightarrow> (nat \<Rightarrow> bool) \<Rightarrow> 'j \<Rightarrow> DownloadState option" where
  "state_of_root J realloc_ok tree =
     (if \<not> cJSON_IsObject J tree then None
      else let (rc, st) = (case cJSON_GetObjectItemCaseSensitive J tree ''tsSegments'' of
                             Some segments \<Rightarrow> load_ts_segments J (load_fields J tree) segments
                           | None \<Rightarrow> (0, load_fields J tree)) in
        if rc \<noteq> 0 then None
        else let (rc, st) = load_parts J realloc_ok tree (load_more_fields J tree st) in
          if rc \<noteq> 0 then None
          else let st = clip_done_ranges st in
            if ds_url st = None \<or> ds_filename st = None \<or> ds_dest_path st = None then None
            else Some (if ds_added_through st = None then st\<lparr>ds_added_through := Some ''direct''\<rparr> else st))"

definition download_state_load ::
  "('j, 't) cjson \<Rightarrow> (nat \<Rightarrow> bool) \<Rightarrow> bool \<Rightarrow> ('t \<Rightarrow> bool) \<Rightarrow> cstring \<Rightarrow> 't fs \<Rightarrow> DownloadState option" where
  "download_state_load J realloc_ok readable empty_text path fs =
     (case path of None \<Rightarrow> None | Some path \<Rightarrow>
      (case read_text readable fs path of None \<Rightarrow> None | Some text \<Rightarrow>
         if empty_text text then None
         else (case cJSON_Parse J text of None \<Rightarrow> None | Some tree \<Rightarrow> state_of_root J realloc_ok tree)))"


subsection \<open>The guard of \<open>download_io\<close>\<close>

record io_scope =
  g_download_io_scope :: bool
  g_download_io_item_id :: string
  g_download_io_scope_count :: u32

definition download_io_scope_begin :: "cstring \<Rightarrow> io_scope \<Rightarrow> io_scope" where
  "download_io_scope_begin item_id sc = sc\<lparr>g_download_io_scope := True,
     g_download_io_item_id := (case item_id of None \<Rightarrow> [] | Some s \<Rightarrow> take 63 s),
     g_download_io_scope_count := g_download_io_scope_count sc + 1\<rparr>"

definition download_io_scope_end :: "io_scope \<Rightarrow> io_scope" where
  "download_io_scope_end sc = sc\<lparr>g_download_io_scope := False, g_download_io_item_id := [],
     g_download_io_scope_count := g_download_io_scope_count sc - 1\<rparr>"

definition item_id_from_state_path :: "string \<Rightarrow> cstring" where
  "item_id_from_state_path path =
     (case strrchr path CHR ''/'' of None \<Rightarrow> None
      | Some last_sep \<Rightarrow>
          if drop 1 last_sep \<noteq> ''state.json'' then None
          else if last_sep = path then None
          else let dir = upto_suffix path last_sep;
                   name = (case strrchr dir CHR ''/'' of Some s \<Rightarrow> drop 1 s | None \<Rightarrow> dir)
               in if name = [] then None else Some name)"

definition download_io_state_write_allowed :: "io_scope \<Rightarrow> string \<Rightarrow> bool" where
  "download_io_state_write_allowed sc path =
     (if g_download_io_scope_count sc = 0 then True
      else if g_download_io_scope sc
      then (case item_id_from_state_path path of None \<Rightarrow> True
            | Some item_id \<Rightarrow> g_download_io_item_id sc \<noteq> [] \<and> g_download_io_item_id sc = item_id)
      else False)"

lemma item_id_of_path:
  assumes "CHR ''/'' \<notin> set item" "item \<noteq> []"
  shows "item_id_from_state_path (dir @ ''/'' @ item @ ''/state.json'') = Some item"
proof -
  have "strrchr ((dir @ ''/'' @ item) @ CHR ''/'' # ''state.json'') CHR ''/'' = Some (CHR ''/'' # ''state.json'')"
    by (rule strrchr_append) simp
  moreover have "strrchr (dir @ CHR ''/'' # item) CHR ''/'' = Some (CHR ''/'' # item)"
    by (rule strrchr_append) (rule assms(1))
  ultimately show ?thesis using assms(2) upto_suffix_append [of "dir @ CHR ''/'' # item" "''/state.json''"]
    by (simp add: item_id_from_state_path_def)
qed

subsection \<open>What is saved is loaded\<close>

definition string_node :: "('j, 't) cjson \<Rightarrow> cstring \<Rightarrow> 'j" where
  "string_node J v = (case v of Some s \<Rightarrow> cJSON_CreateString J s | None \<Rightarrow> cJSON_CreateNull J)"

definition array_node :: "('j, 't) cjson \<Rightarrow> 'j list \<Rightarrow> 'j" where
  "array_node J xs = foldl (cJSON_AddItemToArray J) (cJSON_CreateArray J) xs"

lemma array_node_fold:
  "cjson_laws J \<Longrightarrow> cJSON_type J a = cJSON_Array \<Longrightarrow>
   cJSON_type J (foldl (cJSON_AddItemToArray J) a xs) = cJSON_Array
   \<and> json_items J (foldl (cJSON_AddItemToArray J) a xs) = json_items J a @ xs"
  by (induction xs arbitrary: a) (auto simp: cjson_array)

lemma array_node:
  assumes "cjson_laws J"
  shows "cJSON_type J (array_node J xs) = cJSON_Array" "json_items J (array_node J xs) = xs"
  using array_node_fold [OF assms, of "cJSON_CreateArray J" xs] assms by (auto simp: array_node_def)

lemma string_node_type [simp]:
  "cjson_laws J \<Longrightarrow> cJSON_type J (string_node J v) = (if v = None then cJSON_NULL else cJSON_String)"
  "cjson_laws J \<Longrightarrow> json_children J (string_node J v) = []"
  by (auto simp: string_node_def split: option.splits)

definition optional_member :: "('j, 't) cjson \<Rightarrow> string \<Rightarrow> cstring \<Rightarrow> (string \<times> 'j) list" where
  "optional_member J k v = (case v of Some s \<Rightarrow> [(k, cJSON_CreateString J s)] | None \<Rightarrow> [])"

text \<open>The additions of \<open>state_root\<close>, as additions at the end of the list of members.\<close>

definition has_members :: "('j, 't) cjson \<Rightarrow> 'j \<Rightarrow> (string \<times> 'j) list \<Rightarrow> bool" where
  "has_members J r ms \<longleftrightarrow> cJSON_type J r = cJSON_Object \<and> json_children J r = ms"

lemma has_members_add:
  assumes "cjson_laws J" "has_members J r ms"
  shows "has_members J (json_add_string_or_null J r k v) (ms @ [(k, string_node J v)])"
    "has_members J (cJSON_AddBoolToObject J r k b) (ms @ [(k, cJSON_CreateBool J b)])"
    "has_members J (cJSON_AddNumberToObject J r k d) (ms @ [(k, cJSON_CreateNumber J d)])"
    "has_members J (add_array J r k xs) (ms @ [(k, array_node J xs)])"
    "has_members J (add_optional_string J r k v) (ms @ optional_member J k v)"
    "has_members J (if c then add_array J r k xs else r) (ms @ (if c then [(k, array_node J xs)] else []))"
  using assms
  by (auto simp: has_members_def json_add_string_or_null_def json_add_defs add_array_def array_node_def
      add_optional_string_def optional_member_def string_node_def split: option.splits)

definition state_members :: "('j, 't) cjson \<Rightarrow> DownloadState \<Rightarrow> (string \<times> 'j) list" where
  "state_members J st =
     [(''id'', string_node J (ds_id st)), (''url'', string_node J (ds_url st)),
      (''filename'', string_node J (ds_filename st)),
      (''filenameInferred'', cJSON_CreateBool J (ds_filename_inferred st)),
      (''status'', string_node J (ds_status st)), (''proxy'', string_node J (ds_proxy st)),
      (''bytesDownloaded'', cJSON_CreateNumber J (double_of_u64 (ds_bytes_downloaded st))),
      (''totalBytes'', cJSON_CreateNumber J (double_of_u64 (ds_total_size st))),
      (''queuedAt'', string_node J (ds_queued_at st)), (''lastTryAt'', string_node J (ds_last_try_at st)),
      (''description'', string_node J (ds_description st)),
      (''originalPage'', string_node J (ds_original_page st)),
      (''referer'', string_node J (ds_referer st)), (''streamKind'', string_node J (ds_stream_kind st))]
     @ (if ds_ts_segments st \<noteq> []
        then [(''tsSegments'', array_node J (map (cJSON_CreateString J) (ds_ts_segments st)))] else [])
     @ [(''addedThrough'', string_node J (case ds_added_through st of Some s \<Rightarrow> Some s | None \<Rightarrow> Some ''direct'')),
        (''queueId'', string_node J (ds_queue_id st))]
     @ optional_member J ''temp_path'' (ds_temp_path st) @ optional_member J ''dest_path'' (ds_dest_path st)
     @ optional_member J ''etag'' (ds_etag st) @ optional_member J ''lastModified'' (ds_last_modified st)
     @ [(''chunk_size'', cJSON_CreateNumber J (double_of_u64 (ds_chunk_size st))),
        (''done_ranges'', array_node J (map (range_pair J) (ds_done_ranges st)))]"

lemma has_members_empty: "cjson_laws J \<Longrightarrow> has_members J (cJSON_CreateObject J) []"
  by (simp add: has_members_def)

lemma state_root_members:
  assumes "cjson_laws J"
  shows "cJSON_type J (state_root J st) = cJSON_Object" "json_children J (state_root J st) = state_members J st"
proof -
  have "\<exists>ms. has_members J (state_root J st) ms \<and> ms = state_members J st"
    unfolding state_root_def Let_def
    by (rule exI, rule conjI, (rule has_members_add [OF assms] has_members_empty [OF assms])+)
      (simp add: state_members_def)
  then show "cJSON_type J (state_root J st) = cJSON_Object" "json_children J (state_root J st) = state_members J st"
    by (auto simp: has_members_def)
qed


lemma state_root_get:
  "cjson_laws J \<Longrightarrow> cJSON_GetObjectItemCaseSensitive J (state_root J st) k = map_of (state_members J st) k"
  by (simp add: state_root_members)

lemma state_lookups:
  assumes "cjson_laws J"
  shows "json_get_string J (state_root J st) ''id'' = ds_id st"
    "json_get_string J (state_root J st) ''url'' = ds_url st"
    "json_get_string J (state_root J st) ''filename'' = ds_filename st"
    "json_get_string J (state_root J st) ''status'' = ds_status st"
    "json_get_string J (state_root J st) ''proxy'' = ds_proxy st"
    "json_get_string J (state_root J st) ''queuedAt'' = ds_queued_at st"
    "json_get_string J (state_root J st) ''lastTryAt'' = ds_last_try_at st"
    "json_get_string J (state_root J st) ''description'' = ds_description st"
    "json_get_string J (state_root J st) ''originalPage'' = ds_original_page st"
    "json_get_string J (state_root J st) ''referer'' = ds_referer st"
    "json_get_string J (state_root J st) ''streamKind'' = ds_stream_kind st"
    "json_get_string J (state_root J st) ''queueId'' = ds_queue_id st"
    "json_get_string J (state_root J st) ''temp_path'' = ds_temp_path st"
    "json_get_string J (state_root J st) ''dest_path'' = ds_dest_path st"
    "json_get_string J (state_root J st) ''etag'' = ds_etag st"
    "json_get_string J (state_root J st) ''lastModified'' = ds_last_modified st"
    "json_get_string J (state_root J st) ''addedThrough''
       = Some (case ds_added_through st of Some s \<Rightarrow> s | None \<Rightarrow> ''direct'')"
  using assms
  by (auto simp: json_get_string_def state_root_get state_members_def cJSON_IsString_def string_node_def
      optional_member_def map_add_def split: option.splits)

lemma state_nodes:
  assumes "cjson_laws J"
  shows "map_of (state_members J st) ''filenameInferred'' = Some (cJSON_CreateBool J (ds_filename_inferred st))"
    "map_of (state_members J st) ''bytesDownloaded'' = Some (cJSON_CreateNumber J (double_of_u64 (ds_bytes_downloaded st)))"
    "map_of (state_members J st) ''totalBytes'' = Some (cJSON_CreateNumber J (double_of_u64 (ds_total_size st)))"
    "map_of (state_members J st) ''total_size'' = None"
    "map_of (state_members J st) ''tsSegments'' = (if ds_ts_segments st \<noteq> []
        then Some (array_node J (map (cJSON_CreateString J) (ds_ts_segments st))) else None)"
    "map_of (state_members J st) ''chunk_size'' = Some (cJSON_CreateNumber J (double_of_u64 (ds_chunk_size st)))"
    "map_of (state_members J st) ''done_ranges'' = Some (array_node J (map (range_pair J) (ds_done_ranges st)))"
  by (auto simp: state_members_def optional_member_def map_add_def split: option.splits)

text \<open>The numbers that survive the way through a \<open>double\<close> and 15 digits.\<close>

abbreviation small_u64 :: "u64 \<Rightarrow> bool" where
  "small_u64 w \<equiv> unat w < 10 ^ 15"

lemma small_double: "small_u64 w \<Longrightarrow> double_of_u64 w = of_int (int (unat w)) \<and> \<bar>int (unat w)\<bar> < 10 ^ 15"
proof
  assume w: "small_u64 w"
  have "int (unat w) < int (10 ^ 15)" using w by (simp only: of_nat_less_iff)
  then show "\<bar>int (unat w)\<bar> < 10 ^ 15" by (simp only: abs_of_nat of_nat_power of_nat_numeral)
qed (simp add: double_of_u64_small)

lemma small_back: "small_u64 w \<Longrightarrow> u64_of_double (double_of_u64 w) = w"
  by (rule u64_double_roundtrip) simp

definition state_numbers_small :: "DownloadState \<Rightarrow> bool" where
  "state_numbers_small st \<longleftrightarrow> small_u64 (ds_total_size st) \<and> small_u64 (ds_bytes_downloaded st)
     \<and> small_u64 (ds_chunk_size st) \<and> (\<forall>r\<in>set (ds_done_ranges st). small_u64 (br_start r) \<and> small_u64 (br_end r))"

lemma exact_u64: "cjson_laws J \<Longrightarrow> small_u64 w \<Longrightarrow> json_exact J (cJSON_CreateNumber J (double_of_u64 w))"
  using small_double by (blast intro: json_exact_number)

lemma exact_string_node: "cjson_laws J \<Longrightarrow> json_exact J (string_node J v)"
  by (rule json_exact_leaf) simp_all

lemma exact_array_node: "cjson_laws J \<Longrightarrow> \<forall>x\<in>set xs. json_exact J x \<Longrightarrow> json_exact J (array_node J xs)"
  by (rule json_exact_node) (simp_all add: array_node)

lemma range_pair_node:
  "range_pair J r = array_node J [cJSON_CreateNumber J (double_of_u64 (br_start r)), cJSON_CreateNumber J (double_of_u64 (br_end r))]"
  by (simp add: range_pair_def array_node_def)

lemma state_root_exact:
  assumes "cjson_laws J" "state_numbers_small st"
  shows "json_exact J (state_root J st)"
proof (rule json_exact_node)
  have s: "json_exact J (cJSON_CreateString J s)" and b: "json_exact J (cJSON_CreateBool J b)" for s b
    using assms(1) by (simp_all add: json_exact_leaf)
  have "\<forall>r\<in>set (ds_done_ranges st). json_exact J (range_pair J r)"
    using assms exact_u64 [OF assms(1)]
    by (auto simp: range_pair_node state_numbers_small_def intro!: exact_array_node)
  then show "\<forall>v\<in>set (json_items J (state_root J st)). json_exact J v"
    using assms s b exact_u64 [OF assms(1)] exact_string_node [OF assms(1)]
    by (auto simp: state_root_members state_members_def optional_member_def state_numbers_small_def
        intro!: exact_array_node split: option.splits if_splits)
qed (simp add: state_root_members assms(1))

text \<open>The ranges: two well-formed arrays that cover the same bytes are equal.\<close>

lemma ranges_wf_unique:
  "ranges_wf a \<Longrightarrow> ranges_wf b \<Longrightarrow> covered a = covered b \<Longrightarrow> a = b"
proof (induction a arbitrary: b)
  case Nil then show ?case using covered_empty_iff by fastforce
next
  case (Cons r a)
  obtain s b' where b: "b = s # b'" using Cons.prems covered_empty_iff [of "r # a"] by (cases b) auto
  have ok: "range_ok r" "range_ok s" and wf: "ranges_wf a" "ranges_wf b'"
    and bef: "\<forall>x\<in>set a. before r x" "\<forall>x\<in>set b'. before s x"
    using Cons.prems b by (auto simp: ranges_wf_Cons)
  have above: "n \<in> covered a \<Longrightarrow> hi_of r + 1 < n" "n \<in> covered b' \<Longrightarrow> hi_of s + 1 < n" for n
    using bef by (force simp: mem_covered before_def)+
  have iff: "n \<in> range_bytes r \<or> n \<in> covered a \<longleftrightarrow> n \<in> range_bytes s \<or> n \<in> covered b'" for n
    using Cons.prems(3) b by auto
  have lo: "lo_of r = lo_of s"
    using iff [of "lo_of r"] iff [of "lo_of s"] ok above [of "lo_of r"] above [of "lo_of s"]
    by (fastforce simp: range_bytes_def range_ok_def)
  have hi: "hi_of r = hi_of s"
    using iff [of "hi_of r + 1"] iff [of "hi_of s + 1"] above [of "hi_of r + 1"] above [of "hi_of s + 1"] lo ok
    by (auto simp: range_bytes_def range_ok_def)
  have "n \<in> covered a \<longleftrightarrow> n \<in> covered b'" for n
    using iff [of n] above [of n] lo hi by (auto simp: range_bytes_def)
  then have "covered a = covered b'" by blast
  then have "a = b'" using Cons.IH wf by blast
  moreover have "r = s" using lo hi by (cases r; cases s) (simp add: word_unat_eq_iff)
  ultimately show ?case using b by simp
qed

lemma mark_range_done_no_failure:
  "start \<le> end \<Longrightarrow> download_state_mark_range_done (\<lambda>_. True) st start end = (rc, st') \<Longrightarrow> rc = 0"
  by (auto simp: download_state_mark_range_done_def insert_sorted_range_def ensure_range_capacity_def Let_def
      split: if_splits prod.splits)

lemma done_ranges_loop_pairs:
  assumes J: "cjson_laws J" and wf: "ranges_wf rs" "state_wf st"
    and small: "\<forall>r\<in>set rs. small_u64 (br_start r) \<and> small_u64 (br_end r)"
    and inside: "ds_total_size st \<noteq> 0 \<longrightarrow> covered rs \<subseteq> {..<unat (ds_total_size st)}"
  shows "\<exists>st'. done_ranges_loop J (\<lambda>_. True) st (map (range_pair J) rs) = (0, st') \<and> state_wf st'
    \<and> same_but_ranges st st' \<and> covered (ds_done_ranges st') = covered (ds_done_ranges st) \<union> covered rs"
  using wf small inside
proof (induction rs arbitrary: st)
  case Nil then show ?case by (simp add: same_but_ranges_def)
next
  case (Cons r rs)
  have ok: "range_ok r" "ranges_wf rs" using Cons.prems(1) by (auto simp: ranges_wf_Cons)
  obtain rc st1 where m: "download_state_mark_range_done (\<lambda>_. True) st (br_start r) (br_end r) = (rc, st1)" by fastforce
  have le: "br_start r \<le> br_end r" using ok by (simp add: range_ok_def u64_order)
  have top: "ds_total_size st = 0 \<longrightarrow> br_end r \<noteq> UINT64_MAX" using ok by (auto simp: range_ok_def)
  have rc: "rc = 0" using mark_range_done_no_failure [OF le m] .
  have req: "request_bytes st (br_start r) (br_end r) = range_bytes r"
    using Cons.prems(4) by (auto simp: request_bytes_def range_bytes_def)
  have st1: "state_wf st1" "same_but_ranges st st1"
    "covered (ds_done_ranges st1) = covered (ds_done_ranges st) \<union> range_bytes r"
    using mark_range_done_spec [OF Cons.prems(2) le top m] rc req by auto
  have tot: "ds_total_size st1 = ds_total_size st" using same_but_ranges_sel(1) [OF st1(2)] .
  obtain st' where st': "done_ranges_loop J (\<lambda>_. True) st1 (map (range_pair J) rs) = (0, st')" "state_wf st'"
    "same_but_ranges st1 st'" "covered (ds_done_ranges st') = covered (ds_done_ranges st1) \<union> covered rs"
    using Cons.IH [OF ok(2) st1(1)] Cons.prems(3,4) tot by auto
  have bk: "u64_of_double (double_of_u64 (br_start r)) = br_start r" "u64_of_double (double_of_u64 (br_end r)) = br_end r"
    using Cons.prems(3) small_back by simp_all
  have items: "json_items J (range_pair J r) =
      [cJSON_CreateNumber J (double_of_u64 (br_start r)), cJSON_CreateNumber J (double_of_u64 (br_end r))]"
    by (simp add: range_pair_node array_node J)
  have "length (json_children J (range_pair J r)) = 2" using arg_cong [OF items, of length] by simp
  moreover have "snd (json_children J (range_pair J r) ! 0) = cJSON_CreateNumber J (double_of_u64 (br_start r))"
    "snd (json_children J (range_pair J r) ! 1) = cJSON_CreateNumber J (double_of_u64 (br_end r))"
    using arg_cong [OF items, of "\<lambda>xs. xs ! 0"] arg_cong [OF items, of "\<lambda>xs. xs ! 1"] calculation by simp_all
  ultimately have "done_ranges_loop J (\<lambda>_. True) st (map (range_pair J) (r # rs)) = (0, st')"
    using m rc st'(1) J
    by (simp add: cJSON_IsArray_def cJSON_IsNumber_def cJSON_GetArraySize_def range_pair_node array_node
        items [unfolded range_pair_node] bk)
  moreover have "same_but_ranges st st'" using st1(2) st'(3) unfolding same_but_ranges_def
    by (metis (no_types, lifting) DownloadState.surjective DownloadState.update_convs(23,24))
  ultimately show ?case using st' st1 by auto
qed


lemma clip_done_ranges_id:
  assumes "state_wf st"
  shows "clip_done_ranges st = st"
proof -
  have wf: "ranges_wf (ds_done_ranges st)" using assms by (simp add: state_wf_def)
  note c = clip_loop_wf [OF wf, of "ds_total_size st"]
  have "clip_loop (ds_total_size st) (ds_done_ranges st) = ds_done_ranges st"
    by (rule ranges_wf_unique) (use c wf assms in \<open>auto simp: state_wf_def\<close>)
  then show ?thesis by (simp add: clip_done_ranges_wf [OF wf])
qed

text \<open>What a saved state must satisfy to be read back: the fields the loader insists on and a status
  it accepts.\<close>

definition loadable :: "DownloadState \<Rightarrow> bool" where
  "loadable st \<longleftrightarrow> state_wf st \<and> state_numbers_small st \<and> ds_chunk_size st \<noteq> 0
     \<and> ds_url st \<noteq> None \<and> ds_filename st \<noteq> None \<and> ds_dest_path st \<noteq> None
     \<and> (ds_status st = None \<or> download_status_is_valid (ds_status st))"

definition with_default_origin :: "DownloadState \<Rightarrow> DownloadState" where
  "with_default_origin st =
     st\<lparr>ds_added_through := Some (case ds_added_through st of Some s \<Rightarrow> s | None \<Rightarrow> ''direct'')\<rparr>"

lemma status_valid_cases:
  "ds_status st = None \<or> download_status_is_valid (ds_status st) \<Longrightarrow>
   (if download_status_is_valid (ds_status st) then ds_status st else None) = ds_status st"
  by (elim disjE) simp_all

lemma loaded_fields:
  assumes "cjson_laws J" "loadable st"
  shows "load_more_fields J (state_root J st)
      ((load_fields J (state_root J st))\<lparr>ds_ts_segments := ds_ts_segments st\<rparr>)
    = (with_default_origin st)\<lparr>ds_done_ranges := [], ds_done_range_capacity := 0\<rparr>"
  using assms(2)
  by (intro DownloadState.equality)
    (simp_all add: load_more_fields_def load_fields_def with_default_origin_def calloc_state_def
      state_lookups [OF assms(1)] state_root_get [OF assms(1)] state_nodes [OF assms(1)] json_get_u64_def Let_def
      json_kind_defs assms(1) loadable_def state_numbers_small_def small_back status_valid_cases)

lemma loaded_ts:
  assumes "cjson_laws J" "ds_ts_segments st \<noteq> []"
  shows "load_ts_segments J s (array_node J (map (cJSON_CreateString J) (ds_ts_segments st)))
    = (0, s\<lparr>ds_ts_segments := ds_ts_segments st\<rparr>)"
proof -
  have "json_items J (array_node J (map (cJSON_CreateString J) (ds_ts_segments st))) = map (cJSON_CreateString J) (ds_ts_segments st)"
    by (rule array_node(2) [OF assms(1)])
  moreover from this have "json_children J (array_node J (map (cJSON_CreateString J) (ds_ts_segments st))) \<noteq> []"
    using assms(2) by auto
  moreover have "List.map_filter (\<lambda>item. if \<not> cJSON_IsString J item then None else valuestring J item)
      (map (cJSON_CreateString J) xs) = xs" for xs
    by (induction xs) (simp_all add: map_filter_simps json_kind_defs assms(1))
  ultimately show ?thesis by (simp add: load_ts_segments_def json_kind_defs array_node assms(1))
qed

lemma no_ts_segments:
  "ds_ts_segments st = [] \<Longrightarrow> (load_fields J r)\<lparr>ds_ts_segments := ds_ts_segments st\<rparr> = load_fields J r"
  by (simp add: load_fields_def calloc_state_def)

lemma state_of_state_root:
  assumes "cjson_laws J" "loadable st"
  shows "\<exists>cap. state_of_root J (\<lambda>_. True) (state_root J st)
    = Some ((with_default_origin st)\<lparr>ds_done_range_capacity := cap\<rparr>)"
proof -
  let ?r = "state_root J st"
  define s0 where "s0 = (with_default_origin st)\<lparr>ds_done_ranges := [], ds_done_range_capacity := 0\<rparr>"
  have wf: "ranges_wf (ds_done_ranges st)" "ds_total_size st \<noteq> 0 \<longrightarrow> covered (ds_done_ranges st) \<subseteq> {..<unat (ds_total_size st)}"
    using assms(2) by (auto simp: loadable_def state_wf_def)
  have s0: "state_wf s0" "ds_total_size s0 = ds_total_size st" "ds_done_ranges s0 = []"
    by (simp_all add: s0_def state_wf_def with_default_origin_def)
  have ts: "(case map_of (state_members J st) ''tsSegments'' of
        Some segments \<Rightarrow> load_ts_segments J (load_fields J ?r) segments | None \<Rightarrow> (0, load_fields J ?r))
      = (0, (load_fields J ?r)\<lparr>ds_ts_segments := ds_ts_segments st\<rparr>)"
  proof (cases "ds_ts_segments st = []")
    case True
    then show ?thesis using state_nodes(5) [OF assms(1), of st] no_ts_segments [OF True, of J ?r] by simp
  next
    case False
    then show ?thesis using state_nodes(5) [OF assms(1), of st] loaded_ts [OF assms(1) False] by simp
  qed
  obtain s1 where s1: "done_ranges_loop J (\<lambda>_. True) s0 (map (range_pair J) (ds_done_ranges st)) = (0, s1)" "state_wf s1"
    "same_but_ranges s0 s1" "covered (ds_done_ranges s1) = covered (ds_done_ranges st)"
    using done_ranges_loop_pairs [OF assms(1) wf(1) s0(1)] wf(2) s0 assms(2)
    by (auto simp: loadable_def state_numbers_small_def)
  have "ds_done_ranges s1 = ds_done_ranges st"
    using ranges_wf_unique s1(2,4) wf(1) by (auto simp: state_wf_def)
  then have eq: "s1 = (with_default_origin st)\<lparr>ds_done_range_capacity := ds_done_range_capacity s1\<rparr>"
    using s1(3) unfolding same_but_ranges_def s0_def by (simp add: with_default_origin_def)
  have parts: "load_parts J (\<lambda>_. True) ?r s0 = (0, s1)"
    using s1(1) array_node [OF assms(1)]
    by (simp add: load_parts_def load_done_ranges_def state_root_get state_nodes assms(1) json_kind_defs)
  have "ds_url s1 = ds_url st" "ds_filename s1 = ds_filename st" "ds_dest_path s1 = ds_dest_path st"
    "ds_added_through s1 \<noteq> None"
    by (subst eq, simp add: with_default_origin_def)+
  then have "state_of_root J (\<lambda>_. True) ?r = Some s1"
    using assms(2) parts clip_done_ranges_id [OF s1(2)] loaded_fields [OF assms]
    by (simp add: state_of_root_def json_kind_defs state_root_members [OF assms(1)] ts assms(1)
        s0_def [symmetric] loadable_def)
  then show ?thesis using eq by metis
qed


subsection \<open>Properties\<close>

text \<open>What saving leaves is loaded: the text at the path after a successful save.\<close>

lemma saved_text:
  assumes "download_state_save J allowed io st (Some path) fs = (0, tr)"
  shows "\<exists>tx. cJSON_PrintUnformatted J (state_root J st) = Some tx
    \<and> last (fs # tr) path = Some \<lparr>f_text = tx, f_synced = True\<rparr>
    \<and> replace_via_temp ''.tmp'' io path tx fs = (0, tr)"
proof -
  obtain tx where t: "cJSON_PrintUnformatted J (state_root J st) = Some tx"
    "replace_via_temp ''.tmp'' io path tx fs = (0, tr)"
    using assms by (auto simp: download_state_save_def split: if_splits option.splits)
  then show ?thesis using state_writer.success [OF TrueI t(2)] by blast
qed

lemma load_of_text:
  assumes "cjson_laws J" "loadable st" "cJSON_PrintUnformatted J (state_root J st) = Some tx"
    "\<And>t. empty_text t \<Longrightarrow> cJSON_Parse J t = None" "fs path = Some \<lparr>f_text = tx, f_synced = True\<rparr>"
  shows "\<exists>cap. download_state_load J (\<lambda>_. True) True empty_text (Some path) fs
    = Some ((with_default_origin st)\<lparr>ds_done_range_capacity := cap\<rparr>)"
proof -
  have "json_exact J (state_root J st)" using state_root_exact [OF assms(1)] assms(2) by (simp add: loadable_def)
  then have p: "cJSON_Parse J tx = Some (state_root J st)" using cjson_print(2) [OF assms(1)] assms(3) by fastforce
  then have "\<not> empty_text tx" using assms(4) by fastforce
  then show ?thesis using p state_of_state_root [OF assms(1,2)] assms(5)
    by (simp add: download_state_load_def read_text_def)
qed

text \<open>C6. A saved download state is read back: when the save reports success, loading the file gives the
  same state, every field and the finished ranges included, with the origin \<open>direct\<close> for a missing
  one.  The sizes must be below \<open>10\<^sup>15\<close>; cJSON does what \<open>cjson_laws\<close> says and rejects an empty text.\<close>

theorem state_save_load_roundtrip:
  assumes "cjson_laws J" "\<And>t. empty_text t \<Longrightarrow> cJSON_Parse J t = None" "loadable st"
    "download_state_save J allowed io st (Some path) fs = (0, tr)"
  shows "\<exists>cap. download_state_load J (\<lambda>_. True) True empty_text (Some path) (last (fs # tr))
    = Some ((with_default_origin st)\<lparr>ds_done_range_capacity := cap\<rparr>)"
  using saved_text [OF assms(4)] load_of_text [OF assms(1,3) _ assms(2)] by blast

definition sample_state :: DownloadState where
  "sample_state = calloc_state\<lparr>ds_url := Some ''http://h/f'', ds_filename := Some ''f'', ds_dest_path := Some ''/d/f'',
     ds_status := Some ''paused'', ds_total_size := 100, ds_chunk_size := 10,
     ds_done_ranges := [\<lparr>br_start = 0, br_end = 9\<rparr>, \<lparr>br_start = 20, br_end = 29\<rparr>], ds_done_range_capacity := 4\<rparr>"

lemma sample_state_loadable: "loadable sample_state"
  by (simp add: loadable_def sample_state_def calloc_state_def state_wf_def ranges_wf_def range_ok_def before_def
      covered_def range_bytes_def state_numbers_small_def download_status_is_valid_def) auto

definition good_io :: "json_value save_io" where
  "good_io = \<lparr>si_open = True, si_torn = JV_Null, si_written = True, si_synced = True, si_renamed = True\<rparr>"

theorem state_save_load_roundtrip_witness:
  "\<exists>tr cap. download_state_save sample_cjson (\<lambda>_. True) good_io sample_state (Some ''/t/a/state.json'') Map.empty = (0, tr)
    \<and> download_state_load sample_cjson (\<lambda>_. True) True (\<lambda>_. False) (Some ''/t/a/state.json'') (last (Map.empty # tr))
      = Some ((with_default_origin sample_state)\<lparr>ds_done_range_capacity := cap\<rparr>)"
proof -
  obtain tr where "download_state_save sample_cjson (\<lambda>_. True) good_io sample_state (Some ''/t/a/state.json'') Map.empty = (0, tr)"
    by (simp add: download_state_save_def sample_cjson_def replace_via_temp_def good_io_def Let_def)
  moreover from state_save_load_roundtrip [OF sample_cjson_laws _ sample_state_loadable this, of "\<lambda>_. False"]
  obtain cap where "download_state_load sample_cjson (\<lambda>_. True) True (\<lambda>_. False) (Some ''/t/a/state.json'')
      (last (Map.empty # tr)) = Some ((with_default_origin sample_state)\<lparr>ds_done_range_capacity := cap\<rparr>)" by auto
  ultimately show ?thesis by blast
qed

text \<open>C5. A crash never loses the state file: at whatever point saving a state is interrupted by a power loss,
  and also when it fails, the file still holds the state saved before or holds the new state, entire;
  both are read back.\<close>

theorem state_save_crash_safe:
  assumes "cjson_laws J" "\<And>t. empty_text t \<Longrightarrow> cJSON_Parse J t = None" "loadable old" "loadable new"
    "cJSON_PrintUnformatted J (state_root J old) = Some tx" "fs path = Some \<lparr>f_text = tx, f_synced = True\<rparr>"
    "download_state_save J allowed io new (Some path) fs = (rc, tr)" "fs' \<in> set (fs # tr)" "after_crash fs' fs''"
  shows "\<exists>st cap. st \<in> {old, new} \<and> download_state_load J (\<lambda>_. True) True empty_text (Some path) fs''
    = Some ((with_default_origin st)\<lparr>ds_done_range_capacity := cap\<rparr>)"
proof -
  consider "tr = []" | tx' where "cJSON_PrintUnformatted J (state_root J new) = Some tx'"
      "replace_via_temp ''.tmp'' io path tx' fs = (rc, tr)"
    using assms(7) by (auto simp: download_state_save_def split: if_splits option.splits)
  then show ?thesis
  proof cases
    case 1
    then have "fs'' path = Some \<lparr>f_text = tx, f_synced = True\<rparr>"
      using state_writer.crash_anywhere [of "[]" fs path tx fs' fs''] assms(6,8,9) by simp
    then show ?thesis using load_of_text [OF assms(1,3,5,2)] by blast
  next
    case (2 tx')
    have "\<exists>t. t \<in> insert tx (snd ` set [(io, tx')]) \<and> fs'' path = Some \<lparr>f_text = t, f_synced = True\<rparr>"
      using state_writer.crash_anywhere [of "[(io, tx')]" fs path tx fs' fs''] assms(6,8,9) 2(2) by simp
    then show ?thesis
      using load_of_text [OF assms(1,3,5,2)] load_of_text [OF assms(1,4) 2(1) assms(2)] by fastforce
  qed
qed

definition sample_fs :: "json_value fs" where
  "sample_fs = [''s'' \<mapsto> \<lparr>f_text = state_root sample_cjson sample_state, f_synced = True\<rparr>]"

theorem state_save_crash_safe_witness:
  "\<exists>st cap. st \<in> {sample_state, sample_state\<lparr>ds_done_ranges := []\<rparr>}
    \<and> download_state_load sample_cjson (\<lambda>_. True) True (\<lambda>_. False) (Some ''s'') sample_fs
    = Some ((with_default_origin st)\<lparr>ds_done_range_capacity := cap\<rparr>)"
proof -
  let ?new = "sample_state\<lparr>ds_done_ranges := []\<rparr>"
  let ?io = "good_io\<lparr>si_synced := False\<rparr>"
  have new: "loadable ?new"
    using sample_state_loadable by (simp add: loadable_def state_wf_def state_numbers_small_def sample_state_def)
  have pr: "cJSON_PrintUnformatted sample_cjson (state_root sample_cjson sample_state) = Some (state_root sample_cjson sample_state)"
    by (simp add: sample_cjson_def)
  have fs: "sample_fs ''s'' = Some \<lparr>f_text = state_root sample_cjson sample_state, f_synced = True\<rparr>"
    by (simp add: sample_fs_def)
  obtain rc tr where save: "download_state_save sample_cjson (\<lambda>_. True) ?io ?new (Some ''s'') sample_fs = (rc, tr)"
    by fastforce
  have crash: "after_crash sample_fs sample_fs" by (simp add: after_crash_def sample_fs_def)
  show ?thesis
    using state_save_crash_safe [OF sample_cjson_laws _ sample_state_loadable new pr fs save _ crash, of "\<lambda>_. False"] by simp
qed

text \<open>While a download runs under its scope, it may write a state file of its own directory and not that of
  another download; outside every scope nothing else may write while one is open.\<close>

theorem state_write_guard:
  assumes "g_download_io_scope_count sc + 1 \<noteq> 0" "0 < length own" "length own < 64" "CHR ''/'' \<notin> set item" "item \<noteq> []"
  shows "(download_io_state_write_allowed (download_io_scope_begin (Some own) sc) (dir @ ''/'' @ item @ ''/state.json'')
      \<longleftrightarrow> item = own)
    \<and> (g_download_io_scope other \<or> g_download_io_scope_count other = 0 \<or> \<not> download_io_state_write_allowed other path)"
  using assms item_id_of_path [OF assms(4,5), of dir]
  by (auto simp: download_io_state_write_allowed_def download_io_scope_begin_def)

theorem state_write_guard_witness:
  "\<not> download_io_state_write_allowed (download_io_scope_begin (Some ''a'') \<lparr>g_download_io_scope = False,
      g_download_io_item_id = [], g_download_io_scope_count = 0\<rparr>) (''/t'' @ ''/'' @ ''b'' @ ''/state.json'')"
  using state_write_guard [of "\<lparr>g_download_io_scope = False, g_download_io_item_id = [], g_download_io_scope_count = 0\<rparr>"
      "''a''" "''b''" "''/t''"] by simp

end
