(* ===== verification/Config.thy ===== *)
theory Config
  imports Json Files
begin

text \<open>
  The configuration store \<^verbatim>\<open>src/src/config.c\<close>: a JSON tree addressed by dotted keys, scalar values and
  arrays of objects, written back to the configuration file after every change.  The C code walks
  the tree by pointers and changes nodes in place; here an operation on the node a key leads to is
  given as a function, and the path to the node is rebuilt around its result.  The environment,
  cJSON and the answers of the disk are parameters.  \<open>node_at\<close> is the abstract reading of a key, and
  the lemmas describe every operation by what it does to \<open>node_at\<close> of every key.
\<close>

subsection \<open>Data\<close>

record ('j, 't) ConfigContext =
  cfg_tree :: 'j
  cfg_path :: string
  cfg_fs :: "'t fs"

text \<open>The segments of a dotted key.\<close>

fun split_dots :: "string \<Rightarrow> string list" where
  "split_dots [] = [[]]"
| "split_dots (c # cs) =
     (if c = CHR ''.'' then [] # split_dots cs
      else case split_dots cs of [] \<Rightarrow> [[c]] | s # ss \<Rightarrow> (c # s) # ss)"

subsection \<open>Walking the tree\<close>

text \<open>\<open>resolve_parent\<close> without \<open>create\<close>.\<close>

fun find_parent :: "('j, 't) cjson \<Rightarrow> 'j \<Rightarrow> string list \<Rightarrow> ('j \<times> string) option" where
  "find_parent J current [] = None"
| "find_parent J current (seg # rest) =
     (if seg = [] then None
      else if rest = [] then Some (current, seg)
      else (case cJSON_GetObjectItemCaseSensitive J current seg of
              None \<Rightarrow> None
            | Some child \<Rightarrow> if \<not> cJSON_IsObject J child then None else find_parent J child rest))"

text \<open>\<open>resolve_parent\<close> followed by a change \<open>f\<close> of the parent; with \<open>create\<close> missing objects are added
  and other values on the way are replaced by objects.  Without a result the key was refused, but
  objects added on the way stay.\<close>

fun with_parent ::
  "('j, 't) cjson \<Rightarrow> bool \<Rightarrow> 'j \<Rightarrow> string list \<Rightarrow> ('j \<Rightarrow> string \<Rightarrow> 'j \<times> 'a option) \<Rightarrow> 'j \<times> 'a option" where
  "with_parent J create current [] f = (current, None)"
| "with_parent J create current (seg # rest) f =
     (if seg = [] then (current, None)
      else if rest = [] then f current seg
      else (case cJSON_GetObjectItemCaseSensitive J current seg of
              None \<Rightarrow>
                if \<not> create then (current, None)
                else let (child, a) = with_parent J create (cJSON_CreateObject J) rest f
                     in (cJSON_AddItemToObject J current seg child, a)
            | Some child \<Rightarrow>
                if \<not> cJSON_IsObject J child
                then if \<not> create then (current, None)
                     else let (child, a) = with_parent J create (cJSON_CreateObject J) rest f
                          in (cJSON_AddItemToObject J (cJSON_DeleteItemFromObjectCaseSensitive J current seg) seg child, a)
                else let (child, a) = with_parent J create child rest f
                     in (cJSON_ReplaceItemInObjectCaseSensitive J current seg child, a)))"

function prune_empty_parents :: "('j, 't) cjson \<Rightarrow> 'j \<Rightarrow> string list \<Rightarrow> 'j" where
  "prune_empty_parents J tree segs =
     (if length segs \<le> 1 then tree
      else let path = butlast segs in
        case find_parent J tree path of
          None \<Rightarrow> tree
        | Some (parent, leaf) \<Rightarrow>
            (case cJSON_GetObjectItemCaseSensitive J parent leaf of
               None \<Rightarrow> prune_empty_parents J tree path
             | Some node \<Rightarrow>
                 if \<not> cJSON_IsObject J node \<or> cJSON_GetArraySize J node \<noteq> 0 then tree
                 else prune_empty_parents J
                        (fst (with_parent J False tree path
                           (\<lambda>p l. (cJSON_DeleteItemFromObjectCaseSensitive J p l, Some ())))) path))"
  by pat_completeness auto
termination by (relation "measure (\<lambda>(J, tree, segs). length segs)") auto

declare prune_empty_parents.simps [simp del]

subsection \<open>The file\<close>

definition load_json_file :: "('j, 't) cjson \<Rightarrow> bool \<Rightarrow> 't fs \<Rightarrow> string \<Rightarrow> 'j option" where
  "load_json_file J readable fs path =
     (case read_text readable fs path of
        None \<Rightarrow> None
      | Some t \<Rightarrow> (case cJSON_Parse J t of
           None \<Rightarrow> None
         | Some tree \<Rightarrow> if \<not> cJSON_IsObject J tree then None else Some tree))"

definition ensure_initialized :: "('j, 't) cjson \<Rightarrow> bool \<Rightarrow> string \<Rightarrow> 't fs \<Rightarrow> ('j, 't) ConfigContext" where
  "ensure_initialized J readable path fs =
     \<lparr>cfg_tree = (case load_json_file J readable fs path of Some tree \<Rightarrow> tree | None \<Rightarrow> cJSON_CreateObject J),
      cfg_path = path, cfg_fs = fs\<rparr>"

definition persist_config ::
  "('j, 't) cjson \<Rightarrow> 't save_io \<Rightarrow> ('j, 't) ConfigContext \<Rightarrow> string \<Rightarrow> int \<times> ('j, 't) ConfigContext" where
  "persist_config J io cfg path =
     (case cJSON_Print J (cfg_tree cfg) of
        None \<Rightarrow> (-1, cfg)
      | Some t \<Rightarrow> let (rc, tr) = replace_via_temp ''.tmp'' io path t (cfg_fs cfg)
                  in (rc, cfg\<lparr>cfg_fs := last (cfg_fs cfg # tr)\<rparr>))"

text \<open>A change of the tree, then the file is written when the change gave a result.\<close>

definition commit ::
  "('j, 't) cjson \<Rightarrow> 't save_io \<Rightarrow> ('j, 't) ConfigContext \<Rightarrow> 'j \<times> 'a option \<Rightarrow> int \<times> ('j, 't) ConfigContext" where
  "commit J io cfg res =
     (let cfg = cfg\<lparr>cfg_tree := fst res\<rparr>
      in if snd res = None then (-1, cfg) else persist_config J io cfg (cfg_path cfg))"

text \<open>A change of something that must exist: without a result nothing was touched.\<close>

definition commit_found ::
  "('j, 't) cjson \<Rightarrow> 't save_io \<Rightarrow> ('j, 't) ConfigContext \<Rightarrow> 'j \<times> 'a option \<Rightarrow> int \<times> ('j, 't) ConfigContext" where
  "commit_found J io cfg res = (if snd res = None then (-1, cfg) else commit J io cfg res)"

subsection \<open>Scalar values\<close>

definition config_scalar_to_string :: "('j, 't) cjson \<Rightarrow> 'j option \<Rightarrow> cstring" where
  "config_scalar_to_string J item =
     (case item of None \<Rightarrow> None | Some item \<Rightarrow>
        if cJSON_IsString J item \<and> valuestring J item \<noteq> None then valuestring J item
        else if cJSON_IsNumber J item then Some (format_f0 (valuedouble J item))
        else if cJSON_IsBool J item then Some (if cJSON_IsTrue J item then ''true'' else ''false'')
        else None)"

definition get_config_from_env :: "(string \<Rightarrow> cstring) \<Rightarrow> string \<Rightarrow> cstring" where
  "get_config_from_env getenv key =
     (let env_name = ''avar.'' @ key in if length env_name \<ge> 256 then None else getenv env_name)"

definition get_config :: "('j, 't) cjson \<Rightarrow> (string \<Rightarrow> cstring) \<Rightarrow> ('j, 't) ConfigContext \<Rightarrow> string \<Rightarrow> cstring" where
  "get_config J getenv cfg key =
     (case get_config_from_env getenv key of Some v \<Rightarrow> Some v
      | None \<Rightarrow> (case find_parent J (cfg_tree cfg) (split_dots key) of
           None \<Rightarrow> None
         | Some (parent, leaf) \<Rightarrow>
             config_scalar_to_string J (cJSON_GetObjectItemCaseSensitive J parent leaf)))"

definition get_config_or_default ::
  "('j, 't) cjson \<Rightarrow> (string \<Rightarrow> cstring) \<Rightarrow> ('j, 't) ConfigContext \<Rightarrow> string \<Rightarrow> cstring \<Rightarrow> cstring" where
  "get_config_or_default J getenv cfg key default_value =
     (case get_config J getenv cfg key of Some v \<Rightarrow> Some v | None \<Rightarrow> default_value)"

definition put_string :: "('j, 't) cjson \<Rightarrow> string \<Rightarrow> 'j \<Rightarrow> string \<Rightarrow> 'j \<times> unit option" where
  "put_string J val parent leaf =
     ((case cJSON_GetObjectItemCaseSensitive J parent leaf of
         Some existing \<Rightarrow> cJSON_ReplaceItemInObjectCaseSensitive J parent leaf (cJSON_CreateString J val)
       | None \<Rightarrow> cJSON_AddStringToObject J parent leaf val), Some ())"

definition set_config ::
  "('j, 't) cjson \<Rightarrow> 't save_io \<Rightarrow> ('j, 't) ConfigContext \<Rightarrow> cstring \<Rightarrow> cstring \<Rightarrow> int \<times> ('j, 't) ConfigContext" where
  "set_config J io cfg key val =
     (case (key, val) of
        (Some key, Some val) \<Rightarrow>
          commit J io cfg (with_parent J True (cfg_tree cfg) (split_dots key) (put_string J val))
      | _ \<Rightarrow> (-1, cfg))"

definition reset_config ::
  "('j, 't) cjson \<Rightarrow> 't save_io \<Rightarrow> ('j, 't) ConfigContext \<Rightarrow> cstring \<Rightarrow> int \<times> ('j, 't) ConfigContext" where
  "reset_config J io cfg key =
     (case key of None \<Rightarrow> (-1, cfg) | Some key \<Rightarrow>
        let segs = split_dots key;
            (tree, found) = with_parent J False (cfg_tree cfg) segs
               (\<lambda>parent leaf. case cJSON_GetObjectItemCaseSensitive J parent leaf of
                    None \<Rightarrow> (parent, None)
                  | Some item \<Rightarrow> (cJSON_DeleteItemFromObjectCaseSensitive J parent leaf, Some ()))
        in if found = None then (-1, cfg)
           else commit J io cfg (prune_empty_parents J tree segs, Some ()))"

definition reset_all_config :: "('j, 't) cjson \<Rightarrow> 't save_io \<Rightarrow> ('j, 't) ConfigContext \<Rightarrow> int \<times> ('j, 't) ConfigContext" where
  "reset_all_config J io cfg = commit J io cfg (cJSON_CreateObject J, Some ())"

definition save_config ::
  "('j, 't) cjson \<Rightarrow> 't save_io \<Rightarrow> ('j, 't) ConfigContext \<Rightarrow> cstring \<Rightarrow> int \<times> ('j, 't) ConfigContext" where
  "save_config J io cfg path = (case path of None \<Rightarrow> (-1, cfg) | Some p \<Rightarrow> persist_config J io cfg p)"

definition load_config ::
  "('j, 't) cjson \<Rightarrow> bool \<Rightarrow> 't save_io \<Rightarrow> ('j, 't) ConfigContext \<Rightarrow> cstring \<Rightarrow> int \<times> ('j, 't) ConfigContext" where
  "load_config J readable io cfg path =
     (case path of None \<Rightarrow> (-1, cfg) | Some p \<Rightarrow>
      (case load_json_file J readable (cfg_fs cfg) p of
         None \<Rightarrow> (-1, cfg)
       | Some loaded \<Rightarrow> commit J io cfg (loaded, Some ())))"

subsection \<open>Arrays of objects\<close>

text \<open>\<open>resolve_array_parent\<close>: reading, and a change \<open>g\<close> of the array in place.\<close>

definition find_array :: "('j, 't) cjson \<Rightarrow> 'j \<Rightarrow> string \<Rightarrow> 'j option" where
  "find_array J tree key =
     (case find_parent J tree (split_dots key) of
        None \<Rightarrow> None
      | Some (parent, leaf) \<Rightarrow>
          (case cJSON_GetObjectItemCaseSensitive J parent leaf of
             None \<Rightarrow> None
           | Some arr \<Rightarrow> if \<not> cJSON_IsArray J arr then None else Some arr))"

definition in_array ::
  "('j, 't) cjson \<Rightarrow> bool \<Rightarrow> ('j \<Rightarrow> 'j \<times> 'a option) \<Rightarrow> 'j \<Rightarrow> string \<Rightarrow> 'j \<times> 'a option" where
  "in_array J create g parent leaf =
     (case cJSON_GetObjectItemCaseSensitive J parent leaf of
        None \<Rightarrow> if \<not> create then (parent, None)
                else let (arr, a) = g (cJSON_CreateArray J) in (cJSON_AddItemToObject J parent leaf arr, a)
      | Some arr \<Rightarrow>
          if \<not> cJSON_IsArray J arr
          then if \<not> create then (parent, None)
               else let (arr, a) = g (cJSON_CreateArray J)
                    in (cJSON_ReplaceItemInObjectCaseSensitive J parent leaf arr, a)
          else let (arr, a) = g arr in (cJSON_ReplaceItemInObjectCaseSensitive J parent leaf arr, a))"

definition get_config_array_size :: "('j, 't) cjson \<Rightarrow> ('j, 't) ConfigContext \<Rightarrow> string \<Rightarrow> nat" where
  "get_config_array_size J cfg key =
     (case find_array J (cfg_tree cfg) key of None \<Rightarrow> 0 | Some arr \<Rightarrow> cJSON_GetArraySize J arr)"

definition get_config_array_item :: "('j, 't) cjson \<Rightarrow> ('j, 't) ConfigContext \<Rightarrow> string \<Rightarrow> nat \<Rightarrow> 'j option" where
  "get_config_array_item J cfg key i =
     (case find_array J (cfg_tree cfg) key of None \<Rightarrow> None
      | Some arr \<Rightarrow> (case cJSON_GetArrayItem J arr i of
          None \<Rightarrow> None | Some item \<Rightarrow> if \<not> cJSON_IsObject J item then None else Some item))"

definition get_config_array_item_field ::
  "('j, 't) cjson \<Rightarrow> ('j, 't) ConfigContext \<Rightarrow> string \<Rightarrow> nat \<Rightarrow> string \<Rightarrow> cstring" where
  "get_config_array_item_field J cfg key i field =
     (case get_config_array_item J cfg key i of None \<Rightarrow> None
      | Some item \<Rightarrow> config_scalar_to_string J (cJSON_GetObjectItemCaseSensitive J item field))"

definition get_config_array_item_json ::
  "('j, 't) cjson \<Rightarrow> ('j, 't) ConfigContext \<Rightarrow> string \<Rightarrow> nat \<Rightarrow> 't option" where
  "get_config_array_item_json J cfg key i =
     (case get_config_array_item J cfg key i of None \<Rightarrow> None | Some item \<Rightarrow> cJSON_PrintUnformatted J item)"

definition parse_object :: "('j, 't) cjson \<Rightarrow> 't \<Rightarrow> 'j option" where
  "parse_object J t = (case cJSON_Parse J t of None \<Rightarrow> None
     | Some parsed \<Rightarrow> if \<not> cJSON_IsObject J parsed then None else Some parsed)"

definition append_config_array_item ::
  "('j, 't) cjson \<Rightarrow> 't save_io \<Rightarrow> ('j, 't) ConfigContext \<Rightarrow> string \<Rightarrow> 't \<Rightarrow> int \<times> ('j, 't) ConfigContext" where
  "append_config_array_item J io cfg key json_object =
     (case parse_object J json_object of None \<Rightarrow> (-1, cfg)
      | Some parsed \<Rightarrow> commit J io cfg (with_parent J True (cfg_tree cfg) (split_dots key)
          (in_array J True (\<lambda>arr. (cJSON_AddItemToArray J arr parsed, Some ())))))"

text \<open>The scan for an object whose string field has the value, shared by update and remove.\<close>

definition item_matches :: "('j, 't) cjson \<Rightarrow> string \<Rightarrow> string \<Rightarrow> 'j \<Rightarrow> bool" where
  "item_matches J match_field match_value item \<longleftrightarrow>
     (if \<not> cJSON_IsObject J item then False
      else (case cJSON_GetObjectItemCaseSensitive J item match_field of
              None \<Rightarrow> False
            | Some m \<Rightarrow> if \<not> cJSON_IsString J m then False else valuestring J m = Some match_value))"

fun first_match :: "('j \<Rightarrow> bool) \<Rightarrow> 'j list \<Rightarrow> nat option" where
  "first_match P [] = None"
| "first_match P (x # xs) = (if P x then Some 0 else map_option Suc (first_match P xs))"

definition change_first_match ::
  "('j, 't) cjson \<Rightarrow> string \<Rightarrow> string \<Rightarrow> ('j \<Rightarrow> nat \<Rightarrow> 'j) \<Rightarrow> 'j \<Rightarrow> 'j \<times> unit option" where
  "change_first_match J match_field match_value h arr =
     (case first_match (item_matches J match_field match_value) (json_items J arr) of
        None \<Rightarrow> (arr, None) | Some i \<Rightarrow> (h arr i, Some ()))"

definition update_config_array_item ::
  "('j, 't) cjson \<Rightarrow> 't save_io \<Rightarrow> ('j, 't) ConfigContext \<Rightarrow> string \<Rightarrow> string \<Rightarrow> string \<Rightarrow> 't \<Rightarrow> int \<times> ('j, 't) ConfigContext" where
  "update_config_array_item J io cfg key match_field match_value json_object =
     (case parse_object J json_object of None \<Rightarrow> (-1, cfg)
      | Some parsed \<Rightarrow> commit_found J io cfg (with_parent J False (cfg_tree cfg) (split_dots key)
          (in_array J False (change_first_match J match_field match_value
             (\<lambda>arr i. cJSON_ReplaceItemInArray J arr i parsed)))))"

definition remove_config_array_item ::
  "('j, 't) cjson \<Rightarrow> 't save_io \<Rightarrow> ('j, 't) ConfigContext \<Rightarrow> string \<Rightarrow> string \<Rightarrow> string \<Rightarrow> int \<times> ('j, 't) ConfigContext" where
  "remove_config_array_item J io cfg key match_field match_value =
     commit_found J io cfg (with_parent J False (cfg_tree cfg) (split_dots key)
       (in_array J False (change_first_match J match_field match_value (cJSON_DeleteItemFromArray J))))"

definition replace_config_array_item_at ::
  "('j, 't) cjson \<Rightarrow> 't save_io \<Rightarrow> ('j, 't) ConfigContext \<Rightarrow> string \<Rightarrow> nat \<Rightarrow> 't \<Rightarrow> int \<times> ('j, 't) ConfigContext" where
  "replace_config_array_item_at J io cfg key i json_object =
     (case parse_object J json_object of None \<Rightarrow> (-1, cfg)
      | Some parsed \<Rightarrow> commit_found J io cfg (with_parent J False (cfg_tree cfg) (split_dots key)
          (in_array J False (\<lambda>arr. if i < cJSON_GetArraySize J arr
             then (cJSON_ReplaceItemInArray J arr i parsed, Some ()) else (arr, None)))))"

text \<open>The loop from the last index down: \<open>n\<close> items are left to look at.\<close>

fun remove_where_loop :: "('j, 't) cjson \<Rightarrow> string \<Rightarrow> string \<Rightarrow> 'j \<Rightarrow> nat \<Rightarrow> int \<Rightarrow> 'j \<times> int" where
  "remove_where_loop J match_field match_value arr 0 removed = (arr, removed)"
| "remove_where_loop J match_field match_value arr (Suc i) removed =
     (if item_matches J match_field match_value (json_items J arr ! i)
      then remove_where_loop J match_field match_value (cJSON_DeleteItemFromArray J arr i) i (removed + 1)
      else remove_where_loop J match_field match_value arr i removed)"

definition remove_config_array_items_where ::
  "('j, 't) cjson \<Rightarrow> 't save_io \<Rightarrow> ('j, 't) ConfigContext \<Rightarrow> string \<Rightarrow> string \<Rightarrow> string \<Rightarrow> int \<times> ('j, 't) ConfigContext" where
  "remove_config_array_items_where J io cfg key match_field match_value =
     (let (tree, res) = with_parent J False (cfg_tree cfg) (split_dots key)
            (in_array J False (\<lambda>arr. let (arr, n) = remove_where_loop J match_field match_value arr
                                          (cJSON_GetArraySize J arr) 0 in (arr, Some n)))
      in case res of
           None \<Rightarrow> (0, cfg)
         | Some removed \<Rightarrow>
             if removed > 0
             then let (rc, cfg) = commit J io cfg (tree, Some ()) in (if rc \<noteq> 0 then (-1, cfg) else (removed, cfg))
             else (removed, cfg))"

end
