(* ===== verification/Config_Tree.thy ===== *)
theory Config_Tree
  imports Config "HOL-Library.Sublist"
begin

text \<open>
  The trees of the configuration: good trees (objects without repeated names, numbers that survive
  printing), the node a dotted key leads to, and what a change at a key does to the nodes of all
  keys (\<open>with_parent_changed\<close>).  The lemmas are about \<open>resolve_parent\<close> of \<^verbatim>\<open>src/src/config.c\<close> and the
  array operations on top of it.
\<close>

subsection \<open>Trees without surprises\<close>

text \<open>Objects have no two members of one name, and numbers survive printing.\<close>

inductive json_good :: "('j, 't) cjson \<Rightarrow> 'j \<Rightarrow> bool" for J where
  json_goodI: "(cJSON_type J j = cJSON_Number \<Longrightarrow> \<exists>i::int. valuedouble J j = of_int i \<and> \<bar>i\<bar> < 10 ^ 15) \<Longrightarrow>
   (cJSON_type J j = cJSON_Object \<Longrightarrow> distinct (map fst (json_children J j))) \<Longrightarrow>
   (\<forall>v\<in>set (json_items J j). json_good J v) \<Longrightarrow> json_good J j"

inductive_cases json_good_E: "json_good J j"

lemma json_good_exact: "json_good J j \<Longrightarrow> json_exact J j"
  by (induction rule: json_good.induct) (rule json_exactI, auto)

lemma json_good_children: "json_good J j \<Longrightarrow> v \<in> set (json_items J j) \<Longrightarrow> json_good J v"
  by (auto elim: json_good_E)

lemma json_good_distinct: "json_good J j \<Longrightarrow> cJSON_type J j = cJSON_Object \<Longrightarrow> distinct (map fst (json_children J j))"
  by (auto elim: json_good_E)

lemma json_good_created:
  assumes "cjson_laws J"
  shows "json_good J (cJSON_CreateObject J)" "json_good J (cJSON_CreateArray J)"
    "json_good J (cJSON_CreateString J s)" "json_good J (cJSON_CreateNull J)" "json_good J (cJSON_CreateBool J b)"
  by (rule json_goodI; simp add: assms split: if_splits)+

lemma json_good_number:
  assumes "cjson_laws J"
  shows "json_good J (cJSON_CreateNumber J (of_nat n)) \<longleftrightarrow> n < 10 ^ 15"
proof -
  show "json_good J (cJSON_CreateNumber J (of_nat n)) \<longleftrightarrow> n < 10 ^ 15"
  proof
    assume "json_good J (cJSON_CreateNumber J (of_nat n))"
    then obtain i :: int where "of_nat n = (of_int i :: rat)" "\<bar>i\<bar> < 10 ^ 15"
      using assms by (auto elim!: json_good_E)
    then have "int n < 10 ^ 15" by (metis abs_of_nat of_int_eq_iff of_int_of_nat_eq)
    then show "n < 10 ^ 15" by simp
  next
    assume n: "n < 10 ^ 15"
    have "\<exists>i::int. (of_nat n :: rat) = of_int i \<and> \<bar>i\<bar> < 10 ^ 15" by (rule exI [of _ "int n"]) (use n in simp)
    then show "json_good J (cJSON_CreateNumber J (of_nat n))" by (rule_tac json_goodI) (simp_all add: assms)
  qed
qed

lemma json_good_array: "cJSON_type J a = cJSON_Array \<Longrightarrow> \<forall>v\<in>set (json_items J a). json_good J v \<Longrightarrow> json_good J a"
  by (rule json_goodI) auto

lemma good_get:
  assumes "cjson_laws J" "json_good J ob" "cJSON_GetObjectItemCaseSensitive J ob k = Some v"
  shows "json_good J v" "cJSON_type J ob = cJSON_Object"
proof -
  show o: "cJSON_type J ob = cJSON_Object" using assms(1,3) cjson_not_object by fastforce
  then have "(k, v) \<in> set (json_children J ob)" using assms by (auto dest: map_of_SomeD)
  then show "json_good J v" using json_good_children [OF assms(2)] by force
qed

text \<open>Objects after an addition, a replacement and a deletion: kind, goodness and members.\<close>

abbreviation get_member :: "('j, 't) cjson \<Rightarrow> 'j \<Rightarrow> string \<Rightarrow> 'j option" where
  "get_member J ob k \<equiv> cJSON_GetObjectItemCaseSensitive J ob k"

definition good_object :: "('j, 't) cjson \<Rightarrow> 'j \<Rightarrow> bool" where
  "good_object J ob \<longleftrightarrow> cJSON_type J ob = cJSON_Object \<and> json_good J ob"

lemma map_fst_replace_first [simp]: "map fst (replace_first k v xs) = map fst xs"
  by (induction xs) auto

lemma fst_remove_first: "a \<notin> fst ` set xs \<Longrightarrow> a \<notin> fst ` set (remove_first k xs)"
  using set_remove_first [of k xs] by auto

lemma distinct_remove_first: "distinct (map fst xs) \<Longrightarrow> distinct (map fst (remove_first k xs))"
proof (induction xs)
  case (Cons p xs)
  obtain a b where p: "p = (a, b)" by fastforce
  show ?case using Cons fst_remove_first [of a xs k] by (simp add: p)
qed simp

lemma map_of_remove_first_same: "distinct (map fst xs) \<Longrightarrow> map_of (remove_first k xs) k = None"
proof (induction xs)
  case (Cons p xs)
  obtain a b where p: "p = (a, b)" by fastforce
  show ?case using Cons map_of_eq_None_iff [of xs k] by (auto simp: p)
qed simp

lemma good_object_member:
  "cjson_laws J \<Longrightarrow> good_object J ob \<Longrightarrow> get_member J ob k = Some v \<Longrightarrow> json_good J v"
  using good_get(1) [of J ob k v] by (simp add: good_object_def)

lemma replace_member:
  assumes "cjson_laws J" "good_object J ob" "json_good J v"
  shows "good_object J (cJSON_ReplaceItemInObjectCaseSensitive J ob k v)"
    "get_member J (cJSON_ReplaceItemInObjectCaseSensitive J ob k v) k'
      = (if k' = k \<and> get_member J ob k \<noteq> None then Some v else get_member J ob k')"
proof -
  have "\<forall>x\<in>set (json_items J (cJSON_ReplaceItemInObjectCaseSensitive J ob k v)). json_good J x"
    using assms json_good_children [of J ob] by (auto simp: good_object_def dest!: set_replace_first)
  then show "good_object J (cJSON_ReplaceItemInObjectCaseSensitive J ob k v)"
    using assms json_good_distinct [of J ob] unfolding good_object_def
    by (intro conjI, simp, rule_tac json_goodI) simp_all
qed (use assms in \<open>auto simp: good_object_def\<close>)

lemma add_member:
  assumes "cjson_laws J" "good_object J ob" "json_good J v" "get_member J ob k = None"
  shows "good_object J (cJSON_AddItemToObject J ob k v)"
    "get_member J (cJSON_AddItemToObject J ob k v) k' = (if k' = k then Some v else get_member J ob k')"
proof -
  have o: "cJSON_type J ob = cJSON_Object" using assms(2) by (simp add: good_object_def)
  have "k \<notin> fst ` set (json_children J ob)" using assms(1,4) o by (simp add: map_of_eq_None_iff)
  then show "good_object J (cJSON_AddItemToObject J ob k v)"
    using assms(1-3) o json_good_distinct [of J ob] json_good_children [of J ob] unfolding good_object_def
    by (intro conjI, simp, rule_tac json_goodI) auto
  show "get_member J (cJSON_AddItemToObject J ob k v) k' = (if k' = k then Some v else get_member J ob k')"
    using assms(1,4) o by (auto simp: map_add_def split: option.splits)
qed

lemma delete_member:
  assumes "cjson_laws J" "good_object J ob"
  shows "good_object J (cJSON_DeleteItemFromObjectCaseSensitive J ob k)"
    "get_member J (cJSON_DeleteItemFromObjectCaseSensitive J ob k) k' = (if k' = k then None else get_member J ob k')"
proof -
  have o: "cJSON_type J ob = cJSON_Object" "json_good J ob" using assms(2) by (simp_all add: good_object_def)
  note d = json_good_distinct [OF o(2,1)]
  show "good_object J (cJSON_DeleteItemFromObjectCaseSensitive J ob k)"
    using assms(1) o(1) distinct_remove_first [OF d] json_good_children [OF o(2)] set_remove_first [of k "json_children J ob"]
    unfolding good_object_def by (intro conjI, simp, rule_tac json_goodI) auto
  show "get_member J (cJSON_DeleteItemFromObjectCaseSensitive J ob k) k' = (if k' = k then None else get_member J ob k')"
    using assms(1) o map_of_remove_first_same [OF d] map_of_remove_first [of k' k "json_children J ob"] by auto
qed

subsection \<open>Reading a key\<close>

fun node_at :: "('j, 't) cjson \<Rightarrow> 'j \<Rightarrow> string list \<Rightarrow> 'j option" where
  "node_at J tree [] = Some tree"
| "node_at J tree (s # ss) =
     (case get_member J tree s of None \<Rightarrow> None
      | Some c \<Rightarrow> if ss = [] then Some c else if cJSON_IsObject J c then node_at J c ss else None)"

definition valid_key :: "string list \<Rightarrow> bool" where
  "valid_key segs \<longleftrightarrow> segs \<noteq> [] \<and> [] \<notin> set segs"

lemma find_parent_node:
  "find_parent J tree segs = Some (p, l) \<Longrightarrow> node_at J tree segs = get_member J p l \<and> valid_key segs"
  by (induction J tree segs rule: find_parent.induct)
    (auto simp: valid_key_def split: if_splits option.splits)

lemma find_parent_None: "find_parent J tree segs = None \<Longrightarrow> valid_key segs \<Longrightarrow> node_at J tree segs = None"
  by (induction J tree segs rule: find_parent.induct)
    (auto simp: valid_key_def split: if_splits option.splits)

lemma find_parent_good:
  "cjson_laws J \<Longrightarrow> good_object J tree \<Longrightarrow> find_parent J tree segs = Some (p, l) \<Longrightarrow> good_object J p"
  by (induction J tree segs rule: find_parent.induct)
    (auto simp: good_object_def cJSON_IsObject_def split: if_splits option.splits intro: good_get(1) simp del: cjson_object)

definition unrelated :: "string list \<Rightarrow> string list \<Rightarrow> bool" where
  "unrelated a b \<longleftrightarrow> \<not> prefix a b \<and> \<not> prefix b a"

lemma unrelated_Cons: "unrelated (x # xs) ss \<Longrightarrow> \<exists>y ys. ss = y # ys \<and> (y = x \<longrightarrow> ys \<noteq> [] \<and> unrelated xs ys)"
  by (cases ss) (auto simp: unrelated_def)


subsection \<open>Changing the node of a key\<close>

text \<open>A change of an object that keeps it good and touches only one member.\<close>

definition local_change :: "('j, 't) cjson \<Rightarrow> ('j \<Rightarrow> string \<Rightarrow> 'j \<times> 'a option) \<Rightarrow> bool" where
  "local_change J f \<longleftrightarrow> (\<forall>p l. good_object J p \<longrightarrow> good_object J (fst (f p l))
     \<and> (\<forall>k. k \<noteq> l \<longrightarrow> get_member J (fst (f p l)) k = get_member J p k))"

lemma local_changeD:
  assumes "local_change J f" "good_object J p"
  shows "good_object J (fst (f p l))" "k \<noteq> l \<Longrightarrow> get_member J (fst (f p l)) k = get_member J p k"
  using assms by (auto simp: local_change_def)

text \<open>The object the change is applied to.\<close>

fun parent_of :: "('j, 't) cjson \<Rightarrow> 'j \<Rightarrow> string list \<Rightarrow> 'j" where
  "parent_of J current [] = current"
| "parent_of J current (seg # rest) =
     (if rest = [] then current
      else (case get_member J current seg of
              None \<Rightarrow> cJSON_CreateObject J
            | Some c \<Rightarrow> if cJSON_IsObject J c then parent_of J c rest else cJSON_CreateObject J))"

lemma parent_of_empty: "cjson_laws J \<Longrightarrow> parent_of J (cJSON_CreateObject J) segs = cJSON_CreateObject J"
  by (cases segs) auto

lemma find_parent_of: "find_parent J tree segs = Some (p, l) \<Longrightarrow> parent_of J tree segs = p \<and> last segs = l"
  by (induction J tree segs rule: find_parent.induct) (auto split: if_splits option.splits)

text \<open>What \<open>with_parent\<close> leaves, as one statement for the induction.\<close>

definition changed_at ::
  "('j, 't) cjson \<Rightarrow> ('j \<Rightarrow> string \<Rightarrow> 'j \<times> 'a option) \<Rightarrow> 'j \<Rightarrow> string list \<Rightarrow> 'j \<times> 'a option \<Rightarrow> bool" where
  "changed_at J f tree segs res \<longleftrightarrow>
     good_object J (fst res)
   \<and> snd res = snd (f (parent_of J tree segs) (last segs))
   \<and> node_at J (fst res) segs = get_member J (fst (f (parent_of J tree segs) (last segs))) (last segs)
   \<and> (\<forall>ss. unrelated segs ss \<longrightarrow> node_at J (fst res) ss = node_at J tree ss)"

text \<open>One step up: the member \<open>seg\<close> of the object is the changed child, every other member is kept.\<close>

lemma changed_step:
  assumes "changed_at J f child rest res" "rest \<noteq> []" "good_object J new"
    "get_member J new seg = Some (fst res)" "\<And>k. k \<noteq> seg \<Longrightarrow> get_member J new k = get_member J current k"
    "\<And>ss. ss \<noteq> [] \<Longrightarrow> node_at J current (seg # ss) = node_at J child ss"
    "parent_of J current (seg # rest) = parent_of J child rest"
  shows "changed_at J f current (seg # rest) (new, snd res)"
proof -
  have obj: "cJSON_IsObject J (fst res)" using assms(1) by (simp add: changed_at_def good_object_def cJSON_IsObject_def)
  have "node_at J new ss = node_at J current ss" if u: "unrelated (seg # rest) ss" for ss
  proof -
    obtain y ys where y: "ss = y # ys" "y = seg \<longrightarrow> ys \<noteq> [] \<and> unrelated rest ys" using unrelated_Cons [OF u] by blast
    show ?thesis
    proof (cases "y = seg")
      case True
      then have ys: "ys \<noteq> []" "unrelated rest ys" using y(2) by simp_all
      have "node_at J new ss = node_at J (fst res) ys" using True y(1) assms(4) ys(1) obj by simp
      also have "\<dots> = node_at J child ys" using assms(1) ys(2) by (simp add: changed_at_def)
      also have "\<dots> = node_at J current ss" using assms(6) [OF ys(1)] True y(1) by simp
      finally show ?thesis .
    next
      case False
      then show ?thesis using y(1) assms(5) [OF False] by simp
    qed
  qed
  then show ?thesis using assms(1-4,7) obj by (simp add: changed_at_def)
qed

lemma local_at_leaf:
  assumes "local_change J f" "good_object J tree"
  shows "changed_at J f tree [l] (f tree l)"
proof -
  have "node_at J (fst (f tree l)) ss = node_at J tree ss" if u: "unrelated [l] ss" for ss
  proof -
    obtain y ys where "ss = y # ys" "y \<noteq> l" using unrelated_Cons [OF u] by (auto simp: unrelated_def)
    then show ?thesis using local_changeD(2) [OF assms, of y l] by simp
  qed
  then show ?thesis using local_changeD(1) [OF assms] by (auto simp: changed_at_def split: option.splits)
qed

lemma with_parent_changed:
  assumes J: "cjson_laws J" and f: "local_change J f"
  shows "valid_key segs \<Longrightarrow> good_object J tree \<Longrightarrow> create \<or> find_parent J tree segs \<noteq> None \<Longrightarrow>
    changed_at J f tree segs (with_parent J create tree segs f)"
proof (induction segs arbitrary: tree)
  case Nil then show ?case by (simp add: valid_key_def)
next
  case (Cons seg rest)
  show ?case
  proof (cases "rest = []")
    case True
    then show ?thesis using Cons.prems local_at_leaf [OF f Cons.prems(2)] by (auto simp: valid_key_def)
  next
    case False
    then have seg: "seg \<noteq> []" and rest: "valid_key rest" using Cons.prems(1) by (auto simp: valid_key_def)
    have empty: "good_object J (cJSON_CreateObject J)"
      using json_good_created(1) [OF J] J by (simp add: good_object_def)
    define fresh where "fresh = with_parent J create (cJSON_CreateObject J) rest f"
    have no: "node_at J (cJSON_CreateObject J) ss = None" if "ss \<noteq> []" for ss using that J by (cases ss) auto
    have goodD: "json_good J (fst res)" if "changed_at J f c r res" for c r res
      using that by (simp add: changed_at_def good_object_def)
    show ?thesis
    proof (cases "get_member J tree seg")
      case None
      then have c: "create" using Cons.prems(3) False seg by auto
      have ch: "changed_at J f (cJSON_CreateObject J) rest fresh"
        unfolding fresh_def using Cons.IH [OF rest empty] c by blast
      note a = add_member [OF J Cons.prems(2) goodD [OF ch] None]
      have "changed_at J f tree (seg # rest) (cJSON_AddItemToObject J tree seg (fst fresh), snd fresh)"
        by (rule changed_step [OF ch False a(1)]) (use None False in \<open>auto simp: a(2) no parent_of_empty [OF J]\<close>)
      then show ?thesis using None False seg c by (simp add: fresh_def split_def Let_def)
    next
      case (Some c)
      show ?thesis
      proof (cases "cJSON_IsObject J c")
        case True
        have cg: "good_object J c"
          using good_object_member [OF J Cons.prems(2) Some] True by (simp add: good_object_def cJSON_IsObject_def)
        have "create \<or> find_parent J c rest \<noteq> None" using Cons.prems(3) Some True False seg by auto
        then have ch: "changed_at J f c rest (with_parent J create c rest f)" using Cons.IH [OF rest cg] by blast
        note a = replace_member [OF J Cons.prems(2) goodD [OF ch], of seg]
        have "changed_at J f tree (seg # rest)
            (cJSON_ReplaceItemInObjectCaseSensitive J tree seg (fst (with_parent J create c rest f)), snd (with_parent J create c rest f))"
          by (rule changed_step [OF ch False a(1)]) (use Some True False in \<open>auto simp: a(2)\<close>)
        then show ?thesis using Some True False seg by (simp add: split_def Let_def)
      next
        case nobj: False
        then have c: "create" using Cons.prems(3) Some False seg by auto
        have ch: "changed_at J f (cJSON_CreateObject J) rest fresh"
          unfolding fresh_def using Cons.IH [OF rest empty] c by blast
        note d = delete_member [OF J Cons.prems(2), of seg]
        have "get_member J (cJSON_DeleteItemFromObjectCaseSensitive J tree seg) seg = None" by (simp only: d(2) refl if_True)
        note a = add_member [OF J d(1) goodD [OF ch] this]
        have "changed_at J f tree (seg # rest)
            (cJSON_AddItemToObject J (cJSON_DeleteItemFromObjectCaseSensitive J tree seg) seg (fst fresh), snd fresh)"
          by (rule changed_step [OF ch False a(1)])
            (use Some nobj False in \<open>auto simp: a(2) d(2) no parent_of_empty [OF J]\<close>)
        then show ?thesis using Some nobj False seg c by (simp add: fresh_def split_def Let_def)
      qed
    qed
  qed
qed


text \<open>Every change that \<open>config.c\<close> makes of a member is local.\<close>

lemma local_put_string:
  assumes J: "cjson_laws J"
  shows "local_change J (put_string J v)"
proof -
  have "good_object J (fst (put_string J v p l)) \<and> (\<forall>k. k \<noteq> l \<longrightarrow> get_member J (fst (put_string J v p l)) k = get_member J p k)"
    if p: "good_object J p" for p l
  proof (cases "get_member J p l")
    case None
    note a = add_member [OF J p json_good_created(3) [OF J] None, of v]
    show ?thesis using None a(1) by (simp add: put_string_def cJSON_AddStringToObject_def a(2))
  next
    case (Some x)
    note a = replace_member [OF J p json_good_created(3) [OF J], of l v]
    show ?thesis using Some a(1) by (simp add: put_string_def a(2))
  qed
  then show ?thesis by (simp add: local_change_def)
qed

lemma put_string_member:
  assumes "cjson_laws J" "good_object J p"
  shows "get_member J (fst (put_string J v p l)) l = Some (cJSON_CreateString J v)"
  using replace_member [OF assms json_good_created(3) [OF assms(1)], of l v]
    add_member(2) [OF assms json_good_created(3) [OF assms(1)], of l v]
  by (simp add: put_string_def cJSON_AddStringToObject_def split: option.split)

definition array_change :: "('j, 't) cjson \<Rightarrow> ('j \<Rightarrow> 'j \<times> 'a option) \<Rightarrow> bool" where
  "array_change J g \<longleftrightarrow> (\<forall>a. cJSON_type J a = cJSON_Array \<and> json_good J a \<longrightarrow>
     cJSON_type J (fst (g a)) = cJSON_Array \<and> json_good J (fst (g a)))"

text \<open>The array a key names, empty when there is none.\<close>

definition array_or_new :: "('j, 't) cjson \<Rightarrow> 'j option \<Rightarrow> 'j" where
  "array_or_new J n = (case n of Some a \<Rightarrow> if cJSON_IsArray J a then a else cJSON_CreateArray J | None \<Rightarrow> cJSON_CreateArray J)"

lemma array_or_new_good:
  assumes "cjson_laws J" "good_object J p"
  shows "cJSON_type J (array_or_new J (get_member J p l)) = cJSON_Array" "json_good J (array_or_new J (get_member J p l))"
  using assms good_object_member [OF assms, of l] json_good_created(2) [OF assms(1)]
  by (auto simp: array_or_new_def cJSON_IsArray_def split: option.split)

lemma in_array_create:
  assumes "cjson_laws J" "array_change J g" "good_object J p"
  shows "good_object J (fst (in_array J True g p l))"
    "snd (in_array J True g p l) = snd (g (array_or_new J (get_member J p l)))"
    "get_member J (fst (in_array J True g p l)) k =
      (if k = l then Some (fst (g (array_or_new J (get_member J p l)))) else get_member J p k)"
proof -
  let ?a = "array_or_new J (get_member J p l)"
  have good: "json_good J (fst (g ?a))"
    using assms(2) array_or_new_good [OF assms(1,3)] by (simp add: array_change_def)
  have eq: "in_array J True g p l = (case get_member J p l of
       None \<Rightarrow> (cJSON_AddItemToObject J p l (fst (g ?a)), snd (g ?a))
     | Some _ \<Rightarrow> (cJSON_ReplaceItemInObjectCaseSensitive J p l (fst (g ?a)), snd (g ?a)))"
    by (simp add: in_array_def array_or_new_def split_def Let_def split: option.split)
  note r = replace_member [OF assms(1,3) good, of l] and a = add_member [OF assms(1,3) good, of l]
  show "good_object J (fst (in_array J True g p l))" using r(1) a(1) unfolding eq by (cases "get_member J p l") auto
  show "snd (in_array J True g p l) = snd (g ?a)" unfolding eq by (cases "get_member J p l") auto
  show "get_member J (fst (in_array J True g p l)) k = (if k = l then Some (fst (g ?a)) else get_member J p k)"
    using r(2) [of k] a(2) [of k] unfolding eq by (cases "get_member J p l") auto
qed

lemma local_in_array_create: "cjson_laws J \<Longrightarrow> array_change J g \<Longrightarrow> local_change J (in_array J True g)"
  by (auto simp: local_change_def in_array_create)

text \<open>Without \<open>create\<close> the array is there or nothing changes.\<close>

lemma in_array_keep:
  "in_array J False g p l = (case get_member J p l of
     Some a \<Rightarrow> if cJSON_IsArray J a then in_array J True g p l else (p, None) | None \<Rightarrow> (p, None))"
  by (simp add: in_array_def split: option.split)

lemma local_in_array_keep:
  assumes "cjson_laws J" "array_change J g"
  shows "local_change J (in_array J False g)"
  using local_in_array_create [OF assms]
  by (auto simp: local_change_def in_array_keep split: option.split)

lemma array_change_append: "cjson_laws J \<Longrightarrow> json_good J x \<Longrightarrow> array_change J (\<lambda>a. (cJSON_AddItemToArray J a x, Some ()))"
proof -
  assume J: "cjson_laws J" and x: "json_good J x"
  have "json_good J (cJSON_AddItemToArray J a x)" if "cJSON_type J a = cJSON_Array" "json_good J a" for a
    by (rule json_good_array) (use J x that json_good_children [OF that(2)] in \<open>auto simp: cjson_array\<close>)
  then show ?thesis using J by (simp add: array_change_def)
qed

lemma good_replace_at:
  assumes J: "cjson_laws J" and x: "json_good J x" and a: "cJSON_type J a = cJSON_Array" "json_good J a"
  shows "json_good J (cJSON_ReplaceItemInArray J a i x)"
proof (rule json_good_array)
  have "set (json_items J (cJSON_ReplaceItemInArray J a i x)) \<subseteq> insert x (set (json_items J a))"
    unfolding cjson_array(4) [OF J a(1)] by (rule set_update_subset_insert)
  then show "\<forall>v\<in>set (json_items J (cJSON_ReplaceItemInArray J a i x)). json_good J v"
    using x json_good_children [OF a(2)] by blast
qed (simp add: J a)

lemma good_delete_at:
  assumes J: "cjson_laws J" and a: "cJSON_type J a = cJSON_Array" "json_good J a"
  shows "json_good J (cJSON_DeleteItemFromArray J a i)"
proof (rule json_good_array)
  have "set (json_items J (cJSON_DeleteItemFromArray J a i)) \<subseteq> set (json_items J a)"
    unfolding cjson_array(6) [OF J a(1)] by (auto dest: in_set_takeD in_set_dropD)
  then show "\<forall>v\<in>set (json_items J (cJSON_DeleteItemFromArray J a i)). json_good J v"
    using json_good_children [OF a(2)] by blast
qed (simp add: J a)

lemma array_change_replace:
  "cjson_laws J \<Longrightarrow> json_good J x \<Longrightarrow>
   array_change J (\<lambda>a. if i < cJSON_GetArraySize J a then (cJSON_ReplaceItemInArray J a i x, Some ()) else (a, None))"
  by (auto simp: array_change_def good_replace_at)

lemma array_change_first:
  "(\<And>a i. cJSON_type J a = cJSON_Array \<Longrightarrow> json_good J a \<Longrightarrow> cJSON_type J (h a i) = cJSON_Array \<and> json_good J (h a i)) \<Longrightarrow>
   array_change J (change_first_match J mf mv h)"
  by (auto simp: array_change_def change_first_match_def split: option.split)

lemma remove_where_good:
  "cjson_laws J \<Longrightarrow> cJSON_type J a = cJSON_Array \<Longrightarrow> json_good J a \<Longrightarrow>
   cJSON_type J (fst (remove_where_loop J mf mv a n r)) = cJSON_Array \<and> json_good J (fst (remove_where_loop J mf mv a n r))"
  by (induction J mf mv a n r rule: remove_where_loop.induct) (auto simp: good_delete_at)

lemma array_change_where:
  "cjson_laws J \<Longrightarrow> array_change J (\<lambda>a. let (a, n) = remove_where_loop J mf mv a (cJSON_GetArraySize J a) 0 in (a, Some n))"
  by (auto simp: array_change_def split_def Let_def remove_where_good)

end
