(* ===== verification/Config_Correct.thy ===== *)
theory Config_Correct
  imports Config_Tree
begin

text \<open>
  Correctness of \<^verbatim>\<open>src/src/config.c\<close>: what setting and resetting a value does to every key, that the
  array operations refine operations on lists of records, that the tree stays good, and that a
  restart reads back what a successful change has written.
\<close>

subsection \<open>The operations on a good configuration\<close>

definition config_good :: "('j, 't) cjson \<Rightarrow> ('j, 't) ConfigContext \<Rightarrow> bool" where
  "config_good J cfg \<longleftrightarrow> good_object J (cfg_tree cfg)"

definition config_node :: "('j, 't) cjson \<Rightarrow> ('j, 't) ConfigContext \<Rightarrow> string \<Rightarrow> 'j option" where
  "config_node J cfg key = (if valid_key (split_dots key) then node_at J (cfg_tree cfg) (split_dots key) else None)"

text \<open>The objects of the array a key names.\<close>

definition records :: "('j, 't) cjson \<Rightarrow> ('j, 't) ConfigContext \<Rightarrow> string \<Rightarrow> 'j list" where
  "records J cfg key = (case config_node J cfg key of
     Some a \<Rightarrow> if cJSON_IsArray J a then json_items J a else [] | None \<Rightarrow> [])"

text \<open>A change at \<open>key\<close> keeps every unrelated key.\<close>

definition others_kept :: "('j, 't) cjson \<Rightarrow> ('j, 't) ConfigContext \<Rightarrow> string \<Rightarrow> ('j, 't) ConfigContext \<Rightarrow> bool" where
  "others_kept J cfg key cfg' \<longleftrightarrow>
     (\<forall>k. unrelated (split_dots key) (split_dots k) \<longrightarrow> config_node J cfg' k = config_node J cfg k)"

lemma find_parent_valid:
  "(case find_parent J tree segs of None \<Rightarrow> None | Some (p, l) \<Rightarrow> get_member J p l)
    = (if valid_key segs then node_at J tree segs else None)"
  using find_parent_node [of J tree segs] find_parent_None [of J tree segs]
  by (auto split: option.split)

lemma config_node_eq:
  "config_node J cfg key = (case find_parent J (cfg_tree cfg) (split_dots key) of
     None \<Rightarrow> None | Some (p, l) \<Rightarrow> get_member J p l)"
  unfolding config_node_def find_parent_valid ..

lemma get_config_node:
  "get_config J getenv cfg key = (case get_config_from_env getenv key of Some v \<Rightarrow> Some v
     | None \<Rightarrow> config_scalar_to_string J (config_node J cfg key))"
  unfolding get_config_def config_node_eq
  by (cases "find_parent J (cfg_tree cfg) (split_dots key)") (auto simp: config_scalar_to_string_def split: option.split)

lemma find_array_node:
  "find_array J (cfg_tree cfg) key = (case config_node J cfg key of
     Some a \<Rightarrow> if cJSON_IsArray J a then Some a else None | None \<Rightarrow> None)"
  unfolding find_array_def config_node_eq
  by (cases "find_parent J (cfg_tree cfg) (split_dots key)") (auto split: option.split)

lemma persist_config_tree [simp]:
  "cfg_tree (snd (persist_config J io cfg p)) = cfg_tree cfg"
  "cfg_path (snd (persist_config J io cfg p)) = cfg_path cfg"
  by (auto simp: persist_config_def split_def Let_def split: option.split)

lemma commit_tree [simp]: "cfg_tree (snd (commit J io cfg res)) = fst res" "cfg_path (snd (commit J io cfg res)) = cfg_path cfg"
  by (simp_all add: commit_def Let_def)

lemma commit_result: "commit J io cfg res = (rc, cfg') \<Longrightarrow> cfg_tree cfg' = fst res \<and> cfg_path cfg' = cfg_path cfg"
  using commit_tree [of J io cfg res] by simp

lemma changed_config:
  assumes "changed_at J f (cfg_tree cfg) (split_dots key) res" "valid_key (split_dots key)" "cfg_tree cfg' = fst res"
  shows "config_good J cfg'" "others_kept J cfg key cfg'"
    "config_node J cfg' key = get_member J (fst (f (parent_of J (cfg_tree cfg) (split_dots key)) (last (split_dots key)))) (last (split_dots key))"
  using assms by (auto simp: changed_at_def config_good_def others_kept_def config_node_def)

text \<open>The object the last segment is a member of, and that member.\<close>

lemma parent_of_good:
  assumes "cjson_laws J"
  shows "good_object J tree \<Longrightarrow> good_object J (parent_of J tree segs)"
proof (induction segs arbitrary: tree)
  case (Cons s ss)
  have "good_object J (cJSON_CreateObject J)" using assms json_good_created(1) [OF assms] by (simp add: good_object_def)
  moreover have "good_object J c" if "get_member J tree s = Some c" "cJSON_IsObject J c" for c
    using good_object_member [OF assms Cons.prems that(1)] that(2) by (simp add: good_object_def cJSON_IsObject_def)
  ultimately show ?case using Cons by (auto split: option.split)
qed simp

lemma parent_of_member:
  assumes "cjson_laws J"
  shows "valid_key segs \<Longrightarrow> get_member J (parent_of J tree segs) (last segs) = node_at J tree segs"
proof (induction segs arbitrary: tree)
  case (Cons s ss)
  have e: "get_member J (cJSON_CreateObject J) k = None" for k using assms by simp
  show ?case
  proof (cases "ss = []")
    case False
    then have v: "valid_key ss" using Cons.prems by (simp add: valid_key_def)
    show ?thesis using False Cons.IH [OF v] e by (auto split: option.split simp del: cjson_object)
  qed (auto split: option.split)
qed (simp add: valid_key_def)

lemma records_of_node: "records J cfg key = json_items J (array_or_new J (config_node J cfg key))" if "cjson_laws J"
  using that by (auto simp: records_def array_or_new_def split: option.split)

lemma split_dots_key: "split_dots key \<noteq> []"
  by (induction key) (auto split: list.splits)

text \<open>An array operation that may create the array.\<close>

lemma array_created:
  assumes J: "cjson_laws J" and g: "array_change J g" and good: "config_good J cfg"
    and key: "valid_key (split_dots key)"
    and w: "with_parent J True (cfg_tree cfg) (split_dots key) (in_array J True g) = res" "cfg_tree cfg' = fst res"
  shows "config_good J cfg'" "others_kept J cfg key cfg'"
    "snd res = snd (g (array_or_new J (config_node J cfg key)))"
    "records J cfg' key = json_items J (fst (g (array_or_new J (config_node J cfg key))))"
proof -
  have t: "good_object J (cfg_tree cfg)" using good by (simp add: config_good_def)
  have ch: "changed_at J (in_array J True g) (cfg_tree cfg) (split_dots key) res"
    using with_parent_changed [OF J local_in_array_create [OF J g] key t, of True] w(1) by simp
  note c = changed_config [OF ch key w(2)]
  show "config_good J cfg'" "others_kept J cfg key cfg'" by (rule c)+
  let ?p = "parent_of J (cfg_tree cfg) (split_dots key)" and ?l = "last (split_dots key)"
  have m: "get_member J ?p ?l = config_node J cfg key"
    using parent_of_member [OF J key] key by (simp add: config_node_def)
  note i = in_array_create [OF J g parent_of_good [OF J t]]
  show "snd res = snd (g (array_or_new J (config_node J cfg key)))"
    using ch i(2) [of "split_dots key" ?l] m by (simp add: changed_at_def)
  have node: "config_node J cfg' key = Some (fst (g (array_or_new J (config_node J cfg key))))"
    unfolding c(3) using i(3) [of "split_dots key" ?l ?l] m by simp
  have "cJSON_type J (fst (g (array_or_new J (config_node J cfg key)))) = cJSON_Array"
    using g array_or_new_good [OF J parent_of_good [OF J t], of "split_dots key" ?l] m by (simp add: array_change_def)
  then show "records J cfg' key = json_items J (fst (g (array_or_new J (config_node J cfg key))))"
    by (simp add: records_def node cJSON_IsArray_def)
qed


text \<open>An array operation without \<open>create\<close> needs the array; then it is the same change.\<close>

lemma with_parent_missing:
  "find_parent J tree segs = None \<Longrightarrow> snd (with_parent J False tree segs f) = None"
  by (induction J tree segs rule: find_parent.induct) (auto simp: split_def Let_def split: if_splits option.splits)

lemma find_array_parent:
  assumes "find_array J (cfg_tree cfg) key = Some arr"
  shows "valid_key (split_dots key)" "find_parent J (cfg_tree cfg) (split_dots key) \<noteq> None"
    "config_node J cfg key = Some arr" "cJSON_type J arr = cJSON_Array"
  using assms find_parent_node [of J "cfg_tree cfg" "split_dots key"]
  by (auto simp: find_array_def config_node_eq cJSON_IsArray_def split: option.splits if_splits)

lemma array_kept:
  assumes J: "cjson_laws J" and g: "array_change J g" and good: "config_good J cfg"
    and arr: "find_array J (cfg_tree cfg) key = Some arr"
    and w: "with_parent J False (cfg_tree cfg) (split_dots key) (in_array J False g) = res" "cfg_tree cfg' = fst res"
  shows "config_good J cfg'" "others_kept J cfg key cfg'" "snd res = snd (g arr)"
    "records J cfg' key = json_items J (fst (g arr))"
proof -
  have t: "good_object J (cfg_tree cfg)" using good by (simp add: config_good_def)
  note a = find_array_parent [OF arr]
  have ch: "changed_at J (in_array J False g) (cfg_tree cfg) (split_dots key) res"
    using with_parent_changed [OF J local_in_array_keep [OF J g] a(1) t, of False] w(1) a(2) by simp
  note c = changed_config [OF ch a(1) w(2)]
  show "config_good J cfg'" "others_kept J cfg key cfg'" by (rule c)+
  let ?p = "parent_of J (cfg_tree cfg) (split_dots key)" and ?l = "last (split_dots key)"
  have m: "get_member J ?p ?l = Some arr" using parent_of_member [OF J a(1)] a(1,3) by (simp add: config_node_def)
  have isa: "cJSON_IsArray J arr" using a(4) by (simp add: cJSON_IsArray_def)
  have same: "in_array J False g ?p ?l = in_array J True g ?p ?l" using m isa by (simp add: in_array_keep)
  have new: "array_or_new J (get_member J ?p ?l) = arr" using m isa by (simp add: array_or_new_def)
  note i = in_array_create [OF J g parent_of_good [OF J t], of "split_dots key" ?l, unfolded new]
  show "snd res = snd (g arr)" using ch i(2) same by (simp add: changed_at_def)
  have node: "config_node J cfg' key = Some (fst (g arr))" unfolding c(3) same using i(3) [of ?l] by simp
  have "json_good J arr" using array_or_new_good(2) [OF J parent_of_good [OF J t], of "split_dots key" ?l] new by simp
  then have "cJSON_type J (fst (g arr)) = cJSON_Array" using g a(4) by (simp add: array_change_def)
  then show "records J cfg' key = json_items J (fst (g arr))" by (simp add: records_def node cJSON_IsArray_def)
qed

subsection \<open>Lists of records\<close>

lemma first_match_Some:
  "first_match P xs = Some i \<Longrightarrow> i < length xs \<and> P (xs ! i) \<and> (\<forall>j<i. \<not> P (xs ! j))"
  by (induction xs arbitrary: i) (auto simp: less_Suc_eq_0_disj split: if_splits)

lemma first_match_None: "first_match P xs = None \<longleftrightarrow> (\<forall>x\<in>set xs. \<not> P x)"
  by (induction xs) auto

lemma remove_where_items:
  assumes "cjson_laws J" "cJSON_type J a = cJSON_Array" "n \<le> length (json_children J a)"
  shows "json_items J (fst (remove_where_loop J mf mv a n r))
      = filter (\<lambda>x. \<not> item_matches J mf mv x) (take n (json_items J a)) @ drop n (json_items J a)
    \<and> snd (remove_where_loop J mf mv a n r) = r + int (length (filter (item_matches J mf mv) (take n (json_items J a))))"
  using assms
proof (induction n arbitrary: a r)
  case (Suc i)
  let ?xs = "json_items J a"
  have i: "i < length ?xs" using Suc.prems(3) by simp
  have tk: "take (Suc i) ?xs = take i ?xs @ [?xs ! i]" using i by (rule take_Suc_conv_app_nth)
  show ?case
  proof (cases "item_matches J mf mv (?xs ! i)")
    case True
    let ?d = "cJSON_DeleteItemFromArray J a i"
    have items: "json_items J ?d = take i ?xs @ drop (Suc i) ?xs" by (rule cjson_array(6) [OF Suc.prems(1,2)])
    have "length (json_children J ?d) = length (take i ?xs @ drop (Suc i) ?xs)"
      using arg_cong [OF items, of length] by (simp only: length_map)
    then have "i \<le> length (json_children J ?d)" using i by simp
    note ih = Suc.IH [OF Suc.prems(1) cjson_array(5) [OF Suc.prems(1,2)] this]
    have "take i (json_items J ?d) = take i ?xs" "drop i (json_items J ?d) = drop (Suc i) ?xs"
      unfolding items using i by simp_all
    then show ?thesis using ih [of "r + 1"] True tk by (simp del: cjson_array)
  next
    case False
    have "drop i ?xs = ?xs ! i # drop (Suc i) ?xs" using i by (simp only: Cons_nth_drop_Suc)
    then show ?thesis using Suc.IH [OF Suc.prems(1,2), of r] Suc.prems(3) False tk by simp
  qed
qed simp


text \<open>The operations on the array of a key, and what each does to the list of records.\<close>

datatype 't array_op = AppendItem 't | ReplaceItemAt nat 't | UpdateItem string string 't
  | RemoveItem string string | RemoveItemsWhere string string

fun run_array_op ::
  "('j, 't) cjson \<Rightarrow> 't save_io \<Rightarrow> ('j, 't) ConfigContext \<Rightarrow> string \<Rightarrow> 't array_op \<Rightarrow> int \<times> ('j, 't) ConfigContext" where
  "run_array_op J io cfg key (AppendItem t) = append_config_array_item J io cfg key t"
| "run_array_op J io cfg key (ReplaceItemAt i t) = replace_config_array_item_at J io cfg key i t"
| "run_array_op J io cfg key (UpdateItem mf mv t) = update_config_array_item J io cfg key mf mv t"
| "run_array_op J io cfg key (RemoveItem mf mv) = remove_config_array_item J io cfg key mf mv"
| "run_array_op J io cfg key (RemoveItemsWhere mf mv) = remove_config_array_items_where J io cfg key mf mv"

fun list_op :: "('j, 't) cjson \<Rightarrow> 't array_op \<Rightarrow> 'j list \<Rightarrow> 'j list" where
  "list_op J (AppendItem t) xs = (case parse_object J t of Some x \<Rightarrow> xs @ [x] | None \<Rightarrow> xs)"
| "list_op J (ReplaceItemAt i t) xs = (case parse_object J t of Some x \<Rightarrow> xs[i := x] | None \<Rightarrow> xs)"
| "list_op J (UpdateItem mf mv t) xs = (case (parse_object J t, first_match (item_matches J mf mv) xs) of
     (Some x, Some i) \<Rightarrow> xs[i := x] | _ \<Rightarrow> xs)"
| "list_op J (RemoveItem mf mv) xs = (case first_match (item_matches J mf mv) xs of
     Some i \<Rightarrow> take i xs @ drop (Suc i) xs | None \<Rightarrow> xs)"
| "list_op J (RemoveItemsWhere mf mv) xs = filter (\<lambda>x. \<not> item_matches J mf mv x) xs"

text \<open>The objects in the texts the callers pass.\<close>

fun op_object :: "('j, 't) cjson \<Rightarrow> 't array_op \<Rightarrow> 'j option" where
  "op_object J (AppendItem t) = parse_object J t"
| "op_object J (ReplaceItemAt i t) = parse_object J t"
| "op_object J (UpdateItem mf mv t) = parse_object J t"
| "op_object J _ = None"

definition refines_list :: "('j, 't) cjson \<Rightarrow> ('j, 't) ConfigContext \<Rightarrow> string \<Rightarrow> 't array_op \<Rightarrow> ('j, 't) ConfigContext \<Rightarrow> bool" where
  "refines_list J cfg key opn cfg' \<longleftrightarrow> config_good J cfg' \<and> others_kept J cfg key cfg'
     \<and> records J cfg' key = list_op J opn (records J cfg key)"

lemma others_kept_refl [simp]: "others_kept J cfg key cfg"
  by (simp add: others_kept_def)

text \<open>An operation on an array that is not there.\<close>

lemma missing_array:
  assumes J: "cjson_laws J" and g: "array_change J g" and good: "config_good J cfg"
    and none: "find_array J (cfg_tree cfg) key = None"
  shows "snd (with_parent J False (cfg_tree cfg) (split_dots key) (in_array J False g)) = None"
proof (cases "find_parent J (cfg_tree cfg) (split_dots key)")
  case None then show ?thesis by (rule with_parent_missing)
next
  case (Some pl)
  obtain p l where pl: "pl = (p, l)" by fastforce
  have t: "good_object J (cfg_tree cfg)" using good by (simp add: config_good_def)
  have v: "valid_key (split_dots key)" using find_parent_node [of J "cfg_tree cfg" "split_dots key" p l] Some pl by simp
  have "changed_at J (in_array J False g) (cfg_tree cfg) (split_dots key)
      (with_parent J False (cfg_tree cfg) (split_dots key) (in_array J False g))"
    using with_parent_changed [OF J local_in_array_keep [OF J g] v t, of False] Some by simp
  moreover have "parent_of J (cfg_tree cfg) (split_dots key) = p" "last (split_dots key) = l"
    using find_parent_of [of J "cfg_tree cfg" "split_dots key" p l] Some pl by simp_all
  moreover have "snd (in_array J False g p l) = None"
    using none Some pl by (auto simp: find_array_def in_array_keep split: option.splits if_splits)
  ultimately show ?thesis by (simp add: changed_at_def)
qed

lemma no_records: "find_array J (cfg_tree cfg) key = None \<Longrightarrow> records J cfg key = []"
  by (auto simp: find_array_node records_def split: option.splits if_splits)

lemma found_records: "find_array J (cfg_tree cfg) key = Some arr \<Longrightarrow> records J cfg key = json_items J arr"
  by (auto simp: find_array_node records_def split: option.splits if_splits)

lemma kept_refines:
  assumes J: "cjson_laws J" and g: "array_change J g" and good: "config_good J cfg"
    and op: "list_op J opn [] = []" "\<And>arr. cJSON_type J arr = cJSON_Array \<Longrightarrow>
        json_items J (fst (g arr)) = list_op J opn (json_items J arr)"
      "\<And>arr. cJSON_type J arr = cJSON_Array \<Longrightarrow> snd (g arr) = None \<Longrightarrow> fst (g arr) = arr"
    and run: "commit_found J io cfg (with_parent J False (cfg_tree cfg) (split_dots key) (in_array J False g)) = (rc, cfg')"
  shows "refines_list J cfg key opn cfg'"
proof (cases "find_array J (cfg_tree cfg) key")
  case None
  have "cfg' = cfg" using run missing_array [OF J g good None] by (simp add: commit_found_def)
  then show ?thesis using good no_records [OF None] op(1) by (simp add: refines_list_def)
next
  case (Some arr)
  define w where "w = with_parent J False (cfg_tree cfg) (split_dots key) (in_array J False g)"
  have ty: "cJSON_type J arr = cJSON_Array" using find_array_parent(4) [OF Some] .
  define cfg1 where "cfg1 = cfg\<lparr>cfg_tree := fst w\<rparr>"
  have "cfg_tree cfg1 = fst w" by (simp add: cfg1_def)
  note a = array_kept [OF J g good Some w_def [symmetric] this]
  show ?thesis
  proof (cases "snd w = None")
    case True
    then have "cfg' = cfg" using run by (simp add: commit_found_def w_def)
    moreover have "fst (g arr) = arr" using op(3) [OF ty] a(3) True by simp
    ultimately show ?thesis using good op(2) [OF ty] found_records [OF Some] by (simp add: refines_list_def)
  next
    case False
    then have "commit J io cfg w = (rc, cfg')"
      using run [folded w_def] unfolding commit_found_def by (simp only: if_False)
    then have t: "cfg_tree cfg' = fst w" by (simp only: commit_result)
    note b = array_kept [OF J g good Some w_def [symmetric] t]
    show ?thesis using b op(2) [OF ty] found_records [OF Some] by (simp add: refines_list_def)
  qed
qed


lemma append_refines:
  assumes J: "cjson_laws J" and x: "json_good J x" and good: "config_good J cfg" and key: "valid_key (split_dots key)"
    and run: "commit J io cfg (with_parent J True (cfg_tree cfg) (split_dots key)
        (in_array J True (\<lambda>arr. (cJSON_AddItemToArray J arr x, Some ())))) = (rc, cfg')"
  shows "config_good J cfg' \<and> others_kept J cfg key cfg' \<and> records J cfg' key = records J cfg key @ [x]"
proof -
  note a = array_created [OF J array_change_append [OF J x] good key refl commit_result [OF run, THEN conjunct1]]
  have "cJSON_type J (array_or_new J (config_node J cfg key)) = cJSON_Array"
    using J by (auto simp: array_or_new_def cJSON_IsArray_def split: option.split)
  then show ?thesis using a J by (simp add: records_of_node)
qed

lemma json_good_item: "json_good J a \<Longrightarrow> i < length (json_items J a) \<Longrightarrow> json_good J (json_items J a ! i)"
  using json_good_children nth_mem by metis

text \<open>Every operation is the operation on the list.\<close>

lemma run_array_op_refines:
  assumes J: "cjson_laws J" and good: "config_good J cfg" and key: "valid_key (split_dots key)"
    and obj: "\<And>x. op_object J opn = Some x \<Longrightarrow> json_good J x"
    and run: "run_array_op J io cfg key opn = (rc, cfg')"
  shows "refines_list J cfg key opn cfg'"
proof (cases opn)
  case (AppendItem t)
  show ?thesis
  proof (cases "parse_object J t")
    case (Some x)
    then show ?thesis using append_refines [OF J obj good key] run AppendItem
      by (simp add: append_config_array_item_def refines_list_def)
  qed (use run AppendItem good in \<open>simp add: append_config_array_item_def refines_list_def\<close>)
next
  case (ReplaceItemAt i t)
  show ?thesis
  proof (cases "parse_object J t")
    case (Some x)
    then have x: "json_good J x" using obj ReplaceItemAt by simp
    show ?thesis
    proof (rule kept_refines [OF J array_change_replace [OF J x] good])
      show "commit_found J io cfg (with_parent J False (cfg_tree cfg) (split_dots key) (in_array J False
          (\<lambda>a. if i < cJSON_GetArraySize J a then (cJSON_ReplaceItemInArray J a i x, Some ()) else (a, None)))) = (rc, cfg')"
        using run ReplaceItemAt Some by (simp add: replace_config_array_item_at_def)
    qed (use Some ReplaceItemAt J in \<open>auto simp: cJSON_GetArraySize_def cjson_array list_update_beyond\<close>)
  qed (use run ReplaceItemAt good in \<open>simp add: replace_config_array_item_at_def refines_list_def\<close>)
next
  case (UpdateItem mf mv t)
  show ?thesis
  proof (cases "parse_object J t")
    case (Some x)
    then have x: "json_good J x" using obj UpdateItem by simp
    have ch: "array_change J (change_first_match J mf mv (\<lambda>arr i. cJSON_ReplaceItemInArray J arr i x))"
      by (rule array_change_first) (simp add: J good_replace_at [OF J x])
    show ?thesis
    proof (rule kept_refines [OF J ch good])
      show "commit_found J io cfg (with_parent J False (cfg_tree cfg) (split_dots key) (in_array J False
          (change_first_match J mf mv (\<lambda>arr i. cJSON_ReplaceItemInArray J arr i x)))) = (rc, cfg')"
        using run UpdateItem Some by (simp add: update_config_array_item_def)
    qed (use Some UpdateItem J in \<open>auto simp: change_first_match_def cjson_array split: option.split\<close>)
  qed (use run UpdateItem good in \<open>simp add: update_config_array_item_def refines_list_def\<close>)
next
  case (RemoveItem mf mv)
  have ch: "array_change J (change_first_match J mf mv (cJSON_DeleteItemFromArray J))"
    by (rule array_change_first) (simp add: J good_delete_at [OF J])
  show ?thesis
  proof (rule kept_refines [OF J ch good])
    show "commit_found J io cfg (with_parent J False (cfg_tree cfg) (split_dots key) (in_array J False
        (change_first_match J mf mv (cJSON_DeleteItemFromArray J)))) = (rc, cfg')"
      using run RemoveItem by (simp add: remove_config_array_item_def)
  qed (use RemoveItem J in \<open>auto simp: change_first_match_def cjson_array split: option.split\<close>)
next
  case (RemoveItemsWhere mf mv)
  let ?g = "\<lambda>arr. let (arr, n) = remove_where_loop J mf mv arr (cJSON_GetArraySize J arr) 0 in (arr, Some n)"
  obtain tree res where w: "with_parent J False (cfg_tree cfg) (split_dots key) (in_array J False ?g) = (tree, res)" by fastforce
  have items: "json_items J (fst (?g arr)) = filter (\<lambda>x. \<not> item_matches J mf mv x) (json_items J arr)
      \<and> snd (?g arr) = Some (int (length (filter (item_matches J mf mv) (json_items J arr))))"
    if "cJSON_type J arr = cJSON_Array" for arr
    using remove_where_items [OF J that order_refl, of mf mv 0]
    by (auto simp: cJSON_GetArraySize_def split_def Let_def)
  show ?thesis
  proof (cases "find_array J (cfg_tree cfg) key")
    case None
    then have "res = None" using missing_array [OF J array_change_where [OF J] good None, of mf mv] w by simp
    then have "cfg' = cfg" using run RemoveItemsWhere w by (simp add: remove_config_array_items_where_def)
    then show ?thesis using good no_records [OF None] RemoveItemsWhere by (simp add: refines_list_def)
  next
    case (Some arr)
    have ty: "cJSON_type J arr = cJSON_Array" using find_array_parent(4) [OF Some] .
    define cfg1 where "cfg1 = cfg\<lparr>cfg_tree := tree\<rparr>"
    have t1: "cfg_tree cfg1 = fst (tree, res)" by (simp add: cfg1_def)
    have res: "res = Some (int (length (filter (item_matches J mf mv) (json_items J arr))))"
      using array_kept(3) [OF J array_change_where [OF J] good Some w t1] items [OF ty] by simp
    show ?thesis
    proof (cases "filter (item_matches J mf mv) (json_items J arr) = []")
      case True
      then have "cfg' = cfg" using run RemoveItemsWhere w res by (simp add: remove_config_array_items_where_def)
      moreover have "filter (\<lambda>x. \<not> item_matches J mf mv x) (json_items J arr) = json_items J arr"
        using True by (simp add: filter_empty_conv filter_id_conv)
      ultimately show ?thesis using good found_records [OF Some] RemoveItemsWhere by (simp add: refines_list_def)
    next
      case False
      define n where "n = int (length (filter (item_matches J mf mv) (json_items J arr)))"
      have n: "0 < n" "res = Some n"
        unfolding n_def of_nat_0_less_iff length_greater_0_conv by (rule False, rule res)
      obtain rc1 cfg1 where c: "commit J io cfg (tree, Some ()) = (rc1, cfg1)" by fastforce
      have "cfg' = cfg1" using run RemoveItemsWhere w n c
        by (auto simp: remove_config_array_items_where_def split: if_splits)
      then have t: "cfg_tree cfg' = fst (tree, res)" using commit_result [OF c] by simp
      note b = array_kept [OF J array_change_where [OF J] good Some w t]
      show ?thesis using b items [OF ty] found_records [OF Some] RemoveItemsWhere by (simp add: refines_list_def)
    qed
  qed
qed


subsection \<open>Resetting a key\<close>

definition delete_found :: "('j, 't) cjson \<Rightarrow> 'j \<Rightarrow> string \<Rightarrow> 'j \<times> unit option" where
  "delete_found J parent leaf = (case get_member J parent leaf of
     None \<Rightarrow> (parent, None) | Some item \<Rightarrow> (cJSON_DeleteItemFromObjectCaseSensitive J parent leaf, Some ()))"

lemma local_delete: "cjson_laws J \<Longrightarrow> local_change J (\<lambda>p l. (cJSON_DeleteItemFromObjectCaseSensitive J p l, Some ()))"
  unfolding local_change_def using delete_member by fastforce

lemma local_delete_found: "cjson_laws J \<Longrightarrow> local_change J (delete_found J)"
  using local_delete [of J] by (auto simp: local_change_def delete_found_def split: option.split)

lemma node_at_append:
  "a \<noteq> [] \<Longrightarrow> b \<noteq> [] \<Longrightarrow> node_at J tree (a @ b) = (case node_at J tree a of None \<Rightarrow> None
     | Some c \<Rightarrow> if cJSON_IsObject J c then node_at J c b else None)"
  by (induction a arbitrary: tree) (auto split: option.split)

lemma empty_object_node:
  "cjson_laws J \<Longrightarrow> cJSON_IsObject J c \<Longrightarrow> cJSON_GetArraySize J c = 0 \<Longrightarrow> b \<noteq> [] \<Longrightarrow> node_at J c b = None"
  by (cases b) (auto simp: cJSON_IsObject_def cJSON_GetArraySize_def)

text \<open>Pruning removes objects above the key only: what is not on the way to the key stays.\<close>

lemma prune_nodes:
  assumes J: "cjson_laws J"
  shows "good_object J tree \<Longrightarrow> good_object J (prune_empty_parents J tree segs)
    \<and> (\<forall>ss. (node_at J tree ss = None \<longrightarrow> node_at J (prune_empty_parents J tree segs) ss = None)
          \<and> (\<not> prefix ss segs \<longrightarrow> node_at J (prune_empty_parents J tree segs) ss = node_at J tree ss))"
proof (induction "length segs" arbitrary: segs tree rule: less_induct)
  case less
  let ?path = "butlast segs"
  have pre: "prefix ss ?path \<Longrightarrow> prefix ss segs" for ss using prefix_order.trans [OF _ prefixeq_butlast] by blast
  show ?case
  proof (cases "length segs \<le> 1")
    case True then show ?thesis using less.prems by (simp add: prune_empty_parents.simps [of J tree segs])
  next
    case False
    then have shorter: "length ?path < length segs" by simp
    show ?thesis
    proof (cases "find_parent J tree ?path")
      case None then show ?thesis using less.prems by (simp add: prune_empty_parents.simps [of J tree segs])
    next
      case (Some pl)
      obtain p l where pl: "pl = (p, l)" by fastforce
      have v: "valid_key ?path" and at: "node_at J tree ?path = get_member J p l"
        using find_parent_node [of J tree ?path p l] Some pl by simp_all
      show ?thesis
      proof (cases "get_member J p l")
        case None
        then have "prune_empty_parents J tree segs = prune_empty_parents J tree ?path"
          using False Some pl by (simp add: prune_empty_parents.simps [of J tree segs])
        then show ?thesis using less.hyps [OF shorter less.prems] pre by metis
      next
        case node: (Some c)
        show ?thesis
        proof (cases "\<not> cJSON_IsObject J c \<or> cJSON_GetArraySize J c \<noteq> 0")
          case True
          then show ?thesis using False Some pl node less.prems by (simp add: prune_empty_parents.simps [of J tree segs])
        next
          case empty: False
          let ?f = "\<lambda>p l. (cJSON_DeleteItemFromObjectCaseSensitive J p l, Some ())"
          define tree1 where "tree1 = fst (with_parent J False tree ?path ?f)"
          have eq: "prune_empty_parents J tree segs = prune_empty_parents J tree1 ?path"
            using False Some pl node empty unfolding tree1_def by (subst prune_empty_parents.simps) (simp add: Let_def)
          have ch: "changed_at J ?f tree ?path (with_parent J False tree ?path ?f)"
            using with_parent_changed [OF J local_delete [OF J] v less.prems, of False] Some by simp
          then have good: "good_object J tree1" by (simp add: changed_at_def tree1_def)
          have gone: "node_at J tree1 ?path = None"
            using ch delete_member(2) [OF J parent_of_good [OF J less.prems]] by (simp add: changed_at_def tree1_def)
          have other: "unrelated ?path ss \<Longrightarrow> node_at J tree1 ss = node_at J tree ss" for ss
            using ch by (simp add: changed_at_def tree1_def)
          have below: "node_at J tree (?path @ b) = None" "node_at J tree1 (?path @ b) = None" if "b \<noteq> []" for b
          proof -
            have ne: "?path \<noteq> []" using v by (simp add: valid_key_def)
            have "node_at J c b = None" using empty_object_node [OF J _ _ that] empty by simp
            then show "node_at J tree (?path @ b) = None" "node_at J tree1 (?path @ b) = None"
              unfolding node_at_append [OF ne that] at node gone by simp_all
          qed
          have step: "(node_at J tree ss = None \<longrightarrow> node_at J tree1 ss = None) \<and> (\<not> prefix ss segs \<longrightarrow> node_at J tree1 ss = node_at J tree ss)" for ss
          proof (cases "unrelated ?path ss")
            case True then show ?thesis using other by simp
          next
            case False
            then consider (up) "prefix ss ?path" | (down) b where "ss = ?path @ b" "b \<noteq> []"
              unfolding unrelated_def prefix_def by (metis append_Nil2)
            then show ?thesis
            proof cases
              case up
              have "node_at J tree ss \<noteq> None"
              proof (cases "ss = [] \<or> ss = ?path")
                case False
                then obtain b where "?path = ss @ b" "ss \<noteq> []" "b \<noteq> []" using up by (auto simp: prefix_def)
                then show ?thesis using node_at_append [of ss b J tree] at node by (auto split: option.splits)
              qed (use at node in auto)
              then show ?thesis using pre [OF up] by blast
            next
              case down then show ?thesis using below by simp
            qed
          qed
          show ?thesis unfolding eq using less.hyps [OF shorter good] step pre by metis
        qed
      qed
    qed
  qed
qed

subsection \<open>Restarting\<close>

lemma persist_reload:
  assumes J: "cjson_laws J" and good: "config_good J cfg" and run: "persist_config J io cfg path = (0, cfg')"
  shows "load_json_file J True (cfg_fs cfg') path = Some (cfg_tree cfg')"
proof -
  have g: "json_good J (cfg_tree cfg)" "cJSON_type J (cfg_tree cfg) = cJSON_Object"
    using good by (simp_all add: config_good_def good_object_def)
  obtain t where t: "cJSON_Print J (cfg_tree cfg) = Some t" "cJSON_Parse J t = Some (cfg_tree cfg)"
    using cjson_print(1) [OF J json_good_exact [OF g(1)]] by blast
  obtain tr where tr: "replace_via_temp ''.tmp'' io path t (cfg_fs cfg) = (0, tr)"
    "cfg' = cfg\<lparr>cfg_fs := last (cfg_fs cfg # tr)\<rparr>"
    using run t(1) by (auto simp: persist_config_def split_def Let_def prod_eq_iff)
  have "cfg_fs cfg' path = Some \<lparr>f_text = t, f_synced = True\<rparr>"
    using state_writer.success [OF TrueI tr(1)] tr(2) by simp
  then show ?thesis using t(2) g(2) tr(2) by (simp add: load_json_file_def read_text_def cJSON_IsObject_def)
qed

lemma commit_reload:
  assumes "cjson_laws J" "good_object J (fst res)" "commit J io cfg res = (0, cfg')"
  shows "ensure_initialized J True (cfg_path cfg') (cfg_fs cfg') = cfg'"
proof -
  have "persist_config J io (cfg\<lparr>cfg_tree := fst res\<rparr>) (cfg_path cfg) = (0, cfg')"
    using assms(3) by (auto simp: commit_def Let_def split: if_splits)
  moreover have "config_good J (cfg\<lparr>cfg_tree := fst res\<rparr>)" using assms(2) by (simp add: config_good_def)
  ultimately have "load_json_file J True (cfg_fs cfg') (cfg_path cfg') = Some (cfg_tree cfg')"
    using persist_reload [OF assms(1)] commit_result [OF assms(3)] by metis
  then show ?thesis by (simp add: ensure_initialized_def)
qed


subsection \<open>Every operation keeps the tree good\<close>

lemma with_parent_good:
  assumes J: "cjson_laws J" and f: "local_change J f"
  shows "good_object J tree \<Longrightarrow> good_object J (fst (with_parent J create tree segs f))"
proof (induction segs arbitrary: tree)
  case (Cons seg rest)
  have empty: "good_object J (cJSON_CreateObject J)"
    using json_good_created(1) [OF J] J by (simp add: good_object_def)
  have goodD: "good_object J x \<Longrightarrow> json_good J x" for x by (simp add: good_object_def)
  show ?case
  proof (cases "seg = [] \<or> rest = []")
    case True then show ?thesis using Cons.prems local_changeD(1) [OF f Cons.prems] by auto
  next
    case False
    show ?thesis
    proof (cases "get_member J tree seg")
      case None
      then show ?thesis
        using False Cons.prems add_member(1) [OF J Cons.prems goodD [OF Cons.IH [OF empty]] None]
        by (cases create) (simp_all add: split_def Let_def)
    next
      case (Some c)
      show ?thesis
      proof (cases "cJSON_IsObject J c")
        case True
        have "good_object J c"
          using good_object_member [OF J Cons.prems Some] True by (simp add: good_object_def cJSON_IsObject_def)
        then show ?thesis
          using False Some True replace_member(1) [OF J Cons.prems goodD [OF Cons.IH]] by (simp add: split_def Let_def)
      next
        case nobj: False
        note d = delete_member [OF J Cons.prems, of seg]
        have "get_member J (cJSON_DeleteItemFromObjectCaseSensitive J tree seg) seg = None" by (simp only: d(2) refl if_True)
        then show ?thesis
          using False Some nobj Cons.prems add_member(1) [OF J d(1) goodD [OF Cons.IH [OF empty]]]
          by (cases create) (simp_all add: split_def Let_def)
      qed
    qed
  qed
qed simp

lemma reset_config_eq:
  "reset_config J io cfg (Some key) = (let segs = split_dots key; w = with_parent J False (cfg_tree cfg) segs (delete_found J)
     in if snd w = None then (-1, cfg) else commit J io cfg (prune_empty_parents J (fst w) segs, Some ()))"
  by (simp add: reset_config_def delete_found_def [abs_def] split_def Let_def)

text \<open>The operations as steps.\<close>

inductive config_step :: "('j, 't) cjson \<Rightarrow> ('j, 't) ConfigContext \<Rightarrow> int \<Rightarrow> ('j, 't) ConfigContext \<Rightarrow> bool" for J where
  step_set: "set_config J io cfg key val = (rc, cfg') \<Longrightarrow> config_step J cfg rc cfg'"
| step_reset: "reset_config J io cfg key = (rc, cfg') \<Longrightarrow> config_step J cfg rc cfg'"
| step_reset_all: "reset_all_config J io cfg = (rc, cfg') \<Longrightarrow> config_step J cfg rc cfg'"
| step_save: "save_config J io cfg path = (rc, cfg') \<Longrightarrow> config_step J cfg rc cfg'"
| step_load: "load_config J readable io cfg path = (rc, cfg') \<Longrightarrow>
     (\<And>p tree. path = Some p \<Longrightarrow> load_json_file J readable (cfg_fs cfg) p = Some tree \<Longrightarrow> json_good J tree) \<Longrightarrow>
     config_step J cfg rc cfg'"
| step_array: "run_array_op J io cfg key opn = (rc, cfg') \<Longrightarrow> valid_key (split_dots key) \<Longrightarrow>
     (\<And>x. op_object J opn = Some x \<Longrightarrow> json_good J x) \<Longrightarrow> config_step J cfg rc cfg'"

inductive_cases config_step_E: "config_step J cfg rc cfg'"

lemma commit_good: "good_object J (fst res) \<Longrightarrow> commit J io cfg res = (rc, cfg') \<Longrightarrow> config_good J cfg'"
  using commit_result [of J io cfg res rc cfg'] by (simp add: config_good_def)

lemma load_json_file_object: "load_json_file J readable fs p = Some tree \<Longrightarrow> cJSON_type J tree = cJSON_Object"
  by (auto simp: load_json_file_def cJSON_IsObject_def split: option.splits if_splits)

lemma config_step_good:
  assumes J: "cjson_laws J" and step: "config_step J cfg rc cfg'" and good: "config_good J cfg"
  shows "config_good J cfg'"
proof -
  have t: "good_object J (cfg_tree cfg)" using good by (simp add: config_good_def)
  have empty: "good_object J (cJSON_CreateObject J)"
    using json_good_created(1) [OF J] J by (simp add: good_object_def)
  show ?thesis using step
  proof (rule config_step_E)
    fix io key val assume a: "set_config J io cfg key val = (rc, cfg')"
    show ?thesis
    proof (cases "key = None \<or> val = None")
      case True then show ?thesis using a good by (auto simp: set_config_def split: option.splits)
    next
      case False
      then obtain k v where "key = Some k" "val = Some v" by auto
      then show ?thesis using a commit_good [OF with_parent_good [OF J local_put_string [OF J] t]]
        by (simp add: set_config_def)
    qed
  next
    fix io key assume a: "reset_config J io cfg key = (rc, cfg')"
    show ?thesis
    proof (cases key)
      case None then show ?thesis using a good by (simp add: reset_config_def)
    next
      case (Some k)
      define w where "w = with_parent J False (cfg_tree cfg) (split_dots k) (delete_found J)"
      have "good_object J (prune_empty_parents J (fst w) (split_dots k))"
        using prune_nodes [OF J with_parent_good [OF J local_delete_found [OF J] t]] by (simp add: w_def)
      then show ?thesis using a [unfolded Some reset_config_eq Let_def, folded w_def] good commit_good
        by (auto split: if_splits)
    qed
  next
    fix io assume "reset_all_config J io cfg = (rc, cfg')"
    then show ?thesis using commit_good [of J "(cJSON_CreateObject J, Some ())"] empty by (simp add: reset_all_config_def)
  next
    fix io path assume "save_config J io cfg path = (rc, cfg')"
    then show ?thesis using good persist_config_tree(1) [of J io cfg "the path"]
      by (cases path) (simp_all add: save_config_def config_good_def)
  next
    fix readable io path
    assume a: "load_config J readable io cfg path = (rc, cfg')"
      "\<And>p tree. path = Some p \<Longrightarrow> load_json_file J readable (cfg_fs cfg) p = Some tree \<Longrightarrow> json_good J tree"
    show ?thesis
    proof (cases "\<exists>p tree. path = Some p \<and> load_json_file J readable (cfg_fs cfg) p = Some tree")
      case True
      then obtain p tree where p: "path = Some p" "load_json_file J readable (cfg_fs cfg) p = Some tree" by blast
      then have "good_object J tree" using a(2) load_json_file_object by (auto simp: good_object_def)
      then show ?thesis using a(1) p commit_good [of J "(tree, Some ())"] by (simp add: load_config_def)
    next
      case False
      then show ?thesis using a(1) good by (auto simp: load_config_def split: option.splits)
    qed
  next
    fix io key opn
    assume a: "run_array_op J io cfg key opn = (rc, cfg')" "valid_key (split_dots key)"
      "\<And>x. op_object J opn = Some x \<Longrightarrow> json_good J x"
    then show ?thesis using run_array_op_refines [OF J good a(2) a(3) a(1)] unfolding refines_list_def by blast
  qed
qed


subsection \<open>Properties\<close>

inductive_simps json_good_simp: "json_good J j"

definition sample_config :: "(json_value, json_value) ConfigContext" where
  "sample_config = \<lparr>cfg_tree = JV_Object [(''dm'', JV_Object
     [(''items'', JV_Array [JV_Object [(''id'', JV_String ''1'')], JV_Object [(''id'', JV_String ''2'')]])])],
     cfg_path = ''c'', cfg_fs = Map.empty\<rparr>"

lemma sample_good_simps:
  "json_good sample_cjson (JV_Object ms) \<longleftrightarrow> distinct (map fst ms) \<and> list_all (json_good sample_cjson) (map snd ms)"
  "json_good sample_cjson (JV_Array xs) \<longleftrightarrow> list_all (json_good sample_cjson) xs"
  "json_good sample_cjson (JV_String s)"
  by (subst json_good_simp; simp add: sample_cjson_def list_all_iff)+

lemma sample_config_good: "config_good sample_cjson sample_config"
  by (simp add: config_good_def good_object_def sample_config_def sample_good_simps)
    (simp add: sample_cjson_def)

definition sample_save_io :: "json_value save_io" where
  "sample_save_io = \<lparr>si_open = True, si_torn = JV_Null, si_written = True, si_synced = True, si_renamed = True\<rparr>"

text \<open>C22. Setting a configuration value: \<open>get_config\<close> then returns it (unless an environment variable
  overrides the key), every key that is neither above nor below it keeps its value, and when the call
  reports success a restart reads back the same configuration.\<close>

theorem set_config_correct:
  assumes "cjson_laws J" "config_good J cfg" "valid_key (split_dots key)" "get_config_from_env getenv key = None"
    "set_config J io cfg (Some key) (Some v) = (rc, cfg')"
  shows "get_config J getenv cfg' key = Some v
    \<and> (\<forall>k. unrelated (split_dots key) (split_dots k) \<longrightarrow> get_config J getenv cfg' k = get_config J getenv cfg k)
    \<and> (rc = 0 \<longrightarrow> ensure_initialized J True (cfg_path cfg') (cfg_fs cfg') = cfg')"
proof -
  have t: "good_object J (cfg_tree cfg)" using assms(2) by (simp add: config_good_def)
  define w where "w = with_parent J True (cfg_tree cfg) (split_dots key) (put_string J v)"
  have run: "commit J io cfg w = (rc, cfg')" using assms(5) by (simp add: set_config_def w_def)
  have ch: "changed_at J (put_string J v) (cfg_tree cfg) (split_dots key) w"
    using with_parent_changed [OF assms(1) local_put_string [OF assms(1)] assms(3) t, of True] by (simp add: w_def)
  note c = changed_config [OF ch assms(3) commit_result [OF run, THEN conjunct1]]
  have "config_node J cfg' key = Some (cJSON_CreateString J v)"
    unfolding c(3) by (rule put_string_member [OF assms(1) parent_of_good [OF assms(1) t]])
  then have "get_config J getenv cfg' key = Some v"
    using assms(1,4) by (simp add: get_config_node config_scalar_to_string_def cJSON_IsString_def)
  moreover have "get_config J getenv cfg' k = get_config J getenv cfg k" if "unrelated (split_dots key) (split_dots k)" for k
  proof -
    have "config_node J cfg' k = config_node J cfg k" using c(2) that unfolding others_kept_def by blast
    then show ?thesis by (simp only: get_config_node)
  qed
  moreover have "good_object J (fst w)" using ch by (simp add: changed_at_def)
  moreover from this have "ensure_initialized J True (cfg_path cfg') (cfg_fs cfg') = cfg'" if "rc = 0"
    using commit_reload [OF assms(1), of w io cfg cfg'] run that by simp
  ultimately show ?thesis by blast
qed

theorem set_config_correct_witness:
  "get_config sample_cjson (\<lambda>_. None)
     (snd (set_config sample_cjson sample_save_io sample_config (Some ''dm.tempPath'') (Some ''/t''))) ''dm.tempPath'' = Some ''/t''"
proof -
  obtain rc cfg' where r: "set_config sample_cjson sample_save_io sample_config (Some ''dm.tempPath'') (Some ''/t'') = (rc, cfg')"
    by fastforce
  show ?thesis
    using set_config_correct [OF sample_cjson_laws sample_config_good _ _ r, of "\<lambda>_. None"] r
    by (simp add: valid_key_def get_config_from_env_def)
qed

text \<open>Resetting a configuration value removes it and leaves every key that is neither above nor below it
  as it was; objects that become empty are removed up to the first that does not.\<close>

theorem reset_config_correct:
  assumes "cjson_laws J" "config_good J cfg" "config_node J cfg key \<noteq> None"
    "reset_config J io cfg (Some key) = (rc, cfg')"
  shows "config_node J cfg' key = None \<and> config_good J cfg'
    \<and> (\<forall>k. unrelated (split_dots key) (split_dots k) \<longrightarrow> config_node J cfg' k = config_node J cfg k)"
proof -
  let ?segs = "split_dots key"
  have t: "good_object J (cfg_tree cfg)" using assms(2) by (simp add: config_good_def)
  have v: "valid_key ?segs" using assms(3) by (auto simp: config_node_def split: if_splits)
  have fp: "find_parent J (cfg_tree cfg) ?segs \<noteq> None"
    using find_parent_None [OF _ v, of J "cfg_tree cfg"] assms(3) v unfolding config_node_def by metis
  define w where "w = with_parent J False (cfg_tree cfg) ?segs (delete_found J)"
  define p where "p = parent_of J (cfg_tree cfg) ?segs"
  have ch: "changed_at J (delete_found J) (cfg_tree cfg) ?segs w"
    using with_parent_changed [OF assms(1) local_delete_found [OF assms(1)] v t, of False] fp by (simp add: w_def)
  have m: "get_member J p (last ?segs) \<noteq> None"
    using parent_of_member [OF assms(1) v] assms(3) v by (simp add: p_def config_node_def)
  then have d: "delete_found J p (last ?segs) = (cJSON_DeleteItemFromObjectCaseSensitive J p (last ?segs), Some ())"
    by (auto simp: delete_found_def)
  have found: "snd w \<noteq> None" using ch d by (simp add: changed_at_def p_def)
  have gone: "node_at J (fst w) ?segs = None"
    using ch d delete_member(2) [OF assms(1) parent_of_good [OF assms(1) t]] by (simp add: changed_at_def p_def)
  have good: "good_object J (fst w)" using ch by (simp add: changed_at_def)
  note pr = prune_nodes [OF assms(1) good, of ?segs]
  have "commit J io cfg (prune_empty_parents J (fst w) ?segs, Some ()) = (rc, cfg')"
    using assms(4) found unfolding reset_config_eq Let_def w_def [symmetric] by simp
  then have tree: "cfg_tree cfg' = prune_empty_parents J (fst w) ?segs" using commit_result by fastforce
  have "config_node J cfg' k = config_node J cfg k" if u: "unrelated ?segs (split_dots k)" for k
    using pr ch u by (auto simp: config_node_def tree changed_at_def unrelated_def)
  then show ?thesis using pr gone tree by (simp add: config_node_def config_good_def)
qed

theorem reset_config_correct_witness:
  "config_node sample_cjson (snd (reset_config sample_cjson sample_save_io sample_config (Some ''dm.items''))) ''dm.items'' = None"
proof -
  obtain rc cfg' where r: "reset_config sample_cjson sample_save_io sample_config (Some ''dm.items'') = (rc, cfg')"
    by fastforce
  have "config_node sample_cjson sample_config ''dm.items'' \<noteq> None"
    by (simp add: config_node_def valid_key_def sample_config_def sample_cjson_def cJSON_IsObject_def)
  from reset_config_correct [OF sample_cjson_laws sample_config_good this r] show ?thesis by (simp add: r)
qed

text \<open>C21. The array operations of the configuration refine operations on a list: appending, replacing at an
  index, updating or removing the first match, and removing all matches do to the records of the key
  what the name says, and touch no unrelated key; a text that is no JSON object, a missing array or
  a missing match change nothing.\<close>

theorem array_ops_refine_lists:
  assumes "cjson_laws J" "config_good J cfg" "valid_key (split_dots key)"
    "\<And>x. op_object J opn = Some x \<Longrightarrow> json_good J x" "run_array_op J io cfg key opn = (rc, cfg')"
  shows "records J cfg' key = list_op J opn (records J cfg key)
    \<and> (\<forall>k. unrelated (split_dots key) (split_dots k) \<longrightarrow> records J cfg' k = records J cfg k)"
  using run_array_op_refines [OF assms(1-3) assms(4) assms(5)] by (auto simp: refines_list_def others_kept_def records_def)

theorem array_ops_refine_lists_witness:
  "records sample_cjson (snd (run_array_op sample_cjson sample_save_io sample_config ''dm.items'' (RemoveItem ''id'' ''1''))) ''dm.items''
    = [JV_Object [(''id'', JV_String ''2'')]]"
proof -
  obtain rc cfg' where r: "run_array_op sample_cjson sample_save_io sample_config ''dm.items'' (RemoveItem ''id'' ''1'') = (rc, cfg')"
    by fastforce
  have "records sample_cjson cfg' ''dm.items'' = list_op sample_cjson (RemoveItem ''id'' ''1'') (records sample_cjson sample_config ''dm.items'')"
    using array_ops_refine_lists [OF sample_cjson_laws sample_config_good _ _ r] by (simp add: valid_key_def)
  also have "\<dots> = [JV_Object [(''id'', JV_String ''2'')]]"
    by (simp add: records_def config_node_def valid_key_def sample_config_def sample_cjson_def cJSON_IsObject_def
        cJSON_IsArray_def item_matches_def cJSON_IsString_def)
  finally show ?thesis by (simp only: r snd_conv)
qed



end
