(* ===== verification/Ids.thy ===== *)
theory Ids
  imports CLib
begin

text \<open>
  The ids of downloads, \<^verbatim>\<open>src/src/download.c\<close>: a snowflake number (milliseconds, machine, sequence)
  mixed by three shifts and two multiplications and printed in hexadecimal.  \<open>clock\<close> is the sequence
  of answers of \<open>mg_millis\<close>, and the position in it is part of the state.  The loop that waits for the
  next millisecond may run for ever when the clock stands still, so a call has an optional result.
\<close>

subsection \<open>Definitions\<close>

definition DL_SNOWFLAKE_EPOCH_MS :: u64 where "DL_SNOWFLAKE_EPOCH_MS = 1704067200000"
definition DL_SNOWFLAKE_MACHINE_MASK :: u32 where "DL_SNOWFLAKE_MACHINE_MASK = push_bit 10 1 - 1"
definition DL_SNOWFLAKE_SEQUENCE_MASK :: u32 where "DL_SNOWFLAKE_SEQUENCE_MASK = push_bit 12 1 - 1"

record DownloadSnowflakeState =
  sf_ready :: bool
  sf_last_ms :: u64
  sf_sequence :: u32
  sf_machine_id :: u32

definition g_download_snowflake :: DownloadSnowflakeState where
  "g_download_snowflake = \<lparr>sf_ready = False, sf_last_ms = 0, sf_sequence = 0, sf_machine_id = 0\<rparr>"

definition download_snowflake_machine_id :: "u64 \<Rightarrow> u32" where
  "download_snowflake_machine_id pid = ucast (pid AND ucast DL_SNOWFLAKE_MACHINE_MASK)"

definition download_snowflake_mix :: "u64 \<Rightarrow> u64" where
  "download_snowflake_mix val =
     (let mixed = val XOR drop_bit 30 val;
          mixed = mixed * 0xbf58476d1ce4e5b9;
          mixed = mixed XOR drop_bit 27 mixed;
          mixed = mixed * 0x94d049bb133111eb
      in mixed XOR drop_bit 31 mixed)"

partial_function (option) download_snowflake_wait_next_ms ::
  "(nat \<Rightarrow> u64) \<Rightarrow> u64 \<Rightarrow> nat \<Rightarrow> (u64 \<times> nat) option" where
  "download_snowflake_wait_next_ms clock last_ms t =
     (let now = clock t in
      if now \<le> last_ms then download_snowflake_wait_next_ms clock last_ms (Suc t) else Some (now, Suc t))"

text \<open>The number of a millisecond, a machine and a sequence.\<close>

definition snowflake_raw :: "u64 \<Rightarrow> u32 \<Rightarrow> u32 \<Rightarrow> u64" where
  "snowflake_raw now machine_id seqno =
     (let timestamp = now - DL_SNOWFLAKE_EPOCH_MS
      in push_bit 22 timestamp OR push_bit 12 (ucast machine_id) OR ucast seqno)"

definition download_snowflake_next ::
  "u64 \<Rightarrow> (nat \<Rightarrow> u64) \<Rightarrow> DownloadSnowflakeState \<times> nat \<Rightarrow> (u64 \<times> DownloadSnowflakeState \<times> nat) option" where
  "download_snowflake_next pid clock = (\<lambda>(sf, t).
     let sf = (if sf_ready sf then sf
               else sf\<lparr>sf_ready := True, sf_machine_id := download_snowflake_machine_id pid\<rparr>);
         now = clock t; t = Suc t;
         now = (if now < sf_last_ms sf then sf_last_ms sf else now);
         seqno = (if now = sf_last_ms sf then sf_sequence sf + 1 else 0);
         finish = (\<lambda>now seqno t. (snowflake_raw now (sf_machine_id sf) seqno,
                                  sf\<lparr>sf_last_ms := now, sf_sequence := seqno\<rparr>, t))
     in if now = sf_last_ms sf \<and> seqno > DL_SNOWFLAKE_SEQUENCE_MASK
        then (case download_snowflake_wait_next_ms clock (sf_last_ms sf) t of
                None \<Rightarrow> None | Some (now, t) \<Rightarrow> Some (finish now 0 t))
        else Some (finish now seqno t))"

text \<open>\<open>"%016llx"\<close>.\<close>

definition hex_digit :: "nat \<Rightarrow> char" where
  "hex_digit d = ''0123456789abcdef'' ! d"

definition show_hex16 :: "u64 \<Rightarrow> string" where
  "show_hex16 w = map (\<lambda>i. hex_digit (unat (drop_bit (4 * i) w AND 15))) (rev [0..<16])"

definition download_id_text :: "u64 \<Rightarrow> string" where
  "download_id_text raw = ''dl-'' @ show_hex16 (download_snowflake_mix raw)"

text \<open>\<open>download_generate_id\<close>: \<open>taken\<close> tells whether an item has the id; \<open>Some None\<close> is the NULL after 32
  attempts.\<close>

fun generate_id_loop ::
  "u64 \<Rightarrow> (nat \<Rightarrow> u64) \<Rightarrow> (string \<Rightarrow> bool) \<Rightarrow> nat \<Rightarrow> DownloadSnowflakeState \<times> nat
   \<Rightarrow> (cstring \<times> DownloadSnowflakeState \<times> nat) option" where
  "generate_id_loop pid clock taken 0 st = Some (None, st)"
| "generate_id_loop pid clock taken (Suc attempts) st =
     (case download_snowflake_next pid clock st of
        None \<Rightarrow> None
      | Some (raw, st) \<Rightarrow>
          let generated = download_id_text raw
          in if \<not> taken generated then Some (Some generated, st)
             else generate_id_loop pid clock taken attempts st)"

definition download_generate_id ::
  "u64 \<Rightarrow> (nat \<Rightarrow> u64) \<Rightarrow> (string \<Rightarrow> bool) \<Rightarrow> DownloadSnowflakeState \<times> nat
   \<Rightarrow> (cstring \<times> DownloadSnowflakeState \<times> nat) option" where
  "download_generate_id pid clock taken st = generate_id_loop pid clock taken 32 st"

subsection \<open>The number determines millisecond and sequence\<close>

lemma xor_shift_inj:
  assumes "0 < k" "x XOR drop_bit k x = y XOR drop_bit k (y :: u64)"
  shows "x = y"
proof -
  have step: "bit x n = bit y n" if "\<And>m. n < m \<Longrightarrow> bit x m = bit y m" for n
  proof -
    have "bit (x XOR drop_bit k x) n = bit (y XOR drop_bit k y) n" using assms(2) by simp
    moreover have "bit x (k + n) = bit y (k + n)" using that assms(1) by simp
    ultimately show ?thesis by (auto simp: bit_simps)
  qed
  have "bit x n = bit y n" for n
  proof (induction "64 - n" arbitrary: n rule: less_induct)
    case less
    show ?case
    proof (cases "n < 64")
      case True
      show ?thesis by (rule step) (rule less, use True in simp)
    qed (simp add: bit_word.rep_eq)
  qed
  then show ?thesis by (simp add: bit_eq_iff)
qed

lemma mult_odd_inj: "c * d = 1 \<Longrightarrow> x * c = y * c \<Longrightarrow> x = (y :: u64)"
proof -
  assume cd: "c * d = 1" and e: "x * c = y * c"
  have "x * (c * d) = y * (c * d)" using e by (simp add: mult.assoc [symmetric])
  then show "x = y" using cd by simp
qed

lemma snowflake_mix_inj: "download_snowflake_mix x = download_snowflake_mix y \<Longrightarrow> x = y"
proof -
  assume e: "download_snowflake_mix x = download_snowflake_mix y"
  have c1: "(0xbf58476d1ce4e5b9 :: u64) * 0x96de1b173f119089 = 1" by simp
  have c2: "(0x94d049bb133111eb :: u64) * 0x319642b2d24d8ec3 = 1" by simp
  let ?a = "\<lambda>v :: u64. (v XOR drop_bit 30 v) * 0xbf58476d1ce4e5b9"
  let ?b = "\<lambda>v :: u64. (?a v XOR drop_bit 27 (?a v)) * 0x94d049bb133111eb"
  have "?b x XOR drop_bit 31 (?b x) = ?b y XOR drop_bit 31 (?b y)"
    using e unfolding download_snowflake_mix_def Let_def .
  then have "?b x = ?b y" by (rule xor_shift_inj [of 31, rotated]) simp
  then have "?a x XOR drop_bit 27 (?a x) = ?a y XOR drop_bit 27 (?a y)" by (rule mult_odd_inj [OF c2])
  then have "?a x = ?a y" by (rule xor_shift_inj [of 27, rotated]) simp
  then have "x XOR drop_bit 30 x = y XOR drop_bit 30 y" by (rule mult_odd_inj [OF c1])
  then show "x = y" by (rule xor_shift_inj [of 30, rotated]) simp
qed

lemma snowflake_raw_parts:
  assumes "unat m < 2 ^ 10" "unat s < 2 ^ 12"
  shows "drop_bit 22 (snowflake_raw now m s) = take_bit 42 (now - DL_SNOWFLAKE_EPOCH_MS)"
    "take_bit 12 (snowflake_raw now m s) = ucast s"
proof -
  have m: "\<not> bit m k" if "10 \<le> k" for k
    using assms(1) that by (metis bit_take_bit_iff leD take_bit_nat_eq_self_iff unsigned_take_bit_eq word_unat_eq_iff)
  have s: "\<not> bit s k" if "12 \<le> k" for k
    using assms(2) that by (metis bit_take_bit_iff leD take_bit_nat_eq_self_iff unsigned_take_bit_eq word_unat_eq_iff)
  show "drop_bit 22 (snowflake_raw now m s) = take_bit 42 (now - DL_SNOWFLAKE_EPOCH_MS)"
    by (rule bit_eqI) (auto simp: snowflake_raw_def bit_simps m s)
  show "take_bit 12 (snowflake_raw now m s) = ucast s"
    using s by (intro bit_eqI) (auto simp: snowflake_raw_def bit_simps not_le intro: ccontr)
qed

subsection \<open>Ids never repeat\<close>

text \<open>Calls in a row: the numbers they give.\<close>

fun snowflake_calls ::
  "u64 \<Rightarrow> (nat \<Rightarrow> u64) \<Rightarrow> nat \<Rightarrow> DownloadSnowflakeState \<times> nat \<Rightarrow> (u64 list \<times> DownloadSnowflakeState \<times> nat) option" where
  "snowflake_calls pid clock 0 st = Some ([], st)"
| "snowflake_calls pid clock (Suc n) st =
     (case download_snowflake_next pid clock st of
        None \<Rightarrow> None
      | Some (raw, st) \<Rightarrow>
          (case snowflake_calls pid clock n st of None \<Rightarrow> None | Some (raws, st) \<Rightarrow> Some (raw # raws, st)))"

text \<open>The clock stays within \<open>2\<^sup>42\<close> milliseconds (139 years) of a base.\<close>

definition in_window :: "nat \<Rightarrow> u64 \<Rightarrow> bool" where
  "in_window base ms \<longleftrightarrow> base \<le> unat ms \<and> unat ms < base + 2 ^ 42"

lemma take_bit_window:
  assumes "in_window base a" "in_window base b" "take_bit 42 (a - e) = take_bit 42 (b - e)"
  shows "a = b"
proof -
  have p: "push_bit 22 (take_bit 42 x) = push_bit 22 x" "take_bit 42 x = drop_bit 22 (push_bit 22 x)" for x :: u64
    by (rule bit_eqI; auto simp: bit_simps)+
  have "push_bit 22 (a - e) = push_bit 22 (b - e)" using arg_cong [OF assms(3), of "push_bit 22"] by (simp only: p(1))
  then have "push_bit 22 a = push_bit 22 b" by (simp add: push_bit_eq_mult left_diff_distrib)
  then have "take_bit 42 a = take_bit 42 b" unfolding p(2) by simp
  then have "take_bit 42 (unat a) = take_bit 42 (unat b)"
    by (simp only: unsigned_take_bit_eq [symmetric])
  then have m: "unat a mod 2 ^ 42 = unat b mod 2 ^ 42" by (simp only: take_bit_eq_mod)
  have "x = y" if "x \<le> y" "y mod 2 ^ 42 = x mod 2 ^ 42" "y < x + 2 ^ 42" for x y :: nat
  proof -
    have "2 ^ 42 dvd y - x" using that(1,2) mod_eq_dvd_iff_nat [of x y] by blast
    moreover have "y - x < 2 ^ 42" using that(1,3) by linarith
    ultimately have "\<not> 0 < y - x" using nat_dvd_not_less by blast
    then show ?thesis using that(1) by simp
  qed
  note mod_eq = this
  have "unat b < unat a + 2 ^ 42" "unat a < unat b + 2 ^ 42" using assms(1,2) unfolding in_window_def by linarith+
  then have "unat a = unat b"
    using mod_eq [of "unat a" "unat b"] mod_eq [of "unat b" "unat a"] m by (cases "unat a \<le> unat b") auto
  then show ?thesis by (simp only: word_unat_eq_iff)
qed

lemma snowflake_raw_inj:
  assumes "in_window base a" "in_window base b" "unat m < 2 ^ 10" "unat s < 2 ^ 12" "unat s' < 2 ^ 12"
    "snowflake_raw a m s = snowflake_raw b m s'"
  shows "a = b \<and> s = s'"
proof -
  note p = snowflake_raw_parts [OF assms(3,4), of a] snowflake_raw_parts [OF assms(3,5), of b]
  have "take_bit 42 (a - DL_SNOWFLAKE_EPOCH_MS) = take_bit 42 (b - DL_SNOWFLAKE_EPOCH_MS)"
    using p(1,3) assms(6) by simp
  then have "a = b" by (rule take_bit_window [OF assms(1,2)])
  moreover have "(ucast s :: u64) = ucast s'" using p(2,4) assms(6) by simp
  then have "unat (ucast s :: u64) = unat (ucast s' :: u64)" by simp
  then have "unat s = unat s'" using assms(4,5) by (simp add: unsigned_ucast_eq take_bit_nat_eq_self)
  ultimately show ?thesis by (simp add: word_unat_eq_iff)
qed

text \<open>One call: the pair of millisecond and sequence grows.\<close>

definition later :: "u64 \<times> u32 \<Rightarrow> u64 \<times> u32 \<Rightarrow> bool" where
  "later p q \<longleftrightarrow> fst p < fst q \<or> fst p = fst q \<and> snd p < snd q"

definition sf_ok :: "nat \<Rightarrow> DownloadSnowflakeState \<Rightarrow> bool" where
  "sf_ok base sf \<longleftrightarrow> (sf_last_ms sf = 0 \<or> in_window base (sf_last_ms sf)) \<and> unat (sf_machine_id sf) < 2 ^ 10
     \<and> unat (sf_sequence sf) < 2 ^ 12"

lemma machine_id_small: "unat (download_snowflake_machine_id pid) < 2 ^ 10"
proof -
  have "download_snowflake_machine_id pid = take_bit 10 (ucast pid)"
  proof -
    have "ucast DL_SNOWFLAKE_MACHINE_MASK = (mask 10 :: u64)"
      by (simp add: DL_SNOWFLAKE_MACHINE_MASK_def mask_eq_exp_minus_1)
    then show ?thesis
      by (simp only: download_snowflake_machine_id_def) (rule bit_eqI, auto simp: bit_simps)
  qed
  then have "unat (download_snowflake_machine_id pid) = take_bit 10 (unat (ucast pid :: u32))"
    by (simp only: unsigned_take_bit_eq)
  then show ?thesis by (simp only: take_bit_nat_less_exp)
qed

lemma wait_next_later:
  assumes "download_snowflake_wait_next_ms clock last_ms t = Some y"
  shows "last_ms < fst y \<and> (\<exists>k. fst y = clock k)"
  using assms
proof (rule download_snowflake_wait_next_ms.raw_induct [rotated])
  show "last_ms < fst y \<and> (\<exists>k. fst y = clock k)"
    if ih: "\<And>clock last_ms t y. f clock last_ms t = Some y \<Longrightarrow> last_ms < fst y \<and> (\<exists>k. fst y = clock k)"
      and e: "(let now = clock t in if now \<le> last_ms then f clock last_ms (Suc t) else Some (now, Suc t)) = Some y"
    for f :: "(nat \<Rightarrow> u64) \<Rightarrow> u64 \<Rightarrow> nat \<Rightarrow> (u64 \<times> nat) option" and clock last_ms t y
    using ih [of clock last_ms "Suc t" y] e by (cases "clock t \<le> last_ms") (auto simp: not_le)
qed

lemma snowflake_next_step:
  assumes "sf_ok base sf" "\<And>k. in_window base (clock k)"
    "download_snowflake_next pid clock (sf, t) = Some (raw, sf', t')"
  shows "sf_ok base sf' \<and> in_window base (sf_last_ms sf') \<and> sf_ready sf'
    \<and> (sf_ready sf \<longrightarrow> sf_machine_id sf' = sf_machine_id sf)
    \<and> raw = snowflake_raw (sf_last_ms sf') (sf_machine_id sf') (sf_sequence sf')
    \<and> later (sf_last_ms sf, sf_sequence sf) (sf_last_ms sf', sf_sequence sf')"
proof -
  define sf0 where "sf0 = (if sf_ready sf then sf
    else sf\<lparr>sf_ready := True, sf_machine_id := download_snowflake_machine_id pid\<rparr>)"
  have same: "sf_last_ms sf0 = sf_last_ms sf" "sf_sequence sf0 = sf_sequence sf" "sf_ready sf0"
    "unat (sf_machine_id sf0) < 2 ^ 10" "sf_ready sf \<Longrightarrow> sf_machine_id sf0 = sf_machine_id sf"
    using assms(1) machine_id_small by (auto simp: sf0_def sf_ok_def)
  have run: "(let now = clock t; now = (if now < sf_last_ms sf then sf_last_ms sf else now);
        seqno = (if now = sf_last_ms sf then sf_sequence sf + 1 else 0);
        finish = (\<lambda>now seqno t. (snowflake_raw now (sf_machine_id sf0) seqno,
                                 sf0\<lparr>sf_last_ms := now, sf_sequence := seqno\<rparr>, t))
     in if now = sf_last_ms sf \<and> seqno > DL_SNOWFLAKE_SEQUENCE_MASK
        then (case download_snowflake_wait_next_ms clock (sf_last_ms sf) (Suc t) of
                None \<Rightarrow> None | Some (now, t) \<Rightarrow> Some (finish now 0 t))
        else Some (finish now seqno (Suc t))) = Some (raw, sf', t')"
    using assms(3) unfolding download_snowflake_next_def prod.case sf0_def [symmetric] Let_def same(1,2) .
  have mask: "unat DL_SNOWFLAKE_SEQUENCE_MASK = 4095" by (simp add: DL_SNOWFLAKE_SEQUENCE_MASK_def)
  show ?thesis
  proof (cases "clock t \<le> sf_last_ms sf")
    case True
    then have now: "(if clock t < sf_last_ms sf then sf_last_ms sf else clock t) = sf_last_ms sf" by auto
    show ?thesis
    proof (cases "sf_sequence sf + 1 > DL_SNOWFLAKE_SEQUENCE_MASK")
      case over: True
      obtain ms t1 where w: "download_snowflake_wait_next_ms clock (sf_last_ms sf) (Suc t) = Some (ms, t1)"
        using run over unfolding Let_def now by (auto split: option.splits)
      have lt: "sf_last_ms sf < ms" "\<exists>k. ms = clock k" using wait_next_later [OF w] by simp_all
      have "sf' = sf0\<lparr>sf_last_ms := ms, sf_sequence := 0\<rparr>" "raw = snowflake_raw ms (sf_machine_id sf0) 0"
        using run over w unfolding Let_def now by auto
      then show ?thesis using lt assms(2) same by (auto simp: sf_ok_def later_def)
    next
      case False
      have r: "sf' = sf0\<lparr>sf_last_ms := sf_last_ms sf, sf_sequence := sf_sequence sf + 1\<rparr>"
        "raw = snowflake_raw (sf_last_ms sf) (sf_machine_id sf0) (sf_sequence sf + 1)"
        using run False unfolding Let_def now by auto
      have sq: "unat (sf_sequence sf + 1) = unat (sf_sequence sf) + 1"
        using assms(1) by (simp add: sf_ok_def unat_word_ariths)
      have "unat (sf_sequence sf + 1) < 2 ^ 12" using False mask by (simp add: word_less_nat_alt)
      moreover have "in_window base (sf_last_ms sf)"
      proof (cases "sf_last_ms sf = 0")
        case zero: True
        then have "clock t = 0" using True by simp
        then show ?thesis using assms(2) [of t] zero by simp
      qed (use assms(1) in \<open>simp add: sf_ok_def\<close>)
      ultimately show ?thesis using r same sq by (simp add: sf_ok_def later_def word_less_nat_alt)
    qed
  next
    case False
    then have now: "(if clock t < sf_last_ms sf then sf_last_ms sf else clock t) = clock t" "clock t \<noteq> sf_last_ms sf" by auto
    have "sf' = sf0\<lparr>sf_last_ms := clock t, sf_sequence := 0\<rparr>" "raw = snowflake_raw (clock t) (sf_machine_id sf0) 0"
      using run now(2) unfolding Let_def now(1) by auto
    then show ?thesis using False assms(2) same by (auto simp: sf_ok_def later_def)
  qed
qed

lemma later_trans: "later p q \<Longrightarrow> later q r \<Longrightarrow> later p r"
  by (auto simp: later_def)

lemma later_irrefl: "\<not> later p p"
  by (simp add: later_def)

text \<open>Every number of a run belongs to a later pair than the state it starts from, and no two are equal.\<close>

lemma snowflake_calls_later:
  assumes "\<And>k. in_window base (clock k)"
  shows "sf_ok base sf \<Longrightarrow> snowflake_calls pid clock n (sf, t) = Some (raws, sf', t') \<Longrightarrow>
    \<exists>m. (sf_ready sf \<longrightarrow> m = sf_machine_id sf) \<and> unat m < 2 ^ 10 \<and> distinct raws
      \<and> (\<forall>r\<in>set raws. \<exists>ms sq. r = snowflake_raw ms m sq \<and> in_window base ms \<and> unat sq < 2 ^ 12
            \<and> later (sf_last_ms sf, sf_sequence sf) (ms, sq))"
proof (induction n arbitrary: sf t raws)
  case 0 then show ?case by (auto simp: sf_ok_def)
next
  case (Suc n)
  obtain raw sf1 t1 where one: "download_snowflake_next pid clock (sf, t) = Some (raw, sf1, t1)"
    using Suc.prems(2) by (auto split: option.splits)
  obtain raws1 where rest: "snowflake_calls pid clock n (sf1, t1) = Some (raws1, sf', t')" "raws = raw # raws1"
    using Suc.prems(2) one by (auto split: option.splits)
  have s: "sf_ok base sf1" "in_window base (sf_last_ms sf1)" "sf_ready sf1"
    "sf_ready sf \<Longrightarrow> sf_machine_id sf1 = sf_machine_id sf"
    "raw = snowflake_raw (sf_last_ms sf1) (sf_machine_id sf1) (sf_sequence sf1)"
    "later (sf_last_ms sf, sf_sequence sf) (sf_last_ms sf1, sf_sequence sf1)"
    using snowflake_next_step [OF Suc.prems(1) assms one] by simp_all
  let ?m = "sf_machine_id sf1"
  have ok: "unat ?m < 2 ^ 10" "unat (sf_sequence sf1) < 2 ^ 12" using s(1) by (simp_all add: sf_ok_def)
  have ih: "distinct raws1" "\<forall>r\<in>set raws1. \<exists>ms sq. r = snowflake_raw ms ?m sq \<and> in_window base ms
      \<and> unat sq < 2 ^ 12 \<and> later (sf_last_ms sf1, sf_sequence sf1) (ms, sq)"
    using Suc.IH [OF s(1) rest(1)] s(3) by auto
  have "raw \<notin> set raws1"
  proof
    assume "raw \<in> set raws1"
    then obtain ms sq where e: "raw = snowflake_raw ms ?m sq" "in_window base ms" "unat sq < 2 ^ 12"
      "later (sf_last_ms sf1, sf_sequence sf1) (ms, sq)" using ih(2) by blast
    have "sf_last_ms sf1 = ms \<and> sf_sequence sf1 = sq"
      by (rule snowflake_raw_inj [OF s(2) e(2) ok e(3)]) (use s(5) e(1) in simp)
    then show False using e(4) later_irrefl by simp
  qed
  moreover have "\<forall>r\<in>set raws. \<exists>ms sq. r = snowflake_raw ms ?m sq \<and> in_window base ms \<and> unat sq < 2 ^ 12
      \<and> later (sf_last_ms sf, sf_sequence sf) (ms, sq)"
  proof
    fix r assume "r \<in> set raws"
    then consider "r = raw" | "r \<in> set raws1" unfolding rest(2) by auto
    then show "\<exists>ms sq. r = snowflake_raw ms ?m sq \<and> in_window base ms \<and> unat sq < 2 ^ 12
        \<and> later (sf_last_ms sf, sf_sequence sf) (ms, sq)"
    proof cases
      case 1 then show ?thesis using s(2,5,6) ok(2) by blast
    next
      case 2 then show ?thesis using ih(2) later_trans [OF s(6)] by blast
    qed
  qed
  ultimately show ?case unfolding rest(2) using ih(1) s(4) ok(1) by (intro exI [of _ ?m]) auto
qed

lemma hex_digit_inj: "a < 16 \<Longrightarrow> b < 16 \<Longrightarrow> hex_digit a = hex_digit b \<Longrightarrow> a = b"
  unfolding hex_digit_def
  by (rule nth_eq_iff_index_eq [THEN iffD1, of "''0123456789abcdef''"]) simp_all

lemma show_hex16_inj: "show_hex16 v = show_hex16 w \<Longrightarrow> v = w"
proof (rule bit_eqI)
  fix n assume e: "show_hex16 v = show_hex16 w" and "possible_bit TYPE(64 word) n"
  then have n: "n < 64" by simp
  then have "n div 4 \<in> set (rev [0..<16])" by auto
  then have "hex_digit (unat (drop_bit (4 * (n div 4)) v AND 15)) = hex_digit (unat (drop_bit (4 * (n div 4)) w AND 15))"
    using e unfolding show_hex16_def map_eq_conv by (rule_tac bspec)
  moreover have m: "(15 :: u64) = mask 4" by (simp add: mask_eq_exp_minus_1)
  have "unat (x AND 15) < 16" for x :: u64
    unfolding m take_bit_eq_mask [symmetric] unsigned_take_bit_eq using take_bit_nat_less_exp [of 4] by simp
  ultimately have "unat (drop_bit (4 * (n div 4)) v AND 15) = unat (drop_bit (4 * (n div 4)) w AND 15)"
    using hex_digit_inj by blast
  then have "drop_bit (4 * (n div 4)) v AND 15 = drop_bit (4 * (n div 4)) w AND 15" by (simp only: word_unat_eq_iff)
  then have "bit (drop_bit (4 * (n div 4)) v AND 15) (n mod 4) = bit (drop_bit (4 * (n div 4)) w AND 15) (n mod 4)" by simp
  then show "bit v n = bit w n" using n div_mult_mod_eq [of n 4] unfolding m by (simp add: bit_simps mult.commute)
qed

lemma download_id_text_inj: "download_id_text a = download_id_text b \<Longrightarrow> a = b"
  unfolding download_id_text_def by (rule snowflake_mix_inj, rule show_hex16_inj) simp

text \<open>The wait ends as soon as the clock passes the last millisecond.\<close>

lemma wait_next_returns:
  assumes "last_ms < clock (t + k)"
  shows "\<exists>now t'. download_snowflake_wait_next_ms clock last_ms t = Some (now, t') \<and> t < t' \<and> t' \<le> Suc (t + k)"
  using assms
proof (induction k arbitrary: t)
  case 0 then show ?case by (subst download_snowflake_wait_next_ms.simps) (simp add: Let_def not_le [symmetric])
next
  case (Suc k)
  show ?case
  proof (cases "clock t \<le> last_ms")
    case True
    have "last_ms < clock (Suc t + k)" using Suc.prems by simp
    from Suc.IH [OF this] show ?thesis using True by (subst download_snowflake_wait_next_ms.simps) auto
  qed (subst download_snowflake_wait_next_ms.simps, simp)
qed

lemma snowflake_next_returns:
  assumes "unat (sf_sequence sf) < 2 ^ 12"
    "unat (sf_sequence sf) < 4095 \<or> (\<forall>t. \<exists>k. sf_last_ms sf < clock (t + k))"
  shows "\<exists>raw sf' t'. download_snowflake_next pid clock (sf, t) = Some (raw, sf', t')
    \<and> (sf_sequence sf' = 0 \<or> sf_last_ms sf' = sf_last_ms sf \<and> unat (sf_sequence sf') = unat (sf_sequence sf) + 1
         \<and> unat (sf_sequence sf') < 2 ^ 12)"
proof -
  have mask: "unat DL_SNOWFLAKE_SEQUENCE_MASK = 4095" by (simp add: DL_SNOWFLAKE_SEQUENCE_MASK_def)
  have sq: "unat (sf_sequence sf + 1) = unat (sf_sequence sf) + 1"
    using assms(1) by (simp add: unat_word_ariths)
  consider (same) "clock t \<le> sf_last_ms sf" "\<not> sf_sequence sf + 1 > DL_SNOWFLAKE_SEQUENCE_MASK"
    | (wait) "clock t \<le> sf_last_ms sf" "sf_sequence sf + 1 > DL_SNOWFLAKE_SEQUENCE_MASK"
    | (new) "sf_last_ms sf < clock t" by fastforce
  then show ?thesis
  proof cases
    case same
    then have "unat (sf_sequence sf + 1) < 2 ^ 12" using mask by (simp add: word_less_nat_alt)
    moreover have "(if clock t < sf_last_ms sf then sf_last_ms sf else clock t) = sf_last_ms sf" using same(1) by auto
    ultimately show ?thesis using same(2) sq by (simp add: download_snowflake_next_def Let_def)
  next
    case wait
    then have "\<not> unat (sf_sequence sf) < 4095" using mask sq by (simp add: word_less_nat_alt)
    then obtain k where "sf_last_ms sf < clock (Suc t + k)" using assms(2) by blast
    from wait_next_returns [where clock = clock and k = k and t = "Suc t", OF this] obtain now t' where
      w: "download_snowflake_wait_next_ms clock (sf_last_ms sf) (Suc t) = Some (now, t')" by blast
    moreover have "(if clock t < sf_last_ms sf then sf_last_ms sf else clock t) = sf_last_ms sf" using wait(1) by auto
    ultimately show ?thesis using wait(2) by (simp add: download_snowflake_next_def Let_def)
  next
    case new
    then have "\<not> clock t < sf_last_ms sf" "clock t \<noteq> sf_last_ms sf" by auto
    then show ?thesis by (simp add: download_snowflake_next_def Let_def)
  qed
qed

text \<open>The loop over at most 32 attempts waits at most once: afterwards the sequence starts again.\<close>

lemma generate_id_loop_returns:
  assumes "unat (sf_sequence sf) < 2 ^ 12" "n < 4096"
    "unat (sf_sequence sf) + n < 4096 \<or> (\<forall>t. \<exists>k. sf_last_ms sf < clock (t + k))"
  shows "\<exists>r st. generate_id_loop pid clock taken n (sf, t) = Some (r, st) \<and> (\<forall>s. r = Some s \<longrightarrow> \<not> taken s)"
  using assms
proof (induction n arbitrary: sf t)
  case (Suc n)
  have "unat (sf_sequence sf) < 4095 \<or> (\<forall>t. \<exists>k. sf_last_ms sf < clock (t + k))" using Suc.prems(3) by auto
  from snowflake_next_returns [OF Suc.prems(1) this] obtain raw sf' t' where
    one: "download_snowflake_next pid clock (sf, t) = Some (raw, sf', t')" and
    sf': "sf_sequence sf' = 0 \<or> sf_last_ms sf' = sf_last_ms sf \<and> unat (sf_sequence sf') = unat (sf_sequence sf) + 1
         \<and> unat (sf_sequence sf') < 2 ^ 12" by blast
  have "unat (sf_sequence sf') < 2 ^ 12" using sf' by auto
  moreover have "unat (sf_sequence sf') + n < 4096 \<or> (\<forall>t. \<exists>k. sf_last_ms sf' < clock (t + k))"
    using sf' Suc.prems(2,3) by auto
  ultimately show ?case using Suc.IH [of sf' t'] Suc.prems(2) one by (simp add: Let_def)
qed simp

subsection \<open>Properties\<close>

text \<open>C38. Ids do not repeat: the numbers of any run of calls, from the start of the program on, are distinct, and so
  are the texts made of them, as long as the clock stays within \<open>2\<^sup>42\<close> milliseconds (139 years), whether
  or not it goes back in between.\<close>

theorem download_ids_distinct:
  assumes "\<And>k. in_window base (clock k)"
    "snowflake_calls pid clock n (g_download_snowflake, 0) = Some (raws, st)"
  shows "distinct (map download_id_text raws)"
proof -
  obtain sf t where st: "st = (sf, t)" by (cases st)
  have ok: "sf_ok base g_download_snowflake" by (simp add: sf_ok_def g_download_snowflake_def)
  have "distinct raws" using snowflake_calls_later [OF assms(1) ok assms(2) [unfolded st]] by blast
  moreover have "inj_on download_id_text (set raws)" by (rule inj_onI) (rule download_id_text_inj)
  ultimately show ?thesis by (simp add: distinct_map)
qed

theorem download_ids_distinct_witness:
  "\<exists>raws st. snowflake_calls 7 (\<lambda>k. 1704067200000) (Suc (Suc 0)) (g_download_snowflake, 0) = Some (raws, st)
     \<and> length raws = 2 \<and> distinct (map download_id_text raws)"
proof -
  let ?clock = "\<lambda>k :: nat. 1704067200000 :: u64"
  have z: "unat (sf_sequence g_download_snowflake) = 0" by (simp add: g_download_snowflake_def)
  obtain r1 sf1 t1 where one: "download_snowflake_next 7 ?clock (g_download_snowflake, 0) = Some (r1, sf1, t1)"
    "unat (sf_sequence sf1) < 2"
    using snowflake_next_returns [of g_download_snowflake ?clock 7 0] z by auto
  moreover obtain r2 sf2 t2 where "download_snowflake_next 7 ?clock (sf1, t1) = Some (r2, sf2, t2)"
    using snowflake_next_returns [of sf1 ?clock 7 t1] one(2) by auto
  ultimately have r: "snowflake_calls 7 ?clock (Suc (Suc 0)) (g_download_snowflake, 0) = Some ([r1, r2], sf2, t2)" by simp
  have "distinct (map download_id_text [r1, r2])"
    by (rule download_ids_distinct [OF _ r, of 1704067200000]) (simp add: in_window_def)
  then show ?thesis using r by simp
qed

text \<open>C39. Generating an id terminates: unless the clock stays at or below the last millisecond for ever, the
  call returns, with an id no item has or, after 32 attempts, without one.\<close>

theorem generate_id_terminates:
  assumes "unat (sf_sequence sf) < 4096" "\<And>t. \<exists>k. sf_last_ms sf < clock (t + k)"
  shows "\<exists>r st. download_generate_id pid clock taken (sf, t) = Some (r, st) \<and> (\<forall>s. r = Some s \<longrightarrow> \<not> taken s)"
  unfolding download_generate_id_def by (rule generate_id_loop_returns) (use assms in auto)

theorem generate_id_terminates_witness:
  "\<exists>r st. download_generate_id 7 (\<lambda>k. 1704067200000) (\<lambda>_. True) (g_download_snowflake, 0) = Some (r, st)
     \<and> (\<forall>s. r = Some s \<longrightarrow> \<not> True)"
  by (rule generate_id_terminates) (simp_all add: g_download_snowflake_def)

end
