(* ===== verification/Items.thy ===== *)
theory Items
  imports Config_Correct State_File Ids Paths
begin

text \<open>
  The download items in the configuration (\<open>dm.items\<close>), \<^verbatim>\<open>src/src/download.c\<close>: finding an item and
  rewriting one of its records.  The record \<open>manager\<close> holds what the functions share: the
  configuration with the file system, the state of the id generator, the table of active jobs and
  the tasks handed to the thread pool.  The answers of the system are functions of \<open>mg_tick\<close>, which
  counts the questions asked.  The calls of one function are not interleaved with those of other
  threads; the configuration is protected by its own lock.
\<close>

subsection \<open>State\<close>

record active_job =
  aj_ptr :: nat
  aj_item_id :: string
  aj_pause_requested :: bool
  aj_cancel_requested :: bool

record ('j, 't) manager =
  mg_cfg :: "('j, 't) ConfigContext"
  mg_scope :: io_scope
  mg_snowflake :: "DownloadSnowflakeState \<times> nat"
  mg_jobs :: "active_job option list"
  mg_tasks :: "(string \<times> cstring \<times> bool) list"
  mg_tick :: nat

record 't manager_env =
  me_save :: "nat \<Rightarrow> 't save_io"
  me_readable :: "nat \<Rightarrow> bool"
  me_realloc :: "nat \<Rightarrow> nat \<Rightarrow> bool"
  me_empty_text :: "'t \<Rightarrow> bool"
  me_pool :: "nat \<Rightarrow> bool"
  me_time :: "nat \<Rightarrow> nat"
  me_rand :: "nat \<Rightarrow> u32"
  me_millis :: "nat \<Rightarrow> u64"
  me_pid :: u64
  me_getenv :: "string \<Rightarrow> cstring"
  me_data_dir :: cstring

abbreviation (input) dm_items :: string where "dm_items \<equiv> ''dm.items''"
abbreviation (input) dm_queues :: string where "dm_queues \<equiv> ''dm.queues''"

subsection \<open>Finding a record\<close>

text \<open>The loop over the indices from \<open>i\<close> on, \<open>n\<close> of them left.\<close>

fun index_loop :: "(nat \<Rightarrow> cstring) \<Rightarrow> string \<Rightarrow> nat \<Rightarrow> nat \<Rightarrow> nat option" where
  "index_loop current v i 0 = None"
| "index_loop current v i (Suc n) = (if current i = Some v then Some i else index_loop current v (Suc i) n)"

definition find_download_item_index ::
  "('j, 't) cjson \<Rightarrow> ('j, 't) ConfigContext \<Rightarrow> cstring \<Rightarrow> bool \<Rightarrow> nat option" where
  "find_download_item_index J cfg target by_id =
     (case target of None \<Rightarrow> None
      | Some target \<Rightarrow>
          index_loop (\<lambda>i. get_config_array_item_field J cfg dm_items i (if by_id then ''id'' else ''filename''))
            target 0 (get_config_array_size J cfg dm_items))"

abbreviation item_index :: "('j, 't) cjson \<Rightarrow> ('j, 't) manager \<Rightarrow> string \<Rightarrow> nat option" where
  "item_index J m item_id \<equiv> find_download_item_index J (mg_cfg m) (Some item_id) True"

abbreviation item_field :: "('j, 't) cjson \<Rightarrow> ('j, 't) manager \<Rightarrow> nat \<Rightarrow> string \<Rightarrow> cstring" where
  "item_field J m i field \<equiv> get_config_array_item_field J (mg_cfg m) dm_items i field"

subsection \<open>Rewriting a record\<close>

text \<open>A change of the configuration that is written to the file.\<close>

definition config_write ::
  "'t manager_env \<Rightarrow> ('j, 't) manager \<Rightarrow> ('t save_io \<Rightarrow> ('j, 't) ConfigContext \<Rightarrow> int \<times> ('j, 't) ConfigContext)
   \<Rightarrow> int \<times> ('j, 't) manager" where
  "config_write E m change =
     (let (rc, cfg) = change (me_save E (mg_tick m)) (mg_cfg m)
      in (rc, m\<lparr>mg_cfg := cfg, mg_tick := Suc (mg_tick m)\<rparr>))"

text \<open>The copy of a record: printed and parsed, changed, printed and put back in place of the record.\<close>

definition take_object :: "('j, 't) cjson \<Rightarrow> ('j, 't) ConfigContext \<Rightarrow> string \<Rightarrow> nat \<Rightarrow> 'j option" where
  "take_object J cfg key i =
     (case get_config_array_item_json J cfg key i of None \<Rightarrow> None | Some json \<Rightarrow> cJSON_Parse J json)"

definition put_object ::
  "('j, 't) cjson \<Rightarrow> 't manager_env \<Rightarrow> ('j, 't) manager \<Rightarrow> string \<Rightarrow> nat \<Rightarrow> 'j \<Rightarrow> int \<times> ('j, 't) manager" where
  "put_object J E m key i obj =
     (case cJSON_PrintUnformatted J obj of
        None \<Rightarrow> (-1, m)
      | Some updated \<Rightarrow> config_write E m (\<lambda>io cfg. replace_config_array_item_at J io cfg key i updated))"

definition edit_item ::
  "('j, 't) cjson \<Rightarrow> 't manager_env \<Rightarrow> ('j, 't) manager \<Rightarrow> string \<Rightarrow> nat \<Rightarrow> ('j \<Rightarrow> 'j) \<Rightarrow> int \<times> ('j, 't) manager" where
  "edit_item J E m key i change =
     (case take_object J (mg_cfg m) key i of None \<Rightarrow> (-1, m) | Some obj \<Rightarrow> put_object J E m key i (change obj))"

text \<open>\<open>cJSON_DeleteItemFromObjectCaseSensitive\<close> and adding the member again, as the functions do.\<close>

definition renew_member :: "('j, 't) cjson \<Rightarrow> string \<Rightarrow> 'j \<Rightarrow> 'j \<Rightarrow> 'j" where
  "renew_member J k v obj = cJSON_AddItemToObject J (cJSON_DeleteItemFromObjectCaseSensitive J obj k) k v"

text \<open>A string that is not empty, as the tests \<open>s != NULL && s[0] != 0\<close> want it.\<close>

definition text_or_null :: "('j, 't) cjson \<Rightarrow> cstring \<Rightarrow> 'j" where
  "text_or_null J s = (case s of Some (c # cs) \<Rightarrow> cJSON_CreateString J (c # cs) | _ \<Rightarrow> cJSON_CreateNull J)"

definition update_download_item_queue_id ::
  "('j, 't) cjson \<Rightarrow> 't manager_env \<Rightarrow> ('j, 't) manager \<Rightarrow> string \<Rightarrow> cstring \<Rightarrow> int \<times> ('j, 't) manager" where
  "update_download_item_queue_id J E m item_id queue_id =
     (case item_index J m item_id of
        None \<Rightarrow> (-1, m)
      | Some i \<Rightarrow> edit_item J E m dm_items i (renew_member J ''queueId'' (text_or_null J queue_id)))"

definition clear_config_item_description ::
  "('j, 't) cjson \<Rightarrow> 't manager_env \<Rightarrow> ('j, 't) manager \<Rightarrow> string \<Rightarrow> int \<times> ('j, 't) manager" where
  "clear_config_item_description J E m item_id =
     (case item_index J m item_id of
        None \<Rightarrow> (-1, m)
      | Some i \<Rightarrow> edit_item J E m dm_items i (renew_member J ''description'' (cJSON_CreateNull J)))"

definition download_item_strip_config_url ::
  "('j, 't) cjson \<Rightarrow> 't manager_env \<Rightarrow> ('j, 't) manager \<Rightarrow> string \<Rightarrow> int \<times> ('j, 't) manager" where
  "download_item_strip_config_url J E m item_id =
     (case item_index J m item_id of
        None \<Rightarrow> (-1, m)
      | Some i \<Rightarrow>
          (case take_object J (mg_cfg m) dm_items i of
             None \<Rightarrow> (-1, m)
           | Some obj \<Rightarrow>
               if cJSON_GetObjectItemCaseSensitive J obj ''url'' = None then (0, m)
               else put_object J E m dm_items i (cJSON_DeleteItemFromObjectCaseSensitive J obj ''url'')))"

text \<open>The part of \<open>reset_download_progress_for_restart\<close> that rewrites the record.\<close>

definition restart_record :: "('j, 't) cjson \<Rightarrow> 'j \<Rightarrow> 'j" where
  "restart_record J obj =
     renew_member J ''description'' (cJSON_CreateNull J)
       (renew_member J ''errorCount'' (cJSON_CreateNumber J 0)
          (renew_member J ''totalBytes'' (cJSON_CreateNumber J 0)
             (renew_member J ''bytesDownloaded'' (cJSON_CreateNumber J 0) obj)))"

subsection \<open>The records seen as a list\<close>

definition field_of :: "('j, 't) cjson \<Rightarrow> 'j \<Rightarrow> string \<Rightarrow> cstring" where
  "field_of J r field = config_scalar_to_string J (cJSON_GetObjectItemCaseSensitive J r field)"

lemma array_size_records: "get_config_array_size J cfg key = length (records J cfg key)"
  by (simp add: get_config_array_size_def find_array_node records_def cJSON_GetArraySize_def split: option.split)

lemma array_item_records:
  "get_config_array_item J cfg key i =
     (if i < length (records J cfg key) \<and> cJSON_IsObject J (records J cfg key ! i) then Some (records J cfg key ! i) else None)"
proof (cases "config_node J cfg key")
  case (Some a)
  then show ?thesis
    by (cases "cJSON_IsArray J a") (simp_all add: get_config_array_item_def find_array_node records_def cJSON_GetArrayItem_def)
qed (simp add: get_config_array_item_def find_array_node records_def)

lemma scalar_None [simp]: "config_scalar_to_string J None = None"
  by (simp add: config_scalar_to_string_def)

lemma field_not_object: "cjson_laws J \<Longrightarrow> \<not> cJSON_IsObject J r \<Longrightarrow> field_of J r field = None"
  by (simp add: field_of_def cjson_not_object cJSON_IsObject_def)

lemma array_field_records:
  assumes "cjson_laws J"
  shows "get_config_array_item_field J cfg key i field =
    (if i < length (records J cfg key) then field_of J (records J cfg key ! i) field else None)"
  using field_not_object [OF assms]
  by (simp add: get_config_array_item_field_def array_item_records field_of_def)

lemma index_loop_first:
  "(\<And>k. k < length xs \<Longrightarrow> current (i + k) = g (xs ! k)) \<Longrightarrow>
   index_loop current v i (length xs) = map_option ((+) i) (first_match (\<lambda>x. g x = Some v) xs)"
proof (induction xs arbitrary: i)
  case (Cons x xs)
  have "current i = g x" using Cons.prems [of 0] by simp
  moreover have "index_loop current v (Suc i) (length xs) = map_option ((+) (Suc i)) (first_match (\<lambda>x. g x = Some v) xs)"
    using Cons.prems [of "Suc k" for k] by (intro Cons.IH) simp
  ultimately show ?case by (cases "first_match (\<lambda>x. g x = Some v) xs") simp_all
qed simp

lemma map_option_plus_0 [simp]: "map_option ((+) (0 :: nat)) x = x"
  by (cases x) simp_all

lemma index_loop_records:
  assumes "cjson_laws J"
  shows "index_loop (\<lambda>i. get_config_array_item_field J cfg key i field) v 0 (get_config_array_size J cfg key)
    = first_match (\<lambda>r. field_of J r field = Some v) (records J cfg key)"
  unfolding array_size_records
  using index_loop_first [of "records J cfg key" "\<lambda>i. get_config_array_item_field J cfg key i field" 0
      "\<lambda>r. field_of J r field" v] array_field_records [OF assms] by simp

lemma item_index_records:
  assumes "cjson_laws J"
  shows "find_download_item_index J cfg (Some target) by_id =
    first_match (\<lambda>r. field_of J r (if by_id then ''id'' else ''filename'') = Some target) (records J cfg dm_items)"
  unfolding find_download_item_index_def using index_loop_records [OF assms] by simp

lemma field_object: "cjson_laws J \<Longrightarrow> field_of J r field = Some v \<Longrightarrow> cJSON_IsObject J r"
  using field_not_object by fastforce

lemma records_good:
  assumes "cjson_laws J" "config_good J cfg" "r \<in> set (records J cfg key)"
  shows "json_good J r"
proof -
  obtain a where a: "config_node J cfg key = Some a" "r \<in> set (json_items J a)"
    using assms(3) by (cases "config_node J cfg key") (simp_all add: records_def split: if_splits)
  then obtain p l where p: "find_parent J (cfg_tree cfg) (split_dots key) = Some (p, l)" "get_member J p l = Some a"
    unfolding config_node_eq by (auto split: option.splits)
  have "good_object J p" using find_parent_good [OF assms(1) _ p(1)] assms(2) by (simp add: config_good_def)
  from good_object_member [OF assms(1) this p(2)] a(2) show ?thesis by (rule json_good_children)
qed

lemma take_object_records:
  assumes "cjson_laws J" "config_good J cfg"
  shows "take_object J cfg key i =
    (if i < length (records J cfg key) \<and> cJSON_IsObject J (records J cfg key ! i) then Some (records J cfg key ! i) else None)"
proof (cases "i < length (records J cfg key) \<and> cJSON_IsObject J (records J cfg key ! i)")
  case True
  then have "json_good J (records J cfg key ! i)" using records_good [OF assms, of "records J cfg key ! i" key] by simp
  from cjson_print(2) [OF assms(1) json_good_exact [OF this]] show ?thesis using True
    by (auto simp: take_object_def get_config_array_item_json_def array_item_records)
qed (auto simp: take_object_def get_config_array_item_json_def array_item_records)

definition good_change :: "('j, 't) cjson \<Rightarrow> ('j \<Rightarrow> 'j) \<Rightarrow> bool" where
  "good_change J change \<longleftrightarrow> (\<forall>r. good_object J r \<longrightarrow> good_object J (change r))"

text \<open>What putting a record back and editing it do.\<close>

definition record_set :: "('j, 't) cjson \<Rightarrow> string \<Rightarrow> nat \<Rightarrow> 'j \<Rightarrow> ('j, 't) manager \<Rightarrow> ('j, 't) manager \<Rightarrow> bool" where
  "record_set J key i r m m' \<longleftrightarrow> config_good J (mg_cfg m') \<and> others_kept J (mg_cfg m) key (mg_cfg m')
     \<and> records J (mg_cfg m') key = (records J (mg_cfg m) key)[i := r]
     \<and> m' = m\<lparr>mg_cfg := mg_cfg m', mg_tick := mg_tick m'\<rparr>"

lemma put_object_sets:
  assumes "cjson_laws J" "config_good J (mg_cfg m)" "valid_key (split_dots key)" "good_object J r"
    "put_object J E m key i r = (rc, m')"
  shows "record_set J key i r m m'"
proof -
  have "json_exact J r" using assms(4) unfolding good_object_def by (blast intro: json_good_exact)
  from cjson_print(2) [OF assms(1) this] obtain t
    where t: "cJSON_PrintUnformatted J r = Some t" "cJSON_Parse J t = Some r" by blast
  have p: "parse_object J t = Some r" using t(2) assms(4) by (simp add: parse_object_def good_object_def cJSON_IsObject_def)
  obtain cfg' where run: "run_array_op J (me_save E (mg_tick m)) (mg_cfg m) key (ReplaceItemAt i t) = (rc, cfg')"
    and m': "m' = m\<lparr>mg_cfg := cfg', mg_tick := Suc (mg_tick m)\<rparr>"
    using assms(5) t(1) by (cases "replace_config_array_item_at J (me_save E (mg_tick m)) (mg_cfg m) key i t")
      (auto simp: put_object_def config_write_def)
  have "refines_list J (mg_cfg m) key (ReplaceItemAt i t) cfg'"
    by (rule run_array_op_refines [OF assms(1-3) _ run]) (use p assms(4) in \<open>auto simp: good_object_def\<close>)
  then show ?thesis using p by (simp add: record_set_def refines_list_def m')
qed

lemma edit_item_sets:
  assumes "cjson_laws J" "config_good J (mg_cfg m)" "valid_key (split_dots key)" "good_change J change"
    "i < length (records J (mg_cfg m) key)" "cJSON_IsObject J (records J (mg_cfg m) key ! i)"
    "edit_item J E m key i change = (rc, m')"
  shows "record_set J key i (change (records J (mg_cfg m) key ! i)) m m'"
proof -
  let ?r = "records J (mg_cfg m) key ! i"
  have "good_object J ?r" using records_good [OF assms(1,2), of ?r key] assms(5,6) by (simp add: good_object_def cJSON_IsObject_def)
  then have g: "good_object J (change ?r)" using assms(4) by (simp add: good_change_def)
  have "put_object J E m key i (change ?r) = (rc, m')"
    using assms(5-7) take_object_records [OF assms(1,2), of key i] by (simp add: edit_item_def)
  from put_object_sets [OF assms(1-3) g this] show ?thesis .
qed

subsection \<open>Members of a changed record\<close>

lemma good_object_created:
  assumes "cjson_laws J"
  shows "good_object J (cJSON_CreateObject J)"
  using json_good_created(1) [OF assms] assms by (simp add: good_object_def)

lemma renew_member_fields:
  assumes "cjson_laws J" "good_object J r" "json_good J v"
  shows "good_object J (renew_member J k v r)"
    "field_of J (renew_member J k v r) k' = (if k' = k then config_scalar_to_string J (Some v) else field_of J r k')"
proof -
  note d = delete_member [OF assms(1,2), of k]
  note a = add_member [OF assms(1) d(1) assms(3), of k]
  show "good_object J (renew_member J k v r)" using a(1) d(2) by (simp add: renew_member_def)
  have "get_member J (renew_member J k v r) k' = (if k' = k then Some v else get_member J r k')"
    using a(2) [of k'] d(2) [of k] d(2) [of k'] by (simp add: renew_member_def)
  then show "field_of J (renew_member J k v r) k' = (if k' = k then config_scalar_to_string J (Some v) else field_of J r k')"
    by (simp add: field_of_def)
qed

lemma replace_member_fields:
  assumes "cjson_laws J" "good_object J r" "json_good J v"
  shows "field_of J (cJSON_ReplaceItemInObjectCaseSensitive J r k v) k'
    = (if k' = k \<and> get_member J r k \<noteq> None then config_scalar_to_string J (Some v) else field_of J r k')"
  using replace_member(2) [OF assms, of k k'] unfolding field_of_def by (simp only: split: if_split) blast

lemma scalar_created:
  assumes "cjson_laws J"
  shows "config_scalar_to_string J (Some (cJSON_CreateString J s)) = Some s"
    "config_scalar_to_string J (Some (cJSON_CreateNull J)) = None"
    "config_scalar_to_string J (Some (cJSON_CreateBool J b)) = Some (if b then ''true'' else ''false'')"
  using assms by (simp_all add: config_scalar_to_string_def json_kind_defs)

lemma good_change_renew: "cjson_laws J \<Longrightarrow> json_good J v \<Longrightarrow> good_change J (renew_member J k v)"
  unfolding good_change_def by (intro allI impI, rule renew_member_fields(1))

lemma good_change_replace:
  "cjson_laws J \<Longrightarrow> json_good J v \<Longrightarrow> good_change J (\<lambda>r. cJSON_ReplaceItemInObjectCaseSensitive J r k v)"
  unfolding good_change_def by (intro allI impI, rule replace_member(1))

lemma text_or_null_good: "cjson_laws J \<Longrightarrow> json_good J (text_or_null J s)"
  by (auto simp: text_or_null_def json_good_created split: option.split list.split)

lemma record_set_simps:
  assumes "record_set J key i r m m'"
  shows "config_good J (mg_cfg m')" "records J (mg_cfg m') key = (records J (mg_cfg m) key)[i := r]"
    "mg_scope m' = mg_scope m" "mg_snowflake m' = mg_snowflake m" "mg_jobs m' = mg_jobs m" "mg_tasks m' = mg_tasks m"
  using assms by (auto simp: record_set_def) (metis manager.select_convs manager.surjective manager.update_convs)+

lemma keys_valid [simp]: "valid_key (split_dots dm_items)" "valid_key (split_dots dm_queues)"
  by (simp_all add: valid_key_def)

lemma keys_unrelated [simp]:
  "unrelated (split_dots dm_items) (split_dots dm_queues)" "unrelated (split_dots dm_queues) (split_dots dm_items)"
  by (simp_all add: unrelated_def)

lemma others_kept_records:
  "others_kept J cfg key cfg' \<Longrightarrow> unrelated (split_dots key) (split_dots k) \<Longrightarrow> records J cfg' k = records J cfg k"
  by (simp add: others_kept_def records_def)

end
