(* ===== verification/Queue.thy ===== *)
theory Queue
  imports Items Job
begin

text \<open>
  The queues of \<^verbatim>\<open>src/src/queue.c\<close>: records of \<open>dm.queues\<close> with a name, limits and the flag
  \<open>started\<close>, and the membership of the download items.  What starts and stops downloads
  (\<open>queue_start\<close>, \<open>queue_dispatch\<close>, \<open>queue_stop\<close>) is in the theory \<open>Scheduler\<close>.  \<open>id_out\<close> of
  \<open>queue_add\<close> is a result.
\<close>

subsection \<open>Definitions\<close>

datatype QueueError = QueueErrorNone | QueueErrorNotFound | QueueErrorDuplicateName | QueueErrorInvalidArg
  | QueueErrorPersist

record QueueOptions =
  qo_description :: cstring
  qo_max_concurrent_downloads :: u32
  qo_max_connections :: u32
  qo_max_retries :: u32
  qo_temp_path :: cstring
  qo_download_path :: cstring

record QueuePatch =
  qp_name :: "cstring option"
  qp_description :: "cstring option"
  qp_max_concurrent_downloads :: "u32 option"
  qp_max_connections :: "u32 option"
  qp_max_retries :: "u32 option"
  qp_temp_path :: "cstring option"
  qp_download_path :: "cstring option"

definition DL_DEFAULT_MAX_CONCURRENT_DOWNLOADS :: u32 where "DL_DEFAULT_MAX_CONCURRENT_DOWNLOADS = 4"
definition AVAR_QUEUE_NAME_MAX :: nat where "AVAR_QUEUE_NAME_MAX = 128"

definition queue_find_index :: "('j, 't) cjson \<Rightarrow> ('j, 't) ConfigContext \<Rightarrow> string \<Rightarrow> cstring \<Rightarrow> nat option" where
  "queue_find_index J cfg field val =
     (case val of None \<Rightarrow> None
      | Some v \<Rightarrow> index_loop (\<lambda>i. get_config_array_item_field J cfg dm_queues i field) v 0
                    (get_config_array_size J cfg dm_queues))"

abbreviation queue_field :: "('j, 't) cjson \<Rightarrow> ('j, 't) manager \<Rightarrow> nat \<Rightarrow> string \<Rightarrow> cstring" where
  "queue_field J m i field \<equiv> get_config_array_item_field J (mg_cfg m) dm_queues i field"

definition queue_generate_id :: "('j, 't) cjson \<Rightarrow> 't manager_env \<Rightarrow> ('j, 't) manager \<Rightarrow> string \<times> ('j, 't) manager" where
  "queue_generate_id J E m =
     (let generated = ''queue-'' @ show_nat (me_time E (mg_tick m));
          m = m\<lparr>mg_tick := Suc (mg_tick m)\<rparr>
      in if queue_find_index J (mg_cfg m) ''id'' (Some generated) \<noteq> None
         then (''queue-'' @ show_nat (me_time E (mg_tick m)) @ ''-''
                 @ show_nat (unat (me_rand E (mg_tick m) AND 0xffff)),
               m\<lparr>mg_tick := Suc (mg_tick m)\<rparr>)
         else (generated, m))"

definition number_or_null :: "('j, 't) cjson \<Rightarrow> u32 \<Rightarrow> 'j" where
  "number_or_null J n = (if n > 0 then cJSON_CreateNumber J (of_nat (unat n)) else cJSON_CreateNull J)"

definition string_or_null :: "('j, 't) cjson \<Rightarrow> cstring \<Rightarrow> 'j" where
  "string_or_null J s = (case s of Some s \<Rightarrow> cJSON_CreateString J s | None \<Rightarrow> cJSON_CreateNull J)"

definition queue_object :: "('j, 't) cjson \<Rightarrow> string \<Rightarrow> string \<Rightarrow> QueueOptions option \<Rightarrow> 'j" where
  "queue_object J qid name opts =
     (let obj = cJSON_AddStringToObject J (cJSON_CreateObject J) ''id'' qid;
          obj = cJSON_AddStringToObject J obj ''name'' name;
          obj = cJSON_AddBoolToObject J obj ''started'' False;
          obj = cJSON_AddItemToObject J obj ''description''
                  (string_or_null J (case opts of None \<Rightarrow> None | Some p \<Rightarrow> qo_description p));
          max_concurrent = (case opts of
             Some p \<Rightarrow> if qo_max_concurrent_downloads p > 0 then qo_max_concurrent_downloads p
                        else DL_DEFAULT_MAX_CONCURRENT_DOWNLOADS
           | None \<Rightarrow> DL_DEFAULT_MAX_CONCURRENT_DOWNLOADS);
          obj = cJSON_AddNumberToObject J obj ''maxConcurrentDownloads'' (of_nat (unat max_concurrent));
          obj = cJSON_AddItemToObject J obj ''maxConnections''
                  (number_or_null J (case opts of None \<Rightarrow> 0 | Some p \<Rightarrow> qo_max_connections p));
          obj = cJSON_AddItemToObject J obj ''maxRetries''
                  (number_or_null J (case opts of None \<Rightarrow> 0 | Some p \<Rightarrow> qo_max_retries p));
          obj = cJSON_AddItemToObject J obj ''tempPath''
                  (text_or_null J (case opts of None \<Rightarrow> None | Some p \<Rightarrow> qo_temp_path p))
      in cJSON_AddItemToObject J obj ''downloadPath''
                  (text_or_null J (case opts of None \<Rightarrow> None | Some p \<Rightarrow> qo_download_path p)))"

definition queue_build_json :: "('j, 't) cjson \<Rightarrow> string \<Rightarrow> string \<Rightarrow> QueueOptions option \<Rightarrow> 't option" where
  "queue_build_json J qid name opts = cJSON_PrintUnformatted J (queue_object J qid name opts)"

text \<open>The copy of a queue or item that must be an object.\<close>

definition edit_object ::
  "('j, 't) cjson \<Rightarrow> 't manager_env \<Rightarrow> ('j, 't) manager \<Rightarrow> string \<Rightarrow> nat \<Rightarrow> ('j \<Rightarrow> 'j) \<Rightarrow> QueueError \<times> ('j, 't) manager" where
  "edit_object J E m key i change =
     (case take_object J (mg_cfg m) key i of
        None \<Rightarrow> (QueueErrorPersist, m)
      | Some obj \<Rightarrow>
          if \<not> cJSON_IsObject J obj then (QueueErrorPersist, m)
          else let (rc, m) = put_object J E m key i (change obj)
               in (if rc \<noteq> 0 then QueueErrorPersist else QueueErrorNone, m))"

text \<open>The loop over the items from index \<open>i\<close> on, \<open>n\<close> of them left.\<close>

fun detach_loop ::
  "('j, 't) cjson \<Rightarrow> 't manager_env \<Rightarrow> string \<Rightarrow> nat \<Rightarrow> nat \<Rightarrow> ('j, 't) manager \<Rightarrow> QueueError \<times> ('j, 't) manager" where
  "detach_loop J E queue_id i 0 m = (QueueErrorNone, m)"
| "detach_loop J E queue_id i (Suc n) m =
     (if item_field J m i ''queueId'' \<noteq> Some queue_id then detach_loop J E queue_id (Suc i) n m
      else let (rc, m) = edit_object J E m dm_items i
                 (\<lambda>obj. cJSON_ReplaceItemInObjectCaseSensitive J obj ''queueId'' (cJSON_CreateNull J))
           in if rc \<noteq> QueueErrorNone then (rc, m) else detach_loop J E queue_id (Suc i) n m)"

definition queue_detach_items ::
  "('j, 't) cjson \<Rightarrow> 't manager_env \<Rightarrow> ('j, 't) manager \<Rightarrow> string \<Rightarrow> QueueError \<times> ('j, 't) manager" where
  "queue_detach_items J E m queue_id =
     detach_loop J E queue_id 0 (get_config_array_size J (mg_cfg m) dm_items) m"

definition queue_purge_items ::
  "('j, 't) cjson \<Rightarrow> 't manager_env \<Rightarrow> ('j, 't) manager \<Rightarrow> string \<Rightarrow> QueueError \<times> ('j, 't) manager" where
  "queue_purge_items J E m queue_id =
     (let (removed, m) = config_write E m (\<lambda>io cfg. remove_config_array_items_where J io cfg dm_items ''queueId'' queue_id)
      in (if removed < 0 then QueueErrorPersist else QueueErrorNone, m))"

definition queue_item_keeps_running :: "cstring \<Rightarrow> bool" where
  "queue_item_keeps_running status \<longleftrightarrow> status = Some ''downloading'' \<or> status = Some ''queued''"

definition queue_item_should_stop :: "cstring \<Rightarrow> bool" where
  "queue_item_should_stop status \<longleftrightarrow> status = Some ''downloading'' \<or> status = Some ''paused''"

definition queue_has_running_work :: "('j, 't) cjson \<Rightarrow> ('j, 't) manager \<Rightarrow> string \<Rightarrow> bool" where
  "queue_has_running_work J m queue_id \<longleftrightarrow>
     list_ex (\<lambda>i. item_field J m i ''queueId'' = Some queue_id \<and> queue_item_keeps_running (item_field J m i ''status''))
       [0..<get_config_array_size J (mg_cfg m) dm_items]"

definition queue_max_concurrent :: "('j, 't) cjson \<Rightarrow> ('j, 't) manager \<Rightarrow> cstring \<Rightarrow> u32" where
  "queue_max_concurrent J m queue_id =
     (if queue_id = None \<or> queue_id = Some [] then DL_DEFAULT_MAX_CONCURRENT_DOWNLOADS
      else (case queue_find_index J (mg_cfg m) ''id'' queue_id of
              None \<Rightarrow> DL_DEFAULT_MAX_CONCURRENT_DOWNLOADS
            | Some i \<Rightarrow>
                (case queue_field J m i ''maxConcurrentDownloads'' of
                   None \<Rightarrow> DL_DEFAULT_MAX_CONCURRENT_DOWNLOADS
                 | Some v \<Rightarrow>
                     if v = [] then DL_DEFAULT_MAX_CONCURRENT_DOWNLOADS
                     else if strtoull_failed 10 v \<or> strtoull_value 10 v = 0 then DL_DEFAULT_MAX_CONCURRENT_DOWNLOADS
                     else ucast (strtoull_value 10 v))))"

definition queue_set_started ::
  "('j, 't) cjson \<Rightarrow> 't manager_env \<Rightarrow> ('j, 't) manager \<Rightarrow> cstring \<Rightarrow> bool \<Rightarrow> QueueError \<times> ('j, 't) manager" where
  "queue_set_started J E m qid started =
     (if qid = None \<or> qid = Some [] then (QueueErrorInvalidArg, m)
      else (case queue_find_index J (mg_cfg m) ''id'' qid of
              None \<Rightarrow> (QueueErrorNotFound, m)
            | Some i \<Rightarrow> edit_object J E m dm_queues i
                (\<lambda>obj. cJSON_ReplaceItemInObjectCaseSensitive J obj ''started'' (cJSON_CreateBool J started))))"

definition queue_resolve_id :: "('j, 't) cjson \<Rightarrow> ('j, 't) manager \<Rightarrow> cstring \<Rightarrow> bool \<Rightarrow> cstring" where
  "queue_resolve_id J m id_or_name by_name =
     (if id_or_name = None \<or> id_or_name = Some [] then None
      else (case queue_find_index J (mg_cfg m) (if by_name then ''name'' else ''id'') id_or_name of
              None \<Rightarrow> None | Some i \<Rightarrow> queue_field J m i ''id''))"

definition queue_add ::
  "('j, 't) cjson \<Rightarrow> 't manager_env \<Rightarrow> ('j, 't) manager \<Rightarrow> cstring \<Rightarrow> QueueOptions option
   \<Rightarrow> QueueError \<times> cstring \<times> ('j, 't) manager" where
  "queue_add J E m name opts =
     (case name of None \<Rightarrow> (QueueErrorInvalidArg, None, m)
      | Some name \<Rightarrow>
          if name = [] then (QueueErrorInvalidArg, None, m)
          else if length name \<ge> AVAR_QUEUE_NAME_MAX then (QueueErrorInvalidArg, None, m)
          else if queue_find_index J (mg_cfg m) ''name'' (Some name) \<noteq> None then (QueueErrorDuplicateName, None, m)
          else let (qid, m) = queue_generate_id J E m in
            (case queue_build_json J qid name opts of
               None \<Rightarrow> (QueueErrorPersist, None, m)
             | Some json \<Rightarrow>
                 let (rc, m) = config_write E m (\<lambda>io cfg. append_config_array_item J io cfg dm_queues json)
                 in if rc \<noteq> 0 then (QueueErrorPersist, None, m) else (QueueErrorNone, Some qid, m)))"

definition queue_remove ::
  "('j, 't) cjson \<Rightarrow> 't manager_env \<Rightarrow> ('j, 't) manager \<Rightarrow> cstring \<Rightarrow> bool \<Rightarrow> bool \<Rightarrow> QueueError \<times> ('j, 't) manager" where
  "queue_remove J E m id_or_name by_name purge_items =
     (if id_or_name = None \<or> id_or_name = Some [] then (QueueErrorInvalidArg, m)
      else (case queue_resolve_id J m id_or_name by_name of
              None \<Rightarrow> (QueueErrorNotFound, m)
            | Some resolved_id \<Rightarrow>
                let (item_rc, m) = (if purge_items then queue_purge_items J E m resolved_id
                                    else queue_detach_items J E m resolved_id)
                in if item_rc \<noteq> QueueErrorNone then (item_rc, m)
                   else let (rc, m) = config_write E m
                              (\<lambda>io cfg. remove_config_array_item J io cfg dm_queues ''id'' resolved_id)
                        in (if rc \<noteq> 0 then QueueErrorNotFound else QueueErrorNone, m)))"

text \<open>One field of a patch: an optional value is the pair of the flag \<open>set_\<close> and the field.\<close>

definition patch_member :: "('j, 't) cjson \<Rightarrow> string \<Rightarrow> ('a \<Rightarrow> 'j) \<Rightarrow> 'a option \<Rightarrow> 'j \<Rightarrow> 'j" where
  "patch_member J k value_of v obj =
     (case v of None \<Rightarrow> obj | Some x \<Rightarrow> cJSON_ReplaceItemInObjectCaseSensitive J obj k (value_of x))"

definition apply_patch :: "('j, 't) cjson \<Rightarrow> QueuePatch \<Rightarrow> 'j \<Rightarrow> 'j" where
  "apply_patch J patch obj =
     (let obj = patch_member J ''name'' (string_or_null J) (qp_name patch) obj;
          obj = patch_member J ''description'' (string_or_null J) (qp_description patch) obj;
          obj = patch_member J ''maxConcurrentDownloads'' (number_or_null J) (qp_max_concurrent_downloads patch) obj;
          obj = patch_member J ''maxConnections'' (number_or_null J) (qp_max_connections patch) obj;
          obj = patch_member J ''maxRetries'' (number_or_null J) (qp_max_retries patch) obj;
          obj = patch_member J ''tempPath'' (text_or_null J) (qp_temp_path patch) obj
      in patch_member J ''downloadPath'' (text_or_null J) (qp_download_path patch) obj)"

text \<open>The checks on the new name.\<close>

definition patch_name_error :: "('j, 't) cjson \<Rightarrow> ('j, 't) ConfigContext \<Rightarrow> nat \<Rightarrow> cstring option \<Rightarrow> QueueError" where
  "patch_name_error J cfg i name =
     (case name of None \<Rightarrow> QueueErrorNone
      | Some None \<Rightarrow> QueueErrorInvalidArg
      | Some (Some n) \<Rightarrow>
          if n = [] then QueueErrorInvalidArg
          else if length n \<ge> AVAR_QUEUE_NAME_MAX then QueueErrorInvalidArg
          else (case queue_find_index J cfg ''name'' (Some n) of
                  Some d \<Rightarrow> if d \<noteq> i then QueueErrorDuplicateName else QueueErrorNone
                | None \<Rightarrow> QueueErrorNone))"

definition queue_edit ::
  "('j, 't) cjson \<Rightarrow> 't manager_env \<Rightarrow> ('j, 't) manager \<Rightarrow> cstring \<Rightarrow> QueuePatch option \<Rightarrow> QueueError \<times> ('j, 't) manager" where
  "queue_edit J E m qid patch =
     (case patch of None \<Rightarrow> (QueueErrorInvalidArg, m)
      | Some patch \<Rightarrow>
          if qid = None \<or> qid = Some [] then (QueueErrorInvalidArg, m)
          else (case queue_find_index J (mg_cfg m) ''id'' qid of
                  None \<Rightarrow> (QueueErrorNotFound, m)
                | Some i \<Rightarrow>
                    (case take_object J (mg_cfg m) dm_queues i of
                       None \<Rightarrow> (QueueErrorPersist, m)
                     | Some obj \<Rightarrow>
                         if \<not> cJSON_IsObject J obj then (QueueErrorPersist, m)
                         else let err = patch_name_error J (mg_cfg m) i (qp_name patch) in
                           if err \<noteq> QueueErrorNone then (err, m)
                           else let (rc, m) = put_object J E m dm_queues i (apply_patch J patch obj)
                                in (if rc \<noteq> 0 then QueueErrorPersist else QueueErrorNone, m))))"

definition queue_is_started :: "('j, 't) cjson \<Rightarrow> ('j, 't) manager \<Rightarrow> cstring \<Rightarrow> bool" where
  "queue_is_started J m qid \<longleftrightarrow>
     (if qid = None \<or> qid = Some [] then False
      else (case queue_find_index J (mg_cfg m) ''id'' qid of
              None \<Rightarrow> False
            | Some i \<Rightarrow>
                (case take_object J (mg_cfg m) dm_queues i of
                   None \<Rightarrow> False
                 | Some obj \<Rightarrow>
                     if \<not> cJSON_IsObject J obj then False
                     else (case cJSON_GetObjectItemCaseSensitive J obj ''started'' of
                             None \<Rightarrow> False | Some started \<Rightarrow> cJSON_IsTrue J started))))"

definition queue_sync_started_state ::
  "('j, 't) cjson \<Rightarrow> 't manager_env \<Rightarrow> ('j, 't) manager \<Rightarrow> cstring \<Rightarrow> ('j, 't) manager" where
  "queue_sync_started_state J E m queue_id =
     (case queue_id of None \<Rightarrow> m
      | Some q \<Rightarrow>
          if q = [] \<or> \<not> queue_is_started J m (Some q) then m
          else if queue_has_running_work J m q then m
          else snd (queue_set_started J E m (Some q) False))"

definition queue_count :: "('j, 't) cjson \<Rightarrow> ('j, 't) manager \<Rightarrow> nat" where
  "queue_count J m = get_config_array_size J (mg_cfg m) dm_queues"

definition queue_id_at :: "('j, 't) cjson \<Rightarrow> ('j, 't) manager \<Rightarrow> nat \<Rightarrow> cstring" where
  "queue_id_at J m i = queue_field J m i ''id''"

definition queue_name_at :: "('j, 't) cjson \<Rightarrow> ('j, 't) manager \<Rightarrow> nat \<Rightarrow> cstring" where
  "queue_name_at J m i = queue_field J m i ''name''"

end
