(* ===== verification/Scheduler.thy ===== *)
theory Scheduler
  imports Queue
begin

text \<open>
  Starting and stopping downloads: the table of active jobs, the submission to the thread pool and
  the commands on items of \<^verbatim>\<open>src/src/download.c\<close>, and \<open>queue_start\<close>, \<open>queue_dispatch\<close>
  and \<open>queue_stop\<close> of \<^verbatim>\<open>src/src/queue.c\<close>, which call each other.  \<open>mg_tasks\<close> lists what was
  submitted to the pool, oldest first; the flags of a job are set in the table, where the thread
  that runs the job reads them.
\<close>

subsection \<open>The table of active jobs\<close>

definition AVAR_ACTIVE_JOB_CAP :: nat where "AVAR_ACTIVE_JOB_CAP = 64"

text \<open>The first of the slots that satisfies the test, as the loops find it.\<close>

fun slot_loop :: "(active_job option \<Rightarrow> bool) \<Rightarrow> active_job option list \<Rightarrow> nat \<Rightarrow> nat option" where
  "slot_loop test [] i = None"
| "slot_loop test (x # xs) i = (if test x then Some i else slot_loop test xs (Suc i))"

definition active_jobs_register :: "active_job \<Rightarrow> ('j, 't) manager \<Rightarrow> ('j, 't) manager" where
  "active_jobs_register job m =
     (case slot_loop (\<lambda>x. x = None) (mg_jobs m) 0 of
        None \<Rightarrow> m | Some i \<Rightarrow> m\<lparr>mg_jobs := (mg_jobs m)[i := Some job]\<rparr>)"

definition active_jobs_unregister :: "nat \<Rightarrow> ('j, 't) manager \<Rightarrow> ('j, 't) manager" where
  "active_jobs_unregister ptr m =
     (case slot_loop (\<lambda>x. case x of None \<Rightarrow> False | Some j \<Rightarrow> aj_ptr j = ptr) (mg_jobs m) 0 of
        None \<Rightarrow> m | Some i \<Rightarrow> m\<lparr>mg_jobs := (mg_jobs m)[i := None]\<rparr>)"

definition active_jobs_find :: "('j, 't) manager \<Rightarrow> string \<Rightarrow> nat option" where
  "active_jobs_find m item_id =
     slot_loop (\<lambda>x. case x of None \<Rightarrow> False | Some j \<Rightarrow> aj_item_id j = item_id) (mg_jobs m) 0"

text \<open>Setting a flag of the job found.\<close>

definition flag_job :: "(active_job \<Rightarrow> active_job) \<Rightarrow> nat \<Rightarrow> ('j, 't) manager \<Rightarrow> ('j, 't) manager" where
  "flag_job f i m = m\<lparr>mg_jobs := (mg_jobs m)[i := map_option f (mg_jobs m ! i)]\<rparr>"

subsection \<open>Handing an item to the pool\<close>

definition download_pool_submit ::
  "'t manager_env \<Rightarrow> ('j, 't) manager \<Rightarrow> string \<times> cstring \<times> bool \<Rightarrow> bool \<times> ('j, 't) manager" where
  "download_pool_submit E m args =
     (let ok = me_pool E (mg_tick m); m = m\<lparr>mg_tick := Suc (mg_tick m)\<rparr>
      in if ok then (True, m\<lparr>mg_tasks := mg_tasks m @ [args]\<rparr>) else (False, m))"

definition spawn_download_by_id ::
  "'t manager_env \<Rightarrow> ('j, 't) manager \<Rightarrow> string \<Rightarrow> cstring \<Rightarrow> bool \<Rightarrow> int \<times> ('j, 't) manager" where
  "spawn_download_by_id E m item_id proxy_override force_start =
     (if \<not> force_start \<and> active_jobs_find m item_id \<noteq> None then (EXIT_SUCCESS, m)
      else let (ok, m) = download_pool_submit E m (item_id, proxy_override, force_start)
           in if \<not> ok then (EXIT_FAILURE, m) else (EXIT_SUCCESS, m))"

definition download_start_scheduled ::
  "('j, 't) cjson \<Rightarrow> 't manager_env \<Rightarrow> ('j, 't) manager \<Rightarrow> cstring \<Rightarrow> int \<times> ('j, 't) manager" where
  "download_start_scheduled J E m item_id =
     (case item_id of None \<Rightarrow> (EXIT_FAILURE, m)
      | Some iid \<Rightarrow>
          (case item_index J m iid of
             None \<Rightarrow> (EXIT_FAILURE, m)
           | Some i \<Rightarrow>
               if item_field J m i ''status'' \<noteq> Some ''queued'' then (EXIT_FAILURE, m)
               else spawn_download_by_id E m iid None False))"

subsection \<open>Dispatching a queue\<close>

text \<open>Both loops run over the items from index \<open>i\<close> on, \<open>n\<close> of them left.\<close>

fun count_downloading ::
  "('j, 't) cjson \<Rightarrow> ('j, 't) manager \<Rightarrow> string \<Rightarrow> nat \<Rightarrow> nat \<Rightarrow> nat \<Rightarrow> nat \<Rightarrow> nat" where
  "count_downloading J m queue_id max_concurrent i 0 active = active"
| "count_downloading J m queue_id max_concurrent i (Suc n) active =
     (if \<not> active < max_concurrent then active
      else if item_field J m i ''queueId'' \<noteq> Some queue_id
      then count_downloading J m queue_id max_concurrent (Suc i) n active
      else count_downloading J m queue_id max_concurrent (Suc i) n
             (if item_field J m i ''status'' = Some ''downloading'' then active + 1 else active))"

fun dispatch_loop ::
  "('j, 't) cjson \<Rightarrow> 't manager_env \<Rightarrow> string \<Rightarrow> nat \<Rightarrow> nat \<Rightarrow> nat \<Rightarrow> nat \<Rightarrow> ('j, 't) manager \<Rightarrow> ('j, 't) manager" where
  "dispatch_loop J E queue_id max_concurrent i 0 active m = m"
| "dispatch_loop J E queue_id max_concurrent i (Suc n) active m =
     (if \<not> active < max_concurrent then m
      else if item_field J m i ''queueId'' \<noteq> Some queue_id
      then dispatch_loop J E queue_id max_concurrent (Suc i) n active m
      else if item_field J m i ''status'' \<noteq> Some ''queued''
      then dispatch_loop J E queue_id max_concurrent (Suc i) n active m
      else (case item_field J m i ''id'' of
              None \<Rightarrow> dispatch_loop J E queue_id max_concurrent (Suc i) n active m
            | Some iid \<Rightarrow>
                let (rc, m) = download_start_scheduled J E m (Some iid)
                in dispatch_loop J E queue_id max_concurrent (Suc i) n
                     (if rc = EXIT_SUCCESS then active + 1 else active) m))"

definition queue_dispatch ::
  "('j, 't) cjson \<Rightarrow> 't manager_env \<Rightarrow> ('j, 't) manager \<Rightarrow> cstring \<Rightarrow> ('j, 't) manager" where
  "queue_dispatch J E m queue_id =
     (case queue_id of None \<Rightarrow> m
      | Some q \<Rightarrow>
          if q = [] \<or> \<not> queue_is_started J m (Some q) then m
          else let max_concurrent = unat (queue_max_concurrent J m (Some q));
                   count = get_config_array_size J (mg_cfg m) dm_items;
                   active = count_downloading J m q max_concurrent 0 count 0
               in dispatch_loop J E q max_concurrent 0 count active m)"

definition queue_start ::
  "('j, 't) cjson \<Rightarrow> 't manager_env \<Rightarrow> ('j, 't) manager \<Rightarrow> cstring \<Rightarrow> QueueError \<times> ('j, 't) manager" where
  "queue_start J E m qid =
     (if qid = None \<or> qid = Some [] then (QueueErrorInvalidArg, m)
      else if queue_find_index J (mg_cfg m) ''id'' qid = None then (QueueErrorNotFound, m)
      else let (rc, m) = queue_set_started J E m qid True
           in if rc = QueueErrorNone then (rc, queue_dispatch J E m qid) else (rc, m))"

definition sync_queue_started_for_item_id ::
  "('j, 't) cjson \<Rightarrow> 't manager_env \<Rightarrow> ('j, 't) manager \<Rightarrow> string \<Rightarrow> ('j, 't) manager" where
  "sync_queue_started_for_item_id J E m item_id =
     (case item_index J m item_id of
        None \<Rightarrow> m
      | Some i \<Rightarrow>
          let queue_id = item_field J m i ''queueId''
          in if queue_id \<noteq> None \<and> queue_id \<noteq> Some []
             then queue_sync_started_state J E (queue_dispatch J E m queue_id) queue_id
             else m)"

definition update_download_item_status ::
  "('j, 't) cjson \<Rightarrow> 't manager_env \<Rightarrow> ('j, 't) manager \<Rightarrow> string \<Rightarrow> cstring \<Rightarrow> int \<times> ('j, 't) manager" where
  "update_download_item_status J E m item_id status =
     (case status of None \<Rightarrow> (-1, m)
      | Some st \<Rightarrow>
          if \<not> download_status_is_valid (Some st) then (-1, m)
          else (case item_index J m item_id of
                  None \<Rightarrow> (-1, m)
                | Some i \<Rightarrow>
                    let (rc, m) = edit_item J E m dm_items i (renew_member J ''status'' (cJSON_CreateString J st))
                    in if rc = 0 then (rc, sync_queue_started_for_item_id J E m item_id) else (rc, m)))"

subsection \<open>Commands on an item\<close>

definition download_pause ::
  "('j, 't) cjson \<Rightarrow> 't manager_env \<Rightarrow> ('j, 't) manager \<Rightarrow> cstring \<Rightarrow> int \<times> ('j, 't) manager" where
  "download_pause J E m item_id =
     (case item_id of None \<Rightarrow> (EXIT_FAILURE, m)
      | Some iid \<Rightarrow>
          (case active_jobs_find m iid of
             Some job \<Rightarrow> (EXIT_SUCCESS, flag_job (aj_pause_requested_update (\<lambda>_. True)) job m)
           | None \<Rightarrow>
               (case item_index J m iid of
                  None \<Rightarrow> (EXIT_FAILURE, m)
                | Some i \<Rightarrow>
                    if item_field J m i ''status'' \<noteq> Some ''downloading'' then (EXIT_FAILURE, m)
                    else let (rc, m) = update_download_item_status J E m iid (Some ''paused'')
                         in (if rc = 0 then EXIT_SUCCESS else EXIT_FAILURE, m))))"

definition download_resume ::
  "('j, 't) cjson \<Rightarrow> 't manager_env \<Rightarrow> ('j, 't) manager \<Rightarrow> cstring \<Rightarrow> int \<times> ('j, 't) manager" where
  "download_resume J E m item_id =
     (case item_id of None \<Rightarrow> (EXIT_FAILURE, m)
      | Some iid \<Rightarrow>
          (case item_index J m iid of
             None \<Rightarrow> (EXIT_FAILURE, m)
           | Some i \<Rightarrow>
               if item_field J m i ''status'' \<noteq> Some ''paused'' then (EXIT_FAILURE, m)
               else spawn_download_by_id E m iid None True))"

definition download_start ::
  "('j, 't) cjson \<Rightarrow> 't manager_env \<Rightarrow> ('j, 't) manager \<Rightarrow> cstring \<Rightarrow> int \<times> ('j, 't) manager" where
  "download_start J E m item_id =
     (case item_id of None \<Rightarrow> (EXIT_FAILURE, m)
      | Some iid \<Rightarrow>
          (case item_index J m iid of
             None \<Rightarrow> (EXIT_FAILURE, m)
           | Some i \<Rightarrow>
               (case item_field J m i ''status'' of
                  None \<Rightarrow> (EXIT_FAILURE, m)
                | Some status \<Rightarrow>
                    let startable = status = ''queued'' \<or> status = ''paused'' \<or> status = ''failed'' \<or> status = ''stopped''
                    in if \<not> startable then (EXIT_FAILURE, m) else spawn_download_by_id E m iid None True)))"

definition download_stop ::
  "('j, 't) cjson \<Rightarrow> 't manager_env \<Rightarrow> ('j, 't) manager \<Rightarrow> cstring \<Rightarrow> int \<times> ('j, 't) manager" where
  "download_stop J E m item_id =
     (case item_id of None \<Rightarrow> (EXIT_FAILURE, m)
      | Some iid \<Rightarrow>
          (case active_jobs_find m iid of
             Some job \<Rightarrow> (EXIT_SUCCESS, flag_job (aj_cancel_requested_update (\<lambda>_. True)) job m)
           | None \<Rightarrow>
               (case item_index J m iid of
                  None \<Rightarrow> (EXIT_FAILURE, m)
                | Some i \<Rightarrow>
                    let (rc, m) = update_download_item_status J E m iid (Some ''stopped'')
                    in (if rc = 0 then EXIT_SUCCESS else EXIT_FAILURE, m))))"

fun stop_loop ::
  "('j, 't) cjson \<Rightarrow> 't manager_env \<Rightarrow> string \<Rightarrow> nat \<Rightarrow> nat \<Rightarrow> ('j, 't) manager \<Rightarrow> ('j, 't) manager" where
  "stop_loop J E qid i 0 m = m"
| "stop_loop J E qid i (Suc n) m =
     (if item_field J m i ''queueId'' \<noteq> Some qid then stop_loop J E qid (Suc i) n m
      else if \<not> queue_item_should_stop (item_field J m i ''status'') then stop_loop J E qid (Suc i) n m
      else (case item_field J m i ''id'' of
              None \<Rightarrow> stop_loop J E qid (Suc i) n m
            | Some item_id \<Rightarrow> stop_loop J E qid (Suc i) n (snd (download_stop J E m (Some item_id)))))"

definition queue_stop ::
  "('j, 't) cjson \<Rightarrow> 't manager_env \<Rightarrow> ('j, 't) manager \<Rightarrow> cstring \<Rightarrow> QueueError \<times> ('j, 't) manager" where
  "queue_stop J E m qid =
     (case qid of None \<Rightarrow> (QueueErrorInvalidArg, m)
      | Some q \<Rightarrow>
          if q = [] then (QueueErrorInvalidArg, m)
          else if queue_find_index J (mg_cfg m) ''id'' (Some q) = None then (QueueErrorNotFound, m)
          else queue_set_started J E (stop_loop J E q 0 (get_config_array_size J (mg_cfg m) dm_items) m) (Some q) False)"

subsection \<open>After a restart, and in the pool\<close>

definition download_scheduler_spawn_blocked :: "('j, 't) cjson \<Rightarrow> ('j, 't) manager \<Rightarrow> cstring \<Rightarrow> cstring \<Rightarrow> bool" where
  "download_scheduler_spawn_blocked J m status queue_id \<longleftrightarrow>
     (if status = None then True
      else if status = Some ''stopped'' then True
      else if status = Some ''queued'' \<and> queue_id \<noteq> None \<and> queue_id \<noteq> Some [] \<and> \<not> queue_is_started J m queue_id then True
      else False)"

definition download_should_resume_on_startup :: "('j, 't) cjson \<Rightarrow> ('j, 't) manager \<Rightarrow> cstring \<Rightarrow> cstring \<Rightarrow> bool" where
  "download_should_resume_on_startup J m status queue_id \<longleftrightarrow>
     (if status = None then False
      else if status = Some ''downloading'' then True
      else if status = Some ''queued'' \<and> queue_id \<noteq> None \<and> queue_id \<noteq> Some [] \<and> queue_is_started J m queue_id then True
      else False)"

fun resume_loop :: "('j, 't) cjson \<Rightarrow> 't manager_env \<Rightarrow> nat \<Rightarrow> nat \<Rightarrow> ('j, 't) manager \<Rightarrow> ('j, 't) manager" where
  "resume_loop J E i 0 m = m"
| "resume_loop J E i (Suc n) m =
     (let status = item_field J m i ''status''; queue_id = item_field J m i ''queueId'' in
      case item_field J m i ''id'' of
        None \<Rightarrow> resume_loop J E (Suc i) n m
      | Some iid \<Rightarrow>
          if \<not> download_should_resume_on_startup J m status queue_id then resume_loop J E (Suc i) n m
          else if active_jobs_find m iid \<noteq> None then resume_loop J E (Suc i) n m
          else resume_loop J E (Suc i) n (snd (spawn_download_by_id E m iid None False)))"

definition download_resume_interrupted :: "('j, 't) cjson \<Rightarrow> 't manager_env \<Rightarrow> ('j, 't) manager \<Rightarrow> ('j, 't) manager" where
  "download_resume_interrupted J E m = resume_loop J E 0 (get_config_array_size J (mg_cfg m) dm_items) m"

end
