(* ===== verification/Scheduler_Correct.thy ===== *)
theory Scheduler_Correct
  imports Scheduler "HOL-Library.Sublist"
begin

text \<open>
  Correctness of the scheduler: what a dispatch submits and the effect of every command on the items.
  Everything is stated on the records of \<open>dm.items\<close> and \<open>dm.queues\<close>.
\<close>

subsection \<open>Dispatching\<close>

abbreviation items_of :: "('j, 't) cjson \<Rightarrow> ('j, 't) manager \<Rightarrow> 'j list" where
  "items_of J m \<equiv> records J (mg_cfg m) dm_items"

abbreviation queues_of :: "('j, 't) cjson \<Rightarrow> ('j, 't) manager \<Rightarrow> 'j list" where
  "queues_of J m \<equiv> records J (mg_cfg m) dm_queues"

definition in_queue :: "('j, 't) cjson \<Rightarrow> string \<Rightarrow> 'j \<Rightarrow> bool" where
  "in_queue J q r \<longleftrightarrow> field_of J r ''queueId'' = Some q"

definition has_status :: "('j, 't) cjson \<Rightarrow> string \<Rightarrow> 'j \<Rightarrow> bool" where
  "has_status J s r \<longleftrightarrow> field_of J r ''status'' = Some s"

definition downloading_count :: "('j, 't) cjson \<Rightarrow> string \<Rightarrow> 'j list \<Rightarrow> nat" where
  "downloading_count J q rs = length (filter (\<lambda>r. in_queue J q r \<and> has_status J ''downloading'' r) rs)"

text \<open>The ids of the items of the queue that wait, in order.\<close>

definition waiting_ids :: "('j, 't) cjson \<Rightarrow> string \<Rightarrow> 'j list \<Rightarrow> string list" where
  "waiting_ids J q rs = map (\<lambda>r. the (field_of J r ''id''))
     (filter (\<lambda>r. in_queue J q r \<and> has_status J ''queued'' r \<and> field_of J r ''id'' \<noteq> None) rs)"

lemma waiting_ids_Cons:
  "waiting_ids J q (r # rs) =
     (if in_queue J q r \<and> has_status J ''queued'' r \<and> field_of J r ''id'' \<noteq> None
      then the (field_of J r ''id'') # waiting_ids J q rs else waiting_ids J q rs)"
  by (simp add: waiting_ids_def)

lemma item_field_records:
  assumes "cjson_laws J" "i < length (items_of J m)"
  shows "item_field J m i field = field_of J (items_of J m ! i) field"
  using array_field_records [OF assms(1), of "mg_cfg m" dm_items i field] assms(2) by simp

lemma count_downloading_records:
  assumes "cjson_laws J"
  shows "i + n = length (items_of J m) \<Longrightarrow>
    min mx (count_downloading J m q mx i n active) = min mx (active + downloading_count J q (drop i (items_of J m)))"
proof (induction n arbitrary: i active)
  case (Suc n)
  let ?rs = "items_of J m"
  have i: "i < length ?rs" using Suc.prems by simp
  have d: "drop i ?rs = ?rs ! i # drop (Suc i) ?rs" using i by (simp add: Cons_nth_drop_Suc)
  note f = item_field_records [OF assms i]
  show ?case
  proof (cases "active < mx")
    case True
    then show ?thesis using Suc.IH [of "Suc i"] Suc.prems
      by (simp add: d downloading_count_def f in_queue_def has_status_def)
  qed simp
qed (simp add: downloading_count_def)

text \<open>Only tasks are added.\<close>

definition submits :: "('j, 't) manager \<Rightarrow> string list \<Rightarrow> ('j, 't) manager \<Rightarrow> bool" where
  "submits m ids m' \<longleftrightarrow>
     m' = m\<lparr>mg_tasks := mg_tasks m @ map (\<lambda>i. (i, None, False)) ids, mg_tick := mg_tick m'\<rparr>"

lemma submits_Nil [simp]: "submits m [] m"
  by (simp add: submits_def)

lemma submits_cfg: "submits m ids m' \<Longrightarrow> mg_cfg m' = mg_cfg m \<and> mg_jobs m' = mg_jobs m
    \<and> mg_tasks m' = mg_tasks m @ map (\<lambda>i. (i, None, False)) ids"
  unfolding submits_def by (cases m, cases m') auto

lemma submits_trans: "submits a xs b \<Longrightarrow> submits b ys c \<Longrightarrow> submits a (xs @ ys) c"
  unfolding submits_def by (cases a, cases b, cases c) auto

lemma start_scheduled_submits:
  assumes "download_start_scheduled J E m (Some iid) = (rc, m')"
  shows "submits m [] m' \<and> rc \<noteq> EXIT_SUCCESS
    \<or> submits m [] m' \<and> rc = EXIT_SUCCESS \<and> active_jobs_find m iid \<noteq> None
    \<or> submits m [iid] m' \<and> rc = EXIT_SUCCESS"
  using assms
  by (auto simp: download_start_scheduled_def spawn_download_by_id_def download_pool_submit_def Let_def submits_def
      split: option.splits if_splits)

lemma dispatch_loop_submits:
  assumes "cjson_laws J"
  shows "i + n = length (items_of J m) \<Longrightarrow> \<exists>ids. submits m ids (dispatch_loop J E q mx i n active m)
    \<and> subseq ids (waiting_ids J q (drop i (items_of J m))) \<and> length ids \<le> mx - active"
proof (induction n arbitrary: i active m)
  case 0
  have "submits m [] (dispatch_loop J E q mx i 0 active m)" by simp
  then show ?case by (intro exI [of _ "[]"]) simp
next
  case (Suc n)
  let ?rs = "items_of J m"
  have i: "i < length ?rs" using Suc.prems by simp
  have d: "drop i ?rs = ?rs ! i # drop (Suc i) ?rs" using i by (simp add: Cons_nth_drop_Suc)
  note f = item_field_records [OF assms i]
  have skip: ?case if "dispatch_loop J E q mx i (Suc n) active m = dispatch_loop J E q mx (Suc i) n active m"
  proof -
    obtain ids where "submits m ids (dispatch_loop J E q mx (Suc i) n active m)"
      "subseq ids (waiting_ids J q (drop (Suc i) ?rs))" "length ids \<le> mx - active"
      using Suc.IH [where i = "Suc i" and m = m and active = active] Suc.prems by auto
    moreover have "subseq (waiting_ids J q (drop (Suc i) ?rs)) (waiting_ids J q (drop i ?rs))"
      unfolding d waiting_ids_Cons by (simp add: list_emb_Cons)
    ultimately show ?thesis unfolding that using subseq_order.order_trans by blast
  qed
  show ?case
  proof (cases "active < mx \<and> in_queue J q (?rs ! i) \<and> has_status J ''queued'' (?rs ! i) \<and> field_of J (?rs ! i) ''id'' \<noteq> None")
    case False
    show ?thesis
    proof (cases "active < mx")
      case True
      then show ?thesis using False f by (intro skip) (auto simp: in_queue_def has_status_def split: option.split)
    next
      case full: False
      then have "submits m [] (dispatch_loop J E q mx i (Suc n) active m)" by simp
      then show ?thesis by (intro exI [of _ "[]"]) simp
    qed
  next
    case True
    then obtain iid where iid: "field_of J (?rs ! i) ''id'' = Some iid" by blast
    obtain rc m1 where one: "download_start_scheduled J E m (Some iid) = (rc, m1)" by fastforce
    let ?a = "if rc = EXIT_SUCCESS then active + 1 else active"
    have run: "dispatch_loop J E q mx i (Suc n) active m = dispatch_loop J E q mx (Suc i) n ?a m1"
      using True iid f one by (simp add: in_queue_def has_status_def)
    have w: "waiting_ids J q (drop i ?rs) = iid # waiting_ids J q (drop (Suc i) ?rs)"
      using True iid unfolding d waiting_ids_Cons by simp
    obtain xs where x: "submits m xs m1" "xs = [] \<or> xs = [iid] \<and> rc = EXIT_SUCCESS"
      using start_scheduled_submits [OF one] by blast
    have same: "mg_cfg m1 = mg_cfg m" using submits_cfg [OF x(1)] by simp
    obtain ids where ids: "submits m1 ids (dispatch_loop J E q mx (Suc i) n ?a m1)"
      "subseq ids (waiting_ids J q (drop (Suc i) ?rs))" "length ids \<le> mx - ?a"
      using Suc.IH [where i = "Suc i" and m = m1 and active = ?a] Suc.prems same by auto
    have "submits m (xs @ ids) (dispatch_loop J E q mx i (Suc n) active m)"
      unfolding run by (rule submits_trans [OF x(1) ids(1)])
    moreover have "subseq (xs @ ids) (waiting_ids J q (drop i ?rs))" using x(2) ids(2) unfolding w by auto
    moreover have "length (xs @ ids) \<le> mx - active" using x(2) ids(3) True by (auto split: if_splits)
    ultimately show ?thesis by blast
  qed
qed

text \<open>When nothing is in the way, the loop submits the first waiting items.\<close>

definition unique_field :: "('j, 't) cjson \<Rightarrow> string \<Rightarrow> 'j list \<Rightarrow> bool" where
  "unique_field J field rs \<longleftrightarrow> (\<forall>i<length rs. \<forall>j<length rs. field_of J (rs ! i) field \<noteq> None
     \<longrightarrow> field_of J (rs ! i) field = field_of J (rs ! j) field \<longrightarrow> i = j)"

lemma unique_first_match:
  assumes "unique_field J field rs" "i < length rs" "field_of J (rs ! i) field = Some v"
  shows "first_match (\<lambda>r. field_of J r field = Some v) rs = Some i"
proof (cases "first_match (\<lambda>r. field_of J r field = Some v) rs")
  case None
  then have "\<forall>r\<in>set rs. field_of J r field \<noteq> Some v" by (simp only: first_match_None simp_thms)
  then show ?thesis using assms(2,3) nth_mem [of i rs] by blast
next
  case (Some k)
  then show ?thesis using first_match_Some [OF Some] assms unfolding unique_field_def by fastforce
qed

lemma start_scheduled_accepted:
  assumes "cjson_laws J" "unique_field J ''id'' (items_of J m)" "\<And>t. me_pool E t"
    "i < length (items_of J m)" "field_of J (items_of J m ! i) ''id'' = Some iid"
    "has_status J ''queued'' (items_of J m ! i)" "active_jobs_find m iid = None"
  shows "\<exists>m'. download_start_scheduled J E m (Some iid) = (EXIT_SUCCESS, m') \<and> submits m [iid] m'"
proof -
  have "item_index J m iid = Some i"
    using item_index_records [OF assms(1), of "mg_cfg m" iid True] unique_first_match [OF assms(2,4,5)] by simp
  moreover have "item_field J m i ''status'' = Some ''queued''"
    using assms(6) item_field_records [OF assms(1,4)] by (simp add: has_status_def)
  ultimately show ?thesis using assms(3,7)
    by (simp add: download_start_scheduled_def spawn_download_by_id_def download_pool_submit_def submits_def)
qed

lemma dispatch_loop_fills:
  assumes "cjson_laws J" "\<And>t. me_pool E t"
  shows "i + n = length (items_of J m) \<Longrightarrow> unique_field J ''id'' (items_of J m) \<Longrightarrow>
    (\<And>iid. iid \<in> set (waiting_ids J q (items_of J m)) \<Longrightarrow> active_jobs_find m iid = None) \<Longrightarrow>
    submits m (take (mx - active) (waiting_ids J q (drop i (items_of J m)))) (dispatch_loop J E q mx i n active m)"
proof (induction n arbitrary: i active m)
  case 0
  then show ?case by (simp add: waiting_ids_def)
next
  case (Suc n)
  let ?rs = "items_of J m"
  have i: "i < length ?rs" using Suc.prems(1) by simp
  have d: "drop i ?rs = ?rs ! i # drop (Suc i) ?rs" using i by (simp add: Cons_nth_drop_Suc)
  note f = item_field_records [OF assms(1) i]
  show ?case
  proof (cases "active < mx \<and> in_queue J q (?rs ! i) \<and> has_status J ''queued'' (?rs ! i) \<and> field_of J (?rs ! i) ''id'' \<noteq> None")
    case False
    show ?thesis
    proof (cases "active < mx")
      case True
      then have "dispatch_loop J E q mx i (Suc n) active m = dispatch_loop J E q mx (Suc i) n active m"
        using False f by (auto simp: in_queue_def has_status_def split: option.split)
      moreover have "waiting_ids J q (drop i ?rs) = waiting_ids J q (drop (Suc i) ?rs)"
        using True False unfolding d waiting_ids_Cons by simp
      ultimately show ?thesis using Suc.IH [of "Suc i" m active] Suc.prems by simp
    qed simp
  next
    case True
    then obtain iid where iid: "field_of J (?rs ! i) ''id'' = Some iid" by blast
    have "iid \<in> set (waiting_ids J q ?rs)" using True iid i nth_mem [OF i] by (force simp: waiting_ids_def)
    from start_scheduled_accepted [OF assms(1) Suc.prems(2) assms(2) i iid _ Suc.prems(3) [OF this]] True
    obtain m1 where one: "download_start_scheduled J E m (Some iid) = (EXIT_SUCCESS, m1)" "submits m [iid] m1" by blast
    have run: "dispatch_loop J E q mx i (Suc n) active m = dispatch_loop J E q mx (Suc i) n (active + 1) m1"
      using True iid f one(1) by (simp add: in_queue_def has_status_def)
    have w: "waiting_ids J q (drop i ?rs) = iid # waiting_ids J q (drop (Suc i) ?rs)"
      using True iid unfolding d waiting_ids_Cons by simp
    have same: "mg_cfg m1 = mg_cfg m" "mg_jobs m1 = mg_jobs m" using submits_cfg [OF one(2)] by simp_all
    have "submits m1 (take (mx - (active + 1)) (waiting_ids J q (drop (Suc i) (items_of J m1))))
        (dispatch_loop J E q mx (Suc i) n (active + 1) m1)"
      by (rule Suc.IH) (use Suc.prems same in \<open>simp_all add: active_jobs_find_def\<close>)
    from submits_trans [OF one(2) this] show ?thesis unfolding run w same using True by (simp add: take_Cons')
  qed
qed

lemma dispatch_room:
  assumes "cjson_laws J"
  shows "mx - count_downloading J m q mx 0 (get_config_array_size J (mg_cfg m) dm_items) 0
    = mx - downloading_count J q (items_of J m)"
  using count_downloading_records [OF assms, of 0 "length (items_of J m)" m mx q 0]
  by (simp add: array_size_records)

lemma queue_dispatch_submits:
  assumes "cjson_laws J"
  shows "\<exists>ids. submits m ids (queue_dispatch J E m (Some q)) \<and> subseq ids (waiting_ids J q (items_of J m))
    \<and> length ids \<le> unat (queue_max_concurrent J m (Some q)) - downloading_count J q (items_of J m)
    \<and> (ids \<noteq> [] \<longrightarrow> queue_is_started J m (Some q))"
proof (cases "q = [] \<or> \<not> queue_is_started J m (Some q)")
  case True
  then show ?thesis by (intro exI [of _ "[]"]) (simp add: queue_dispatch_def)
next
  case False
  let ?mx = "unat (queue_max_concurrent J m (Some q))"
  let ?a = "count_downloading J m q ?mx 0 (get_config_array_size J (mg_cfg m) dm_items) 0"
  have "queue_dispatch J E m (Some q) = dispatch_loop J E q ?mx 0 (length (items_of J m)) ?a m"
    using False by (simp add: queue_dispatch_def Let_def array_size_records)
  then show ?thesis
    using dispatch_loop_submits [OF assms, of 0 "length (items_of J m)" m E q ?mx ?a] dispatch_room [OF assms] False by auto
qed

lemma queue_dispatch_accepted:
  assumes "cjson_laws J" "\<And>t. me_pool E t" "unique_field J ''id'' (items_of J m)"
    "\<And>iid. iid \<in> set (waiting_ids J q (items_of J m)) \<Longrightarrow> active_jobs_find m iid = None"
    "queue_is_started J m (Some q)"
  shows "submits m (take (unat (queue_max_concurrent J m (Some q)) - downloading_count J q (items_of J m))
      (waiting_ids J q (items_of J m))) (queue_dispatch J E m (Some q))"
proof -
  let ?mx = "unat (queue_max_concurrent J m (Some q))"
  let ?a = "count_downloading J m q ?mx 0 (get_config_array_size J (mg_cfg m) dm_items) 0"
  have "q \<noteq> []" using assms(5) by (auto simp: queue_is_started_def)
  then have run: "queue_dispatch J E m (Some q) = dispatch_loop J E q ?mx 0 (length (items_of J m)) ?a m"
    using assms(5) by (simp add: queue_dispatch_def Let_def array_size_records)
  have "submits m (take (?mx - ?a) (waiting_ids J q (drop 0 (items_of J m))))
      (dispatch_loop J E q ?mx 0 (length (items_of J m)) ?a m)"
    by (rule dispatch_loop_fills [OF assms(1,2) _ assms(3,4)]) simp_all
  then show ?thesis unfolding run dispatch_room [OF assms(1)] by simp
qed

subsection \<open>Commands on an item\<close>

text \<open>Starting and stopping the flag of a queue touches no item.\<close>

lemma edit_object_sets:
  assumes "cjson_laws J" "config_good J (mg_cfg m)" "valid_key (split_dots key)" "good_change J change"
    "edit_object J E m key i change = (rc, m')"
  shows "if i < length (records J (mg_cfg m) key) \<and> cJSON_IsObject J (records J (mg_cfg m) key ! i)
    then record_set J key i (change (records J (mg_cfg m) key ! i)) m m' else m' = m \<and> rc = QueueErrorPersist"
proof (cases "i < length (records J (mg_cfg m) key) \<and> cJSON_IsObject J (records J (mg_cfg m) key ! i)")
  case True
  then have "good_object J (records J (mg_cfg m) key ! i)"
    using records_good [OF assms(1,2), of "records J (mg_cfg m) key ! i" key] by (simp add: good_object_def cJSON_IsObject_def)
  then have g: "good_object J (change (records J (mg_cfg m) key ! i))" using assms(4) by (simp add: good_change_def)
  obtain rc1 where "put_object J E m key i (change (records J (mg_cfg m) key ! i)) = (rc1, m')"
    using assms(5) True take_object_records [OF assms(1,2), of key i] by (simp add: edit_object_def split: prod.splits)
  from put_object_sets [OF assms(1-3) g this] True show ?thesis by simp
qed (use assms(5) take_object_records [OF assms(1,2), of key i] in \<open>auto simp: edit_object_def\<close>)

lemma edit_object_cases:
  assumes "cjson_laws J" "config_good J (mg_cfg m)" "valid_key (split_dots key)" "good_change J change"
    "edit_object J E m key i change = (rc, m')"
  shows "record_set J key i (change (records J (mg_cfg m) key ! i)) m m' \<and> i < length (records J (mg_cfg m) key)
      \<and> cJSON_IsObject J (records J (mg_cfg m) key ! i) \<or> m' = m \<and> rc = QueueErrorPersist"
  using edit_object_sets [OF assms] by (simp split: if_splits)

text \<open>The manager after operations on queues: items, jobs and the other parts are as before.\<close>

definition items_kept :: "('j, 't) cjson \<Rightarrow> ('j, 't) manager \<Rightarrow> ('j, 't) manager \<Rightarrow> bool" where
  "items_kept J m m' \<longleftrightarrow> config_good J (mg_cfg m') \<and> items_of J m' = items_of J m
     \<and> mg_jobs m' = mg_jobs m \<and> mg_scope m' = mg_scope m \<and> mg_snowflake m' = mg_snowflake m"

lemma items_kept_refl: "config_good J (mg_cfg m) \<Longrightarrow> items_kept J m m"
  by (simp add: items_kept_def)

lemma items_kept_trans: "items_kept J a b \<Longrightarrow> items_kept J b c \<Longrightarrow> items_kept J a c"
  by (simp add: items_kept_def)

lemma queue_record_set:
  assumes "record_set J dm_queues i r m m'"
  shows "items_kept J m m' \<and> mg_tasks m' = mg_tasks m"
proof -
  have "others_kept J (mg_cfg m) dm_queues (mg_cfg m')" using assms by (simp only: record_set_def)
  from others_kept_records [OF this, of dm_items] record_set_simps [OF assms]
  show ?thesis by (simp only: items_kept_def keys_unrelated simp_thms)
qed

lemma started_change_good:
  "cjson_laws J \<Longrightarrow> good_change J (\<lambda>obj. cJSON_ReplaceItemInObjectCaseSensitive J obj ''started'' (cJSON_CreateBool J b))"
  by (rule good_change_replace, assumption, rule json_good_created(5))

lemma queue_set_started_items:
  assumes "cjson_laws J" "config_good J (mg_cfg m)" "queue_set_started J E m qid b = (rc, m')"
  shows "items_kept J m m' \<and> mg_tasks m' = mg_tasks m"
proof (cases "qid = None \<or> qid = Some [] \<or> queue_find_index J (mg_cfg m) ''id'' qid = None")
  case True then show ?thesis using assms(2,3) items_kept_refl [of J m] by (auto simp: queue_set_started_def split: if_splits)
next
  case False
  then obtain q i where i: "qid = Some q" "q \<noteq> []" "queue_find_index J (mg_cfg m) ''id'' (Some q) = Some i"
    by (cases qid) auto
  have "edit_object J E m dm_queues i (\<lambda>obj. cJSON_ReplaceItemInObjectCaseSensitive J obj ''started'' (cJSON_CreateBool J b)) = (rc, m')"
    using assms(3) i by (simp add: queue_set_started_def)
  from edit_object_cases [OF assms(1,2) keys_valid(2) started_change_good [OF assms(1)] this]
  show ?thesis using queue_record_set [of J i _ m m'] items_kept_refl [OF assms(2)] by blast
qed

lemma queue_sync_items:
  assumes "cjson_laws J" "config_good J (mg_cfg m)"
  shows "items_kept J m (queue_sync_started_state J E m qid) \<and> mg_tasks (queue_sync_started_state J E m qid) = mg_tasks m"
proof -
  have "items_kept J m (snd (queue_set_started J E m (Some q) False)) \<and> mg_tasks (snd (queue_set_started J E m (Some q) False)) = mg_tasks m" for q
    using queue_set_started_items [OF assms, of E "Some q" False] by (cases "queue_set_started J E m (Some q) False") simp
  then show ?thesis using items_kept_refl [OF assms(2)] by (auto simp: queue_sync_started_state_def split: option.split)
qed

lemma queue_dispatch_items:
  assumes "cjson_laws J" "config_good J (mg_cfg m)"
  shows "items_kept J m (queue_dispatch J E m qid)"
proof (cases qid)
  case None then show ?thesis using items_kept_refl [OF assms(2)] by (simp add: queue_dispatch_def)
next
  case (Some q)
  obtain ids where "submits m ids (queue_dispatch J E m (Some q))" using queue_dispatch_submits [OF assms(1)] by blast
  then have "queue_dispatch J E m (Some q) = m\<lparr>mg_tasks := mg_tasks m @ map (\<lambda>i. (i, None, False)) ids,
      mg_tick := mg_tick (queue_dispatch J E m (Some q))\<rparr>" by (simp add: submits_def)
  then have "mg_cfg (queue_dispatch J E m (Some q)) = mg_cfg m \<and> mg_jobs (queue_dispatch J E m (Some q)) = mg_jobs m
    \<and> mg_scope (queue_dispatch J E m (Some q)) = mg_scope m \<and> mg_snowflake (queue_dispatch J E m (Some q)) = mg_snowflake m"
    by (metis manager.select_convs manager.surjective manager.update_convs(5,6))
  then show ?thesis using assms(2) Some by (simp add: items_kept_def)
qed

lemma sync_for_item_kept:
  assumes "cjson_laws J" "config_good J (mg_cfg m)"
  shows "items_kept J m (sync_queue_started_for_item_id J E m iid)"
proof (cases "item_index J m iid")
  case (Some i)
  let ?q = "item_field J m i ''queueId''"
  have d: "items_kept J m (queue_dispatch J E m ?q)" by (rule queue_dispatch_items [OF assms])
  then have "config_good J (mg_cfg (queue_dispatch J E m ?q))" by (simp add: items_kept_def)
  from queue_sync_items [OF assms(1) this, of E ?q] items_kept_trans [OF d]
  show ?thesis using Some items_kept_refl [OF assms(2)] by (simp add: sync_queue_started_for_item_id_def Let_def)
qed (use items_kept_refl [OF assms(2)] in \<open>simp add: sync_queue_started_for_item_id_def\<close>)

lemma update_status_effect:
  assumes "cjson_laws J" "config_good J (mg_cfg m)" "download_status_is_valid (Some st)"
    "first_match (\<lambda>r. field_of J r ''id'' = Some iid) (items_of J m) = Some i"
    "update_download_item_status J E m iid (Some st) = (rc, m')"
  shows "config_good J (mg_cfg m') \<and> mg_jobs m' = mg_jobs m
    \<and> items_of J m' = (items_of J m)[i := renew_member J ''status'' (cJSON_CreateString J st) (items_of J m ! i)]"
proof -
  have ix: "item_index J m iid = Some i" using item_index_records [OF assms(1), of "mg_cfg m" iid True] assms(4) by simp
  have i: "i < length (items_of J m)" "cJSON_IsObject J (items_of J m ! i)"
    using first_match_Some [OF assms(4)] field_object [OF assms(1)] by auto
  obtain rc1 m1 where e: "edit_item J E m dm_items i (renew_member J ''status'' (cJSON_CreateString J st)) = (rc1, m1)"
    by fastforce
  have g: "good_change J (renew_member J ''status'' (cJSON_CreateString J st))"
    by (rule good_change_renew [OF assms(1) json_good_created(3) [OF assms(1)]])
  have set: "record_set J dm_items i (renew_member J ''status'' (cJSON_CreateString J st) (items_of J m ! i)) m m1"
    by (rule edit_item_sets [OF assms(1,2) keys_valid(1) g i e])
  note s = record_set_simps [OF set]
  have "m' = m1 \<or> m' = sync_queue_started_for_item_id J E m1 iid"
    using assms(3,5) ix e by (auto simp: update_download_item_status_def split: if_splits)
  then have "items_kept J m1 m'" using sync_for_item_kept [OF assms(1) s(1)] items_kept_refl [OF s(1)] by auto
  then show ?thesis using s by (simp add: items_kept_def)
qed

text \<open>What a command does, given whether a job of the item is active and the status of the item (if there is
  one).\<close>

datatype command = PauseCommand | ResumeCommand | StartCommand | StopCommand

datatype command_effect = Refuse | FlagJob "active_job \<Rightarrow> active_job" | SetStatus string | SubmitForced

fun run_command ::
  "('j, 't) cjson \<Rightarrow> 't manager_env \<Rightarrow> command \<Rightarrow> ('j, 't) manager \<Rightarrow> cstring \<Rightarrow> int \<times> ('j, 't) manager" where
  "run_command J E PauseCommand m iid = download_pause J E m iid"
| "run_command J E ResumeCommand m iid = download_resume J E m iid"
| "run_command J E StartCommand m iid = download_start J E m iid"
| "run_command J E StopCommand m iid = download_stop J E m iid"

fun command_table :: "command \<Rightarrow> bool \<Rightarrow> cstring option \<Rightarrow> command_effect" where
  "command_table PauseCommand active item =
     (if active then FlagJob (aj_pause_requested_update (\<lambda>_. True))
      else if item = Some (Some ''downloading'') then SetStatus ''paused'' else Refuse)"
| "command_table ResumeCommand active item = (if item = Some (Some ''paused'') then SubmitForced else Refuse)"
| "command_table StartCommand active item =
     (if item \<in> Some ` Some ` {''queued'', ''paused'', ''failed'', ''stopped''} then SubmitForced else Refuse)"
| "command_table StopCommand active item =
     (if active then FlagJob (aj_cancel_requested_update (\<lambda>_. True))
      else if item = None then Refuse else SetStatus ''stopped'')"

definition found_item :: "('j, 't) cjson \<Rightarrow> ('j, 't) manager \<Rightarrow> string \<Rightarrow> nat option" where
  "found_item J m iid = first_match (\<lambda>r. field_of J r ''id'' = Some iid) (items_of J m)"

definition found_status :: "('j, 't) cjson \<Rightarrow> ('j, 't) manager \<Rightarrow> string \<Rightarrow> cstring option" where
  "found_status J m iid = map_option (\<lambda>i. field_of J (items_of J m ! i) ''status'') (found_item J m iid)"

text \<open>What the table says is what happens.\<close>

fun has_effect :: "('j, 't) cjson \<Rightarrow> string \<Rightarrow> command_effect \<Rightarrow> ('j, 't) manager \<Rightarrow> int \<Rightarrow> ('j, 't) manager \<Rightarrow> bool" where
  "has_effect J iid Refuse m rc m' \<longleftrightarrow> rc = EXIT_FAILURE \<and> m' = m"
| "has_effect J iid (FlagJob f) m rc m' \<longleftrightarrow>
     (\<exists>i. active_jobs_find m iid = Some i \<and> rc = EXIT_SUCCESS \<and> m' = flag_job f i m)"
| "has_effect J iid (SetStatus st) m rc m' \<longleftrightarrow>
     (\<exists>i. found_item J m iid = Some i \<and> mg_jobs m' = mg_jobs m \<and> config_good J (mg_cfg m')
        \<and> items_of J m' = (items_of J m)[i := renew_member J ''status'' (cJSON_CreateString J st) (items_of J m ! i)])"
| "has_effect J iid SubmitForced m rc m' \<longleftrightarrow> mg_cfg m' = mg_cfg m \<and> mg_jobs m' = mg_jobs m
     \<and> mg_tasks m' = mg_tasks m @ (if rc = EXIT_SUCCESS then [(iid, None, True)] else [])"

lemma found_item_index: "cjson_laws J \<Longrightarrow> item_index J m iid = found_item J m iid"
  using item_index_records [of J "mg_cfg m" iid True] by (simp add: found_item_def)

lemma found_item_field:
  assumes "cjson_laws J" "found_item J m iid = Some i"
  shows "item_field J m i field = field_of J (items_of J m ! i) field"
  using first_match_Some [OF assms(2) [unfolded found_item_def]] item_field_records [OF assms(1)] by blast

lemma forced_spawn: "spawn_download_by_id E m iid None True = (rc, m') \<Longrightarrow> has_effect J iid SubmitForced m rc m'"
  by (auto simp: spawn_download_by_id_def download_pool_submit_def Let_def split: if_splits)

lemma status_valid: "download_status_is_valid (Some ''paused'')" "download_status_is_valid (Some ''stopped'')"
  by (simp_all add: download_status_is_valid_def)

lemma set_status_effect:
  assumes "cjson_laws J" "config_good J (mg_cfg m)" "download_status_is_valid (Some st)" "found_item J m iid = Some i"
  shows "has_effect J iid (SetStatus st) m rc (snd (update_download_item_status J E m iid (Some st)))"
proof -
  obtain rc1 m1 where u: "update_download_item_status J E m iid (Some st) = (rc1, m1)" by fastforce
  show ?thesis using update_status_effect [OF assms(1-3) assms(4) [unfolded found_item_def] u] assms(4) u by simp
qed

lemma command_effects:
  assumes "cjson_laws J" "config_good J (mg_cfg m)" "run_command J E cmd m (Some iid) = (rc, m')"
  shows "has_effect J iid (command_table cmd (active_jobs_find m iid \<noteq> None) (found_status J m iid)) m rc m'"
proof (cases cmd)
  case PauseCommand
  show ?thesis
  proof (cases "active_jobs_find m iid")
    case None
    show ?thesis
    proof (cases "found_item J m iid")
      case (Some i)
      show ?thesis
        using assms(3) PauseCommand None Some found_item_index [OF assms(1), of m iid] found_item_field [OF assms(1) Some]
          set_status_effect [OF assms(1,2) status_valid(1) Some, of rc E]
        by (auto simp: download_pause_def found_status_def split: prod.splits if_splits)
    qed (use assms(3) PauseCommand None found_item_index [OF assms(1), of m iid] in \<open>simp add: download_pause_def found_status_def\<close>)
  qed (use assms(3) PauseCommand in \<open>simp add: download_pause_def\<close>)
next
  case ResumeCommand
  show ?thesis
  proof (cases "found_item J m iid")
    case (Some i)
    then show ?thesis
      using assms(3) ResumeCommand found_item_index [OF assms(1), of m iid] found_item_field [OF assms(1) Some] forced_spawn
      by (auto simp: download_resume_def found_status_def simp del: has_effect.simps(4) split: if_splits)
  qed (use assms(3) ResumeCommand found_item_index [OF assms(1), of m iid] in \<open>simp add: download_resume_def found_status_def\<close>)
next
  case StartCommand
  show ?thesis
  proof (cases "found_item J m iid")
    case (Some i)
    then show ?thesis
      using assms(3) StartCommand found_item_index [OF assms(1), of m iid] found_item_field [OF assms(1) Some] forced_spawn
      by (cases "item_field J m i ''status''")
        (auto simp: download_start_def found_status_def Let_def simp del: has_effect.simps(4) split: if_splits)
  qed (use assms(3) StartCommand found_item_index [OF assms(1), of m iid] in \<open>simp add: download_start_def found_status_def image_iff\<close>)
next
  case StopCommand
  show ?thesis
  proof (cases "active_jobs_find m iid")
    case None
    show ?thesis
    proof (cases "found_item J m iid")
      case (Some i)
      show ?thesis
        using assms(3) StopCommand None Some found_item_index [OF assms(1), of m iid]
          set_status_effect [OF assms(1,2) status_valid(2) Some, of rc E]
        by (auto simp: download_stop_def found_status_def split: prod.splits if_splits)
    qed (use assms(3) StopCommand None found_item_index [OF assms(1), of m iid] in \<open>simp add: download_stop_def found_status_def\<close>)
  qed (use assms(3) StopCommand in \<open>simp add: download_stop_def\<close>)
qed

subsection \<open>A sample configuration\<close>

definition sample_item :: "string \<Rightarrow> string \<Rightarrow> string \<Rightarrow> json_value" where
  "sample_item iid q st = JV_Object [(''id'', JV_String iid), (''queueId'', JV_String q), (''status'', JV_String st)]"

definition sample_queue :: "string \<Rightarrow> string \<Rightarrow> json_value" where
  "sample_queue qid name = JV_Object [(''id'', JV_String qid), (''name'', JV_String name), (''started'', JV_Bool True),
     (''maxConcurrentDownloads'', JV_String ''2'')]"

definition sample_manager :: "(json_value, json_value) manager" where
  "sample_manager = \<lparr>mg_cfg = \<lparr>cfg_tree = JV_Object [(''dm'', JV_Object
       [(''items'', JV_Array [sample_item ''a'' ''q'' ''downloading'', sample_item ''b'' ''q'' ''queued'', sample_item ''c'' ''q'' ''queued'']),
        (''queues'', JV_Array [sample_queue ''q'' ''n''])])], cfg_path = ''c'', cfg_fs = Map.empty\<rparr>,
     mg_scope = \<lparr>g_download_io_scope = False, g_download_io_item_id = [], g_download_io_scope_count = 0\<rparr>,
     mg_snowflake = (g_download_snowflake, 0), mg_jobs = [None], mg_tasks = [], mg_tick = 0\<rparr>"

definition sample_manager_env :: "json_value manager_env" where
  "sample_manager_env = \<lparr>me_save = (\<lambda>_. sample_save_io), me_readable = (\<lambda>_. True), me_realloc = (\<lambda>_ _. True),
     me_empty_text = (\<lambda>_. False), me_pool = (\<lambda>_. True), me_time = (\<lambda>_. 0), me_rand = (\<lambda>_. 0), me_millis = (\<lambda>_. 0),
     me_pid = 1, me_getenv = (\<lambda>_. None), me_data_dir = None\<rparr>"

lemma json_good_bool: "json_good sample_cjson (JV_Bool b)"
  using json_good_created(5) [OF sample_cjson_laws, of b] by (simp add: sample_cjson_def)

lemma sample_manager_good: "config_good sample_cjson (mg_cfg sample_manager)"
  by (simp add: config_good_def good_object_def sample_manager_def sample_item_def sample_queue_def sample_good_simps
      json_good_bool)
    (simp add: sample_cjson_def)

lemma sample_records:
  "items_of sample_cjson sample_manager =
     [sample_item ''a'' ''q'' ''downloading'', sample_item ''b'' ''q'' ''queued'', sample_item ''c'' ''q'' ''queued'']"
  "queues_of sample_cjson sample_manager = [sample_queue ''q'' ''n'']"
  by (simp_all add: records_def config_node_def valid_key_def sample_manager_def sample_cjson_def json_kind_defs)

lemma sample_fields:
  "field_of sample_cjson (sample_item iid q st) f =
     (if f = ''id'' then Some iid else if f = ''queueId'' then Some q else if f = ''status'' then Some st else None)"
  "field_of sample_cjson (sample_queue qid n) ''id'' = Some qid"
  "field_of sample_cjson (sample_queue qid n) ''name'' = Some n"
  "field_of sample_cjson (sample_queue qid n) ''maxConcurrentDownloads'' = Some ''2''"
  by (simp_all add: field_of_def sample_cjson_def sample_item_def sample_queue_def config_scalar_to_string_def json_kind_defs)

subsection \<open>Properties\<close>

text \<open>C26. A dispatch respects the limit of its queue: it only submits items, each of them queued in this queue and in
  their order, and only when the queue is started; what it submits and the items of the queue that are
  downloading are together at most the limit.\<close>

theorem queue_dispatch_bounded:
  assumes "cjson_laws J"
  shows "\<exists>ids. submits m ids (queue_dispatch J E m (Some q)) \<and> subseq ids (waiting_ids J q (items_of J m))
    \<and> length ids \<le> unat (queue_max_concurrent J m (Some q)) - downloading_count J q (items_of J m)
    \<and> (ids \<noteq> [] \<longrightarrow> queue_is_started J m (Some q))"
  by (rule queue_dispatch_submits [OF assms])

theorem queue_dispatch_bounded_witness:
  "\<exists>ids. submits sample_manager ids (queue_dispatch sample_cjson sample_manager_env sample_manager (Some ''q''))
    \<and> subseq ids [''b'', ''c'']"
  using queue_dispatch_bounded [OF sample_cjson_laws, of sample_manager sample_manager_env "''q''"]
  by (auto simp: sample_records waiting_ids_def in_queue_def has_status_def sample_fields)

text \<open>C27. A dispatch uses the room there is: when the pool accepts tasks, ids are unique and no waiting item has a
  job, a started queue submits its first waiting items until the limit is reached or none is left.\<close>

theorem queue_dispatch_fills:
  assumes "cjson_laws J" "\<And>t. me_pool E t" "unique_field J ''id'' (items_of J m)"
    "\<And>iid. iid \<in> set (waiting_ids J q (items_of J m)) \<Longrightarrow> active_jobs_find m iid = None"
    "queue_is_started J m (Some q)"
  shows "submits m (take (unat (queue_max_concurrent J m (Some q)) - downloading_count J q (items_of J m))
      (waiting_ids J q (items_of J m))) (queue_dispatch J E m (Some q))"
  by (rule queue_dispatch_accepted [OF assms])

theorem queue_dispatch_fills_witness:
  "submits sample_manager [''b''] (queue_dispatch sample_cjson sample_manager_env sample_manager (Some ''q''))"
proof -
  have i: "queue_find_index sample_cjson (mg_cfg sample_manager) ''id'' (Some ''q'') = Some 0"
    using index_loop_records [OF sample_cjson_laws, of "mg_cfg sample_manager" dm_queues "''id''" "''q''"]
    by (simp add: queue_find_index_def sample_records sample_fields)
  have s: "queue_is_started sample_cjson sample_manager (Some ''q'')"
    using take_object_records [OF sample_cjson_laws sample_manager_good, of dm_queues 0]
    by (simp add: queue_is_started_def i sample_records) (simp add: sample_cjson_def sample_queue_def json_kind_defs)
  have f: "queue_field sample_cjson sample_manager 0 ''maxConcurrentDownloads'' = Some (show_nat 2)"
    using array_field_records [OF sample_cjson_laws, of "mg_cfg sample_manager" dm_queues 0 "''maxConcurrentDownloads''"]
    by (simp add: sample_records sample_fields show_nat.simps [of 2] char_of_def bit_0)
  have "queue_max_concurrent sample_cjson sample_manager (Some ''q'') = 2"
    using strtoull_show_nat [of 2 "[]"] show_nat.simps [of 2] by (simp add: queue_max_concurrent_def i f strtoull_value_def strtoull_failed_def del: show_nat.simps)
  moreover have "unique_field sample_cjson ''id'' (items_of sample_cjson sample_manager)"
    by (auto simp: unique_field_def sample_records sample_fields less_Suc_eq nth_Cons' split: if_splits)
  moreover have "active_jobs_find sample_manager iid = None" for iid
    by (simp add: active_jobs_find_def sample_manager_def)
  ultimately show ?thesis
    using queue_dispatch_fills [OF sample_cjson_laws _ _ _ s, of sample_manager_env]
    by (simp add: sample_records sample_fields waiting_ids_def in_queue_def has_status_def downloading_count_def sample_manager_env_def)
qed



end
