(* ===== verification/Queue_Correct.thy ===== *)
theory Queue_Correct
  imports Scheduler_Correct
begin

text \<open>
  Correctness of the operations on queues of \<^verbatim>\<open>src/src/queue.c\<close>: names stay distinct, what removing a
  queue does to its items, and the flag \<open>started\<close> after starting, stopping and synchronizing.
\<close>

subsection \<open>The names of the queues\<close>

definition names_of :: "('j, 't) cjson \<Rightarrow> ('j, 't) manager \<Rightarrow> cstring list" where
  "names_of J m = map (\<lambda>r. field_of J r ''name'') (queues_of J m)"

definition names_distinct :: "cstring list \<Rightarrow> bool" where
  "names_distinct ns \<longleftrightarrow> distinct (filter (\<lambda>n. n \<noteq> None) ns)"

definition names_kept :: "('j, 't) cjson \<Rightarrow> ('j, 't) manager \<Rightarrow> ('j, 't) manager \<Rightarrow> bool" where
  "names_kept J m m' \<longleftrightarrow> config_good J (mg_cfg m') \<and> names_of J m' = names_of J m"

lemma names_kept_trans: "names_kept J a b \<Longrightarrow> names_kept J b c \<Longrightarrow> names_kept J a c"
  by (simp add: names_kept_def)

lemma names_kept_same: "config_good J (mg_cfg m) \<Longrightarrow> mg_cfg m' = mg_cfg m \<Longrightarrow> names_kept J m m'"
  by (simp add: names_kept_def names_of_def)

lemma names_kept_good: "names_kept J m m' \<Longrightarrow> config_good J (mg_cfg m')"
  by (simp add: names_kept_def)

lemma item_record_names:
  assumes "record_set J dm_items i r m m'"
  shows "names_kept J m m'"
proof -
  have "others_kept J (mg_cfg m) dm_items (mg_cfg m')" using assms by (simp only: record_set_def)
  from others_kept_records [OF this, of dm_queues] record_set_simps [OF assms]
  show ?thesis by (simp only: names_kept_def names_of_def keys_unrelated simp_thms)
qed

lemma queue_record_names:
  assumes "record_set J dm_queues i r m m'" "field_of J r ''name'' = field_of J (queues_of J m ! i) ''name''"
  shows "names_kept J m m'"
proof -
  have "names_of J m' = (names_of J m)[i := field_of J r ''name'']"
    using record_set_simps [OF assms(1)] by (simp add: names_of_def map_update)
  also have "\<dots> = names_of J m"
    using assms(2) by (cases "i < length (queues_of J m)") (simp_all add: names_of_def list_eq_iff_nth_eq nth_list_update)
  finally show ?thesis using record_set_simps(1) [OF assms(1)] by (simp add: names_kept_def)
qed

lemma set_started_names:
  assumes "cjson_laws J" "config_good J (mg_cfg m)"
  shows "names_kept J m (snd (queue_set_started J E m qid b))"
proof (cases "qid = None \<or> qid = Some [] \<or> queue_find_index J (mg_cfg m) ''id'' qid = None")
  case True then show ?thesis using assms(2) names_kept_same [of J m m]
    by (auto simp: queue_set_started_def split: if_splits)
next
  case False
  then obtain q i where i: "qid = Some q" "q \<noteq> []" "queue_find_index J (mg_cfg m) ''id'' (Some q) = Some i"
    by (cases qid) auto
  obtain rc m' where e: "edit_object J E m dm_queues i
      (\<lambda>obj. cJSON_ReplaceItemInObjectCaseSensitive J obj ''started'' (cJSON_CreateBool J b)) = (rc, m')" by fastforce
  have run: "snd (queue_set_started J E m qid b) = m'" using i e by (simp add: queue_set_started_def)
  let ?r = "queues_of J m ! i"
  from edit_object_cases [OF assms keys_valid(2) started_change_good [OF assms(1)] e]
  show ?thesis
  proof (elim disjE conjE)
    assume set: "record_set J dm_queues i (cJSON_ReplaceItemInObjectCaseSensitive J ?r ''started'' (cJSON_CreateBool J b)) m m'"
      and i: "i < length (queues_of J m)" "cJSON_IsObject J ?r"
    have "good_object J ?r"
      using records_good [OF assms, of ?r dm_queues] i by (simp add: good_object_def cJSON_IsObject_def)
    then have "field_of J (cJSON_ReplaceItemInObjectCaseSensitive J ?r ''started'' (cJSON_CreateBool J b)) ''name'' = field_of J ?r ''name''"
      using replace_member_fields [OF assms(1) _ json_good_created(5) [OF assms(1), of b], of ?r "''started''" "''name''"] by simp
    from queue_record_names [OF set this] show ?thesis unfolding run .
  qed (use run names_kept_same [OF assms(2)] in simp)
qed

lemma sync_started_names:
  "cjson_laws J \<Longrightarrow> config_good J (mg_cfg m) \<Longrightarrow> names_kept J m (queue_sync_started_state J E m qid)"
  using set_started_names [of J m E] names_kept_same [of J m m]
  by (simp add: queue_sync_started_state_def split: option.split)

lemma dispatch_cfg:
  assumes "cjson_laws J"
  shows "mg_cfg (queue_dispatch J E m qid) = mg_cfg m"
proof (cases qid)
  case (Some q)
  obtain ids where "submits m ids (queue_dispatch J E m (Some q))" using queue_dispatch_submits [OF assms] by blast
  then show ?thesis using submits_cfg Some by blast
qed (simp add: queue_dispatch_def)

lemma sync_item_names:
  assumes "cjson_laws J" "config_good J (mg_cfg m)"
  shows "names_kept J m (sync_queue_started_for_item_id J E m iid)"
proof (cases "item_index J m iid")
  case (Some i)
  let ?d = "queue_dispatch J E m (item_field J m i ''queueId'')"
  have d: "names_kept J m ?d" by (rule names_kept_same [OF assms(2) dispatch_cfg [OF assms(1)]])
  from names_kept_trans [OF d sync_started_names [OF assms(1) names_kept_good [OF d]]]
  show ?thesis using Some names_kept_same [OF assms(2)] by (simp add: sync_queue_started_for_item_id_def Let_def)
qed (use names_kept_same [OF assms(2)] in \<open>simp add: sync_queue_started_for_item_id_def\<close>)

lemma edit_item_names:
  assumes "cjson_laws J" "config_good J (mg_cfg m)" "good_change J change"
  shows "names_kept J m (snd (edit_item J E m dm_items i change))"
proof (cases "i < length (items_of J m) \<and> cJSON_IsObject J (items_of J m ! i)")
  case True
  obtain rc m' where e: "edit_item J E m dm_items i change = (rc, m')" by fastforce
  from item_record_names [OF edit_item_sets [OF assms(1,2) keys_valid(1) assms(3) True [THEN conjunct1] True [THEN conjunct2] e]]
  show ?thesis using e by simp
next
  case False
  then have "take_object J (mg_cfg m) dm_items i = None"
    unfolding take_object_records [OF assms(1,2), of dm_items i] by (simp only: if_False)
  then show ?thesis using names_kept_same [OF assms(2)] by (simp add: edit_item_def)
qed

lemma update_status_names:
  assumes "cjson_laws J" "config_good J (mg_cfg m)"
  shows "names_kept J m (snd (update_download_item_status J E m iid st))"
proof -
  have same: "names_kept J m m" by (rule names_kept_same [OF assms(2) refl])
  show ?thesis
  proof (cases "st = None \<or> \<not> download_status_is_valid st \<or> item_index J m iid = None")
    case True then show ?thesis using same by (auto simp: update_download_item_status_def split: option.split)
  next
    case False
    then obtain s i where s: "st = Some s" "download_status_is_valid (Some s)" "item_index J m iid = Some i"
      by (cases st) auto
    let ?e = "edit_item J E m dm_items i (renew_member J ''status'' (cJSON_CreateString J s))"
    have e: "names_kept J m (snd ?e)"
      by (rule edit_item_names [OF assms good_change_renew [OF assms(1) json_good_created(3) [OF assms(1)]]])
    from names_kept_trans [OF e sync_item_names [OF assms(1) names_kept_good [OF e]]] e
    show ?thesis using s by (simp add: update_download_item_status_def split_def Let_def)
  qed
qed

lemma forced_spawn_cfg: "mg_cfg (snd (spawn_download_by_id E m iid p f)) = mg_cfg m"
  by (simp add: spawn_download_by_id_def download_pool_submit_def Let_def split_def)

lemma run_command_cases:
  "mg_cfg (snd (run_command J E cmd m iid)) = mg_cfg m
   \<or> (\<exists>i st. iid = Some i \<and> snd (run_command J E cmd m iid) = snd (update_download_item_status J E m i st))"
  by (cases cmd; cases iid)
    (auto simp: download_pause_def download_resume_def download_start_def download_stop_def forced_spawn_cfg flag_job_def
      Let_def split_def split: option.split)

lemma run_command_names:
  assumes "cjson_laws J" "config_good J (mg_cfg m)"
  shows "names_kept J m (snd (run_command J E cmd m iid))"
  using run_command_cases [of J E cmd m iid] names_kept_same [OF assms(2)] update_status_names [OF assms] by metis

lemma stop_loop_names:
  assumes "cjson_laws J"
  shows "config_good J (mg_cfg m) \<Longrightarrow> names_kept J m (stop_loop J E q i n m)"
proof (induction n arbitrary: i m)
  case (Suc n)
  have stop: "names_kept J m (snd (download_stop J E m iid))" for iid
    using run_command_names [OF assms Suc.prems, of E StopCommand iid] by simp
  have "names_kept J m (stop_loop J E q (Suc i) n (snd (download_stop J E m (Some iid))))" for iid
    by (rule names_kept_trans [OF stop Suc.IH [OF names_kept_good [OF stop]]])
  then show ?case using Suc.IH [OF Suc.prems] by (simp split: option.split)
qed (simp add: names_kept_same)

text \<open>Changing the name of one record, adding one and removing one.\<close>

lemma names_distinct_update:
  assumes "names_distinct ns" "i < length ns" "n \<noteq> None \<Longrightarrow> n \<notin> set (take i ns @ drop (Suc i) ns)"
  shows "names_distinct (ns[i := n])"
proof -
  have e: "ns = take i ns @ ns ! i # drop (Suc i) ns" "ns[i := n] = take i ns @ n # drop (Suc i) ns"
    using assms(2) by (simp_all add: id_take_nth_drop upd_conv_take_nth_drop)
  have "distinct (filter (\<lambda>n. n \<noteq> None) (take i ns) @ filter (\<lambda>n. n \<noteq> None) (drop (Suc i) ns))"
    using assms(1) unfolding names_distinct_def by (subst (asm) e(1)) (auto split: if_splits)
  then show ?thesis using assms(3) unfolding names_distinct_def e(2) by auto
qed

lemma names_distinct_snoc: "names_distinct ns \<Longrightarrow> Some n \<notin> set ns \<Longrightarrow> names_distinct (ns @ [Some n])"
  by (simp add: names_distinct_def)

lemma names_distinct_subseq: "names_distinct ns \<Longrightarrow> subseq ms ns \<Longrightarrow> names_distinct ms"
  unfolding names_distinct_def using subseq_filter [of ms ns] by (metis distinct_nthsI subseq_conv_nths)

lemma subseq_delete: "subseq (take i xs @ drop (Suc i) xs) xs"
proof (induction xs arbitrary: i)
  case (Cons x xs) then show ?case by (cases i) auto
qed simp

lemma queue_index_None:
  assumes "cjson_laws J" "queue_find_index J (mg_cfg m) ''name'' (Some n) = None"
  shows "Some n \<notin> set (names_of J m)"
  using assms index_loop_records [OF assms(1), of "mg_cfg m" dm_queues "''name''" n]
  by (auto simp: queue_find_index_def first_match_None names_of_def)

lemma queue_index_Some:
  assumes "cjson_laws J" "queue_find_index J (mg_cfg m) field (Some n) = Some i"
  shows "i < length (queues_of J m) \<and> field_of J (queues_of J m ! i) field = Some n"
proof -
  have "first_match (\<lambda>r. field_of J r field = Some n) (queues_of J m) = Some i"
    using assms index_loop_records [OF assms(1), of "mg_cfg m" dm_queues field n] by (simp add: queue_find_index_def)
  from first_match_Some [OF this] show ?thesis by blast
qed

lemma number_good:
  assumes "cjson_laws J"
  shows "json_good J (cJSON_CreateNumber J (of_nat (unat (n :: u32))))"
proof -
  have "unat n < 4294967296" using unsigned_less [of n] by simp
  then have "unat n < 10 ^ 15" by simp
  then show ?thesis by (rule json_good_number [OF assms, THEN iffD2])
qed

lemma null_variants_good:
  assumes "cjson_laws J"
  shows "json_good J (number_or_null J n)" "json_good J (string_or_null J s)" "json_good J (text_or_null J s)"
  using number_good [OF assms] json_good_created [OF assms] text_or_null_good [OF assms]
  by (simp_all add: number_or_null_def string_or_null_def split: option.split)

lemma queue_object_good:
  assumes "cjson_laws J"
  shows "good_object J (queue_object J qid name opts)" "field_of J (queue_object J qid name opts) ''name'' = Some name"
proof -
  note g = null_variants_good [OF assms] number_good [OF assms] number_good [OF assms, simplified] json_good_created [OF assms]
  show "good_object J (queue_object J qid name opts)"
    unfolding good_object_def queue_object_def Let_def json_add_defs
    by (intro conjI, simp add: assms, rule json_goodI) (simp_all add: assms g)
  show "field_of J (queue_object J qid name opts) ''name'' = Some name"
    by (simp add: queue_object_def Let_def json_add_defs field_of_def assms scalar_created(1) [OF assms])
qed

definition queue_names_ok :: "('j, 't) cjson \<Rightarrow> ('j, 't) manager \<Rightarrow> bool" where
  "queue_names_ok J m \<longleftrightarrow> config_good J (mg_cfg m) \<and> names_distinct (names_of J m)"

lemma names_kept_ok: "queue_names_ok J m \<Longrightarrow> names_kept J m m' \<Longrightarrow> queue_names_ok J m'"
  by (simp add: queue_names_ok_def names_kept_def)

lemma config_write_array_op:
  assumes "cjson_laws J" "config_good J (mg_cfg m)" "valid_key (split_dots key)"
    "\<And>x. op_object J opn = Some x \<Longrightarrow> json_good J x"
    "config_write E m (\<lambda>io cfg. run_array_op J io cfg key opn) = (rc, m')"
  shows "refines_list J (mg_cfg m) key opn (mg_cfg m')"
    "mg_jobs m' = mg_jobs m" "mg_tasks m' = mg_tasks m"
proof -
  obtain cfg' where run: "run_array_op J (me_save E (mg_tick m)) (mg_cfg m) key opn = (rc, cfg')"
    and m': "m' = m\<lparr>mg_cfg := cfg', mg_tick := Suc (mg_tick m)\<rparr>"
    using assms(5) by (cases "run_array_op J (me_save E (mg_tick m)) (mg_cfg m) key opn") (auto simp: config_write_def)
  show "refines_list J (mg_cfg m) key opn (mg_cfg m')"
    using run_array_op_refines [OF assms(1-4) run] m' by simp
  show "mg_jobs m' = mg_jobs m" "mg_tasks m' = mg_tasks m" using m' by simp_all
qed

lemma queue_add_ok:
  assumes "cjson_laws J" "queue_names_ok J m"
  shows "queue_names_ok J (snd (snd (queue_add J E m name opts)))"
proof (cases "\<exists>n. name = Some n \<and> n \<noteq> [] \<and> \<not> length n \<ge> AVAR_QUEUE_NAME_MAX
    \<and> queue_find_index J (mg_cfg m) ''name'' (Some n) = None")
  case False
  then show ?thesis using assms(2) by (auto simp: queue_add_def split: option.split)
next
  case True
  then obtain n where n: "name = Some n" "n \<noteq> []" "\<not> length n \<ge> AVAR_QUEUE_NAME_MAX"
    "queue_find_index J (mg_cfg m) ''name'' (Some n) = None" by blast
  obtain qid m1 where g: "queue_generate_id J E m = (qid, m1)" by fastforce
  then have cfg: "mg_cfg m1 = mg_cfg m" by (auto simp: queue_generate_id_def Let_def split: if_splits)
  have good: "config_good J (mg_cfg m1)" using assms(2) cfg by (simp add: queue_names_ok_def)
  let ?q = "queue_object J qid n opts"
  note q = queue_object_good [OF assms(1), of qid n opts]
  have "json_exact J ?q" using q(1) unfolding good_object_def by (blast intro: json_good_exact)
  from cjson_print(2) [OF assms(1) this] obtain t
    where t: "cJSON_PrintUnformatted J ?q = Some t" "cJSON_Parse J t = Some ?q" by blast
  have p: "parse_object J t = Some ?q" using t(2) q(1) by (simp add: parse_object_def good_object_def cJSON_IsObject_def)
  obtain rc m2 where w: "config_write E m1 (\<lambda>io cfg. run_array_op J io cfg dm_queues (AppendItem t)) = (rc, m2)" by fastforce
  have "refines_list J (mg_cfg m1) dm_queues (AppendItem t) (mg_cfg m2)"
    by (rule config_write_array_op(1) [OF assms(1) good keys_valid(2) _ w]) (use p q(1) in \<open>auto simp: good_object_def\<close>)
  then have m2: "config_good J (mg_cfg m2)" "names_of J m2 = names_of J m @ [Some n]"
    using p q(2) cfg by (simp_all add: refines_list_def names_of_def)
  have "queue_names_ok J m2"
    using m2 assms(2) names_distinct_snoc [OF _ queue_index_None [OF assms(1) n(4)]] by (simp add: queue_names_ok_def)
  then show ?thesis using n g t(1) w by (simp add: queue_add_def queue_build_json_def)
qed

lemma detach_loop_names:
  assumes "cjson_laws J"
  shows "config_good J (mg_cfg m) \<Longrightarrow> names_kept J m (snd (detach_loop J E q i n m))"
proof (induction n arbitrary: i m)
  case (Suc n)
  have g: "good_change J (\<lambda>obj. cJSON_ReplaceItemInObjectCaseSensitive J obj ''queueId'' (cJSON_CreateNull J))"
    by (rule good_change_replace [OF assms json_good_created(4) [OF assms]])
  obtain rc m1 where e: "edit_object J E m dm_items i
      (\<lambda>obj. cJSON_ReplaceItemInObjectCaseSensitive J obj ''queueId'' (cJSON_CreateNull J)) = (rc, m1)" by fastforce
  have one: "names_kept J m m1"
    using edit_object_cases [OF assms Suc.prems keys_valid(1) g e] item_record_names [of J i _ m m1]
      names_kept_same [OF Suc.prems] by blast
  show ?case using names_kept_trans [OF one Suc.IH [OF names_kept_good [OF one]]] one Suc.IH [OF Suc.prems] e
    by (simp split: option.split)
qed (simp add: names_kept_same)

lemma items_op_names:
  assumes "refines_list J (mg_cfg m) dm_items opn (mg_cfg m')"
  shows "names_kept J m m'"
proof -
  have "others_kept J (mg_cfg m) dm_items (mg_cfg m')" "config_good J (mg_cfg m')"
    using assms by (simp_all only: refines_list_def)
  from others_kept_records [OF this(1), of dm_queues] this(2)
  show ?thesis by (simp only: names_kept_def names_of_def keys_unrelated simp_thms)
qed

lemma purge_names:
  assumes "cjson_laws J" "config_good J (mg_cfg m)"
  shows "names_kept J m (snd (queue_purge_items J E m q))"
proof -
  obtain rc m' where w: "config_write E m (\<lambda>io cfg. run_array_op J io cfg dm_items (RemoveItemsWhere ''queueId'' q)) = (rc, m')"
    by fastforce
  from items_op_names [OF config_write_array_op(1) [OF assms keys_valid(1) _ w]] w
  show ?thesis by (simp add: queue_purge_items_def)
qed

lemma queue_remove_ok:
  assumes "cjson_laws J" "queue_names_ok J m"
  shows "queue_names_ok J (snd (queue_remove J E m idn by_name purge))"
proof (cases "idn = None \<or> idn = Some [] \<or> queue_resolve_id J m idn by_name = None")
  case True then show ?thesis using assms(2) by (auto simp: queue_remove_def split: if_splits)
next
  case False
  then obtain n q where n: "idn = Some n" "n \<noteq> []" "queue_resolve_id J m (Some n) by_name = Some q" by (cases idn) auto
  have good: "config_good J (mg_cfg m)" using assms(2) by (simp add: queue_names_ok_def)
  obtain e m1 where one: "(if purge then queue_purge_items J E m q else queue_detach_items J E m q) = (e, m1)" by fastforce
  have "names_kept J m (snd (queue_purge_items J E m q))" "names_kept J m (snd (queue_detach_items J E m q))"
    using purge_names [OF assms(1) good] detach_loop_names [OF assms(1) good] by (simp_all add: queue_detach_items_def)
  then have k: "names_kept J m m1" using one by (cases purge) auto
  note ok = names_kept_ok [OF assms(2) k]
  obtain rc m2 where w: "config_write E m1 (\<lambda>io cfg. run_array_op J io cfg dm_queues (RemoveItem ''id'' q)) = (rc, m2)"
    by fastforce
  have r: "refines_list J (mg_cfg m1) dm_queues (RemoveItem ''id'' q) (mg_cfg m2)"
    by (rule config_write_array_op(1) [OF assms(1) names_kept_good [OF k] keys_valid(2) _ w]) simp
  have "subseq (names_of J m2) (names_of J m1)"
    using r subseq_delete subseq_map [of "take i (queues_of J m1) @ drop (Suc i) (queues_of J m1)" "queues_of J m1" for i]
    by (auto simp: refines_list_def names_of_def split: option.split)
  then have "queue_names_ok J m2"
    using ok r names_distinct_subseq by (auto simp: queue_names_ok_def refines_list_def)
  then show ?thesis using n one w ok by (simp add: queue_remove_def)
qed

lemma patch_member_kept:
  assumes "cjson_laws J" "good_object J r" "\<And>x. v = Some x \<Longrightarrow> json_good J (value_of x)"
  shows "good_object J (patch_member J k value_of v r)"
    "f \<noteq> k \<Longrightarrow> field_of J (patch_member J k value_of v r) f = field_of J r f"
proof -
  show "good_object J (patch_member J k value_of v r)"
    using assms(2) replace_member(1) [OF assms(1,2) assms(3)] by (cases v) (simp_all add: patch_member_def)
  show "field_of J (patch_member J k value_of v r) f = field_of J r f" if "f \<noteq> k"
    using that replace_member_fields [OF assms(1,2) assms(3), of _ k f] by (cases v) (simp_all add: patch_member_def)
qed

lemma apply_patch_name:
  assumes "cjson_laws J" "good_object J r"
  shows "good_object J (apply_patch J patch r)"
    "field_of J (apply_patch J patch r) ''name'' = field_of J (patch_member J ''name'' (string_or_null J) (qp_name patch) r) ''name''"
proof -
  note g = null_variants_good [OF assms(1)]
  note s = patch_member_kept [OF assms(1)]
  define r1 where "r1 = patch_member J ''name'' (string_or_null J) (qp_name patch) r"
  define r2 where "r2 = patch_member J ''description'' (string_or_null J) (qp_description patch) r1"
  define r3 where "r3 = patch_member J ''maxConcurrentDownloads'' (number_or_null J) (qp_max_concurrent_downloads patch) r2"
  define r4 where "r4 = patch_member J ''maxConnections'' (number_or_null J) (qp_max_connections patch) r3"
  define r5 where "r5 = patch_member J ''maxRetries'' (number_or_null J) (qp_max_retries patch) r4"
  define r6 where "r6 = patch_member J ''tempPath'' (text_or_null J) (qp_temp_path patch) r5"
  define r7 where "r7 = patch_member J ''downloadPath'' (text_or_null J) (qp_download_path patch) r6"
  have r: "apply_patch J patch r = r7"
    unfolding apply_patch_def Let_def r7_def r6_def r5_def r4_def r3_def r2_def r1_def ..
  have g1: "good_object J r1" unfolding r1_def by (rule s(1) [OF assms(2)]) (rule g)
  have g2: "good_object J r2" "field_of J r2 ''name'' = field_of J r1 ''name''" unfolding r2_def
    by (rule s(1) [OF g1], rule g, rule s(2) [OF g1], rule g, simp)
  have g3: "good_object J r3" "field_of J r3 ''name'' = field_of J r1 ''name''" unfolding r3_def
    by (rule s(1) [OF g2(1)], rule g, subst s(2) [OF g2(1)], rule g, simp, rule g2(2))
  have g4: "good_object J r4" "field_of J r4 ''name'' = field_of J r1 ''name''" unfolding r4_def
    by (rule s(1) [OF g3(1)], rule g, subst s(2) [OF g3(1)], rule g, simp, rule g3(2))
  have g5: "good_object J r5" "field_of J r5 ''name'' = field_of J r1 ''name''" unfolding r5_def
    by (rule s(1) [OF g4(1)], rule g, subst s(2) [OF g4(1)], rule g, simp, rule g4(2))
  have g6: "good_object J r6" "field_of J r6 ''name'' = field_of J r1 ''name''" unfolding r6_def
    by (rule s(1) [OF g5(1)], rule g, subst s(2) [OF g5(1)], rule g, simp, rule g5(2))
  have g7: "good_object J r7" "field_of J r7 ''name'' = field_of J r1 ''name''" unfolding r7_def
    by (rule s(1) [OF g6(1)], rule g, subst s(2) [OF g6(1)], rule g, simp, rule g6(2))
  show "good_object J (apply_patch J patch r)"
    "field_of J (apply_patch J patch r) ''name'' = field_of J (patch_member J ''name'' (string_or_null J) (qp_name patch) r) ''name''"
    unfolding r using g7 r1_def by simp_all
qed

text \<open>A patch sets the name only when no other queue has it.\<close>

lemma patched_name:
  assumes "cjson_laws J" "good_object J r" "r = queues_of J m ! i" "i < length (queues_of J m)" "queue_names_ok J m"
    "patch_name_error J (mg_cfg m) i (qp_name patch) = QueueErrorNone"
  shows "names_distinct ((names_of J m)[i := field_of J (apply_patch J patch r) ''name''])"
proof -
  let ?ns = "names_of J m" and ?n = "field_of J (patch_member J ''name'' (string_or_null J) (qp_name patch) r) ''name''"
  have d: "names_distinct ?ns" and i: "i < length ?ns" "?ns ! i = field_of J r ''name''"
    using assms(3-5) by (simp_all add: queue_names_ok_def names_of_def)
  have keep: "names_distinct (?ns[i := ?n])" if "?n = field_of J r ''name''"
    using d i that by (metis list_update_id)
  show ?thesis
  proof (cases "qp_name patch")
    case None then show ?thesis using keep apply_patch_name(2) [OF assms(1,2)] by (simp add: patch_member_def)
  next
    case (Some name)
    then obtain n where n: "name = Some n" using assms(6) by (cases name) (simp_all add: patch_name_error_def)
    have f: "?n = (if get_member J r ''name'' \<noteq> None then Some n else field_of J r ''name'')"
      using Some n replace_member_fields [OF assms(1,2) json_good_created(3) [OF assms(1)], of "''name''" n "''name''"]
        scalar_created(1) [OF assms(1)] unfolding patch_member_def string_or_null_def by (simp del: not_None_eq)
    have "Some n \<notin> set (take i ?ns @ drop (Suc i) ?ns)"
    proof (cases "queue_find_index J (mg_cfg m) ''name'' (Some n)")
      case None
      from queue_index_None [OF assms(1) this] show ?thesis by (auto dest: in_set_takeD in_set_dropD)
    next
      case (Some k)
      then have "k = i" using assms(6) n \<open>qp_name patch = Some name\<close>
        by (simp add: patch_name_error_def split: if_splits)
      then have "?ns ! i = Some n" using queue_index_Some [OF assms(1) Some] by (simp add: names_of_def)
      moreover have "?ns = take i ?ns @ ?ns ! i # drop (Suc i) ?ns" using i(1) by (simp add: id_take_nth_drop)
      ultimately have "distinct (filter (\<lambda>n. n \<noteq> None) (take i ?ns @ Some n # drop (Suc i) ?ns))"
        using d unfolding names_distinct_def by metis
      then show ?thesis by auto
    qed
    then have "names_distinct (?ns[i := Some n])" by (intro names_distinct_update [OF d i(1)])
    then show ?thesis using f keep apply_patch_name(2) [OF assms(1,2)] by (simp split: if_splits)
  qed
qed

lemma queue_edit_ok:
  assumes "cjson_laws J" "queue_names_ok J m"
  shows "queue_names_ok J (snd (queue_edit J E m qid patch))"
proof -
  have good: "config_good J (mg_cfg m)" using assms(2) by (simp add: queue_names_ok_def)
  consider (none) "snd (queue_edit J E m qid patch) = m"
    | (put) i p rc where "i < length (queues_of J m)" "cJSON_IsObject J (queues_of J m ! i)"
        "patch_name_error J (mg_cfg m) i (qp_name p) = QueueErrorNone"
        "put_object J E m dm_queues i (apply_patch J p (queues_of J m ! i)) = (rc, snd (queue_edit J E m qid patch))"
  proof (cases "\<exists>p q i. patch = Some p \<and> qid = Some q \<and> q \<noteq> [] \<and> queue_find_index J (mg_cfg m) ''id'' (Some q) = Some i")
    case False
    then show ?thesis by (intro that(1)) (auto simp: queue_edit_def split: option.split)
  next
    case True
    then obtain p q i where e: "patch = Some p" "qid = Some q" "q \<noteq> []"
      "queue_find_index J (mg_cfg m) ''id'' (Some q) = Some i" by blast
    have i: "i < length (queues_of J m)" "cJSON_IsObject J (queues_of J m ! i)"
      using queue_index_Some [OF assms(1) e(4)] field_object [OF assms(1)] by blast+
    have t: "take_object J (mg_cfg m) dm_queues i = Some (queues_of J m ! i)"
      using take_object_records [OF assms(1) good, of dm_queues i] i by simp
    show ?thesis
    proof (cases "patch_name_error J (mg_cfg m) i (qp_name p) = QueueErrorNone")
      case ok: True
      obtain rc m' where "put_object J E m dm_queues i (apply_patch J p (queues_of J m ! i)) = (rc, m')" by fastforce
      then show ?thesis using e i t ok by (intro that(2) [of i p rc]) (simp_all add: queue_edit_def)
    qed (use e i t that(1) in \<open>simp add: queue_edit_def\<close>)
  qed
  then show ?thesis
  proof cases
    case none then show ?thesis using assms(2) by simp
  next
    case put
    have g: "good_object J (queues_of J m ! i)"
      using records_good [OF assms(1) good, of "queues_of J m ! i" dm_queues] put(1,2) by (simp add: good_object_def cJSON_IsObject_def)
    note a = apply_patch_name [OF assms(1) g, of p]
    note s = record_set_simps [OF put_object_sets [OF assms(1) good keys_valid(2) a(1) put(4)]]
    have "names_of J (snd (queue_edit J E m qid patch)) = (names_of J m)[i := field_of J (apply_patch J p (queues_of J m ! i)) ''name'']"
      using s(2) by (simp add: names_of_def map_update)
    then show ?thesis using s(1) patched_name [OF assms(1) g refl put(1) assms(2) put(3)] by (simp add: queue_names_ok_def)
  qed
qed

subsection \<open>Removing a queue\<close>

definition detached :: "('j, 't) cjson \<Rightarrow> string \<Rightarrow> 'j \<Rightarrow> 'j" where
  "detached J q r = (if in_queue J q r then cJSON_ReplaceItemInObjectCaseSensitive J r ''queueId'' (cJSON_CreateNull J) else r)"

lemma in_queue_object: "cjson_laws J \<Longrightarrow> in_queue J q r \<Longrightarrow> cJSON_IsObject J r"
  unfolding in_queue_def by (rule field_object)

lemma detached_fields:
  assumes "cjson_laws J" "json_good J r"
  shows "\<not> in_queue J q (detached J q r)" "f \<noteq> ''queueId'' \<Longrightarrow> field_of J (detached J q r) f = field_of J r f"
    "in_queue J p (detached J q r) \<Longrightarrow> in_queue J p r"
proof -
  have "good_object J r" if "in_queue J q r"
    using in_queue_object [OF assms(1) that] assms(2) by (simp add: good_object_def cJSON_IsObject_def)
  note f = replace_member_fields [OF assms(1) this json_good_created(4) [OF assms(1)], of "''queueId''"]
  have m: "get_member J r ''queueId'' \<noteq> None" if "in_queue J q r"
    using that unfolding in_queue_def field_of_def by (metis scalar_None option.distinct(1))
  have n: "field_of J (detached J q r) ''queueId'' = (if in_queue J q r then None else field_of J r ''queueId'')"
    using f [of "''queueId''"] m scalar_created(2) [OF assms(1)] by (simp add: detached_def)
  show "\<not> in_queue J q (detached J q r)" using n by (auto simp: in_queue_def)
  show "in_queue J p (detached J q r) \<Longrightarrow> in_queue J p r" using n by (auto simp: in_queue_def split: if_splits)
  show "f \<noteq> ''queueId'' \<Longrightarrow> field_of J (detached J q r) f = field_of J r f"
    using f [of f] by (simp add: detached_def)
qed

lemma items_record_queues:
  assumes "record_set J dm_items i r m m'"
  shows "queues_of J m' = queues_of J m"
proof -
  have "others_kept J (mg_cfg m) dm_items (mg_cfg m')" using assms by (simp only: record_set_def)
  from others_kept_records [OF this, of dm_queues] show ?thesis by (simp only: keys_unrelated)
qed

lemma detach_loop_items:
  assumes "cjson_laws J"
  shows "config_good J (mg_cfg m) \<Longrightarrow> i + n = length (items_of J m) \<Longrightarrow> detach_loop J E q i n m = (QueueErrorNone, m') \<Longrightarrow>
    config_good J (mg_cfg m') \<and> queues_of J m' = queues_of J m
    \<and> items_of J m' = take i (items_of J m) @ map (detached J q) (drop i (items_of J m))"
proof (induction n arbitrary: i m)
  case (Suc n)
  let ?rs = "items_of J m"
  have i: "i < length ?rs" using Suc.prems(2) by simp
  have d: "drop i ?rs = ?rs ! i # drop (Suc i) ?rs" "take (Suc i) ?rs = take i ?rs @ [?rs ! i]"
    using i by (simp_all add: Cons_nth_drop_Suc take_Suc_conv_app_nth)
  note f = item_field_records [OF assms i]
  show ?case
  proof (cases "in_queue J q (?rs ! i)")
    case False
    then have "detach_loop J E q (Suc i) n m = (QueueErrorNone, m')" using Suc.prems(3) f by (simp add: in_queue_def)
    from Suc.IH [OF Suc.prems(1) _ this] Suc.prems(2) False d show ?thesis by (simp add: detached_def)
  next
    case True
    let ?change = "\<lambda>obj. cJSON_ReplaceItemInObjectCaseSensitive J obj ''queueId'' (cJSON_CreateNull J)"
    have g: "good_change J ?change" by (rule good_change_replace [OF assms json_good_created(4) [OF assms]])
    obtain rc m1 where e: "edit_object J E m dm_items i ?change = (rc, m1)" by fastforce
    have rest: "detach_loop J E q (Suc i) n m1 = (QueueErrorNone, m')" and rc: "rc = QueueErrorNone"
      using Suc.prems(3) f True e by (simp_all add: in_queue_def split: if_splits)
    have set: "record_set J dm_items i (?change (?rs ! i)) m m1"
      using edit_object_cases [OF assms Suc.prems(1) keys_valid(1) g e] rc by blast
    note s = record_set_simps [OF set] and q = items_record_queues [OF set]
    have "items_of J m1 = ?rs[i := detached J q (?rs ! i)]" using s(2) True by (simp add: detached_def)
    then have "take (Suc i) (items_of J m1) = take i ?rs @ [detached J q (?rs ! i)]"
      "drop (Suc i) (items_of J m1) = drop (Suc i) ?rs" "Suc i + n = length (items_of J m1)"
      using i Suc.prems(2) by (simp_all add: take_Suc_conv_app_nth)
    then show ?thesis using Suc.IH [OF s(1) _ rest] q d(1) by simp
  qed
qed simp

lemma items_op_queues:
  assumes "refines_list J (mg_cfg m) dm_items opn (mg_cfg m')"
  shows "queues_of J m' = queues_of J m"
proof -
  have "others_kept J (mg_cfg m) dm_items (mg_cfg m')" using assms by (simp only: refines_list_def)
  from others_kept_records [OF this, of dm_queues] show ?thesis by (simp only: keys_unrelated)
qed

lemma matches_in_queue:
  assumes "cjson_laws J" "item_matches J ''queueId'' q r"
  shows "in_queue J q r"
  using assms by (auto simp: item_matches_def in_queue_def field_of_def config_scalar_to_string_def split: if_splits option.splits)

lemma queue_remove_effect:
  assumes "cjson_laws J" "config_good J (mg_cfg m)"
    "queue_remove J E m (Some idn) by_name purge = (QueueErrorNone, m')"
  shows "\<exists>q. queue_resolve_id J m (Some idn) by_name = Some q
    \<and> items_of J m' = (if purge then filter (\<lambda>r. \<not> item_matches J ''queueId'' q r) (items_of J m)
                       else map (detached J q) (items_of J m))
    \<and> queues_of J m' = list_op J (RemoveItem ''id'' q) (queues_of J m)"
proof -
  obtain q where q: "idn \<noteq> []" "queue_resolve_id J m (Some idn) by_name = Some q"
    using assms(3) by (auto simp: queue_remove_def split: if_splits option.splits)
  obtain e m1 where one: "(if purge then queue_purge_items J E m q else queue_detach_items J E m q) = (e, m1)" by fastforce
  obtain rc m2 where w: "config_write E m1 (\<lambda>io cfg. run_array_op J io cfg dm_queues (RemoveItem ''id'' q)) = (rc, m2)"
    by fastforce
  have e: "e = QueueErrorNone" "m' = m2" using assms(3) q one w by (simp_all add: queue_remove_def split: if_splits)
  have m1: "config_good J (mg_cfg m1) \<and> queues_of J m1 = queues_of J m
      \<and> items_of J m1 = (if purge then filter (\<lambda>r. \<not> item_matches J ''queueId'' q r) (items_of J m)
                         else map (detached J q) (items_of J m))"
  proof (cases purge)
    case True
    obtain rc1 where p: "config_write E m (\<lambda>io cfg. run_array_op J io cfg dm_items (RemoveItemsWhere ''queueId'' q)) = (rc1, m1)"
      using one True by (auto simp: queue_purge_items_def split: prod.splits)
    have r: "refines_list J (mg_cfg m) dm_items (RemoveItemsWhere ''queueId'' q) (mg_cfg m1)"
      by (rule config_write_array_op(1) [OF assms(1,2) keys_valid(1) _ p]) simp
    from items_op_queues [OF r] r True show ?thesis by (simp add: refines_list_def)
  next
    case False
    then have "detach_loop J E q 0 (length (items_of J m)) m = (QueueErrorNone, m1)"
      using one e(1) by (simp add: queue_detach_items_def array_size_records)
    from detach_loop_items [OF assms(1,2) _ this] False show ?thesis by simp
  qed
  have r: "refines_list J (mg_cfg m1) dm_queues (RemoveItem ''id'' q) (mg_cfg m2)"
    by (rule config_write_array_op(1) [OF assms(1) m1 [THEN conjunct1] keys_valid(2) _ w]) simp
  have "others_kept J (mg_cfg m1) dm_queues (mg_cfg m2)" using r by (simp only: refines_list_def)
  from others_kept_records [OF this, of dm_items] have "items_of J m2 = items_of J m1" by (simp only: keys_unrelated)
  moreover have "queues_of J m2 = list_op J (RemoveItem ''id'' q) (queues_of J m)"
    using r m1 by (simp only: refines_list_def)
  ultimately show ?thesis using q(2) m1 e(2) by (intro exI [of _ q]) simp
qed

subsection \<open>The flag of a queue\<close>

lemma is_started_records:
  assumes "cjson_laws J" "config_good J (mg_cfg m)"
  shows "queue_is_started J m (Some q) \<longleftrightarrow> q \<noteq> [] \<and>
    (\<exists>i v. first_match (\<lambda>r. field_of J r ''id'' = Some q) (queues_of J m) = Some i
       \<and> get_member J (queues_of J m ! i) ''started'' = Some v \<and> cJSON_IsTrue J v)"
proof (cases "first_match (\<lambda>r. field_of J r ''id'' = Some q) (queues_of J m)")
  case None
  then show ?thesis using index_loop_records [OF assms(1), of "mg_cfg m" dm_queues "''id''" q]
    by (simp add: queue_is_started_def queue_find_index_def)
next
  case (Some i)
  have "i < length (queues_of J m) \<and> cJSON_IsObject J (queues_of J m ! i)"
    using first_match_Some [OF Some] field_object [OF assms(1)] by blast
  then have "take_object J (mg_cfg m) dm_queues i = Some (queues_of J m ! i)" "cJSON_IsObject J (queues_of J m ! i)"
    using take_object_records [OF assms, of dm_queues i] by simp_all
  then show ?thesis using Some index_loop_records [OF assms(1), of "mg_cfg m" dm_queues "''id''" q]
    by (simp add: queue_is_started_def queue_find_index_def split: option.split)
qed

lemma first_match_update:
  "i < length xs \<Longrightarrow> P x = P (xs ! i) \<Longrightarrow> first_match P (xs[i := x]) = first_match P xs"
  by (induction xs arbitrary: i) (auto split: nat.split)

text \<open>Setting the flag: afterwards the queue is started just when it was asked for and has the member.\<close>

lemma set_started_flag:
  assumes "cjson_laws J" "config_good J (mg_cfg m)"
  shows "queue_is_started J (snd (queue_set_started J E m (Some q) b)) (Some q) \<longleftrightarrow> b \<and> q \<noteq> [] \<and>
    (\<exists>i. first_match (\<lambda>r. field_of J r ''id'' = Some q) (queues_of J m) = Some i
       \<and> get_member J (queues_of J m ! i) ''started'' \<noteq> None)"
proof (cases "q = [] \<or> first_match (\<lambda>r. field_of J r ''id'' = Some q) (queues_of J m) = None")
  case True
  then have "snd (queue_set_started J E m (Some q) b) = m"
    using index_loop_records [OF assms(1), of "mg_cfg m" dm_queues "''id''" q]
    by (auto simp: queue_set_started_def queue_find_index_def)
  then show ?thesis using True is_started_records [OF assms, of q] by auto
next
  case False
  then obtain i where i: "first_match (\<lambda>r. field_of J r ''id'' = Some q) (queues_of J m) = Some i" by blast
  let ?r = "queues_of J m ! i" and ?v = "cJSON_CreateBool J b"
  let ?r' = "cJSON_ReplaceItemInObjectCaseSensitive J ?r ''started'' ?v"
  have o: "i < length (queues_of J m)" "cJSON_IsObject J ?r"
    using first_match_Some [OF i] field_object [OF assms(1)] by blast+
  have g: "good_object J ?r"
    using records_good [OF assms, of ?r dm_queues] o by (simp add: good_object_def cJSON_IsObject_def)
  note rep = replace_member(2) [OF assms(1) g json_good_created(5) [OF assms(1)], of "''started''" b]
  obtain rc m' where e: "edit_object J E m dm_queues i (\<lambda>obj. cJSON_ReplaceItemInObjectCaseSensitive J obj ''started'' ?v) = (rc, m')"
    by fastforce
  have run: "snd (queue_set_started J E m (Some q) b) = m'"
    using i e False index_loop_records [OF assms(1), of "mg_cfg m" dm_queues "''id''" q]
    by (simp add: queue_set_started_def queue_find_index_def)
  have "record_set J dm_queues i ?r' m m'"
    using edit_object_sets [OF assms keys_valid(2) started_change_good [OF assms(1)] e] o by simp
  note s = record_set_simps [OF this]
  have "field_of J ?r' ''id'' = field_of J ?r ''id''" using rep [of "''id''"] by (simp add: field_of_def)
  then have "first_match (\<lambda>r. field_of J r ''id'' = Some q) (queues_of J m') = Some i"
    using i o(1) s(2) first_match_update [of i "queues_of J m" "\<lambda>r. field_of J r ''id'' = Some q" ?r'] by simp
  moreover have "get_member J (queues_of J m' ! i) ''started'' = (if get_member J ?r ''started'' \<noteq> None then Some ?v else None)"
    using s(2) o(1) rep [of "''started''"] by (simp split: if_splits)
  moreover have "cJSON_IsTrue J ?v = b" using assms(1) by (simp add: cJSON_IsTrue_def)
  ultimately show ?thesis unfolding run is_started_records [OF assms(1) s(1)] using i False by (auto split: if_splits)
qed

lemma running_work_records:
  assumes "cjson_laws J"
  shows "queue_has_running_work J m q \<longleftrightarrow>
    (\<exists>r\<in>set (items_of J m). in_queue J q r \<and> queue_item_keeps_running (field_of J r ''status''))"
proof -
  have "queue_has_running_work J m q \<longleftrightarrow> (\<exists>i<length (items_of J m). in_queue J q (items_of J m ! i)
      \<and> queue_item_keeps_running (field_of J (items_of J m ! i) ''status''))"
    using item_field_records [OF assms] by (auto simp: queue_has_running_work_def list_ex_iff array_size_records in_queue_def)
  then show ?thesis by (metis in_set_conv_nth)
qed

subsection \<open>What a stopped queue leaves\<close>

text \<open>An item that needs no more: not downloading or paused, or its job was told to stop.\<close>

definition stop_done :: "('j, 't) cjson \<Rightarrow> ('j, 't) manager \<Rightarrow> string \<Rightarrow> 'j \<Rightarrow> bool" where
  "stop_done J m q r \<longleftrightarrow> \<not> in_queue J q r \<or> \<not> queue_item_should_stop (field_of J r ''status'') \<or> field_of J r ''id'' = None
     \<or> (\<exists>k j. active_jobs_find m (the (field_of J r ''id'')) = Some k \<and> mg_jobs m ! k = Some j \<and> aj_cancel_requested j)"

lemma slot_loop_Some: "slot_loop test xs i = Some k \<Longrightarrow> i \<le> k \<and> k < i + length xs \<and> test (xs ! (k - i))"
proof (induction xs arbitrary: i)
  case (Cons x xs)
  show ?case
  proof (cases "test x")
    case False
    then have "Suc i \<le> k \<and> k < Suc i + length xs \<and> test (xs ! (k - Suc i))"
      using Cons.IH [of "Suc i"] Cons.prems False by simp
    then show ?thesis by (simp add: nth_Cons')
  qed (use Cons.prems in auto)
qed simp

lemma slot_loop_update:
  "k < length xs \<Longrightarrow> test x = test (xs ! k) \<Longrightarrow> slot_loop test (xs[k := x]) i = slot_loop test xs i"
  by (induction xs arbitrary: i k) (auto split: nat.split)

lemma cancel_flag:
  assumes "active_jobs_find m iid = Some k"
  defines "m' \<equiv> flag_job (aj_cancel_requested_update (\<lambda>_. True)) k m"
  shows "active_jobs_find m' x = active_jobs_find m x" "\<exists>j. mg_jobs m' ! k = Some j \<and> aj_cancel_requested j"
    "mg_jobs m ! p = Some j \<Longrightarrow> aj_cancel_requested j \<Longrightarrow> \<exists>j'. mg_jobs m' ! p = Some j' \<and> aj_cancel_requested j'"
proof -
  have k: "k < length (mg_jobs m)" "\<exists>j. mg_jobs m ! k = Some j"
    using slot_loop_Some [OF assms(1) [unfolded active_jobs_find_def]] by (auto split: option.splits)
  show "active_jobs_find m' x = active_jobs_find m x"
    using k(2) slot_loop_update [OF k(1), of "\<lambda>x'. case x' of None \<Rightarrow> False | Some j \<Rightarrow> aj_item_id j = x"]
    by (auto simp: active_jobs_find_def m'_def flag_job_def)
  show "\<exists>j. mg_jobs m' ! k = Some j \<and> aj_cancel_requested j"
    using k by (auto simp: m'_def flag_job_def)
  show "\<exists>j'. mg_jobs m' ! p = Some j' \<and> aj_cancel_requested j'" if "mg_jobs m ! p = Some j" "aj_cancel_requested j"
    using that k by (cases "p = k") (auto simp: m'_def flag_job_def)
qed

lemma stop_step:
  fixes J :: "('j, 't) cjson" and E :: "'t manager_env"
  assumes "cjson_laws J" "config_good J (mg_cfg m)" "unique_field J ''id'' (items_of J m)"
    "i < length (items_of J m)" "field_of J (items_of J m ! i) ''id'' = Some iid"
  defines "m1 \<equiv> snd (download_stop J E m (Some iid))"
  shows "config_good J (mg_cfg m1)" "unique_field J ''id'' (items_of J m1)" "length (items_of J m1) = length (items_of J m)"
    "stop_done J m1 q (items_of J m1 ! i)"
    "k \<noteq> i \<Longrightarrow> stop_done J m q (items_of J m ! k) \<Longrightarrow> stop_done J m1 q (items_of J m1 ! k)"
proof -
  have f: "found_item J m iid = Some i" unfolding found_item_def by (rule unique_first_match [OF assms(3-5)])
  obtain rc where run: "run_command J E StopCommand m (Some iid) = (rc, m1)"
    unfolding m1_def by (cases "download_stop J E m (Some iid)") simp
  have eff: "has_effect J iid (command_table StopCommand (active_jobs_find m iid \<noteq> None) (found_status J m iid)) m rc m1"
    by (rule command_effects [OF assms(1,2) run])
  have "config_good J (mg_cfg m1) \<and> unique_field J ''id'' (items_of J m1) \<and> length (items_of J m1) = length (items_of J m)
      \<and> stop_done J m1 q (items_of J m1 ! i)
      \<and> (k \<noteq> i \<longrightarrow> stop_done J m q (items_of J m ! k) \<longrightarrow> stop_done J m1 q (items_of J m1 ! k))"
  proof (cases "active_jobs_find m iid")
    case (Some p)
    then have m1: "m1 = flag_job (aj_cancel_requested_update (\<lambda>_. True)) p m" using eff by simp
    have c: "mg_cfg m1 = mg_cfg m" by (simp add: m1 flag_job_def)
    note fl = cancel_flag [OF Some, folded m1]
    show ?thesis using assms(2-5) c fl(1,2) Some fl(3) by (auto simp: stop_done_def)
  next
    case None
    let ?r = "items_of J m ! i"
    let ?r' = "renew_member J ''status'' (cJSON_CreateString J ''stopped'') ?r"
    have e: "mg_jobs m1 = mg_jobs m" "config_good J (mg_cfg m1)" "items_of J m1 = (items_of J m)[i := ?r']"
      using eff None f by (auto simp: found_status_def)
    have g: "good_object J ?r"
      using records_good [OF assms(1,2), of ?r dm_items] assms(4) field_object [OF assms(1,5)]
      by (simp add: good_object_def cJSON_IsObject_def)
    note rf = renew_member_fields(2) [OF assms(1) g json_good_created(3) [OF assms(1)], of "''status''" "''stopped''"]
    have st: "field_of J ?r' ''status'' = Some ''stopped''" and ids: "field_of J ?r' ''id'' = field_of J ?r ''id''"
      using rf [of "''status''"] rf [of "''id''"] scalar_created(1) [OF assms(1)] by simp_all
    have same: "field_of J (items_of J m1 ! x) ''id'' = field_of J (items_of J m ! x) ''id''" for x
      using e(3) ids assms(4) by (cases "x = i") simp_all
    have "active_jobs_find m1 = active_jobs_find m" using e(1) by (simp add: active_jobs_find_def fun_eq_iff)
    then show ?thesis using e assms(3,4) same st by (auto simp: stop_done_def queue_item_should_stop_def unique_field_def)
  qed
  then show "config_good J (mg_cfg m1)" "unique_field J ''id'' (items_of J m1)" "length (items_of J m1) = length (items_of J m)"
    "stop_done J m1 q (items_of J m1 ! i)"
    "k \<noteq> i \<Longrightarrow> stop_done J m q (items_of J m ! k) \<Longrightarrow> stop_done J m1 q (items_of J m1 ! k)" by blast+
qed

lemma stop_loop_done:
  assumes "cjson_laws J"
  shows "config_good J (mg_cfg m) \<Longrightarrow> unique_field J ''id'' (items_of J m) \<Longrightarrow> i + n = length (items_of J m) \<Longrightarrow>
    (\<forall>k<i. stop_done J m q (items_of J m ! k)) \<Longrightarrow>
    config_good J (mg_cfg (stop_loop J E q i n m))
    \<and> (\<forall>r\<in>set (items_of J (stop_loop J E q i n m)). stop_done J (stop_loop J E q i n m) q r)"
proof (induction n arbitrary: i m)
  case 0 then show ?case by (auto simp: in_set_conv_nth)
next
  case (Suc n)
  have i: "i < length (items_of J m)" using Suc.prems(3) by simp
  note f = item_field_records [OF assms i]
  show ?case
  proof (cases "in_queue J q (items_of J m ! i) \<and> queue_item_should_stop (field_of J (items_of J m ! i) ''status'')
      \<and> field_of J (items_of J m ! i) ''id'' \<noteq> None")
    case False
    then have d: "stop_done J m q (items_of J m ! i)" unfolding stop_done_def by blast
    have run: "stop_loop J E q i (Suc n) m = stop_loop J E q (Suc i) n m"
      using False f by (cases "field_of J (items_of J m ! i) ''id''") (simp_all add: in_queue_def)
    have "\<forall>k<Suc i. stop_done J m q (items_of J m ! k)" using d Suc.prems(4) by (simp add: less_Suc_eq)
    from Suc.IH [OF Suc.prems(1,2) _ this] Suc.prems(3) run show ?thesis by simp
  next
    case q: True
    then obtain iid where iid: "field_of J (items_of J m ! i) ''id'' = Some iid" by blast
    let ?m1 = "snd (download_stop J E m (Some iid))"
    have run: "stop_loop J E q i (Suc n) m = stop_loop J E q (Suc i) n ?m1" using q f iid by (simp add: in_queue_def)
    note s = stop_step [OF assms Suc.prems(1,2) i iid, where E = E]
    have "\<forall>k<Suc i. stop_done J ?m1 q (items_of J ?m1 ! k)"
    proof (intro allI impI)
      fix k assume "k < Suc i"
      then show "stop_done J ?m1 q (items_of J ?m1 ! k)"
        using s(4) [where q = q] s(5) [where k = k and q = q] Suc.prems(4) by (cases "k = i") simp_all
    qed
    from Suc.IH [OF s(1,2) _ this] Suc.prems(3) s(3) show ?thesis unfolding run by simp
  qed
qed

lemma queue_stop_result:
  assumes "cjson_laws J" "config_good J (mg_cfg m)"
  shows "\<not> queue_is_started J (snd (queue_stop J E m (Some q))) (Some q)"
proof (cases "q = [] \<or> queue_find_index J (mg_cfg m) ''id'' (Some q) = None")
  case True then show ?thesis by (auto simp: queue_stop_def queue_is_started_def)
next
  case False
  let ?m1 = "stop_loop J E q 0 (get_config_array_size J (mg_cfg m) dm_items) m"
  have "config_good J (mg_cfg ?m1)" by (rule names_kept_good [OF stop_loop_names [OF assms]])
  from set_started_flag [OF assms(1) this, of E q False] show ?thesis using False by (auto simp: queue_stop_def)
qed

subsection \<open>Properties\<close>

text \<open>The operations that touch queues.\<close>

datatype queue_call = AddQueue cstring "QueueOptions option" | RemoveQueue cstring bool bool
  | EditQueue cstring "QueuePatch option" | StartQueue cstring | StopQueue cstring | DispatchQueue cstring
  | SyncQueue cstring | ItemCommand command cstring | ItemStatus string cstring

fun run_queue_call :: "('j, 't) cjson \<Rightarrow> 't manager_env \<Rightarrow> queue_call \<Rightarrow> ('j, 't) manager \<Rightarrow> ('j, 't) manager" where
  "run_queue_call J E (AddQueue name opts) m = snd (snd (queue_add J E m name opts))"
| "run_queue_call J E (RemoveQueue idn by_name purge) m = snd (queue_remove J E m idn by_name purge)"
| "run_queue_call J E (EditQueue qid patch) m = snd (queue_edit J E m qid patch)"
| "run_queue_call J E (StartQueue qid) m = snd (queue_start J E m qid)"
| "run_queue_call J E (StopQueue qid) m = snd (queue_stop J E m qid)"
| "run_queue_call J E (DispatchQueue qid) m = queue_dispatch J E m qid"
| "run_queue_call J E (SyncQueue qid) m = queue_sync_started_state J E m qid"
| "run_queue_call J E (ItemCommand cmd iid) m = snd (run_command J E cmd m iid)"
| "run_queue_call J E (ItemStatus iid st) m = snd (update_download_item_status J E m iid st)"

lemma queue_call_ok:
  assumes "cjson_laws J" "queue_names_ok J m"
  shows "queue_names_ok J (run_queue_call J E c m)"
proof -
  have good: "config_good J (mg_cfg m)" using assms(2) by (simp add: queue_names_ok_def)
  note kept = names_kept_ok [OF assms(2)] and same = names_kept_same [OF good]
  show ?thesis
  proof (cases c)
    case (StartQueue qid)
    have s: "names_kept J m (snd (queue_set_started J E m qid True))" by (rule set_started_names [OF assms(1) good])
    have "names_kept J m (queue_dispatch J E (snd (queue_set_started J E m qid True)) qid)"
      by (rule names_kept_trans [OF s names_kept_same [OF names_kept_good [OF s] dispatch_cfg [OF assms(1)]]])
    then show ?thesis using StartQueue s kept same by (auto simp: queue_start_def split_def Let_def)
  next
    case (StopQueue qid)
    have l: "names_kept J m (stop_loop J E q i n m)" for q i n by (rule stop_loop_names [OF assms(1) good])
    have "names_kept J m (snd (queue_set_started J E (stop_loop J E q i n m) p False))" for q i n p
      by (rule names_kept_trans [OF l set_started_names [OF assms(1) names_kept_good [OF l]]])
    then show ?thesis using StopQueue kept same by (auto simp: queue_stop_def split: option.split)
  next
    case DispatchQueue then show ?thesis using kept [OF same [OF dispatch_cfg [OF assms(1)]]] by simp
  qed (use assms queue_add_ok queue_remove_ok queue_edit_ok kept sync_started_names [OF assms(1) good]
      run_command_names [OF assms(1) good] update_status_names [OF assms(1) good] in auto)
qed

text \<open>C36. Names of queues stay distinct: from a configuration in which no two queues share a name, every sequence of
  operations on queues and of commands and status changes on items, also failing ones, leads to such a
  configuration.\<close>

theorem queue_names_stay_distinct:
  assumes "cjson_laws J" "queue_names_ok J m"
  shows "queue_names_ok J (fold (run_queue_call J E) calls m)"
  using assms(2) by (induction calls arbitrary: m) (simp_all add: queue_call_ok [OF assms(1)])

theorem queue_names_stay_distinct_witness:
  "queue_names_ok sample_cjson (fold (run_queue_call sample_cjson sample_manager_env)
     [AddQueue (Some ''n'') None, AddQueue (Some ''x'') None, StartQueue (Some ''q'')] sample_manager)"
  by (rule queue_names_stay_distinct [OF sample_cjson_laws])
    (simp add: queue_names_ok_def sample_manager_good names_of_def sample_records sample_fields names_distinct_def)

text \<open>C37. Removing a queue takes its record out and leaves no item in it: with purging the items of the queue are
  removed and no other, without it they stay, lose their queue and keep every other field.\<close>

theorem queue_remove_correct:
  assumes "cjson_laws J" "config_good J (mg_cfg m)"
    "queue_remove J E m (Some idn) by_name purge = (QueueErrorNone, m')"
  shows "\<exists>q. queue_resolve_id J m (Some idn) by_name = Some q
    \<and> items_of J m' = (if purge then filter (\<lambda>r. \<not> item_matches J ''queueId'' q r) (items_of J m)
                       else map (detached J q) (items_of J m))
    \<and> queues_of J m' = list_op J (RemoveItem ''id'' q) (queues_of J m)
    \<and> (\<forall>r\<in>set (items_of J m). \<not> in_queue J q (detached J q r)
          \<and> (\<forall>f. f \<noteq> ''queueId'' \<longrightarrow> field_of J (detached J q r) f = field_of J r f))"
  using queue_remove_effect [OF assms] detached_fields(1,2) [OF assms(1) records_good [OF assms(1,2)]] by blast

definition small_manager :: "(json_value, json_value) manager" where
  "small_manager = sample_manager\<lparr>mg_cfg := \<lparr>cfg_tree = JV_Object [(''dm'', JV_Object
     [(''items'', JV_Array [sample_item ''a'' ''q'' ''queued'']), (''queues'', JV_Array [JV_Object [(''id'', JV_String ''q'')]])])],
     cfg_path = ''c'', cfg_fs = Map.empty\<rparr>\<rparr>"

lemma small_purge:
  "with_parent sample_cjson False (cfg_tree (mg_cfg small_manager)) [''dm'', ''items'']
     (in_array sample_cjson False (\<lambda>arr. let (arr, n) = remove_where_loop sample_cjson ''queueId'' ''q'' arr
        (cJSON_GetArraySize sample_cjson arr) 0 in (arr, Some n)))
   = (JV_Object [(''dm'', JV_Object [(''items'', JV_Array []), (''queues'', JV_Array [JV_Object [(''id'', JV_String ''q'')]])])], Some 1)"
  by (simp add: small_manager_def sample_item_def sample_cjson_def json_kind_defs in_array_def item_matches_def cJSON_GetArraySize_def)

lemma small_delete:
  "with_parent sample_cjson False
     (JV_Object [(''dm'', JV_Object [(''items'', JV_Array []), (''queues'', JV_Array [JV_Object [(''id'', JV_String ''q'')]])])])
     [''dm'', ''queues''] (in_array sample_cjson False (change_first_match sample_cjson ''id'' ''q'' (cJSON_DeleteItemFromArray sample_cjson)))
   = (JV_Object [(''dm'', JV_Object [(''items'', JV_Array []), (''queues'', JV_Array [])])], Some ())"
  by (simp add: sample_cjson_def json_kind_defs in_array_def change_first_match_def item_matches_def)

lemma sample_commit:
  "fst (commit sample_cjson sample_save_io cfg (tree, Some x)) = 0"
  by (simp add: commit_def persist_config_def) (simp add: sample_cjson_def replace_via_temp_def sample_save_io_def Let_def)

theorem queue_remove_correct_witness:
  "\<exists>m'. queue_remove sample_cjson sample_manager_env small_manager (Some ''q'') False True = (QueueErrorNone, m')
     \<and> items_of sample_cjson m' = []"
proof -
  obtain e m' where r: "queue_remove sample_cjson sample_manager_env small_manager (Some ''q'') False True = (e, m')" by fastforce
  have rec: "items_of sample_cjson small_manager = [sample_item ''a'' ''q'' ''queued'']"
    "queues_of sample_cjson small_manager = [JV_Object [(''id'', JV_String ''q'')]]"
    by (simp_all add: records_def config_node_def valid_key_def small_manager_def sample_cjson_def json_kind_defs)
  have good: "config_good sample_cjson (mg_cfg small_manager)"
    by (simp add: config_good_def good_object_def small_manager_def sample_item_def sample_good_simps)
      (simp add: sample_cjson_def)
  have f: "field_of sample_cjson (JV_Object [(''id'', JV_String ''q'')]) ''id'' = Some ''q''"
    by (simp add: field_of_def sample_cjson_def config_scalar_to_string_def json_kind_defs)
  have q: "queue_resolve_id sample_cjson small_manager (Some ''q'') False = Some ''q''"
    using array_field_records [OF sample_cjson_laws, of "mg_cfg small_manager" dm_queues 0 "''id''"]
      index_loop_records [OF sample_cjson_laws, of "mg_cfg small_manager" dm_queues "''id''" "''q''"]
    by (simp add: queue_resolve_id_def queue_find_index_def rec f)
  obtain m1 where m1: "queue_purge_items sample_cjson sample_manager_env small_manager ''q'' = (QueueErrorNone, m1)"
    "cfg_tree (mg_cfg m1) = JV_Object [(''dm'', JV_Object [(''items'', JV_Array []), (''queues'', JV_Array [JV_Object [(''id'', JV_String ''q'')]])])]"
    using small_purge
    by (simp add: sample_commit queue_purge_items_def config_write_def remove_config_array_items_where_def sample_manager_env_def split_def
        Let_def del: with_parent.simps)
  have "e = QueueErrorNone"
    using r m1 small_delete
    by (simp add: sample_commit queue_remove_def q config_write_def remove_config_array_item_def commit_found_def sample_manager_env_def split_def
        Let_def del: with_parent.simps)
  then show ?thesis using queue_remove_correct [OF sample_cjson_laws good, of sample_manager_env "''q''" False True m'] r q
    by (simp add: rec) (simp add: sample_cjson_def sample_item_def item_matches_def json_kind_defs)
qed

text \<open>The flag of a queue: after starting a queue that has the flag it is started, after stopping it it is not,
  whatever the disk answers, and after synchronizing only a queue with an item that is downloading or
  queued is still started.\<close>

theorem queue_flag_correct:
  assumes "cjson_laws J" "config_good J (mg_cfg m)"
  shows "\<not> queue_is_started J (snd (queue_stop J E m (Some q))) (Some q)
    \<and> (queue_is_started J (queue_sync_started_state J E m (Some q)) (Some q)
         \<longrightarrow> queue_has_running_work J (queue_sync_started_state J E m (Some q)) q)
    \<and> (queue_is_started J (snd (queue_set_started J E m (Some q) True)) (Some q) \<longleftrightarrow>
         q \<noteq> [] \<and> (\<exists>i. first_match (\<lambda>r. field_of J r ''id'' = Some q) (queues_of J m) = Some i
           \<and> get_member J (queues_of J m ! i) ''started'' \<noteq> None))"
proof (intro conjI)
  show "\<not> queue_is_started J (snd (queue_stop J E m (Some q))) (Some q)" by (rule queue_stop_result [OF assms])
  let ?s = "queue_sync_started_state J E m (Some q)"
  show "queue_is_started J ?s (Some q) \<longrightarrow> queue_has_running_work J ?s q"
  proof (cases "queue_is_started J m (Some q) \<and> \<not> queue_has_running_work J m q \<and> q \<noteq> []")
    case True
    then have "?s = snd (queue_set_started J E m (Some q) False)" by (simp add: queue_sync_started_state_def)
    then show ?thesis using set_started_flag [OF assms, of E q False] by simp
  next
    case False
    have "q \<noteq> []" if "queue_is_started J m (Some q)" using that by (auto simp: queue_is_started_def)
    then have "?s = m" "queue_is_started J m (Some q) \<longrightarrow> queue_has_running_work J m q"
      using False by (auto simp: queue_sync_started_state_def)
    then show ?thesis by simp
  qed
qed (use set_started_flag [OF assms, of E q True] in blast)

theorem queue_flag_correct_witness:
  "\<not> queue_is_started sample_cjson (snd (queue_stop sample_cjson sample_manager_env sample_manager (Some ''q''))) (Some ''q'')"
  using queue_flag_correct [OF sample_cjson_laws sample_manager_good] by blast

text \<open>Stopping a queue stops its downloads, whatever the disk answers: when ids are unique, every item of the
  queue that is then still shown as downloading or paused has a job that was told to stop.\<close>

theorem queue_stop_stops:
  assumes "cjson_laws J" "config_good J (mg_cfg m)" "unique_field J ''id'' (items_of J m)"
    "queue_find_index J (mg_cfg m) ''id'' (Some q) \<noteq> None" "q \<noteq> []" "queue_stop J E m (Some q) = (rc, m')"
  shows "\<forall>r\<in>set (items_of J m'). stop_done J m' q r"
proof -
  let ?m1 = "stop_loop J E q 0 (length (items_of J m)) m"
  have run: "queue_set_started J E ?m1 (Some q) False = (rc, m')"
    using assms(4-6) by (simp only: queue_stop_def array_size_records option.case if_False)
  have l: "config_good J (mg_cfg ?m1) \<and> (\<forall>r\<in>set (items_of J ?m1). stop_done J ?m1 q r)"
    by (rule stop_loop_done [OF assms(1-3)]) simp_all
  have "items_of J m' = items_of J ?m1" "mg_jobs m' = mg_jobs ?m1"
    using queue_set_started_items [OF assms(1) conjunct1 [OF l] run] by (simp_all add: items_kept_def)
  then show ?thesis using l by (simp add: stop_done_def active_jobs_find_def)
qed

theorem queue_stop_stops_witness:
  "list_all (stop_done sample_cjson (snd (queue_stop sample_cjson sample_manager_env sample_manager (Some ''q''))) ''q'')
     (items_of sample_cjson (snd (queue_stop sample_cjson sample_manager_env sample_manager (Some ''q''))))"
proof -
  obtain rc m' where r: "queue_stop sample_cjson sample_manager_env sample_manager (Some ''q'') = (rc, m')" by fastforce
  have u: "unique_field sample_cjson ''id'' (items_of sample_cjson sample_manager)"
    by (auto simp: unique_field_def sample_records sample_fields less_Suc_eq nth_Cons' split: if_splits)
  have i: "queue_find_index sample_cjson (mg_cfg sample_manager) ''id'' (Some ''q'') \<noteq> None"
    using index_loop_records [OF sample_cjson_laws, of "mg_cfg sample_manager" dm_queues "''id''" "''q''"]
    by (simp add: queue_find_index_def sample_records sample_fields)
  from queue_stop_stops [OF sample_cjson_laws sample_manager_good u i _ r] show ?thesis by (simp add: r list_all_iff)
qed

end
