(* ===== verification/Divergences.thy ===== *)
theory Divergences
  imports Queue_Correct Http
begin

text \<open>
  Places where the code does not do what its comments or callers say, each as a lemma on the model.
  (Two more are in the theory \<open>Http\<close>: \<open>content_disposition_quoted_semicolon\<close> and
  \<open>http_resolve_url_drops_port\<close>.)
\<close>

subsection \<open>Configuration\<close>

text \<open>A refused key leaves objects behind: \<open>set_config\<close> of \<open>a..b\<close> fails, but the tree in memory has got an
  object \<open>a\<close>, which the next successful change writes to the file.\<close>

lemma refused_key_leaves_object:
  assumes "cfg_tree cfg = JV_Object []"
  shows "fst (set_config sample_cjson io cfg (Some ''a..b'') (Some ''x'')) = -1"
    "cfg_tree (snd (set_config sample_cjson io cfg (Some ''a..b'') (Some ''x''))) = JV_Object [(''a'', JV_Object [])]"
  by (simp_all add: set_config_def commit_def assms sample_cjson_def)

subsection \<open>Queues\<close>

text \<open>A queue without the member \<open>started\<close> (written by hand) cannot be started: the member is only replaced.\<close>

lemma queue_without_flag_not_started:
  assumes "cjson_laws J" "config_good J (mg_cfg m)"
    "first_match (\<lambda>r. field_of J r ''id'' = Some q) (queues_of J m) = Some i"
    "get_member J (queues_of J m ! i) ''started'' = None"
  shows "\<not> queue_is_started J (snd (queue_set_started J E m (Some q) True)) (Some q)"
  using set_started_flag [OF assms(1,2), of E q True] assms(3,4) by simp

text \<open>A limit of \<open>2\<^sup>32\<close> passes the test for zero and is then cut to 32 bits: the queue starts nothing.\<close>

lemma queue_limit_cut_to_zero:
  assumes "queue_find_index J (mg_cfg m) ''id'' (Some q) = Some i" "q \<noteq> []"
    "queue_field J m i ''maxConcurrentDownloads'' = Some (show_nat (2 ^ 32))"
  shows "queue_max_concurrent J m (Some q) = 0"
proof -
  have v: "strtoull 10 (show_nat (2 ^ 32)) = (2 ^ 32, [])"
    using strtoull_show_nat [of "2 ^ 32" "[]"] by simp
  have ne: "show_nat (2 ^ 32) \<noteq> []" by (subst show_nat.simps) simp
  have z: "(2 ^ 32 :: u64) \<noteq> 0" "(ucast (2 ^ 32 :: u64) :: u32) = 0" by simp_all
  define s where "s = show_nat (2 ^ 32)"
  have "\<not> strtoull_failed 10 s" "strtoull_value 10 s = 2 ^ 32" "s \<noteq> []"
    using v ne unfolding s_def [symmetric] by (simp_all add: strtoull_failed_def strtoull_value_def)
  then show ?thesis using assms z unfolding s_def [symmetric] by (simp add: queue_max_concurrent_def)
qed

text \<open>A dispatch counts only items whose status is already downloading.  Two dispatches in a row submit the same
  items twice, since a submitted item keeps the status queued until its task runs.\<close>

lemma dispatch_twice_submits_twice:
  assumes "cjson_laws J" "\<And>t. me_pool E t" "unique_field J ''id'' (items_of J m)"
    "\<And>iid. iid \<in> set (waiting_ids J q (items_of J m)) \<Longrightarrow> active_jobs_find m iid = None"
    "queue_is_started J m (Some q)"
  defines "ids \<equiv> take (unat (queue_max_concurrent J m (Some q)) - downloading_count J q (items_of J m))
      (waiting_ids J q (items_of J m))"
  shows "submits m (ids @ ids) (queue_dispatch J E (queue_dispatch J E m (Some q)) (Some q))"
proof -
  let ?m1 = "queue_dispatch J E m (Some q)"
  have one: "submits m ids ?m1" unfolding ids_def by (rule queue_dispatch_accepted [OF assms(1-5)])
  have same: "mg_cfg ?m1 = mg_cfg m" "mg_jobs ?m1 = mg_jobs m" using submits_cfg [OF one] by simp_all
  have mx: "queue_max_concurrent J ?m1 (Some q) = queue_max_concurrent J m (Some q)"
    "queue_is_started J ?m1 (Some q) = queue_is_started J m (Some q)"
    "active_jobs_find ?m1 = active_jobs_find m"
    by (simp_all only: queue_max_concurrent_def queue_is_started_def active_jobs_find_def fun_eq_iff same simp_thms)
  have "submits ?m1 (take (unat (queue_max_concurrent J ?m1 (Some q)) - downloading_count J q (items_of J ?m1))
      (waiting_ids J q (items_of J ?m1))) (queue_dispatch J E ?m1 (Some q))"
    by (rule queue_dispatch_accepted [OF assms(1,2)]) (use assms(3-5) in \<open>simp_all add: same mx\<close>)
  then have "submits ?m1 ids (queue_dispatch J E ?m1 (Some q))" by (simp add: same mx ids_def)
  from submits_trans [OF one this] show ?thesis .
qed

text \<open>The second task is not refused when it runs after the first is over: only stopped items and queued items of a
  queue that is not started are blocked, so an item that was completed or paused in between starts again.\<close>

lemma stale_task_not_blocked:
  "\<not> download_scheduler_spawn_blocked J m (Some ''completed'') queue_id"
  "\<not> download_scheduler_spawn_blocked J m (Some ''paused'') queue_id"
  by (simp_all add: download_scheduler_spawn_blocked_def)

text \<open>With all slots taken a job is not entered into the table of active jobs, so that it can neither be
  paused nor stopped.\<close>

lemma full_table_drops_job:
  assumes "None \<notin> set (mg_jobs m)"
  shows "active_jobs_register job m = m"
proof -
  have "slot_loop (\<lambda>x. x = None) xs i = None" if "None \<notin> set xs" for xs i
    using that by (induction xs arbitrary: i) (auto, metis option.exhaust)
  then show ?thesis using assms by (simp add: active_jobs_register_def)
qed

text \<open>Stopping gives an item that has no job the status \<open>stopped\<close>, not \<open>queued\<close> as the notes on queues say.\<close>

lemma queue_stop_sets_stopped:
  assumes "cjson_laws J" "config_good J (mg_cfg m)" "active_jobs_find m iid = None" "found_item J m iid = Some i"
  shows "\<exists>r. items_of J (snd (download_stop J E m (Some iid))) = (items_of J m)[i := r]
    \<and> (good_object J (items_of J m ! i) \<longrightarrow> field_of J r ''status'' = Some ''stopped'')"
proof -
  obtain rc m1 where run: "run_command J E StopCommand m (Some iid) = (rc, m1)" by fastforce
  have "items_of J m1 = (items_of J m)[i := renew_member J ''status'' (cJSON_CreateString J ''stopped'') (items_of J m ! i)]"
    using command_effects [OF assms(1,2) run] assms(3,4) by (simp add: found_status_def)
  moreover have "field_of J (renew_member J ''status'' (cJSON_CreateString J ''stopped'') r) ''status'' = Some ''stopped''"
    if "good_object J r" for r
    using renew_member_fields(2) [OF assms(1) that json_good_created(3) [OF assms(1)], of "''status''" "''stopped''" "''status''"]
      scalar_created(1) [OF assms(1)] by simp
  ultimately show ?thesis using run by auto
qed

end
