(* ===== verification/Settings.thy ===== *)
theory Settings
  imports Config_Correct Segments Paths
begin

text \<open>
  Settings read from the configuration: the segmentation settings of
  \<^verbatim>\<open>src/src/download_config.c\<close> and the directories of \<^verbatim>\<open>src/src/file-system.c\<close> (the branches
  for Linux; creating the directories is left out).  \<open>getenv\<close> is the environment.
\<close>

subsection \<open>Directories\<close>

definition APP_ID :: string where "APP_ID = ''avar''"

definition get_user_home :: "(string \<Rightarrow> cstring) \<Rightarrow> string" where
  "get_user_home getenv = (case getenv ''HOME'' of Some h \<Rightarrow> h | None \<Rightarrow> ''/tmp'')"

definition config_path :: "(string \<Rightarrow> cstring) \<Rightarrow> string \<Rightarrow> string" where
  "config_path getenv app_name =
     (let base = (case getenv ''XDG_CONFIG_HOME'' of Some x \<Rightarrow> x | None \<Rightarrow> get_user_home getenv)
      in base @ ''/'' @ app_name)"

definition platform_data_dir :: "(string \<Rightarrow> cstring) \<Rightarrow> cstring" where
  "platform_data_dir getenv =
     (case getenv ''XDG_DATA_HOME'' of
        Some xdg \<Rightarrow> path_join (Some xdg) (Some APP_ID)
      | None \<Rightarrow>
          (case path_join (Some (get_user_home getenv)) (Some ''.local/share'') of
             None \<Rightarrow> None
           | Some home \<Rightarrow> path_join (Some home) (Some APP_ID)))"

definition default_temp_path :: "('j, 't) cjson \<Rightarrow> (string \<Rightarrow> cstring) \<Rightarrow> ('j, 't) ConfigContext \<Rightarrow> cstring" where
  "default_temp_path J getenv cfg =
     (case get_config J getenv cfg ''dm.tempPath'' of
        Some (c # cs) \<Rightarrow> Some (c # cs)
      | _ \<Rightarrow> (case platform_data_dir getenv of
                None \<Rightarrow> None | Some base \<Rightarrow> path_join (Some base) (Some ''download-temp'')))"

definition default_download_path :: "('j, 't) cjson \<Rightarrow> (string \<Rightarrow> cstring) \<Rightarrow> ('j, 't) ConfigContext \<Rightarrow> cstring" where
  "default_download_path J getenv cfg =
     (case get_config J getenv cfg ''dm.downloadPath'' of
        Some (c # cs) \<Rightarrow> Some (c # cs)
      | _ \<Rightarrow> (case getenv ''XDG_DOWNLOAD_DIR'' of
                Some xdg_download \<Rightarrow> Some xdg_download
              | None \<Rightarrow> path_join (Some (get_user_home getenv)) (Some ''Downloads'')))"

subsection \<open>Numbers and flags\<close>

definition parse_config_size :: "('j, 't) cjson \<Rightarrow> (string \<Rightarrow> cstring) \<Rightarrow> ('j, 't) ConfigContext \<Rightarrow> string \<Rightarrow> u64 \<Rightarrow> u64" where
  "parse_config_size J getenv cfg key default_value =
     (case get_config_or_default J getenv cfg key None of
        None \<Rightarrow> default_value
      | Some v \<Rightarrow> if strtoull_failed 10 v \<or> strtoull_value 10 v = 0 then default_value else strtoull_value 10 v)"

definition parse_config_bool :: "('j, 't) cjson \<Rightarrow> (string \<Rightarrow> cstring) \<Rightarrow> ('j, 't) ConfigContext \<Rightarrow> string \<Rightarrow> bool \<Rightarrow> bool" where
  "parse_config_bool J getenv cfg key default_value =
     (case get_config_or_default J getenv cfg key None of
        None \<Rightarrow> default_value
      | Some v \<Rightarrow> v = ''1'' \<or> strcaseeq v ''true'' \<or> strcaseeq v ''yes'')"

text \<open>\<open>strtod\<close> on decimal numbers: white space, a sign, digits, a fraction, an exponent.  The result is the exact
  rational (the rounding to a double is left out), nothing when no number is found; hexadecimal
  numbers, infinities and NaN are not covered.\<close>

definition strtod :: "string \<Rightarrow> rat option" where
  "strtod s =
     (let t = skip_space s;
          neg = (case t of [] \<Rightarrow> False | c # _ \<Rightarrow> c = CHR ''-'');
          t = (case t of [] \<Rightarrow> [] | c # r \<Rightarrow> if c = CHR ''-'' \<or> c = CHR ''+'' then r else t);
          ip = takeWhile isdigit t; r = drop (length ip) t;
          fp = (case r of [] \<Rightarrow> [] | c # r' \<Rightarrow> if c = CHR ''.'' then takeWhile isdigit r' else []);
          r = (case r of [] \<Rightarrow> [] | c # r' \<Rightarrow> if c = CHR ''.'' then drop (length fp) r' else r);
          eneg = (case r of _ # c # _ \<Rightarrow> c = CHR ''-'' | _ \<Rightarrow> False);
          ed = (case r of
             c # r' \<Rightarrow> if c = CHR ''e'' \<or> c = CHR ''E''
                       then takeWhile isdigit (case r' of d # r'' \<Rightarrow> if d = CHR ''-'' \<or> d = CHR ''+'' then r'' else r' | [] \<Rightarrow> [])
                       else []
           | [] \<Rightarrow> []);
          mant = of_nat (digits_value 10 (ip @ fp)) / 10 ^ length fp;
          v = (if eneg then mant / 10 ^ digits_value 10 ed else mant * 10 ^ digits_value 10 ed)
      in if ip = [] \<and> fp = [] then None else Some (if neg then - v else v))"

definition parse_config_double :: "('j, 't) cjson \<Rightarrow> (string \<Rightarrow> cstring) \<Rightarrow> ('j, 't) ConfigContext \<Rightarrow> string \<Rightarrow> rat \<Rightarrow> rat" where
  "parse_config_double J getenv cfg key default_value =
     (case get_config_or_default J getenv cfg key None of
        None \<Rightarrow> default_value
      | Some v \<Rightarrow> (case strtod v of None \<Rightarrow> default_value | Some parsed \<Rightarrow> parsed))"

subsection \<open>The segmentation settings\<close>

text \<open>The loop over the queues from index \<open>i\<close> on, \<open>n\<close> of them left.\<close>

fun connection_limit_loop :: "('j, 't) cjson \<Rightarrow> ('j, 't) ConfigContext \<Rightarrow> string \<Rightarrow> nat \<Rightarrow> nat \<Rightarrow> u64" where
  "connection_limit_loop J cfg queue_id i 0 = 0"
| "connection_limit_loop J cfg queue_id i (Suc n) =
     (if get_config_array_item_field J cfg ''dm.queues'' i ''id'' \<noteq> Some queue_id
      then connection_limit_loop J cfg queue_id (Suc i) n
      else (case get_config_array_item_field J cfg ''dm.queues'' i ''maxConnections'' of
              None \<Rightarrow> 0
            | Some v \<Rightarrow> if strtoull_failed 10 v \<or> strtoull_value 10 v = 0 then 0 else strtoull_value 10 v))"

definition queue_connection_limit :: "('j, 't) cjson \<Rightarrow> ('j, 't) ConfigContext \<Rightarrow> cstring \<Rightarrow> u64" where
  "queue_connection_limit J cfg queue_id =
     (case queue_id of None \<Rightarrow> 0
      | Some q \<Rightarrow> connection_limit_loop J cfg q 0 (get_config_array_size J cfg ''dm.queues''))"

definition download_config_load ::
  "('j, 't) cjson \<Rightarrow> (string \<Rightarrow> cstring) \<Rightarrow> ('j, 't) ConfigContext \<Rightarrow> cstring \<Rightarrow> DownloadSegmentConfig" where
  "download_config_load J getenv cfg queue_id =
     (let strategy = get_config_or_default J getenv cfg ''dm.segmentation.strategy'' (Some ''balanced'');
          seg = \<lparr>sc_enabled = parse_config_bool J getenv cfg ''dm.segmentation.enabled'' True,
             sc_strategy = (if strategy \<noteq> None then segment_strategy_from_string strategy else SegmentStrategyBalanced),
             sc_concurrency = parse_config_size J getenv cfg ''dm.segmentation.concurrency'' 4,
             sc_chunk_size = parse_config_size J getenv cfg ''dm.segmentation.chunkSize'' DL_CHUNK_SIZE,
             sc_min_file_size = parse_config_size J getenv cfg ''dm.segmentation.minFileSize'' (1024 * 1024),
             sc_left_heavy_front_ratio = parse_config_double J getenv cfg ''dm.segmentation.leftHeavyFrontRatio'' (1 / 4)\<rparr>;
          queue_limit = queue_connection_limit J cfg queue_id;
          seg = (if queue_limit > 0 \<and> queue_limit < sc_concurrency seg then seg\<lparr>sc_concurrency := queue_limit\<rparr> else seg);
          seg = (if sc_concurrency seg < 1 then seg\<lparr>sc_concurrency := 1\<rparr> else seg);
          seg = (if sc_concurrency seg > 32 then seg\<lparr>sc_concurrency := 32\<rparr> else seg)
      in seg)"

subsection \<open>Whatever the configuration says, the settings are usable\<close>

lemma config_size_pos: "0 < default_value \<Longrightarrow> 0 < parse_config_size J getenv cfg key default_value"
  by (auto simp: parse_config_size_def word_gt_0 split: option.split)

definition clamp_concurrency :: "u64 \<Rightarrow> u64 \<Rightarrow> u64" where
  "clamp_concurrency limit c =
     (let c = (if limit > 0 \<and> limit < c then limit else c); c = (if c < 1 then 1 else c)
      in if c > 32 then 32 else c)"

lemma clamp_bounds:
  "0 < c \<Longrightarrow> 1 \<le> clamp_concurrency limit c \<and> clamp_concurrency limit c \<le> 32
     \<and> (0 < limit \<longrightarrow> clamp_concurrency limit c \<le> limit)"
  by (auto simp: clamp_concurrency_def Let_def word_less_nat_alt word_le_nat_alt)

lemma download_config_parts:
  "sc_concurrency (download_config_load J getenv cfg queue_id) =
     clamp_concurrency (queue_connection_limit J cfg queue_id) (parse_config_size J getenv cfg ''dm.segmentation.concurrency'' 4)"
  "sc_chunk_size (download_config_load J getenv cfg queue_id) = parse_config_size J getenv cfg ''dm.segmentation.chunkSize'' DL_CHUNK_SIZE"
  "sc_min_file_size (download_config_load J getenv cfg queue_id) = parse_config_size J getenv cfg ''dm.segmentation.minFileSize'' (1024 * 1024)"
  unfolding download_config_load_def clamp_concurrency_def Let_def by (simp_all split del: if_split add: if_distrib [of sc_concurrency]
      if_distrib [of sc_chunk_size] if_distrib [of sc_min_file_size] cong: if_cong)

lemma download_config_bounds:
  "let seg = download_config_load J getenv cfg queue_id; limit = queue_connection_limit J cfg queue_id
   in 1 \<le> sc_concurrency seg \<and> sc_concurrency seg \<le> 32 \<and> (0 < limit \<longrightarrow> sc_concurrency seg \<le> limit)
      \<and> 0 < sc_chunk_size seg \<and> 0 < sc_min_file_size seg"
proof -
  have "0 < parse_config_size J getenv cfg ''dm.segmentation.concurrency'' 4"
    "0 < parse_config_size J getenv cfg ''dm.segmentation.chunkSize'' DL_CHUNK_SIZE"
    "0 < parse_config_size J getenv cfg ''dm.segmentation.minFileSize'' (1024 * 1024)"
    by (rule config_size_pos, simp add: DL_CHUNK_SIZE_def)+
  then show ?thesis using clamp_bounds unfolding Let_def download_config_parts by blast
qed

text \<open>A size with a unit is read as its digits alone.\<close>

lemma size_suffix_ignored:
  assumes "get_config J getenv cfg key = Some (show_nat 8 @ ''MiB'')"
  shows "parse_config_size J getenv cfg key default_value = 8"
proof -
  have "strtoull 10 (show_nat 8 @ ''MiB'') = (8, ''MiB'')"
    using strtoull_show_nat [of 8 "''MiB''"] by (simp add: digit_in_base_def digit_value_def isdigit_def islower_def isupper_def code_of_def)
  then show ?thesis using assms
    by (simp add: parse_config_size_def get_config_or_default_def strtoull_failed_def strtoull_value_def show_nat.simps [of 8])
qed

end
