(* ===== verification/Utils.thy ===== *)
theory Utils
  imports CLib
begin

text \<open>
  The helpers of \<^verbatim>\<open>src/src/utils.c\<close>: validation of URLs, white space, sizes and rates as text, the
  progress bars.  A \<open>double\<close> is its exact value, a rational; converting a \<open>uint64_t\<close> rounds to
  53 bits as the conversion does, and the scalings by powers of two are exact.  A text buffer is
  its contents, nothing for the null pointer.
\<close>

subsection \<open>URLs\<close>

definition is_scheme :: "string \<Rightarrow> bool" where
  "is_scheme s \<longleftrightarrow> (length s = 4 \<and> s = ''http'') \<or> (length s = 5 \<and> s = ''https'')"

definition is_host_char :: "char \<Rightarrow> bool" where
  "is_host_char c \<longleftrightarrow> isalnum c \<or> strchr (''-._~!$&'' @ [CHR 0x27] @ ''()*+,;=:@'') c \<noteq> None"

fun host_chars_ok :: "string \<Rightarrow> bool" where
  "host_chars_ok [] = True"
| "host_chars_ok (c # cs) =
     (if c = CHR '':'' \<or> c = CHR ''/'' \<or> c = CHR ''?'' \<or> c = CHR ''#'' then True
      else if \<not> is_host_char c then False
      else host_chars_ok cs)"

definition is_host :: "string \<Rightarrow> bool" where
  "is_host h = (if h = [] then False else host_chars_ok h)"

text \<open>The list of valid schemes is not read by the code; the lengths of authority and host are computed
  and not used, so they are left out.\<close>

definition is_valid_url :: "cstring \<Rightarrow> string list \<Rightarrow> bool" where
  "is_valid_url url validSchemes =
     (case url of None \<Rightarrow> False
      | Some u \<Rightarrow>
          (case strstr u ''://'' of None \<Rightarrow> False
           | Some scheme_end \<Rightarrow>
               if \<not> is_scheme (upto_suffix u scheme_end) then False
               else let authority_start = drop 3 scheme_end
                    in if authority_start = [] then False
                       else let host_start = (case strchr authority_start CHR ''@'' of
                                                None \<Rightarrow> authority_start | Some user_at \<Rightarrow> tl user_at)
                            in is_host host_start))"

definition is_valid_http_url :: "cstring \<Rightarrow> bool" where
  "is_valid_http_url url = is_valid_url url [''http'', ''https'']"

subsection \<open>Strings\<close>

definition trim_whitespace_inplace :: "cstring \<Rightarrow> cstring" where
  "trim_whitespace_inplace value =
     (case value of None \<Rightarrow> None
      | Some v \<Rightarrow> if v = [] then Some v
                 else let start = dropWhile isspace v in Some (rev (dropWhile isspace (rev start))))"

text \<open>The flag says whether \<open>malloc\<close> succeeds.\<close>

definition avar_strndup :: "bool \<Rightarrow> cstring \<Rightarrow> u64 \<Rightarrow> cstring" where
  "avar_strndup malloc_ok s n =
     (case s of None \<Rightarrow> None
      | Some v \<Rightarrow> let len = (if unat n < length v then unat n else length v)
                 in if \<not> malloc_ok then None else Some (take len v))"

fun ieq_loop :: "string \<Rightarrow> string \<Rightarrow> bool" where
  "ieq_loop (a # as) (b # bs) = (if tolower a \<noteq> tolower b then False else ieq_loop as bs)"
| "ieq_loop as bs = (as = [] \<and> bs = [])"

definition str_ieq :: "cstring \<Rightarrow> cstring \<Rightarrow> bool" where
  "str_ieq a b = (case (a, b) of (Some x, Some y) \<Rightarrow> ieq_loop x y | _ \<Rightarrow> False)"

lemma ieq_loop_strcaseeq: "ieq_loop a b \<longleftrightarrow> strcaseeq a b"
  by (induction a b rule: ieq_loop.induct) (auto simp: strcaseeq_def strlower_def)

subsection \<open>Units\<close>

datatype AvarSizeUnit = AVAR_SIZE_BYTES | AVAR_SIZE_KIB | AVAR_SIZE_MIB | AVAR_SIZE_GIB

datatype AvarSpeedUnit = AVAR_SPEED_BYTES_PER_SEC | AVAR_SPEED_BITS_PER_SEC | AVAR_SPEED_KIB_PER_SEC
  | AVAR_SPEED_MIB_PER_SEC | AVAR_SPEED_GIB_PER_SEC | AVAR_SPEED_KIBIT_PER_SEC
  | AVAR_SPEED_MIBIT_PER_SEC | AVAR_SPEED_GIBIT_PER_SEC

datatype AvarProgressStyle = AVAR_PROGRESS_AGGREGATE | AVAR_PROGRESS_SEGMENTED

text \<open>The parsers return nothing where the code answers false and leaves the target alone.\<close>

definition avar_size_unit_parse :: "cstring \<Rightarrow> AvarSizeUnit option" where
  "avar_size_unit_parse text =
     (case text of None \<Rightarrow> Some AVAR_SIZE_MIB
      | Some t \<Rightarrow>
          if t = [] then Some AVAR_SIZE_MIB
          else if str_ieq text (Some ''bytes'') \<or> str_ieq text (Some ''b'') then Some AVAR_SIZE_BYTES
          else if t = ''KiB'' then Some AVAR_SIZE_KIB
          else if t = ''MiB'' then Some AVAR_SIZE_MIB
          else if t = ''GiB'' then Some AVAR_SIZE_GIB
          else None)"

definition avar_speed_unit_parse :: "cstring \<Rightarrow> AvarSpeedUnit option" where
  "avar_speed_unit_parse text =
     (case text of None \<Rightarrow> Some AVAR_SPEED_MIBIT_PER_SEC
      | Some t \<Rightarrow>
          if t = [] then Some AVAR_SPEED_MIBIT_PER_SEC
          else if str_ieq text (Some ''Bytes/s'') then Some AVAR_SPEED_BYTES_PER_SEC
          else if str_ieq text (Some ''bits/s'') then Some AVAR_SPEED_BITS_PER_SEC
          else if t = ''KiB/s'' then Some AVAR_SPEED_KIB_PER_SEC
          else if t = ''MiB/s'' then Some AVAR_SPEED_MIB_PER_SEC
          else if t = ''GiB/s'' then Some AVAR_SPEED_GIB_PER_SEC
          else if t = ''Kib/s'' then Some AVAR_SPEED_KIBIT_PER_SEC
          else if t = ''Mib/s'' then Some AVAR_SPEED_MIBIT_PER_SEC
          else if t = ''Gib/s'' then Some AVAR_SPEED_GIBIT_PER_SEC
          else None)"

definition avar_progress_style_parse :: "cstring \<Rightarrow> AvarProgressStyle option" where
  "avar_progress_style_parse text =
     (case text of None \<Rightarrow> Some AVAR_PROGRESS_AGGREGATE
      | Some t \<Rightarrow> if t = ''segmented'' then Some AVAR_PROGRESS_SEGMENTED
                 else if t = ''aggregate'' then Some AVAR_PROGRESS_AGGREGATE
                 else None)"

subsection \<open>Numbers as text\<close>

definition round_half_even :: "rat \<Rightarrow> nat" where
  "round_half_even x =
     (let f = nat \<lfloor>x\<rfloor>; r = x - of_nat f
      in if r < 1 / 2 then f else if r > 1 / 2 then f + 1 else if even f then f else f + 1)"

fun bit_length :: "nat \<Rightarrow> nat" where
  "bit_length n = (if n = 0 then 0 else Suc (bit_length (n div 2)))"

declare bit_length.simps [simp del]

text \<open>The conversion \<open>(double)n\<close>.\<close>

definition double_of_u64 :: "u64 \<Rightarrow> rat" where
  "double_of_u64 n =
     (let k = bit_length (unat n) - 53 in of_nat (round_half_even (of_nat (unat n) / 2 ^ k)) * 2 ^ k)"

text \<open>The conversions \<open>%.*f\<close> with precision \<open>prec\<close> and \<open>%*s\<close>, a negative width adjusting to the left.\<close>

definition fixed_text :: "nat \<Rightarrow> rat \<Rightarrow> string" where
  "fixed_text prec x =
     (let n = round_half_even (\<bar>x\<bar> * 10 ^ prec); whole = show_nat (n div 10 ^ prec); frac = show_nat (n mod 10 ^ prec)
      in (if x < 0 then ''-'' else []) @ whole
         @ (if prec = 0 then [] else ''.'' @ replicate (prec - length frac) CHR ''0'' @ frac))"

definition pad :: "int \<Rightarrow> string \<Rightarrow> string" where
  "pad width s =
     (if width < 0 then s @ replicate (nat (- width) - length s) CHR '' ''
      else replicate (nat width - length s) CHR '' '' @ s)"

definition snprintf :: "u64 \<Rightarrow> string \<Rightarrow> string" where
  "snprintf buflen s = take (unat buflen - 1) s"

definition tenths :: "rat \<Rightarrow> bool" where
  "tenths value \<longleftrightarrow> value < 10 \<and> value \<noteq> of_int \<lfloor>value\<rfloor>"

definition format_scaled_value :: "rat \<Rightarrow> string \<Rightarrow> u64 \<Rightarrow> string" where
  "format_scaled_value value suffix buflen =
     (if tenths value then snprintf buflen (fixed_text 1 value @ '' '' @ suffix)
      else snprintf buflen (fixed_text 0 value @ '' '' @ suffix))"

definition format_scaled_value_padded :: "rat \<Rightarrow> string \<Rightarrow> int \<Rightarrow> u64 \<Rightarrow> string" where
  "format_scaled_value_padded value suffix number_width buflen =
     (if tenths value then snprintf buflen (pad number_width (fixed_text 1 value) @ '' '' @ suffix)
      else snprintf buflen (pad number_width (fixed_text 0 value) @ '' '' @ suffix))"

fun bytes_to_scaled_value :: "u64 \<Rightarrow> AvarSizeUnit \<Rightarrow> rat" where
  "bytes_to_scaled_value bytes AVAR_SIZE_BYTES = double_of_u64 bytes"
| "bytes_to_scaled_value bytes AVAR_SIZE_KIB = double_of_u64 bytes / 2 ^ 10"
| "bytes_to_scaled_value bytes AVAR_SIZE_MIB = double_of_u64 bytes / 2 ^ 20"
| "bytes_to_scaled_value bytes AVAR_SIZE_GIB = double_of_u64 bytes / 2 ^ 30"

definition avar_data_size_number_width :: "u64 \<Rightarrow> AvarSizeUnit \<Rightarrow> int" where
  "avar_data_size_number_width bytes unit =
     (if unit = AVAR_SIZE_BYTES then int (length (show_nat (unat bytes)))
      else let value = bytes_to_scaled_value bytes unit
           in if tenths value then int (length (fixed_text 1 value)) else int (length (fixed_text 0 value)))"

definition avar_progress_percent :: "u64 \<Rightarrow> u64 \<Rightarrow> int" where
  "avar_progress_percent done_bytes total_bytes =
     (if total_bytes = 0 then 0
      else if done_bytes \<ge> total_bytes then 100
      else sint (ucast ((done_bytes * 100) div total_bytes) :: u32))"

definition show_int :: "int \<Rightarrow> string" where
  "show_int i = (if i < 0 then ''-'' else []) @ show_nat (nat \<bar>i\<bar>)"

text \<open>Every formatter leaves a null or empty buffer alone.\<close>

definition into_buffer :: "cstring \<Rightarrow> u64 \<Rightarrow> string \<Rightarrow> cstring" where
  "into_buffer buf buflen new = (if buf = None \<or> buflen = 0 then buf else Some new)"

definition format_progress_percent :: "int \<Rightarrow> cstring \<Rightarrow> u64 \<Rightarrow> cstring" where
  "format_progress_percent percent buf buflen =
     into_buffer buf buflen (snprintf buflen (pad 3 (show_int percent) @ ''%''))"

definition size_suffix :: "AvarSizeUnit \<Rightarrow> string" where
  "size_suffix unit = (case unit of AVAR_SIZE_BYTES \<Rightarrow> ''Bytes'' | AVAR_SIZE_KIB \<Rightarrow> ''KiB'' | AVAR_SIZE_MIB \<Rightarrow> ''MiB'' | AVAR_SIZE_GIB \<Rightarrow> ''GiB'')"

definition format_data_size_padded :: "u64 \<Rightarrow> AvarSizeUnit \<Rightarrow> int \<Rightarrow> cstring \<Rightarrow> u64 \<Rightarrow> cstring" where
  "format_data_size_padded bytes unit number_width buf buflen =
     into_buffer buf buflen
       (if unit = AVAR_SIZE_BYTES then snprintf buflen (pad number_width (show_nat (unat bytes)) @ '' '' @ size_suffix unit)
        else format_scaled_value_padded (bytes_to_scaled_value bytes unit) (size_suffix unit) number_width buflen)"

definition format_data_size :: "u64 \<Rightarrow> AvarSizeUnit \<Rightarrow> cstring \<Rightarrow> u64 \<Rightarrow> cstring" where
  "format_data_size bytes unit buf buflen =
     into_buffer buf buflen
       (if unit = AVAR_SIZE_BYTES then snprintf buflen (show_nat (unat bytes) @ '' '' @ size_suffix unit)
        else format_scaled_value (bytes_to_scaled_value bytes unit) (size_suffix unit) buflen)"

text \<open>The scaled rate and its suffix, the arms of the \<open>switch\<close> over the unit.\<close>

fun scaled_rate :: "rat \<Rightarrow> AvarSpeedUnit \<Rightarrow> rat \<times> string" where
  "scaled_rate r AVAR_SPEED_BYTES_PER_SEC = (r, ''Bytes/s'')"
| "scaled_rate r AVAR_SPEED_BITS_PER_SEC = (r * 8, ''bits/s'')"
| "scaled_rate r AVAR_SPEED_KIB_PER_SEC = (r / 2 ^ 10, ''KiB/s'')"
| "scaled_rate r AVAR_SPEED_MIB_PER_SEC = (r / 2 ^ 20, ''MiB/s'')"
| "scaled_rate r AVAR_SPEED_GIB_PER_SEC = (r / 2 ^ 30, ''GiB/s'')"
| "scaled_rate r AVAR_SPEED_KIBIT_PER_SEC = (r * 8 / 2 ^ 10, ''Kib/s'')"
| "scaled_rate r AVAR_SPEED_MIBIT_PER_SEC = (r * 8 / 2 ^ 20, ''Mib/s'')"
| "scaled_rate r AVAR_SPEED_GIBIT_PER_SEC = (r * 8 / 2 ^ 30, ''Gib/s'')"

definition format_transfer_rate_padded :: "rat \<Rightarrow> AvarSpeedUnit \<Rightarrow> int \<Rightarrow> cstring \<Rightarrow> u64 \<Rightarrow> cstring" where
  "format_transfer_rate_padded bytes_per_sec unit number_width buf buflen =
     (let (value, suffix) = scaled_rate bytes_per_sec unit
      in into_buffer buf buflen (format_scaled_value_padded value suffix number_width buflen))"

definition format_transfer_rate :: "rat \<Rightarrow> AvarSpeedUnit \<Rightarrow> cstring \<Rightarrow> u64 \<Rightarrow> cstring" where
  "format_transfer_rate bytes_per_sec unit buf buflen =
     (let (value, suffix) = scaled_rate bytes_per_sec unit
      in into_buffer buf buflen (format_scaled_value value suffix buflen))"

text \<open>The exponential function makes this one a function on the reals, without rounding.\<close>

definition avar_speed_ema :: "real \<Rightarrow> real \<Rightarrow> u64 \<Rightarrow> real \<Rightarrow> real" where
  "avar_speed_ema prev_bps sample_bps elapsed_ms tau_ms =
     (if sample_bps < 0 \<or> elapsed_ms = 0 then prev_bps
      else if prev_bps \<le> 0 \<or> tau_ms \<le> 0 then sample_bps
      else let alpha = 1 - exp (- of_nat (unat elapsed_ms) / tau_ms)
           in prev_bps + alpha * (sample_bps - prev_bps))"

subsection \<open>The width of the terminal\<close>

definition strtol :: "string \<Rightarrow> int \<times> bool" where
  "strtol s =
     (let t = skip_space s;
          neg = (case t of [] \<Rightarrow> False | c # _ \<Rightarrow> c = CHR ''-'');
          t = (case t of [] \<Rightarrow> [] | c # r \<Rightarrow> if c = CHR ''-'' \<or> c = CHR ''+'' then r else t);
          ds = takeWhile isdigit t;
          n = int (digits_value 10 ds)
      in (if neg then max (- n) (- (2 ^ 63)) else min n (2 ^ 63 - 1), ds \<noteq> []))"

text \<open>\<open>ws\<close> is the answer of the \<open>ioctl\<close>: the columns, nothing when it fails; \<open>(int)parsed\<close> keeps 32 bits.\<close>

definition terminal_columns :: "16 word option \<Rightarrow> (string \<Rightarrow> cstring) \<Rightarrow> int" where
  "terminal_columns ws getenv =
     (let columns =
            (case getenv ''COLUMNS'' of None \<Rightarrow> 0
             | Some columns \<Rightarrow>
                 (case strtol columns of
                    (parsed, converted) \<Rightarrow> if converted \<and> parsed > 0 then sint (word_of_int parsed :: u32) else 0))
      in case ws of None \<Rightarrow> columns | Some ws_col \<Rightarrow> if ws_col > 0 then uint ws_col else columns)"

definition avar_terminal_columns :: "bool \<Rightarrow> 16 word option \<Rightarrow> (string \<Rightarrow> cstring) \<Rightarrow> int" where
  "avar_terminal_columns stderr_is_tty ws getenv = (if \<not> stderr_is_tty then 0 else terminal_columns ws getenv)"

definition avar_progress_bar_width_for_columns :: "int \<Rightarrow> int \<Rightarrow> int" where
  "avar_progress_bar_width_for_columns cols suffix_len =
     (if cols \<le> 0 then 22
      else let bar = cols - suffix_len - 2;
               bar = (if bar < 10 then 10 else bar);
               bar = (if bar > 400 then 400 else bar)
           in bar)"

definition avar_progress_bar_width :: "bool \<Rightarrow> 16 word option \<Rightarrow> (string \<Rightarrow> cstring) \<Rightarrow> int \<Rightarrow> int" where
  "avar_progress_bar_width stderr_is_tty ws getenv suffix_len =
     (if \<not> stderr_is_tty then 22 else avar_progress_bar_width_for_columns (terminal_columns ws getenv) suffix_len)"

subsection \<open>Progress bars\<close>

record AvarByteRange =
  ar_start :: u64
  ar_end :: u64

definition span_bytes_covered :: "u64 \<Rightarrow> u64 \<Rightarrow> u64 \<Rightarrow> u64 \<Rightarrow> u64" where
  "span_bytes_covered span_start span_end_excl range_start range_end_excl =
     (if span_start \<ge> span_end_excl \<or> range_start \<ge> range_end_excl then 0
      else let overlap_start = (if range_start > span_start then range_start else span_start);
               overlap_end = (if range_end_excl < span_end_excl then range_end_excl else span_end_excl)
           in if overlap_end \<le> overlap_start then 0 else overlap_end - overlap_start)"

fun column_sum :: "AvarByteRange list \<Rightarrow> u64 \<Rightarrow> u64 \<Rightarrow> u64 \<Rightarrow> u64" where
  "column_sum [] col_start col_end_excl acc = acc"
| "column_sum (r # rs) col_start col_end_excl acc =
     column_sum rs col_start col_end_excl
       (acc + span_bytes_covered col_start col_end_excl (ar_start r) (ar_end r + 1))"

definition column_bytes_done :: "AvarByteRange list option \<Rightarrow> u64 \<Rightarrow> u64 \<Rightarrow> u64" where
  "column_bytes_done ranges col_start col_end_excl =
     (case ranges of None \<Rightarrow> 0
      | Some rs \<Rightarrow>
          if col_start \<ge> col_end_excl then 0
          else let covered = column_sum rs col_start col_end_excl 0; col_width = col_end_excl - col_start
               in if covered > col_width then col_width else covered)"

definition column_fully_done :: "AvarByteRange list option \<Rightarrow> u64 \<Rightarrow> u64 \<Rightarrow> bool" where
  "column_fully_done ranges col_start col_end_excl =
     (if col_start \<ge> col_end_excl then False
      else column_bytes_done ranges col_start col_end_excl \<ge> col_end_excl - col_start)"

text \<open>The first byte of a column, and of the next one; the products wrap.\<close>

definition column_start :: "u64 \<Rightarrow> int \<Rightarrow> int \<Rightarrow> u64" where
  "column_start total_size width i = (word_of_int i * total_size) div word_of_int width"

text \<open>A bar of the given cells: nothing changes without a buffer or a width, a small buffer is emptied.\<close>

definition draw_bar :: "int \<Rightarrow> (int \<Rightarrow> bool) \<Rightarrow> cstring \<Rightarrow> u64 \<Rightarrow> cstring" where
  "draw_bar width filled buf buflen =
     (if buf = None \<or> buflen = 0 \<or> width \<le> 0 then buf
      else if buflen < word_of_int width + 3 then Some []
      else Some (''['' @ map (\<lambda>i. if filled i then CHR ''='' else CHR '' '') [0..width - 1] @ '']''))"

definition format_spatial_progress_bar_fn ::
  "u64 \<Rightarrow> (u64 \<Rightarrow> u64 \<Rightarrow> bool) option \<Rightarrow> int \<Rightarrow> cstring \<Rightarrow> u64 \<Rightarrow> cstring" where
  "format_spatial_progress_bar_fn total_size is_filled width buf buflen =
     draw_bar width
       (\<lambda>i. case is_filled of None \<Rightarrow> False
            | Some f \<Rightarrow> total_size > 0 \<and> f (column_start total_size width i) (column_start total_size width (i + 1)))
       buf buflen"

definition format_spatial_progress_bar ::
  "u64 \<Rightarrow> AvarByteRange list option \<Rightarrow> int \<Rightarrow> cstring \<Rightarrow> u64 \<Rightarrow> cstring" where
  "format_spatial_progress_bar total_size ranges width buf buflen =
     draw_bar width
       (\<lambda>i. total_size > 0 \<and> ranges \<noteq> None
            \<and> column_fully_done ranges (column_start total_size width i) (column_start total_size width (i + 1)))
       buf buflen"

definition format_progress_bar_filled :: "int \<Rightarrow> int \<Rightarrow> cstring \<Rightarrow> u64 \<Rightarrow> cstring" where
  "format_progress_bar_filled filled width buf buflen =
     (let clamped = (if filled < 0 then 0 else if filled > width then width else filled)
      in draw_bar width (\<lambda>i. i < clamped) buf buflen)"

definition format_progress_bar :: "int \<Rightarrow> int \<Rightarrow> cstring \<Rightarrow> u64 \<Rightarrow> cstring" where
  "format_progress_bar percent width buf buflen =
     (if width \<le> 0 then buf
      else let clamped = (if percent < 0 then 0 else if percent > 100 then 100 else percent);
               filled = (if clamped \<ge> 100 then width else (clamped * width) div 100)
           in format_progress_bar_filled filled width buf buflen)"

definition format_progress_bar_bytes :: "u64 \<Rightarrow> u64 \<Rightarrow> int \<Rightarrow> cstring \<Rightarrow> u64 \<Rightarrow> cstring" where
  "format_progress_bar_bytes done_bytes total_bytes width buf buflen =
     (if width \<le> 0 then buf
      else let filled = (if total_bytes > 0
                         then if done_bytes \<ge> total_bytes then width
                              else sint (ucast ((done_bytes * word_of_int width) div total_bytes) :: u32)
                         else 0)
           in format_progress_bar_filled filled width buf buflen)"

text \<open>The lines the help command prints.\<close>

definition print_help :: "string \<Rightarrow> string list \<Rightarrow> string list" where
  "print_help version help_message =
     map (\<lambda>(i, line). if i = (0 :: nat) then line @ '' (v'' @ version @ '')'' else line) (List.enumerate 0 help_message)"

subsection \<open>Percent\<close>

lemma sint_small:
  assumes "unat (q :: u64) < 2147483648"
  shows "sint (ucast q :: u32) = int (unat q)"
proof -
  have "int (unat q) < 2147483648" using assms by linarith
  then have q: "uint q < 2147483648" by simp
  moreover have "0 \<le> uint q" by simp
  ultimately have "uint q mod 4294967296 = uint q" by (intro mod_pos_pos_trivial) linarith+
  then have "uint (ucast q :: u32) = uint q" by (simp add: unsigned_ucast_eq take_bit_eq_mod)
  then show ?thesis using q by (simp add: sint_uint signed_take_bit_eq_if_positive bit_iff_odd take_bit_int_eq_self)
qed

lemma quotient_below:
  assumes "unat done_bytes < unat total_bytes" "m < 18446744073709551616"
  shows "unat (done_bytes * of_nat m div total_bytes) < max 1 m" and
    "unat done_bytes * m < 18446744073709551616
      \<Longrightarrow> unat (done_bytes * of_nat m div total_bytes :: u64) = unat done_bytes * m div unat total_bytes"
proof -
  have p: "unat (done_bytes * of_nat m :: u64) = (unat done_bytes * m) mod 18446744073709551616"
    using assms(2) by (simp add: unat_word_ariths unat_of_nat_small)
  have "(unat done_bytes * m) mod 18446744073709551616 \<le> unat done_bytes * m" by simp
  also have "\<dots> < unat total_bytes * max 1 m"
    using assms(1) mult_less_mono1 [OF assms(1), of m] by (cases "m = 0") (simp_all add: max_def)
  finally show "unat (done_bytes * of_nat m div total_bytes) < max 1 m"
    unfolding unat_div p by (simp add: less_mult_imp_div_less mult.commute)
  show "unat done_bytes * m < 18446744073709551616 \<Longrightarrow>
      unat (done_bytes * of_nat m div total_bytes :: u64) = unat done_bytes * m div unat total_bytes"
    unfolding unat_div p by simp
qed

lemma percent_spec:
  shows "0 \<le> avar_progress_percent d t" "avar_progress_percent d t \<le> 100"
    "avar_progress_percent d t = 100 \<longleftrightarrow> t \<noteq> 0 \<and> t \<le> d"
    "d < t \<Longrightarrow> unat d * 100 < 18446744073709551616 \<Longrightarrow> avar_progress_percent d t = int (unat d * 100 div unat t)"
proof -
  have q: "unat (d * 100 div t) < 100" if "\<not> t \<le> d"
    using quotient_below(1) [of d t 100] that by (simp add: word_le_nat_alt)
  have s: "avar_progress_percent d t = int (unat (d * 100 div t))" if "\<not> t \<le> d"
    using that q [OF that] sint_small [of "d * 100 div t"] by (auto simp: avar_progress_percent_def)
  show "0 \<le> avar_progress_percent d t" "avar_progress_percent d t \<le> 100"
    "avar_progress_percent d t = 100 \<longleftrightarrow> t \<noteq> 0 \<and> t \<le> d"
  proof -
    consider "t = 0" | "t \<noteq> 0" "t \<le> d" | "\<not> t \<le> d" by blast
    then have "0 \<le> avar_progress_percent d t \<and> avar_progress_percent d t \<le> 100
        \<and> (avar_progress_percent d t = 100 \<longleftrightarrow> t \<noteq> 0 \<and> t \<le> d)"
    proof cases
      case 3
      have "int (unat (d * 100 div t)) < 100" using q [OF 3] by linarith
      then show ?thesis using s [OF 3] 3 by linarith
    qed (simp_all add: avar_progress_percent_def)
    then show "0 \<le> avar_progress_percent d t" "avar_progress_percent d t \<le> 100"
      "avar_progress_percent d t = 100 \<longleftrightarrow> t \<noteq> 0 \<and> t \<le> d" by blast+
  qed
  show "d < t \<Longrightarrow> unat d * 100 < 18446744073709551616 \<Longrightarrow> avar_progress_percent d t = int (unat d * 100 div unat t)"
  proof -
    assume d: "d < t" and "unat d * 100 < 18446744073709551616"
    then have "unat (d * 100 div t) = unat d * 100 div unat t"
      using quotient_below(2) [of d t 100] by (simp add: word_less_nat_alt)
    moreover have "\<not> t \<le> d" using d by simp
    ultimately show "avar_progress_percent d t = int (unat d * 100 div unat t)" using s by metis
  qed
qed

subsection \<open>Bars\<close>

lemma unat_word_of_int_small:
  assumes "0 \<le> w" "w < 2 ^ 31"
  shows "unat (word_of_int w :: u64) = nat w"
proof -
  have "uint (word_of_int w :: u64) = w" using assms by (simp add: uint_word_of_int)
  then show ?thesis by (simp add: unat_eq_nat_uint)
qed

lemma draw_bar_cells:
  assumes "buf \<noteq> None" "0 < width" "width < 2 ^ 31" "nat width + 3 \<le> unat buflen"
  shows "\<exists>cells. draw_bar width filled buf buflen = Some (''['' @ cells @ '']'') \<and> length cells = nat width
     \<and> (\<forall>i < nat width. cells ! i = (if filled (int i) then CHR ''='' else CHR '' ''))"
proof -
  have "unat (word_of_int width + 3 :: u64) = nat width + 3"
    using unat_word_of_int_small [of width] assms by (subst unat_add_small) simp_all
  then have "\<not> buflen < word_of_int width + 3" "buflen \<noteq> 0"
    using assms by (auto simp: word_less_nat_alt)
  then show ?thesis using assms
    by (intro exI [of _ "map (\<lambda>i. if filled i then CHR ''='' else CHR '' '') [0..width - 1]"])
      (auto simp: draw_bar_def)
qed

text \<open>The bytes of a column that lie in one of the ranges.\<close>

definition in_ranges :: "AvarByteRange list \<Rightarrow> nat \<Rightarrow> bool" where
  "in_ranges rs b \<longleftrightarrow> list_ex (\<lambda>r. unat (ar_start r) \<le> b \<and> b \<le> unat (ar_end r)) rs"

definition ranges_apart :: "u64 \<Rightarrow> AvarByteRange list \<Rightarrow> bool" where
  "ranges_apart total_size rs \<longleftrightarrow>
     list_all (\<lambda>r. ar_start r \<le> ar_end r \<and> ar_end r < total_size) rs
     \<and> sorted_wrt (\<lambda>r s. ar_end r < ar_start s \<or> ar_end s < ar_start r) rs"

definition in_column :: "u64 \<Rightarrow> u64 \<Rightarrow> AvarByteRange list \<Rightarrow> nat set" where
  "in_column lo hi rs = {b. unat lo \<le> b \<and> b < unat hi \<and> in_ranges rs b}"

lemma in_column_finite [simp]: "finite (in_column lo hi rs)"
  by (rule finite_subset [of _ "{..< unat hi}"]) (auto simp: in_column_def)

lemma in_column_card: "lo \<le> hi \<Longrightarrow> card (in_column lo hi rs) \<le> unat hi - unat lo"
  using card_mono [of "{unat lo ..< unat hi}" "in_column lo hi rs"] by (fastforce simp: in_column_def)

lemma span_card:
  assumes "lo < hi" "ar_start r \<le> ar_end r" "ar_end r < total_size"
  shows "unat (span_bytes_covered lo hi (ar_start r) (ar_end r + 1)) = card (in_column lo hi [r])"
proof -
  have e: "unat (ar_end r + 1) = unat (ar_end r) + 1"
    using assms(3) by (simp add: u64_Suc_less)
  define a where "a = max (unat lo) (unat (ar_start r))"
  define b where "b = min (unat hi) (unat (ar_end r) + 1)"
  have "in_column lo hi [r] = {a ..< b}"
    by (auto simp: in_column_def in_ranges_def a_def b_def)
  moreover have "unat (span_bytes_covered lo hi (ar_start r) (ar_end r + 1)) = b - a"
    using assms e by (auto simp: span_bytes_covered_def Let_def a_def b_def word_less_nat_alt word_le_nat_alt unat_sub_le max_def min_def)
  ultimately show ?thesis by simp
qed

lemma column_sum_card:
  assumes "ranges_apart total_size rs" "lo < hi" "unat acc + card (in_column lo hi rs) \<le> unat hi - unat lo"
  shows "unat (column_sum rs lo hi acc) = unat acc + card (in_column lo hi rs)"
  using assms
proof (induction rs arbitrary: acc)
  case Nil
  then show ?case by (simp add: in_column_def in_ranges_def)
next
  case (Cons r rs)
  have r: "ar_start r \<le> ar_end r" "ar_end r < total_size" and rs: "ranges_apart total_size rs"
    using Cons.prems(1) by (auto simp: ranges_apart_def)
  have split: "in_column lo hi (r # rs) = in_column lo hi [r] \<union> in_column lo hi rs"
    by (auto simp: in_column_def in_ranges_def)
  have "in_column lo hi [r] \<inter> in_column lo hi rs = {}"
    using Cons.prems(1) by (fastforce simp: ranges_apart_def in_column_def in_ranges_def list_ex_iff word_less_nat_alt)
  then have c: "card (in_column lo hi (r # rs)) = card (in_column lo hi [r]) + card (in_column lo hi rs)"
    unfolding split by (intro card_Un_disjoint) simp_all
  define acc' where "acc' = acc + span_bytes_covered lo hi (ar_start r) (ar_end r + 1)"
  have s: "unat (span_bytes_covered lo hi (ar_start r) (ar_end r + 1)) = card (in_column lo hi [r])"
    by (rule span_card [OF Cons.prems(2) r])
  have "unat acc' = unat acc + card (in_column lo hi [r])"
    unfolding acc'_def using Cons.prems(3) c s u64_bound [of hi] by (subst unat_add_small) simp_all
  then show ?case
    using Cons.IH [OF rs Cons.prems(2), of acc'] Cons.prems(3) c by (simp add: acc'_def)
qed

lemma column_fully_done_iff:
  assumes "ranges_apart total_size rs"
  shows "column_fully_done (Some rs) lo hi \<longleftrightarrow> lo < hi \<and> (\<forall>b. unat lo \<le> b \<and> b < unat hi \<longrightarrow> in_ranges rs b)"
proof (cases "lo < hi")
  case False
  then show ?thesis by (simp add: column_fully_done_def not_less)
next
  case True
  have sub: "in_column lo hi rs \<subseteq> {unat lo ..< unat hi}" by (auto simp: in_column_def)
  have le: "card (in_column lo hi rs) \<le> unat hi - unat lo" using True by (intro in_column_card) simp
  have "unat (column_sum rs lo hi 0) = card (in_column lo hi rs)"
    using column_sum_card [OF assms True, of 0] le u64_bound [of hi] by simp
  moreover have "unat (hi - lo) = unat hi - unat lo"
    using True by (simp add: unat_sub_le word_less_nat_alt)
  ultimately have "column_fully_done (Some rs) lo hi \<longleftrightarrow> card (in_column lo hi rs) = unat hi - unat lo"
    using True le by (auto simp: column_fully_done_def column_bytes_done_def Let_def word_le_nat_alt word_less_nat_alt)
  also have "\<dots> \<longleftrightarrow> in_column lo hi rs = {unat lo ..< unat hi}"
    using card_subset_eq [OF _ sub] by fastforce
  also have "\<dots> \<longleftrightarrow> {unat lo ..< unat hi} \<subseteq> in_column lo hi rs"
    using sub by blast
  also have "\<dots> \<longleftrightarrow> (\<forall>b. unat lo \<le> b \<and> b < unat hi \<longrightarrow> in_ranges rs b)"
    by (simp add: in_column_def subset_iff)
  finally show ?thesis using True by simp
qed

lemma column_start_nat:
  assumes "0 < width" "int i \<le> width" "unat total_size * nat width < 18446744073709551616" "width < 2 ^ 31"
  shows "unat (column_start total_size width (int i)) = i * unat total_size div nat width"
proof -
  have i: "unat (word_of_int (int i) :: u64) = i"
    using unat_word_of_int_small [of "int i"] assms by simp
  have w: "unat (word_of_int width :: u64) = nat width"
    using unat_word_of_int_small [of width] assms by simp
  have "i * unat total_size \<le> nat width * unat total_size"
    using assms by (intro mult_right_mono) simp_all
  then have "i * unat total_size < 18446744073709551616"
    using assms(3) unfolding mult.commute [of "unat total_size"] by (rule le_less_trans)
  then have "unat (word_of_int (int i) * total_size) = i * unat total_size"
    using i by (subst unat_mult_small) simp_all
  then show ?thesis using w by (simp add: column_start_def unat_div)
qed

text \<open>Byte \<open>b\<close> belongs to column \<open>i\<close> exactly when \<open>i\<close> is \<open>((b + 1) * width - 1) div total\<close>.\<close>

lemma columns_tile:
  assumes "0 < w" "b < (total_bytes :: nat)"
  shows "\<exists>!i. i < w \<and> i * total_bytes div w \<le> b \<and> b < (i + 1) * total_bytes div w"
proof -
  have lo: "i * total_bytes div w \<le> b \<longleftrightarrow> i * total_bytes < (b + 1) * w" for i
    using assms(1) by (metis Suc_eq_plus1 less_Suc_eq_le div_less_iff_less_mult)
  have hi: "b < (i + 1) * total_bytes div w \<longleftrightarrow> (b + 1) * w \<le> (i + 1) * total_bytes" for i
    using assms(1) by (metis Suc_eq_plus1 Suc_le_eq less_eq_div_iff_mult_less_eq)
  define k where "k = ((b + 1) * w - 1) div total_bytes"
  have t: "0 < total_bytes" using assms by simp
  have iff: "i * total_bytes < (b + 1) * w \<and> (b + 1) * w \<le> (i + 1) * total_bytes \<longleftrightarrow> i = k" for i
  proof -
    have pos: "0 < (b + 1) * w" using assms by simp
    have "i * total_bytes < (b + 1) * w \<and> (b + 1) * w \<le> (i + 1) * total_bytes
        \<longleftrightarrow> i * total_bytes \<le> (b + 1) * w - 1 \<and> (b + 1) * w - 1 < Suc i * total_bytes"
      using pos by (simp add: algebra_simps) linarith
    also have "\<dots> \<longleftrightarrow> i = k"
      unfolding k_def using t div_nat_eqI [of total_bytes i "(b + 1) * w - 1"]
      by (metis div_less_iff_less_mult less_eq_div_iff_mult_less_eq mult.commute lessI le_refl le_antisym less_Suc_eq_le)
    finally show ?thesis .
  qed
  have "k < w"
  proof -
    have "(b + 1) * w \<le> total_bytes * w" using assms by (intro mult_right_mono) simp_all
    moreover have "0 < (b + 1) * w" using assms by simp
    ultimately have "(b + 1) * w - 1 < w * total_bytes" unfolding mult.commute [of w] by linarith
    then show ?thesis unfolding k_def by (simp add: less_mult_imp_div_less)
  qed
  then have "i < w \<and> i * total_bytes < (b + 1) * w \<and> (b + 1) * w \<le> (i + 1) * total_bytes \<longleftrightarrow> i = k" for i
    using iff [of i] by fast
  then show ?thesis unfolding lo hi by simp
qed

lemma spatial_bar_spec:
  assumes "buf \<noteq> None" "0 < width" "width < 2 ^ 31" "nat width + 3 \<le> unat buflen" "0 < total_size"
    "unat total_size * nat width < 18446744073709551616" "ranges_apart total_size rs"
  shows "\<exists>cells. format_spatial_progress_bar total_size (Some rs) width buf buflen = Some (''['' @ cells @ '']'')
      \<and> length cells = nat width
      \<and> (\<forall>i < nat width. cells ! i = CHR ''='' \<longleftrightarrow>
            i * unat total_size div nat width < (i + 1) * unat total_size div nat width
            \<and> (\<forall>b. i * unat total_size div nat width \<le> b \<and> b < (i + 1) * unat total_size div nat width
                  \<longrightarrow> in_ranges rs b))"
proof -
  define filled where "filled = (\<lambda>i. total_size > 0 \<and> Some rs \<noteq> None
            \<and> column_fully_done (Some rs) (column_start total_size width i) (column_start total_size width (i + 1)))"
  obtain cells where cells: "draw_bar width filled buf buflen = Some (''['' @ cells @ '']'')" "length cells = nat width"
    "\<forall>i < nat width. cells ! i = (if filled (int i) then CHR ''='' else CHR '' '')"
    using draw_bar_cells [OF assms(1-4)] by blast
  have "cells ! i = CHR ''='' \<longleftrightarrow>
            i * unat total_size div nat width < (i + 1) * unat total_size div nat width
            \<and> (\<forall>b. i * unat total_size div nat width \<le> b \<and> b < (i + 1) * unat total_size div nat width
                  \<longrightarrow> in_ranges rs b)" if i: "i < nat width" for i
  proof -
    have a: "unat (column_start total_size width (int i)) = i * unat total_size div nat width"
      using assms i by (intro column_start_nat) simp_all
    have b: "unat (column_start total_size width (int i + 1)) = (i + 1) * unat total_size div nat width"
      using assms i column_start_nat [of width "i + 1" total_size] by (simp add: add.commute)
    have "cells ! i = CHR ''='' \<longleftrightarrow> filled (int i)" using cells(3) i by simp
    also have "\<dots> \<longleftrightarrow> column_fully_done (Some rs) (column_start total_size width (int i)) (column_start total_size width (int i + 1))"
      using assms(5) by (simp add: filled_def)
    finally show ?thesis
      unfolding column_fully_done_iff [OF assms(7)] word_less_nat_alt a b .
  qed
  then show ?thesis using cells unfolding format_spatial_progress_bar_def filled_def by blast
qed

text \<open>The spatial progress bar.  In a bar of \<open>width\<close> cells, cell \<open>i\<close> is filled exactly when
  its column of the file is not empty and every byte of it lies in a finished range; the columns
  split the file, each byte belongs to exactly one.\<close>

theorem spatial_progress_bar_correct:
  assumes "buf \<noteq> None" "0 < width" "width < 2 ^ 31" "nat width + 3 \<le> unat buflen" "0 < total_size"
    "unat total_size * nat width < 18446744073709551616" "ranges_apart total_size rs"
  shows "(\<exists>cells. format_spatial_progress_bar total_size (Some rs) width buf buflen = Some (''['' @ cells @ '']'')
      \<and> length cells = nat width
      \<and> (\<forall>i < nat width. cells ! i = CHR ''='' \<longleftrightarrow>
            i * unat total_size div nat width < (i + 1) * unat total_size div nat width
            \<and> (\<forall>b. i * unat total_size div nat width \<le> b \<and> b < (i + 1) * unat total_size div nat width
                  \<longrightarrow> in_ranges rs b)))
    \<and> (\<forall>b < unat total_size. \<exists>!i. i < nat width
          \<and> i * unat total_size div nat width \<le> b \<and> b < (i + 1) * unat total_size div nat width)"
  using spatial_bar_spec [OF assms] columns_tile [of "nat width"] assms(2) by simp

theorem spatial_progress_bar_correct_witness:
  "\<exists>cells. format_spatial_progress_bar 10 (Some [\<lparr>ar_start = 0, ar_end = 3\<rparr>, \<lparr>ar_start = 8, ar_end = 9\<rparr>]) 5 (Some ''old'') 8
      = Some (''['' @ cells @ '']'') \<and> length cells = 5 \<and> cells ! 1 = CHR ''='' \<and> cells ! 2 \<noteq> CHR ''=''"
proof -
  let ?rs = "[\<lparr>ar_start = 0, ar_end = 3\<rparr>, \<lparr>ar_start = 8, ar_end = 9\<rparr>]"
  obtain cells where c: "format_spatial_progress_bar 10 (Some ?rs) 5 (Some ''old'') 8 = Some (''['' @ cells @ '']'')"
    "length cells = 5" and
    "\<forall>i < 5. cells ! i = CHR ''='' \<longleftrightarrow> i * 10 div 5 < (i + 1) * 10 div 5
            \<and> (\<forall>b. i * 10 div 5 \<le> b \<and> b < (i + 1) * 10 div 5 \<longrightarrow> in_ranges ?rs b)"
    using spatial_progress_bar_correct [of "Some ''old''" 5 8 10 ?rs] by (force simp: ranges_apart_def)
  then have cell: "i < 5 \<Longrightarrow> cells ! i = CHR ''='' \<longleftrightarrow> i * 10 div 5 < (i + 1) * 10 div 5
            \<and> (\<forall>b. i * 10 div 5 \<le> b \<and> b < (i + 1) * 10 div 5 \<longrightarrow> in_ranges ?rs b)" for i by blast
  have "cells ! 1 = CHR ''=''" using cell [of 1] by (simp add: in_ranges_def)
  moreover have "cells ! 2 \<noteq> CHR ''=''" using cell [of 2] by (auto simp: in_ranges_def)
  ultimately show ?thesis using c by blast
qed

subsection \<open>Rates\<close>

lemma speed_ema_between:
  assumes "0 < prev_bps" "0 \<le> sample_bps" "0 < tau_ms"
  shows "min prev_bps sample_bps \<le> avar_speed_ema prev_bps sample_bps elapsed_ms tau_ms"
    and "avar_speed_ema prev_bps sample_bps elapsed_ms tau_ms \<le> max prev_bps sample_bps"
proof -
  define a where "a = 1 - exp (- of_nat (unat elapsed_ms) / tau_ms)"
  have "0 \<le> (of_nat (unat elapsed_ms) :: real) / tau_ms"
    using assms(3) by (intro divide_nonneg_pos of_nat_0_le_iff)
  then have "exp (- of_nat (unat elapsed_ms) / tau_ms) \<le> 1" by (simp only: exp_le_one_iff minus_divide_left [symmetric] neg_le_0_iff_le)
  then have a: "0 \<le> a" "a \<le> 1" unfolding a_def by simp_all
  have e: "avar_speed_ema prev_bps sample_bps elapsed_ms tau_ms =
      (if elapsed_ms = 0 then prev_bps else (1 - a) * prev_bps + a * sample_bps)"
    using assms by (simp add: avar_speed_ema_def a_def algebra_simps)
  show "min prev_bps sample_bps \<le> avar_speed_ema prev_bps sample_bps elapsed_ms tau_ms"
    unfolding e using a convex_bound_le [of "- prev_bps" "- min prev_bps sample_bps" "- sample_bps" "1 - a" a] by auto
  show "avar_speed_ema prev_bps sample_bps elapsed_ms tau_ms \<le> max prev_bps sample_bps"
    unfolding e using a convex_bound_le [of prev_bps "max prev_bps sample_bps" sample_bps "1 - a" a] by auto
qed

subsection \<open>Accepted URLs\<close>

lemma http_url_spec:
  "is_valid_http_url (Some u) \<longleftrightarrow>
     (\<exists>scheme rest. u = scheme @ ''://'' @ rest \<and> (scheme = ''http'' \<or> scheme = ''https'') \<and> rest \<noteq> []
        \<and> is_host (case strchr rest CHR ''@'' of None \<Rightarrow> rest | Some user_at \<Rightarrow> tl user_at))"
proof
  assume v: "is_valid_http_url (Some u)"
  then obtain t where t: "strstr u ''://'' = Some t"
    by (auto simp: is_valid_http_url_def is_valid_url_def split: option.splits)
  obtain a b where "u = a @ t" "t = ''://'' @ b" using strstr_Some [OF t] by blast
  then show "\<exists>scheme rest. u = scheme @ ''://'' @ rest \<and> (scheme = ''http'' \<or> scheme = ''https'') \<and> rest \<noteq> []
        \<and> is_host (case strchr rest CHR ''@'' of None \<Rightarrow> rest | Some user_at \<Rightarrow> tl user_at)"
    using v t by (intro exI [of _ a] exI [of _ b])
      (auto simp: is_valid_http_url_def is_valid_url_def Let_def is_scheme_def split: if_splits)
next
  assume "\<exists>scheme rest. u = scheme @ ''://'' @ rest \<and> (scheme = ''http'' \<or> scheme = ''https'') \<and> rest \<noteq> []
        \<and> is_host (case strchr rest CHR ''@'' of None \<Rightarrow> rest | Some user_at \<Rightarrow> tl user_at)"
  then obtain scheme rest where u: "u = scheme @ ''://'' @ rest" "scheme = ''http'' \<or> scheme = ''https''" "rest \<noteq> []"
    and h: "is_host (case strchr rest CHR ''@'' of None \<Rightarrow> rest | Some user_at \<Rightarrow> tl user_at)" by blast
  have s: "strstr u ''://'' = Some (''://'' @ rest)" using u(1,2) by auto
  have "upto_suffix u (''://'' @ rest) = scheme" unfolding u(1) by (rule upto_suffix_append)
  then show "is_valid_http_url (Some u)"
    using s u(2,3) h by (auto simp: is_valid_http_url_def is_valid_url_def Let_def is_scheme_def)
qed

text \<open>The authority is not looked at as a whole: no host at all, and a host behind an \<open>@\<close> of the path.\<close>

lemma empty_host_accepted: "is_valid_http_url (Some ''http:///file'')"
  by (simp add: is_valid_http_url_def is_valid_url_def is_scheme_def is_host_def upto_suffix_def)

lemma host_with_space_accepted: "is_valid_http_url (Some ''http://bad host/a@b'')"
  by (simp add: is_valid_http_url_def is_valid_url_def is_scheme_def is_host_def upto_suffix_def is_host_char_def
      isalnum_def isalpha_def islower_def code_of_def)

end
