(* ===== verification/Thread_Pool.thy ===== *)
theory Thread_Pool
  imports Prelude "HOL-Library.Multiset"
begin

text \<open>
  The thread pool of \<^verbatim>\<open>src/src/thread_pool.c\<close> (POSIX branch): the linked list of works on a heap,
  the workers, submission and destruction as steps that interleave.  A step is what runs under the lock
  or between two uses of it; waiting on the condition variable releases the lock and falls asleep in
  one step, signal and broadcast wake sleepers.  \<open>tp_accepted\<close>, \<open>tp_started\<close> and \<open>tp_done\<close> record
  what happened; nothing reads them.
\<close>

subsection \<open>The list of works\<close>

type_synonym addr = nat
type_synonym task = "nat \<times> nat"

record ThreadPoolWork =
  tw_task :: nat
  tw_arg :: nat
  tw_next :: "addr option"

type_synonym work_heap = "addr \<Rightarrow> ThreadPoolWork option"

datatype worker = W_start | W_locked | W_wait | W_asleep | W_woken | W_run addr | W_exited

datatype closer = C_none | C_flagged | C_joining nat | C_closed

record ThreadPool =
  tp_heap :: work_heap
  tp_head :: "addr option"
  tp_tail :: "addr option"
  tp_shutdown :: bool
  tp_lock :: "nat option"
  tp_workers :: "worker list"
  tp_closer :: closer
  tp_accepted :: "task list"
  tp_started :: "task list"
  tp_done :: "task list"

definition set_next :: "addr \<Rightarrow> addr option \<Rightarrow> work_heap \<Rightarrow> work_heap" where
  "set_next a n h = (case h a of None \<Rightarrow> h | Some w \<Rightarrow> h(a \<mapsto> w\<lparr>tw_next := n\<rparr>))"

definition next_of :: "work_heap \<Rightarrow> addr \<Rightarrow> addr option" where
  "next_of h a = (case h a of None \<Rightarrow> None | Some w \<Rightarrow> tw_next w)"

definition task_at :: "work_heap \<Rightarrow> addr \<Rightarrow> task" where
  "task_at h a = (case h a of None \<Rightarrow> (0, 0) | Some w \<Rightarrow> (tw_task w, tw_arg w))"

definition thread_pool_push_locked :: "addr \<Rightarrow> ThreadPool \<Rightarrow> ThreadPool" where
  "thread_pool_push_locked work pool =
     (let h = set_next work None (tp_heap pool)
      in case tp_tail pool of
           None \<Rightarrow> pool\<lparr>tp_heap := h, tp_head := Some work, tp_tail := Some work\<rparr>
         | Some t \<Rightarrow> pool\<lparr>tp_heap := set_next t (Some work) h, tp_tail := Some work\<rparr>)"

definition thread_pool_pop_locked :: "ThreadPool \<Rightarrow> addr option \<times> ThreadPool" where
  "thread_pool_pop_locked pool =
     (case tp_head pool of None \<Rightarrow> (None, pool)
      | Some work \<Rightarrow>
          let pool = pool\<lparr>tp_head := next_of (tp_heap pool) work\<rparr>;
              pool = (if tp_head pool = None then pool\<lparr>tp_tail := None\<rparr> else pool)
          in (Some work, pool\<lparr>tp_heap := set_next work None (tp_heap pool)\<rparr>))"

text \<open>\<open>work = work->next\<close> until the end of the list.\<close>

partial_function (option) depth_loop :: "work_heap \<Rightarrow> addr option \<Rightarrow> nat \<Rightarrow> nat option" where
  "depth_loop h work depth =
     (case work of None \<Rightarrow> Some depth | Some a \<Rightarrow> depth_loop h (next_of h a) (Suc depth))"

definition thread_pool_queue_depth :: "ThreadPool \<Rightarrow> nat option" where
  "thread_pool_queue_depth pool = depth_loop (tp_heap pool) (tp_head pool) 0"

partial_function (option) free_loop :: "work_heap \<Rightarrow> addr option \<Rightarrow> work_heap option" where
  "free_loop h work =
     (case work of None \<Rightarrow> Some h
      | Some a \<Rightarrow> let nxt = next_of h a in free_loop (h(a := None)) nxt)"

subsection \<open>Workers\<close>

definition set_worker :: "nat \<Rightarrow> worker \<Rightarrow> ThreadPool \<Rightarrow> ThreadPool" where
  "set_worker i w pool = pool\<lparr>tp_workers := (tp_workers pool)[i := w]\<rparr>"

text \<open>The next step of worker \<open>i\<close>, nothing when it has to wait or has returned.\<close>

definition take_lock :: "nat \<Rightarrow> ThreadPool \<Rightarrow> ThreadPool option" where
  "take_lock i pool =
     (if tp_lock pool = None then Some (set_worker i W_locked (pool\<lparr>tp_lock := Some i\<rparr>)) else None)"

definition holding_lock :: "nat \<Rightarrow> ThreadPool \<Rightarrow> ThreadPool" where
  "holding_lock i pool =
     (if tp_head pool = None \<and> \<not> tp_shutdown pool then set_worker i W_wait pool
      else if tp_shutdown pool \<and> tp_head pool = None then set_worker i W_exited (pool\<lparr>tp_lock := None\<rparr>)
      else let (work, pool) = thread_pool_pop_locked pool; pool = pool\<lparr>tp_lock := None\<rparr>
           in (case work of None \<Rightarrow> set_worker i W_start pool
               | Some a \<Rightarrow> set_worker i (W_run a)
                            (pool\<lparr>tp_started := tp_started pool @ [task_at (tp_heap pool) a]\<rparr>)))"

definition finish_task :: "nat \<Rightarrow> addr \<Rightarrow> ThreadPool \<Rightarrow> ThreadPool" where
  "finish_task i a pool =
     set_worker i W_start
       (pool\<lparr>tp_done := tp_done pool @ [task_at (tp_heap pool) a], tp_heap := (tp_heap pool)(a := None)\<rparr>)"

definition thread_pool_worker :: "nat \<Rightarrow> ThreadPool \<Rightarrow> ThreadPool option" where
  "thread_pool_worker i pool =
     (case tp_workers pool ! i of
        W_start \<Rightarrow> take_lock i pool
      | W_woken \<Rightarrow> take_lock i pool
      | W_locked \<Rightarrow> Some (holding_lock i pool)
      | W_wait \<Rightarrow> Some (set_worker i W_asleep (pool\<lparr>tp_lock := None\<rparr>))
      | W_run a \<Rightarrow> Some (finish_task i a pool)
      | W_asleep \<Rightarrow> None
      | W_exited \<Rightarrow> None)"

subsection \<open>Submission\<close>

definition wake_worker :: "nat option \<Rightarrow> ThreadPool \<Rightarrow> ThreadPool" where
  "wake_worker wake pool = (case wake of None \<Rightarrow> pool | Some i \<Rightarrow> set_worker i W_woken pool)"

text \<open>\<open>work\<close> is the answer of \<open>malloc\<close>, \<open>wake\<close> the sleeper that the signal wakes.\<close>

definition thread_pool_submit ::
  "addr option \<Rightarrow> nat option \<Rightarrow> nat option \<Rightarrow> nat \<Rightarrow> ThreadPool \<Rightarrow> bool \<times> ThreadPool" where
  "thread_pool_submit work wake task arg pool =
     (case task of None \<Rightarrow> (False, pool)
      | Some f \<Rightarrow>
          (case work of None \<Rightarrow> (False, pool)
           | Some a \<Rightarrow>
               if tp_shutdown pool then (False, pool)
               else let pool = pool\<lparr>tp_heap := (tp_heap pool)(a \<mapsto> \<lparr>tw_task = f, tw_arg = arg, tw_next = None\<rparr>)\<rparr>;
                        pool = thread_pool_push_locked a pool;
                        pool = wake_worker wake pool
                    in (True, pool\<lparr>tp_accepted := tp_accepted pool @ [(f, arg)]\<rparr>)))"

text \<open>The signal wakes one sleeper when there is one.\<close>

definition signal_choice :: "ThreadPool \<Rightarrow> nat option \<Rightarrow> bool" where
  "signal_choice pool wake \<longleftrightarrow>
     (case wake of None \<Rightarrow> W_asleep \<notin> set (tp_workers pool)
      | Some i \<Rightarrow> i < length (tp_workers pool) \<and> tp_workers pool ! i = W_asleep)"

subsection \<open>Creation and destruction\<close>

text \<open>Destroying: the flag is set and the sleepers are woken without the lock, then the workers are
  joined in order and what is left of the list is freed.\<close>

definition wake_all :: "worker list \<Rightarrow> worker list" where
  "wake_all ws = map (\<lambda>w. if w = W_asleep then W_woken else w) ws"

definition thread_pool_destroy :: "ThreadPool \<Rightarrow> ThreadPool option" where
  "thread_pool_destroy pool =
     (case tp_closer pool of
        C_none \<Rightarrow> Some (pool\<lparr>tp_shutdown := True, tp_closer := C_flagged\<rparr>)
      | C_flagged \<Rightarrow> Some (pool\<lparr>tp_workers := wake_all (tp_workers pool), tp_closer := C_joining 0\<rparr>)
      | C_joining k \<Rightarrow>
          if k < length (tp_workers pool)
          then if tp_workers pool ! k = W_exited then Some (pool\<lparr>tp_closer := C_joining (Suc k)\<rparr>) else None
          else (case free_loop (tp_heap pool) (tp_head pool) of
                  None \<Rightarrow> None
                | Some h \<Rightarrow> Some (pool\<lparr>tp_heap := h, tp_closer := C_closed\<rparr>))
      | C_closed \<Rightarrow> None)"

definition new_pool :: "nat \<Rightarrow> ThreadPool" where
  "new_pool n = \<lparr>tp_heap = (\<lambda>_. None), tp_head = None, tp_tail = None, tp_shutdown = False, tp_lock = None,
     tp_workers = replicate n W_start, tp_closer = C_none, tp_accepted = [], tp_started = [], tp_done = []\<rparr>"

text \<open>Creation with the answers of the system: \<open>calloc\<close> for the pool, the initialization of the lock
  and the condition, \<open>calloc\<close> for the workers, and the threads that can be created.  The second component
  lists the threads that the destruction of a half-built pool joins.\<close>

fun create_loop :: "bool list \<Rightarrow> nat \<Rightarrow> bool" where
  "create_loop answers 0 = True"
| "create_loop [] (Suc n) = False"
| "create_loop (ok # answers) (Suc n) = (if ok then create_loop answers n else False)"

definition thread_pool_create :: "bool \<Rightarrow> bool \<Rightarrow> bool \<Rightarrow> bool list \<Rightarrow> nat \<Rightarrow> ThreadPool option \<times> nat list" where
  "thread_pool_create calloc_ok init_ok workers_ok created worker_count =
     (if worker_count = 0 then (None, [])
      else if \<not> calloc_ok then (None, [])
      else if \<not> init_ok then (None, [])
      else if \<not> workers_ok then (None, [])
      else if create_loop created worker_count then (Some (new_pool worker_count), [])
      else (None, [0..<worker_count]))"

definition thread_pool_global :: "ThreadPool option \<Rightarrow> ThreadPool option \<Rightarrow> ThreadPool option" where
  "thread_pool_global g_global_pool created = (case g_global_pool of None \<Rightarrow> created | Some p \<Rightarrow> Some p)"

definition thread_pool_worker_count :: "ThreadPool option \<Rightarrow> nat" where
  "thread_pool_worker_count pool = (case pool of None \<Rightarrow> 0 | Some p \<Rightarrow> length (tp_workers p))"

subsection \<open>Runs\<close>

inductive worker_step :: "ThreadPool \<Rightarrow> ThreadPool \<Rightarrow> bool" where
  worker: "i < length (tp_workers pool) \<Longrightarrow> thread_pool_worker i pool = Some pool' \<Longrightarrow> worker_step pool pool'"

inductive client_step :: "ThreadPool \<Rightarrow> ThreadPool \<Rightarrow> bool" where
  submit: "tp_lock pool = None \<Longrightarrow> tp_closer pool \<noteq> C_closed \<Longrightarrow> signal_choice pool wake
     \<Longrightarrow> (case work of None \<Rightarrow> True | Some a \<Rightarrow> tp_heap pool a = None)
     \<Longrightarrow> client_step pool (snd (thread_pool_submit work wake task arg pool))"
| spurious: "i < length (tp_workers pool) \<Longrightarrow> tp_workers pool ! i = W_asleep
     \<Longrightarrow> client_step pool (set_worker i W_woken pool)"

inductive pool_step :: "ThreadPool \<Rightarrow> ThreadPool \<Rightarrow> bool" where
  of_worker: "worker_step pool pool' \<Longrightarrow> pool_step pool pool'"
| of_client: "client_step pool pool' \<Longrightarrow> pool_step pool pool'"
| of_closer: "thread_pool_destroy pool = Some pool' \<Longrightarrow> pool_step pool pool'"

inductive_cases worker_step_E: "worker_step pool pool'"
inductive_cases client_step_E: "client_step pool pool'"
inductive_cases pool_step_E: "pool_step pool pool'"

definition pool_reaches :: "nat \<Rightarrow> ThreadPool \<Rightarrow> bool" where
  "pool_reaches n = pool_step\<^sup>*\<^sup>* (new_pool n)"

end
