(* ===== verification/Thread_Pool_Correct.thy ===== *)
theory Thread_Pool_Correct
  imports Thread_Pool
begin

text \<open>
  The pool is correct: the linked list implements a queue (interface \<open>fifo_queue\<close>), tasks start in the
  order of submission and each of them once, workers do not lose a wake-up, and a finished
  destruction has run every accepted task.  What destruction can do wrong is shown at the end.
\<close>

subsection \<open>Queues\<close>

datatype 'a queue_op = Push 'a | Pop

fun list_op :: "'a queue_op \<Rightarrow> 'a list \<Rightarrow> 'a option \<times> 'a list" where
  "list_op (Push a) xs = (None, xs @ [a])"
| "list_op Pop [] = (None, [])"
| "list_op Pop (x # xs) = (Some x, xs)"

fun list_ops :: "'a queue_op list \<Rightarrow> 'a list \<Rightarrow> 'a option list \<times> 'a list" where
  "list_ops [] xs = ([], xs)"
| "list_ops (op # ops) xs =
     (let (a, ys) = list_op op xs; (as, zs) = list_ops ops ys in (a # as, zs))"

locale fifo_queue =
  fixes holds :: "'s \<Rightarrow> 'a list \<Rightarrow> bool"
    and fresh :: "'a \<Rightarrow> 's \<Rightarrow> bool"
    and push :: "'a \<Rightarrow> 's \<Rightarrow> 's"
    and pop :: "'s \<Rightarrow> 'a option \<times> 's"
  assumes push_holds: "holds s xs \<Longrightarrow> fresh a s \<Longrightarrow> a \<notin> set xs \<Longrightarrow> holds (push a s) (xs @ [a])"
    and pop_empty: "holds s [] \<Longrightarrow> pop s = (None, s)"
    and pop_holds: "holds s (x # xs) \<Longrightarrow> \<exists>s'. pop s = (Some x, s') \<and> holds s' xs"
begin

fun run_op :: "'a queue_op \<Rightarrow> 's \<Rightarrow> 'a option \<times> 's" where
  "run_op (Push a) s = (None, push a s)"
| "run_op Pop s = pop s"

definition allowed :: "'a queue_op \<Rightarrow> 's \<Rightarrow> 'a list \<Rightarrow> bool" where
  "allowed op s xs = (case op of Push a \<Rightarrow> fresh a s \<and> a \<notin> set xs | Pop \<Rightarrow> True)"

lemma run_op_refines:
  assumes "holds s xs" "allowed op s xs"
  shows "fst (run_op op s) = fst (list_op op xs) \<and> holds (snd (run_op op s)) (snd (list_op op xs))"
proof (cases op)
  case (Push a)
  then show ?thesis using assms push_holds by (simp add: allowed_def)
next
  case Pop
  show ?thesis
  proof (cases xs)
    case Nil
    then show ?thesis using assms pop_empty Pop by simp
  next
    case (Cons x ys)
    then show ?thesis using assms pop_holds [of s x ys] Pop by auto
  qed
qed

fun run_ops :: "'a queue_op list \<Rightarrow> 's \<Rightarrow> 'a list \<Rightarrow> 'a option list option" where
  "run_ops [] s xs = Some []"
| "run_ops (op # ops) s xs =
     (if \<not> allowed op s xs then None
      else map_option ((#) (fst (run_op op s))) (run_ops ops (snd (run_op op s)) (snd (list_op op xs))))"

lemma run_ops_refines: "holds s xs \<Longrightarrow> run_ops ops s xs = Some as \<Longrightarrow> as = fst (list_ops ops xs)"
proof (induction ops arbitrary: s xs as)
  case (Cons op ops)
  then have a: "allowed op s xs" by (auto split: if_splits)
  obtain bs where bs: "run_ops ops (snd (run_op op s)) (snd (list_op op xs)) = Some bs" "as = fst (run_op op s) # bs"
    using Cons.prems(2) a by auto
  have "fst (run_op op s) = fst (list_op op xs)" "holds (snd (run_op op s)) (snd (list_op op xs))"
    using run_op_refines [OF Cons.prems(1) a] by blast+
  then show ?case using Cons.IH [OF _ bs(1)] bs(2) by (simp add: split_beta)
qed simp

end

subsection \<open>The linked list\<close>

fun chain :: "work_heap \<Rightarrow> addr option \<Rightarrow> addr list \<Rightarrow> bool" where
  "chain h p [] \<longleftrightarrow> p = None"
| "chain h p (a # as) \<longleftrightarrow> p = Some a \<and> h a \<noteq> None \<and> chain h (next_of h a) as"

definition pool_queue :: "ThreadPool \<Rightarrow> addr list \<Rightarrow> bool" where
  "pool_queue pool xs \<longleftrightarrow> chain (tp_heap pool) (tp_head pool) xs \<and> distinct xs
     \<and> tp_tail pool = (if xs = [] then None else Some (last xs))"

definition allocated :: "addr \<Rightarrow> ThreadPool \<Rightarrow> bool" where
  "allocated a pool \<longleftrightarrow> tp_heap pool a \<noteq> None"

lemma chain_cong: "(\<And>a. a \<in> set xs \<Longrightarrow> h a = h' a) \<Longrightarrow> chain h p xs \<longleftrightarrow> chain h' p xs"
  by (induction xs arbitrary: p) (auto simp: next_of_def)

lemma set_next_other [simp]: "a \<noteq> b \<Longrightarrow> set_next b n h a = h a"
  by (simp add: set_next_def split: option.split)

lemma set_next_out: "b \<notin> set xs \<Longrightarrow> a \<in> set xs \<Longrightarrow> set_next b n h a = h a"
  by (rule set_next_other) blast

lemma set_next_None [simp]: "set_next b n h a = None \<longleftrightarrow> h a = None"
  by (auto simp: set_next_def split: option.split)

lemma next_of_set_next: "next_of (set_next b n h) a = (if a = b \<and> h b \<noteq> None then n else next_of h a)"
  by (auto simp: next_of_def set_next_def split: option.split)

lemma task_at_set_next [simp]: "task_at (set_next b n h) a = task_at h a"
  by (auto simp: task_at_def set_next_def split: option.split)

lemma chain_allocated: "chain h p xs \<Longrightarrow> a \<in> set xs \<Longrightarrow> h a \<noteq> None"
  by (induction xs arbitrary: p) auto

lemma chain_append:
  "chain h p xs \<Longrightarrow> xs \<noteq> [] \<Longrightarrow> distinct xs \<Longrightarrow> a \<notin> set xs \<Longrightarrow> h a \<noteq> None \<Longrightarrow> next_of h a = None
    \<Longrightarrow> chain (set_next (last xs) (Some a) h) p (xs @ [a])"
proof (induction xs arbitrary: p)
  case (Cons x xs)
  then show ?case by (cases "xs = []") (auto simp: next_of_set_next last_in_set)
qed simp

lemma push_queue:
  assumes "pool_queue pool xs" "allocated a pool" "a \<notin> set xs"
  shows "pool_queue (thread_pool_push_locked a pool) (xs @ [a])"
proof -
  let ?h = "set_next a None (tp_heap pool)"
  have c: "chain ?h (tp_head pool) xs"
    using assms chain_cong [of xs ?h "tp_heap pool"] set_next_out [OF assms(3)] by (simp add: pool_queue_def)
  have n: "next_of ?h a = None" "?h a \<noteq> None" using assms(2) by (simp_all add: next_of_set_next allocated_def)
  show ?thesis
  proof (cases "xs = []")
    case True
    then show ?thesis using assms n by (simp add: thread_pool_push_locked_def pool_queue_def Let_def)
  next
    case False
    then show ?thesis using chain_append [OF c False _ assms(3) n(2,1)] assms
      by (simp add: thread_pool_push_locked_def pool_queue_def Let_def)
  qed
qed

lemma pop_queue_empty: "pool_queue pool [] \<Longrightarrow> thread_pool_pop_locked pool = (None, pool)"
  by (simp add: pool_queue_def thread_pool_pop_locked_def)

lemma pop_queue:
  assumes "pool_queue pool (x # xs)"
  shows "\<exists>pool'. thread_pool_pop_locked pool = (Some x, pool') \<and> pool_queue pool' xs
     \<and> tp_heap pool' = set_next x None (tp_heap pool) \<and> tp_head pool' = (if xs = [] then None else Some (hd xs))
     \<and> pool' = pool\<lparr>tp_heap := tp_heap pool', tp_head := tp_head pool', tp_tail := tp_tail pool'\<rparr>"
proof -
  have c: "chain (tp_heap pool) (next_of (tp_heap pool) x) xs" "x \<notin> set xs" "distinct xs" "tp_head pool = Some x"
    using assms by (auto simp: pool_queue_def)
  then have "chain (set_next x None (tp_heap pool)) (next_of (tp_heap pool) x) xs"
    using chain_cong [of xs "set_next x None (tp_heap pool)" "tp_heap pool"] set_next_out [OF c(2)] by simp
  moreover have "next_of (tp_heap pool) x = (if xs = [] then None else Some (hd xs))" using c(1) by (cases xs) auto
  ultimately show ?thesis using c assms
    by (auto simp: thread_pool_pop_locked_def Let_def pool_queue_def)
qed

interpretation work_list: fifo_queue pool_queue allocated thread_pool_push_locked thread_pool_pop_locked
  using push_queue pop_queue_empty pop_queue by unfold_locales blast+

lemma depth_loop_chain: "chain h p xs \<Longrightarrow> depth_loop h p d = Some (d + length xs)"
  by (induction xs arbitrary: p d) (simp_all add: depth_loop.simps)

lemma queue_depth_length: "pool_queue pool xs \<Longrightarrow> thread_pool_queue_depth pool = Some (length xs)"
  using depth_loop_chain [of "tp_heap pool" "tp_head pool" xs 0] by (simp add: thread_pool_queue_depth_def pool_queue_def)

lemma free_loop_chain:
  "chain h p xs \<Longrightarrow> distinct xs \<Longrightarrow> free_loop h p = Some (\<lambda>a. if a \<in> set xs then None else h a)"
proof (induction xs arbitrary: h p)
  case Nil
  then show ?case by (simp add: free_loop.simps)
next
  case (Cons a as)
  then have "chain (h(a := None)) (next_of h a) as"
    using chain_cong [of as "h(a := None)" h] by (metis Cons.prems(1,2) chain.simps(2) distinct.simps(2) fun_upd_other)
  then have "free_loop (h(a := None)) (next_of h a) = Some (\<lambda>b. if b \<in> set as then None else (h(a := None)) b)"
    using Cons by simp
  moreover have "free_loop h p = free_loop (h(a := None)) (next_of h a)"
    using Cons.prems(1) by (subst free_loop.simps) (simp add: Let_def)
  ultimately show ?case by (auto intro!: ext)
qed

subsection \<open>What holds in every reachable state\<close>

definition in_section :: "worker \<Rightarrow> bool" where
  "in_section w \<longleftrightarrow> w = W_locked \<or> w = W_wait"

fun running :: "work_heap \<Rightarrow> worker \<Rightarrow> task list" where
  "running h (W_run a) = [task_at h a]"
| "running h W_start = []"
| "running h W_locked = []"
| "running h W_wait = []"
| "running h W_asleep = []"
| "running h W_woken = []"
| "running h W_exited = []"

definition all_running :: "work_heap \<Rightarrow> worker list \<Rightarrow> task multiset" where
  "all_running h ws = mset (concat (map (running h) ws))"

definition tasks_ok :: "ThreadPool \<Rightarrow> addr list \<Rightarrow> bool" where
  "tasks_ok pool xs \<longleftrightarrow> pool_queue pool xs
     \<and> tp_accepted pool = tp_started pool @ map (task_at (tp_heap pool)) xs
     \<and> mset (tp_started pool) = mset (tp_done pool) + all_running (tp_heap pool) (tp_workers pool)"

definition runs_ok :: "work_heap \<Rightarrow> worker list \<Rightarrow> addr list \<Rightarrow> bool" where
  "runs_ok h ws xs \<longleftrightarrow> (\<forall>i < length ws. \<forall>a. ws ! i = W_run a \<longrightarrow>
      h a \<noteq> None \<and> a \<notin> set xs \<and> (\<forall>j < length ws. ws ! j = W_run a \<longrightarrow> j = i))"

definition lock_ok :: "nat option \<Rightarrow> worker list \<Rightarrow> bool" where
  "lock_ok l ws \<longleftrightarrow> (\<forall>i < length ws. in_section (ws ! i) \<longleftrightarrow> l = Some i) \<and> (\<forall>i. l = Some i \<longrightarrow> i < length ws)"

definition wake_ok :: "bool \<Rightarrow> worker list \<Rightarrow> addr list \<Rightarrow> bool" where
  "wake_ok shutdown ws xs \<longleftrightarrow> (W_wait \<in> set ws \<longrightarrow> xs = [])
     \<and> (W_exited \<in> set ws \<longrightarrow> shutdown \<and> xs = [])
     \<and> (xs \<noteq> [] \<longrightarrow> (\<exists>w \<in> set ws. w \<noteq> W_asleep))"

definition close_ok :: "bool \<Rightarrow> closer \<Rightarrow> worker list \<Rightarrow> bool" where
  "close_ok shutdown cl ws \<longleftrightarrow> (shutdown \<longleftrightarrow> cl \<noteq> C_none)
     \<and> (\<forall>k. cl = C_joining k \<longrightarrow> (\<forall>i < k. i < length ws \<longrightarrow> ws ! i = W_exited))
     \<and> (cl = C_closed \<longrightarrow> (\<forall>w \<in> set ws. w = W_exited))"

definition pool_ok :: "nat \<Rightarrow> ThreadPool \<Rightarrow> addr list \<Rightarrow> bool" where
  "pool_ok n pool xs \<longleftrightarrow> tasks_ok pool xs \<and> runs_ok (tp_heap pool) (tp_workers pool) xs
     \<and> lock_ok (tp_lock pool) (tp_workers pool) \<and> wake_ok (tp_shutdown pool) (tp_workers pool) xs
     \<and> close_ok (tp_shutdown pool) (tp_closer pool) (tp_workers pool) \<and> length (tp_workers pool) = n"

lemma all_running_simps [simp]: "all_running h [] = {#}"
  "all_running h (w # ws) = mset (running h w) + all_running h ws"
  by (simp_all add: all_running_def)

lemma runs_okD:
  assumes "runs_ok h ws xs" "i < length ws" "ws ! i = W_run a"
  shows "h a \<noteq> None" "a \<notin> set xs" "j < length ws \<Longrightarrow> ws ! j = W_run a \<Longrightarrow> j = i"
  using assms unfolding runs_ok_def by blast+

lemma runs_okI:
  assumes "\<And>i a. i < length ws \<Longrightarrow> ws ! i = W_run a \<Longrightarrow> h a \<noteq> None \<and> a \<notin> set xs"
    and "\<And>i j a. i < length ws \<Longrightarrow> j < length ws \<Longrightarrow> ws ! i = W_run a \<Longrightarrow> ws ! j = W_run a \<Longrightarrow> j = i"
  shows "runs_ok h ws xs"
  using assms unfolding runs_ok_def by blast

text \<open>One worker changes.\<close>

lemma all_running_update:
  "i < length ws \<Longrightarrow> all_running h (ws[i := w]) + mset (running h (ws ! i)) = all_running h ws + mset (running h w)"
proof (induction ws arbitrary: i)
  case (Cons v ws)
  then show ?case by (cases i) (simp_all add: ac_simps)
qed simp

lemma all_running_quiet:
  "i < length ws \<Longrightarrow> running h (ws ! i) = [] \<Longrightarrow> running h w = [] \<Longrightarrow> all_running h (ws[i := w]) = all_running h ws"
  using all_running_update [of i ws h w] by simp

lemma all_running_cong:
  "(\<And>a. W_run a \<in> set ws \<Longrightarrow> task_at h a = task_at h' a) \<Longrightarrow> all_running h ws = all_running h' ws"
  unfolding all_running_def
proof (induction ws)
  case (Cons v ws)
  then show ?case by (cases v) auto
qed simp

lemma pool_queue_cong:
  "tp_heap pool' = tp_heap pool \<Longrightarrow> tp_head pool' = tp_head pool \<Longrightarrow> tp_tail pool' = tp_tail pool
    \<Longrightarrow> pool_queue pool' xs = pool_queue pool xs"
  by (simp add: pool_queue_def)

lemma set_worker_fields [simp]:
  "tp_heap (set_worker i w pool) = tp_heap pool" "tp_head (set_worker i w pool) = tp_head pool"
  "tp_tail (set_worker i w pool) = tp_tail pool" "tp_shutdown (set_worker i w pool) = tp_shutdown pool"
  "tp_lock (set_worker i w pool) = tp_lock pool" "tp_closer (set_worker i w pool) = tp_closer pool"
  "tp_accepted (set_worker i w pool) = tp_accepted pool" "tp_started (set_worker i w pool) = tp_started pool"
  "tp_done (set_worker i w pool) = tp_done pool" "tp_workers (set_worker i w pool) = (tp_workers pool)[i := w]"
  by (simp_all add: set_worker_def)

text \<open>Moves of a worker that neither take nor finish a task.\<close>

definition quiet :: "worker \<Rightarrow> bool" where
  "quiet w \<longleftrightarrow> (\<forall>a. w \<noteq> W_run a)"

lemma quiet_running: "quiet w \<Longrightarrow> running h w = []"
  by (cases w) (auto simp: quiet_def)

lemma quiet_simps [simp]: "quiet W_start" "quiet W_locked" "quiet W_wait" "quiet W_asleep" "quiet W_woken" "quiet W_exited"
  "\<not> quiet (W_run a)"
  by (simp_all add: quiet_def)

lemma runs_ok_quiet:
  assumes "runs_ok h ws xs" "i < length ws" "quiet w"
  shows "runs_ok h (ws[i := w]) xs"
proof -
  have old: "ws ! m = W_run a" if "ws[i := w] ! m = W_run a" "m < length ws" for m a
    using that assms(2,3) by (cases "m = i") (auto simp: quiet_def)
  show ?thesis
  proof (rule runs_okI)
    fix j a
    assume "j < length (ws[i := w])" "ws[i := w] ! j = W_run a"
    then show "h a \<noteq> None \<and> a \<notin> set xs" using old runs_okD(1,2) [OF assms(1), of j a] by simp
  next
    fix j k a
    assume "j < length (ws[i := w])" "k < length (ws[i := w])" "ws[i := w] ! j = W_run a" "ws[i := w] ! k = W_run a"
    then show "k = j" using old runs_okD(3) [OF assms(1), of j a k] by simp
  qed
qed

text \<open>Another heap that has the same works, another queue without the running ones.\<close>

lemma runs_ok_mono:
  assumes "runs_ok h ws xs" "\<And>i a. i < length ws \<Longrightarrow> ws ! i = W_run a \<Longrightarrow> h' a \<noteq> None \<and> a \<notin> set ys"
  shows "runs_ok h' ws ys"
  using assms runs_okD(3) [OF assms(1)] by (intro runs_okI) blast+

lemma tasks_ok_quiet:
  assumes "tasks_ok pool xs" "i < length (tp_workers pool)" "quiet (tp_workers pool ! i)" "quiet w"
  shows "tasks_ok (set_worker i w (pool\<lparr>tp_lock := l\<rparr>)) xs"
  using assms by (simp add: tasks_ok_def pool_queue_def all_running_quiet quiet_running)

lemma lock_ok_enter: "lock_ok None ws \<Longrightarrow> i < length ws \<Longrightarrow> lock_ok (Some i) (ws[i := W_locked])"
  by (auto simp: lock_ok_def in_section_def nth_list_update)

lemma lock_ok_leave:
  "lock_ok (Some i) ws \<Longrightarrow> i < length ws \<Longrightarrow> \<not> in_section w \<Longrightarrow> lock_ok None (ws[i := w])"
  by (auto simp: lock_ok_def nth_list_update)

lemma lock_ok_stay:
  "lock_ok l ws \<Longrightarrow> i < length ws \<Longrightarrow> in_section w = in_section (ws ! i) \<Longrightarrow> lock_ok l (ws[i := w])"
  by (auto simp: lock_ok_def nth_list_update)

lemma lock_ok_holder: "lock_ok l ws \<Longrightarrow> i < length ws \<Longrightarrow> in_section (ws ! i) \<Longrightarrow> l = Some i"
  by (simp add: lock_ok_def)

lemma lock_ok_other: "lock_ok (Some i) ws \<Longrightarrow> j < length ws \<Longrightarrow> j \<noteq> i \<Longrightarrow> \<not> in_section (ws ! j)"
  by (simp add: lock_ok_def)

lemma close_ok_update:
  "close_ok s cl ws \<Longrightarrow> i < length ws \<Longrightarrow> ws ! i \<noteq> W_exited \<Longrightarrow> close_ok s cl (ws[i := w])"
  by (auto simp: close_ok_def nth_list_update)

lemma wake_ok_update:
  "wake_ok s ws xs \<Longrightarrow> i < length ws \<Longrightarrow> w \<noteq> W_asleep \<Longrightarrow> w \<noteq> W_wait \<Longrightarrow> w \<noteq> W_exited \<Longrightarrow> wake_ok s (ws[i := w]) xs"
  using set_update_subset_insert [of ws i w] set_update_memI [of i ws w] unfolding wake_ok_def by blast

text \<open>The steps of a worker.\<close>

lemma take_lock_ok:
  assumes ok: "pool_ok n pool xs" and i: "i < n" "tp_workers pool ! i = W_start \<or> tp_workers pool ! i = W_woken"
    and step: "take_lock i pool = Some pool'"
  shows "pool_ok n pool' xs"
proof -
  have l: "tp_lock pool = None" and p: "pool' = set_worker i W_locked (pool\<lparr>tp_lock := Some i\<rparr>)"
    using step by (auto simp: take_lock_def split: if_splits)
  have q: "quiet (tp_workers pool ! i)" "tp_workers pool ! i \<noteq> W_exited" and len: "i < length (tp_workers pool)"
    using i ok by (auto simp: pool_ok_def)
  show ?thesis using ok len q tasks_ok_quiet [of pool xs i W_locked "Some i"]
      lock_ok_enter [of "tp_workers pool" i] l
    by (simp add: pool_ok_def p runs_ok_quiet wake_ok_update close_ok_update)
qed

lemma wait_step_ok:
  assumes ok: "pool_ok n pool xs" and i: "i < n" "tp_workers pool ! i = W_wait"
  shows "pool_ok n (set_worker i W_asleep (pool\<lparr>tp_lock := None\<rparr>)) xs"
proof -
  have len: "i < length (tp_workers pool)" and xs: "xs = []" and w: "wake_ok (tp_shutdown pool) (tp_workers pool) xs"
    using i ok nth_mem [of i "tp_workers pool"] by (auto simp: pool_ok_def wake_ok_def)
  have l: "tp_lock pool = Some i"
    using ok len i(2) lock_ok_holder [of "tp_lock pool" "tp_workers pool" i] by (simp add: pool_ok_def in_section_def)
  have "lock_ok None ((tp_workers pool)[i := W_asleep])"
    using ok len l by (intro lock_ok_leave) (simp_all add: pool_ok_def in_section_def)
  moreover have "wake_ok (tp_shutdown pool) ((tp_workers pool)[i := W_asleep]) xs"
    using w xs set_update_subset_insert [of "tp_workers pool" i W_asleep] by (auto simp: wake_ok_def)
  ultimately show ?thesis using ok len i(2) tasks_ok_quiet [of pool xs i W_asleep None]
    by (simp add: pool_ok_def runs_ok_quiet close_ok_update)
qed

lemma exit_step_ok:
  assumes ok: "pool_ok n pool xs" and i: "i < n" "tp_workers pool ! i = W_locked" and "tp_shutdown pool" "tp_head pool = None"
  shows "pool_ok n (set_worker i W_exited (pool\<lparr>tp_lock := None\<rparr>)) xs"
proof -
  have len: "i < length (tp_workers pool)" and w: "wake_ok (tp_shutdown pool) (tp_workers pool) xs"
    using i ok by (auto simp: pool_ok_def)
  have xs: "xs = []" using ok assms(5) by (cases xs) (auto simp: pool_ok_def tasks_ok_def pool_queue_def)
  have l: "tp_lock pool = Some i"
    using ok len i(2) lock_ok_holder [of "tp_lock pool" "tp_workers pool" i] by (simp add: pool_ok_def in_section_def)
  have "lock_ok None ((tp_workers pool)[i := W_exited])"
    using ok len l by (intro lock_ok_leave) (simp_all add: pool_ok_def in_section_def)
  moreover have "wake_ok (tp_shutdown pool) ((tp_workers pool)[i := W_exited]) xs"
    using w xs assms(4) set_update_subset_insert [of "tp_workers pool" i W_exited] by (auto simp: wake_ok_def)
  ultimately show ?thesis using ok len i(2) tasks_ok_quiet [of pool xs i W_exited None]
    by (simp add: pool_ok_def runs_ok_quiet close_ok_update)
qed

lemma pop_step_ok:
  assumes ok: "pool_ok n pool xs" and i: "i < n" "tp_workers pool ! i = W_locked" and h: "tp_head pool \<noteq> None"
  shows "\<exists>ys. pool_ok n (holding_lock i pool) ys"
proof -
  have len: "i < length (tp_workers pool)" and w: "wake_ok (tp_shutdown pool) (tp_workers pool) xs"
    and t: "tasks_ok pool xs" and r: "runs_ok (tp_heap pool) (tp_workers pool) xs"
    and lo: "lock_ok (tp_lock pool) (tp_workers pool)" using i ok by (auto simp: pool_ok_def)
  obtain x ys where xs: "xs = x # ys" using t h by (cases xs) (auto simp: tasks_ok_def pool_queue_def)
  obtain p where p: "thread_pool_pop_locked pool = (Some x, p)" "pool_queue p ys" "tp_heap p = set_next x None (tp_heap pool)"
    and p': "p = pool\<lparr>tp_heap := tp_heap p, tp_head := tp_head p, tp_tail := tp_tail p\<rparr>"
    using pop_queue [of pool x ys] t xs by (auto simp: tasks_ok_def)
  have same: "tp_workers p = tp_workers pool" "tp_shutdown p = tp_shutdown pool" "tp_closer p = tp_closer pool"
    "tp_accepted p = tp_accepted pool" "tp_started p = tp_started pool" "tp_done p = tp_done pool"
    by (subst p', simp)+
  define q where "q = set_worker i (W_run x) (p\<lparr>tp_lock := None, tp_started := tp_started p @ [task_at (tp_heap p) x]\<rparr>)"
  have hold: "holding_lock i pool = q"
    using h by (auto simp: holding_lock_def p q_def)
  have x: "tp_heap pool x \<noteq> None" "x \<notin> set ys" using t xs by (auto simp: tasks_ok_def pool_queue_def)
  have ta: "task_at (tp_heap p) = task_at (tp_heap pool)" unfolding p(3) by (intro ext) simp
  have ar: "all_running (tp_heap p) ws = all_running (tp_heap pool) ws" for ws
    by (rule all_running_cong) (simp add: ta)
  have "mset (tp_started pool) = mset (tp_done pool) + all_running (tp_heap pool) (tp_workers pool)"
    using t by (simp add: tasks_ok_def)
  moreover have "all_running (tp_heap pool) ((tp_workers pool)[i := W_run x])
      = all_running (tp_heap pool) (tp_workers pool) + {#task_at (tp_heap pool) x#}"
    using all_running_update [OF len, of "tp_heap pool" "W_run x"] i(2) by simp
  moreover have "tp_accepted pool = tp_started pool @ map (task_at (tp_heap pool)) xs" using t by (simp add: tasks_ok_def)
  ultimately have "tasks_ok q ys" using p(2) by (simp add: tasks_ok_def q_def same ta ar xs pool_queue_def)
  moreover have "runs_ok (tp_heap q) (tp_workers q) ys"
  proof (rule runs_okI)
    fix j a
    assume j: "j < length (tp_workers q)" "tp_workers q ! j = W_run a"
    show "tp_heap q a \<noteq> None \<and> a \<notin> set ys"
    proof (cases "j = i")
      case True
      then show ?thesis using j x len by (simp add: q_def same p(3))
    next
      case False
      then show ?thesis using j runs_okD(1,2) [OF r, of j a] by (simp add: q_def same p(3) xs)
    qed
  next
    fix j k a
    assume j: "j < length (tp_workers q)" "k < length (tp_workers q)" "tp_workers q ! j = W_run a" "tp_workers q ! k = W_run a"
    have x_new: "tp_workers pool ! m \<noteq> W_run x" if "m < length (tp_workers pool)" for m
      using runs_okD(2) [OF r that, of x] by (auto simp: xs)
    show "k = j"
      using j runs_okD(3) [OF r, of j a k] x_new [of j] x_new [of k] len
      by (cases "j = i"; cases "k = i") (auto simp: q_def same)
  qed
  moreover have "lock_ok None ((tp_workers pool)[i := W_run x])"
  proof -
    have "tp_lock pool = Some i" using lock_ok_holder [OF lo len] i(2) by (simp add: in_section_def)
    then show ?thesis using lo len by (intro lock_ok_leave) (simp_all add: in_section_def)
  qed
  moreover have "wake_ok (tp_shutdown pool) ((tp_workers pool)[i := W_run x]) ys"
  proof -
    have "wake_ok (tp_shutdown pool) (tp_workers pool) ys" using w by (auto simp: wake_ok_def xs)
    then show ?thesis using len by (intro wake_ok_update) simp_all
  qed
  ultimately have "pool_ok n q ys" using ok len i(2)
    by (simp add: pool_ok_def q_def same close_ok_update)
  then show ?thesis unfolding hold ..
qed

lemma finish_step_ok:
  assumes ok: "pool_ok n pool xs" and i: "i < n" "tp_workers pool ! i = W_run a"
  shows "pool_ok n (finish_task i a pool) xs"
proof -
  have len: "i < length (tp_workers pool)" and t: "tasks_ok pool xs" and r: "runs_ok (tp_heap pool) (tp_workers pool) xs"
    and lo: "lock_ok (tp_lock pool) (tp_workers pool)" and w: "wake_ok (tp_shutdown pool) (tp_workers pool) xs"
    using i ok by (auto simp: pool_ok_def)
  let ?h = "(tp_heap pool)(a := None)"
  have a: "a \<notin> set xs" "\<And>j. j < length (tp_workers pool) \<Longrightarrow> tp_workers pool ! j = W_run a \<Longrightarrow> j = i"
    using runs_okD [OF r len i(2)] by blast+
  have "?h b = tp_heap pool b" if "b \<in> set xs" for b using a(1) that by auto
  then have c: "chain ?h (tp_head pool) xs"
    using t chain_cong [of xs ?h "tp_heap pool" "tp_head pool"] by (simp only: tasks_ok_def pool_queue_def)
  have m: "map (task_at ?h) xs = map (task_at (tp_heap pool)) xs"
    using a(1) by (auto simp: task_at_def)
  have ws: "W_run a \<notin> set ((tp_workers pool)[i := W_start])"
    using a(2) len by (auto simp: in_set_conv_nth nth_list_update split: if_splits)
  have "all_running ?h ((tp_workers pool)[i := W_start]) = all_running (tp_heap pool) ((tp_workers pool)[i := W_start])"
    by (rule all_running_cong) (use ws in \<open>auto simp: task_at_def\<close>)
  moreover have "all_running (tp_heap pool) ((tp_workers pool)[i := W_start]) + {#task_at (tp_heap pool) a#}
      = all_running (tp_heap pool) (tp_workers pool)"
    using all_running_update [OF len, of "tp_heap pool" W_start] i(2) by simp
  ultimately have "tasks_ok (finish_task i a pool) xs"
    using t c m by (simp add: tasks_ok_def pool_queue_def finish_task_def)
  moreover have "runs_ok ?h ((tp_workers pool)[i := W_start]) xs"
  proof (rule runs_ok_mono [OF runs_ok_quiet [OF r len]])
    fix j b
    assume j: "j < length ((tp_workers pool)[i := W_start])" "(tp_workers pool)[i := W_start] ! j = W_run b"
    then have "j \<noteq> i" using len by auto
    then show "?h b \<noteq> None \<and> b \<notin> set xs" using j runs_okD(1,2) [OF r, of j b] a(2) [of j] by auto
  qed simp
  moreover have "lock_ok (tp_lock pool) ((tp_workers pool)[i := W_start])"
    using lo len i(2) by (intro lock_ok_stay) (simp_all add: in_section_def)
  ultimately show ?thesis using ok len i(2) w
    by (simp add: pool_ok_def finish_task_def wake_ok_update close_ok_update)
qed

lemma worker_step_ok:
  assumes ok: "pool_ok n pool xs" and step: "worker_step pool pool'"
  shows "\<exists>ys. pool_ok n pool' ys"
proof -
  obtain i where i: "i < n" and s: "thread_pool_worker i pool = Some pool'"
    using step ok by (auto elim!: worker_step_E simp: pool_ok_def)
  show ?thesis
  proof (cases "tp_workers pool ! i")
    case W_locked
    then have p: "pool' = holding_lock i pool" using s by (simp add: thread_pool_worker_def)
    consider "tp_head pool \<noteq> None" | "tp_head pool = None" "tp_shutdown pool" | "tp_head pool = None" "\<not> tp_shutdown pool" by blast
    then show ?thesis
    proof cases
      case 1
      then show ?thesis using pop_step_ok [OF ok i W_locked] p by simp
    next
      case 2
      then show ?thesis using exit_step_ok [OF ok i W_locked] p by (auto simp: holding_lock_def)
    next
      case 3
      have len: "i < length (tp_workers pool)" using ok i by (simp add: pool_ok_def)
      have xs: "xs = []" using ok 3 by (cases xs) (auto simp: pool_ok_def tasks_ok_def pool_queue_def)
      have "wake_ok (tp_shutdown pool) ((tp_workers pool)[i := W_wait]) xs"
        using ok xs set_update_subset_insert [of "tp_workers pool" i W_wait] by (auto simp: pool_ok_def wake_ok_def)
      moreover have "lock_ok (tp_lock pool) ((tp_workers pool)[i := W_wait])"
        using ok len W_locked by (intro lock_ok_stay) (simp_all add: pool_ok_def in_section_def)
      moreover have "tasks_ok (set_worker i W_wait pool) xs"
        using tasks_ok_quiet [of pool xs i W_wait "tp_lock pool"] ok len W_locked by (simp add: pool_ok_def)
      ultimately have "pool_ok n (set_worker i W_wait pool) xs"
        using ok len W_locked by (simp add: pool_ok_def runs_ok_quiet close_ok_update)
      then show ?thesis using 3 p by (auto simp: holding_lock_def)
    qed
  next
    case W_wait
    then show ?thesis using wait_step_ok [OF ok i] s by (auto simp: thread_pool_worker_def)
  next
    case (W_run a)
    then show ?thesis using finish_step_ok [OF ok i] s by (auto simp: thread_pool_worker_def)
  qed (use s take_lock_ok [OF ok i] in \<open>auto simp: thread_pool_worker_def\<close>)
qed

text \<open>The steps of the clients and of the destruction.\<close>

lemma submit_step_ok:
  assumes ok: "pool_ok n pool xs" and n: "0 < n" and l: "tp_lock pool = None" and wake: "signal_choice pool wake"
    and new: "case work of None \<Rightarrow> True | Some a \<Rightarrow> tp_heap pool a = None"
  shows "\<exists>ys. pool_ok n (snd (thread_pool_submit work wake task arg pool)) ys"
proof (cases "\<exists>f a. task = Some f \<and> work = Some a \<and> \<not> tp_shutdown pool")
  case False
  then have "snd (thread_pool_submit work wake task arg pool) = pool"
    by (auto simp: thread_pool_submit_def split: option.split)
  then show ?thesis using ok by auto
next
  case True
  then obtain f a where fa: "task = Some f" "work = Some a" and sd: "\<not> tp_shutdown pool" by blast
  let ?w = "\<lparr>tw_task = f, tw_arg = arg, tw_next = None\<rparr>"
  define p0 where "p0 = pool\<lparr>tp_heap := (tp_heap pool)(a \<mapsto> ?w)\<rparr>"
  define p1 where "p1 = thread_pool_push_locked a p0"
  define p2 where "p2 = wake_worker wake p1"
  define p3 where "p3 = p2\<lparr>tp_accepted := tp_accepted p2 @ [(f, arg)]\<rparr>"
  have r: "snd (thread_pool_submit work wake task arg pool) = p3"
    using fa sd by (simp add: thread_pool_submit_def p3_def p2_def p1_def p0_def Let_def)
  have t: "tasks_ok pool xs" and ru: "runs_ok (tp_heap pool) (tp_workers pool) xs"
    and lo: "lock_ok (tp_lock pool) (tp_workers pool)" and w: "wake_ok (tp_shutdown pool) (tp_workers pool) xs"
    and cl: "close_ok (tp_shutdown pool) (tp_closer pool) (tp_workers pool)" and len: "length (tp_workers pool) = n"
    using ok by (simp_all add: pool_ok_def)
  have a: "tp_heap pool a = None" using new fa by simp
  have axs: "a \<notin> set xs" using t a chain_allocated [of "tp_heap pool" "tp_head pool" xs a] by (auto simp: tasks_ok_def pool_queue_def)
  have "((tp_heap pool)(a \<mapsto> ?w)) b = tp_heap pool b" if "b \<in> set xs" for b using axs that by auto
  then have "pool_queue p0 xs"
    using t chain_cong [of xs "(tp_heap pool)(a \<mapsto> ?w)" "tp_heap pool" "tp_head pool"]
    by (simp add: tasks_ok_def pool_queue_def p0_def)
  then have q1: "pool_queue p1 (xs @ [a])"
    unfolding p1_def using axs by (intro push_queue) (simp_all add: p0_def allocated_def)
  have f1: "tp_workers p1 = tp_workers pool" "tp_lock p1 = tp_lock pool" "tp_shutdown p1 = tp_shutdown pool"
    "tp_closer p1 = tp_closer pool" "tp_accepted p1 = tp_accepted pool" "tp_started p1 = tp_started pool" "tp_done p1 = tp_done pool"
    by (simp_all add: p1_def p0_def thread_pool_push_locked_def Let_def split: option.split)
  have h1: "task_at (tp_heap p1) b = task_at ((tp_heap pool)(a \<mapsto> ?w)) b" for b
    by (simp add: p1_def p0_def thread_pool_push_locked_def Let_def split: option.split)
  have al: "(tp_heap p1 b = None) \<longleftrightarrow> (((tp_heap pool)(a \<mapsto> ?w)) b = None)" for b
    unfolding p1_def p0_def thread_pool_push_locked_def Let_def by (cases "tp_tail pool") (simp_all del: not_None_eq)
  define ws where "ws = (case wake of None \<Rightarrow> tp_workers pool | Some i \<Rightarrow> (tp_workers pool)[i := W_woken])"
  have f2: "tp_heap p2 = tp_heap p1" "tp_head p2 = tp_head p1" "tp_tail p2 = tp_tail p1" "tp_workers p2 = ws"
    "tp_lock p2 = tp_lock pool" "tp_shutdown p2 = tp_shutdown pool" "tp_closer p2 = tp_closer pool"
    "tp_accepted p2 = tp_accepted pool" "tp_started p2 = tp_started pool" "tp_done p2 = tp_done pool"
    by (simp_all add: p2_def wake_worker_def ws_def f1 split: option.split)
  have wi: "i < length (tp_workers pool) \<and> tp_workers pool ! i = W_asleep" if "wake = Some i" for i
    using wake that by (simp add: signal_choice_def)
  have old_run: "W_run b \<in> set (tp_workers pool) \<Longrightarrow> tp_heap pool b \<noteq> None" for b
    using ru by (auto simp: runs_ok_def in_set_conv_nth)
  have ar: "all_running (tp_heap p1) ws = all_running (tp_heap pool) (tp_workers pool)"
  proof -
    have "all_running (tp_heap p1) ws = all_running (tp_heap p1) (tp_workers pool)"
      using wi by (auto simp: ws_def all_running_quiet split: option.split)
    also have "\<dots> = all_running (tp_heap pool) (tp_workers pool)"
    proof (rule all_running_cong)
      fix b assume "W_run b \<in> set (tp_workers pool)"
      then have "tp_heap pool b \<noteq> None" by (rule old_run)
      then have "b \<noteq> a" using a by blast
      then show "task_at (tp_heap p1) b = task_at (tp_heap pool) b" unfolding h1 by (simp add: task_at_def)
    qed
    finally show ?thesis .
  qed
  have "map (task_at (tp_heap p1)) xs = map (task_at (tp_heap pool)) xs"
  proof (rule map_cong [OF refl])
    fix b assume "b \<in> set xs"
    then have "b \<noteq> a" using axs by blast
    then show "task_at (tp_heap p1) b = task_at (tp_heap pool) b" unfolding h1 by (simp add: task_at_def)
  qed
  moreover have "task_at (tp_heap p1) a = (f, arg)" unfolding h1 by (simp add: task_at_def)
  ultimately have "tasks_ok p3 (xs @ [a])"
    using t q1 ar by (simp add: tasks_ok_def p3_def f2 f1 pool_queue_def)
  moreover have "runs_ok (tp_heap p1) ws (xs @ [a])"
  proof -
    have "runs_ok (tp_heap pool) ws xs"
      using ru wi by (cases wake) (auto simp: ws_def runs_ok_quiet)
    then show ?thesis
    proof (rule runs_ok_mono)
      fix j b assume j: "j < length ws" "ws ! j = W_run b"
      have "runs_ok (tp_heap pool) ws xs" by fact
      then have "tp_heap pool b \<noteq> None" "b \<notin> set xs" using runs_okD(1,2) [of "tp_heap pool" ws xs j b] j by blast+
      then show "tp_heap p1 b \<noteq> None \<and> b \<notin> set (xs @ [a])" using a by (auto simp: al)
    qed
  qed
  moreover have "lock_ok (tp_lock pool) ws"
    using lo wi by (auto simp: ws_def in_section_def intro!: lock_ok_stay split: option.split)
  moreover have "close_ok (tp_shutdown pool) (tp_closer pool) ws"
    using cl wi by (auto simp: ws_def intro!: close_ok_update split: option.split)
  moreover have "wake_ok (tp_shutdown pool) ws (xs @ [a])"
  proof -
    have nosec: "W_wait \<notin> set (tp_workers pool)"
      using lo l by (auto simp: lock_ok_def in_section_def in_set_conv_nth)
    have noex: "W_exited \<notin> set (tp_workers pool)" using w sd by (auto simp: wake_ok_def)
    show ?thesis
    proof (cases wake)
      case None
      then have "W_asleep \<notin> set (tp_workers pool)" using wake by (simp add: signal_choice_def)
      moreover have "tp_workers pool ! 0 \<in> set (tp_workers pool)" using n len by simp
      ultimately show ?thesis using nosec noex None unfolding wake_ok_def ws_def by (metis option.simps(4))
    next
      case (Some i)
      then have "W_woken \<in> set ws" "set ws \<subseteq> insert W_woken (set (tp_workers pool))"
        using wi [OF Some] set_update_memI [of i "tp_workers pool" W_woken] set_update_subset_insert by (simp_all add: ws_def)
      then show ?thesis using nosec noex unfolding wake_ok_def by blast
    qed
  qed
  moreover have "length ws = n" using len by (simp add: ws_def split: option.split)
  ultimately have "pool_ok n p3 (xs @ [a])" by (simp add: pool_ok_def p3_def f2)
  then show ?thesis unfolding r ..
qed

lemma spurious_step_ok:
  assumes ok: "pool_ok n pool xs" and i: "i < length (tp_workers pool)" "tp_workers pool ! i = W_asleep"
  shows "pool_ok n (set_worker i W_woken pool) xs"
proof -
  have "tasks_ok (set_worker i W_woken pool) xs"
    using tasks_ok_quiet [of pool xs i W_woken "tp_lock pool"] ok i by (simp add: pool_ok_def)
  then show ?thesis using ok i
    by (simp add: pool_ok_def runs_ok_quiet wake_ok_update close_ok_update lock_ok_stay in_section_def)
qed

lemma wake_all_nth [simp]:
  "length (wake_all ws) = length ws"
  "i < length ws \<Longrightarrow> wake_all ws ! i = (if ws ! i = W_asleep then W_woken else ws ! i)"
  by (simp_all add: wake_all_def)

lemma wake_all_running [simp]: "all_running h (wake_all ws) = all_running h ws"
proof (induction ws)
  case (Cons w ws)
  then show ?case by (cases w) (simp_all add: wake_all_def)
qed (simp add: wake_all_def)

lemma destroy_step_ok:
  assumes ok: "pool_ok n pool xs" and n: "0 < n" and step: "thread_pool_destroy pool = Some pool'"
  shows "\<exists>ys. pool_ok n pool' ys"
proof -
  have t: "tasks_ok pool xs" and r: "runs_ok (tp_heap pool) (tp_workers pool) xs"
    and lo: "lock_ok (tp_lock pool) (tp_workers pool)" and w: "wake_ok (tp_shutdown pool) (tp_workers pool) xs"
    and cl: "close_ok (tp_shutdown pool) (tp_closer pool) (tp_workers pool)" and len: "length (tp_workers pool) = n"
    using ok by (simp_all add: pool_ok_def)
  show ?thesis
  proof (cases "tp_closer pool")
    case C_none
    then have "pool' = pool\<lparr>tp_shutdown := True, tp_closer := C_flagged\<rparr>" using step by (simp add: thread_pool_destroy_def)
    then have "pool_ok n pool' xs" using t r lo w cl len
      by (auto simp: pool_ok_def tasks_ok_def pool_queue_def wake_ok_def close_ok_def)
    then show ?thesis ..
  next
    case C_flagged
    then have p: "pool' = pool\<lparr>tp_workers := wake_all (tp_workers pool), tp_closer := C_joining 0\<rparr>"
      using step by (simp add: thread_pool_destroy_def)
    have "runs_ok (tp_heap pool) (wake_all (tp_workers pool)) xs"
    proof (rule runs_okI)
      fix i a
      assume "i < length (wake_all (tp_workers pool))" "wake_all (tp_workers pool) ! i = W_run a"
      then show "tp_heap pool a \<noteq> None \<and> a \<notin> set xs"
        using runs_okD(1,2) [OF r, of i a] by (simp split: if_splits)
    next
      fix i j a
      assume "i < length (wake_all (tp_workers pool))" "j < length (wake_all (tp_workers pool))"
        "wake_all (tp_workers pool) ! i = W_run a" "wake_all (tp_workers pool) ! j = W_run a"
      then show "j = i" using runs_okD(3) [OF r, of i a j] by (simp split: if_splits)
    qed
    moreover have "lock_ok (tp_lock pool) (wake_all (tp_workers pool))"
      using lo by (auto simp: lock_ok_def in_section_def split: if_splits)
    moreover have "wake_ok (tp_shutdown pool) (wake_all (tp_workers pool)) xs"
      using w by (auto simp: wake_ok_def wake_all_def image_iff)
    moreover have "close_ok (tp_shutdown pool) (C_joining 0) (wake_all (tp_workers pool))"
      using cl C_flagged by (auto simp: close_ok_def)
    ultimately have "pool_ok n pool' xs" using t len
      by (simp add: pool_ok_def p tasks_ok_def pool_queue_def)
    then show ?thesis ..
  next
    case (C_joining k)
    show ?thesis
    proof (cases "k < length (tp_workers pool)")
      case True
      then have k: "tp_workers pool ! k = W_exited" "pool' = pool\<lparr>tp_closer := C_joining (Suc k)\<rparr>"
        using step C_joining by (auto simp: thread_pool_destroy_def split: if_splits)
      then have "pool_ok n pool' xs" using t r lo w cl len C_joining
        by (auto simp: pool_ok_def tasks_ok_def pool_queue_def close_ok_def less_Suc_eq)
      then show ?thesis ..
    next
      case False
      have ex: "\<forall>v \<in> set (tp_workers pool). v = W_exited"
        using cl C_joining False by (auto simp: close_ok_def in_set_conv_nth)
      then have "W_exited \<in> set (tp_workers pool)" using n len by (cases "tp_workers pool") auto
      then have xs: "xs = []" using w by (auto simp: wake_ok_def)
      then have "tp_head pool = None" using t by (simp add: tasks_ok_def pool_queue_def)
      then have "pool' = pool\<lparr>tp_closer := C_closed\<rparr>"
        using step C_joining False by (auto simp: thread_pool_destroy_def free_loop.simps)
      then have "pool_ok n pool' xs" using t r lo w cl len C_joining ex
        by (auto simp: pool_ok_def tasks_ok_def pool_queue_def close_ok_def)
      then show ?thesis ..
    qed
  next
    case C_closed
    then show ?thesis using step by (simp add: thread_pool_destroy_def)
  qed
qed

lemma new_pool_ok: "pool_ok n (new_pool n) []"
proof -
  have "all_running h (replicate n W_start) = {#}" for h by (induction n) simp_all
  then show ?thesis
    by (simp add: pool_ok_def new_pool_def tasks_ok_def pool_queue_def runs_ok_def lock_ok_def wake_ok_def close_ok_def in_section_def)
qed

lemma reach_ok: "pool_reaches n pool \<Longrightarrow> 0 < n \<Longrightarrow> \<exists>xs. pool_ok n pool xs"
  unfolding pool_reaches_def
proof (induction rule: rtranclp_induct)
  case base
  then show ?case using new_pool_ok by blast
next
  case (step p q)
  then obtain xs where xs: "pool_ok n p xs" by blast
  from step.hyps(2) show ?case
  proof (rule pool_step_E)
    assume "client_step p q"
    then show ?thesis
    proof (rule client_step_E)
      fix wake work task arg
      assume "q = snd (thread_pool_submit work wake task arg p)" "tp_lock p = None" "signal_choice p wake"
        "case work of None \<Rightarrow> True | Some a \<Rightarrow> tp_heap p a = None"
      then show ?thesis using submit_step_ok [OF xs step.prems, of wake work task arg] by simp
    next
      fix i
      assume "q = set_worker i W_woken p" "i < length (tp_workers p)" "tp_workers p ! i = W_asleep"
      then show ?thesis using spurious_step_ok [OF xs] by blast
    qed
  qed (use worker_step_ok [OF xs] destroy_step_ok [OF xs step.prems] in blast)+
qed

subsection \<open>Workers finish their work\<close>

fun weight :: "worker \<Rightarrow> nat" where
  "weight (W_run a) = 4" | "weight W_start = 3" | "weight W_woken = 3" | "weight W_locked = 2" | "weight W_wait = 1"
| "weight W_asleep = 0" | "weight W_exited = 0"

definition pool_measure :: "ThreadPool \<Rightarrow> nat" where
  "pool_measure pool = 10 * the (thread_pool_queue_depth pool) + sum_list (map weight (tp_workers pool))"

lemma weight_update:
  "i < length ws \<Longrightarrow> sum_list (map weight (ws[i := w])) + weight (ws ! i) = sum_list (map weight ws) + weight w"
proof (induction ws arbitrary: i)
  case (Cons v ws)
  show ?case
  proof (cases i)
    case (Suc j)
    then show ?thesis using Cons.IH [of j] Cons.prems by simp
  qed simp
qed simp

lemma queue_depth_cong:
  "tp_heap p = tp_heap q \<Longrightarrow> tp_head p = tp_head q \<Longrightarrow> thread_pool_queue_depth p = thread_pool_queue_depth q"
  by (simp add: thread_pool_queue_depth_def)

lemma worker_step_measure:
  assumes ok: "pool_ok n pool xs" and step: "worker_step pool pool'"
  shows "pool_measure pool' < pool_measure pool"
proof -
  obtain i where i: "i < length (tp_workers pool)" and s: "thread_pool_worker i pool = Some pool'"
    using step by (rule worker_step_E)
  note wu = weight_update [OF i]
  have q: "pool_queue pool xs" and r: "runs_ok (tp_heap pool) (tp_workers pool) xs" using ok by (simp_all add: pool_ok_def tasks_ok_def)
  have same: "pool_measure p < pool_measure pool"
    if "tp_heap p = tp_heap pool" "tp_head p = tp_head pool" "tp_workers p = (tp_workers pool)[i := w]" "weight w < weight (tp_workers pool ! i)" for p w
    using that wu [of w] queue_depth_cong [of p pool] by (simp add: pool_measure_def)
  show ?thesis
  proof (cases "tp_workers pool ! i")
    case W_locked
    then have p: "pool' = holding_lock i pool" using s by (simp add: thread_pool_worker_def)
    show ?thesis
    proof (cases "tp_head pool = None")
      case True
      then show ?thesis using W_locked by (cases "tp_shutdown pool") (auto simp: p holding_lock_def intro: same)
    next
      case False
      obtain x ys where xs: "xs = x # ys" using q False by (cases xs) (auto simp: pool_queue_def)
      obtain p1 where p1: "thread_pool_pop_locked pool = (Some x, p1)" "pool_queue p1 ys"
        "p1 = pool\<lparr>tp_heap := tp_heap p1, tp_head := tp_head p1, tp_tail := tp_tail p1\<rparr>"
        using pop_queue [of pool x ys] q xs by auto
      have ws: "tp_workers p1 = tp_workers pool" by (subst p1(3), simp)
      have "tp_workers pool' = (tp_workers pool)[i := W_run x]" "thread_pool_queue_depth pool' = thread_pool_queue_depth p1"
        using False by (auto simp: p holding_lock_def p1(1) ws thread_pool_queue_depth_def)
      then show ?thesis using wu [of "W_run x"] queue_depth_length [OF q] queue_depth_length [OF p1(2)] W_locked xs
        by (simp add: pool_measure_def)
    qed
  next
    case (W_run a)
    then have p: "pool' = finish_task i a pool" using s by (simp add: thread_pool_worker_def)
    have "pool_ok n pool' xs" unfolding p using ok i W_run by (intro finish_step_ok) (simp_all add: pool_ok_def)
    then have "thread_pool_queue_depth pool' = thread_pool_queue_depth pool"
      using queue_depth_length q by (simp add: pool_ok_def tasks_ok_def)
    then show ?thesis using wu [of W_start] W_run by (simp add: pool_measure_def p finish_task_def)
  qed (use s in \<open>auto simp: thread_pool_worker_def take_lock_def split: if_splits intro: same\<close>)
qed

lemma no_worker_step:
  assumes ok: "pool_ok n pool xs" and n: "0 < n" and open_pool: "tp_closer pool = C_none" and stuck: "\<not> (\<exists>p. worker_step pool p)"
  shows "xs = [] \<and> all_running (tp_heap pool) (tp_workers pool) = {#}"
proof -
  have lo: "lock_ok (tp_lock pool) (tp_workers pool)" and w: "wake_ok (tp_shutdown pool) (tp_workers pool) xs"
    and cl: "close_ok (tp_shutdown pool) (tp_closer pool) (tp_workers pool)"
    using ok by (simp_all add: pool_ok_def)
  have st: "thread_pool_worker i pool = None" if "i < length (tp_workers pool)" for i
    using stuck worker_step.worker [OF that] by (cases "thread_pool_worker i pool") auto
  have l: "tp_lock pool = None"
  proof (rule ccontr)
    assume "tp_lock pool \<noteq> None"
    then obtain i where i: "tp_lock pool = Some i" "i < length (tp_workers pool)" using lo by (auto simp: lock_ok_def)
    then have "in_section (tp_workers pool ! i)" using lo by (simp add: lock_ok_def)
    then show False using st [OF i(2)] by (auto simp: in_section_def thread_pool_worker_def)
  qed
  have noex: "W_exited \<notin> set (tp_workers pool)" using w cl open_pool by (auto simp: wake_ok_def close_ok_def)
  have sleep: "tp_workers pool ! i = W_asleep" if i: "i < length (tp_workers pool)" for i
  proof -
    have "tp_workers pool ! i \<noteq> W_exited" using noex nth_mem [OF i] by auto
    then show ?thesis using st [OF i] l by (cases "tp_workers pool ! i") (auto simp: thread_pool_worker_def take_lock_def)
  qed
  then have all: "\<forall>v \<in> set (tp_workers pool). v = W_asleep" by (auto simp: in_set_conv_nth)
  then have "all_running (tp_heap pool) (tp_workers pool) = {#}"
    by (induction "tp_workers pool") (auto simp: all_running_def)
  moreover have "xs = []" using w all by (auto simp: wake_ok_def)
  ultimately show ?thesis by blast
qed

lemma worker_steps_ok: "worker_step\<^sup>*\<^sup>* pool pool' \<Longrightarrow> pool_ok n pool xs \<Longrightarrow> \<exists>ys. pool_ok n pool' ys"
proof (induction rule: rtranclp_induct)
  case (step p q)
  then show ?case using worker_step_ok by blast
qed blast

lemma no_endless_work:
  assumes ok: "pool_ok n pool xs"
  shows "\<not> (\<exists>run. run 0 = pool \<and> (\<forall>k. worker_step (run k) (run (Suc k))))"
proof
  assume "\<exists>run. run 0 = pool \<and> (\<forall>k. worker_step (run k) (run (Suc k)))"
  then obtain run where run: "run 0 = pool" "\<And>k. worker_step (run k) (run (Suc k))" by blast
  have good: "\<exists>ys. pool_ok n (run k) ys" for k
  proof (induction k)
    case 0
    then show ?case using ok run(1) by blast
  next
    case (Suc k)
    then show ?case using worker_step_ok [OF _ run(2)] by blast
  qed
  have "pool_measure (run (Suc k)) < pool_measure (run k)" for k
    using good [of k] worker_step_measure [OF _ run(2)] by blast
  then have "pool_measure (run k) + k \<le> pool_measure (run 0)" for k
  proof (induction k)
    case (Suc k)
    then show ?case using Suc.prems [of k] Suc.IH [OF Suc.prems] by linarith
  qed simp
  then show False using not_less_eq_eq [of "pool_measure (run 0)" "pool_measure (run 0)"] by (metis add_leD2 le_refl)
qed

lemma worker_step_closer: "worker_step pool pool' \<Longrightarrow> tp_closer pool' = tp_closer pool"
  by (auto elim!: worker_step_E simp: thread_pool_worker_def take_lock_def holding_lock_def thread_pool_pop_locked_def
      finish_task_def Let_def split: worker.splits option.splits if_splits)

lemma worker_steps_closer: "worker_step\<^sup>*\<^sup>* pool pool' \<Longrightarrow> tp_closer pool' = tp_closer pool"
  by (induction rule: rtranclp_induct) (simp_all add: worker_step_closer)

subsection \<open>Concrete runs\<close>

lemma reach_new: "pool_reaches n (new_pool n)"
  by (simp add: pool_reaches_def)

lemma reach_worker:
  "pool_reaches n p \<Longrightarrow> i < length (tp_workers p) \<Longrightarrow> thread_pool_worker i p = Some q \<Longrightarrow> pool_reaches n q"
  unfolding pool_reaches_def by (meson of_worker rtranclp.rtrancl_into_rtrancl worker)

lemma reach_closer: "pool_reaches n p \<Longrightarrow> thread_pool_destroy p = Some q \<Longrightarrow> pool_reaches n q"
  unfolding pool_reaches_def by (meson of_closer rtranclp.rtrancl_into_rtrancl)

lemma reach_submit:
  "pool_reaches n p \<Longrightarrow> tp_lock p = None \<Longrightarrow> tp_closer p \<noteq> C_closed \<Longrightarrow> signal_choice p wake \<Longrightarrow> tp_heap p a = None
    \<Longrightarrow> pool_reaches n (snd (thread_pool_submit (Some a) wake task arg p))"
  unfolding pool_reaches_def
  using submit [of p wake "Some a" task arg] by (simp add: of_client rtranclp.rtrancl_into_rtrancl)

text \<open>A pool of one worker with one task: submitted, running and done.\<close>

definition sample_submitted :: ThreadPool where
  "sample_submitted = (new_pool 1)\<lparr>tp_heap := (\<lambda>_. None)(5 \<mapsto> \<lparr>tw_task = 7, tw_arg = 8, tw_next = None\<rparr>),
     tp_head := Some 5, tp_tail := Some 5, tp_accepted := [(7, 8)]\<rparr>"

definition sample_running :: ThreadPool where
  "sample_running = (new_pool 1)\<lparr>tp_heap := (\<lambda>_. None)(5 \<mapsto> \<lparr>tw_task = 7, tw_arg = 8, tw_next = None\<rparr>),
     tp_workers := [W_run 5], tp_accepted := [(7, 8)], tp_started := [(7, 8)]\<rparr>"

definition sample_idle :: ThreadPool where
  "sample_idle = (new_pool 1)\<lparr>tp_accepted := [(7, 8)], tp_started := [(7, 8)], tp_done := [(7, 8)]\<rparr>"

definition sample_closed :: ThreadPool where
  "sample_closed = sample_idle\<lparr>tp_shutdown := True, tp_closer := C_closed, tp_workers := [W_exited]\<rparr>"

lemmas pool_run_defs = thread_pool_worker_def take_lock_def holding_lock_def thread_pool_pop_locked_def finish_task_def
  set_worker_def task_at_def next_of_def set_next_def thread_pool_destroy_def wake_all_def free_loop.simps

lemma sample_submitted_reached: "pool_reaches 1 sample_submitted"
proof -
  have "pool_reaches 1 (snd (thread_pool_submit (Some 5) None (Some 7) 8 (new_pool 1)))"
    using reach_new by (rule reach_submit) (simp_all add: new_pool_def signal_choice_def)
  then show ?thesis
    by (simp add: sample_submitted_def thread_pool_submit_def thread_pool_push_locked_def new_pool_def wake_worker_def set_next_def)
qed

lemma sample_running_reached: "pool_reaches 1 sample_running"
proof -
  have "pool_reaches 1 (sample_submitted\<lparr>tp_lock := Some 0, tp_workers := [W_locked]\<rparr>)"
    using sample_submitted_reached by (rule reach_worker [where i = 0]) (simp_all add: sample_submitted_def new_pool_def pool_run_defs)
  then show ?thesis
    by (rule reach_worker [where i = 0]) (simp_all add: sample_submitted_def sample_running_def new_pool_def pool_run_defs)
qed

lemma sample_idle_reached: "pool_reaches 1 sample_idle"
  using sample_running_reached
  by (rule reach_worker [where i = 0]) (simp_all add: sample_running_def sample_idle_def new_pool_def pool_run_defs fun_eq_iff)

lemma sample_closed_reached: "pool_reaches 1 sample_closed"
proof -
  have "pool_reaches 1 (sample_idle\<lparr>tp_shutdown := True, tp_closer := C_flagged\<rparr>)"
    using sample_idle_reached by (rule reach_closer) (simp add: sample_idle_def new_pool_def pool_run_defs)
  then have "pool_reaches 1 (sample_idle\<lparr>tp_shutdown := True, tp_closer := C_joining 0\<rparr>)"
    by (rule reach_closer) (simp add: sample_idle_def new_pool_def pool_run_defs)
  then have "pool_reaches 1 (sample_idle\<lparr>tp_shutdown := True, tp_closer := C_joining 0, tp_lock := Some 0, tp_workers := [W_locked]\<rparr>)"
    by (rule reach_worker [where i = 0]) (simp_all add: sample_idle_def new_pool_def pool_run_defs)
  then have "pool_reaches 1 (sample_idle\<lparr>tp_shutdown := True, tp_closer := C_joining 0, tp_workers := [W_exited]\<rparr>)"
    by (rule reach_worker [where i = 0]) (simp_all add: sample_idle_def new_pool_def pool_run_defs)
  then have "pool_reaches 1 (sample_idle\<lparr>tp_shutdown := True, tp_closer := C_joining 1, tp_workers := [W_exited]\<rparr>)"
    by (rule reach_closer) (simp add: sample_idle_def new_pool_def pool_run_defs)
  then show ?thesis
    by (rule reach_closer) (simp add: sample_idle_def sample_closed_def new_pool_def pool_run_defs)
qed

text \<open>The flag is set and the sleepers are woken without the lock: a worker that has just seen no work and no flag
  falls asleep after the broadcast, and the destruction waits for it for ever.\<close>

lemma destroy_can_hang:
  "\<exists>pool. pool_reaches 1 pool \<and> tp_closer pool = C_joining 0 \<and> thread_pool_destroy pool = None
     \<and> \<not> (\<exists>p. worker_step pool p) \<and> tp_workers pool = [W_asleep]"
proof -
  have "pool_reaches 1 ((new_pool 1)\<lparr>tp_lock := Some 0, tp_workers := [W_locked]\<rparr>)"
    using reach_new by (rule reach_worker [where i = 0]) (simp_all add: new_pool_def pool_run_defs)
  then have "pool_reaches 1 ((new_pool 1)\<lparr>tp_lock := Some 0, tp_workers := [W_wait]\<rparr>)"
    by (rule reach_worker [where i = 0]) (simp_all add: new_pool_def pool_run_defs)
  then have "pool_reaches 1 ((new_pool 1)\<lparr>tp_lock := Some 0, tp_workers := [W_wait], tp_shutdown := True, tp_closer := C_flagged\<rparr>)"
    by (rule reach_closer) (simp add: new_pool_def pool_run_defs)
  then have "pool_reaches 1 ((new_pool 1)\<lparr>tp_lock := Some 0, tp_workers := [W_wait], tp_shutdown := True, tp_closer := C_joining 0\<rparr>)"
    by (rule reach_closer) (simp add: new_pool_def pool_run_defs)
  then have "pool_reaches 1 ((new_pool 1)\<lparr>tp_workers := [W_asleep], tp_shutdown := True, tp_closer := C_joining 0\<rparr>)"
    by (rule reach_worker [where i = 0]) (simp_all add: new_pool_def pool_run_defs)
  then show ?thesis
    by (intro exI conjI) (auto elim!: worker_step_E simp: new_pool_def pool_run_defs)
qed

text \<open>Where the second thread cannot be created, the destruction joins it all the same.\<close>

lemma create_joins_missing_thread: "thread_pool_create True True True [True, False] 2 = (None, [0, 1])"
  by (simp add: thread_pool_create_def numeral_2_eq_2 upt_rec)

subsection \<open>Properties\<close>

text \<open>C13. Tasks run in order and once.  In every reachable state of a pool, the tasks accepted so
  far are those already started, in the order of their submission, followed by those in the list; the started
  ones are those that are finished and those some worker runs now.\<close>

theorem pool_runs_tasks_in_order:
  assumes "pool_reaches n pool" "0 < n"
  shows "\<exists>waiting. tp_accepted pool = tp_started pool @ waiting
     \<and> thread_pool_queue_depth pool = Some (length waiting)
     \<and> mset (tp_started pool) = mset (tp_done pool) + all_running (tp_heap pool) (tp_workers pool)"
proof -
  obtain xs where "tasks_ok pool xs" using reach_ok [OF assms] by (auto simp: pool_ok_def)
  then show ?thesis using queue_depth_length [of pool xs]
    by (intro exI [of _ "map (task_at (tp_heap pool)) xs"]) (simp add: tasks_ok_def)
qed

text \<open>C15. Destroying a pool loses nothing.  When the destruction of a pool has come to its end, every
  accepted task has been run to its end exactly once.\<close>

theorem pool_destroy_finishes_tasks:
  assumes "pool_reaches n pool" "0 < n" "tp_closer pool = C_closed"
  shows "tp_started pool = tp_accepted pool \<and> mset (tp_done pool) = mset (tp_accepted pool)"
proof -
  obtain xs where xs: "pool_ok n pool xs" using reach_ok [OF assms(1,2)] by blast
  then have all: "\<forall>w \<in> set (tp_workers pool). w = W_exited" and len: "length (tp_workers pool) = n"
    using assms(3) by (auto simp: pool_ok_def close_ok_def)
  then have "W_exited \<in> set (tp_workers pool)" using assms(2) by (cases "tp_workers pool") auto
  then have e: "xs = []" using xs by (auto simp: pool_ok_def wake_ok_def)
  have "all_running h ws = {#}" if "\<forall>w \<in> set ws. w = W_exited" for h ws
    using that by (induction ws) (auto simp: all_running_def)
  then show ?thesis using xs e all by (simp add: pool_ok_def tasks_ok_def)
qed

text \<open>C14. No wake-up is lost while the pool is open.  The workers of a pool that is not being
  destroyed cannot take steps for ever, and where they cannot take a step any more no task is waiting and every
  accepted task is done.\<close>

theorem pool_workers_drain:
  assumes "pool_reaches n pool" "0 < n" "tp_closer pool = C_none"
  shows "\<not> (\<exists>run. run 0 = pool \<and> (\<forall>k. worker_step (run k) (run (Suc k))))
    \<and> (\<forall>pool'. worker_step\<^sup>*\<^sup>* pool pool' \<and> \<not> (\<exists>p. worker_step pool' p)
         \<longrightarrow> thread_pool_queue_depth pool' = Some 0 \<and> mset (tp_done pool') = mset (tp_accepted pool'))"
proof (intro conjI allI impI)
  obtain xs where xs: "pool_ok n pool xs" using reach_ok [OF assms(1,2)] by blast
  show "\<not> (\<exists>run. run 0 = pool \<and> (\<forall>k. worker_step (run k) (run (Suc k))))" by (rule no_endless_work [OF xs])
  fix pool'
  assume a: "worker_step\<^sup>*\<^sup>* pool pool' \<and> \<not> (\<exists>p. worker_step pool' p)"
  obtain ys where ys: "pool_ok n pool' ys" using worker_steps_ok xs a by blast
  have "tp_closer pool' = C_none" using a assms(3)
    using worker_steps_closer by metis
  then have "ys = []" "all_running (tp_heap pool') (tp_workers pool') = {#}" using no_worker_step [OF ys assms(2)] a by blast+
  then show "thread_pool_queue_depth pool' = Some 0" "mset (tp_done pool') = mset (tp_accepted pool')"
    using ys queue_depth_length [of pool' ys] by (simp_all add: pool_ok_def tasks_ok_def)
qed

theorem pool_runs_tasks_in_order_witness:
  "tp_accepted sample_running = [(7, 8)] \<and>
   (\<exists>waiting. tp_accepted sample_running = tp_started sample_running @ waiting
     \<and> thread_pool_queue_depth sample_running = Some (length waiting)
     \<and> mset (tp_started sample_running) = mset (tp_done sample_running) + all_running (tp_heap sample_running) (tp_workers sample_running))"
  using pool_runs_tasks_in_order [OF sample_running_reached] by (simp add: sample_running_def)

theorem pool_destroy_finishes_tasks_witness:
  "tp_accepted sample_closed = [(7, 8)] \<and> tp_started sample_closed = tp_accepted sample_closed
     \<and> mset (tp_done sample_closed) = mset (tp_accepted sample_closed)"
  using pool_destroy_finishes_tasks [OF sample_closed_reached] by (simp add: sample_closed_def sample_idle_def)

theorem pool_workers_drain_witness:
  "tp_closer sample_submitted = C_none \<and> \<not> (\<exists>run. run 0 = sample_submitted \<and> (\<forall>k. worker_step (run k) (run (Suc k))))"
  using pool_workers_drain [OF sample_submitted_reached] by (simp add: sample_submitted_def new_pool_def)

end
