(* ===== verification/Item_State.thy ===== *)
theory Item_State
  imports Scheduler Settings Utils Proxy Http Job_Events
begin

text \<open>
  The commands of \<^verbatim>\<open>src/src/download.c\<close> that use the state file of an item beside its record
  in the configuration: changing the URL, repairing and reconciling the two, restarting, removing,
  moving to another queue, and preparing a download.  The state file, the temporary file and the
  destination are files of the file system of the configuration; directories are not entries
  of it.  \<open>item_env\<close> holds the further answers of the system: which files can be removed, which directories
  made, the formatted date, the time, and the URL functions.
\<close>

record item_env =
  it_removable :: "string \<Rightarrow> bool"
  it_mkdir :: "string \<Rightarrow> bool"
  it_now :: "nat \<Rightarrow> cstring"
  it_stamp :: "nat \<Rightarrow> nat"
  it_url_decode :: "string \<Rightarrow> cstring"
  it_url :: url_api
  it_proxy :: proxy_env

abbreviation mg_fs :: "('j, 't) manager \<Rightarrow> 't fs" where "mg_fs m \<equiv> cfg_fs (mg_cfg m)"

definition with_fs :: "'t fs \<Rightarrow> ('j, 't) manager \<Rightarrow> ('j, 't) manager" where
  "with_fs fs m = m\<lparr>mg_cfg := (mg_cfg m)\<lparr>cfg_fs := fs\<rparr>\<rparr>"

subsection \<open>The state file of an item\<close>

definition build_job_dir :: "cstring \<Rightarrow> string \<Rightarrow> cstring" where
  "build_job_dir temp_dir item_id = path_join temp_dir (Some item_id)"

definition build_state_path :: "cstring \<Rightarrow> cstring" where
  "build_state_path job_dir = path_join job_dir (Some ''state.json'')"

definition download_item_state_path ::
  "('j, 't) cjson \<Rightarrow> 't manager_env \<Rightarrow> ('j, 't) manager \<Rightarrow> string \<Rightarrow> cstring" where
  "download_item_state_path J E m item_id =
     (case default_temp_path J (me_getenv E) (mg_cfg m) of None \<Rightarrow> None
      | Some temp_dir \<Rightarrow>
          (case build_job_dir (Some temp_dir) item_id of None \<Rightarrow> None
           | Some job_dir \<Rightarrow> build_state_path (Some job_dir)))"

definition load_state ::
  "('j, 't) cjson \<Rightarrow> 't manager_env \<Rightarrow> ('j, 't) manager \<Rightarrow> cstring \<Rightarrow> DownloadState option \<times> ('j, 't) manager" where
  "load_state J E m path =
     (download_state_load J (me_realloc E (mg_tick m)) (me_readable E (mg_tick m)) (me_empty_text E) path (mg_fs m),
      m\<lparr>mg_tick := Suc (mg_tick m)\<rparr>)"

definition save_state ::
  "('j, 't) cjson \<Rightarrow> 't manager_env \<Rightarrow> ('j, 't) manager \<Rightarrow> DownloadState \<Rightarrow> cstring \<Rightarrow> int \<times> ('j, 't) manager" where
  "save_state J E m st path =
     (let (rc, steps) = download_state_save J (download_io_state_write_allowed (mg_scope m))
            (me_save E (mg_tick m)) st path (mg_fs m)
      in (rc, with_fs (last (mg_fs m # steps)) (m\<lparr>mg_tick := Suc (mg_tick m)\<rparr>)))"

definition download_item_state_load ::
  "('j, 't) cjson \<Rightarrow> 't manager_env \<Rightarrow> ('j, 't) manager \<Rightarrow> string \<Rightarrow> DownloadState option \<times> ('j, 't) manager" where
  "download_item_state_load J E m item_id =
     (case download_item_state_path J E m item_id of None \<Rightarrow> (None, m)
      | Some path \<Rightarrow> load_state J E m (Some path))"

definition non_empty :: "cstring \<Rightarrow> bool" where
  "non_empty s \<longleftrightarrow> s \<noteq> None \<and> s \<noteq> Some []"

definition download_item_load_url ::
  "('j, 't) cjson \<Rightarrow> 't manager_env \<Rightarrow> ('j, 't) manager \<Rightarrow> string \<Rightarrow> cstring \<times> ('j, 't) manager" where
  "download_item_load_url J E m item_id =
     (let (st, m) = download_item_state_load J E m item_id;
          from_config = (case item_index J m item_id of None \<Rightarrow> None | Some i \<Rightarrow> item_field J m i ''url'')
      in case st of
           Some st \<Rightarrow> if non_empty (ds_url st) then (ds_url st, m) else (from_config, m)
         | None \<Rightarrow> (from_config, m))"

definition download_lookup_url ::
  "('j, 't) cjson \<Rightarrow> 't manager_env \<Rightarrow> ('j, 't) manager \<Rightarrow> string \<Rightarrow> cstring \<times> ('j, 't) manager" where
  "download_lookup_url J E m item_id = download_item_load_url J E m item_id"

definition download_item_is_active :: "('j, 't) manager \<Rightarrow> string \<Rightarrow> bool" where
  "download_item_is_active m item_id \<longleftrightarrow> active_jobs_find m item_id \<noteq> None"

text \<open>The first unfinished item of a URL, from index \<open>i\<close> on, \<open>n\<close> left.\<close>

fun resumable_loop ::
  "('j, 't) cjson \<Rightarrow> 't manager_env \<Rightarrow> string \<Rightarrow> nat \<Rightarrow> nat \<Rightarrow> ('j, 't) manager \<Rightarrow> cstring \<times> ('j, 't) manager" where
  "resumable_loop J E url i 0 m = (None, m)"
| "resumable_loop J E url i (Suc n) m =
     (case (item_field J m i ''status'', item_field J m i ''id'') of
        (Some status, Some iid) \<Rightarrow>
          if status = ''completed'' then resumable_loop J E url (Suc i) n m
          else let (item_url, m) = download_item_load_url J E m iid
               in if item_url = Some url then (Some iid, m) else resumable_loop J E url (Suc i) n m
      | _ \<Rightarrow> resumable_loop J E url (Suc i) n m)"

definition find_resumable_item_id ::
  "('j, 't) cjson \<Rightarrow> 't manager_env \<Rightarrow> ('j, 't) manager \<Rightarrow> string \<Rightarrow> cstring \<times> ('j, 't) manager" where
  "find_resumable_item_id J E m url = resumable_loop J E url 0 (get_config_array_size J (mg_cfg m) dm_items) m"

subsection \<open>Changing the source\<close>

definition download_set_url ::
  "('j, 't) cjson \<Rightarrow> 't manager_env \<Rightarrow> ('j, 't) manager \<Rightarrow> cstring \<Rightarrow> cstring \<Rightarrow> int \<times> ('j, 't) manager" where
  "download_set_url J E m item_id new_url =
     (case (item_id, new_url) of
        (Some iid, Some _) \<Rightarrow>
          let normalized = trim_whitespace_inplace new_url in
          if \<not> is_valid_http_url normalized then (EXIT_FAILURE, m)
          else if item_index J m iid = None then (EXIT_FAILURE, m)
          else if download_item_is_active m iid then (EXIT_FAILURE, m)
          else let state_path = download_item_state_path J E m iid;
                   (st, m) = load_state J E m state_path
               in (case st of None \<Rightarrow> (EXIT_FAILURE, m)
                   | Some st \<Rightarrow>
                       let (rc, m) = save_state J E m (st\<lparr>ds_url := normalized\<rparr>) state_path
                       in if rc \<noteq> 0 then (EXIT_FAILURE, m)
                          else (EXIT_SUCCESS, snd (download_item_strip_config_url J E m iid)))
      | _ \<Rightarrow> (EXIT_FAILURE, m))"

definition download_set_source ::
  "('j, 't) cjson \<Rightarrow> 't manager_env \<Rightarrow> ('j, 't) manager \<Rightarrow> cstring \<Rightarrow> cstring \<Rightarrow> cstring \<Rightarrow> cstring \<Rightarrow> int \<times> ('j, 't) manager" where
  "download_set_source J E m item_id new_url referer original_page =
     (case (item_id, new_url) of
        (Some iid, Some _) \<Rightarrow>
          let normalized = trim_whitespace_inplace new_url in
          if \<not> is_valid_http_url normalized then (EXIT_FAILURE, m)
          else if item_index J m iid = None then (EXIT_FAILURE, m)
          else if download_item_is_active m iid then (EXIT_FAILURE, m)
          else let state_path = download_item_state_path J E m iid;
                   (st, m) = load_state J E m state_path
               in (case st of None \<Rightarrow> (EXIT_FAILURE, m)
                   | Some st \<Rightarrow>
                       let st = st\<lparr>ds_url := normalized\<rparr>;
                           st = (if non_empty referer then st\<lparr>ds_referer := referer\<rparr> else st);
                           st = (if non_empty original_page then st\<lparr>ds_original_page := original_page\<rparr> else st);
                           (rc, m) = save_state J E m st state_path
                       in if rc \<noteq> 0 then (EXIT_FAILURE, m)
                          else (EXIT_SUCCESS, snd (download_item_strip_config_url J E m iid)))
      | _ \<Rightarrow> (EXIT_FAILURE, m))"

subsection \<open>Repairing and reconciling\<close>

text \<open>The answers are whether something was repaired and the status for the caller (nothing where the code
  does not write it).\<close>

definition download_item_repair_persisted_status ::
  "('j, 't) cjson \<Rightarrow> 't manager_env \<Rightarrow> ('j, 't) manager \<Rightarrow> cstring \<Rightarrow> (bool \<times> cstring) \<times> ('j, 't) manager" where
  "download_item_repair_persisted_status J E m item_id =
     (case item_id of
        Some (c # cs) \<Rightarrow>
          let iid = c # cs in
          (case item_index J m iid of None \<Rightarrow> ((False, None), m)
           | Some i \<Rightarrow>
               let config_status = item_field J m i ''status'' in
               if download_status_is_valid config_status then ((False, config_status), m)
               else let (replacement, m) =
                          (if download_item_is_active m iid then (Some ''downloading'', m)
                           else let (st, m) = download_item_state_load J E m iid
                                in (case st of
                                      None \<Rightarrow> (None, m)
                                    | Some st \<Rightarrow> (if download_status_is_valid (ds_status st) then ds_status st else None, m)));
                        replacement = (case replacement of None \<Rightarrow> ''queued'' | Some r \<Rightarrow> r);
                        (rc, m) = update_download_item_status J E m iid (Some replacement)
                    in if rc \<noteq> 0 then ((False, None), m) else ((True, Some replacement), m))
      | _ \<Rightarrow> ((False, None), m))"

definition download_item_reconcile_queue_membership ::
  "('j, 't) cjson \<Rightarrow> 't manager_env \<Rightarrow> ('j, 't) manager \<Rightarrow> cstring \<Rightarrow> bool \<times> ('j, 't) manager" where
  "download_item_reconcile_queue_membership J E m item_id =
     (case item_id of
        Some (c # cs) \<Rightarrow>
          let iid = c # cs in
          (case item_index J m iid of None \<Rightarrow> (False, m)
           | Some i \<Rightarrow>
               let config_queue = item_field J m i ''queueId'';
                   config_empty = (\<not> non_empty config_queue);
                   state_path = download_item_state_path J E m iid;
                   (st, m) = load_state J E m state_path
               in (case st of None \<Rightarrow> (False, m)
                   | Some st \<Rightarrow>
                       let state_empty = (\<not> non_empty (ds_queue_id st));
                           same = (if config_empty then state_empty else ds_queue_id st = config_queue)
                       in if same then (False, m)
                          else if config_empty \<and> \<not> state_empty
                          then let (rc, m) = update_download_item_queue_id J E m iid (ds_queue_id st) in (rc = 0, m)
                          else let (rc, m) = save_state J E m
                                     (st\<lparr>ds_queue_id := (if config_empty then None else config_queue)\<rparr>) state_path
                               in (rc = 0, m)))
      | _ \<Rightarrow> (False, m))"

definition download_item_authoritative_queue_id ::
  "('j, 't) cjson \<Rightarrow> 't manager_env \<Rightarrow> ('j, 't) manager \<Rightarrow> cstring \<Rightarrow> cstring \<times> ('j, 't) manager" where
  "download_item_authoritative_queue_id J E m item_id =
     (case item_id of
        Some (c # cs) \<Rightarrow>
          let (_, m) = download_item_reconcile_queue_membership J E m item_id
          in (case item_index J m (c # cs) of None \<Rightarrow> (None, m) | Some i \<Rightarrow> (item_field J m i ''queueId'', m))
      | _ \<Rightarrow> (None, m))"

subsection \<open>The prompt after a failed resume\<close>

definition item_has_resume_unsupported_description ::
  "('j, 't) cjson \<Rightarrow> 't manager_env \<Rightarrow> ('j, 't) manager \<Rightarrow> string \<Rightarrow> bool \<times> ('j, 't) manager" where
  "item_has_resume_unsupported_description J E m item_id =
     (let (st, m) = download_item_state_load J E m item_id;
          from_state = (case st of None \<Rightarrow> False | Some st \<Rightarrow> ds_description st = Some ''resume_unsupported'')
      in if from_state then (True, m)
         else (case item_index J m item_id of None \<Rightarrow> (False, m)
               | Some i \<Rightarrow> (item_field J m i ''description'' = Some ''resume_unsupported'', m)))"

definition clear_download_item_description ::
  "('j, 't) cjson \<Rightarrow> 't manager_env \<Rightarrow> ('j, 't) manager \<Rightarrow> string \<Rightarrow> int \<times> ('j, 't) manager" where
  "clear_download_item_description J E m item_id =
     (let state_path = download_item_state_path J E m item_id;
          (st, m) = load_state J E m state_path;
          (rc, m) = (case st of None \<Rightarrow> (0, m)
                     | Some st \<Rightarrow>
                         let (rc, m) = save_state J E m (st\<lparr>ds_description := None\<rparr>) state_path
                         in (if rc \<noteq> 0 then -1 else 0, m));
          (rc', m) = clear_config_item_description J E m item_id
      in (if rc' \<noteq> 0 then -1 else rc, m))"

definition download_dismiss_resume_prompt ::
  "('j, 't) cjson \<Rightarrow> 't manager_env \<Rightarrow> ('j, 't) manager \<Rightarrow> cstring \<Rightarrow> int \<times> ('j, 't) manager" where
  "download_dismiss_resume_prompt J E m item_id =
     (case item_id of None \<Rightarrow> (EXIT_FAILURE, m)
      | Some iid \<Rightarrow>
          let (has, m) = item_has_resume_unsupported_description J E m iid
          in if \<not> has then (EXIT_FAILURE, m)
             else let (rc, m) = clear_download_item_description J E m iid
                  in (if rc = 0 then EXIT_SUCCESS else EXIT_FAILURE, m))"

end
