(* ===== verification/Item_Commands.thy ===== *)
theory Item_Commands
  imports Item_State
begin

text \<open>
  The commands of \<^verbatim>\<open>src/src/download.c\<close> that restart, remove and move an item and those that create
  one or prepare its download.  What follows the preparation is the event loop of the job
  (\<open>Job_Events\<close>, \<open>Handler\<close>).
\<close>

subsection \<open>Removing files\<close>

definition remove_file :: "item_env \<Rightarrow> string \<Rightarrow> 't fs \<Rightarrow> 't fs" where
  "remove_file I path fs = (if it_removable I path then fs(path := None) else fs)"

text \<open>Everything below the directory goes, as far as it can be removed; the code gives up at the first
  file that cannot, which file that is depends on the order of the entries, so what can be removed is asked
  per file.\<close>

definition remove_directory_recursive :: "item_env \<Rightarrow> string \<Rightarrow> 't fs \<Rightarrow> 't fs" where
  "remove_directory_recursive I dir fs =
     (if dir = [] then fs
      else (\<lambda>p. if starts_with (dir @ ''/'') p \<and> it_removable I p then None else fs p))"

definition remove_job_work_dir :: "item_env \<Rightarrow> cstring \<Rightarrow> 't fs \<Rightarrow> 't fs" where
  "remove_job_work_dir I state_path fs =
     (case state_path of None \<Rightarrow> fs
      | Some path \<Rightarrow>
          (case strrchr path CHR ''/'' of
             None \<Rightarrow> remove_file I path fs
           | Some last_sep \<Rightarrow> remove_directory_recursive I (upto_suffix path last_sep) fs))"

definition file_exists :: "'t fs \<Rightarrow> string \<Rightarrow> bool" where
  "file_exists fs path \<longleftrightarrow> fs path \<noteq> None"

definition cleanup_download_artifacts ::
  "('j, 't) cjson \<Rightarrow> 't manager_env \<Rightarrow> item_env \<Rightarrow> ('j, 't) manager \<Rightarrow> string \<Rightarrow> bool \<Rightarrow> ('j, 't) manager" where
  "cleanup_download_artifacts J E I m item_id purge_dest =
     (case default_temp_path J (me_getenv E) (mg_cfg m) of None \<Rightarrow> m
      | Some temp_dir \<Rightarrow>
          let job_dir = build_job_dir (Some temp_dir) item_id;
              state_path = (case job_dir of None \<Rightarrow> None | Some d \<Rightarrow> build_state_path (Some d));
              (st, m) = load_state J E m state_path;
              m = (case st of None \<Rightarrow> m
                   | Some st \<Rightarrow>
                       let fs = mg_fs m;
                           fs = (case ds_dest_path st of Some d \<Rightarrow> if purge_dest then remove_file I d fs else fs | None \<Rightarrow> fs);
                           fs = (case ds_temp_path st of
                                   Some t \<Rightarrow> if file_exists fs t then remove_file I t fs else fs | None \<Rightarrow> fs)
                       in with_fs fs m)
          in with_fs (remove_job_work_dir I state_path (mg_fs m)) m)"

definition purge_download_files ::
  "('j, 't) cjson \<Rightarrow> 't manager_env \<Rightarrow> item_env \<Rightarrow> ('j, 't) manager \<Rightarrow> string \<Rightarrow> ('j, 't) manager" where
  "purge_download_files J E I m item_id = cleanup_download_artifacts J E I m item_id True"

text \<open>Asking the job of an item to cancel.\<close>

definition cancel_active :: "('j, 't) manager \<Rightarrow> string \<Rightarrow> ('j, 't) manager" where
  "cancel_active m item_id =
     (case active_jobs_find m item_id of None \<Rightarrow> m
      | Some job \<Rightarrow> flag_job (aj_cancel_requested_update (\<lambda>_. True)) job m)"

definition download_remove ::
  "('j, 't) cjson \<Rightarrow> 't manager_env \<Rightarrow> item_env \<Rightarrow> ('j, 't) manager \<Rightarrow> cstring \<Rightarrow> bool \<Rightarrow> bool \<Rightarrow> bool \<Rightarrow> int \<times> ('j, 't) manager" where
  "download_remove J E I m target by_id purge_files force =
     (case find_download_item_index J (mg_cfg m) target by_id of None \<Rightarrow> (EXIT_FAILURE, m)
      | Some i \<Rightarrow>
          (case item_field J m i ''id'' of None \<Rightarrow> (EXIT_FAILURE, m)
           | Some item_id \<Rightarrow>
               let m = cancel_active m item_id;
                   m = cleanup_download_artifacts J E I m item_id purge_files;
                   (rc, m) = config_write E m (\<lambda>io cfg. remove_config_array_item J io cfg dm_items ''id'' item_id)
               in if rc \<noteq> 0 then (EXIT_FAILURE, m) else (EXIT_SUCCESS, m)))"

subsection \<open>Restarting\<close>

definition reset_download_progress_for_restart ::
  "('j, 't) cjson \<Rightarrow> 't manager_env \<Rightarrow> item_env \<Rightarrow> ('j, 't) manager \<Rightarrow> string \<Rightarrow> int \<times> ('j, 't) manager" where
  "reset_download_progress_for_restart J E I m item_id =
     (let state_path = download_item_state_path J E m item_id;
          (st, m) = load_state J E m state_path;
          m = (case st of None \<Rightarrow> m
               | Some st \<Rightarrow>
                   let m = (case ds_temp_path st of
                              Some t \<Rightarrow> if file_exists (mg_fs m) t then with_fs (remove_file I t (mg_fs m)) m else m
                            | None \<Rightarrow> m);
                       temp_dir = default_temp_path J (me_getenv E) (mg_cfg m);
                       job_dir = (case temp_dir of None \<Rightarrow> None | Some d \<Rightarrow> build_job_dir (Some d) item_id);
                       st = (case job_dir of None \<Rightarrow> st
                             | Some d \<Rightarrow> st\<lparr>ds_temp_path := (case ds_filename st of None \<Rightarrow> None | Some f \<Rightarrow> path_join (Some d) (Some f))\<rparr>);
                       st = reset_chunk_progress st;
                       st = st\<lparr>ds_bytes_downloaded := 0, ds_total_size := 0, ds_etag := None, ds_last_modified := None,
                               ds_description := None\<rparr>
                   in snd (save_state J E m st state_path))
      in case item_index J m item_id of None \<Rightarrow> (-1, m)
         | Some i \<Rightarrow> edit_item J E m dm_items i (restart_record J))"

definition download_restart ::
  "('j, 't) cjson \<Rightarrow> 't manager_env \<Rightarrow> item_env \<Rightarrow> ('j, 't) manager \<Rightarrow> cstring \<Rightarrow> int \<times> ('j, 't) manager" where
  "download_restart J E I m item_id =
     (case item_id of None \<Rightarrow> (EXIT_FAILURE, m)
      | Some iid \<Rightarrow>
          let m = cancel_active m iid;
              (rc, m) = reset_download_progress_for_restart J E I m iid
          in if rc \<noteq> 0 then (EXIT_FAILURE, m) else spawn_download_by_id E m iid None True)"

subsection \<open>The finished file\<close>

definition download_resolve_dest_path ::
  "('j, 't) cjson \<Rightarrow> 't manager_env \<Rightarrow> ('j, 't) manager \<Rightarrow> cstring \<Rightarrow> cstring \<times> ('j, 't) manager" where
  "download_resolve_dest_path J E m item_id =
     (case item_id of None \<Rightarrow> (None, m)
      | Some iid \<Rightarrow>
          (case item_index J m iid of None \<Rightarrow> (None, m)
           | Some i \<Rightarrow>
               if item_field J m i ''status'' \<noteq> Some ''completed'' then (None, m)
               else let filename = item_field J m i ''filename'';
                        (st, m) = download_item_state_load J E m iid;
                        from_state = (case st of None \<Rightarrow> None
                                      | Some st \<Rightarrow> if non_empty (ds_dest_path st) then ds_dest_path st else None);
                        resolved = (case from_state of Some p \<Rightarrow> Some p
                                    | None \<Rightarrow>
                                        (case (filename, default_download_path J (me_getenv E) (mg_cfg m)) of
                                           (Some f, Some d) \<Rightarrow> path_join (Some d) (Some f)
                                         | _ \<Rightarrow> None))
                    in (case resolved of None \<Rightarrow> (None, m)
                        | Some p \<Rightarrow> if file_exists (mg_fs m) p then (Some p, m) else (None, m))))"

subsection \<open>Moving to another queue\<close>

definition resolve_queue :: "('j, 't) cjson \<Rightarrow> ('j, 't) manager \<Rightarrow> cstring \<Rightarrow> cstring" where
  "resolve_queue J m queue =
     (case queue_resolve_id J m queue True of Some q \<Rightarrow> Some q | None \<Rightarrow> queue_resolve_id J m queue False)"

definition download_set_queue ::
  "('j, 't) cjson \<Rightarrow> 't manager_env \<Rightarrow> ('j, 't) manager \<Rightarrow> cstring \<Rightarrow> cstring \<Rightarrow> int \<times> ('j, 't) manager" where
  "download_set_queue J E m item_id queue =
     (case item_id of None \<Rightarrow> (EXIT_FAILURE, m)
      | Some iid \<Rightarrow>
          let (_, m) = download_item_reconcile_queue_membership J E m (Some iid) in
          case item_index J m iid of None \<Rightarrow> (EXIT_FAILURE, m)
          | Some i \<Rightarrow>
              let resolved_queue = (if non_empty queue then resolve_queue J m queue else None) in
              if non_empty queue \<and> resolved_queue = None then (EXIT_FAILURE, m)
              else let old_queue = item_field J m i ''queueId'';
                       old_is_default = (\<not> non_empty old_queue);
                       new_is_default = (resolved_queue = None)
                   in if old_is_default \<and> new_is_default then (EXIT_SUCCESS, m)
                      else if \<not> old_is_default \<and> \<not> new_is_default \<and> old_queue = resolved_queue then (EXIT_SUCCESS, m)
                      else (case take_object J (mg_cfg m) dm_items i of None \<Rightarrow> (EXIT_FAILURE, m)
                            | Some obj \<Rightarrow>
                                if \<not> cJSON_IsObject J obj then (EXIT_FAILURE, m)
                                else let obj = cJSON_ReplaceItemInObjectCaseSensitive J obj ''queueId''
                                           (case resolved_queue of Some q \<Rightarrow> cJSON_CreateString J q | None \<Rightarrow> cJSON_CreateNull J);
                                         (rc, m) = put_object J E m dm_items i obj
                                     in if rc \<noteq> 0 then (EXIT_FAILURE, m)
                                        else let state_path = download_item_state_path J E m iid;
                                                 (st, m) = load_state J E m state_path;
                                                 m = (case st of None \<Rightarrow> m
                                                      | Some st \<Rightarrow> snd (save_state J E m (st\<lparr>ds_queue_id := resolved_queue\<rparr>) state_path));
                                                 m = (if \<not> old_is_default then queue_sync_started_state J E m old_queue else m);
                                                 m = (if \<not> new_is_default then queue_sync_started_state J E m resolved_queue else m)
                                             in (EXIT_SUCCESS, m)))"

end
