(* ===== verification/Item_Correct.thy ===== *)
theory Item_Correct
  imports Item_Commands Queue_Correct
begin

text \<open>
  What the commands on an item do to its record, its state file, the jobs and the other files.
\<close>

subsection \<open>Commands that work on files\<close>

text \<open>Only files changed, and only those allowed.\<close>

definition only_files :: "(string \<Rightarrow> bool) \<Rightarrow> ('j, 't) manager \<Rightarrow> ('j, 't) manager \<Rightarrow> bool" where
  "only_files P m m' \<longleftrightarrow> m' = m\<lparr>mg_cfg := (mg_cfg m)\<lparr>cfg_fs := mg_fs m'\<rparr>, mg_tick := mg_tick m'\<rparr>
     \<and> (\<forall>p. \<not> P p \<longrightarrow> mg_fs m' p = mg_fs m p)"

lemma same_files [simp]: "m\<lparr>mg_cfg := (mg_cfg m)\<lparr>cfg_fs := mg_fs m\<rparr>, mg_tick := n\<rparr> = m\<lparr>mg_tick := n\<rparr>"
  by simp

lemma only_filesI:
  assumes "m' = m\<lparr>mg_cfg := (mg_cfg m)\<lparr>cfg_fs := fs\<rparr>, mg_tick := n\<rparr>" "\<And>p. \<not> P p \<Longrightarrow> fs p = mg_fs m p"
  shows "only_files P m m'"
  using assms by (simp add: only_files_def)

lemma only_files_simps:
  assumes "only_files P m m'"
  shows "cfg_tree (mg_cfg m') = cfg_tree (mg_cfg m)" "cfg_path (mg_cfg m') = cfg_path (mg_cfg m)"
    "mg_jobs m' = mg_jobs m" "mg_tasks m' = mg_tasks m" "mg_scope m' = mg_scope m" "mg_snowflake m' = mg_snowflake m"
proof -
  obtain f n where "m' = m\<lparr>mg_cfg := (mg_cfg m)\<lparr>cfg_fs := f\<rparr>, mg_tick := n\<rparr>" using assms unfolding only_files_def by blast
  then show "cfg_tree (mg_cfg m') = cfg_tree (mg_cfg m)" "cfg_path (mg_cfg m') = cfg_path (mg_cfg m)"
    "mg_jobs m' = mg_jobs m" "mg_tasks m' = mg_tasks m" "mg_scope m' = mg_scope m" "mg_snowflake m' = mg_snowflake m"
    by simp_all
qed

lemma only_files_at: "only_files P m m' \<Longrightarrow> \<not> P p \<Longrightarrow> mg_fs m' p = mg_fs m p"
  by (simp add: only_files_def)

lemma only_files_refl [simp]: "only_files P m m"
  by (rule only_filesI [where fs = "mg_fs m" and n = "mg_tick m"]) simp_all

lemma only_files_trans:
  assumes "only_files P a b" "only_files P b c"
  shows "only_files P a c"
proof (rule only_filesI)
  show "c = a\<lparr>mg_cfg := (mg_cfg a)\<lparr>cfg_fs := mg_fs c\<rparr>, mg_tick := mg_tick c\<rparr>"
  proof -
    have "c = b\<lparr>mg_cfg := (mg_cfg b)\<lparr>cfg_fs := mg_fs c\<rparr>, mg_tick := mg_tick c\<rparr>" using assms(2) unfolding only_files_def by blast
    moreover obtain f n where "b = a\<lparr>mg_cfg := (mg_cfg a)\<lparr>cfg_fs := f\<rparr>, mg_tick := n\<rparr>" using assms(1) unfolding only_files_def by blast
    ultimately show ?thesis by simp
  qed
qed (use assms in \<open>simp add: only_files_def\<close>)

lemma only_files_mono: "only_files P a b \<Longrightarrow> (\<And>p. P p \<Longrightarrow> Q p) \<Longrightarrow> only_files Q a b"
  unfolding only_files_def by blast

lemma same_tree_config:
  assumes "cfg_tree cfg' = cfg_tree cfg"
  shows "config_good J cfg' = config_good J cfg" "records J cfg' key = records J cfg key"
    "config_node J cfg' key = config_node J cfg key" "get_config J getenv cfg' key = get_config J getenv cfg key"
    "get_config_array_item_field J cfg' key i f = get_config_array_item_field J cfg key i f"
    "get_config_array_size J cfg' key = get_config_array_size J cfg key"
    "find_download_item_index J cfg' t by_id = find_download_item_index J cfg t by_id"
    "default_temp_path J getenv cfg' = default_temp_path J getenv cfg"
proof -
  show n: "config_node J cfg' key = config_node J cfg key" for key using assms by (simp add: config_node_def)
  show "config_good J cfg' = config_good J cfg" using assms by (simp add: config_good_def)
  show "records J cfg' key = records J cfg key" by (simp add: records_def n)
  have a: "get_config_array_item J cfg' k i = get_config_array_item J cfg k i" for k i
    using assms by (simp add: get_config_array_item_def)
  show "get_config_array_item_field J cfg' key i f = get_config_array_item_field J cfg key i f" for key i f
    by (simp add: get_config_array_item_field_def a)
  moreover show "get_config_array_size J cfg' key = get_config_array_size J cfg key" for key
    using assms by (simp add: get_config_array_size_def)
  ultimately show "find_download_item_index J cfg' t by_id = find_download_item_index J cfg t by_id"
    by (simp only: find_download_item_index_def)
  show g: "get_config J getenv cfg' key = get_config J getenv cfg key" for key
    unfolding get_config_def assms by (rule refl)
  show "default_temp_path J getenv cfg' = default_temp_path J getenv cfg" by (simp add: default_temp_path_def g)
qed

lemma state_path_same:
  assumes "cfg_tree (mg_cfg m') = cfg_tree (mg_cfg m)"
  shows "download_item_state_path J E m' iid = download_item_state_path J E m iid"
  by (simp only: download_item_state_path_def same_tree_config(8) [OF assms])

text \<open>The files a write of \<open>path\<close> through its temporary file touches.\<close>

definition written_files :: "string \<Rightarrow> string \<Rightarrow> bool" where
  "written_files path p \<longleftrightarrow> p = path \<or> p = path @ ''.tmp''"

lemma replace_touches:
  assumes "replace_via_temp ''.tmp'' io path t fs = (rc, tr)" "\<not> written_files path p"
  shows "last (fs # tr) p = fs p"
  using assms by (auto simp: replace_via_temp_def written_files_def Let_def split: if_splits)

lemma load_state_files: "load_state J E m path = (st, m') \<Longrightarrow> only_files P m m'"
  by (rule only_filesI [where fs = "mg_fs m" and n = "Suc (mg_tick m)"]) (simp_all add: load_state_def)

lemma save_state_files:
  assumes "save_state J E m st path = (rc, m')"
  shows "only_files (\<lambda>p. \<exists>sp. path = Some sp \<and> written_files sp p) m m'"
proof -
  obtain tr where s: "download_state_save J (download_io_state_write_allowed (mg_scope m)) (me_save E (mg_tick m)) st path (mg_fs m) = (rc, tr)"
    "m' = with_fs (last (mg_fs m # tr)) (m\<lparr>mg_tick := Suc (mg_tick m)\<rparr>)"
    using assms by (auto simp: save_state_def split: prod.splits)
  have f: "last (mg_fs m # tr) p = mg_fs m p" if p: "\<not> (\<exists>sp. path = Some sp \<and> written_files sp p)" for p
  proof (cases "tr = []")
    case False
    then obtain sp tx where w: "path = Some sp" "replace_via_temp ''.tmp'' (me_save E (mg_tick m)) sp tx (mg_fs m) = (rc, tr)"
      using s(1) by (auto simp: download_state_save_def split: option.splits if_splits)
    have "\<not> written_files sp p" using p w(1) by simp
    then show ?thesis by (rule replace_touches [OF w(2)])
  qed simp
  have "m' = m\<lparr>mg_cfg := (mg_cfg m)\<lparr>cfg_fs := last (mg_fs m # tr)\<rparr>, mg_tick := Suc (mg_tick m)\<rparr>"
    unfolding s(2) with_fs_def by simp
  then show ?thesis by (rule only_filesI) (rule f)
qed

lemma with_fs_files:
  "(\<And>p. \<not> P p \<Longrightarrow> fs p = mg_fs m p) \<Longrightarrow> only_files P m (with_fs fs m)"
  by (rule only_filesI [where fs = fs and n = "mg_tick m"]) (simp_all add: with_fs_def)

lemma with_fs_simps [simp]:
  "mg_fs (with_fs fs m) = fs" "mg_jobs (with_fs fs m) = mg_jobs m" "mg_tasks (with_fs fs m) = mg_tasks m"
  "cfg_tree (mg_cfg (with_fs fs m)) = cfg_tree (mg_cfg m)" "mg_scope (with_fs fs m) = mg_scope m"
  by (simp_all add: with_fs_def)

lemma remove_file_at: "path \<noteq> p \<Longrightarrow> remove_file I path fs p = fs p"
  by (simp add: remove_file_def)

subsection \<open>Removing an item\<close>

text \<open>The files of an item: those below the directory of its state file, the temporary file, and
  the destination when it is purged.\<close>

definition work_dir_file :: "cstring \<Rightarrow> string \<Rightarrow> bool" where
  "work_dir_file state_path p \<longleftrightarrow>
     (case state_path of None \<Rightarrow> False
      | Some path \<Rightarrow> (case strrchr path CHR ''/'' of None \<Rightarrow> p = path
                      | Some s \<Rightarrow> upto_suffix path s \<noteq> [] \<and> starts_with (upto_suffix path s @ ''/'') p))"

definition item_file :: "('j, 't) cjson \<Rightarrow> 't manager_env \<Rightarrow> ('j, 't) manager \<Rightarrow> string \<Rightarrow> bool \<Rightarrow> string \<Rightarrow> bool" where
  "item_file J E m iid purge p \<longleftrightarrow> work_dir_file (download_item_state_path J E m iid) p
     \<or> (\<exists>st. fst (load_state J E m (download_item_state_path J E m iid)) = Some st
          \<and> (ds_temp_path st = Some p \<or> purge \<and> ds_dest_path st = Some p))"

lemma remove_work_dir_at: "\<not> work_dir_file state_path p \<Longrightarrow> remove_job_work_dir I state_path fs p = fs p"
  by (auto simp: work_dir_file_def remove_job_work_dir_def remove_directory_recursive_def remove_file_def
      split: option.splits if_splits)

lemma cleanup_files:
  "only_files (item_file J E m iid purge) m (cleanup_download_artifacts J E I m iid purge)"
proof (cases "default_temp_path J (me_getenv E) (mg_cfg m)")
  case None
  then show ?thesis by (simp add: cleanup_download_artifacts_def)
next
  case (Some d)
  define sp where "sp = (case build_job_dir (Some d) iid of None \<Rightarrow> None | Some j \<Rightarrow> build_state_path (Some j))"
  have sp: "download_item_state_path J E m iid = sp" using Some by (simp add: download_item_state_path_def sp_def)
  obtain st m1 where l: "load_state J E m sp = (st, m1)" by fastforce
  define m2 where "m2 = (case st of None \<Rightarrow> m1
     | Some st \<Rightarrow>
         let fs = mg_fs m1;
             fs = (case ds_dest_path st of Some d \<Rightarrow> if purge then remove_file I d fs else fs | None \<Rightarrow> fs);
             fs = (case ds_temp_path st of Some t \<Rightarrow> if file_exists fs t then remove_file I t fs else fs | None \<Rightarrow> fs)
         in with_fs fs m1)"
  have run: "cleanup_download_artifacts J E I m iid purge = with_fs (remove_job_work_dir I sp (mg_fs m2)) m2"
    using Some l by (simp add: cleanup_download_artifacts_def sp_def [symmetric] m2_def Let_def)
  have f: "item_file J E m iid purge p \<longleftrightarrow> work_dir_file sp p
      \<or> (\<exists>s. st = Some s \<and> (ds_temp_path s = Some p \<or> purge \<and> ds_dest_path s = Some p))" for p
    using l by (simp add: item_file_def sp)
  have "only_files (item_file J E m iid purge) m1 m2"
  proof (cases st)
    case (Some s)
    show ?thesis unfolding m2_def Let_def Some option.case
      by (intro with_fs_files) (auto simp: f Some remove_file_at split: option.split)
  qed (simp add: m2_def)
  moreover have "only_files (item_file J E m iid purge) m2 (with_fs (remove_job_work_dir I sp (mg_fs m2)) m2)"
    by (rule with_fs_files) (use remove_work_dir_at f in blast)
  ultimately show ?thesis using load_state_files [OF l] run only_files_trans by metis
qed

lemma config_write_array:
  assumes "cjson_laws J" "config_good J (mg_cfg m)" "valid_key (split_dots key)"
    and "\<And>x. op_object J opn = Some x \<Longrightarrow> json_good J x"
    and "config_write E m (\<lambda>io cfg. run_array_op J io cfg key opn) = (rc, m')"
  shows "refines_list J (mg_cfg m) key opn (mg_cfg m')" "m' = m\<lparr>mg_cfg := mg_cfg m', mg_tick := Suc (mg_tick m)\<rparr>"
proof -
  obtain cfg' where run: "run_array_op J (me_save E (mg_tick m)) (mg_cfg m) key opn = (rc, cfg')"
    "m' = m\<lparr>mg_cfg := cfg', mg_tick := Suc (mg_tick m)\<rparr>"
    using assms(5) by (cases "run_array_op J (me_save E (mg_tick m)) (mg_cfg m) key opn") (auto simp: config_write_def)
  then show "refines_list J (mg_cfg m) key opn (mg_cfg m')" "m' = m\<lparr>mg_cfg := mg_cfg m', mg_tick := Suc (mg_tick m)\<rparr>"
    using run_array_op_refines [OF assms(1-4) run(1)] by simp_all
qed

text \<open>Writing the configuration touches its file alone.\<close>

lemma persist_files:
  assumes "persist_config J io cfg path = (rc, cfg')" "\<not> written_files path p"
  shows "cfg_fs cfg' p = cfg_fs cfg p"
  using assms replace_touches by (fastforce simp: persist_config_def split: option.splits prod.splits)

lemma commit_files:
  assumes "commit J io cfg res = (rc, cfg')" "\<not> written_files (cfg_path cfg) p"
  shows "cfg_fs cfg' p = cfg_fs cfg p"
  using assms persist_files [of J io "cfg\<lparr>cfg_tree := fst res\<rparr>" "cfg_path cfg" rc cfg' p]
  by (auto simp: commit_def Let_def split: if_splits)

lemma commit_found_files:
  "commit_found J io cfg res = (rc, cfg') \<Longrightarrow> \<not> written_files (cfg_path cfg) p \<Longrightarrow> cfg_fs cfg' p = cfg_fs cfg p"
  using commit_files by (fastforce simp: commit_found_def split: if_splits)

lemma commit_path: "commit J io cfg res = (rc, cfg') \<Longrightarrow> cfg_path cfg' = cfg_path cfg"
  using commit_result by blast

text \<open>Asking a job to cancel.\<close>

lemma cancel_active_simps [simp]:
  "mg_cfg (cancel_active m iid) = mg_cfg m" "mg_tasks (cancel_active m iid) = mg_tasks m"
  "mg_scope (cancel_active m iid) = mg_scope m" "mg_tick (cancel_active m iid) = mg_tick m"
  by (simp_all add: cancel_active_def flag_job_def split: option.split)

lemma item_file_cancel: "item_file J E (cancel_active m iid) iid purge = item_file J E m iid purge"
  by (intro ext) (simp add: item_file_def download_item_state_path_def load_state_def cancel_active_def flag_job_def split: option.split)

definition removed_item ::
  "('j, 't) cjson \<Rightarrow> 't manager_env \<Rightarrow> ('j, 't) manager \<Rightarrow> string \<Rightarrow> bool \<Rightarrow> ('j, 't) manager \<Rightarrow> bool" where
  "removed_item J E m iid purge m' \<longleftrightarrow>
     items_of J m' = list_op J (RemoveItem ''id'' iid) (items_of J m) \<and> queues_of J m' = queues_of J m
     \<and> mg_jobs m' = mg_jobs (cancel_active m iid) \<and> mg_tasks m' = mg_tasks m
     \<and> (\<forall>p. mg_fs m' p \<noteq> mg_fs m p \<longrightarrow> item_file J E m iid purge p \<or> written_files (cfg_path (mg_cfg m)) p)"

lemma download_remove_result:
  assumes J: "cjson_laws J" "config_good J (mg_cfg m)"
    and run: "download_remove J E I m (Some target) by_id purge force = (rc, m')"
  shows "(case first_match (\<lambda>r. field_of J r (if by_id then ''id'' else ''filename'') = Some target) (items_of J m) of
      None \<Rightarrow> rc = EXIT_FAILURE \<and> m' = m
    | Some i \<Rightarrow> (case field_of J (items_of J m ! i) ''id'' of None \<Rightarrow> rc = EXIT_FAILURE \<and> m' = m
                | Some iid \<Rightarrow> removed_item J E m iid purge m'))"
proof (cases "first_match (\<lambda>r. field_of J r (if by_id then ''id'' else ''filename'') = Some target) (items_of J m)")
  case None
  then show ?thesis using run item_index_records [OF J(1), of "mg_cfg m" target by_id] by (simp add: download_remove_def)
next
  case (Some i)
  have ix: "find_download_item_index J (mg_cfg m) (Some target) by_id = Some i"
    using Some item_index_records [OF J(1), of "mg_cfg m" target by_id] by simp
  have "i < length (items_of J m)" using first_match_Some [OF Some] by simp
  then have f: "item_field J m i ''id'' = field_of J (items_of J m ! i) ''id''"
    using array_field_records [OF J(1), of "mg_cfg m" dm_items i "''id''"] by simp
  show ?thesis
  proof (cases "field_of J (items_of J m ! i) ''id''")
    case None
    then show ?thesis using run ix f Some by (simp add: download_remove_def)
  next
    case (Some iid)
    define m1 where "m1 = cleanup_download_artifacts J E I (cancel_active m iid) iid purge"
    have c: "only_files (item_file J E m iid purge) (cancel_active m iid) m1"
      using cleanup_files [of J E "cancel_active m iid" iid purge I] by (simp add: m1_def item_file_cancel)
    note s = only_files_simps [OF c]
    have same: "cfg_tree (mg_cfg m1) = cfg_tree (mg_cfg m)" "cfg_path (mg_cfg m1) = cfg_path (mg_cfg m)" using s by simp_all
    obtain rc1 where w: "config_write E m1 (\<lambda>io cfg. run_array_op J io cfg dm_items (RemoveItem ''id'' iid)) = (rc1, m')"
      using run ix f Some by (auto simp: download_remove_def m1_def Let_def split: prod.splits if_splits)
    have good: "config_good J (mg_cfg m1)" using J(2) same_tree_config(1) [OF same(1), of J] by simp
    note r = config_write_array [OF J(1) good keys_valid(1) _ w]
    obtain c n where "m' = m1\<lparr>mg_cfg := c, mg_tick := n\<rparr>" using r(2) by (auto)
    then have m': "mg_jobs m' = mg_jobs m1" "mg_tasks m' = mg_tasks m1" by simp_all
    have "items_of J m' = list_op J (RemoveItem ''id'' iid) (items_of J m1)" "queues_of J m' = queues_of J m1"
      using r(1) others_kept_records [OF _ keys_unrelated(1)] by (auto simp: refines_list_def)
    moreover have "items_of J m1 = items_of J m" "queues_of J m1 = queues_of J m"
      using same_tree_config(2) [OF same(1)] by auto
    moreover have "mg_fs m' p = mg_fs m p" if "\<not> item_file J E m iid purge p" "\<not> written_files (cfg_path (mg_cfg m)) p" for p
    proof -
      have "mg_fs m1 p = mg_fs m p" using only_files_at [OF c that(1)] by simp
      moreover have "mg_fs m' p = mg_fs m1 p"
      proof -
        obtain cfg' where x: "remove_config_array_item J (me_save E (mg_tick m1)) (mg_cfg m1) dm_items ''id'' iid = (rc1, cfg')"
          "mg_cfg m' = cfg'" using w by (auto simp: config_write_def split: prod.splits)
        have "cfg_fs cfg' p = cfg_fs (mg_cfg m1) p"
          using x(1) unfolding remove_config_array_item_def by (rule commit_found_files) (use that(2) same(2) in simp)
        then show ?thesis using x(2) by simp
      qed
      ultimately show ?thesis by simp
    qed
    ultimately have "removed_item J E m iid purge m'" unfolding removed_item_def using m' s by auto
    then show ?thesis using Some \<open>first_match _ _ = Some i\<close> by simp
  qed
qed

subsection \<open>The state file under the commands\<close>

text \<open>Files can be read, memory is there, and what the loader takes for an empty text does not parse.\<close>

definition state_readable :: "('j, 't) cjson \<Rightarrow> 't manager_env \<Rightarrow> bool" where
  "state_readable J E \<longleftrightarrow> (\<forall>n. me_readable E n) \<and> (\<forall>n. me_realloc E n = (\<lambda>_. True))
     \<and> (\<forall>t. me_empty_text E t \<longrightarrow> cJSON_Parse J t = None)"

lemma load_state_same:
  assumes "state_readable J E" "mg_fs m' sp = mg_fs m sp"
  shows "fst (load_state J E m' (Some sp)) = fst (load_state J E m (Some sp))"
  using assms by (simp add: load_state_def download_state_load_def read_text_def state_readable_def)

lemma save_state_load:
  assumes "cjson_laws J" "state_readable J E" "loadable st" "save_state J E m st (Some sp) = (0, m')"
  shows "\<exists>cap. fst (load_state J E m' (Some sp)) = Some ((with_default_origin st)\<lparr>ds_done_range_capacity := cap\<rparr>)"
proof -
  obtain tr where s: "download_state_save J (download_io_state_write_allowed (mg_scope m)) (me_save E (mg_tick m)) st (Some sp) (mg_fs m) = (0, tr)"
    "mg_fs m' = last (mg_fs m # tr)"
    using assms(4) by (auto simp: save_state_def with_fs_def split: prod.splits)
  obtain tx where tx: "cJSON_PrintUnformatted J (state_root J st) = Some tx" "mg_fs m' sp = Some \<lparr>f_text = tx, f_synced = True\<rparr>"
    using saved_text [OF s(1)] s(2) by auto
  have e: "\<And>t. me_empty_text E t \<Longrightarrow> cJSON_Parse J t = None" using assms(2) by (simp add: state_readable_def)
  show ?thesis using load_of_text [where fs = "mg_fs m'" and path = sp, OF assms(1,3) tx(1) e tx(2)] assms(2)
    by (simp add: load_state_def state_readable_def)
qed

lemma save_state_fails:
  assumes "save_state J E m st (Some sp) = (rc, m')" "rc \<noteq> 0"
  shows "mg_fs m' sp = mg_fs m sp"
proof -
  obtain tr where s: "download_state_save J (download_io_state_write_allowed (mg_scope m)) (me_save E (mg_tick m)) st (Some sp) (mg_fs m) = (rc, tr)"
    "mg_fs m' = last (mg_fs m # tr)"
    using assms(1) by (auto simp: save_state_def with_fs_def split: prod.splits)
  consider "tr = []" | tx where "replace_via_temp ''.tmp'' (me_save E (mg_tick m)) sp tx (mg_fs m) = (rc, tr)"
    using s(1) by (auto simp: download_state_save_def split: option.splits if_splits)
  then show ?thesis
  proof cases
    case (2 tx)
    then show ?thesis using s(2) state_writer.failure [OF TrueI 2 assms(2)] by simp
  qed (use s(2) in simp)
qed

lemma put_object_files:
  assumes "put_object J E m key i obj = (rc, m')" "\<not> written_files (cfg_path (mg_cfg m)) p"
  shows "mg_fs m' p = mg_fs m p"
proof -
  have "cfg_fs cfg' p = cfg_fs (mg_cfg m) p"
    if "replace_config_array_item_at J io (mg_cfg m) key i t = (rc', cfg')" for io t rc' cfg'
    using that unfolding replace_config_array_item_at_def
    by (auto split: option.splits intro: commit_found_files [OF _ assms(2)])
  then show ?thesis using assms(1) by (fastforce simp: put_object_def config_write_def split: option.splits prod.splits)
qed

lemma edit_item_files:
  "edit_item J E m key i change = (rc, m') \<Longrightarrow> \<not> written_files (cfg_path (mg_cfg m)) p \<Longrightarrow> mg_fs m' p = mg_fs m p"
  by (auto simp: edit_item_def split: option.splits intro: put_object_files)

lemma strip_url_files:
  "\<not> written_files (cfg_path (mg_cfg m)) p \<Longrightarrow> mg_fs (snd (download_item_strip_config_url J E m iid)) p = mg_fs m p"
  by (auto simp: download_item_strip_config_url_def put_object_files [OF prod.collapse [symmetric]] split: option.split)

text \<open>Changing the source of an item: all or nothing.\<close>

definition source_kept :: "('j, 't) cjson \<Rightarrow> 't manager_env \<Rightarrow> ('j, 't) manager \<Rightarrow> string \<Rightarrow> ('j, 't) manager \<Rightarrow> bool" where
  "source_kept J E m sp m' \<longleftrightarrow> items_of J m' = items_of J m \<and> fst (load_state J E m' (Some sp)) = fst (load_state J E m (Some sp))"

lemma set_url_outcome:
  assumes J: "cjson_laws J" "state_readable J E"
    and path: "download_item_state_path J E m iid = Some sp" "\<not> written_files (cfg_path (mg_cfg m)) sp"
    and st: "fst (load_state J E m (Some sp)) = Some st" "loadable st"
    and run: "download_set_url J E m (Some iid) (Some url) = (rc, m')"
  shows "(rc = EXIT_SUCCESS \<and> is_valid_http_url (trim_whitespace_inplace (Some url)) \<and> \<not> download_item_is_active m iid
      \<and> (\<exists>cap. fst (load_state J E m' (Some sp))
           = Some ((with_default_origin (st\<lparr>ds_url := trim_whitespace_inplace (Some url)\<rparr>))\<lparr>ds_done_range_capacity := cap\<rparr>)))
    \<or> (rc = EXIT_FAILURE \<and> source_kept J E m sp m')"
proof (cases "is_valid_http_url (trim_whitespace_inplace (Some url)) \<and> item_index J m iid \<noteq> None \<and> \<not> download_item_is_active m iid")
  case False
  then have "rc = EXIT_FAILURE \<and> m' = m" using run by (auto simp: download_set_url_def Let_def split: if_splits)
  then show ?thesis by (simp add: source_kept_def)
next
  case True
  let ?st = "st\<lparr>ds_url := trim_whitespace_inplace (Some url)\<rparr>"
  obtain m1 where l: "load_state J E m (Some sp) = (Some st, m1)" using st(1) by (metis prod.collapse)
  have f1: "only_files (\<lambda>_. False) m m1" by (rule load_state_files [OF l])
  obtain rc2 m2 where s: "save_state J E m1 ?st (Some sp) = (rc2, m2)" by fastforce
  note f2 = save_state_files [OF s]
  show ?thesis
  proof (cases "rc2 = 0")
    case False
    then have "rc = EXIT_FAILURE" "m' = m2" using run True l s path(1) by (auto simp: download_set_url_def Let_def)
    moreover have "items_of J m2 = items_of J m"
      using only_files_simps(1) [OF f1] only_files_simps(1) [OF f2] same_tree_config(2) by metis
    moreover have "mg_fs m2 sp = mg_fs m sp" using save_state_fails [OF s False] only_files_at [OF f1] by simp
    then have "fst (load_state J E m2 (Some sp)) = fst (load_state J E m (Some sp))" by (rule load_state_same [OF J(2)])
    ultimately show ?thesis by (simp add: source_kept_def)
  next
    case ok: True
    then have r: "rc = EXIT_SUCCESS" "m' = snd (download_item_strip_config_url J E m2 iid)"
      using run True l s path(1) by (auto simp: download_set_url_def Let_def)
    have u: "trim_whitespace_inplace (Some url) \<noteq> None"
      using True by (auto simp: is_valid_http_url_def is_valid_url_def split: option.splits)
    have "loadable ?st" using st(2) u by (simp add: loadable_def state_wf_def state_numbers_small_def)
    then have "\<exists>cap. fst (load_state J E m2 (Some sp)) = Some ((with_default_origin ?st)\<lparr>ds_done_range_capacity := cap\<rparr>)"
      using save_state_load [OF J] s ok by blast
    moreover have "cfg_path (mg_cfg m2) = cfg_path (mg_cfg m)" using only_files_simps(2) [OF f1] only_files_simps(2) [OF f2] by simp
    then have "mg_fs m' sp = mg_fs m2 sp" using strip_url_files path(2) r(2) by metis
    then have "fst (load_state J E m' (Some sp)) = fst (load_state J E m2 (Some sp))" by (rule load_state_same [OF J(2)])
    ultimately show ?thesis using r(1) True by simp
  qed
qed

text \<open>While another download runs, the thread of a command may not write the state file.\<close>

lemma refused_write:
  assumes "g_download_io_scope_count (mg_scope m) \<noteq> 0" "\<not> g_download_io_scope (mg_scope m)"
  shows "save_state J E m st path = (-1, m\<lparr>mg_tick := Suc (mg_tick m)\<rparr>)"
  using assms by (cases path)
    (simp_all add: save_state_def download_state_save_def download_io_state_write_allowed_def with_fs_def)

lemma set_url_refused_while_downloading:
  assumes "g_download_io_scope_count (mg_scope m) \<noteq> 0" "\<not> g_download_io_scope (mg_scope m)"
  shows "fst (download_set_url J E m item_id new_url) = EXIT_FAILURE"
proof -
  have "mg_scope (snd (load_state J E m p)) = mg_scope m" for p by (simp add: load_state_def)
  then show ?thesis using refused_write [of "snd (load_state J E m p)" for p] assms
    by (simp add: download_set_url_def split_def Let_def split: option.split)
qed

subsection \<open>Reconciling the queue of an item\<close>

definition queue_agrees :: "cstring \<Rightarrow> cstring \<Rightarrow> bool" where
  "queue_agrees q q' \<longleftrightarrow> (if non_empty q then q' = q else \<not> non_empty q')"

lemma update_queue_id_effect:
  assumes J: "cjson_laws J" "config_good J (mg_cfg m)" and i: "item_index J m iid = Some i"
    and q: "q = Some s" "s \<noteq> []" and run: "update_download_item_queue_id J E m iid q = (rc, m')"
  shows "item_field J m' i ''queueId'' = q"
    "\<not> written_files (cfg_path (mg_cfg m)) p \<Longrightarrow> mg_fs m' p = mg_fs m p"
proof -
  have f: "first_match (\<lambda>r. field_of J r ''id'' = Some iid) (items_of J m) = Some i"
    using i item_index_records [OF J(1), of "mg_cfg m" iid True] by simp
  have len: "i < length (items_of J m)" "cJSON_IsObject J (items_of J m ! i)"
    using first_match_Some [OF f] field_object [OF J(1)] by auto
  have e: "edit_item J E m dm_items i (renew_member J ''queueId'' (text_or_null J q)) = (rc, m')"
    using run i by (simp add: update_download_item_queue_id_def)
  have g: "good_change J (renew_member J ''queueId'' (text_or_null J q))"
    by (rule good_change_renew [OF J(1) text_or_null_good [OF J(1)]])
  note s = record_set_simps [OF edit_item_sets [OF J keys_valid(1) g len e]]
  have "good_object J (items_of J m ! i)"
    using records_good [OF J, of "items_of J m ! i" dm_items] len by (simp add: good_object_def cJSON_IsObject_def)
  then have "field_of J (renew_member J ''queueId'' (text_or_null J q) (items_of J m ! i)) ''queueId'' = Some s"
    using renew_member_fields(2) [OF J(1) _ text_or_null_good [OF J(1), of q], of "items_of J m ! i" "''queueId''" "''queueId''"]
      q scalar_created(1) [OF J(1), of s] by (cases s) (simp_all add: text_or_null_def)
  then show "item_field J m' i ''queueId'' = q"
    using array_field_records [OF J(1), of "mg_cfg m'" dm_items i "''queueId''"] s(2) len q by simp
  show "\<not> written_files (cfg_path (mg_cfg m)) p \<Longrightarrow> mg_fs m' p = mg_fs m p" by (rule edit_item_files [OF e])
qed

lemma reconcile_outcome:
  assumes J: "cjson_laws J" "state_readable J E" "config_good J (mg_cfg m)"
    and path: "download_item_state_path J E m iid = Some sp" "\<not> written_files (cfg_path (mg_cfg m)) sp"
    and st: "fst (load_state J E m (Some sp)) = Some st" "loadable st"
    and item: "item_index J m iid = Some i" "iid \<noteq> []"
    and run: "download_item_reconcile_queue_membership J E m (Some iid) = (b, m')"
  shows "(b \<longrightarrow> \<not> queue_agrees (item_field J m i ''queueId'') (ds_queue_id st)
        \<and> item_field J m' i ''queueId'' = (if non_empty (item_field J m i ''queueId'') then item_field J m i ''queueId'' else ds_queue_id st)
        \<and> (\<exists>st'. fst (load_state J E m' (Some sp)) = Some st' \<and> queue_agrees (item_field J m' i ''queueId'') (ds_queue_id st')
             \<and> ds_url st' = ds_url st \<and> ds_done_ranges st' = ds_done_ranges st))
    \<and> (queue_agrees (item_field J m i ''queueId'') (ds_queue_id st) \<longrightarrow> source_kept J E m sp m')"
proof -
  let ?q = "item_field J m i ''queueId''"
  obtain m1 where l: "load_state J E m (Some sp) = (Some st, m1)" using st(1) by (metis prod.collapse)
  note f1 = load_state_files [OF l, of "\<lambda>_. False"]
  note s1 = only_files_simps [OF f1]
  obtain c cs where iid: "iid = c # cs" using item(2) by (cases iid) auto
  have loaded: "fst (load_state J E m1 (Some sp)) = Some st"
    using load_state_same [OF J(2), of m1 sp m] only_files_at [OF f1, of sp] st(1) by simp
  show ?thesis
  proof (cases "queue_agrees ?q (ds_queue_id st)")
    case True
    then have "(if \<not> non_empty ?q then \<not> non_empty (ds_queue_id st) else ds_queue_id st = ?q)" by (auto simp: queue_agrees_def)
    then have "\<not> b \<and> m' = m1" using run item(1) l path(1) unfolding iid
      by (auto simp: download_item_reconcile_queue_membership_def Let_def split: if_splits)
    then show ?thesis using True loaded st(1) same_tree_config(2) [OF s1(1)] by (simp add: source_kept_def)
  next
    case False
    then have differ: "\<not> (if \<not> non_empty ?q then \<not> non_empty (ds_queue_id st) else ds_queue_id st = ?q)"
      by (auto simp: queue_agrees_def)
    show ?thesis
    proof (cases "non_empty ?q")
      case False
      then have ne: "non_empty (ds_queue_id st)" using differ by simp
      then obtain s where s: "ds_queue_id st = Some s" "s \<noteq> []" by (auto simp: non_empty_def)
      obtain rc2 m2 where u: "update_download_item_queue_id J E m1 iid (ds_queue_id st) = (rc2, m2)" by fastforce
      have "b = (rc2 = 0) \<and> m' = m2" using run item(1) l path(1) differ False ne u unfolding iid
        by (auto simp: download_item_reconcile_queue_membership_def Let_def split: if_splits)
      moreover have "config_good J (mg_cfg m1)" using J(3) same_tree_config(1) [OF s1(1)] by simp
      moreover have "item_index J m1 iid = Some i" using item(1) same_tree_config(7) [OF s1(1)] by simp
      ultimately have q2: "item_field J m2 i ''queueId'' = ds_queue_id st" "mg_fs m2 sp = mg_fs m1 sp"
        using update_queue_id_effect [OF J(1) _ _ s u] path(2) s1(2) by auto
      have "fst (load_state J E m2 (Some sp)) = Some st" using load_state_same [OF J(2) q2(2)] loaded by simp
      then show ?thesis using \<open>b = (rc2 = 0) \<and> m' = m2\<close> q2(1) False \<open>\<not> queue_agrees _ _\<close> by (simp add: queue_agrees_def)
    next
      case True
      obtain rc2 m2 where sv: "save_state J E m1 (st\<lparr>ds_queue_id := ?q\<rparr>) (Some sp) = (rc2, m2)" by fastforce
      have b: "b = (rc2 = 0) \<and> m' = m2" using run item(1) l path(1) differ True sv unfolding iid
        by (auto simp: download_item_reconcile_queue_membership_def Let_def split: if_splits)
      have "cfg_tree (mg_cfg m2) = cfg_tree (mg_cfg m)" using only_files_simps(1) [OF save_state_files [OF sv]] s1(1) by simp
      then have q2: "item_field J m2 i ''queueId'' = ?q" using same_tree_config(5) by blast
      have ld: "loadable (st\<lparr>ds_queue_id := ?q\<rparr>)" using st(2) by (simp add: loadable_def state_wf_def state_numbers_small_def)
      have "\<exists>st'. fst (load_state J E m2 (Some sp)) = Some st' \<and> ds_queue_id st' = ?q \<and> ds_url st' = ds_url st
          \<and> ds_done_ranges st' = ds_done_ranges st" if ok: "rc2 = 0"
      proof -
        obtain cap where "fst (load_state J E m2 (Some sp)) = Some ((with_default_origin (st\<lparr>ds_queue_id := ?q\<rparr>))\<lparr>ds_done_range_capacity := cap\<rparr>)"
          using save_state_load [OF J(1,2) ld, of m1 sp m2] sv ok by auto
        then show ?thesis by (simp add: with_default_origin_def)
      qed
      then show ?thesis using b q2 True \<open>\<not> queue_agrees _ _\<close> by (simp add: queue_agrees_def)
    qed
  qed
qed

subsection \<open>Restarting an item that is running\<close>

text \<open>The job is only asked to cancel; the new task is handed over while it still runs and has the temporary file open.\<close>

lemma load_save_jobs [simp]:
  "mg_jobs (snd (load_state J E m p)) = mg_jobs m" "mg_tasks (snd (load_state J E m p)) = mg_tasks m"
  "mg_jobs (snd (save_state J E m st p)) = mg_jobs m" "mg_tasks (snd (save_state J E m st p)) = mg_tasks m"
  by (simp_all add: load_state_def save_state_def split_def Let_def)

lemma edit_item_jobs [simp]:
  "mg_jobs (snd (edit_item J E m key i change)) = mg_jobs m" "mg_tasks (snd (edit_item J E m key i change)) = mg_tasks m"
  by (simp_all add: edit_item_def put_object_def config_write_def split_def Let_def split: option.split)

lemma reset_progress_jobs [simp]:
  "mg_jobs (snd (reset_download_progress_for_restart J E I m iid)) = mg_jobs m"
  "mg_tasks (snd (reset_download_progress_for_restart J E I m iid)) = mg_tasks m"
  by (simp_all add: reset_download_progress_for_restart_def split_def Let_def split: option.split)

lemma restart_beside_running_job:
  assumes "active_jobs_find m iid = Some job" "download_restart J E I m (Some iid) = (EXIT_SUCCESS, m')"
  shows "mg_tasks m' = mg_tasks m @ [(iid, None, True)]" "mg_jobs m' = mg_jobs (cancel_active m iid)"
proof -
  obtain rc1 m1 where r: "reset_download_progress_for_restart J E I (cancel_active m iid) iid = (rc1, m1)" by fastforce
  have j: "mg_jobs m1 = mg_jobs (cancel_active m iid)" "mg_tasks m1 = mg_tasks m"
    using reset_progress_jobs [of J E I "cancel_active m iid" iid] r by simp_all
  have "spawn_download_by_id E m1 iid None True = (EXIT_SUCCESS, m')" using assms(2) r
    by (simp add: download_restart_def split: if_splits)
  then have "mg_tasks m' = mg_tasks m1 @ [(iid, None, True)] \<and> mg_jobs m' = mg_jobs m1"
    by (auto simp: spawn_download_by_id_def download_pool_submit_def split_def Let_def split: if_splits)
  then show "mg_tasks m' = mg_tasks m @ [(iid, None, True)]" "mg_jobs m' = mg_jobs (cancel_active m iid)" using j by simp_all
qed

text \<open>While another download runs, restarting an item removes its temporary file but not its progress: the write
  of the state is refused and its result is not looked at, so the next run goes on with the finished ranges of a file
  that is gone.\<close>

lemma restart_keeps_progress_of_removed_file:
  assumes "state_readable J E"
    and refused: "g_download_io_scope_count (mg_scope m) \<noteq> 0" "\<not> g_download_io_scope (mg_scope m)"
    and path: "download_item_state_path J E m iid = Some sp" "\<not> written_files (cfg_path (mg_cfg m)) sp"
    and st: "fst (load_state J E m (Some sp)) = Some st" "ds_temp_path st = Some t"
    and tmp: "file_exists (mg_fs m) t" "it_removable I t" "t \<noteq> sp" "\<not> written_files (cfg_path (mg_cfg m)) t"
    and run: "reset_download_progress_for_restart J E I m iid = (rc, m')"
  shows "mg_fs m' t = None" "fst (load_state J E m' (Some sp)) = Some st"
proof -
  obtain m1 where l: "load_state J E m (Some sp) = (Some st, m1)" using st(1) by (metis prod.collapse)
  have m1: "m1 = m\<lparr>mg_tick := Suc (mg_tick m)\<rparr>" using l by (simp add: load_state_def)
  define m2 where "m2 = with_fs (remove_file I t (mg_fs m)) m1"
  have refuse: "save_state J E m2 x (Some sp) = (-1, m2\<lparr>mg_tick := Suc (mg_tick m2)\<rparr>)" for x
    by (rule refused_write) (use refused in \<open>simp_all add: m2_def m1\<close>)
  define m3 where "m3 = m2\<lparr>mg_tick := Suc (mg_tick m2)\<rparr>"
  have fs: "mg_fs m3 = (mg_fs m)(t := None)" "cfg_path (mg_cfg m3) = cfg_path (mg_cfg m)"
    using tmp(2) by (simp_all add: m3_def m2_def m1 with_fs_def remove_file_def)
  have "(case item_index J m3 iid of None \<Rightarrow> (-1, m3) | Some i \<Rightarrow> edit_item J E m3 dm_items i (restart_record J)) = (rc, m')"
    using run path(1) l st(2) tmp(1) refuse m1
    by (simp add: reset_download_progress_for_restart_def m3_def m2_def split_def Let_def cong: option.case_cong)
  then have "mg_fs m' p = mg_fs m3 p" if "\<not> written_files (cfg_path (mg_cfg m)) p" for p
    using that fs(2) edit_item_files [of J E m3 dm_items _ "restart_record J" rc m' p] by (auto split: option.splits)
  then have "mg_fs m' t = mg_fs m3 t" "mg_fs m' sp = mg_fs m3 sp" using tmp(4) path(2) by blast+
  then show "mg_fs m' t = None" "fst (load_state J E m' (Some sp)) = Some st"
    using fs(1) tmp(3) load_state_same [OF assms(1), of m' sp m] st(1) by simp_all
qed

text \<open>The end of an inner scope ends the outer one for the thread: what the outer one still writes is refused.\<close>

lemma nested_scope_is_lost:
  assumes "g_download_io_scope_count sc + 1 \<noteq> 0"
  shows "\<not> download_io_state_write_allowed (download_io_scope_end (download_io_scope_begin iid (download_io_scope_begin iid sc))) path"
  using assms by (simp add: download_io_scope_end_def download_io_scope_begin_def download_io_state_write_allowed_def algebra_simps)

subsection \<open>Properties\<close>

text \<open>An item whose record names a queue and whose state file, written before, names none.\<close>

definition demo_item_env :: "json_value manager_env" where
  "demo_item_env = sample_manager_env\<lparr>me_getenv := (\<lambda>k. if k = ''avar.dm.tempPath'' then Some ''/t'' else None)\<rparr>"

definition demo_answers :: item_env where
  "demo_answers = \<lparr>it_removable = (\<lambda>_. True), it_mkdir = (\<lambda>_. True), it_now = (\<lambda>_. None), it_stamp = (\<lambda>_. 0),
     it_url_decode = Some, it_url = sample_urls, it_proxy = \<lparr>pe_getenv = (\<lambda>_. None), pe_config = (\<lambda>_. None)\<rparr>\<rparr>"

definition demo_state :: DownloadState where
  "demo_state = State_File.sample_state\<lparr>ds_done_ranges := []\<rparr>"

lemma demo_state_loadable: "loadable demo_state"
  using State_File.sample_state_loadable
  by (simp add: loadable_def state_wf_def state_numbers_small_def demo_state_def State_File.sample_state_def)

definition demo_manager :: "(json_value, json_value) manager" where
  "demo_manager = with_fs [''/t/a/state.json'' \<mapsto> \<lparr>f_text = state_root sample_cjson demo_state, f_synced = True\<rparr>,
      ''/d/f'' \<mapsto> \<lparr>f_text = JV_Null, f_synced = True\<rparr>, ''/d/other'' \<mapsto> \<lparr>f_text = JV_Null, f_synced = True\<rparr>] sample_manager"

definition demo_loaded :: DownloadState where
  "demo_loaded = the (fst (load_state sample_cjson demo_item_env demo_manager (Some ''/t/a/state.json'')))"

lemma demo_config [simp]:
  "config_good sample_cjson (mg_cfg demo_manager)" "items_of sample_cjson demo_manager = items_of sample_cjson sample_manager"
  "mg_scope demo_manager = mg_scope sample_manager" "cfg_path (mg_cfg demo_manager) = ''c''"
proof -
  have e: "cfg_tree (mg_cfg demo_manager) = cfg_tree (mg_cfg sample_manager)" by (simp add: demo_manager_def)
  show "config_good sample_cjson (mg_cfg demo_manager)" using sample_manager_good same_tree_config(1) [OF e] by simp
  show "items_of sample_cjson demo_manager = items_of sample_cjson sample_manager" by (rule same_tree_config(2) [OF e])
qed (simp_all add: demo_manager_def with_fs_def sample_manager_def)

lemma demo_reads: "state_readable sample_cjson demo_item_env"
  by (simp add: state_readable_def demo_item_env_def sample_manager_env_def)

lemma demo_path: "download_item_state_path sample_cjson demo_item_env demo_manager ''a'' = Some ''/t/a/state.json''"
  by (simp add: download_item_state_path_def default_temp_path_def get_config_def get_config_from_env_def demo_item_env_def
      build_job_dir_def build_state_path_def path_join_def Let_def)

lemma demo_load:
  "fst (load_state sample_cjson demo_item_env demo_manager (Some ''/t/a/state.json'')) = Some demo_loaded" "loadable demo_loaded"
  "ds_queue_id demo_loaded = None"
proof -
  have "cJSON_PrintUnformatted sample_cjson (state_root sample_cjson demo_state) = Some (state_root sample_cjson demo_state)"
    by (simp add: sample_cjson_def)
  moreover have "mg_fs demo_manager ''/t/a/state.json'' = Some \<lparr>f_text = state_root sample_cjson demo_state, f_synced = True\<rparr>"
    by (simp add: demo_manager_def)
  ultimately obtain cap where "download_state_load sample_cjson (\<lambda>_. True) True (\<lambda>_. False) (Some ''/t/a/state.json'') (mg_fs demo_manager)
      = Some ((with_default_origin demo_state)\<lparr>ds_done_range_capacity := cap\<rparr>)"
    using load_of_text [OF sample_cjson_laws demo_state_loadable, where empty_text = "\<lambda>_. False"] by blast
  then have l: "fst (load_state sample_cjson demo_item_env demo_manager (Some ''/t/a/state.json''))
      = Some ((with_default_origin demo_state)\<lparr>ds_done_range_capacity := cap\<rparr>)"
    by (simp add: load_state_def demo_item_env_def sample_manager_env_def)
  then show "fst (load_state sample_cjson demo_item_env demo_manager (Some ''/t/a/state.json'')) = Some demo_loaded"
    by (simp add: demo_loaded_def)
  have d: "demo_loaded = (with_default_origin demo_state)\<lparr>ds_done_range_capacity := cap\<rparr>" using l by (simp add: demo_loaded_def)
  show "loadable demo_loaded" using demo_state_loadable
    by (simp add: d loadable_def with_default_origin_def state_wf_def state_numbers_small_def demo_state_def)
  show "ds_queue_id demo_loaded = None" by (simp add: d with_default_origin_def demo_state_def State_File.sample_state_def calloc_state_def)
qed

lemma demo_item: "item_index sample_cjson demo_manager ''a'' = Some 0"
  "item_field sample_cjson demo_manager 0 ''queueId'' = Some ''q''"
  using item_index_records [OF sample_cjson_laws, of "mg_cfg demo_manager" "''a''" True]
    array_field_records [OF sample_cjson_laws, of "mg_cfg demo_manager" dm_items 0 "''queueId''"]
  by (simp_all add: sample_records sample_fields)

lemma demo_saves:
  assumes "mg_scope m1 = mg_scope sample_manager"
  shows "fst (save_state sample_cjson demo_item_env m1 st (Some ''/t/a/state.json'')) = 0"
proof -
  have "cJSON_PrintUnformatted sample_cjson x = Some x" for x by (simp add: sample_cjson_def)
  moreover have "download_io_state_write_allowed (mg_scope m1) p" for p
    by (simp add: assms download_io_state_write_allowed_def sample_manager_def)
  moreover have "me_save demo_item_env n = sample_save_io" for n by (simp add: demo_item_env_def sample_manager_env_def)
  ultimately show ?thesis
    by (simp add: save_state_def download_state_save_def replace_via_temp_def sample_save_io_def split_def Let_def)
qed







end
