(* ===== verification/Item_Record.thy ===== *)
theory Item_Record
  imports Item_Correct Job
begin

text \<open>
  The record a job writes into \<open>dm.items\<close>, \<^verbatim>\<open>build_item_json\<close> and the part of
  \<^verbatim>\<open>dm_item_upsert\<close> in \<^verbatim>\<open>src/src/download.c\<close> that changes the configuration, with the
  progress members of \<^verbatim>\<open>src/src/download_state.c\<close>.  \<open>Job\<close> has the part that changes the job.
\<close>

subsection \<open>The progress of a job as JSON\<close>

definition json_append_byte_range :: "('j, 't) cjson \<Rightarrow> u64 \<Rightarrow> u64 \<Rightarrow> 'j list" where
  "json_append_byte_range J start end =
     (if start > end then [] else [range_pair J \<lparr>br_start = start, br_end = end\<rparr>])"

definition slot_active_range :: "('j, 't) cjson \<Rightarrow> ChunkSlot \<Rightarrow> 'j list" where
  "slot_active_range J slot =
     (if \<not> cs_in_use slot \<or> \<not> cs_streaming slot \<or> cs_chunk_received slot \<le> cs_persisted_received slot then []
      else json_append_byte_range J (cs_chunk_write_offset slot + cs_persisted_received slot)
             (cs_chunk_write_offset slot + cs_chunk_received slot - 1))"

definition json_add_active_ranges :: "('j, 't) cjson \<Rightarrow> 'j \<Rightarrow> DownloadJob \<Rightarrow> 'j" where
  "json_add_active_ranges J obj job =
     add_array J obj ''activeRanges''
       (if j_slots job \<noteq> [] then concat (map (slot_active_range J) (j_slots job))
        else if j_step job = DL_STEP_CHUNK \<and> j_streaming job \<and> j_chunk_received job > j_chunk_persisted job
        then json_append_byte_range J (j_chunk_write_offset job + j_chunk_persisted job)
               (j_chunk_write_offset job + j_chunk_received job - 1)
        else if j_step job = DL_STEP_STREAM \<and> j_stream_received job > j_stream_persisted job
        then json_append_byte_range J (j_stream_persisted job) (j_stream_received job - 1)
        else [])"

definition download_state_add_json_progress :: "('j, 't) cjson \<Rightarrow> 'j \<Rightarrow> DownloadState \<Rightarrow> 'j" where
  "download_state_add_json_progress J obj st =
     (if ds_total_size st = 0 \<or> ds_chunk_size st = 0 then obj
      else let obj = cJSON_DeleteItemFromObjectCaseSensitive J obj ''chunkSize'';
               obj = cJSON_DeleteItemFromObjectCaseSensitive J obj ''doneRanges'';
               obj = cJSON_AddNumberToObject J obj ''chunkSize'' (Json.double_of_u64 (ds_chunk_size st))
           in add_array J obj ''doneRanges'' (map (range_pair J) (ds_done_ranges st)))"

definition download_job_add_json_progress :: "('j, 't) cjson \<Rightarrow> 'j \<Rightarrow> DownloadJob \<Rightarrow> 'j" where
  "download_job_add_json_progress J obj job =
     (let obj = download_state_add_json_progress J obj (j_state job);
          obj = cJSON_DeleteItemFromObjectCaseSensitive J obj ''activeRanges''
      in json_add_active_ranges J obj job)"

definition download_entry_add_progress_json ::
  "('j, 't) cjson \<Rightarrow> 't manager_env \<Rightarrow> ('j, 't) manager \<Rightarrow> (string \<Rightarrow> DownloadJob option) \<Rightarrow> cstring \<Rightarrow> 'j \<Rightarrow> 'j \<times> ('j, 't) manager" where
  "download_entry_add_progress_json J E m active_job item_id entry =
     (case item_id of
        Some (c # cs) \<Rightarrow>
          (case active_job (c # cs) of
             Some job \<Rightarrow> (download_job_add_json_progress J entry job, m)
           | None \<Rightarrow>
               let (st, m) = download_item_state_load J E m (c # cs)
               in (case st of None \<Rightarrow> (entry, m)
                   | Some st \<Rightarrow> (cJSON_DeleteItemFromObjectCaseSensitive J
                                    (download_state_add_json_progress J entry st) ''activeRanges'', m)))
      | _ \<Rightarrow> (entry, m))"

subsection \<open>The record\<close>

definition item_max_retries :: "('j, 't) cjson \<Rightarrow> ('j, 't) manager \<Rightarrow> string \<Rightarrow> u32 option" where
  "item_max_retries J m item_id =
     (case item_index J m item_id of None \<Rightarrow> None | Some i \<Rightarrow> parse_positive_u32 (item_field J m i ''maxRetries''))"

definition config_queue_id :: "('j, 't) cjson \<Rightarrow> ('j, 't) manager \<Rightarrow> string \<Rightarrow> cstring" where
  "config_queue_id J m item_id =
     (case item_index J m item_id of None \<Rightarrow> None | Some i \<Rightarrow> item_field J m i ''queueId'')"

text \<open>The destination of a completed item: the member is added once, in the record where it is found.\<close>

definition completed_dest ::
  "('j, 't) cjson \<Rightarrow> 't manager_env \<Rightarrow> ('j, 't) manager \<Rightarrow> DownloadJob \<Rightarrow> cstring \<times> ('j, 't) manager" where
  "completed_dest J E m job =
     (if non_empty (j_dest_path job) then (j_dest_path job, m)
      else if non_empty (ds_dest_path (j_state job)) then (ds_dest_path (j_state job), m)
      else download_resolve_dest_path J E m (Some (j_item_id job)))"

text \<open>\<open>speed\<close> is \<open>last_speed_bps\<close>, which the reports of progress update.\<close>

definition item_object ::
  "('j, 't) cjson \<Rightarrow> ('j, 't) manager \<Rightarrow> DownloadJob \<Rightarrow> rat \<Rightarrow> string \<Rightarrow> 'j" where
  "item_object J m job speed status =
     (let st = j_state job;
          obj = cJSON_CreateObject J;
          obj = cJSON_AddStringToObject J obj ''id'' (j_item_id job);
          obj = add_optional_string J obj ''filename'' (j_filename job);
          obj = cJSON_AddBoolToObject J obj ''filenameInferred'' (j_filename_inferred job);
          obj = cJSON_AddStringToObject J obj ''status'' status;
          obj = cJSON_AddNumberToObject J obj ''bytesDownloaded'' (Json.double_of_u64 (job_bytes_done job));
          obj = cJSON_AddNumberToObject J obj ''bytesPerSecond'' speed;
          obj = cJSON_AddNumberToObject J obj ''totalBytes'' (Json.double_of_u64 (ds_total_size st));
          obj = cJSON_AddNumberToObject J obj ''errorCount'' (of_nat (unat (j_error_count job)));
          obj = (case item_max_retries J m (j_item_id job) of
                   Some n \<Rightarrow> cJSON_AddNumberToObject J obj ''maxRetries'' (of_nat (unat n))
                 | None \<Rightarrow> cJSON_AddNullToObject J obj ''maxRetries'');
          obj = (if non_empty (config_queue_id J m (j_item_id job))
                 then cJSON_AddStringToObject J obj ''queueId'' (the (config_queue_id J m (j_item_id job)))
                 else if non_empty (ds_queue_id st) then cJSON_AddStringToObject J obj ''queueId'' (the (ds_queue_id st))
                 else cJSON_AddNullToObject J obj ''queueId'')
      in json_add_string_or_null J obj ''description'' (ds_description st))"

definition build_item_json ::
  "('j, 't) cjson \<Rightarrow> 't manager_env \<Rightarrow> ('j, 't) manager \<Rightarrow> DownloadJob \<Rightarrow> rat \<Rightarrow> string \<Rightarrow> 't option \<times> ('j, 't) manager" where
  "build_item_json J E m job speed status =
     (let obj = item_object J m job speed status;
          (dest, m) = (if status = ''completed'' then completed_dest J E m job else (None, m));
          obj = add_optional_string J obj ''destPath'' dest;
          obj = (if ds_total_size (j_state job) > 0 \<and> ds_chunk_size (j_state job) > 0
                 then download_job_add_json_progress J obj job else obj)
      in (cJSON_PrintUnformatted J obj, m))"

subsection \<open>Writing the record\<close>

definition sync_queue_started_for_job ::
  "('j, 't) cjson \<Rightarrow> 't manager_env \<Rightarrow> ('j, 't) manager \<Rightarrow> DownloadJob \<Rightarrow> ('j, 't) manager" where
  "sync_queue_started_for_job J E m job =
     (if non_empty (ds_queue_id (j_state job))
      then queue_sync_started_state J E (queue_dispatch J E m (ds_queue_id (j_state job))) (ds_queue_id (j_state job))
      else m)"

definition update_or_append ::
  "('j, 't) cjson \<Rightarrow> 't manager_env \<Rightarrow> ('j, 't) manager \<Rightarrow> string \<Rightarrow> 't \<Rightarrow> int \<times> ('j, 't) manager" where
  "update_or_append J E m item_id json =
     (let (rc, m) = config_write E m (\<lambda>io cfg. update_config_array_item J io cfg dm_items ''id'' item_id json)
      in if rc \<noteq> 0 then config_write E m (\<lambda>io cfg. append_config_array_item J io cfg dm_items json) else (0, m))"

definition upsert_item_record ::
  "('j, 't) cjson \<Rightarrow> 't manager_env \<Rightarrow> ('j, 't) manager \<Rightarrow> DownloadJob \<Rightarrow> rat \<Rightarrow> string \<Rightarrow> int \<times> ('j, 't) manager" where
  "upsert_item_record J E m job speed normalized =
     (let (json, m) = build_item_json J E m job speed normalized
      in case json of None \<Rightarrow> (-1, m)
         | Some json \<Rightarrow>
             let (rc, m) = update_or_append J E m (j_item_id job) json
             in if rc = 0
                then (rc, sync_queue_started_for_job J E (snd (download_item_strip_config_url J E m (j_item_id job))) job)
                else (rc, m))"

subsection \<open>The record replaces the one of the item, or is appended\<close>

lemma update_missing:
  assumes J: "cjson_laws J" "config_good J cfg" "json_good J x" "parse_object J json = Some x"
    and none: "first_match (item_matches J mf mv) (records J cfg key) = None"
  shows "fst (update_config_array_item J io cfg key mf mv json) = -1"
proof -
  let ?g = "change_first_match J mf mv (\<lambda>arr i. cJSON_ReplaceItemInArray J arr i x)"
  have ch: "array_change J ?g" by (rule array_change_first) (simp add: J(1) good_replace_at [OF J(1,3)])
  define w where "w = with_parent J False (cfg_tree cfg) (split_dots key) (in_array J False ?g)"
  have "snd w = None"
  proof (cases "find_array J (cfg_tree cfg) key")
    case None
    then show ?thesis unfolding w_def by (rule missing_array [OF J(1) ch J(2)])
  next
    case (Some arr)
    have "cfg_tree (cfg\<lparr>cfg_tree := fst w\<rparr>) = fst w" by simp
    from array_kept(3) [OF J(1) ch J(2) Some w_def [symmetric] this] have "snd w = snd (?g arr)" .
    then show ?thesis using none found_records [OF Some] by (simp add: change_first_match_def)
  qed
  then show ?thesis using J(4) by (simp add: update_config_array_item_def commit_found_def w_def)
qed

lemma update_or_append_effect:
  assumes J: "cjson_laws J" "config_good J (mg_cfg m)" and x: "parse_object J json = Some x" "json_good J x"
    and run: "update_or_append J E m iid json = (rc, m')"
  shows "config_good J (mg_cfg m')" "queues_of J m' = queues_of J m" "mg_jobs m' = mg_jobs m" "mg_tasks m' = mg_tasks m"
    "items_of J m' = (case first_match (item_matches J ''id'' iid) (items_of J m) of
        None \<Rightarrow> items_of J m @ [x]
      | Some i \<Rightarrow> (items_of J m)[i := x] @
          (if fst (update_config_array_item J (me_save E (mg_tick m)) (mg_cfg m) dm_items ''id'' iid json) = 0 then [] else [x]))"
proof -
  obtain rc1 m1 where u: "config_write E m (\<lambda>io cfg. run_array_op J io cfg dm_items (UpdateItem ''id'' iid json)) = (rc1, m1)"
    by fastforce
  have obj: "\<And>y. op_object J (UpdateItem ''id'' iid json) = Some y \<Longrightarrow> json_good J y"
    "\<And>y. op_object J (AppendItem json) = Some y \<Longrightarrow> json_good J y" using x by simp_all
  note r1 = config_write_array [OF J keys_valid(1) obj(1) u]
  have rc1: "rc1 = fst (update_config_array_item J (me_save E (mg_tick m)) (mg_cfg m) dm_items ''id'' iid json)"
    using u by (auto simp: config_write_def split_def Let_def)
  have items1: "items_of J m1 = (case first_match (item_matches J ''id'' iid) (items_of J m) of None \<Rightarrow> items_of J m | Some i \<Rightarrow> (items_of J m)[i := x])"
    and good1: "config_good J (mg_cfg m1)" and q1: "queues_of J m1 = queues_of J m"
    using r1(1) x(1) others_kept_records [OF _ keys_unrelated(1)] by (auto simp: refines_list_def split: option.split)
  obtain c1 n1 where m1: "m1 = m\<lparr>mg_cfg := c1, mg_tick := n1\<rparr>" using r1(2) by auto
  have none: "rc1 = -1" if "first_match (item_matches J ''id'' iid) (items_of J m) = None"
    using update_missing [OF J x(2,1) that] rc1 by simp
  have "config_good J (mg_cfg m') \<and> queues_of J m' = queues_of J m \<and> mg_jobs m' = mg_jobs m \<and> mg_tasks m' = mg_tasks m
      \<and> items_of J m' = items_of J m1 @ (if rc1 = 0 then [] else [x])"
  proof (cases "rc1 = 0")
    case True
    then have "m' = m1" using run u by (simp add: update_or_append_def)
    then show ?thesis using True good1 q1 by (simp add: m1)
  next
    case False
    then have a: "config_write E m1 (\<lambda>io cfg. run_array_op J io cfg dm_items (AppendItem json)) = (rc, m')"
      using run u by (simp add: update_or_append_def)
    note r2 = config_write_array [OF J(1) good1 keys_valid(1) obj(2) a]
    obtain c2 n2 where "m' = m1\<lparr>mg_cfg := c2, mg_tick := n2\<rparr>" using r2(2) by auto
    then have "mg_jobs m' = mg_jobs m \<and> mg_tasks m' = mg_tasks m" by (simp add: m1)
    moreover have "queues_of J m' = queues_of J m1" "items_of J m' = items_of J m1 @ [x]" "config_good J (mg_cfg m')"
      using r2(1) x(1) others_kept_records [OF _ keys_unrelated(1)] by (auto simp: refines_list_def)
    ultimately show ?thesis using False q1 by simp
  qed
  then show "config_good J (mg_cfg m')" "queues_of J m' = queues_of J m" "mg_jobs m' = mg_jobs m" "mg_tasks m' = mg_tasks m"
    "items_of J m' = (case first_match (item_matches J ''id'' iid) (items_of J m) of
        None \<Rightarrow> items_of J m @ [x]
      | Some i \<Rightarrow> (items_of J m)[i := x] @
          (if fst (update_config_array_item J (me_save E (mg_tick m)) (mg_cfg m) dm_items ''id'' iid json) = 0 then [] else [x]))"
    using items1 none rc1 by (auto split: option.splits)
qed

text \<open>When the configuration cannot be written, the record is replaced in memory and then appended a second time.\<close>

lemma failed_write_duplicates_record:
  assumes "cjson_laws J" "config_good J (mg_cfg m)" "parse_object J json = Some x" "json_good J x"
    and "first_match (item_matches J ''id'' iid) (items_of J m) = Some i"
    and "fst (update_config_array_item J (me_save E (mg_tick m)) (mg_cfg m) dm_items ''id'' iid json) \<noteq> 0"
  shows "items_of J (snd (update_or_append J E m iid json)) = (items_of J m)[i := x] @ [x]"
proof -
  obtain rc m' where "update_or_append J E m iid json = (rc, m')" by fastforce
  from update_or_append_effect(5) [OF assms(1-4) this] show ?thesis using assms(5,6) \<open>_ = (rc, m')\<close> by simp
qed

end
