(* ===== verification/Hls.thy ===== *)
theory Hls
  imports Http Utils
begin

text \<open>
  Downloads of HLS playlists, \<^verbatim>\<open>src/src/stream_hls.c\<close>: fetching a body, choosing a variant of a
  master playlist, parsing a media playlist, decrypting a segment and writing the segments one after
  the other.  The URL functions of mongoose and the AES functions of mbedtls are in
  \<open>hls_api\<close>; \<open>hls_net\<close> holds what happens outside: the events of the k-th connection until the
  deadline, and how much the k-th \<open>fwrite\<close> writes.  The build defines \<open>MG_TLS\<close>.
\<close>

record hls_api =
  ha_url_host :: "string \<Rightarrow> string"
  ha_url_uri :: "string \<Rightarrow> string"
  ha_url_is_ssl :: "string \<Rightarrow> bool"
  ha_aes_cbc :: "bytes \<Rightarrow> bytes \<Rightarrow> bytes \<Rightarrow> bytes option"

datatype fetch_event = FE_Connect "int option" | FE_Tls_Hs | FE_Write bool bool | FE_Http_Msg int bytes | FE_Other

record hls_net =
  hn_events :: "nat \<Rightarrow> string \<Rightarrow> fetch_event list option"
  hn_malloc :: "nat \<Rightarrow> bool"
  hn_fwrite :: "nat \<Rightarrow> nat"
  hn_fopen :: bool

text \<open>Counters of fetches and writes, the requests sent and the bytes of the destination.\<close>

record hls_state =
  hl_fetches :: nat
  hl_writes :: nat
  hl_sent :: "string list"
  hl_file :: bytes

definition HLS_MAX_BODY :: nat where "HLS_MAX_BODY = 64 * 1024 * 1024"

subsection \<open>Kinds of URLs\<close>

definition stream_url_is_hls :: "cstring \<Rightarrow> cstring \<Rightarrow> bool" where
  "stream_url_is_hls url stream_kind =
     (if stream_kind \<noteq> None \<and> str_ieq stream_kind (Some ''hls'') then True
      else (case url of None \<Rightarrow> False | Some u \<Rightarrow> strstr u ''.m3u8'' \<noteq> None \<or> strstr u ''.M3U8'' \<noteq> None))"

subsection \<open>Fetching a body\<close>

record HttpFetchCtx =
  fc_done :: bool
  fc_ok :: bool
  fc_status :: int
  fc_request_sent :: bool
  fc_body :: "bytes option"
  fc_url :: string
  fc_referer :: cstring
  fc_sent :: "string list"

definition crlf :: string where "crlf = [CHR 0x0D, CHR 0x0A]"

definition fetch_request :: "hls_api \<Rightarrow> string \<Rightarrow> cstring \<Rightarrow> string" where
  "fetch_request A url referer =
     ''GET '' @ ha_url_uri A url @ '' HTTP/1.1'' @ crlf @ ''Host: '' @ ha_url_host A url @ crlf
     @ ''User-Agent: Avar'' @ crlf @ ''Accept: */*'' @ crlf @ ''Accept-Encoding: identity'' @ crlf
     @ ''Connection: close'' @ crlf
     @ (case referer of Some (c # cs) \<Rightarrow> ''Referer: '' @ (c # cs) @ crlf | _ \<Rightarrow> []) @ crlf"

definition http_fetch_send :: "hls_api \<Rightarrow> HttpFetchCtx \<Rightarrow> HttpFetchCtx" where
  "http_fetch_send A ctx =
     (if fc_request_sent ctx then ctx
      else ctx\<lparr>fc_request_sent := True, fc_sent := fc_sent ctx @ [fetch_request A (fc_url ctx) (fc_referer ctx)]\<rparr>)"

text \<open>\<open>malloc_ok\<close> answers the allocation of the body.\<close>

definition http_fetch_handler :: "hls_api \<Rightarrow> bool \<Rightarrow> fetch_event \<Rightarrow> HttpFetchCtx \<Rightarrow> HttpFetchCtx" where
  "http_fetch_handler A malloc_ok ev ctx =
     (case ev of
        FE_Connect err \<Rightarrow>
          if err \<noteq> None \<and> err \<noteq> Some 0 then ctx\<lparr>fc_done := True\<rparr>
          else if \<not> ha_url_is_ssl A (fc_url ctx) then http_fetch_send A ctx else ctx
      | FE_Tls_Hs \<Rightarrow> http_fetch_send A ctx
      | FE_Write is_connecting is_tls_hs \<Rightarrow>
          if \<not> fc_request_sent ctx \<and> \<not> is_connecting \<and> \<not> is_tls_hs then http_fetch_send A ctx else ctx
      | FE_Http_Msg status body \<Rightarrow>
          let ctx = ctx\<lparr>fc_status := status\<rparr>;
              ctx = (if status \<ge> 200 \<and> status < 300 \<and> length body > 0 \<and> length body \<le> HLS_MAX_BODY
                     then if malloc_ok then ctx\<lparr>fc_body := Some body, fc_ok := True\<rparr> else ctx\<lparr>fc_body := None\<rparr>
                     else ctx)
          in ctx\<lparr>fc_done := True\<rparr>
      | FE_Other \<Rightarrow> ctx)"

text \<open>\<open>mg_mgr_poll\<close> until the context is done or the deadline passes, after which no event comes.\<close>

fun fetch_loop :: "hls_api \<Rightarrow> bool \<Rightarrow> fetch_event list \<Rightarrow> HttpFetchCtx \<Rightarrow> HttpFetchCtx" where
  "fetch_loop A malloc_ok [] ctx = ctx"
| "fetch_loop A malloc_ok (ev # evs) ctx =
     (if fc_done ctx then ctx else fetch_loop A malloc_ok evs (http_fetch_handler A malloc_ok ev ctx))"

definition http_fetch_body :: "hls_api \<Rightarrow> hls_net \<Rightarrow> hls_state \<Rightarrow> string \<Rightarrow> cstring \<Rightarrow> bytes option \<times> hls_state" where
  "http_fetch_body A net s url referer =
     (let k = hl_fetches s; s = s\<lparr>hl_fetches := Suc k\<rparr> in
      case hn_events net k url of
        None \<Rightarrow> (None, s)
      | Some evs \<Rightarrow>
          let ctx = fetch_loop A (hn_malloc net k) evs
                \<lparr>fc_done = False, fc_ok = False, fc_status = 0, fc_request_sent = False, fc_body = None,
                 fc_url = url, fc_referer = referer, fc_sent = []\<rparr>;
              s = s\<lparr>hl_sent := hl_sent s @ fc_sent ctx\<rparr>
          in if \<not> fc_ok ctx then (None, s) else (fc_body ctx, s))"

subsection \<open>Lines and attributes\<close>

definition trim_line :: "string \<Rightarrow> string" where
  "trim_line line = dropWhile isspace (rev (dropWhile (\<lambda>c. code_of c = 13 \<or> code_of c = 10 \<or> isspace c) (rev line)))"

fun split_newlines :: "string \<Rightarrow> string list" where
  "split_newlines [] = [[]]"
| "split_newlines (c # cs) =
     (if code_of c = 10 then [] # split_newlines cs
      else (case split_newlines cs of [] \<Rightarrow> [[c]] | l # ls \<Rightarrow> (c # l) # ls))"

text \<open>The tokens of \<open>strtok\<close> with a newline as separator: the parts that are not empty.\<close>

definition strtok_lines :: "string \<Rightarrow> string list" where
  "strtok_lines s = filter (\<lambda>l. l \<noteq> []) (split_newlines s)"

definition scanf_2x :: "string \<Rightarrow> u8 option" where
  "scanf_2x s =
     (let w = take 2 (skip_space s);
          neg = (case w of [] \<Rightarrow> False | c # _ \<Rightarrow> c = CHR ''-'');
          w = (case w of [] \<Rightarrow> [] | c # r \<Rightarrow> if c = CHR ''-'' \<or> c = CHR ''+'' then r else w);
          w = (if length w = 2 \<and> w ! 0 = CHR ''0'' \<and> tolower (w ! 1) = CHR ''x'' then [] else w);
          ds = takeWhile (digit_in_base 16) w;
          v = of_nat (digits_value 16 ds)
      in if ds = [] then None else Some (if neg then - v else v))"

fun hex_iv_loop :: "string \<Rightarrow> nat \<Rightarrow> u8 list \<Rightarrow> u8 list option" where
  "hex_iv_loop v 0 acc = Some acc"
| "hex_iv_loop v (Suc n) acc =
     (case scanf_2x v of None \<Rightarrow> None | Some b \<Rightarrow> hex_iv_loop (drop 2 v) n (acc @ [b]))"

definition parse_hex_iv :: "cstring \<Rightarrow> u8 list option" where
  "parse_hex_iv value =
     (case value of None \<Rightarrow> None
      | Some v \<Rightarrow>
          let v = (if starts_with ''0x'' v \<or> starts_with ''0X'' v then drop 2 v else v)
          in if length v \<noteq> 32 then None else hex_iv_loop v 16 [])"

text \<open>The value behind the first \<open>key=\<close>; the key is never empty.\<close>

definition attr_text :: "string \<Rightarrow> cstring" where
  "attr_text cursor =
     (case cursor of
        c # r \<Rightarrow>
          if c = CHR 0x22
          then (case strchr r (CHR 0x22) of None \<Rightarrow> None | Some e \<Rightarrow> Some (upto_suffix r e))
          else Some (takeWhile (\<lambda>c. c \<noteq> CHR '','' \<and> \<not> isspace c) cursor)
      | [] \<Rightarrow> Some [])"

function hls_attr_value :: "string \<Rightarrow> string \<Rightarrow> cstring" where
  "hls_attr_value line key =
     (case strstr line key of None \<Rightarrow> None
      | Some cursor \<Rightarrow>
          let r = drop (length key) cursor in
          if key = [] then None
          else (case r of
                  c # v \<Rightarrow> if c \<noteq> CHR ''='' then hls_attr_value r key else attr_text v
                | [] \<Rightarrow> hls_attr_value r key))"
  by pat_completeness auto

lemma strstr_rest_shorter:
  assumes "strstr line key = Some cursor" "key \<noteq> []"
  shows "length (drop (length key) cursor) < length line"
proof -
  obtain a b where "line = a @ cursor" "cursor = key @ b" using strstr_Some [OF assms(1)] by blast
  then show ?thesis using assms(2) by (cases key) simp_all
qed

termination hls_attr_value
proof (relation "measure (\<lambda>(line, key). length line)")
  fix line key cursor x c v
  assume "strstr line key = Some cursor" "x = drop (length key) cursor" "key \<noteq> []"
  then show "((x, key), line, key) \<in> measure (\<lambda>(line, key). length line)"
    using strstr_rest_shorter [of line key cursor] by simp
next
  fix line key cursor x
  assume "strstr line key = Some cursor" "x = drop (length key) cursor" "key \<noteq> []"
  then show "((x, key), line, key) \<in> measure (\<lambda>(line, key). length line)"
    using strstr_rest_shorter [of line key cursor] by simp
qed simp

declare hls_attr_value.simps [simp del]

subsection \<open>Playlists\<close>

record HlsSegment =
  hs_uri :: string
  hs_key_uri :: cstring
  hs_iv :: "u8 list"
  hs_iv_set :: bool
  hs_encrypted :: bool

record HlsPlaylist =
  hp_items :: "HlsSegment list"
  hp_capacity :: nat

text \<open>\<open>realloc_ok\<close> answers the growth to the given capacity.\<close>

definition hls_playlist_push :: "(nat \<Rightarrow> bool) \<Rightarrow> HlsPlaylist \<Rightarrow> HlsSegment \<Rightarrow> int \<times> HlsPlaylist" where
  "hls_playlist_push realloc_ok playlist segment =
     (let nxt = (if hp_capacity playlist = 0 then 32 else hp_capacity playlist * 2)
      in if length (hp_items playlist) \<ge> hp_capacity playlist
         then if \<not> realloc_ok nxt then (-1, playlist)
              else (0, playlist\<lparr>hp_items := hp_items playlist @ [segment], hp_capacity := nxt\<rparr>)
         else (0, playlist\<lparr>hp_items := hp_items playlist @ [segment]\<rparr>))"

definition playlist_is_master :: "cstring \<Rightarrow> bool" where
  "playlist_is_master text = (case text of None \<Rightarrow> False | Some t \<Rightarrow> strstr t ''#EXT-X-STREAM-INF'' \<noteq> None)"

record variant_scan =
  vs_best_uri :: cstring
  vs_best_bw :: u64
  vs_pending_bw :: u64
  vs_have_inf :: bool

definition variant_line :: "hls_api \<Rightarrow> string \<Rightarrow> string \<Rightarrow> variant_scan \<Rightarrow> variant_scan" where
  "variant_line A base_url line s =
     (let line = trim_line line in
      if line = [] then s
      else if starts_with ''#EXT-X-STREAM-INF:'' line
      then s\<lparr>vs_pending_bw := (case hls_attr_value line ''BANDWIDTH'' of Some t \<Rightarrow> strtoull_value 10 t | None \<Rightarrow> 0),
             vs_have_inf := True\<rparr>
      else if starts_with ''#'' line \<or> \<not> vs_have_inf s then s
      else let s = s\<lparr>vs_have_inf := False\<rparr> in
           (case http_resolve_url (ha_url_host A) (Some base_url) line of
              None \<Rightarrow> s
            | Some resolved \<Rightarrow>
                if vs_best_uri s = None \<or> vs_pending_bw s \<ge> vs_best_bw s
                then s\<lparr>vs_best_uri := Some resolved, vs_best_bw := vs_pending_bw s\<rparr> else s))"

definition pick_variant_url :: "hls_api \<Rightarrow> string \<Rightarrow> string \<Rightarrow> cstring" where
  "pick_variant_url A playlist base_url =
     vs_best_uri (fold (variant_line A base_url) (strtok_lines playlist)
       \<lparr>vs_best_uri = None, vs_best_bw = 0, vs_pending_bw = 0, vs_have_inf = False\<rparr>)"

record media_scan =
  ms_method :: cstring
  ms_key_uri :: cstring
  ms_iv :: "u8 list"
  ms_iv_set :: bool
  ms_sequence :: u64
  ms_have_sequence :: bool
  ms_index :: u64

definition sequence_iv :: "u64 \<Rightarrow> u8 list" where
  "sequence_iv seq = replicate 12 0 @ [ucast ((drop_bit 24 seq) AND 0xFF), ucast ((drop_bit 16 seq) AND 0xFF),
     ucast ((drop_bit 8 seq) AND 0xFF), ucast (seq AND 0xFF)]"

definition media_segment :: "media_scan \<Rightarrow> string \<Rightarrow> HlsSegment" where
  "media_segment s segment_url =
     (let encrypted = (ms_method s \<noteq> None \<and> str_ieq (ms_method s) (Some ''AES-128''));
          segment = \<lparr>hs_uri = segment_url, hs_key_uri = ms_key_uri s, hs_iv = replicate 16 0, hs_iv_set = ms_iv_set s,
                     hs_encrypted = encrypted\<rparr>
      in if ms_iv_set s then segment\<lparr>hs_iv := ms_iv s\<rparr>
         else if encrypted
         then let seq = (if ms_have_sequence s then ms_sequence s + ms_index s else ms_index s)
              in segment\<lparr>hs_iv := sequence_iv seq, hs_iv_set := True\<rparr>
         else segment)"

definition key_line :: "hls_api \<Rightarrow> string \<Rightarrow> string \<Rightarrow> media_scan \<Rightarrow> media_scan" where
  "key_line A base_url line s =
     (let key_uri = (case hls_attr_value line ''URI'' of None \<Rightarrow> None
                     | Some u \<Rightarrow> http_resolve_url (ha_url_host A) (Some base_url) u);
          iv = parse_hex_iv (hls_attr_value line ''IV'')
      in s\<lparr>ms_method := hls_attr_value line ''METHOD'', ms_key_uri := key_uri,
           ms_iv := (case iv of Some v \<Rightarrow> v | None \<Rightarrow> ms_iv s), ms_iv_set := (iv \<noteq> None)\<rparr>)"

text \<open>The loop over the lines; it stops with -1 at a segment whose URL or whose entry fails.\<close>

fun media_loop ::
  "hls_api \<Rightarrow> (nat \<Rightarrow> bool) \<Rightarrow> string \<Rightarrow> string list \<Rightarrow> media_scan \<Rightarrow> HlsPlaylist \<Rightarrow> int \<times> HlsPlaylist" where
  "media_loop A realloc_ok base_url [] s out = (0, out)"
| "media_loop A realloc_ok base_url (l # ls) s out =
     (let line = trim_line l in
      if line = [] then media_loop A realloc_ok base_url ls s out
      else if starts_with ''#EXT-X-MEDIA-SEQUENCE:'' line
      then media_loop A realloc_ok base_url ls (s\<lparr>ms_sequence := strtoull_value 10 (drop 22 line), ms_have_sequence := True\<rparr>) out
      else if starts_with ''#EXT-X-KEY:'' line then media_loop A realloc_ok base_url ls (key_line A base_url line s) out
      else if starts_with ''#'' line then media_loop A realloc_ok base_url ls s out
      else (case http_resolve_url (ha_url_host A) (Some base_url) line of
              None \<Rightarrow> (-1, out)
            | Some segment_url \<Rightarrow>
                let (rc, out) = hls_playlist_push realloc_ok out (media_segment s segment_url)
                in if rc \<noteq> 0 then (-1, out)
                   else media_loop A realloc_ok base_url ls (s\<lparr>ms_index := ms_index s + 1\<rparr>) out))"

definition new_scan :: media_scan where
  "new_scan = \<lparr>ms_method = None, ms_key_uri = None, ms_iv = replicate 16 0, ms_iv_set = False, ms_sequence = 0,
     ms_have_sequence = False, ms_index = 0\<rparr>"

definition hls_parse_media_playlist ::
  "hls_api \<Rightarrow> (nat \<Rightarrow> bool) \<Rightarrow> string \<Rightarrow> string \<Rightarrow> HlsPlaylist \<Rightarrow> int \<times> HlsPlaylist" where
  "hls_parse_media_playlist A realloc_ok playlist base_url out =
     media_loop A realloc_ok base_url (strtok_lines playlist) new_scan out"

subsection \<open>Segments\<close>

definition aes128_cbc_decrypt :: "hls_api \<Rightarrow> bytes \<Rightarrow> bytes \<Rightarrow> bytes \<Rightarrow> bytes option" where
  "aes128_cbc_decrypt A input key iv =
     (if length input = 0 \<or> length input mod 16 \<noteq> 0 then None
      else (case ha_aes_cbc A key iv input of None \<Rightarrow> None
            | Some out \<Rightarrow>
                let pad = code_of (last out)
                in Some (if pad > 0 \<and> pad \<le> 16 \<and> pad \<le> length input then take (length input - pad) out else out)))"

definition hls_load_key :: "hls_api \<Rightarrow> hls_net \<Rightarrow> hls_state \<Rightarrow> string \<Rightarrow> cstring \<Rightarrow> bytes option \<times> hls_state" where
  "hls_load_key A net s key_uri referer =
     (let (body, s) = http_fetch_body A net s key_uri referer
      in case body of None \<Rightarrow> (None, s) | Some b \<Rightarrow> if length b < 16 then (None, s) else (Some (take 16 b), s))"

definition bytes_of :: "u8 list \<Rightarrow> bytes" where
  "bytes_of ws = map (\<lambda>w. char_of (unat w)) ws"

definition append_file :: "hls_net \<Rightarrow> hls_state \<Rightarrow> bytes \<Rightarrow> int \<times> hls_state" where
  "append_file net s plain =
     (let written = min (length plain) (hn_fwrite net (hl_writes s));
          s = s\<lparr>hl_writes := Suc (hl_writes s), hl_file := hl_file s @ take written plain\<rparr>
      in (if written = length plain then 0 else -1, s))"

definition hls_write_segment :: "hls_api \<Rightarrow> hls_net \<Rightarrow> hls_state \<Rightarrow> HlsSegment \<Rightarrow> cstring \<Rightarrow> int \<times> hls_state" where
  "hls_write_segment A net s segment referer =
     (let (body, s) = http_fetch_body A net s (hs_uri segment) referer in
      case body of None \<Rightarrow> (-1, s)
      | Some b \<Rightarrow>
          if length b = 0 then (-1, s)
          else if hs_encrypted segment
          then (case hs_key_uri segment of None \<Rightarrow> (-1, s)
                | Some key_uri \<Rightarrow>
                    let (key, s) = hls_load_key A net s key_uri referer in
                    case key of None \<Rightarrow> (-1, s)
                    | Some k \<Rightarrow>
                        (case aes128_cbc_decrypt A b k (bytes_of (hs_iv segment)) of None \<Rightarrow> (-1, s)
                         | Some plain \<Rightarrow> append_file net s plain))
          else append_file net s b)"

fun write_segments :: "hls_api \<Rightarrow> hls_net \<Rightarrow> cstring \<Rightarrow> HlsSegment list \<Rightarrow> hls_state \<Rightarrow> int \<times> hls_state" where
  "write_segments A net referer [] s = (0, s)"
| "write_segments A net referer (seg # segs) s =
     (let (rc, s) = hls_write_segment A net s seg referer
      in if rc \<noteq> 0 then (-1, s) else write_segments A net referer segs s)"

text \<open>\<open>fopen\<close> with mode \<open>wb\<close> empties the file; the result of \<open>fclose\<close> is not looked at.  A body is a C string
  where it is parsed.\<close>

definition c_text :: "bytes \<Rightarrow> string" where "c_text b = takeWhile (\<lambda>c. code_of c \<noteq> 0) b"

definition stream_hls_download ::
  "hls_api \<Rightarrow> hls_net \<Rightarrow> (nat \<Rightarrow> bool) \<Rightarrow> hls_state \<Rightarrow> cstring \<Rightarrow> cstring \<Rightarrow> cstring \<Rightarrow> int \<times> hls_state" where
  "stream_hls_download A net realloc_ok s playlist_url dest_path referer =
     (case (playlist_url, dest_path) of
        (Some url, Some _) \<Rightarrow>
          let (playlist, s) = http_fetch_body A net s url referer in
          (case playlist of None \<Rightarrow> (-1, s)
           | Some body \<Rightarrow>
               if length body = 0 then (-1, s)
               else let (media, s) =
                          (if playlist_is_master (Some (c_text body))
                           then (case pick_variant_url A (c_text body) url of None \<Rightarrow> (None, s)
                                 | Some media_url \<Rightarrow>
                                     let (b, s) = http_fetch_body A net s media_url referer
                                     in (case b of None \<Rightarrow> (None, s) | Some b \<Rightarrow> (Some (media_url, b), s)))
                           else (Some (url, body), s))
                    in (case media of None \<Rightarrow> (-1, s)
                        | Some (media_base, body) \<Rightarrow>
                            let (rc, segments) = hls_parse_media_playlist A realloc_ok (c_text body) media_base
                                   \<lparr>hp_items = [], hp_capacity = 0\<rparr>
                            in if rc \<noteq> 0 \<or> hp_items segments = [] then (-1, s)
                               else if \<not> hn_fopen net then (-1, s)
                               else write_segments A net referer (hp_items segments) (s\<lparr>hl_file := []\<rparr>)))
      | _ \<Rightarrow> (-1, s))"

fun write_plain_segments :: "hls_api \<Rightarrow> hls_net \<Rightarrow> cstring \<Rightarrow> cstring list \<Rightarrow> hls_state \<Rightarrow> int \<times> hls_state" where
  "write_plain_segments A net referer [] s = (0, s)"
| "write_plain_segments A net referer (u # us) s =
     (case u of None \<Rightarrow> (-1, s)
      | Some uri \<Rightarrow>
          let (rc, s) = hls_write_segment A net s
                 \<lparr>hs_uri = uri, hs_key_uri = None, hs_iv = replicate 16 0, hs_iv_set = False, hs_encrypted = False\<rparr> referer
          in if rc \<noteq> 0 then (-1, s) else write_plain_segments A net referer us s)"

definition stream_hls_download_segments ::
  "hls_api \<Rightarrow> hls_net \<Rightarrow> hls_state \<Rightarrow> cstring list \<Rightarrow> cstring \<Rightarrow> cstring \<Rightarrow> int \<times> hls_state" where
  "stream_hls_download_segments A net s segment_urls dest_path referer =
     (if segment_urls = [] \<or> dest_path = None then (-1, s)
      else if \<not> hn_fopen net then (-1, s)
      else write_plain_segments A net referer segment_urls (s\<lparr>hl_file := []\<rparr>))"

end
