(* ===== verification/Hls_Correct.thy ===== *)
theory Hls_Correct
  imports Hls
begin

text \<open>
  What an HLS download leaves: the segments of the playlist one after the other, each as it was
  served or decrypted; the playlist that is parsed from a written one; the padding.
\<close>

subsection \<open>The file is the concatenation of the segments\<close>

definition body_at :: "hls_api \<Rightarrow> hls_net \<Rightarrow> nat \<Rightarrow> string \<Rightarrow> cstring \<Rightarrow> bytes option" where
  "body_at A net k url referer = fst (http_fetch_body A net
     \<lparr>hl_fetches = k, hl_writes = 0, hl_sent = [], hl_file = []\<rparr> url referer)"

lemma http_fetch_body_at:
  "\<exists>s'. http_fetch_body A net s url referer = (body_at A net (hl_fetches s) url referer, s')
     \<and> hl_fetches s' = Suc (hl_fetches s) \<and> hl_writes s' = hl_writes s \<and> hl_file s' = hl_file s"
  by (auto simp: http_fetch_body_def body_at_def Let_def split: option.split)

text \<open>What a segment contributes: its body as served, or the body decrypted with the key served.\<close>

definition serves :: "hls_api \<Rightarrow> hls_net \<Rightarrow> cstring \<Rightarrow> HlsSegment \<Rightarrow> bytes \<Rightarrow> bool" where
  "serves A net referer seg c \<longleftrightarrow>
     (\<exists>k b. body_at A net k (hs_uri seg) referer = Some b \<and> b \<noteq> [] \<and>
        (if hs_encrypted seg
         then \<exists>u kb. hs_key_uri seg = Some u \<and> body_at A net (Suc k) u referer = Some kb \<and> 16 \<le> length kb
                \<and> aes128_cbc_decrypt A b (take 16 kb) (bytes_of (hs_iv seg)) = Some c
         else c = b))"

lemma append_file_zero:
  "append_file net s plain = (0, s') \<Longrightarrow> hl_file s' = hl_file s @ plain"
  by (auto simp: append_file_def Let_def min_def split: if_splits)

lemma write_segment_serves:
  assumes "hls_write_segment A net s seg referer = (0, s')"
  shows "\<exists>c. serves A net referer seg c \<and> hl_file s' = hl_file s @ c"
proof -
  obtain s1 where s1: "http_fetch_body A net s (hs_uri seg) referer = (body_at A net (hl_fetches s) (hs_uri seg) referer, s1)"
    "hl_fetches s1 = Suc (hl_fetches s)" "hl_file s1 = hl_file s" using http_fetch_body_at by blast
  obtain b where b: "body_at A net (hl_fetches s) (hs_uri seg) referer = Some b" "b \<noteq> []"
    using assms by (auto simp: hls_write_segment_def s1(1) split: option.splits if_splits)
  show ?thesis
  proof (cases "hs_encrypted seg")
    case False
    then have "append_file net s1 b = (0, s')" using assms b by (simp add: hls_write_segment_def s1(1))
    then have "hl_file s' = hl_file s @ b" using append_file_zero s1(3) by metis
    then show ?thesis using b False unfolding serves_def by auto
  next
    case True
    then obtain u where u: "hs_key_uri seg = Some u"
      using assms b by (auto simp: hls_write_segment_def s1(1) split: option.splits)
    obtain s2 where s2: "http_fetch_body A net s1 u referer = (body_at A net (hl_fetches s1) u referer, s2)"
      "hl_file s2 = hl_file s1" using http_fetch_body_at by blast
    obtain kb where kb: "body_at A net (hl_fetches s1) u referer = Some kb" "16 \<le> length kb"
      using assms b True u by (auto simp: hls_write_segment_def s1(1) hls_load_key_def s2(1) split: option.splits if_splits)
    then have key: "hls_load_key A net s1 u referer = (Some (take 16 kb), s2)" by (simp add: hls_load_key_def s2(1))
    obtain c where c: "aes128_cbc_decrypt A b (take 16 kb) (bytes_of (hs_iv seg)) = Some c" "append_file net s2 c = (0, s')"
      using assms b True u by (auto simp: hls_write_segment_def s1(1) key split: option.splits)
    have "hl_file s' = hl_file s @ c" using append_file_zero [OF c(2)] s2(2) s1(3) by simp
    moreover have "serves A net referer seg c" unfolding serves_def using b True u kb c(1) s1(2) by auto
    ultimately show ?thesis by blast
  qed
qed

lemma write_segments_serve:
  "write_segments A net referer segs s = (0, s') \<Longrightarrow>
   \<exists>cs. list_all2 (serves A net referer) segs cs \<and> hl_file s' = hl_file s @ concat cs"
proof (induction segs arbitrary: s)
  case (Cons seg segs)
  obtain rc s1 where w: "hls_write_segment A net s seg referer = (rc, s1)" by fastforce
  then have rc: "rc = 0" "write_segments A net referer segs s1 = (0, s')" using Cons.prems by (auto split: if_splits)
  obtain c where c: "serves A net referer seg c" "hl_file s1 = hl_file s @ c"
    using write_segment_serves w rc(1) by blast
  obtain cs where cs: "list_all2 (serves A net referer) segs cs" "hl_file s' = hl_file s1 @ concat cs"
    using Cons.IH [OF rc(2)] by blast
  show ?case using c cs by (intro exI [of _ "c # cs"]) simp
qed simp

text \<open>The playlist a download follows: the one of the URL, or the variant chosen from a master playlist.\<close>

definition follows :: "hls_api \<Rightarrow> hls_net \<Rightarrow> nat \<Rightarrow> cstring \<Rightarrow> string \<Rightarrow> string \<Rightarrow> bytes \<Rightarrow> bool" where
  "follows A net k referer url base media \<longleftrightarrow>
     (\<exists>b. body_at A net k url referer = Some b \<and>
        (if playlist_is_master (Some (c_text b))
         then pick_variant_url A (c_text b) url = Some base \<and> body_at A net (Suc k) base referer = Some media
         else base = url \<and> media = b))"

lemma hls_download_serves:
  assumes "stream_hls_download A net realloc_ok s (Some url) (Some dest) referer = (0, s')"
  shows "\<exists>base media out cs. follows A net (hl_fetches s) referer url base media
     \<and> hls_parse_media_playlist A realloc_ok (c_text media) base \<lparr>hp_items = [], hp_capacity = 0\<rparr> = (0, out)
     \<and> hp_items out \<noteq> [] \<and> list_all2 (serves A net referer) (hp_items out) cs \<and> hl_file s' = concat cs"
proof -
  obtain s1 where s1: "http_fetch_body A net s url referer = (body_at A net (hl_fetches s) url referer, s1)"
    "hl_fetches s1 = Suc (hl_fetches s)" using http_fetch_body_at by blast
  obtain b where b: "body_at A net (hl_fetches s) url referer = Some b" "b \<noteq> []"
    using assms by (auto simp: stream_hls_download_def s1(1) split: option.splits if_splits)
  define choice where "choice = (if playlist_is_master (Some (c_text b))
                           then (case pick_variant_url A (c_text b) url of None \<Rightarrow> (None, s1)
                                 | Some media_url \<Rightarrow>
                                     let (m, s) = http_fetch_body A net s1 media_url referer
                                     in (case m of None \<Rightarrow> (None, s) | Some m \<Rightarrow> (Some (media_url, m), s)))
                           else (Some (url, b), s1))"
  obtain ch s2 where ch: "choice = (ch, s2)" by fastforce
  have r: "(case ch of None \<Rightarrow> (-1, s2)
       | Some (media_base, body) \<Rightarrow>
           let (rc, segments) = hls_parse_media_playlist A realloc_ok (c_text body) media_base \<lparr>hp_items = [], hp_capacity = 0\<rparr>
           in if rc \<noteq> 0 \<or> hp_items segments = [] then (-1, s2)
              else if \<not> hn_fopen net then (-1, s2)
              else write_segments A net referer (hp_items segments) (s2\<lparr>hl_file := []\<rparr>)) = (0, s')"
    using assms b ch unfolding choice_def by (simp add: stream_hls_download_def s1(1))
  then obtain base media where bm: "ch = Some (base, media)" by (cases ch) auto
  obtain rc out where out: "hls_parse_media_playlist A realloc_ok (c_text media) base \<lparr>hp_items = [], hp_capacity = 0\<rparr> = (rc, out)"
    by fastforce
  then have "rc = 0" "hp_items out \<noteq> []" and w: "write_segments A net referer (hp_items out) (s2\<lparr>hl_file := []\<rparr>) = (0, s')"
    using r bm by (auto split: if_splits)
  moreover have "follows A net (hl_fetches s) referer url base media"
  proof (cases "playlist_is_master (Some (c_text b))")
    case False
    then show ?thesis using b ch bm by (simp add: follows_def choice_def)
  next
    case True
    then obtain v where v: "pick_variant_url A (c_text b) url = Some v"
      using ch bm by (cases "pick_variant_url A (c_text b) url") (auto simp: choice_def)
    obtain s3 where "http_fetch_body A net s1 v referer = (body_at A net (hl_fetches s1) v referer, s3)"
      using http_fetch_body_at by blast
    then show ?thesis using True v ch bm b s1(2)
      by (auto simp: choice_def follows_def split: option.splits)
  qed
  moreover obtain cs where "list_all2 (serves A net referer) (hp_items out) cs" "hl_file s' = concat cs"
    using write_segments_serve [OF w] by auto
  ultimately show ?thesis using out by blast
qed

subsection \<open>Padding\<close>

definition pkcs7_pad :: "bytes \<Rightarrow> bytes" where
  "pkcs7_pad x = (let p = 16 - length x mod 16 in x @ replicate p (char_of p))"

lemma pkcs7_length: "length (pkcs7_pad x) mod 16 = 0" "0 < length (pkcs7_pad x)"
proof -
  have "length (pkcs7_pad x) = length x + (16 - length x mod 16)" by (simp add: pkcs7_pad_def Let_def)
  then show "length (pkcs7_pad x) mod 16 = 0" "0 < length (pkcs7_pad x)" by presburger+
qed

lemma decrypt_padded:
  assumes "length (enc key iv (pkcs7_pad x)) = length (pkcs7_pad x)"
    and "ha_aes_cbc A key iv (enc key iv (pkcs7_pad x)) = Some (pkcs7_pad x)"
  shows "aes128_cbc_decrypt A (enc key iv (pkcs7_pad x)) key iv = Some x"
proof -
  define p where "p = 16 - length x mod 16"
  have p: "0 < p" "p \<le> 16" by (simp_all add: p_def)
  have pad: "pkcs7_pad x = x @ replicate p (char_of p)" by (simp add: pkcs7_pad_def p_def Let_def)
  have "last (pkcs7_pad x) = char_of p" using p by (simp add: pad last_append)
  moreover have "code_of (char_of p) = p" using p by simp
  ultimately have "code_of (last (pkcs7_pad x)) = p" by simp
  then show ?thesis using assms pkcs7_length [of x] p
    by (simp add: aes128_cbc_decrypt_def pad)
qed

subsection \<open>A written playlist is read back\<close>

fun plain_line :: "string \<Rightarrow> bool" where
  "plain_line l \<longleftrightarrow> l \<noteq> [] \<and> list_all (\<lambda>c. \<not> isspace c) l"

lemma isspace_newline: "code_of c = 10 \<Longrightarrow> isspace c" by (simp add: isspace_def)

lemma split_newlines_line:
  "list_all (\<lambda>c. code_of c \<noteq> 10) l \<Longrightarrow> split_newlines (l @ CHR 0x0A # rest) = l # split_newlines rest"
proof (induction l)
  case Nil
  then show ?case by (simp add: code_of_def)
qed simp

lemma plain_no_newline: "list_all (\<lambda>c. \<not> isspace c) l \<Longrightarrow> list_all (\<lambda>c. code_of c \<noteq> 10) l"
  by (auto simp: list_all_iff isspace_newline)

lemma strtok_line: "list_all (\<lambda>c. code_of c \<noteq> 10) l \<Longrightarrow> l \<noteq> [] \<Longrightarrow> strtok_lines (l @ CHR 0x0A # rest) = l # strtok_lines rest"
  by (simp add: strtok_lines_def split_newlines_line)

lemma dropWhile_plain: "list_all (\<lambda>c. \<not> P c) l \<Longrightarrow> dropWhile P l = l"
  by (cases l) simp_all

lemma trim_plain: "list_all (\<lambda>c. \<not> isspace c) l \<Longrightarrow> trim_line l = l"
  unfolding trim_line_def
  by (subst dropWhile_plain; auto simp: list_all_iff isspace_def dropWhile_plain)+

definition line_of :: "string \<Rightarrow> string" where "line_of l = l @ [CHR 0x0A]"

definition render_playlist :: "nat \<Rightarrow> string \<Rightarrow> string list \<Rightarrow> string" where
  "render_playlist n key urls = line_of ''#EXTM3U'' @ line_of (''#EXT-X-MEDIA-SEQUENCE:'' @ show_nat n)
     @ line_of (''#EXT-X-KEY:METHOD=AES-128,URI='' @ [CHR 0x22] @ key @ [CHR 0x22])
     @ concat (map (\<lambda>u. line_of ''#EXTINF:4,'' @ line_of u) urls)"

definition plain_url :: "string \<Rightarrow> bool" where
  "plain_url u \<longleftrightarrow> http_absolute u \<and> list_all (\<lambda>c. \<not> isspace c) u"

lemma resolve_plain:
  assumes "plain_url u"
  shows "http_resolve_url host (Some base) u = Some u"
proof -
  have "trim_whitespace u = u"
    using assms by (simp add: trim_whitespace_def rtrim_def plain_url_def dropWhile_plain)
  moreover have "u \<noteq> []" using assms by (auto simp: plain_url_def http_absolute_def)
  ultimately show ?thesis using assms by (auto simp: http_resolve_url_def plain_url_def http_absolute_def)
qed

lemma plain_url_line: "plain_url u \<Longrightarrow> u \<noteq> [] \<and> \<not> starts_with ''#'' u"
  by (auto simp: plain_url_def http_absolute_def starts_with_iff)

definition nth_segment :: "nat \<Rightarrow> string \<Rightarrow> nat \<Rightarrow> string \<Rightarrow> HlsSegment" where
  "nth_segment n key i u = \<lparr>hs_uri = u, hs_key_uri = Some key, hs_iv = sequence_iv (of_nat n + of_nat i), hs_iv_set = True,
     hs_encrypted = True\<rparr>"

definition key_text :: "string \<Rightarrow> string" where
  "key_text key = ''#EXT-X-KEY:METHOD=AES-128,URI='' @ [CHR 0x22] @ key @ [CHR 0x22]"

lemma key_attributes:
  assumes "CHR 0x22 \<notin> set key" "strstr (key @ [CHR 0x22]) ''IV'' = None"
  shows "hls_attr_value (key_text key) ''METHOD'' = Some ''AES-128''"
    "hls_attr_value (key_text key) ''URI'' = Some key"
    "hls_attr_value (key_text key) ''IV'' = None"
proof -
  show "hls_attr_value (key_text key) ''METHOD'' = Some ''AES-128''"
    by (subst hls_attr_value.simps) (simp add: key_text_def attr_text_def isspace_def code_of_def)
  have "strchr (key @ [CHR 0x22]) (CHR 0x22) = Some [CHR 0x22]" using strchr_append [OF assms(1), of "[]"] by simp
  then show "hls_attr_value (key_text key) ''URI'' = Some key"
    by (subst hls_attr_value.simps) (simp add: key_text_def attr_text_def)
  show "hls_attr_value (key_text key) ''IV'' = None"
    using assms(2) by (subst hls_attr_value.simps) (simp add: key_text_def)
qed

lemma key_line_scan:
  assumes "plain_url key" "CHR 0x22 \<notin> set key" "strstr (key @ [CHR 0x22]) ''IV'' = None"
  shows "key_line A base (key_text key) s = s\<lparr>ms_method := Some ''AES-128'', ms_key_uri := Some key, ms_iv_set := False\<rparr>"
  using key_attributes [OF assms(2,3)] resolve_plain [OF assms(1)]
  by (simp add: key_line_def parse_hex_iv_def)

lemma key_text_plain:
  assumes "plain_url key"
  shows "trim_line (key_text key) = key_text key"
  by (rule trim_plain) (use assms in \<open>simp add: key_text_def plain_url_def isspace_def code_of_def\<close>)

lemma push_ok: "hls_playlist_push (\<lambda>_. True) out seg = (0, snd (hls_playlist_push (\<lambda>_. True) out seg))"
  "hp_items (snd (hls_playlist_push (\<lambda>_. True) out seg)) = hp_items out @ [seg]"
  "fst (hls_playlist_push (\<lambda>_. True) out seg) = 0"
  by (simp_all add: hls_playlist_push_def Let_def)

lemma str_ieq_same: "str_ieq (Some s) (Some s)"
  by (simp add: str_ieq_def ieq_loop_strcaseeq strcaseeq_def)

lemma extinf_line: "trim_line ''#EXTINF:4,'' = ''#EXTINF:4,''"
  by (rule trim_plain) (simp add: isspace_def code_of_def)

lemma media_loop_segments:
  assumes "list_all plain_url urls"
    and "ms_method s = Some ''AES-128''" "ms_key_uri s = Some key" "\<not> ms_iv_set s" "ms_have_sequence s"
    and "ms_sequence s = of_nat n" "ms_index s = of_nat i"
  shows "\<exists>out'. media_loop A (\<lambda>_. True) base (concat (map (\<lambda>u. [''#EXTINF:4,'', u]) urls)) s out = (0, out')
     \<and> hp_items out' = hp_items out @ map (\<lambda>k. nth_segment n key (i + k) (urls ! k)) [0..<length urls]"
  using assms
proof (induction urls arbitrary: s out i)
  case (Cons u urls)
  have u: "plain_url u" "trim_line u = u" using Cons.prems(1) trim_plain [of u] by (auto simp: plain_url_def)
  define out1 where "out1 = snd (hls_playlist_push (\<lambda>_. True) out (media_segment s u))"
  have "media_segment s u = nth_segment n key i u"
    using Cons.prems(2-) by (simp add: media_segment_def nth_segment_def str_ieq_same)
  then have items: "hp_items out1 = hp_items out @ [nth_segment n key i u]"
    unfolding out1_def using push_ok(2) by simp
  let ?s = "s\<lparr>ms_index := ms_index s + 1\<rparr>"
  have "ms_index ?s = of_nat (Suc i)" using Cons.prems(7) by simp
  then obtain out' where o: "media_loop A (\<lambda>_. True) base (concat (map (\<lambda>u. [''#EXTINF:4,'', u]) urls)) ?s out1 = (0, out')"
    "hp_items out' = hp_items out1 @ map (\<lambda>k. nth_segment n key (Suc i + k) (urls ! k)) [0..<length urls]"
    using Cons.IH [of ?s "Suc i" out1] Cons.prems by auto
  have "\<not> starts_with ''#EXT-X-MEDIA-SEQUENCE:'' u" "\<not> starts_with ''#EXT-X-KEY:'' u" "\<not> starts_with ''#'' u" "u \<noteq> []"
    using u(1) by (auto simp: plain_url_def http_absolute_def starts_with_iff)
  then have "media_loop A (\<lambda>_. True) base (concat (map (\<lambda>u. [''#EXTINF:4,'', u]) (u # urls))) s out = (0, out')"
    using o(1) u(2) push_ok(3) [of out "media_segment s u"] resolve_plain [OF u(1), of "ha_url_host A" base]
    by (simp add: extinf_line out1_def split_beta)
  moreover have "map (\<lambda>k. nth_segment n key (i + k) ((u # urls) ! k)) [0..<length (u # urls)]
      = nth_segment n key i u # map (\<lambda>k. nth_segment n key (Suc i + k) (urls ! k)) [0..<length urls]"
    by (simp add: upt_conv_Cons map_Suc_upt [symmetric] del: upt_Suc map_Suc_upt)
  ultimately show ?case using o(2) items by simp
qed simp

lemma render_lines:
  assumes "plain_url key" "list_all plain_url urls"
  shows "strtok_lines (render_playlist n key urls)
    = [''#EXTM3U'', ''#EXT-X-MEDIA-SEQUENCE:'' @ show_nat n, key_text key] @ concat (map (\<lambda>u. [''#EXTINF:4,'', u]) urls)"
proof -
  have inner: "strtok_lines (concat (map (\<lambda>u. line_of ''#EXTINF:4,'' @ line_of u) us)) = concat (map (\<lambda>u. [''#EXTINF:4,'', u]) us)"
    if "list_all plain_url us" for us
    using that
  proof (induction us)
    case Nil
    then show ?case by (simp add: strtok_lines_def)
  next
    case (Cons u us)
    then have u: "list_all (\<lambda>c. code_of c \<noteq> 10) u" "u \<noteq> []" using plain_no_newline plain_url_line by (auto simp: plain_url_def)
    have "strtok_lines (''#EXTINF:4,'' @ CHR 0x0A # u @ CHR 0x0A # concat (map (\<lambda>u. line_of ''#EXTINF:4,'' @ line_of u) us))
      = ''#EXTINF:4,'' # u # concat (map (\<lambda>u. [''#EXTINF:4,'', u]) us)"
      using u Cons strtok_line [of "''#EXTINF:4,''"] strtok_line [of u] by (simp add: code_of_def)
    then show ?case by (simp add: line_of_def)
  qed
  have digits: "list_all (\<lambda>c. code_of c \<noteq> 10) (show_nat n)"
    using show_nat_digits by (fastforce simp: list_all_iff isdigit_def)
  have k: "list_all (\<lambda>c. code_of c \<noteq> 10) (key_text key)"
    using plain_no_newline [of key] assms(1) by (simp add: key_text_def plain_url_def code_of_def)
  have "strtok_lines (''#EXTM3U'' @ CHR 0x0A # (''#EXT-X-MEDIA-SEQUENCE:'' @ show_nat n) @ CHR 0x0A # key_text key @ CHR 0x0A # r)
      = ''#EXTM3U'' # (''#EXT-X-MEDIA-SEQUENCE:'' @ show_nat n) # key_text key # strtok_lines r" for r
    using digits k strtok_line [of "''#EXTM3U''"] strtok_line [of "''#EXT-X-MEDIA-SEQUENCE:'' @ show_nat n"] strtok_line [of "key_text key"]
    by (simp add: code_of_def key_text_def)
  then show ?thesis using inner [OF assms(2)] by (simp add: render_playlist_def line_of_def key_text_def)
qed

lemma sequence_line:
  assumes "n \<le> 18446744073709551615"
  shows "trim_line (''#EXT-X-MEDIA-SEQUENCE:'' @ show_nat n) = ''#EXT-X-MEDIA-SEQUENCE:'' @ show_nat n"
    "starts_with ''#EXT-X-MEDIA-SEQUENCE:'' (''#EXT-X-MEDIA-SEQUENCE:'' @ show_nat n)"
    "strtoull_value 10 (drop 22 (''#EXT-X-MEDIA-SEQUENCE:'' @ show_nat n)) = of_nat n"
proof -
  show "trim_line (''#EXT-X-MEDIA-SEQUENCE:'' @ show_nat n) = ''#EXT-X-MEDIA-SEQUENCE:'' @ show_nat n"
    by (rule trim_plain) (use show_nat_digits isdigit_not_space in \<open>auto simp: list_all_iff isspace_def code_of_def\<close>)
  show "starts_with ''#EXT-X-MEDIA-SEQUENCE:'' (''#EXT-X-MEDIA-SEQUENCE:'' @ show_nat n)" by (rule starts_with_append)
  show "strtoull_value 10 (drop 22 (''#EXT-X-MEDIA-SEQUENCE:'' @ show_nat n)) = of_nat n"
    using assms by simp
qed

lemma playlist_parsed:
  assumes "plain_url key" "CHR 0x22 \<notin> set key" "strstr (key @ [CHR 0x22]) ''IV'' = None" "list_all plain_url urls"
    "n \<le> 18446744073709551615"
  shows "\<exists>out. hls_parse_media_playlist A (\<lambda>_. True) (render_playlist n key urls) base \<lparr>hp_items = [], hp_capacity = 0\<rparr> = (0, out)
     \<and> hp_items out = map (\<lambda>k. nth_segment n key k (urls ! k)) [0..<length urls]"
proof -
  define s where "s = new_scan\<lparr>ms_sequence := of_nat n, ms_have_sequence := True, ms_method := Some ''AES-128'',
     ms_key_uri := Some key, ms_iv_set := False\<rparr>"
  have m3u: "trim_line ''#EXTM3U'' = ''#EXTM3U''" by (rule trim_plain) (simp add: isspace_def code_of_def)
  have ks: "\<not> starts_with ''#EXT-X-MEDIA-SEQUENCE:'' (key_text key)" "starts_with ''#EXT-X-KEY:'' (key_text key)" "key_text key \<noteq> []"
    by (simp_all add: key_text_def)
  have "hls_parse_media_playlist A (\<lambda>_. True) (render_playlist n key urls) base \<lparr>hp_items = [], hp_capacity = 0\<rparr>
      = media_loop A (\<lambda>_. True) base (concat (map (\<lambda>u. [''#EXTINF:4,'', u]) urls)) s \<lparr>hp_items = [], hp_capacity = 0\<rparr>"
    unfolding hls_parse_media_playlist_def render_lines [OF assms(1,4)]
    using sequence_line [OF assms(5)] key_text_plain [OF assms(1)] key_line_scan [OF assms(1-3)] m3u ks
    by (simp add: s_def new_scan_def)
  moreover have "ms_method s = Some ''AES-128''" "ms_key_uri s = Some key" "\<not> ms_iv_set s" "ms_have_sequence s"
    "ms_sequence s = of_nat n" "ms_index s = of_nat 0" by (simp_all add: s_def new_scan_def)
  ultimately show ?thesis
    using media_loop_segments [OF assms(4), of s key n 0 A base "\<lparr>hp_items = [], hp_capacity = 0\<rparr>"] by simp
qed

subsection \<open>A published stream is downloaded as it was\<close>

text \<open>The site answers every fetch of its URLs, the file takes every write of up to \<open>N\<close> bytes, and the
  segments were padded and encrypted with the numbers of the playlist as initialization vectors.\<close>

definition publishes :: "hls_api \<Rightarrow> hls_net \<Rightarrow> cstring \<Rightarrow> (string \<Rightarrow> bytes option) \<Rightarrow> bool" where
  "publishes A net referer site \<longleftrightarrow> (\<forall>k u b. site u = Some b \<longrightarrow> body_at A net k u referer = Some b)"

definition takes_writes :: "hls_net \<Rightarrow> nat \<Rightarrow> bool" where
  "takes_writes net N \<longleftrightarrow> hn_fopen net \<and> (\<forall>k. N \<le> hn_fwrite net k)"

definition encrypted_as :: "hls_api \<Rightarrow> bytes \<Rightarrow> bytes \<Rightarrow> bytes \<Rightarrow> bytes \<Rightarrow> bool" where
  "encrypted_as A kb iv x e \<longleftrightarrow> length e = length (pkcs7_pad x) \<and> ha_aes_cbc A kb iv e = Some (pkcs7_pad x)"

definition segment_iv :: "nat \<Rightarrow> nat \<Rightarrow> bytes" where
  "segment_iv n i = bytes_of (sequence_iv (of_nat n + of_nat i))"

fun published :: "hls_api \<Rightarrow> (string \<Rightarrow> bytes option) \<Rightarrow> bytes \<Rightarrow> nat \<Rightarrow> nat \<Rightarrow> nat \<Rightarrow> string list \<Rightarrow> bytes list \<Rightarrow> bool" where
  "published A site kb N n i [] [] = True"
| "published A site kb N n i (u # us) (x # xs) =
     ((case site u of None \<Rightarrow> False | Some e \<Rightarrow> encrypted_as A kb (segment_iv n i) x e) \<and> length x \<le> N
      \<and> published A site kb N n (Suc i) us xs)"
| "published A site kb N n i _ _ = False"

lemma publishes_fetch:
  assumes "publishes A net referer site" "site u = Some b"
  shows "\<exists>s'. http_fetch_body A net s u referer = (Some b, s') \<and> hl_file s' = hl_file s"
  using assms http_fetch_body_at [of A net s u referer] by (auto simp: publishes_def)

lemma encrypted_decrypt:
  assumes "encrypted_as A kb iv x e"
  shows "aes128_cbc_decrypt A e kb iv = Some x" "e \<noteq> []"
  using decrypt_padded [of "\<lambda>_ _ _. e" kb iv x A] assms pkcs7_length(2) [of x] by (auto simp: encrypted_as_def)

lemma append_file_all:
  assumes "takes_writes net N" "length x \<le> N"
  shows "\<exists>s'. append_file net s x = (0, s') \<and> hl_file s' = hl_file s @ x"
proof -
  have "min (length x) (hn_fwrite net k) = length x" for k
    using assms by (metis min.absorb1 order_trans takes_writes_def)
  then show ?thesis by (simp add: append_file_def Let_def)
qed

lemma write_published_segment:
  assumes "publishes A net referer site" "site key = Some kb" "length kb = 16" "takes_writes net N"
    and e: "site u = Some e" "encrypted_as A kb (segment_iv n i) x e" and x: "length x \<le> N"
  shows "\<exists>s'. hls_write_segment A net s (nth_segment n key i u) referer = (0, s') \<and> hl_file s' = hl_file s @ x"
proof -
  obtain s1 where s1: "http_fetch_body A net s u referer = (Some e, s1)" "hl_file s1 = hl_file s"
    using publishes_fetch [OF assms(1) e(1)] by blast
  obtain s2 where s2: "http_fetch_body A net s1 key referer = (Some kb, s2)" "hl_file s2 = hl_file s1"
    using publishes_fetch [OF assms(1,2)] by blast
  obtain s3 where s3: "append_file net s2 x = (0, s3)" "hl_file s3 = hl_file s2 @ x"
    using append_file_all [OF assms(4) x] by blast
  have "hls_load_key A net s1 key referer = (Some kb, s2)" using assms(3) by (simp add: hls_load_key_def s2(1))
  then have "hls_write_segment A net s (nth_segment n key i u) referer = (0, s3)"
    using encrypted_decrypt [OF e(2)] s3(1) by (simp add: hls_write_segment_def s1(1) nth_segment_def segment_iv_def)
  then show ?thesis using s1(2) s2(2) s3(2) by simp
qed

lemma write_published:
  assumes "publishes A net referer site" "site key = Some kb" "length kb = 16" "takes_writes net N"
  shows "published A site kb N n i us xs \<Longrightarrow>
    \<exists>s'. write_segments A net referer (map (\<lambda>k. nth_segment n key (i + k) (us ! k)) [0..<length us]) s = (0, s')
       \<and> hl_file s' = hl_file s @ concat xs"
proof (induction us arbitrary: i xs s)
  case Nil
  then show ?case by (cases xs) simp_all
next
  case (Cons u us)
  obtain x xs' where xs: "xs = x # xs'" using Cons.prems by (cases xs) simp_all
  obtain e where e: "site u = Some e" "encrypted_as A kb (segment_iv n i) x e" "length x \<le> N"
    and rest: "published A site kb N n (Suc i) us xs'" using Cons.prems xs by (auto split: option.splits)
  obtain s1 where s1: "hls_write_segment A net s (nth_segment n key i u) referer = (0, s1)" "hl_file s1 = hl_file s @ x"
    using write_published_segment [OF assms e] by blast
  obtain s2 where "write_segments A net referer (map (\<lambda>k. nth_segment n key (Suc i + k) (us ! k)) [0..<length us]) s1 = (0, s2)"
    "hl_file s2 = hl_file s1 @ concat xs'" using Cons.IH [OF rest] by blast
  moreover have "map (\<lambda>k. nth_segment n key (i + k) ((u # us) ! k)) [0..<length (u # us)]
      = nth_segment n key i u # map (\<lambda>k. nth_segment n key (Suc i + k) (us ! k)) [0..<length us]"
    by (simp add: upt_conv_Cons map_Suc_upt [symmetric] del: upt_Suc map_Suc_upt)
  ultimately show ?case using s1 xs by simp
qed

lemma published_lengths: "published A site kb N n i us xs \<Longrightarrow> length us = length xs"
  by (induction A site kb N n i us xs rule: published.induct) simp_all

text \<open>Downloading a playlist follows it: if it succeeds, the playlist was the one of the URL, or the
  variant chosen from the master playlist found there, it had segments, and the file holds for each of them, in
  order, the bytes served for it, or these bytes decrypted with the key served for the segment. Whatever was in
  the file before is gone.\<close>

theorem hls_download_concatenates:
  assumes "stream_hls_download A net realloc_ok s (Some url) (Some dest) referer = (0, s')"
  shows "\<exists>base media out cs. follows A net (hl_fetches s) referer url base media
     \<and> hls_parse_media_playlist A realloc_ok (c_text media) base \<lparr>hp_items = [], hp_capacity = 0\<rparr> = (0, out)
     \<and> hp_items out \<noteq> [] \<and> list_all2 (serves A net referer) (hp_items out) cs \<and> hl_file s' = concat cs"
  using assms by (rule hls_download_serves)


subsection \<open>A site with two segments\<close>

definition demo_hls_api :: hls_api where
  "demo_hls_api = \<lparr>ha_url_host = (\<lambda>_. ''h''), ha_url_uri = (\<lambda>_. ''/''), ha_url_is_ssl = (\<lambda>_. False),
     ha_aes_cbc = (\<lambda>key iv x. Some x)\<rparr>"

definition demo_playlist :: string where
  "demo_playlist = render_playlist 7 ''http://h/k'' [''http://h/a'', ''http://h/b'']"

definition demo_site :: "string \<Rightarrow> bytes option" where
  "demo_site u = (if u = ''http://h/p'' then Some demo_playlist
     else if u = ''http://h/k'' then Some ''0123456789abcdef''
     else if u = ''http://h/a'' then Some (pkcs7_pad ''ab'') else if u = ''http://h/b'' then Some (pkcs7_pad ''c'') else None)"

definition demo_hls_net :: hls_net where
  "demo_hls_net = \<lparr>hn_events = (\<lambda>k u. case demo_site u of None \<Rightarrow> None | Some b \<Rightarrow> Some [FE_Connect None, FE_Http_Msg 200 b]),
     hn_malloc = (\<lambda>_. True), hn_fwrite = (\<lambda>_. 100), hn_fopen = True\<rparr>"

definition demo_hls_state :: hls_state where
  "demo_hls_state = \<lparr>hl_fetches = 0, hl_writes = 0, hl_sent = [], hl_file = ''old''\<rparr>"

lemma show_seven: "show_nat 7 = ''7''" by code_simp

lemma demo_playlist_text: "demo_playlist = ''#EXTM3U'' @ [CHR 0x0A] @ ''#EXT-X-MEDIA-SEQUENCE:7'' @ [CHR 0x0A]
    @ ''#EXT-X-KEY:METHOD=AES-128,URI='' @ [CHR 0x22] @ ''http://h/k'' @ [CHR 0x22] @ [CHR 0x0A]
    @ ''#EXTINF:4,'' @ [CHR 0x0A] @ ''http://h/a'' @ [CHR 0x0A] @ ''#EXTINF:4,'' @ [CHR 0x0A] @ ''http://h/b'' @ [CHR 0x0A]"
  by (simp add: demo_playlist_def render_playlist_def line_of_def show_seven)

lemma demo_served:
  assumes "demo_site u = Some b"
  shows "0 < length b \<and> length b \<le> HLS_MAX_BODY"
proof -
  have "length demo_playlist = 119" by (simp add: demo_playlist_text)
  then show ?thesis using assms
    by (auto simp: demo_site_def HLS_MAX_BODY_def pkcs7_pad_def Let_def split: if_splits)
qed

lemma demo_publishes: "publishes demo_hls_api demo_hls_net referer demo_site"
proof -
  have "body_at demo_hls_api demo_hls_net k u referer = Some b" if "demo_site u = Some b" for k u b
    using demo_served [OF that] that
    by (simp add: body_at_def http_fetch_body_def demo_hls_net_def demo_hls_api_def http_fetch_handler_def http_fetch_send_def Let_def)
  then show ?thesis by (simp add: publishes_def)
qed


text \<open>The segments one after the other, without a playlist.\<close>

definition plain_playlist :: string where
  "plain_playlist = ''#EXTM3U'' @ [CHR 0x0A] @ ''http://h/a'' @ [CHR 0x0A]"

definition plain_net :: hls_net where
  "plain_net = \<lparr>hn_events = (\<lambda>k u. Some [FE_Http_Msg 200 (if u = ''http://h/p'' then plain_playlist else ''xyz'')]),
     hn_malloc = (\<lambda>_. True), hn_fwrite = (\<lambda>_. 100), hn_fopen = True\<rparr>"

lemma plain_download:
  "\<exists>s'. stream_hls_download demo_hls_api plain_net (\<lambda>_. True) demo_hls_state (Some ''http://h/p'') (Some ''f'') None = (0, s')"
proof -
  have lines: "strtok_lines plain_playlist = [''#EXTM3U'', ''http://h/a'']"
    by (simp add: plain_playlist_def strtok_lines_def code_of_def)
  have ctext: "c_text plain_playlist = plain_playlist" by (simp add: plain_playlist_def c_text_def code_of_def)
  have master: "\<not> playlist_is_master (Some plain_playlist)" by (simp add: plain_playlist_def playlist_is_master_def)
  have trim: "trim_line ''#EXTM3U'' = ''#EXTM3U''" "trim_line ''http://h/a'' = ''http://h/a''"
    by (rule trim_plain, simp add: isspace_def code_of_def)+
  have url: "http_resolve_url h (Some b) ''http://h/a'' = Some ''http://h/a''" for h b
    by (rule resolve_plain) (simp add: plain_url_def http_absolute_def isspace_def code_of_def)
  have seg: "hls_parse_media_playlist demo_hls_api (\<lambda>_. True) plain_playlist b \<lparr>hp_items = [], hp_capacity = 0\<rparr>
      = (0, \<lparr>hp_items = [media_segment new_scan ''http://h/a''], hp_capacity = 32\<rparr>)" for b
    by (simp add: hls_parse_media_playlist_def lines trim url hls_playlist_push_def new_scan_def Let_def)
  have fetch: "http_fetch_body demo_hls_api plain_net s u None =
      (Some (if u = ''http://h/p'' then plain_playlist else ''xyz''), s\<lparr>hl_fetches := Suc (hl_fetches s)\<rparr>)" for s u
    by (simp add: http_fetch_body_def plain_net_def http_fetch_handler_def plain_playlist_def HLS_MAX_BODY_def Let_def)
  have "plain_playlist \<noteq> []" by (simp add: plain_playlist_def)
  then show ?thesis
    by (simp add: stream_hls_download_def fetch ctext master seg hls_write_segment_def media_segment_def new_scan_def append_file_def)
       (simp add: plain_net_def)
qed

theorem hls_download_concatenates_witness:
  "\<exists>(s' :: hls_state) base media (out :: HlsPlaylist) cs. follows demo_hls_api plain_net 0 None ''http://h/p'' base media
     \<and> list_all2 (serves demo_hls_api plain_net None) (hp_items out) cs \<and> hl_file s' = concat cs"
proof -
  obtain s' :: hls_state where "stream_hls_download demo_hls_api plain_net (\<lambda>_. True) demo_hls_state (Some ''http://h/p'') (Some ''f'') None = (0, s')"
    using plain_download by blast
  from hls_download_concatenates [OF this] obtain base media cs and out :: HlsPlaylist
    where "follows demo_hls_api plain_net (hl_fetches demo_hls_state) None ''http://h/p'' base media"
      "list_all2 (serves demo_hls_api plain_net None) (hp_items out) cs" "hl_file s' = concat cs" by blast
  moreover have "hl_fetches demo_hls_state = 0" by (simp add: demo_hls_state_def)
  ultimately show ?thesis by metis
qed

text \<open>The average bandwidth is taken for the bandwidth when it comes first.\<close>

lemma average_bandwidth_taken:
  "hls_attr_value ''#EXT-X-STREAM-INF:AVERAGE-BANDWIDTH=100,BANDWIDTH=900'' ''BANDWIDTH'' = Some ''100''"
  by (subst hls_attr_value.simps) (simp add: attr_text_def isspace_def code_of_def)

end
