(* ===== verification/Item_Start.thy ===== *)
theory Item_Start
  imports Item_Record Hls
begin

text \<open>
  Creating an item and preparing its download, \<^verbatim>\<open>src/src/download.c\<close>: names and proxy of a
  new item, \<^verbatim>\<open>run_download_for_item_id\<close> and \<^verbatim>\<open>run_transient_download_ex\<close> up to and after the run of the job,
  the functions that enqueue and start downloads, and waiting for one.  The run itself is an argument; it is
  in \<open>Job_Run\<close>.  Copying \<open>NULL\<close> with \<open>strdup\<close> is the outcome \<open>PrepCrashes\<close>.
\<close>

subsection \<open>Names and proxy\<close>

definition choose_filename :: "item_env \<Rightarrow> nat \<Rightarrow> cstring \<Rightarrow> cstring \<Rightarrow> cstring" where
  "choose_filename I tick url header_value =
     (let name = (case header_value of
                    Some (c # cs) \<Rightarrow> http_parse_content_disposition_filename (it_url_decode I) (c # cs) | _ \<Rightarrow> None);
          name = (case name of Some n \<Rightarrow> Some n | None \<Rightarrow> http_url_basename (it_url_decode I) url);
          name = (case name of Some n \<Rightarrow> Some n | None \<Rightarrow> Some (''download-'' @ show_nat (it_stamp I tick) @ ''.bin''))
      in sanitize_filename name)"

definition hls_output_filename :: "cstring \<Rightarrow> cstring" where
  "hls_output_filename filename =
     (case filename of None \<Rightarrow> None
      | Some f \<Rightarrow>
          (case strrchr f CHR ''.'' of
             Some ext \<Rightarrow> if strcaseeq ext ''.m3u8'' then Some (upto_suffix f ext @ ''.ts'') else Some (f @ ''.ts'')
           | None \<Rightarrow> Some (f @ ''.ts'')))"

definition apply_proxy_to_state :: "item_env \<Rightarrow> DownloadState \<Rightarrow> cstring \<Rightarrow> DownloadState" where
  "apply_proxy_to_state I st proxy_override =
     (let proxy_url = proxy_resolve_for_target (it_url I) (it_proxy I) (ds_url st) proxy_override
      in if non_empty proxy_override then st\<lparr>ds_proxy := proxy_url\<rparr>
         else if ds_proxy st = None \<and> proxy_url \<noteq> None then st\<lparr>ds_proxy := proxy_url\<rparr> else st)"

definition ts_name :: "cstring \<Rightarrow> cstring \<Rightarrow> cstring \<Rightarrow> cstring" where
  "ts_name url stream_kind filename =
     (if stream_url_is_hls url stream_kind \<and> filename \<noteq> None then hls_output_filename filename else filename)"

definition kind_of_stream :: "cstring \<Rightarrow> cstring \<Rightarrow> cstring \<Rightarrow> cstring" where
  "kind_of_stream url stream_kind old =
     (if non_empty stream_kind then stream_kind else if stream_url_is_hls url None then Some ''hls'' else old)"

subsection \<open>The state of an item\<close>

text \<open>A new state from the record of the item.\<close>

definition state_from_record ::
  "('j, 't) cjson \<Rightarrow> item_env \<Rightarrow> ('j, 't) manager \<Rightarrow> nat \<Rightarrow> string \<Rightarrow> cstring \<Rightarrow> cstring \<Rightarrow> cstring \<Rightarrow> DownloadState" where
  "state_from_record J I m i item_id url job_dir download_dir =
     (let filename = item_field J m i ''filename'';
          filename = (case filename of Some f \<Rightarrow> Some f | None \<Rightarrow> choose_filename I (mg_tick m) url None);
          stream_kind = item_field J m i ''streamKind'';
          filename = ts_name url stream_kind filename;
          st = download_state_create url filename (path_join job_dir filename) (path_join download_dir filename) 0 DL_CHUNK_SIZE;
          inferred = item_field J m i ''filenameInferred'';
          referer = item_field J m i ''referer'';
          st = st\<lparr>ds_filename_inferred := (inferred = None \<or> inferred = Some ''true'' \<or> inferred = Some ''1''),
                  ds_id := Some item_id, ds_queued_at := it_now I (mg_tick m), ds_added_through := Some ''direct'',
                  ds_stream_kind := kind_of_stream url stream_kind (ds_stream_kind st)\<rparr>
      in if non_empty referer then st\<lparr>ds_referer := referer\<rparr> else st)"

text \<open>The URL of a loaded state wins when it is valid.\<close>

definition state_with_url :: "DownloadState \<Rightarrow> cstring \<Rightarrow> cstring \<times> DownloadState" where
  "state_with_url st url =
     (if non_empty (ds_url st) \<and> is_valid_http_url (ds_url st) then (ds_url st, st)
      else (url, if url \<noteq> None then st\<lparr>ds_url := url\<rparr> else st))"

datatype preparation = PrepReturns int | PrepCrashes | PrepHangs | PrepJob DownloadJob

text \<open>The job with its state, from the names that were chosen; a transient download notes the time.\<close>

definition job_of_state ::
  "item_env \<Rightarrow> env \<Rightarrow> bool \<Rightarrow> nat \<Rightarrow> string \<Rightarrow> string \<Rightarrow> DownloadState \<Rightarrow> cstring \<Rightarrow> cstring \<Rightarrow> cstring \<Rightarrow> cstring \<Rightarrow> DownloadJob" where
  "job_of_state I e transient tick item_id url st filename temp_path dest_path state_path =
     (let st = (case it_now I tick of Some now \<Rightarrow> st\<lparr>ds_last_try_at := Some now\<rparr> | None \<Rightarrow> st);
          job = zero_job\<lparr>j_url := url, j_item_id := item_id, j_filename := filename,
           j_filename_inferred := ds_filename_inferred st, j_temp_path := temp_path, j_dest_path := dest_path,
           j_state_path := state_path, j_state := st, j_use_ranges := True, j_conn_keep_alive := True\<rparr>;
          job = (if transient then let (now, job) = mg_millis e job; (_, job) = mg_millis e job
                                   in job\<lparr>j_last_progress_ms := now\<rparr>
                 else job)
      in load_job_retry_state e job)"

definition begin_scope :: "string \<Rightarrow> ('j, 't) manager \<Rightarrow> ('j, 't) manager" where
  "begin_scope item_id m = m\<lparr>mg_scope := download_io_scope_begin (Some item_id) (mg_scope m)\<rparr>"

definition end_scope :: "('j, 't) manager \<Rightarrow> ('j, 't) manager" where
  "end_scope m = m\<lparr>mg_scope := download_io_scope_end (mg_scope m)\<rparr>"

text \<open>Opening the scope, choosing the proxy, saving the state.\<close>

definition save_prepared ::
  "('j, 't) cjson \<Rightarrow> 't manager_env \<Rightarrow> item_env \<Rightarrow> env \<Rightarrow> bool \<Rightarrow> ('j, 't) manager \<Rightarrow> string \<Rightarrow> string \<Rightarrow> DownloadState \<Rightarrow> cstring
   \<Rightarrow> cstring \<Rightarrow> cstring \<Rightarrow> cstring \<Rightarrow> cstring \<Rightarrow> preparation \<times> ('j, 't) manager" where
  "save_prepared J E I e transient m item_id url st filename temp_path dest_path state_path proxy_override =
     (let m = begin_scope item_id m;
          st = apply_proxy_to_state I st proxy_override;
          (rc, m) = save_state J E m st state_path
      in if rc \<noteq> 0 then (PrepReturns EXIT_FAILURE, end_scope m)
         else if filename = None \<or> temp_path = None \<or> dest_path = None then (PrepReturns EXIT_FAILURE, end_scope m)
         else (PrepJob (job_of_state I e transient (mg_tick m) item_id url st filename temp_path dest_path state_path), m))"

subsection \<open>Running the item with an id\<close>

definition prepare_item ::
  "('j, 't) cjson \<Rightarrow> 't manager_env \<Rightarrow> item_env \<Rightarrow> env \<Rightarrow> ('j, 't) manager \<Rightarrow> cstring \<Rightarrow> cstring \<Rightarrow> bool
   \<Rightarrow> preparation \<times> ('j, 't) manager" where
  "prepare_item J E I e m item_id proxy_override force_start =
     (case item_id of None \<Rightarrow> (PrepReturns EXIT_FAILURE, m)
      | Some iid \<Rightarrow>
          if \<not> force_start \<and> active_jobs_find m iid \<noteq> None then (PrepReturns EXIT_SUCCESS, m)
          else (case item_index J m iid of None \<Rightarrow> (PrepReturns EXIT_FAILURE, m)
                | Some i \<Rightarrow>
                    let (url, m) = download_item_load_url J E m iid;
                        queue_id = item_field J m i ''queueId'';
                        status = item_field J m i ''status''
                    in if \<not> force_start \<and> download_scheduler_spawn_blocked J m status queue_id then (PrepReturns EXIT_SUCCESS, m)
                       else if \<not> is_valid_http_url url then (PrepReturns EXIT_FAILURE, m)
                       else (case (default_temp_path J (me_getenv E) (mg_cfg m), default_download_path J (me_getenv E) (mg_cfg m)) of
                               (Some temp_dir, Some download_dir) \<Rightarrow>
                                 let job_dir = build_job_dir (Some temp_dir) iid;
                                     state_path = build_state_path job_dir
                                 in if job_dir = None \<or> state_path = None \<or> \<not> it_mkdir I (the job_dir)
                                    then (PrepReturns EXIT_FAILURE, m)
                                    else let (loaded, m) = load_state J E m state_path;
                                             (url, st) = (case loaded of
                                                Some st \<Rightarrow> state_with_url st url
                                              | None \<Rightarrow> (url, state_from_record J I m i iid url job_dir (Some download_dir)));
                                             st' = st\<lparr>ds_queue_id := (if non_empty queue_id then queue_id else None)\<rparr>
                                         in if loaded \<noteq> None \<and> ds_temp_path st = None then (PrepCrashes, m)
                                            else save_prepared J E I e False m iid (the url) st' (ds_filename st) (ds_temp_path st)
                                                   (ds_dest_path st) state_path proxy_override
                             | _ \<Rightarrow> (PrepReturns EXIT_FAILURE, m))))"

text \<open>\<open>run\<close> is \<open>run_download\<close>; besides the result and the job it gives whether the job was asked
  to stop.\<close>

definition run_download_for_item_id ::
  "('j, 't) cjson \<Rightarrow> 't manager_env \<Rightarrow> item_env \<Rightarrow> env \<Rightarrow> (DownloadJob \<Rightarrow> int \<times> bool \<times> DownloadJob)
   \<Rightarrow> ('j, 't) manager \<Rightarrow> cstring \<Rightarrow> cstring \<Rightarrow> bool \<Rightarrow> int option \<times> DownloadJob option \<times> ('j, 't) manager" where
  "run_download_for_item_id J E I e run m item_id proxy_override force_start =
     (case prepare_item J E I e m item_id proxy_override force_start of
        (PrepReturns rc, m) \<Rightarrow> (Some rc, None, m)
      | (PrepCrashes, m) \<Rightarrow> (None, None, m)
      | (PrepHangs, m) \<Rightarrow> (None, None, m)
      | (PrepJob job, m) \<Rightarrow>
          let job = dm_item_upsert e job ''downloading'';
              m = begin_scope (j_item_id job) m;
              (rc, asked, job) = run job;
              m = end_scope m;
              job = (if rc \<noteq> EXIT_SUCCESS \<and> \<not> j_failed job \<and> \<not> asked then dm_item_upsert e job ''failed'' else job)
          in (Some rc, Some job, end_scope m))"

definition background_download_task_by_id ::
  "('j, 't) cjson \<Rightarrow> 't manager_env \<Rightarrow> item_env \<Rightarrow> env \<Rightarrow> (DownloadJob \<Rightarrow> int \<times> bool \<times> DownloadJob)
   \<Rightarrow> ('j, 't) manager \<Rightarrow> string \<times> cstring \<times> bool \<Rightarrow> ('j, 't) manager" where
  "background_download_task_by_id J E I e run m args =
     (let (item_id, proxy, force_start) = args
      in snd (snd (run_download_for_item_id J E I e run m (Some item_id) proxy force_start)))"

subsection \<open>Creating an item\<close>

text \<open>The id of the item: that of an unfinished item of the URL unless a new one is forced, the one given, or a new one.
  \<open>None\<close> when the generator does not return.\<close>

definition transient_item_id ::
  "('j, 't) cjson \<Rightarrow> 't manager_env \<Rightarrow> ('j, 't) manager \<Rightarrow> string \<Rightarrow> bool \<Rightarrow> cstring \<Rightarrow> (cstring \<times> ('j, 't) manager) option" where
  "transient_item_id J E m url force_new_id preset =
     (let (found, m) = (if force_new_id then (None, m) else find_resumable_item_id J E m url)
      in if found \<noteq> None then Some (found, m)
         else if non_empty preset then Some (preset, m)
         else (case download_generate_id (me_pid E) (me_millis E) (\<lambda>g. item_index J m g \<noteq> None) (mg_snowflake m) of
                 None \<Rightarrow> None
               | Some (gen, sf) \<Rightarrow> Some (gen, m\<lparr>mg_snowflake := sf\<rparr>)))"

definition completed_state :: "item_env \<Rightarrow> nat \<Rightarrow> string \<Rightarrow> string \<Rightarrow> DownloadState \<Rightarrow> DownloadState" where
  "completed_state I tick url item_id st =
     (let st = (if ds_url st \<noteq> None \<and> ds_url st \<noteq> Some url then st\<lparr>ds_url := Some url\<rparr> else st);
          st = (if ds_id st = None then st\<lparr>ds_id := Some item_id\<rparr> else st);
          st = (if ds_queued_at st = None then st\<lparr>ds_queued_at := it_now I tick\<rparr> else st)
      in if ds_added_through st = None then st\<lparr>ds_added_through := Some ''direct''\<rparr> else st)"

definition new_state ::
  "('j, 't) cjson \<Rightarrow> item_env \<Rightarrow> ('j, 't) manager \<Rightarrow> string \<Rightarrow> string \<Rightarrow> cstring \<Rightarrow> cstring \<Rightarrow> cstring \<Rightarrow> cstring
   \<Rightarrow> cstring \<Rightarrow> cstring \<Rightarrow> DownloadState option" where
  "new_state J I m url item_id queue name stream_kind referer job_dir download_dir =
     (let filename = (if non_empty name then sanitize_filename name else choose_filename I (mg_tick m) (Some url) None);
          filename = ts_name (Some url) stream_kind filename
      in if filename = None then None
         else let st = download_state_create (Some url) filename (path_join job_dir filename) (path_join download_dir filename) 0 DL_CHUNK_SIZE;
                  st = st\<lparr>ds_filename_inferred := (\<not> non_empty name), ds_id := Some item_id,
                          ds_queued_at := it_now I (mg_tick m), ds_added_through := Some ''direct''\<rparr>;
                  st = (case queue of None \<Rightarrow> st
                        | Some q \<Rightarrow> st\<lparr>ds_queue_id := (case resolve_queue J m queue of Some r \<Rightarrow> Some r | None \<Rightarrow> Some q)\<rparr>);
                  st = st\<lparr>ds_stream_kind := kind_of_stream (Some url) stream_kind (ds_stream_kind st)\<rparr>
              in Some (if non_empty referer then st\<lparr>ds_referer := referer\<rparr> else st))"

definition prepare_transient ::
  "('j, 't) cjson \<Rightarrow> 't manager_env \<Rightarrow> item_env \<Rightarrow> env \<Rightarrow> ('j, 't) manager \<Rightarrow> cstring \<Rightarrow> cstring \<Rightarrow> cstring \<Rightarrow> cstring
   \<Rightarrow> cstring \<Rightarrow> cstring \<Rightarrow> bool \<Rightarrow> cstring \<Rightarrow> preparation \<times> ('j, 't) manager" where
  "prepare_transient J E I e m url queue name proxy_override stream_kind referer force_new_id preset =
     (let normalized = trim_whitespace_inplace url in
      if \<not> is_valid_http_url normalized then (PrepReturns EXIT_FAILURE, m)
      else case (default_temp_path J (me_getenv E) (mg_cfg m), default_download_path J (me_getenv E) (mg_cfg m)) of
        (Some temp_dir, Some download_dir) \<Rightarrow>
          if \<not> it_mkdir I temp_dir \<or> \<not> it_mkdir I download_dir then (PrepReturns EXIT_FAILURE, m)
          else (case transient_item_id J E m (the normalized) force_new_id preset of
                  None \<Rightarrow> (PrepHangs, m)
                | Some (None, m) \<Rightarrow> (PrepReturns EXIT_FAILURE, m)
                | Some (Some iid, m) \<Rightarrow>
                    let job_dir = build_job_dir (Some temp_dir) iid;
                        state_path = build_state_path job_dir
                    in if job_dir = None \<or> state_path = None \<or> \<not> it_mkdir I (the job_dir) then (PrepReturns EXIT_FAILURE, m)
                       else let (loaded, m) = load_state J E m state_path;
                                st = (case loaded of
                                        Some st \<Rightarrow> Some (completed_state I (mg_tick m) (the normalized) iid st)
                                      | None \<Rightarrow> new_state J I m (the normalized) iid queue name stream_kind referer job_dir (Some download_dir))
                            in (case st of None \<Rightarrow> (PrepReturns EXIT_FAILURE, m)
                                | Some st \<Rightarrow>
                                    if loaded \<noteq> None \<and> ds_temp_path st = None then (PrepCrashes, m)
                                    else let iid = (if loaded \<noteq> None then (case ds_id st of Some d \<Rightarrow> d | None \<Rightarrow> iid) else iid);
                                             job_url = (if non_empty (ds_url st) then the (ds_url st) else the normalized)
                                         in save_prepared J E I e True m iid job_url st (ds_filename st) (ds_temp_path st) (ds_dest_path st)
                                              state_path proxy_override))
      | _ \<Rightarrow> (PrepReturns EXIT_FAILURE, m))"

definition download_status_exit_code :: "cstring \<Rightarrow> int" where
  "download_status_exit_code status =
     (if status = Some ''completed'' \<or> status = Some ''stopped'' \<or> status = Some ''paused'' then EXIT_SUCCESS else EXIT_FAILURE)"

text \<open>Waiting for an item: \<open>statuses k\<close> is the status in its record at the k-th look, nothing when the record or the
  status is not there.\<close>

partial_function (option) wait_for_download_item :: "(nat \<Rightarrow> cstring) \<Rightarrow> nat \<Rightarrow> int option" where
  "wait_for_download_item statuses k =
     (case statuses k of None \<Rightarrow> Some EXIT_FAILURE
      | Some s \<Rightarrow> if s \<noteq> ''downloading'' then Some (download_status_exit_code (Some s))
                  else wait_for_download_item statuses (Suc k))"

text \<open>The result, the id written to the caller, the job that was run and the manager; no result when a wait or the generator
  does not end.\<close>

definition run_transient_download_ex ::
  "('j, 't) cjson \<Rightarrow> 't manager_env \<Rightarrow> item_env \<Rightarrow> env \<Rightarrow> (DownloadJob \<Rightarrow> int \<times> bool \<times> DownloadJob) \<Rightarrow> (nat \<Rightarrow> cstring)
   \<Rightarrow> ('j, 't) manager \<Rightarrow> cstring \<Rightarrow> cstring \<Rightarrow> cstring \<Rightarrow> cstring \<Rightarrow> bool \<Rightarrow> bool \<Rightarrow> cstring \<Rightarrow> cstring \<Rightarrow> bool \<Rightarrow> cstring
   \<Rightarrow> int option \<times> cstring \<times> DownloadJob option \<times> ('j, 't) manager" where
  "run_transient_download_ex J E I e run statuses m url queue name proxy_override start_immediately blocking_wait
       stream_kind referer force_new_id preset =
     (case prepare_transient J E I e m url queue name proxy_override stream_kind referer force_new_id preset of
        (PrepReturns rc, m) \<Rightarrow> (Some rc, None, None, m)
      | (PrepCrashes, m) \<Rightarrow> (None, None, None, m)
      | (PrepHangs, m) \<Rightarrow> (None, None, None, m)
      | (PrepJob job, m) \<Rightarrow>
          if \<not> start_immediately
          then (Some EXIT_SUCCESS, Some (j_item_id job), Some (dm_item_upsert e job ''queued''), end_scope m)
          else let job = dm_item_upsert e job ''downloading'' in
            if blocking_wait
            then let (rc, m) = spawn_download_by_id E m (j_item_id job) proxy_override True
                 in if rc \<noteq> EXIT_SUCCESS then (Some EXIT_FAILURE, None, Some job, end_scope m)
                    else (wait_for_download_item statuses 0, None, Some job, end_scope m)
            else let m = begin_scope (j_item_id job) m;
                     (rc, asked, job) = run job;
                     m = end_scope m;
                     job = (if rc \<noteq> EXIT_SUCCESS \<and> \<not> j_failed job then dm_item_upsert e job ''failed'' else job)
                 in (Some rc, None, Some job, end_scope m))"

text \<open>\<open>record_job\<close> writes the record that a new job announces (\<open>upsert_item_record\<close> of the theory \<open>Item_Record\<close>).\<close>

definition download_enqueue_ex ::
  "('j, 't) cjson \<Rightarrow> 't manager_env \<Rightarrow> item_env \<Rightarrow> env \<Rightarrow> (DownloadJob \<Rightarrow> ('j, 't) manager \<Rightarrow> ('j, 't) manager) \<Rightarrow> ('j, 't) manager \<Rightarrow> cstring \<Rightarrow> cstring \<Rightarrow> cstring \<Rightarrow> cstring
   \<Rightarrow> cstring \<Rightarrow> cstring \<Rightarrow> bool \<Rightarrow> int option \<times> cstring \<times> DownloadJob option \<times> ('j, 't) manager" where
  "download_enqueue_ex J E I e record_job m url queue name proxy_url stream_kind referer force_new_id =
     (let (rc, item_id, job, m) = run_transient_download_ex J E I e (\<lambda>job. (EXIT_FAILURE, False, job)) (\<lambda>_. None) m url queue name
            proxy_url False False stream_kind referer force_new_id None
      in (rc, item_id, job, case job of None \<Rightarrow> m | Some job \<Rightarrow> record_job job m))"

definition download_enqueue_with_proxy ::
  "('j, 't) cjson \<Rightarrow> 't manager_env \<Rightarrow> item_env \<Rightarrow> env \<Rightarrow> (DownloadJob \<Rightarrow> ('j, 't) manager \<Rightarrow> ('j, 't) manager) \<Rightarrow> ('j, 't) manager \<Rightarrow> cstring \<Rightarrow> cstring \<Rightarrow> cstring \<Rightarrow> cstring
   \<Rightarrow> int option \<times> cstring \<times> DownloadJob option \<times> ('j, 't) manager" where
  "download_enqueue_with_proxy J E I e record_job m url queue name proxy_url =
     download_enqueue_ex J E I e record_job m url queue name proxy_url None None False"

text \<open>The list of segments is stored outside the scope of the item.\<close>

definition download_enqueue_segments ::
  "('j, 't) cjson \<Rightarrow> 't manager_env \<Rightarrow> item_env \<Rightarrow> env \<Rightarrow> (DownloadJob \<Rightarrow> ('j, 't) manager \<Rightarrow> ('j, 't) manager) \<Rightarrow> ('j, 't) manager \<Rightarrow> cstring \<Rightarrow> cstring \<Rightarrow> cstring \<Rightarrow> cstring
   \<Rightarrow> cstring \<Rightarrow> cstring list \<Rightarrow> bool \<Rightarrow> int option \<times> cstring \<times> ('j, 't) manager" where
  "download_enqueue_segments J E I e record_job m url queue name proxy_url referer segment_urls force_new_id =
     (if segment_urls = [] then (Some EXIT_FAILURE, None, m)
      else let (rc, item_id, _, m) = download_enqueue_ex J E I e record_job m url queue name proxy_url (Some ''ts-sequence'') referer force_new_id
           in case rc of None \<Rightarrow> (None, None, m)
              | Some rc \<Rightarrow>
                  (case item_id of None \<Rightarrow> (Some EXIT_FAILURE, None, m)
                   | Some iid \<Rightarrow>
                       if rc \<noteq> EXIT_SUCCESS then (Some EXIT_FAILURE, None, m)
                       else let state_path = download_item_state_path J E m iid;
                                (st, m) = load_state J E m state_path
                            in (case st of None \<Rightarrow> (Some EXIT_FAILURE, None, m)
                                | Some st \<Rightarrow>
                                    let urls = List.map_filter (\<lambda>u. u) segment_urls;
                                        (save_rc, m) = save_state J E m (st\<lparr>ds_ts_segments := urls\<rparr>) state_path
                                    in if save_rc \<noteq> 0 \<or> urls = [] then (Some EXIT_FAILURE, None, m)
                                       else (Some EXIT_SUCCESS, Some iid, m))))"

definition transient_download ::
  "('j, 't) cjson \<Rightarrow> 't manager_env \<Rightarrow> item_env \<Rightarrow> env \<Rightarrow> (nat \<Rightarrow> cstring) \<Rightarrow> ('j, 't) manager \<Rightarrow> cstring \<Rightarrow> cstring \<Rightarrow> cstring
   \<Rightarrow> cstring \<Rightarrow> bool \<Rightarrow> int option \<times> ('j, 't) manager" where
  "transient_download J E I e statuses m url queue name proxy_url attached =
     (if \<not> attached then (Some EXIT_FAILURE, m)
      else let (rc, _, _, m) = run_transient_download_ex J E I e (\<lambda>job. (EXIT_FAILURE, False, job)) statuses m url queue name
                 proxy_url True True None None False None
           in (rc, m))"

subsection \<open>Starting in the background\<close>

record BackgroundDownloadArgs =
  ba_url :: string
  ba_queue :: cstring
  ba_name :: cstring
  ba_item_id :: cstring
  ba_proxy :: cstring
  ba_force_start :: bool

definition background_download_task ::
  "('j, 't) cjson \<Rightarrow> 't manager_env \<Rightarrow> item_env \<Rightarrow> env \<Rightarrow> (DownloadJob \<Rightarrow> int \<times> bool \<times> DownloadJob)
   \<Rightarrow> ('j, 't) manager \<Rightarrow> BackgroundDownloadArgs \<Rightarrow> DownloadJob option \<times> ('j, 't) manager" where
  "background_download_task J E I e run m args =
     (let (_, _, job, m) = run_transient_download_ex J E I e run (\<lambda>_. None) m (Some (ba_url args)) (ba_queue args) (ba_name args)
            (ba_proxy args) True False None None False (ba_item_id args)
      in (job, m))"

text \<open>The result, the id for the caller, who may ask for none, and the arguments handed to the pool.\<close>

definition download_start_background_with_proxy ::
  "('j, 't) cjson \<Rightarrow> 't manager_env \<Rightarrow> ('j, 't) manager \<Rightarrow> cstring \<Rightarrow> cstring \<Rightarrow> cstring \<Rightarrow> cstring \<Rightarrow> bool
   \<Rightarrow> (int \<times> cstring \<times> BackgroundDownloadArgs option \<times> ('j, 't) manager) option" where
  "download_start_background_with_proxy J E m url queue name proxy_url wants_id =
     (let normalized = trim_whitespace_inplace url in
      if \<not> is_valid_http_url normalized then Some (EXIT_FAILURE, None, None, m)
      else let args = \<lparr>ba_url = the normalized, ba_queue = queue, ba_name = name, ba_item_id = None, ba_proxy = proxy_url, ba_force_start = False\<rparr>
           in case (if wants_id
                    then (case download_generate_id (me_pid E) (me_millis E) (\<lambda>g. item_index J m g \<noteq> None) (mg_snowflake m) of
                            None \<Rightarrow> None | Some (gen, sf) \<Rightarrow> Some (gen, m\<lparr>mg_snowflake := sf\<rparr>))
                    else Some (None, m)) of
                None \<Rightarrow> None
              | Some (gen, m) \<Rightarrow>
                  if wants_id \<and> gen = None then Some (EXIT_FAILURE, None, None, m)
                  else let ok = me_pool E (mg_tick m); m = m\<lparr>mg_tick := Suc (mg_tick m)\<rparr>
                       in Some (if \<not> ok then (EXIT_FAILURE, gen, None, m)
                                else (EXIT_SUCCESS, gen, Some (args\<lparr>ba_item_id := gen\<rparr>), m)))"

end
