(* ===== verification/Job_Run.thy ===== *)
theory Job_Run
  imports Item_Start Hls_Correct Job_Steps
begin

text \<open>
  The run of a job, \<^verbatim>\<open>run_download_inner\<close> of \<^verbatim>\<open>src/src/download.c\<close>: the setting up, the first
  scheduling and the loop that polls the connections, with the runs of HLS streams and segment lists.
  A turn of the loop is given by the flags other threads set and by what \<^verbatim>\<open>mg_mgr_poll\<close> does to the job.
\<close>

subsection \<open>Streams\<close>

definition stream_kind_is_ts_sequence :: "cstring \<Rightarrow> bool" where
  "stream_kind_is_ts_sequence stream_kind \<longleftrightarrow> stream_kind = Some ''ts-sequence''"

text \<open>What follows a stream that was fetched with result \<open>rc\<close>.\<close>

definition finish_stream :: "env \<Rightarrow> string \<Rightarrow> int \<Rightarrow> DownloadJob \<Rightarrow> int \<times> DownloadJob" where
  "finish_stream e msg rc job =
     (if rc \<noteq> 0
      then (EXIT_FAILURE, (dm_item_upsert e (set_error (ErrNetwork msg) job) ''failed'')\<lparr>j_failed := True, j_done := True\<rparr>)
      else let (ok, job) = finalize_download e job
           in if ok then (EXIT_SUCCESS, job) else (EXIT_FAILURE, job\<lparr>j_failed := True\<rparr>))"

definition run_hls_download ::
  "env \<Rightarrow> hls_api \<Rightarrow> hls_net \<Rightarrow> (nat \<Rightarrow> bool) \<Rightarrow> hls_state \<Rightarrow> DownloadJob \<Rightarrow> int \<times> DownloadJob \<times> hls_state" where
  "run_hls_download e A net realloc_ok s job =
     (if j_temp_path job = None then (EXIT_FAILURE, job, s)
      else let job = dm_item_upsert e (job\<lparr>j_failed := False, j_done := False\<rparr>) ''downloading'';
               (rc, s) = stream_hls_download A net realloc_ok s (Some (j_url job)) (j_temp_path job) (ds_referer (j_state job));
               (rc, job) = finish_stream e ''HLS download failed'' rc job
           in (rc, job, s))"

definition run_ts_sequence_download ::
  "env \<Rightarrow> hls_api \<Rightarrow> hls_net \<Rightarrow> hls_state \<Rightarrow> DownloadJob \<Rightarrow> int \<times> DownloadJob \<times> hls_state" where
  "run_ts_sequence_download e A net s job =
     (if j_temp_path job = None \<or> ds_ts_segments (j_state job) = [] then (EXIT_FAILURE, job, s)
      else let job = dm_item_upsert e (job\<lparr>j_failed := False, j_done := False\<rparr>) ''downloading'';
               (rc, s) = stream_hls_download_segments A net s (map Some (ds_ts_segments (j_state job))) (j_temp_path job)
                           (ds_referer (j_state job));
               (rc, job) = finish_stream e ''Segment download failed'' rc job
           in (rc, job, s))"

subsection \<open>Setting up\<close>

definition reset_for_run :: "env \<Rightarrow> DownloadSegmentConfig \<Rightarrow> DownloadJob \<Rightarrow> DownloadJob" where
  "reset_for_run e cfg job =
     (let job = job\<lparr>j_seg_cfg := cfg, j_slots := replicate (unat (sc_concurrency cfg)) empty_slot, j_stream_received := 0\<rparr>;
          (activity, job) = mg_millis e job;
          (progress, job) = mg_millis e job;
          (_, job) = mg_millis e job
      in job\<lparr>j_last_activity_ms := activity, j_last_progress_ms := progress, j_step := DL_STEP_STREAM, j_segment_mode := False,
             j_conn_keep_alive := True\<rparr>)"

text \<open>Up to the first scheduling.\<close>

definition set_up :: "env \<Rightarrow> DownloadSegmentConfig \<Rightarrow> DownloadJob \<Rightarrow> DownloadJob" where
  "set_up e cfg job =
     (let (ok, job) = prepare_chunk_download (reset_for_run e cfg job);
          job = (if \<not> ok then job\<lparr>j_step := DL_STEP_STREAM\<rparr> else job);
          job = (if j_step job = DL_STEP_STREAM
                 then let (size, job) = existing_file_size e job
                      in job\<lparr>j_stream_received := size, j_stream_persisted := download_state_bytes_done (j_state job)\<rparr>
                 else job\<lparr>j_chunk_persisted := 0\<rparr>)
      in job\<lparr>j_current_url := j_url job\<rparr>)"

subsection \<open>The loop\<close>

record turn =
  tn_cancel :: bool
  tn_pause :: bool
  tn_poll :: "DownloadJob \<Rightarrow> DownloadJob"

definition loop_turn :: "env \<Rightarrow> turn \<Rightarrow> DownloadJob \<Rightarrow> DownloadJob" where
  "loop_turn e t job =
     (if tn_cancel t then dm_item_upsert e (job\<lparr>j_done := True\<rparr>) ''stopped''
      else if tn_pause t then dm_item_upsert e (job\<lparr>j_done := True\<rparr>) ''paused''
      else let job = tn_poll t job
           in if j_schedule_deferred job then schedule_next e (job\<lparr>j_schedule_deferred := False\<rparr>) else job)"

fun run_loop :: "env \<Rightarrow> turn list \<Rightarrow> DownloadJob \<Rightarrow> DownloadJob" where
  "run_loop e [] job = job"
| "run_loop e (t # ts) job = (if j_done job \<or> j_failed job then job else run_loop e ts (loop_turn e t job))"

text \<open>The whole run with the turns given; \<open>slots_ok\<close> answers the allocation of the slots.  The result is that of
  the function when the job is done or failed after the turns.\<close>

definition run_download_inner ::
  "env \<Rightarrow> DownloadSegmentConfig \<Rightarrow> bool \<Rightarrow> hls_api \<Rightarrow> hls_net \<Rightarrow> (nat \<Rightarrow> bool) \<Rightarrow> hls_state \<Rightarrow> turn list \<Rightarrow> DownloadJob
   \<Rightarrow> int \<times> DownloadJob \<times> hls_state" where
  "run_download_inner e cfg slots_ok A net realloc_ok s turns job =
     (if stream_kind_is_ts_sequence (ds_stream_kind (j_state job)) then run_ts_sequence_download e A net s job
      else if stream_url_is_hls (Some (j_url job)) (ds_stream_kind (j_state job)) then run_hls_download e A net realloc_ok s job
      else if sc_concurrency cfg > 0 \<and> \<not> slots_ok
      then (EXIT_FAILURE, set_error (ErrNetwork ''Out of memory'') (job\<lparr>j_seg_cfg := cfg, j_slots := []\<rparr>), s)
      else let job = run_loop e turns (schedule_next e (set_up e cfg job))
           in (if j_failed job then EXIT_FAILURE else EXIT_SUCCESS, job, s))"

subsection \<open>A run in segment mode is a run of steps\<close>

definition polls :: "url_api \<Rightarrow> mg_api \<Rightarrow> (nat \<Rightarrow> char) \<Rightarrow> env \<Rightarrow> turn list \<Rightarrow> bool" where
  "polls ua mg R e turns \<longleftrightarrow> (\<forall>t\<in>set turns. \<forall>job. reaches ua mg R e job (tn_poll t job))"

lemma reaches_trans: "reaches ua mg R e b c \<Longrightarrow> reaches ua mg R e a b \<Longrightarrow> reaches ua mg R e a c"
  by (induction rule: reaches.induct) (auto intro: reaches.step)

lemma loop_turn_reaches:
  assumes "reaches ua mg R e job (tn_poll t job)"
  shows "reaches ua mg R e job (loop_turn e t job)"
proof -
  have "reaches ua mg R e job (dm_item_upsert e (job\<lparr>j_done := True\<rparr>) s)" for s
    by (rule reaches.step [OF reaches.start job_step.stop])
  moreover have "reaches ua mg R e job (schedule_next e ((tn_poll t job)\<lparr>j_schedule_deferred := False\<rparr>))"
    by (rule reaches.step [OF assms job_step.schedule])
  ultimately show ?thesis using assms by (simp add: loop_turn_def Let_def)
qed

lemma run_loop_reaches: "polls ua mg R e turns \<Longrightarrow> reaches ua mg R e job (run_loop e turns job)"
proof (induction turns arbitrary: job)
  case (Cons t ts)
  have "reaches ua mg R e job (loop_turn e t job)" using Cons.prems by (intro loop_turn_reaches) (simp add: polls_def)
  moreover have "reaches ua mg R e (loop_turn e t job) (run_loop e ts (loop_turn e t job))"
    using Cons by (simp add: polls_def)
  ultimately show ?case using reaches_trans by (auto intro: reaches.start)
qed (simp add: reaches.start)

text \<open>A job as it comes from the preparation, for a file whose size is known and of which nothing is there.\<close>

definition ready_job :: "DownloadSegmentConfig \<Rightarrow> DownloadJob \<Rightarrow> bool" where
  "ready_job cfg job \<longleftrightarrow> ds_done_ranges (j_state job) = [] \<and> segment_should_enable cfg (ds_total_size (j_state job)) (j_use_ranges job)
     \<and> sc_concurrency cfg \<le> 32 \<and> segments_fit ((j_state job)\<lparr>ds_chunk_size := (if sc_chunk_size cfg > 0 then sc_chunk_size cfg else DL_CHUNK_SIZE)\<rparr>)
     \<and> \<not> j_streaming job \<and> \<not> j_schedule_deferred job \<and> j_handed job = (\<lambda>_. None) \<and> j_log job = []"

lemma next_pending_first:
  assumes "segments_fit st" "ds_done_ranges st = []"
  shows "next_pending_from st (download_state_segment_count st) 0 = Some (segment_chunk_range st 0)"
proof -
  have "0 < download_state_segment_count st" using segment_count_pos [OF assms(1)] by (simp add: word_less_nat_alt)
  moreover have "\<not> download_state_is_segment_done st 0"
    using assms(2) by (auto simp: download_state_is_segment_done_def download_state_is_range_done_def split: prod.split)
  ultimately show ?thesis by (subst next_pending_from.simps) simp
qed

lemma reset_for_run_sel [simp]:
  "j_state (reset_for_run e cfg job) = j_state job" "j_seg_cfg (reset_for_run e cfg job) = cfg"
  "j_use_ranges (reset_for_run e cfg job) = j_use_ranges job" "j_streaming (reset_for_run e cfg job) = j_streaming job"
  "j_slots (reset_for_run e cfg job) = replicate (unat (sc_concurrency cfg)) empty_slot"
  "j_handed (reset_for_run e cfg job) = j_handed job" "j_log (reset_for_run e cfg job) = j_log job"
  "j_schedule_deferred (reset_for_run e cfg job) = j_schedule_deferred job"
  by (simp_all add: reset_for_run_def mg_millis_def)

lemma set_up_fresh:
  assumes "ready_job cfg job"
  shows "fresh_job (set_up e cfg job) \<and> \<not> j_schedule_deferred (set_up e cfg job)"
proof -
  let ?st = "(j_state job)\<lparr>ds_chunk_size := (if sc_chunk_size cfg > 0 then sc_chunk_size cfg else DL_CHUNK_SIZE)\<rparr>"
  let ?job = "(reset_for_run e cfg job)\<lparr>j_state := ?st, j_step := DL_STEP_CHUNK, j_segment_mode := True\<rparr>"
  have en: "segment_should_enable cfg (ds_total_size (j_state job)) (j_use_ranges job)"
    and dr: "ds_done_ranges (j_state job) = []" and fit: "segments_fit ?st" using assms by (simp_all add: ready_job_def)
  have t: "ds_total_size (j_state job) \<noteq> 0" using fit by (simp add: segments_fit_def)
  have c: "1 < sc_concurrency cfg" using en by (auto simp: segment_should_enable_def split: if_splits)
  obtain a b where p: "next_pending_from ?st (download_state_segment_count ?st) 0 = Some (a, b)"
    using next_pending_first [OF fit] dr by (cases "segment_chunk_range ?st 0") simp
  have ini: "download_state_init_chunks (j_state job) (ds_total_size (j_state job)) (sc_chunk_size cfg) = (0, ?st)"
    using t dr by (simp add: download_state_init_chunks_def clip_done_ranges_def)
  have nd: "\<not> download_state_all_chunks_done ?st"
    using dr by (simp add: download_state_all_chunks_done_def download_state_is_range_done_def)
  have "prepare_chunk_download (reset_for_run e cfg job) = (True, ?job\<lparr>j_active_range_start := a, j_active_range_end := b\<rparr>)"
    using t en ini nd p by (simp add: prepare_chunk_download_def next_pending_segment_def Let_def)
  then have s: "set_up e cfg job = ?job\<lparr>j_active_range_start := a, j_active_range_end := b, j_chunk_persisted := 0, j_current_url := j_url job\<rparr>"
    by (simp add: set_up_def reset_for_run_def mg_millis_def)
  have "unat (sc_concurrency cfg) \<le> 32" "0 < unat (sc_concurrency cfg)"
    using assms c by (simp_all add: ready_job_def word_le_nat_alt word_less_nat_alt)
  moreover from this(2) have "sc_concurrency cfg \<noteq> 0" by auto
  ultimately show ?thesis using assms fit dr by (simp add: s fresh_job_def ready_job_def)
qed

text \<open>The other way into segment mode: a stream that has not written anything when the size becomes known.\<close>

lemma switch_to_segments_fresh:
  assumes "apply_segment_mode job = (True, job')" "ds_done_ranges (j_state job) = []"
    "segments_fit ((j_state job)\<lparr>ds_chunk_size := (if sc_chunk_size (j_seg_cfg job) > 0 then sc_chunk_size (j_seg_cfg job) else DL_CHUNK_SIZE)\<rparr>)"
    "j_slots job = replicate k empty_slot" "0 < k" "k \<le> 32" "\<not> j_streaming job" "j_handed job = (\<lambda>_. None)" "j_log job = []"
  shows "fresh_job job'"
proof -
  have can: "can_enable_segment_mode job" using assms(1) by (auto simp: apply_segment_mode_def split: if_splits)
  then have en: "segment_should_enable (j_seg_cfg job) (ds_total_size (j_state job)) (j_use_ranges job)"
    by (auto simp: can_enable_segment_mode_def split: if_splits)
  then have "sc_concurrency (j_seg_cfg job) \<noteq> 0" by (auto simp: segment_should_enable_def split: if_splits)
  moreover have "ds_total_size (j_state job) \<noteq> 0" using assms(3) by (simp add: segments_fit_def)
  then have "job' = job\<lparr>j_state := (j_state job)\<lparr>ds_chunk_size := (if sc_chunk_size (j_seg_cfg job) > 0 then sc_chunk_size (j_seg_cfg job) else DL_CHUNK_SIZE)\<rparr>,
      j_segment_mode := True, j_step := DL_STEP_CHUNK\<rparr>"
    using assms(1,2) can by (simp add: apply_segment_mode_def download_state_init_chunks_def clip_done_ranges_def)
  ultimately show ?thesis using assms(2-9) by (simp add: fresh_job_def)
qed

lemma run_reaches:
  assumes "ready_job cfg job" "polls ua mg R e turns"
  shows "reaches ua mg R e (set_up e cfg job) (run_loop e turns (schedule_next e (set_up e cfg job)))"
proof -
  let ?j = "set_up e cfg job"
  have "?j\<lparr>j_schedule_deferred := False\<rparr> = ?j" using set_up_fresh [OF assms(1), of e] by simp
  then have "reaches ua mg R e ?j (schedule_next e ?j)"
    using reaches.step [OF reaches.start job_step.schedule, of ua mg R e ?j] by simp
  then show ?thesis using run_loop_reaches [OF assms(2)] reaches_trans by blast
qed

subsection \<open>Properties\<close>


text \<open>A job for eight bytes in two segments; the run is paused after two turns.\<close>

definition two_cfg :: DownloadSegmentConfig where
  "two_cfg = sample_cfg\<lparr>sc_enabled := True, sc_concurrency := 2, sc_chunk_size := 4, sc_min_file_size := 0\<rparr>"

definition prepared_job :: DownloadJob where
  "prepared_job = zero_job\<lparr>j_state := calloc_state\<lparr>ds_total_size := 8\<rparr>, j_use_ranges := True, j_url := ''http://h/f''\<rparr>"

definition quiet_turn :: turn where "quiet_turn = \<lparr>tn_cancel = False, tn_pause = False, tn_poll = (\<lambda>job. job)\<rparr>"

lemma prepared_ready: "ready_job two_cfg prepared_job"
  by (simp add: ready_job_def two_cfg_def prepared_job_def zero_job_def calloc_state_def segment_should_enable_def segments_fit_def
      effective_chunk_size_def sample_cfg_def) (simp add: word_le_nat_alt)


end
