(* ===== verification/Item_Start_Correct.thy ===== *)
theory Item_Start_Correct
  imports Item_Start
begin

text \<open>
  What the preparation of a download guarantees to the run, and what enqueueing does while another download runs.
\<close>

subsection \<open>Looking only\<close>

lemma load_url_files: "only_files P m (snd (download_item_load_url J E m iid))"
proof (cases "download_item_state_path J E m iid")
  case None
  then show ?thesis by (simp add: download_item_load_url_def download_item_state_load_def split: option.split)
next
  case (Some sp)
  obtain st m1 where l: "load_state J E m (Some sp) = (st, m1)" by fastforce
  then have "snd (download_item_load_url J E m iid) = m1" using Some
    by (simp add: download_item_load_url_def download_item_state_load_def split: option.split)
  then show ?thesis using load_state_files [OF l] by simp
qed

lemma resumable_files: "only_files P m (snd (resumable_loop J E url i n m))"
proof (induction n arbitrary: i m)
  case (Suc n)
  have "only_files P m (snd (resumable_loop J E url (Suc i) n (snd (download_item_load_url J E m iid))))" for iid
    using only_files_trans [OF load_url_files Suc] .
  then show ?case using Suc load_url_files by (auto simp: split_def Let_def split: option.split)
qed simp

text \<open>An id that was announced to the caller is not used when an unfinished item of the URL exists.\<close>

lemma announced_id_ignored:
  assumes "find_resumable_item_id J E m url = (Some found, m1)"
  shows "transient_item_id J E m url False preset = Some (Some found, m1)"
  using assms by (simp add: transient_item_id_def)

text \<open>While another download is in its scope, the segments of a new item cannot be stored, though the item was queued:
  the enqueueing fails and the item stays.\<close>

lemma segments_refused_in_other_scope:
  assumes "segment_urls \<noteq> []"
    and q: "download_enqueue_ex J E I e record_job m url queue name proxy_url (Some ''ts-sequence'') referer force_new_id = (Some EXIT_SUCCESS, Some iid, job, m1)"
    and sp: "download_item_state_path J E m1 iid = Some sp"
    and refused: "\<not> download_io_state_write_allowed (mg_scope m1) sp"
  shows "fst (download_enqueue_segments J E I e record_job m url queue name proxy_url referer segment_urls force_new_id) = Some EXIT_FAILURE"
proof -
  obtain st m2 where l: "load_state J E m1 (Some sp) = (st, m2)" by fastforce
  have "mg_scope m2 = mg_scope m1" using only_files_simps(5) [OF load_state_files [OF l]] .
  then have "fst (save_state J E m2 x (Some sp)) \<noteq> 0" for x
    using refused by (simp add: save_state_def download_state_save_def split_def)
  then show ?thesis using assms(1) q sp l by (auto simp: download_enqueue_segments_def split_def Let_def split: option.split)
qed

subsection \<open>What was prepared\<close>

lemma mg_millis_sel [simp]:
  "j_item_id (snd (mg_millis e job)) = j_item_id job" by (simp add: mg_millis_def)

lemma retry_state_sel:
  "j_item_id (load_job_retry_state e job) = j_item_id job" "j_url (load_job_retry_state e job) = j_url job"
  "j_filename (load_job_retry_state e job) = j_filename job" "j_temp_path (load_job_retry_state e job) = j_temp_path job"
  "j_dest_path (load_job_retry_state e job) = j_dest_path job" "j_state_path (load_job_retry_state e job) = j_state_path job"
  "j_state (load_job_retry_state e job) = j_state job" "j_log (load_job_retry_state e job) = j_log job"
  "j_handed (load_job_retry_state e job) = j_handed job" "j_use_ranges (load_job_retry_state e job) = j_use_ranges job"
  "j_streaming (load_job_retry_state e job) = j_streaming job"
  "j_schedule_deferred (load_job_retry_state e job) = j_schedule_deferred job"
  by (simp_all add: load_job_retry_state_def read_item_optional_uint32_def split: option.split)

definition new_job :: "string \<Rightarrow> string \<Rightarrow> cstring \<Rightarrow> cstring \<Rightarrow> cstring \<Rightarrow> cstring \<Rightarrow> DownloadJob \<Rightarrow> bool" where
  "new_job item_id url filename temp_path dest_path state_path job \<longleftrightarrow>
     j_item_id job = item_id \<and> j_url job = url \<and> j_filename job = filename \<and> j_temp_path job = temp_path
     \<and> j_dest_path job = dest_path \<and> j_state_path job = state_path \<and> j_use_ranges job \<and> \<not> j_streaming job
     \<and> \<not> j_schedule_deferred job \<and> j_handed job = (\<lambda>_. None) \<and> j_log job = []"

lemma job_of_state_new:
  "new_job item_id url filename temp_path dest_path state_path
     (job_of_state I e transient tick item_id url st filename temp_path dest_path state_path)"
  "\<exists>t. j_state (job_of_state I e transient tick item_id url st filename temp_path dest_path state_path)
     = st\<lparr>ds_last_try_at := t\<rparr>"
proof -
  show "new_job item_id url filename temp_path dest_path state_path
     (job_of_state I e transient tick item_id url st filename temp_path dest_path state_path)"
    by (cases transient) (simp_all add: job_of_state_def new_job_def retry_state_sel zero_job_def mg_millis_def Let_def)
  have "\<exists>t. (case it_now I tick of Some now \<Rightarrow> st\<lparr>ds_last_try_at := Some now\<rparr> | None \<Rightarrow> st) = st\<lparr>ds_last_try_at := t\<rparr>"
  proof (cases "it_now I tick")
    case None
    then show ?thesis by (intro exI [of _ "ds_last_try_at st"]) simp
  qed auto
  then show "\<exists>t. j_state (job_of_state I e transient tick item_id url st filename temp_path dest_path state_path)
     = st\<lparr>ds_last_try_at := t\<rparr>"
    by (cases transient) (simp_all add: job_of_state_def retry_state_sel mg_millis_def Let_def)
qed

lemma apply_proxy_sel [simp]:
  "ds_url (apply_proxy_to_state I st p) = ds_url st" "ds_queue_id (apply_proxy_to_state I st p) = ds_queue_id st"
  "ds_done_ranges (apply_proxy_to_state I st p) = ds_done_ranges st"
  "ds_total_size (apply_proxy_to_state I st p) = ds_total_size st"
  "ds_id (apply_proxy_to_state I st p) = ds_id st"
  by (simp_all add: apply_proxy_to_state_def Let_def)

lemma save_prepared_job:
  assumes "save_prepared J E I e transient m item_id url st filename temp_path dest_path state_path proxy = (PrepJob job, m')"
  shows "new_job item_id url filename temp_path dest_path state_path job" "filename \<noteq> None" "temp_path \<noteq> None" "dest_path \<noteq> None"
    "\<exists>t. j_state job = (apply_proxy_to_state I st proxy)\<lparr>ds_last_try_at := t\<rparr>"
    "mg_scope m' = download_io_scope_begin (Some item_id) (mg_scope m)"
    "only_files (\<lambda>p. \<exists>sp. state_path = Some sp \<and> written_files sp p) (begin_scope item_id m) m'"
    "save_state J E (begin_scope item_id m) (apply_proxy_to_state I st proxy) state_path = (0, m')"
proof -
  obtain rc m1 where s: "save_state J E (begin_scope item_id m) (apply_proxy_to_state I st proxy) state_path = (rc, m1)" by fastforce
  have r: "rc = 0" "filename \<noteq> None" "temp_path \<noteq> None" "dest_path \<noteq> None" "m' = m1"
    "job = job_of_state I e transient (mg_tick m1) item_id url (apply_proxy_to_state I st proxy) filename temp_path dest_path state_path"
    using assms s by (auto simp: save_prepared_def Let_def split: if_splits)
  show "new_job item_id url filename temp_path dest_path state_path job"
    "\<exists>t. j_state job = (apply_proxy_to_state I st proxy)\<lparr>ds_last_try_at := t\<rparr>"
    using job_of_state_new by (simp_all add: r(6))
  show "filename \<noteq> None" "temp_path \<noteq> None" "dest_path \<noteq> None" using r by auto
  show "only_files (\<lambda>p. \<exists>sp. state_path = Some sp \<and> written_files sp p) (begin_scope item_id m) m'"
    using save_state_files [OF s] r(5) by simp
  then show "mg_scope m' = download_io_scope_begin (Some item_id) (mg_scope m)"
    using only_files_simps(5) by (fastforce simp: begin_scope_def)
  show "save_state J E (begin_scope item_id m) (apply_proxy_to_state I st proxy) state_path = (0, m')" using s r(1,5) by simp
qed


lemma state_from_record_sel: "ds_done_ranges (state_from_record J I m i iid url job_dir dir) = []"
  by (simp add: state_from_record_def download_state_create_def calloc_state_def Let_def)

lemma state_with_url_sel:
  assumes "state_with_url st url = (url', st')" "is_valid_http_url url"
  shows "is_valid_http_url url'" "ds_done_ranges st' = ds_done_ranges st"
  using assms by (auto simp: state_with_url_def split: if_splits)

lemma valid_url_some: "is_valid_http_url url \<Longrightarrow> Some (the url) = url"
  by (cases url) (simp_all add: is_valid_http_url_def is_valid_url_def)

text \<open>The way \<open>prepare_item\<close> takes to a job.\<close>

lemma prepare_item_job:
  assumes "prepare_item J E I e m (Some iid) proxy force = (PrepJob job, m')"
  obtains i url m1 loaded m2 url' st sp where
    "item_index J m iid = Some i" "download_item_load_url J E m iid = (url, m1)" "is_valid_http_url url'"
    "force \<or> active_jobs_find m iid = None \<and> \<not> download_scheduler_spawn_blocked J m1 (item_field J m1 i ''status'') (item_field J m1 i ''queueId'')"
    "download_item_state_path J E m1 iid = Some sp" "load_state J E m1 (Some sp) = (loaded, m2)"
    "ds_done_ranges st = (case loaded of Some st \<Rightarrow> ds_done_ranges st | None \<Rightarrow> [])"
    "save_prepared J E I e False m2 iid (the url')
       (st\<lparr>ds_queue_id := (if non_empty (item_field J m1 i ''queueId'') then item_field J m1 i ''queueId'' else None)\<rparr>)
       (ds_filename st) (ds_temp_path st) (ds_dest_path st) (Some sp) proxy = (PrepJob job, m')"
proof -
  obtain i where i: "item_index J m iid = Some i" "force \<or> active_jobs_find m iid = None"
    using assms by (auto simp: prepare_item_def split: if_splits option.splits)
  obtain url m1 where u: "download_item_load_url J E m iid = (url, m1)" by fastforce
  have ok: "force \<or> \<not> download_scheduler_spawn_blocked J m1 (item_field J m1 i ''status'') (item_field J m1 i ''queueId'')"
    "is_valid_http_url url"
    using assms i u by (auto simp: prepare_item_def Let_def split: if_splits)
  obtain td dd where d: "default_temp_path J (me_getenv E) (mg_cfg m1) = Some td" "default_download_path J (me_getenv E) (mg_cfg m1) = Some dd"
    using assms i u ok by (auto simp: prepare_item_def Let_def split: if_splits option.splits)
  obtain jd sp where jd: "build_job_dir (Some td) iid = Some jd" "build_state_path (Some jd) = Some sp" "it_mkdir I jd"
    using assms i u ok d by (auto simp: prepare_item_def Let_def split: if_splits)
  obtain loaded m2 where l: "load_state J E m1 (Some sp) = (loaded, m2)" by fastforce
  obtain url' st where us: "(case loaded of Some st \<Rightarrow> state_with_url st url
      | None \<Rightarrow> (url, state_from_record J I m2 i iid url (Some jd) (Some dd))) = (url', st)" by fastforce
  have "save_prepared J E I e False m2 iid (the url')
       (st\<lparr>ds_queue_id := (if non_empty (item_field J m1 i ''queueId'') then item_field J m1 i ''queueId'' else None)\<rparr>)
       (ds_filename st) (ds_temp_path st) (ds_dest_path st) (Some sp) proxy = (PrepJob job, m')"
    using assms i u ok d jd l us by (auto simp: prepare_item_def Let_def split: if_splits)
  moreover have "is_valid_http_url url'" "ds_done_ranges st = (case loaded of Some st \<Rightarrow> ds_done_ranges st | None \<Rightarrow> [])"
    using us ok(2) state_with_url_sel by (auto simp: state_from_record_sel split: option.splits)
  moreover have "download_item_state_path J E m1 iid = Some sp" using d jd by (simp add: download_item_state_path_def)
  ultimately show ?thesis using that i u ok(1) l by blast
qed

text \<open>What a successful save left in the file.\<close>

lemma save_state_text:
  assumes "save_state J E m st (Some sp) = (0, m')"
  obtains tx where "cJSON_PrintUnformatted J (state_root J st) = Some tx" "mg_fs m' sp = Some \<lparr>f_text = tx, f_synced = True\<rparr>"
proof -
  obtain tr where w: "download_state_save J (download_io_state_write_allowed (mg_scope m)) (me_save E (mg_tick m)) st (Some sp) (mg_fs m) = (0, tr)"
    "mg_fs m' = last (mg_fs m # tr)"
    using assms by (auto simp: save_state_def with_fs_def split: prod.splits)
  from saved_text [OF w(1)] that w(2) show ?thesis by auto
qed

lemma same_tree_started:
  assumes "cfg_tree (mg_cfg m') = cfg_tree (mg_cfg m)"
  shows "queue_is_started J m' q = queue_is_started J m q"
proof -
  note c = same_tree_config [OF assms]
  have i: "queue_find_index J (mg_cfg m') f v = queue_find_index J (mg_cfg m) f v" for f v
    by (simp only: queue_find_index_def c(5,6))
  have "get_config_array_item J (mg_cfg m') k n = get_config_array_item J (mg_cfg m) k n" for k n
    using assms by (simp add: get_config_array_item_def)
  then have "get_config_array_item_json J (mg_cfg m') k n = get_config_array_item_json J (mg_cfg m) k n" for k n
    by (simp only: get_config_array_item_json_def)
  then have "take_object J (mg_cfg m') k n = take_object J (mg_cfg m) k n" for k n by (simp only: take_object_def)
  then show ?thesis by (simp only: queue_is_started_def i)
qed

lemma same_tree_blocked:
  "cfg_tree (mg_cfg m') = cfg_tree (mg_cfg m) \<Longrightarrow> download_scheduler_spawn_blocked J m' a b = download_scheduler_spawn_blocked J m a b"
  by (simp add: download_scheduler_spawn_blocked_def same_tree_started [of m' m])

subsection \<open>Properties\<close>

text \<open>C9. A job that was prepared for an item is ready to run: the item has a record, is not running and not blocked by its
  queue unless the start was forced, the URL is valid, no name is missing, the queue is that of the record, the progress
  is exactly that of the state file, and the state is saved, in the scope of the item, without touching any other file
  or any record.\<close>

theorem prepared_job_correct:
  assumes "state_readable J E" "prepare_item J E I e m (Some iid) proxy force = (PrepJob job, m')"
  shows "\<exists>i sp. item_index J m iid = Some i \<and> download_item_state_path J E m iid = Some sp
    \<and> (force \<or> active_jobs_find m iid = None
         \<and> \<not> download_scheduler_spawn_blocked J m (item_field J m i ''status'') (item_field J m i ''queueId''))
    \<and> j_item_id job = iid \<and> is_valid_http_url (Some (j_url job))
    \<and> j_filename job \<noteq> None \<and> j_temp_path job \<noteq> None \<and> j_dest_path job \<noteq> None \<and> j_state_path job = Some sp
    \<and> ds_queue_id (j_state job) = (if non_empty (item_field J m i ''queueId'') then item_field J m i ''queueId'' else None)
    \<and> ds_done_ranges (j_state job) = (case fst (load_state J E m (Some sp)) of Some st \<Rightarrow> ds_done_ranges st | None \<Rightarrow> [])
    \<and> (\<exists>st t tx. j_state job = st\<lparr>ds_last_try_at := t\<rparr> \<and> cJSON_PrintUnformatted J (state_root J st) = Some tx
         \<and> mg_fs m' sp = Some \<lparr>f_text = tx, f_synced = True\<rparr>)
    \<and> mg_scope m' = download_io_scope_begin (Some iid) (mg_scope m)
    \<and> items_of J m' = items_of J m \<and> (\<forall>p. \<not> written_files sp p \<longrightarrow> mg_fs m' p = mg_fs m p)"
proof -
  obtain i url m1 loaded m2 url' st sp where p: "item_index J m iid = Some i" "download_item_load_url J E m iid = (url, m1)" "is_valid_http_url url'"
    "force \<or> active_jobs_find m iid = None \<and> \<not> download_scheduler_spawn_blocked J m1 (item_field J m1 i ''status'') (item_field J m1 i ''queueId'')"
    "download_item_state_path J E m1 iid = Some sp" and l: "load_state J E m1 (Some sp) = (loaded, m2)"
    and dr: "ds_done_ranges st = (case loaded of Some st \<Rightarrow> ds_done_ranges st | None \<Rightarrow> [])"
    and s: "save_prepared J E I e False m2 iid (the url')
       (st\<lparr>ds_queue_id := (if non_empty (item_field J m1 i ''queueId'') then item_field J m1 i ''queueId'' else None)\<rparr>)
       (ds_filename st) (ds_temp_path st) (ds_dest_path st) (Some sp) proxy = (PrepJob job, m')"
    using prepare_item_job [OF assms(2)] by metis
  have f1: "only_files (\<lambda>_. False) m m1" using load_url_files [where P = "\<lambda>_. False" and J = J and E = E and m = m and iid = iid] p(2) by simp
  have f12: "only_files (\<lambda>_. False) m m2" by (rule only_files_trans [OF f1 load_state_files [OF l]])
  note j = save_prepared_job [OF s]
  have f3: "only_files (written_files sp) (begin_scope iid m2) m'" using j(7) by simp
  note c1 = same_tree_config [OF only_files_simps(1) [OF f1]]
  note blocked = same_tree_blocked [OF only_files_simps(1) [OF f1]]
  have loaded: "loaded = fst (load_state J E m (Some sp))"
    using load_state_same [OF assms(1) only_files_at [OF f1], of sp] l by simp
  have "cfg_tree (mg_cfg m') = cfg_tree (mg_cfg m)"
    using only_files_simps(1) [OF f3] only_files_simps(1) [OF f12] by (simp add: begin_scope_def)
  note items = same_tree_config(2) [OF this]
  obtain t where t: "j_state job = (apply_proxy_to_state I (st\<lparr>ds_queue_id := (if non_empty (item_field J m1 i ''queueId'') then item_field J m1 i ''queueId'' else None)\<rparr>) proxy)\<lparr>ds_last_try_at := t\<rparr>"
    using j(5) by blast
  obtain tx where tx: "cJSON_PrintUnformatted J (state_root J (apply_proxy_to_state I
      (st\<lparr>ds_queue_id := (if non_empty (item_field J m1 i ''queueId'') then item_field J m1 i ''queueId'' else None)\<rparr>) proxy)) = Some tx"
    "mg_fs m' sp = Some \<lparr>f_text = tx, f_synced = True\<rparr>"
    using save_state_text [OF j(8)] by blast
  have files: "mg_fs m' p = mg_fs m p" if "\<not> written_files sp p" for p
    using only_files_at [OF f3 that] only_files_at [OF f12, of p] by (simp add: begin_scope_def)
  show ?thesis
  proof (intro exI [of _ i] exI [of _ sp] conjI)
    show "download_item_state_path J E m iid = Some sp" using p(5) state_path_same [OF only_files_simps(1) [OF f1]] by simp
    show "force \<or> active_jobs_find m iid = None \<and> \<not> download_scheduler_spawn_blocked J m (item_field J m i ''status'') (item_field J m i ''queueId'')"
      using p(4) by (simp only: blocked c1(5))
    show "is_valid_http_url (Some (j_url job))" using p(3) j(1) by (simp add: new_job_def valid_url_some)
    show "\<exists>st t tx. j_state job = st\<lparr>ds_last_try_at := t\<rparr> \<and> cJSON_PrintUnformatted J (state_root J st) = Some tx
         \<and> mg_fs m' sp = Some \<lparr>f_text = tx, f_synced = True\<rparr>" using t tx by blast
    show "mg_scope m' = download_io_scope_begin (Some iid) (mg_scope m)" using j(6) only_files_simps(5) [OF f12] by simp
    show "\<forall>p. \<not> written_files sp p \<longrightarrow> mg_fs m' p = mg_fs m p" using files by blast
    show "ds_queue_id (j_state job) = (if non_empty (item_field J m i ''queueId'') then item_field J m i ''queueId'' else None)"
      by (simp add: t c1(5))
    show "ds_done_ranges (j_state job) = (case fst (load_state J E m (Some sp)) of Some st \<Rightarrow> ds_done_ranges st | None \<Rightarrow> [])"
      by (simp add: t dr loaded)
  qed (use p j items in \<open>simp_all add: new_job_def\<close>)
qed


text \<open>An item with two finished ranges, to be started by its id.\<close>

definition start_env :: "json_value manager_env" where
  "start_env = sample_manager_env\<lparr>me_getenv := (\<lambda>k. if k = ''avar.dm.tempPath'' then Some ''/t''
     else if k = ''avar.dm.downloadPath'' then Some ''/d'' else None)\<rparr>"

definition start_state :: DownloadState where
  "start_state = State_File.sample_state\<lparr>ds_temp_path := Some ''/t/a/f''\<rparr>"

definition start_manager :: "(json_value, json_value) manager" where
  "start_manager = with_fs [''/t/a/state.json'' \<mapsto> \<lparr>f_text = state_root sample_cjson start_state, f_synced = True\<rparr>] sample_manager"

lemma start_state_loadable: "loadable start_state"
  using State_File.sample_state_loadable
  by (simp add: loadable_def state_wf_def state_numbers_small_def start_state_def State_File.sample_state_def)

lemma start_load:
  "\<exists>cap. fst (load_state sample_cjson start_env start_manager (Some ''/t/a/state.json''))
     = Some ((with_default_origin start_state)\<lparr>ds_done_range_capacity := cap\<rparr>)"
  using load_of_text [OF sample_cjson_laws start_state_loadable, of "state_root sample_cjson start_state" "\<lambda>_. False" "mg_fs start_manager" "''/t/a/state.json''"]
  by (simp add: load_state_def start_env_def sample_manager_env_def start_manager_def sample_cjson_def with_fs_def)

lemma start_paths:
  "default_temp_path sample_cjson (me_getenv start_env) cfg = Some ''/t''"
  "default_download_path sample_cjson (me_getenv start_env) cfg = Some ''/d''"
  by (simp_all add: default_temp_path_def default_download_path_def get_config_def get_config_from_env_def start_env_def)

lemma start_reads: "state_readable sample_cjson start_env"
  by (simp add: state_readable_def start_env_def sample_manager_env_def)

lemma start_saves:
  assumes "mg_scope m1 = mg_scope sample_manager"
  shows "fst (save_state sample_cjson start_env (begin_scope ''a'' m1) st (Some ''/t/a/state.json'')) = 0"
proof -
  have "cJSON_PrintUnformatted sample_cjson x = Some x" for x by (simp add: sample_cjson_def)
  moreover have "download_io_state_write_allowed (mg_scope (begin_scope ''a'' m1)) ''/t/a/state.json''"
  proof -
    have "mg_scope (begin_scope ''a'' m1) = \<lparr>g_download_io_scope = True, g_download_io_item_id = ''a'', g_download_io_scope_count = 1\<rparr>"
      by (simp add: begin_scope_def assms sample_manager_def download_io_scope_begin_def)
    moreover have "download_io_state_write_allowed \<lparr>g_download_io_scope = True, g_download_io_item_id = ''a'',
        g_download_io_scope_count = 1\<rparr> ''/t/a/state.json''" by code_simp
    ultimately show ?thesis by simp
  qed
  moreover have "me_save start_env n = sample_save_io" for n by (simp add: start_env_def sample_manager_env_def)
  ultimately show ?thesis
    by (simp add: save_state_def download_state_save_def replace_via_temp_def sample_save_io_def split_def Let_def)
qed


lemma start_job:
  "\<exists>job m'. prepare_item sample_cjson start_env demo_answers sample_env start_manager (Some ''a'') None False = (PrepJob job, m')"
proof -
  let ?J = sample_cjson and ?E = start_env
  have tree: "cfg_tree (mg_cfg start_manager) = cfg_tree (mg_cfg sample_manager)" by (simp add: start_manager_def with_fs_def)
  have i: "item_index ?J start_manager ''a'' = Some 0"
    using item_index_records [OF sample_cjson_laws, of "mg_cfg sample_manager" "''a''" True] same_tree_config(7) [OF tree]
    by (simp add: sample_records sample_fields)
  have sp: "download_item_state_path ?J ?E start_manager ''a'' = Some ''/t/a/state.json''"
    by (simp add: download_item_state_path_def start_paths build_job_dir_def build_state_path_def path_join_def Let_def)
  obtain cap m1 where l: "load_state ?J ?E start_manager (Some ''/t/a/state.json'')
      = (Some ((with_default_origin start_state)\<lparr>ds_done_range_capacity := cap\<rparr>), m1)"
    using start_load by (metis prod.collapse)
  have url: "ds_url (with_default_origin start_state) = Some ''http://h/f''"
    by (simp add: with_default_origin_def start_state_def State_File.sample_state_def calloc_state_def)
  have u: "download_item_load_url ?J ?E start_manager ''a'' = (Some ''http://h/f'', m1)"
    using l sp url by (simp add: download_item_load_url_def download_item_state_load_def non_empty_def)
  have valid: "is_valid_http_url (Some ''http://h/f'')" by code_simp
  have f1: "only_files (\<lambda>_. False) start_manager m1" by (rule load_state_files [OF l])
  obtain m2 where l2: "load_state ?J ?E m1 (Some ''/t/a/state.json'')
      = (Some ((with_default_origin start_state)\<lparr>ds_done_range_capacity := cap\<rparr>), m2)"
    using load_state_same [OF start_reads only_files_at [OF f1], of "''/t/a/state.json''"] l by (metis fst_conv prod.collapse)
  have st: "item_field ?J m1 0 ''status'' = Some ''downloading''"
    using array_field_records [OF sample_cjson_laws, of "mg_cfg sample_manager" dm_items 0 "''status''"]
      same_tree_config(5) [OF only_files_simps(1) [OF f1]] same_tree_config(5) [OF tree]
    by (simp add: sample_records sample_fields)
  have a: "active_jobs_find start_manager ''a'' = None"
    by (simp add: active_jobs_find_def start_manager_def with_fs_def sample_manager_def)
  have f2: "only_files (\<lambda>_. False) m1 m2" by (rule load_state_files [OF l2])
  have sc: "mg_scope m2 = mg_scope sample_manager"
    using only_files_simps(5) [OF f1] only_files_simps(5) [OF f2] by (simp add: start_manager_def with_fs_def)
  have names: "ds_temp_path (with_default_origin start_state) = Some ''/t/a/f''" "ds_filename (with_default_origin start_state) = Some ''f''"
    "ds_dest_path (with_default_origin start_state) = Some ''/d/f''"
    by (simp_all add: with_default_origin_def start_state_def State_File.sample_state_def calloc_state_def)
  have paths: "build_job_dir (Some ''/t'') ''a'' = Some ''/t/a''" "build_state_path (Some ''/t/a'') = Some ''/t/a/state.json''"
    by (simp_all add: build_job_dir_def build_state_path_def path_join_def Let_def)
  have prep: "prepare_item ?J ?E demo_answers sample_env start_manager (Some ''a'') None False
     = save_prepared ?J ?E demo_answers sample_env False m2 ''a'' ''http://h/f''
         (((with_default_origin start_state)\<lparr>ds_done_range_capacity := cap\<rparr>)\<lparr>ds_queue_id :=
            (if non_empty (item_field ?J m1 0 ''queueId'') then item_field ?J m1 0 ''queueId'' else None)\<rparr>)
         (Some ''f'') (Some ''/t/a/f'') (Some ''/d/f'') (Some ''/t/a/state.json'') None"
    using i u valid start_paths paths l2 names url
    st a
    by (simp add: prepare_item_def download_scheduler_spawn_blocked_def state_with_url_def non_empty_def demo_answers_def)
  show ?thesis unfolding prep save_prepared_def Let_def using start_saves [OF sc] by (simp add: split_def)
qed


theorem prepared_job_correct_witness:
  "\<exists>job m'. prepare_item sample_cjson start_env demo_answers sample_env start_manager (Some ''a'') None False = (PrepJob job, m')
     \<and> j_item_id job = ''a'' \<and> j_state_path job = Some ''/t/a/state.json''
     \<and> ds_done_ranges (j_state job) = [\<lparr>br_start = 0, br_end = 9\<rparr>, \<lparr>br_start = 20, br_end = 29\<rparr>]"
proof -
  obtain job m' where r: "prepare_item sample_cjson start_env demo_answers sample_env start_manager (Some ''a'') None False = (PrepJob job, m')"
    using start_job by blast
  have "download_item_state_path sample_cjson start_env start_manager ''a'' = Some ''/t/a/state.json''"
    by (simp add: download_item_state_path_def start_paths build_job_dir_def build_state_path_def path_join_def Let_def)
  moreover have "(case fst (load_state sample_cjson start_env start_manager (Some ''/t/a/state.json'')) of Some st \<Rightarrow> ds_done_ranges st | None \<Rightarrow> [])
      = [\<lparr>br_start = 0, br_end = 9\<rparr>, \<lparr>br_start = 20, br_end = 29\<rparr>]"
    using start_load by (auto simp: with_default_origin_def start_state_def State_File.sample_state_def)
  ultimately show ?thesis using prepared_job_correct [OF start_reads r] r by auto
qed

end
