(* ===== verification/Record_Store.thy ===== *)
theory Record_Store
  imports Prelude
begin

text \<open>
  The interface of a store of records: a state with a list of records, and operations that either do to the list
  what their specification says or leave it alone.  The configuration and the file of the bookmarks are two of them;
  what follows from the contract for sequences of operations is proved here once.
\<close>

text \<open>The operations of a sequence that were applied.\<close>

fun applied_ops :: "('o \<Rightarrow> 's \<Rightarrow> 's) \<Rightarrow> ('o \<Rightarrow> 's \<Rightarrow> bool) \<Rightarrow> 'o list \<Rightarrow> 's \<Rightarrow> 'o list" where
  "applied_ops run applied [] s = []"
| "applied_ops run applied (opn # ops) s = (if applied opn s then [opn] else []) @ applied_ops run applied ops (run opn s)"

locale record_store =
  fixes good :: "'s \<Rightarrow> bool" and contents :: "'s \<Rightarrow> 'r list" and allowed :: "'o \<Rightarrow> bool"
    and run :: "'o \<Rightarrow> 's \<Rightarrow> 's" and applied :: "'o \<Rightarrow> 's \<Rightarrow> bool" and spec :: "'o \<Rightarrow> 'r list \<Rightarrow> 'r list"
  assumes stays_good: "good s \<Longrightarrow> allowed opn \<Longrightarrow> good (run opn s)"
    and effect: "good s \<Longrightarrow> allowed opn \<Longrightarrow> contents (run opn s) = (if applied opn s then spec opn (contents s) else contents s)"
begin

lemma run_all_good: "good s \<Longrightarrow> \<forall>opn\<in>set ops. allowed opn \<Longrightarrow> good (fold run ops s)"
  by (induction ops arbitrary: s) (auto simp: stays_good)

text \<open>What every specification keeps, every sequence of operations keeps.\<close>

lemma kept:
  assumes "\<And>opn xs. allowed opn \<Longrightarrow> P xs \<Longrightarrow> P (spec opn xs)"
  shows "good s \<Longrightarrow> \<forall>opn\<in>set ops. allowed opn \<Longrightarrow> P (contents s) \<Longrightarrow> P (contents (fold run ops s))"
proof (induction ops arbitrary: s)
  case (Cons opn ops)
  have "P (contents (run opn s))" using Cons.prems assms effect [of s opn] by simp
  then show ?case using Cons stays_good by simp
qed simp

text \<open>The list is that of the specifications of those operations that were applied, in their order.\<close>

lemma contents_run:
  "good s \<Longrightarrow> \<forall>opn\<in>set ops. allowed opn \<Longrightarrow> contents (fold run ops s) = fold spec (applied_ops run applied ops s) (contents s)"
  by (induction ops arbitrary: s) (auto simp: stays_good effect)

lemma contents_run_all:
  assumes "good s" "\<forall>opn\<in>set ops. allowed opn" "\<And>opn s. applied opn s"
  shows "contents (fold run ops s) = fold spec ops (contents s)"
proof -
  have "applied_ops run applied ops s = ops" for s by (induction ops arbitrary: s) (simp_all add: assms(3))
  then show ?thesis using contents_run [OF assms(1,2)] by simp
qed

end

end
