(* ===== verification/Config_Store.thy ===== *)
theory Config_Store
  imports Config_Correct Record_Store
begin

text \<open>
  An array of the configuration as a store of records: the contract of \<open>Record_Store\<close> for the array operations of
  \<^verbatim>\<open>src/src/config.c\<close>.  The tree in memory changes also when the file could not be written.
\<close>

definition config_store_good :: "('j, 't) cjson \<Rightarrow> string \<Rightarrow> ('j, 't) ConfigContext \<Rightarrow> bool" where
  "config_store_good J key cfg \<longleftrightarrow> cjson_laws J \<and> config_good J cfg \<and> valid_key (split_dots key)"

definition config_op_fine :: "('j, 't) cjson \<Rightarrow> 't save_io \<times> 't array_op \<Rightarrow> bool" where
  "config_op_fine J p \<longleftrightarrow> (case op_object J (snd p) of None \<Rightarrow> True | Some x \<Rightarrow> json_good J x)"

definition after_config_op :: "('j, 't) cjson \<Rightarrow> string \<Rightarrow> 't save_io \<times> 't array_op \<Rightarrow> ('j, 't) ConfigContext \<Rightarrow> ('j, 't) ConfigContext" where
  "after_config_op J key p cfg = snd (run_array_op J (fst p) cfg key (snd p))"

lemma after_config_op_refines:
  assumes "config_store_good J key cfg" "config_op_fine J p"
  shows "refines_list J cfg key (snd p) (after_config_op J key p cfg)"
proof -
  have "\<And>x. op_object J (snd p) = Some x \<Longrightarrow> json_good J x" using assms(2) by (simp add: config_op_fine_def)
  moreover obtain rc where "run_array_op J (fst p) cfg key (snd p) = (rc, after_config_op J key p cfg)"
    by (metis after_config_op_def prod.collapse)
  ultimately show ?thesis using run_array_op_refines [of J cfg key "snd p"] assms(1) by (simp add: config_store_good_def)
qed

interpretation config_store: record_store "config_store_good J key" "\<lambda>cfg. records J cfg key" "config_op_fine J" "after_config_op J key"
  "\<lambda>p cfg. True" "\<lambda>p. list_op J (snd p)" for J key
proof
  show "config_store_good J key (after_config_op J key p s)" if "config_store_good J key s" "config_op_fine J p" for s p
    using after_config_op_refines [OF that] that(1) by (simp add: refines_list_def config_store_good_def)
  show "records J (after_config_op J key p s) key = (if True then list_op J (snd p) (records J s key) else records J s key)"
    if "config_store_good J key s" "config_op_fine J p" for s p
    using after_config_op_refines [OF that] by (simp add: refines_list_def)
qed

text \<open>A sequence of operations on an array is the sequence of the operations on the list of its records.\<close>

lemma array_sequence_refines_list:
  "config_store_good J key cfg \<Longrightarrow> \<forall>p\<in>set ops. config_op_fine J p \<Longrightarrow>
   records J (fold (after_config_op J key) ops cfg) key = fold (\<lambda>p. list_op J (snd p)) ops (records J cfg key)"
  by (rule config_store.contents_run_all) simp_all

end
