(* ===== verification/Bookmarks.thy ===== *)
theory Bookmarks
  imports Items
begin

text \<open>
  The bookmarks, \<^verbatim>\<open>src/src/bookmark.c\<close>: a file of its own with an array of objects.  Every
  operation reads the whole file, changes the tree and replaces the file (\<open>replace_via_move\<close> of the theory
  \<open>Files\<close>).  A bookmark is added or, when its URL is there, updated.
\<close>

subsection \<open>The file\<close>

text \<open>How reading the file goes: \<open>CannotRead\<close> when it cannot be opened or measured, \<open>ReadPart\<close> when fewer
  bytes are read than the file has.\<close>

datatype 't read_answer = CannotRead | NoMemory | ReadWhole | ReadPart 't

record 't bookmark_io =
  bi_read :: "'t read_answer"
  bi_dirs :: bool
  bi_save :: "'t save_io \<times> 't move_io"
  bi_now :: nat

datatype BookmarkError = BookmarkErrorNone | BookmarkErrorNotFound | BookmarkErrorInvalidArg | BookmarkErrorPersist

text \<open>\<open>dir\<close> is the directory of the configuration.\<close>

definition resolve_bookmarks_path ::
  "('j, 't) cjson \<Rightarrow> (string \<Rightarrow> cstring) \<Rightarrow> ('j, 't) ConfigContext \<Rightarrow> cstring \<Rightarrow> cstring" where
  "resolve_bookmarks_path J getenv cfg dir =
     (case get_config J getenv cfg ''bookmarks.file.path'' of
        Some (c # cs) \<Rightarrow> Some (c # cs)
      | _ \<Rightarrow> map_option (\<lambda>d. d @ ''/bookmarks.json'') dir)"

definition load_bookmarks_file :: "('j, 't) cjson \<Rightarrow> 't read_answer \<Rightarrow> string \<Rightarrow> 't fs \<Rightarrow> 'j option" where
  "load_bookmarks_file J ans path fs =
     (case fs path of None \<Rightarrow> Some (cJSON_CreateObject J)
      | Some f \<Rightarrow>
          (case ans of CannotRead \<Rightarrow> Some (cJSON_CreateObject J)
           | NoMemory \<Rightarrow> None
           | _ \<Rightarrow> (case cJSON_Parse J (case ans of ReadPart t \<Rightarrow> t | _ \<Rightarrow> f_text f) of
                     None \<Rightarrow> Some (cJSON_CreateObject J)
                   | Some tree \<Rightarrow> Some (if cJSON_IsObject J tree then tree else cJSON_CreateObject J))))"

definition persist_bookmarks_file :: "('j, 't) cjson \<Rightarrow> 't bookmark_io \<Rightarrow> string \<Rightarrow> 'j \<Rightarrow> 't fs \<Rightarrow> int \<times> 't fs list" where
  "persist_bookmarks_file J io path tree fs =
     (if strrchr path CHR ''/'' \<noteq> None \<and> \<not> bi_dirs io then (-1, [])
      else case cJSON_Print J tree of None \<Rightarrow> (-1, [])
           | Some json \<Rightarrow> replace_via_move ''.tmp'' (bi_save io) path json fs)"

definition load_bookmarks_root :: "('j, 't) cjson \<Rightarrow> 't bookmark_io \<Rightarrow> cstring \<Rightarrow> 't fs \<Rightarrow> 'j option" where
  "load_bookmarks_root J io path fs = (case path of None \<Rightarrow> None | Some p \<Rightarrow> load_bookmarks_file J (bi_read io) p fs)"

definition save_bookmarks_root :: "('j, 't) cjson \<Rightarrow> 't bookmark_io \<Rightarrow> cstring \<Rightarrow> 'j \<Rightarrow> 't fs \<Rightarrow> int \<times> 't fs list" where
  "save_bookmarks_root J io path tree fs =
     (case path of None \<Rightarrow> (-1, []) | Some p \<Rightarrow> persist_bookmarks_file J io p tree fs)"

subsection \<open>The tree\<close>

text \<open>The array under \<open>bookmarks\<close>, made when it is missing, and the tree with it.\<close>

definition bookmarks_array :: "('j, 't) cjson \<Rightarrow> 'j \<Rightarrow> 'j \<times> 'j" where
  "bookmarks_array J tree =
     (case cJSON_GetObjectItemCaseSensitive J tree ''bookmarks'' of
        None \<Rightarrow> (cJSON_CreateArray J, cJSON_AddItemToObject J tree ''bookmarks'' (cJSON_CreateArray J))
      | Some a \<Rightarrow> if cJSON_IsArray J a then (a, tree)
                  else (cJSON_CreateArray J, cJSON_ReplaceItemInObjectCaseSensitive J tree ''bookmarks'' (cJSON_CreateArray J)))"

text \<open>The tree after its array was changed in place.\<close>

definition with_array :: "('j, 't) cjson \<Rightarrow> 'j \<Rightarrow> 'j \<Rightarrow> 'j" where
  "with_array J tree a = cJSON_ReplaceItemInObjectCaseSensitive J tree ''bookmarks'' a"

definition generate_bookmark_id :: "nat \<Rightarrow> string" where
  "generate_bookmark_id now = take 63 (''bm'' @ show_nat now)"

definition string_member :: "('j, 't) cjson \<Rightarrow> string \<Rightarrow> 'j \<Rightarrow> cstring" where
  "string_member J field entry =
     (case cJSON_GetObjectItemCaseSensitive J entry field of None \<Rightarrow> None
      | Some c \<Rightarrow> if cJSON_IsString J c then valuestring J c else None)"

definition find_bookmark_index_by_field :: "('j, 't) cjson \<Rightarrow> 'j \<Rightarrow> string \<Rightarrow> string \<Rightarrow> nat option" where
  "find_bookmark_index_by_field J a field v =
     (if \<not> cJSON_IsArray J a then None
      else index_loop (\<lambda>i. case cJSON_GetArrayItem J a i of None \<Rightarrow> None | Some entry \<Rightarrow> string_member J field entry)
             v 0 (cJSON_GetArraySize J a))"

definition update_bookmark :: "('j, 't) cjson \<Rightarrow> string \<Rightarrow> u32 \<Rightarrow> nat \<Rightarrow> 'j \<Rightarrow> 'j" where
  "update_bookmark J title link_count now entry =
     (let entry = cJSON_ReplaceItemInObjectCaseSensitive J entry ''title'' (cJSON_CreateString J title);
          entry = cJSON_ReplaceItemInObjectCaseSensitive J entry ''linkCount'' (cJSON_CreateNumber J (of_nat (unat link_count)))
      in cJSON_ReplaceItemInObjectCaseSensitive J entry ''updatedAt'' (cJSON_CreateNumber J (of_nat now)))"

definition new_bookmark :: "('j, 't) cjson \<Rightarrow> string \<Rightarrow> string \<Rightarrow> u32 \<Rightarrow> nat \<Rightarrow> 'j" where
  "new_bookmark J url title link_count now =
     (let entry = cJSON_CreateObject J;
          entry = cJSON_AddStringToObject J entry ''id'' (generate_bookmark_id now);
          entry = cJSON_AddStringToObject J entry ''url'' url;
          entry = cJSON_AddStringToObject J entry ''title'' title;
          entry = cJSON_AddNumberToObject J entry ''linkCount'' (of_nat (unat link_count));
          entry = cJSON_AddNumberToObject J entry ''createdAt'' (of_nat now)
      in cJSON_AddNumberToObject J entry ''updatedAt'' (of_nat now))"

subsection \<open>The operations\<close>

text \<open>Each gives the states of the file system it passes through.\<close>

definition bookmark_has_url :: "('j, 't) cjson \<Rightarrow> 't bookmark_io \<Rightarrow> cstring \<Rightarrow> cstring \<Rightarrow> 't fs \<Rightarrow> bool" where
  "bookmark_has_url J io path url fs =
     (if url = None \<or> url = Some [] then False
      else case load_bookmarks_root J io path fs of None \<Rightarrow> False
           | Some tree \<Rightarrow>
               (case cJSON_GetObjectItemCaseSensitive J tree ''bookmarks'' of None \<Rightarrow> False
                | Some a \<Rightarrow> cJSON_IsArray J a \<and> find_bookmark_index_by_field J a ''url'' (the url) \<noteq> None))"

definition saved :: "int \<times> 't fs list \<Rightarrow> BookmarkError \<times> 't fs list" where
  "saved r = (if fst r = 0 then BookmarkErrorNone else BookmarkErrorPersist, snd r)"

definition bookmark_add ::
  "('j, 't) cjson \<Rightarrow> 't bookmark_io \<Rightarrow> cstring \<Rightarrow> cstring \<Rightarrow> cstring \<Rightarrow> u32 \<Rightarrow> 't fs \<Rightarrow> BookmarkError \<times> cstring \<times> 't fs list" where
  "bookmark_add J io path url title link_count fs =
     (if url = None \<or> url = Some [] then (BookmarkErrorInvalidArg, None, [])
      else case load_bookmarks_root J io path fs of None \<Rightarrow> (BookmarkErrorPersist, None, [])
           | Some tree \<Rightarrow>
               let (a, tree) = bookmarks_array J tree; title = (case title of None \<Rightarrow> [] | Some t \<Rightarrow> t)
               in (case find_bookmark_index_by_field J a ''url'' (the url) of
                     Some i \<Rightarrow>
                       let a = (case cJSON_GetArrayItem J a i of None \<Rightarrow> a
                                | Some entry \<Rightarrow> cJSON_ReplaceItemInArray J a i (update_bookmark J title link_count (bi_now io) entry));
                           (rc, steps) = saved (save_bookmarks_root J io path (with_array J tree a) fs)
                       in (rc, None, steps)
                   | None \<Rightarrow>
                       let a = cJSON_AddItemToArray J a (new_bookmark J (the url) title link_count (bi_now io));
                           (rc, steps) = saved (save_bookmarks_root J io path (with_array J tree a) fs)
                       in (rc, Some (generate_bookmark_id (bi_now io)), steps)))"

definition bookmark_remove ::
  "('j, 't) cjson \<Rightarrow> 't bookmark_io \<Rightarrow> cstring \<Rightarrow> cstring \<Rightarrow> bool \<Rightarrow> 't fs \<Rightarrow> BookmarkError \<times> 't fs list" where
  "bookmark_remove J io path id_or_url by_url fs =
     (if id_or_url = None \<or> id_or_url = Some [] then (BookmarkErrorInvalidArg, [])
      else case load_bookmarks_root J io path fs of None \<Rightarrow> (BookmarkErrorPersist, [])
           | Some tree \<Rightarrow>
               let (a, tree) = bookmarks_array J tree
               in (case find_bookmark_index_by_field J a (if by_url then ''url'' else ''id'') (the id_or_url) of
                     None \<Rightarrow> (BookmarkErrorNotFound, [])
                   | Some i \<Rightarrow> saved (save_bookmarks_root J io path (with_array J tree (cJSON_DeleteItemFromArray J a i)) fs)))"

definition bookmark_count :: "('j, 't) cjson \<Rightarrow> 't bookmark_io \<Rightarrow> cstring \<Rightarrow> 't fs \<Rightarrow> nat" where
  "bookmark_count J io path fs =
     (case load_bookmarks_root J io path fs of None \<Rightarrow> 0
      | Some tree \<Rightarrow>
          (case cJSON_GetObjectItemCaseSensitive J tree ''bookmarks'' of None \<Rightarrow> 0
           | Some a \<Rightarrow> if cJSON_IsArray J a then cJSON_GetArraySize J a else 0))"

definition bookmark_list_json :: "('j, 't) cjson \<Rightarrow> 't bookmark_io \<Rightarrow> cstring \<Rightarrow> 't fs \<Rightarrow> 't option" where
  "bookmark_list_json J io path fs =
     (case load_bookmarks_root J io path fs of None \<Rightarrow> None
      | Some tree \<Rightarrow> cJSON_PrintUnformatted J (fst (bookmarks_array J tree)))"

end
