(* ===== verification/Bookmarks_Correct.thy ===== *)
theory Bookmarks_Correct
  imports Bookmarks Record_Store
begin

text \<open>
  The bookmarks refine a list: what adding and removing do, that the URLs stay distinct, that a failed or interrupted
  operation leaves the file as it was.
\<close>

subsection \<open>The stored list\<close>

definition stored_tree :: "('j, 't) cjson \<Rightarrow> string \<Rightarrow> 't fs \<Rightarrow> 'j" where
  "stored_tree J path fs = the (load_bookmarks_file J ReadWhole path fs)"

definition items_in :: "('j, 't) cjson \<Rightarrow> 'j \<Rightarrow> 'j list" where
  "items_in J tree = (case get_member J tree ''bookmarks'' of None \<Rightarrow> []
     | Some a \<Rightarrow> if cJSON_IsArray J a then json_items J a else [])"

definition bookmarks_of :: "('j, 't) cjson \<Rightarrow> string \<Rightarrow> 't fs \<Rightarrow> 'j list" where
  "bookmarks_of J path fs = items_in J (stored_tree J path fs)"

definition store_good :: "('j, 't) cjson \<Rightarrow> string \<Rightarrow> 't fs \<Rightarrow> bool" where
  "store_good J path fs \<longleftrightarrow> cjson_laws J \<and> json_good J (stored_tree J path fs)"

definition has_member :: "('j, 't) cjson \<Rightarrow> string \<Rightarrow> string \<Rightarrow> 'j \<Rightarrow> bool" where
  "has_member J field v entry \<longleftrightarrow> string_member J field entry = Some v"

lemma load_whole: "load_bookmarks_file J ReadWhole path fs = Some (stored_tree J path fs)"
  by (simp add: stored_tree_def load_bookmarks_file_def split: option.split)

lemma stored_object:
  assumes "store_good J path fs"
  shows "good_object J (stored_tree J path fs)"
  using assms json_good_created(1) by (auto simp: store_good_def good_object_def stored_tree_def load_bookmarks_file_def
      cJSON_IsObject_def split: option.split)

lemma array_of_tree:
  assumes J: "cjson_laws J" and g: "good_object J tree" and a: "bookmarks_array J tree = (a, tree')"
  shows "cJSON_type J a = cJSON_Array" "json_good J a" "good_object J tree'" "get_member J tree' ''bookmarks'' = Some a"
    "json_items J a = items_in J tree"
proof -
  note ca = json_good_created(2) [OF J]
  have "cJSON_type J a = cJSON_Array \<and> json_good J a \<and> good_object J tree' \<and> get_member J tree' ''bookmarks'' = Some a
    \<and> json_items J a = items_in J tree"
  proof (cases "get_member J tree ''bookmarks''")
    case None
    then show ?thesis using a add_member [OF J g ca None] ca J by (auto simp: bookmarks_array_def items_in_def)
  next
    case (Some x)
    then show ?thesis using a replace_member [OF J g ca, of "''bookmarks''"] good_object_member [OF J g Some] ca J g
      by (auto simp: bookmarks_array_def items_in_def cJSON_IsArray_def split: if_splits)
  qed
  then show "cJSON_type J a = cJSON_Array" "json_good J a" "good_object J tree'" "get_member J tree' ''bookmarks'' = Some a"
    "json_items J a = items_in J tree" by auto
qed

lemma find_bookmark:
  assumes "cJSON_type J a = cJSON_Array"
  shows "find_bookmark_index_by_field J a field v = first_match (has_member J field v) (json_items J a)"
proof -
  have "index_loop (\<lambda>i. case cJSON_GetArrayItem J a i of None \<Rightarrow> None | Some entry \<Rightarrow> string_member J field entry) v 0 (length (json_items J a))
      = map_option ((+) 0) (first_match (\<lambda>x. string_member J field x = Some v) (json_items J a))"
    by (rule index_loop_first) (simp add: cJSON_GetArrayItem_def)
  moreover have "map_option ((+) 0) r = r" for r :: "nat option" by (cases r) auto
  ultimately show ?thesis using assms
    by (simp add: find_bookmark_index_by_field_def cJSON_IsArray_def cJSON_GetArraySize_def has_member_def [abs_def])
qed

subsection \<open>Good entries\<close>

lemma entry_object:
  assumes "cjson_laws J" "json_good J entry" "has_member J field v entry"
  shows "good_object J entry"
  using assms cjson_not_object [OF assms(1), of entry field]
  by (auto simp: has_member_def string_member_def good_object_def split: option.splits)

lemma u32_small: "unat (w :: u32) < 10 ^ 15"
proof -
  have "unat w < 2 ^ LENGTH(32)" by (rule unsigned_less)
  then show ?thesis by simp
qed

lemma update_bookmark_good:
  assumes J: "cjson_laws J" and e: "good_object J entry" and now: "now < 10 ^ 15"
  shows "good_object J (update_bookmark J title link_count now entry)"
    "field \<notin> {''title'', ''linkCount'', ''updatedAt''} \<Longrightarrow>
     string_member J field (update_bookmark J title link_count now entry) = string_member J field entry"
proof -
  note n = u32_small [of link_count]
  note num = json_good_number [OF J, THEN iffD2]
  let ?e1 = "cJSON_ReplaceItemInObjectCaseSensitive J entry ''title'' (cJSON_CreateString J title)"
  let ?e2 = "cJSON_ReplaceItemInObjectCaseSensitive J ?e1 ''linkCount'' (cJSON_CreateNumber J (of_nat (unat link_count)))"
  note r1 = replace_member [OF J e json_good_created(3) [OF J], of "''title''" title]
  note r2 = replace_member [OF J r1(1) num [OF n], of "''linkCount''"]
  note r3 = replace_member [OF J r2(1) num [OF now], of "''updatedAt''"]
  show "good_object J (update_bookmark J title link_count now entry)"
    using r3(1) by (simp add: update_bookmark_def)
  show "field \<notin> {''title'', ''linkCount'', ''updatedAt''} \<Longrightarrow>
     string_member J field (update_bookmark J title link_count now entry) = string_member J field entry"
    using r3(2) r2(2) r1(2) by (simp add: update_bookmark_def string_member_def)
qed

lemma new_bookmark_good:
  assumes J: "cjson_laws J" and now: "now < 10 ^ 15"
  shows "json_good J (new_bookmark J url title link_count now)"
    "string_member J ''url'' (new_bookmark J url title link_count now) = Some url"
    "string_member J ''id'' (new_bookmark J url title link_count now) = Some (generate_bookmark_id now)"
proof -
  note n = u32_small [of link_count]
  note num = json_good_number [OF J, THEN iffD2] and str = json_good_created(3) [OF J]
  let ?e0 = "cJSON_CreateObject J"
  let ?e1 = "cJSON_AddItemToObject J ?e0 ''id'' (cJSON_CreateString J (generate_bookmark_id now))"
  let ?e2 = "cJSON_AddItemToObject J ?e1 ''url'' (cJSON_CreateString J url)"
  let ?e3 = "cJSON_AddItemToObject J ?e2 ''title'' (cJSON_CreateString J title)"
  let ?e4 = "cJSON_AddItemToObject J ?e3 ''linkCount'' (cJSON_CreateNumber J (of_nat (unat link_count)))"
  let ?e5 = "cJSON_AddItemToObject J ?e4 ''createdAt'' (cJSON_CreateNumber J (of_nat now))"
  have e0: "good_object J ?e0" "\<And>k. get_member J ?e0 k = None" using J json_good_created(1) [OF J] by (simp_all add: good_object_def)
  note a1 = add_member [OF J e0(1) str e0(2), of "''id''" "generate_bookmark_id now"]
  note a2 = add_member [OF J a1(1) str, of "''url''" url]
  have g2: "good_object J ?e2" "\<And>k. get_member J ?e2 k = (if k = ''url'' then Some (cJSON_CreateString J url)
      else if k = ''id'' then Some (cJSON_CreateString J (generate_bookmark_id now)) else None)"
    using a2 a1(2) e0(2) by simp_all
  note a3 = add_member [OF J g2(1) str, of "''title''" title]
  have g3: "good_object J ?e3" "\<And>k. get_member J ?e3 k = (if k = ''title'' then Some (cJSON_CreateString J title) else get_member J ?e2 k)"
    using a3 g2(2) by simp_all
  note a4 = add_member [OF J g3(1) num [OF n], of "''linkCount''"]
  have g4: "good_object J ?e4" "\<And>k. get_member J ?e4 k = (if k = ''linkCount'' then Some (cJSON_CreateNumber J (of_nat (unat link_count))) else get_member J ?e3 k)"
    using a4 g3(2) g2(2) by simp_all
  note a5 = add_member [OF J g4(1) num [OF now], of "''createdAt''"]
  have g5: "good_object J ?e5" "\<And>k. get_member J ?e5 k = (if k = ''createdAt'' then Some (cJSON_CreateNumber J (of_nat now)) else get_member J ?e4 k)"
    using a5 g4(2) g3(2) g2(2) by simp_all
  note a6 = add_member [OF J g5(1) num [OF now], of "''updatedAt''"]
  have new: "new_bookmark J url title link_count now = cJSON_AddItemToObject J ?e5 ''updatedAt'' (cJSON_CreateNumber J (of_nat now))"
    by (simp add: new_bookmark_def json_add_defs Let_def)
  have g6: "good_object J (new_bookmark J url title link_count now)"
    "\<And>k. get_member J (new_bookmark J url title link_count now) k = (if k = ''updatedAt'' then Some (cJSON_CreateNumber J (of_nat now)) else get_member J ?e5 k)"
    unfolding new using a6 g5(2) g4(2) g3(2) g2(2) by simp_all
  show "json_good J (new_bookmark J url title link_count now)" using g6(1) by (simp add: good_object_def)
  show "string_member J ''url'' (new_bookmark J url title link_count now) = Some url"
    "string_member J ''id'' (new_bookmark J url title link_count now) = Some (generate_bookmark_id now)"
    using J by (simp_all add: string_member_def g6(2) g5(2) g4(2) g3(2) g2(2) cJSON_IsString_def)
qed

subsection \<open>Writing\<close>

lemma saved_tree:
  assumes "cjson_laws J" "good_object J tree" "same_device (bi_save io)" "saved (save_bookmarks_root J io (Some path) tree fs) = (rc, steps)"
  shows "rc = BookmarkErrorNone \<Longrightarrow> stored_tree J path (last (fs # steps)) = tree"
    "rc \<noteq> BookmarkErrorNone \<Longrightarrow> last (fs # steps) path = fs path"
    "\<exists>t. cJSON_Parse J t = Some tree \<and> (\<forall>fs'\<in>set steps. fs' path = fs path \<or> fs' path = Some \<lparr>f_text = t, f_synced = True\<rparr>)"
proof -
  obtain t where t: "cJSON_Print J tree = Some t" "cJSON_Parse J t = Some tree"
    using cjson_print(1) [OF assms(1) json_good_exact] assms(2) unfolding good_object_def by blast
  have o: "cJSON_IsObject J tree" using assms(2) by (simp add: good_object_def cJSON_IsObject_def)
  obtain c where c: "save_bookmarks_root J io (Some path) tree fs = (c, steps)" "rc = (if c = 0 then BookmarkErrorNone else BookmarkErrorPersist)"
    using assms(4) by (cases "save_bookmarks_root J io (Some path) tree fs") (auto simp: saved_def)
  have m: "(c = 0 \<longrightarrow> last (fs # steps) path = Some \<lparr>f_text = t, f_synced = True\<rparr>) \<and> (c \<noteq> 0 \<longrightarrow> last (fs # steps) path = fs path)
    \<and> (\<forall>fs'\<in>set steps. fs' path = fs path \<or> fs' path = Some \<lparr>f_text = t, f_synced = True\<rparr>)"
  proof (cases "c = -1 \<and> steps = []")
    case True
    then show ?thesis by simp
  next
    case False
    then have r: "replace_via_move ''.tmp'' (bi_save io) path t fs = (c, steps)"
      using c(1) t(1) by (auto simp: save_bookmarks_root_def persist_bookmarks_file_def split: if_splits)
    have "c = 0 \<Longrightarrow> last (fs # steps) path = Some \<lparr>f_text = t, f_synced = True\<rparr>"
      using bookmark_writer.success [OF assms(3), of path t fs steps] r by blast
    then show ?thesis
      using bookmark_writer.failure [OF assms(3) r] bookmark_writer.untouched_or_new [OF assms(3) r] by blast
  qed
  have "stored_tree J path fs' = tree" if "fs' path = Some \<lparr>f_text = t, f_synced = True\<rparr>" for fs'
    using t(2) o that by (simp add: stored_tree_def load_bookmarks_file_def)
  then show "rc = BookmarkErrorNone \<Longrightarrow> stored_tree J path (last (fs # steps)) = tree" using m c(2) by (metis BookmarkError.distinct(5))
  show "rc \<noteq> BookmarkErrorNone \<Longrightarrow> last (fs # steps) path = fs path" using m c(2) by presburger
  show "\<exists>t. cJSON_Parse J t = Some tree \<and> (\<forall>fs'\<in>set steps. fs' path = fs path \<or> fs' path = Some \<lparr>f_text = t, f_synced = True\<rparr>)"
    using m t(2) by blast
qed

lemma with_array_tree:
  assumes "cjson_laws J" "good_object J tree" "get_member J tree ''bookmarks'' = Some a" "cJSON_type J a' = cJSON_Array" "json_good J a'"
  shows "good_object J (with_array J tree a')" "items_in J (with_array J tree a') = json_items J a'"
  using replace_member [OF assms(1,2,5), of "''bookmarks''"] assms(3,4) by (simp_all add: with_array_def items_in_def cJSON_IsArray_def)

subsection \<open>The operations refine operations on the list\<close>

definition add_spec :: "('j, 't) cjson \<Rightarrow> string \<Rightarrow> string \<Rightarrow> u32 \<Rightarrow> nat \<Rightarrow> 'j list \<Rightarrow> 'j list" where
  "add_spec J url title link_count now xs =
     (case first_match (has_member J ''url'' url) xs of
        None \<Rightarrow> xs @ [new_bookmark J url title link_count now]
      | Some i \<Rightarrow> xs[i := update_bookmark J title link_count now (xs ! i)])"

definition remove_spec :: "('j, 't) cjson \<Rightarrow> string \<Rightarrow> string \<Rightarrow> 'j list \<Rightarrow> 'j list" where
  "remove_spec J field v xs = (case first_match (has_member J field v) xs of None \<Rightarrow> xs | Some i \<Rightarrow> take i xs @ drop (Suc i) xs)"

lemma json_item_good: "json_good J a \<Longrightarrow> i < length (json_items J a) \<Longrightarrow> json_good J (json_items J a ! i)"
  using json_good_children nth_mem by metis

definition title_text :: "cstring \<Rightarrow> string" where
  "title_text title = (case title of None \<Rightarrow> [] | Some t \<Rightarrow> t)"

text \<open>What is stored afterwards, from the tree that was read.\<close>

definition stores :: "('j, 't) cjson \<Rightarrow> string \<Rightarrow> 't fs \<Rightarrow> BookmarkError \<Rightarrow> 't fs list \<Rightarrow> 'j list \<Rightarrow> bool" where
  "stores J path fs rc steps xs \<longleftrightarrow>
     (store_good J path fs \<or> rc = BookmarkErrorNone \<longrightarrow> store_good J path (last (fs # steps)))
     \<and> bookmarks_of J path (last (fs # steps)) = (if rc = BookmarkErrorNone then xs else bookmarks_of J path fs)
     \<and> (\<forall>fs'\<in>set steps. bookmarks_of J path fs' = xs \<or> bookmarks_of J path fs' = bookmarks_of J path fs)"

lemma same_file:
  assumes "fs' path = fs path"
  shows "stored_tree J path fs' = stored_tree J path fs"
  using assms by (simp add: stored_tree_def load_bookmarks_file_def)

lemma stores_nothing: "rc \<noteq> BookmarkErrorNone \<Longrightarrow> stores J path fs rc [] xs"
  by (simp add: stores_def)

lemma saved_stores:
  assumes J: "cjson_laws J" and tree: "good_object J tree" "get_member J tree ''bookmarks'' = Some a"
    and a': "cJSON_type J a' = cJSON_Array" "json_good J a'" "json_items J a' = xs"
    and io: "same_device (bi_save io)" and r: "saved (save_bookmarks_root J io (Some path) (with_array J tree a') fs) = (rc, steps)"
  shows "stores J path fs rc steps xs"
proof -
  note w = with_array_tree [OF J tree a'(1,2)]
  note s = saved_tree [OF J w(1) io r]
  have xs: "items_in J (with_array J tree a') = xs" using w(2) a'(3) by simp
  have o: "json_good J (with_array J tree a')" "cJSON_IsObject J (with_array J tree a')"
    using w(1) by (simp_all add: good_object_def cJSON_IsObject_def)
  have steps: "bookmarks_of J path fs' = xs \<or> bookmarks_of J path fs' = bookmarks_of J path fs" if fs': "fs' \<in> set steps" for fs'
  proof (cases "fs' path = fs path")
    case True
    have "stored_tree J path fs' = stored_tree J path fs" by (rule same_file) (rule True)
    then show ?thesis by (simp add: bookmarks_of_def)
  next
    case False
    then obtain t where t: "cJSON_Parse J t = Some (with_array J tree a')" "fs' path = Some \<lparr>f_text = t, f_synced = True\<rparr>"
      using s(3) fs' by blast
    then have "stored_tree J path fs' = with_array J tree a'" using o(2) by (simp add: stored_tree_def load_bookmarks_file_def)
    then show ?thesis using xs by (simp add: bookmarks_of_def)
  qed
  show ?thesis
  proof (cases "rc = BookmarkErrorNone")
    case True
    note st = s(1) [OF True]
    show ?thesis unfolding stores_def store_good_def bookmarks_of_def st using steps True o(1) J xs
      by (auto simp: bookmarks_of_def)
  next
    case False
    have "stored_tree J path (last (fs # steps)) = stored_tree J path fs" by (rule same_file) (rule s(2) [OF False])
    then show ?thesis using steps False by (simp add: stores_def bookmarks_of_def store_good_def)
  qed
qed

lemma bookmark_add_stores:
  assumes J: "cjson_laws J" and load: "load_bookmarks_root J io (Some path) fs = Some t0" "good_object J t0"
    and io: "same_device (bi_save io)" "bi_now io < 10 ^ 15"
    and run: "bookmark_add J io (Some path) (Some url) title link_count fs = (rc, i, steps)"
  shows "stores J path fs rc steps (add_spec J url (title_text title) link_count (bi_now io) (items_in J t0))"
proof (cases "url = []")
  case True
  then show ?thesis using run by (simp add: bookmark_add_def stores_nothing)
next
  case False
  obtain a tree where a: "bookmarks_array J t0 = (a, tree)" by fastforce
  note at = array_of_tree [OF J load(2) a]
  define a' where "a' = (case first_match (has_member J ''url'' url) (json_items J a) of
      Some i \<Rightarrow> (case cJSON_GetArrayItem J a i of None \<Rightarrow> a
                 | Some entry \<Rightarrow> cJSON_ReplaceItemInArray J a i (update_bookmark J (title_text title) link_count (bi_now io) entry))
    | None \<Rightarrow> cJSON_AddItemToArray J a (new_bookmark J url (title_text title) link_count (bi_now io)))"
  have r: "saved (save_bookmarks_root J io (Some path) (with_array J tree a') fs) = (rc, steps)"
    using run False load(1) a by (auto simp: bookmark_add_def find_bookmark [OF at(1)] a'_def title_text_def
        split_def Let_def split: option.splits)
  have a': "cJSON_type J a' = cJSON_Array \<and> json_good J a' \<and> json_items J a' = add_spec J url (title_text title) link_count (bi_now io) (json_items J a)"
  proof (cases "first_match (has_member J ''url'' url) (json_items J a)")
    case None
    note n = new_bookmark_good(1) [OF J io(2), of url "title_text title" link_count]
    have "json_good J (cJSON_AddItemToArray J a (new_bookmark J url (title_text title) link_count (bi_now io)))"
      by (rule json_good_array) (use J at(1) n json_good_children [OF at(2)] in \<open>auto simp: cjson_array\<close>)
    then show ?thesis using None at(1) J by (simp add: a'_def add_spec_def)
  next
    case (Some i)
    note f = first_match_Some [OF Some]
    then have e: "cJSON_GetArrayItem J a i = Some (json_items J a ! i)" by (simp add: cJSON_GetArrayItem_def)
    have "good_object J (json_items J a ! i)" using entry_object [OF J json_item_good [OF at(2)]] f by blast
    note u = update_bookmark_good(1) [OF J this io(2), of "title_text title" link_count]
    show ?thesis using Some e good_replace_at [OF J _ at(1,2)] u at(1) J
      by (simp add: a'_def add_spec_def good_object_def)
  qed
  show ?thesis using saved_stores [OF J at(3,4) conjunct1 [OF a'] conjunct1 [OF conjunct2 [OF a']] conjunct2 [OF conjunct2 [OF a']] io(1) r]
    by (simp add: at(5))
qed

lemma bookmark_remove_stores:
  assumes J: "cjson_laws J" and load: "load_bookmarks_root J io (Some path) fs = Some t0" "good_object J t0"
    and io: "same_device (bi_save io)"
    and run: "bookmark_remove J io (Some path) (Some target) by_url fs = (rc, steps)"
  shows "stores J path fs rc steps (remove_spec J (if by_url then ''url'' else ''id'') target (items_in J t0))"
proof (cases "target = []")
  case True
  then show ?thesis using run by (simp add: bookmark_remove_def stores_nothing)
next
  case False
  obtain a tree where a: "bookmarks_array J t0 = (a, tree)" by fastforce
  note at = array_of_tree [OF J load(2) a]
  show ?thesis
  proof (cases "first_match (has_member J (if by_url then ''url'' else ''id'') target) (json_items J a)")
    case None
    then show ?thesis using run False load(1) a by (simp add: bookmark_remove_def find_bookmark [OF at(1)] stores_nothing)
  next
    case (Some i)
    have r: "saved (save_bookmarks_root J io (Some path) (with_array J tree (cJSON_DeleteItemFromArray J a i)) fs) = (rc, steps)"
      using run False load(1) a Some by (simp add: bookmark_remove_def find_bookmark [OF at(1)])
    have d: "json_items J (cJSON_DeleteItemFromArray J a i) = remove_spec J (if by_url then ''url'' else ''id'') target (items_in J t0)"
      using Some at(5) cjson_array(6) [OF J at(1)] by (simp add: remove_spec_def)
    show ?thesis using saved_stores [OF J at(3,4) cjson_array(5) [OF J at(1)] good_delete_at [OF J at(1,2)] d io r] .
  qed
qed

subsection \<open>The store of bookmarks\<close>

datatype 't bookmark_op = AddBookmark "'t bookmark_io" string cstring u32 | RemoveBookmark "'t bookmark_io" string bool

fun op_io :: "'t bookmark_op \<Rightarrow> 't bookmark_io" where
  "op_io (AddBookmark io url title n) = io"
| "op_io (RemoveBookmark io target by_url) = io"

fun run_op :: "('j, 't) cjson \<Rightarrow> string \<Rightarrow> 't bookmark_op \<Rightarrow> 't fs \<Rightarrow> BookmarkError \<times> 't fs list" where
  "run_op J path (AddBookmark io url title n) fs =
     (let (rc, i, steps) = bookmark_add J io (Some path) (Some url) title n fs in (rc, steps))"
| "run_op J path (RemoveBookmark io target by_url) fs = bookmark_remove J io (Some path) (Some target) by_url fs"

fun op_spec :: "('j, 't) cjson \<Rightarrow> 't bookmark_op \<Rightarrow> 'j list \<Rightarrow> 'j list" where
  "op_spec J (AddBookmark io url title n) = add_spec J url (title_text title) n (bi_now io)"
| "op_spec J (RemoveBookmark io target by_url) = remove_spec J (if by_url then ''url'' else ''id'') target"

text \<open>The file can be read, renaming stays on the device, the clock is not beyond the numbers JSON keeps exactly.\<close>

definition op_fine :: "'t bookmark_op \<Rightarrow> bool" where
  "op_fine opn \<longleftrightarrow> bi_read (op_io opn) = ReadWhole \<and> same_device (bi_save (op_io opn)) \<and> bi_now (op_io opn) < 10 ^ 15"

definition after_op :: "('j, 't) cjson \<Rightarrow> string \<Rightarrow> 't bookmark_op \<Rightarrow> 't fs \<Rightarrow> 't fs" where
  "after_op J path opn fs = last (fs # snd (run_op J path opn fs))"

definition op_done :: "('j, 't) cjson \<Rightarrow> string \<Rightarrow> 't bookmark_op \<Rightarrow> 't fs \<Rightarrow> bool" where
  "op_done J path opn fs \<longleftrightarrow> fst (run_op J path opn fs) = BookmarkErrorNone"

lemma run_op_stores:
  assumes "store_good J path fs" "op_fine opn" "run_op J path opn fs = (rc, steps)"
  shows "stores J path fs rc steps (op_spec J opn (bookmarks_of J path fs))"
proof -
  have J: "cjson_laws J" using assms(1) by (simp add: store_good_def)
  have l: "load_bookmarks_root J (op_io opn) (Some path) fs = Some (stored_tree J path fs)"
    using assms(2) by (simp add: load_bookmarks_root_def op_fine_def load_whole)
  show ?thesis
  proof (cases opn)
    case (AddBookmark io url title n)
    then obtain i where "bookmark_add J io (Some path) (Some url) title n fs = (rc, i, steps)"
      using assms(3) by (auto split: prod.splits)
    from bookmark_add_stores [OF J _ stored_object [OF assms(1)] _ _ this] show ?thesis
      using assms(2) l AddBookmark by (simp add: op_fine_def bookmarks_of_def)
  next
    case (RemoveBookmark io target by_url)
    then have "bookmark_remove J io (Some path) (Some target) by_url fs = (rc, steps)" using assms(3) by simp
    from bookmark_remove_stores [OF J _ stored_object [OF assms(1)] _ this] show ?thesis
      using assms(2) l RemoveBookmark by (simp add: op_fine_def bookmarks_of_def)
  qed
qed

interpretation bookmark_store: record_store "store_good J path" "bookmarks_of J path" op_fine "after_op J path" "op_done J path" "op_spec J"
  for J path
proof
  show "store_good J path (after_op J path opn s)" if "store_good J path s" "op_fine opn" for s opn
    using run_op_stores [OF that] that(1) by (cases "run_op J path opn s") (simp add: stores_def after_op_def)
  show "bookmarks_of J path (after_op J path opn s) = (if op_done J path opn s then op_spec J opn (bookmarks_of J path s) else bookmarks_of J path s)"
    if "store_good J path s" "op_fine opn" for s opn
    using run_op_stores [OF that] by (cases "run_op J path opn s") (simp add: stores_def after_op_def op_done_def)
qed


subsection \<open>Distinct URLs\<close>

definition urls_distinct :: "('j, 't) cjson \<Rightarrow> 'j list \<Rightarrow> bool" where
  "urls_distinct J xs \<longleftrightarrow> distinct (filter (\<lambda>u. u \<noteq> None) (map (string_member J ''url'') xs))"

definition bookmarks_good :: "('j, 't) cjson \<Rightarrow> 'j list \<Rightarrow> bool" where
  "bookmarks_good J xs \<longleftrightarrow> cjson_laws J \<and> (\<forall>x\<in>set xs. json_good J x) \<and> urls_distinct J xs"

lemma urls_distinct_remove: "urls_distinct J (ys @ x # zs) \<Longrightarrow> urls_distinct J (ys @ zs)"
  by (auto simp: urls_distinct_def split: if_splits)

lemma remove_spec_good: "bookmarks_good J xs \<Longrightarrow> bookmarks_good J (remove_spec J field v xs)"
proof (cases "first_match (has_member J field v) xs")
  case (Some i)
  assume g: "bookmarks_good J xs"
  have i: "i < length xs" using first_match_Some [OF Some] by simp
  have "urls_distinct J (take i xs @ drop (Suc i) xs)"
    using urls_distinct_remove [of J "take i xs" "xs ! i" "drop (Suc i) xs"] g
    unfolding id_take_nth_drop [OF i, symmetric] by (simp add: bookmarks_good_def)
  then show ?thesis using g Some by (auto simp: bookmarks_good_def remove_spec_def dest: in_set_takeD in_set_dropD)
qed (simp add: remove_spec_def)

lemma add_spec_good:
  assumes "bookmarks_good J xs" "now < 10 ^ 15"
  shows "bookmarks_good J (add_spec J url title n now xs)"
proof -
  have J: "cjson_laws J" and good: "\<forall>x\<in>set xs. json_good J x" and d: "urls_distinct J xs" using assms(1) by (simp_all add: bookmarks_good_def)
  show ?thesis
  proof (cases "first_match (has_member J ''url'' url) xs")
    case None
    then have "Some url \<notin> set (map (string_member J ''url'') xs)" by (auto simp: first_match_None has_member_def)
    then show ?thesis using None J good d new_bookmark_good(1,2) [OF J assms(2)]
      by (simp add: bookmarks_good_def add_spec_def urls_distinct_def)
  next
    case (Some i)
    note f = first_match_Some [OF Some]
    then have "good_object J (xs ! i)" using entry_object [OF J, of "xs ! i" "''url''" url] good by auto
    note u = update_bookmark_good [OF J this assms(2), where title = title and link_count = n]
    have "map (string_member J ''url'') (xs[i := update_bookmark J title n now (xs ! i)]) = map (string_member J ''url'') xs"
      using u(2) [of "''url''"] f by (simp add: map_update) (metis list_update_id nth_map)
    moreover have "\<forall>x\<in>set (xs[i := update_bookmark J title n now (xs ! i)]). json_good J x"
      using good u(1) set_update_subset_insert [of xs i] by (auto simp: good_object_def)
    ultimately show ?thesis using Some J d by (simp add: bookmarks_good_def add_spec_def urls_distinct_def)
  qed
qed

lemma op_spec_good: "op_fine opn \<Longrightarrow> bookmarks_good J xs \<Longrightarrow> bookmarks_good J (op_spec J opn xs)"
  by (cases opn) (auto simp: op_fine_def add_spec_good remove_spec_good)

lemma stored_bookmarks_good:
  assumes "store_good J path fs" "urls_distinct J (bookmarks_of J path fs)"
  shows "bookmarks_good J (bookmarks_of J path fs)"
proof -
  have "cjson_laws J" using assms(1) by (simp add: store_good_def)
  then have "json_good J x" if x: "x \<in> set (bookmarks_of J path fs)" for x
  proof -
    obtain a where a: "get_member J (stored_tree J path fs) ''bookmarks'' = Some a"
      using x by (cases "get_member J (stored_tree J path fs) ''bookmarks''") (simp_all add: bookmarks_of_def items_in_def)
    have "x \<in> set (json_items J a)" using x unfolding bookmarks_of_def items_in_def a option.case by (cases "cJSON_IsArray J a") simp_all
    then show ?thesis by (rule json_good_children [OF good_object_member [OF \<open>cjson_laws J\<close> stored_object [OF assms(1)] a]])
  qed
  then show ?thesis using assms by (simp add: bookmarks_good_def store_good_def)
qed

subsection \<open>Where the code falls short\<close>

text \<open>The id is the second it was made in: two bookmarks of one second have the same id, and removing the later one by
  its id removes the earlier one.\<close>

lemma same_second_removes_other:
  assumes "cjson_laws J" "now < 10 ^ 15" "\<forall>x\<in>set xs. string_member J ''id'' x \<noteq> Some (generate_bookmark_id now)"
  shows "remove_spec J ''id'' (generate_bookmark_id now) (xs @ [new_bookmark J u1 t1 n1 now, new_bookmark J u2 t2 n2 now])
    = xs @ [new_bookmark J u2 t2 n2 now]"
proof -
  have "first_match (has_member J ''id'' (generate_bookmark_id now)) (xs @ [new_bookmark J u1 t1 n1 now, new_bookmark J u2 t2 n2 now]) = Some (length xs)"
    using assms(3) by (induction xs) (simp_all add: has_member_def new_bookmark_good(3) [OF assms(1,2)])
  then show ?thesis by (simp add: remove_spec_def)
qed

text \<open>A file that cannot be opened for once counts as empty: the next bookmark replaces all of it.\<close>

lemma unreadable_file_is_overwritten:
  assumes J: "cjson_laws J" "bi_read io = CannotRead" "same_device (bi_save io)" "bi_now io < 10 ^ 15"
    and run: "bookmark_add J io (Some path) (Some url) title n fs = (BookmarkErrorNone, i, steps)"
  shows "bookmarks_of J path (last (fs # steps)) = [new_bookmark J url (title_text title) n (bi_now io)]"
proof -
  have l: "load_bookmarks_root J io (Some path) fs = Some (cJSON_CreateObject J)"
    using J(2) by (simp add: load_bookmarks_root_def load_bookmarks_file_def split: option.split)
  have g: "good_object J (cJSON_CreateObject J)" using J(1) json_good_created(1) by (simp add: good_object_def)
  have "items_in J (cJSON_CreateObject J) = []" using J(1) by (simp add: items_in_def)
  then show ?thesis using bookmark_add_stores [OF J(1) l g J(3,4) run] by (simp add: stores_def add_spec_def)
qed

subsection \<open>Properties\<close>

text \<open>C17. The bookmarks refine a list: whatever sequence of additions and removals runs, also when some fail, the stored list
  is the old one changed by exactly those that reported success, in their order.\<close>

theorem bookmarks_refine_list:
  assumes "store_good J path fs" "\<forall>opn\<in>set ops. op_fine opn"
  shows "bookmarks_of J path (fold (after_op J path) ops fs)
    = fold (op_spec J) (applied_ops (after_op J path) (op_done J path) ops fs) (bookmarks_of J path fs)"
  using assms by (rule bookmark_store.contents_run)

text \<open>Two bookmarks in a file that does not exist yet.\<close>

definition sample_bookmark_io :: "json_value bookmark_io" where
  "sample_bookmark_io = \<lparr>bi_read = ReadWhole, bi_dirs = True,
     bi_save = (\<lparr>si_open = True, si_torn = JV_Null, si_written = True, si_synced = True, si_renamed = True\<rparr>,
                \<lparr>mv_rename = Renamed, mv_open = True, mv_torn = JV_Null, mv_copied = True, mv_synced = True\<rparr>), bi_now = 7\<rparr>"

definition sample_bookmark_ops :: "json_value bookmark_op list" where
  "sample_bookmark_ops = [AddBookmark sample_bookmark_io ''http://a'' None 1, AddBookmark sample_bookmark_io ''http://b'' None 2]"

lemma sample_ops_fine: "\<forall>opn\<in>set sample_bookmark_ops. op_fine opn"
  by (simp add: sample_bookmark_ops_def op_fine_def sample_bookmark_io_def same_device_def)

lemma sample_store: "store_good sample_cjson ''/b'' Map.empty" "bookmarks_of sample_cjson ''/b'' Map.empty = []"
  using json_good_created(1) [OF sample_cjson_laws]
  by (simp_all add: store_good_def bookmarks_of_def stored_tree_def load_bookmarks_file_def sample_cjson_laws items_in_def)

lemma sample_ops_applied:
  "applied_ops (after_op sample_cjson ''/b'') (op_done sample_cjson ''/b'') sample_bookmark_ops Map.empty = sample_bookmark_ops"
proof -
  have w: "save_bookmarks_root sample_cjson sample_bookmark_io (Some ''/b'') tree fs = (c, steps) \<Longrightarrow> c = 0" for tree fs c steps
    by (auto simp: save_bookmarks_root_def persist_bookmarks_file_def sample_cjson_def sample_bookmark_io_def replace_via_move_def
        move_file_atomic_def Let_def)
  have s: "fst (saved (save_bookmarks_root sample_cjson sample_bookmark_io (Some ''/b'') tree fs)) = BookmarkErrorNone" for tree fs
    using w by (cases "save_bookmarks_root sample_cjson sample_bookmark_io (Some ''/b'') tree fs") (simp add: saved_def)
  have l: "\<exists>tree. load_bookmarks_root sample_cjson sample_bookmark_io (Some ''/b'') fs = Some tree" for fs
    by (simp add: load_bookmarks_root_def sample_bookmark_io_def load_bookmarks_file_def split: option.split)
  have "op_done sample_cjson ''/b'' (AddBookmark sample_bookmark_io (c # cs) title n) fs" for c cs title n fs
    using l [of fs] s by (auto simp: op_done_def bookmark_add_def split_def Let_def split: option.split)
  then show ?thesis by (simp add: sample_bookmark_ops_def)
qed

theorem bookmarks_refine_list_witness:
  "map (string_member sample_cjson ''url'')
     (bookmarks_of sample_cjson ''/b'' (fold (after_op sample_cjson ''/b'') sample_bookmark_ops Map.empty))
   = [Some ''http://a'', Some ''http://b'']"
proof -
  note n = new_bookmark_good(2) [OF sample_cjson_laws, of 7]
  have "bookmarks_of sample_cjson ''/b'' (fold (after_op sample_cjson ''/b'') sample_bookmark_ops Map.empty)
      = [new_bookmark sample_cjson ''http://a'' [] 1 7, new_bookmark sample_cjson ''http://b'' [] 2 7]"
    unfolding bookmarks_refine_list [OF sample_store(1) sample_ops_fine] sample_ops_applied sample_store(2)
    using n by (simp add: sample_bookmark_ops_def add_spec_def title_text_def has_member_def sample_bookmark_io_def)
  then show ?thesis using n by simp
qed

text \<open>C16. No URL is bookmarked twice, and no interruption loses bookmarks: after any sequence of operations the URLs are still
  distinct, and at every moment of a further operation the file holds the list of before or the
  complete new one.\<close>

theorem bookmarks_distinct_and_safe:
  assumes "store_good J path fs" "urls_distinct J (bookmarks_of J path fs)" "\<forall>p\<in>set ops. op_fine p" "op_fine opn"
    "run_op J path opn (fold (after_op J path) ops fs) = (rc, steps)" "fs' \<in> set steps"
  shows "urls_distinct J (bookmarks_of J path fs')
    \<and> (bookmarks_of J path fs' = bookmarks_of J path (fold (after_op J path) ops fs)
       \<or> bookmarks_of J path fs' = op_spec J opn (bookmarks_of J path (fold (after_op J path) ops fs)))"
proof -
  let ?fs = "fold (after_op J path) ops fs"
  have g: "store_good J path ?fs" using assms(1,3) by (rule bookmark_store.run_all_good)
  have d: "bookmarks_good J (bookmarks_of J path ?fs)"
    using op_spec_good assms(1) assms(3) stored_bookmarks_good [OF assms(1,2)] by (rule bookmark_store.kept)
  have "bookmarks_of J path fs' = bookmarks_of J path ?fs \<or> bookmarks_of J path fs' = op_spec J opn (bookmarks_of J path ?fs)"
    using run_op_stores [OF g assms(4,5)] assms(6) by (auto simp: stores_def)
  then show ?thesis using d op_spec_good [OF assms(4) d] by (auto simp: bookmarks_good_def)
qed

theorem bookmarks_distinct_and_safe_witness:
  "\<exists>rc steps. run_op sample_cjson ''/b'' (RemoveBookmark sample_bookmark_io ''http://a'' True)
      (fold (after_op sample_cjson ''/b'') sample_bookmark_ops Map.empty) = (rc, steps)
    \<and> (steps = [] \<or> urls_distinct sample_cjson (bookmarks_of sample_cjson ''/b'' (last steps)))"
proof -
  obtain rc steps where r: "run_op sample_cjson ''/b'' (RemoveBookmark sample_bookmark_io ''http://a'' True)
      (fold (after_op sample_cjson ''/b'') sample_bookmark_ops Map.empty) = (rc, steps)" by fastforce
  have f: "op_fine (RemoveBookmark sample_bookmark_io ''http://a'' True)" by (simp add: op_fine_def sample_bookmark_io_def same_device_def)
  have d: "urls_distinct sample_cjson (bookmarks_of sample_cjson ''/b'' Map.empty)" by (simp add: sample_store(2) urls_distinct_def)
  have "steps = [] \<or> urls_distinct sample_cjson (bookmarks_of sample_cjson ''/b'' (last steps))"
    using bookmarks_distinct_and_safe [OF sample_store(1) d sample_ops_fine f r, of "last steps"] by (metis last_in_set)
  then show ?thesis using r by blast
qed

end
