(* ===== verification/Daemon_Log.thy ===== *)
theory Daemon_Log
  imports CLib
begin

text \<open>
  The log of the daemon, \<^verbatim>\<open>src/src/daemon/daemon_rpc.c\<close>: a ring of the last 256 lines, each with a
  sequence number, that front ends read piece by piece.  What was appended since the start is the list the ring
  is compared with.
\<close>

subsection \<open>The ring\<close>

abbreviation (input) AVAR_DAEMON_LOG_RING_CAP :: nat where "AVAR_DAEMON_LOG_RING_CAP \<equiv> 256"
abbreviation (input) AVAR_DAEMON_LOG_LINE_MAX :: nat where "AVAR_DAEMON_LOG_LINE_MAX \<equiv> 512"

record DaemonLogRing =
  lr_lines :: "string list"
  lr_seq :: "u64 list"
  lr_head :: nat
  lr_count :: nat
  lr_next_seq :: u64

definition empty_log :: DaemonLogRing where
  "empty_log = \<lparr>lr_lines = replicate AVAR_DAEMON_LOG_RING_CAP [], lr_seq = replicate AVAR_DAEMON_LOG_RING_CAP 0,
     lr_head = 0, lr_count = 0, lr_next_seq = 0\<rparr>"

definition daemon_rpc_log_append :: "cstring \<Rightarrow> DaemonLogRing \<Rightarrow> DaemonLogRing" where
  "daemon_rpc_log_append line r =
     (case line of None \<Rightarrow> r
      | Some line \<Rightarrow>
          r\<lparr>lr_seq := (lr_seq r)[lr_head r := lr_next_seq r], lr_next_seq := lr_next_seq r + 1,
            lr_lines := (lr_lines r)[lr_head r := take (AVAR_DAEMON_LOG_LINE_MAX - 1) line],
            lr_head := (lr_head r + 1) mod AVAR_DAEMON_LOG_RING_CAP,
            lr_count := (if lr_count r < AVAR_DAEMON_LOG_RING_CAP then lr_count r + 1 else lr_count r)\<rparr>)"

definition log_index :: "DaemonLogRing \<Rightarrow> nat \<Rightarrow> nat" where
  "log_index r i = (lr_head r + AVAR_DAEMON_LOG_RING_CAP - lr_count r + i) mod AVAR_DAEMON_LOG_RING_CAP"

text \<open>The first loop measures, the second one copies; \<open>n\<close> entries from \<open>i\<close> on are left.\<close>

fun total_loop :: "DaemonLogRing \<Rightarrow> u64 \<Rightarrow> nat \<Rightarrow> nat \<Rightarrow> nat \<Rightarrow> nat \<Rightarrow> nat \<Rightarrow> nat" where
  "total_loop r since limit i 0 matched sum_len = sum_len"
| "total_loop r since limit i (Suc n) matched sum_len =
     (if lr_seq r ! log_index r i \<le> since then total_loop r since limit (Suc i) n matched sum_len
      else let sum_len = sum_len + (length (lr_lines r ! log_index r i) + 1)
           in if Suc matched \<ge> limit then sum_len else total_loop r since limit (Suc i) n (Suc matched) sum_len)"

fun copy_loop :: "DaemonLogRing \<Rightarrow> u64 \<Rightarrow> nat \<Rightarrow> nat \<Rightarrow> nat \<Rightarrow> nat \<Rightarrow> string \<Rightarrow> u64 \<Rightarrow> string \<times> u64" where
  "copy_loop r since limit i 0 matched buf last_seq = (buf, last_seq)"
| "copy_loop r since limit i (Suc n) matched buf last_seq =
     (if lr_seq r ! log_index r i \<le> since then copy_loop r since limit (Suc i) n matched buf last_seq
      else let buf = buf @ lr_lines r ! log_index r i @ [CHR 0x0A]; last_seq = lr_seq r ! log_index r i
           in if Suc matched \<ge> limit then (buf, last_seq) else copy_loop r since limit (Suc i) n (Suc matched) buf last_seq)"

text \<open>The size of the buffer, the text in it and the offset for the next request.\<close>

definition daemon_rpc_logs_fetch :: "DaemonLogRing \<Rightarrow> u32 \<Rightarrow> u64 \<Rightarrow> nat \<times> string \<times> u64" where
  "daemon_rpc_logs_fetch r max_lines since =
     (let limit = (if max_lines = 0 then 50 else unat max_lines)
      in (total_loop r since limit 0 (lr_count r) 0 0 + 1, copy_loop r since limit 0 (lr_count r) 0 [] since))"

subsection \<open>The lines in the ring\<close>

text \<open>\<open>h\<close> are the lines that were appended.\<close>

definition log_after :: "string list \<Rightarrow> DaemonLogRing" where
  "log_after h = fold (\<lambda>l. daemon_rpc_log_append (Some l)) h empty_log"

definition kept_from :: "string list \<Rightarrow> nat" where
  "kept_from h = length h - AVAR_DAEMON_LOG_RING_CAP"

definition log_holds :: "DaemonLogRing \<Rightarrow> string list \<Rightarrow> bool" where
  "log_holds r h \<longleftrightarrow> length (lr_lines r) = 256 \<and> length (lr_seq r) = 256 \<and> lr_head r = length h mod 256
     \<and> lr_count r = length h - kept_from h \<and> lr_next_seq r = of_nat (length h)
     \<and> (\<forall>k. kept_from h \<le> k \<longrightarrow> k < length h \<longrightarrow>
          lr_lines r ! (k mod 256) = take 511 (h ! k) \<and> lr_seq r ! (k mod 256) = of_nat k)"

lemma same_slot:
  assumes "k < n" "n < k + 256"
  shows "k mod 256 \<noteq> n mod (256 :: nat)"
proof
  assume "k mod 256 = n mod 256"
  then have "256 dvd n - k" using assms(1) by (metis mod_eq_dvd_iff_nat less_imp_le)
  then show False using assms by (auto dest: dvd_imp_le)
qed

lemma append_holds:
  assumes "log_holds r h"
  shows "log_holds (daemon_rpc_log_append (Some l) r) (h @ [l])"
proof -
  let ?n = "length h"
  have "lr_lines (daemon_rpc_log_append (Some l) r) ! (k mod 256) = take 511 ((h @ [l]) ! k)
      \<and> lr_seq (daemon_rpc_log_append (Some l) r) ! (k mod 256) = of_nat k"
    if k: "kept_from (h @ [l]) \<le> k" "k < length (h @ [l])" for k
  proof (cases "k = ?n")
    case True
    then show ?thesis using assms by (simp add: daemon_rpc_log_append_def log_holds_def)
  next
    case False
    then have "k < ?n" "?n < k + 256" "kept_from h \<le> k" using k by (auto simp: kept_from_def)
    then show ?thesis using assms same_slot [of k ?n] by (simp add: daemon_rpc_log_append_def log_holds_def nth_append)
  qed
  moreover have "lr_count (daemon_rpc_log_append (Some l) r) = length (h @ [l]) - kept_from (h @ [l])"
    using assms by (auto simp: daemon_rpc_log_append_def log_holds_def kept_from_def)
  ultimately show ?thesis using assms
    by (simp add: daemon_rpc_log_append_def log_holds_def mod_Suc_eq)
qed

lemma log_after_holds: "log_holds (log_after h) h"
proof (induction h rule: rev_induct)
  case Nil
  then show ?case by (simp add: log_after_def empty_log_def log_holds_def kept_from_def)
next
  case (snoc l h)
  then show ?case using append_holds [of "log_after h" h l] by (simp add: log_after_def)
qed

lemma log_index_entry:
  assumes "log_holds r h" "i < lr_count r"
  shows "log_index r i = (kept_from h + i) mod 256"
proof -
  let ?n = "length h"
  have c: "lr_count r = ?n - kept_from h" "lr_head r = ?n mod 256" using assms by (simp_all add: log_holds_def)
  have "(?n mod 256 + 256 - (?n - kept_from h) + i) mod 256 = (?n + 256 - (?n - kept_from h) + i) mod 256"
  proof -
    have le: "?n - kept_from h \<le> 256" by (auto simp: kept_from_def)
    have "?n mod 256 + 256 - (?n - kept_from h) + i = ?n mod 256 + (256 - (?n - kept_from h) + i)" using le by simp
    moreover have "?n + 256 - (?n - kept_from h) + i = ?n + (256 - (?n - kept_from h) + i)" using le by simp
    ultimately show ?thesis by (simp only: mod_add_left_eq)
  qed
  also have "?n + 256 - (?n - kept_from h) + i = kept_from h + i + 256" by (auto simp: kept_from_def)
  finally show ?thesis by (simp add: log_index_def c)
qed

lemma entry:
  assumes "log_holds r h" "i < lr_count r"
  shows "lr_lines r ! log_index r i = take 511 (h ! (kept_from h + i))" "lr_seq r ! log_index r i = of_nat (kept_from h + i)"
  using assms log_index_entry [OF assms] by (auto simp: log_holds_def)

subsection \<open>What a request gives\<close>

text \<open>The numbered lines that are kept and newer than \<open>since\<close>, oldest first.\<close>

definition newer_lines :: "string list \<Rightarrow> nat \<Rightarrow> (nat \<times> string) list" where
  "newer_lines h since = map (\<lambda>k. (k, take 511 (h ! k))) (filter (\<lambda>k. since < k) [kept_from h..<length h])"

definition line_text :: "(nat \<times> string) list \<Rightarrow> string" where
  "line_text ls = concat (map (\<lambda>(k, l). l @ [CHR 0x0A]) ls)"

definition last_number :: "nat \<Rightarrow> (nat \<times> string) list \<Rightarrow> nat" where
  "last_number since ls = (if ls = [] then since else fst (last ls))"

definition lines_from :: "string list \<Rightarrow> nat \<Rightarrow> nat \<Rightarrow> (nat \<times> string) list" where
  "lines_from h since i = map (\<lambda>k. (k, take 511 (h ! k))) (filter (\<lambda>k. since < k) [kept_from h + i..<length h])"

lemma lines_from_step:
  assumes "log_holds r h" "i < lr_count r"
  shows "lines_from h since i = (if kept_from h + i \<le> since then lines_from h since (Suc i)
    else (kept_from h + i, take 511 (h ! (kept_from h + i))) # lines_from h since (Suc i))"
proof -
  have "kept_from h + i < length h" using assms by (simp add: log_holds_def)
  then have "[kept_from h + i..<length h] = (kept_from h + i) # [kept_from h + Suc i..<length h]" by (simp add: upt_conv_Cons)
  then show ?thesis by (simp add: lines_from_def)
qed

lemma copy_loop_lines:
  assumes "log_holds r h" "length h < 2 ^ 64" "matched < limit"
  shows "i + n = lr_count r \<Longrightarrow> copy_loop r since limit i n matched buf last_seq
    = (let ls = take (limit - matched) (lines_from h (unat since) i)
       in (buf @ line_text ls, if ls = [] then last_seq else of_nat (fst (last ls))))"
  using assms(3)
proof (induction n arbitrary: i matched buf last_seq)
  case 0
  then have "lines_from h (unat since) i = []" using assms(1) by (simp add: lines_from_def log_holds_def kept_from_def)
  then show ?case by (simp add: line_text_def)
next
  case (Suc n)
  then have i: "i < lr_count r" by simp
  define k where "k = kept_from h + i"
  note e = entry [OF assms(1) i, folded k_def] and st = lines_from_step [OF assms(1) i, of "unat since", folded k_def]
  have "k < 2 ^ 64" using i assms(1,2) by (simp add: log_holds_def k_def)
  then have le: "((of_nat k :: u64) \<le> since) = (k \<le> unat since)"
    by (simp add: word_le_nat_alt unat_of_nat take_bit_nat_eq_self)
  show ?case
  proof (cases "k \<le> unat since")
    case True
    then show ?thesis using Suc.IH [of "Suc i" matched buf last_seq] Suc.prems e le st by simp
  next
    case False
    show ?thesis
    proof (cases "Suc matched \<ge> limit")
      case True
      then have "limit - matched = 1" using Suc.prems(2) by simp
      then show ?thesis using False e le st True by (simp add: line_text_def)
    next
      case notlast: False
      then have m: "Suc matched < limit" "limit - matched = Suc (limit - Suc matched)" by simp_all
      show ?thesis using Suc.IH [of "Suc i" "Suc matched" "buf @ take 511 (h ! k) @ [CHR 0x0A]" "of_nat k"]
          Suc.prems False e le st m notlast
        by (simp add: line_text_def Let_def)
    qed
  qed
qed

lemma total_loop_copied:
  "total_loop r since limit i n matched (length buf) = length (fst (copy_loop r since limit i n matched buf last_seq))"
  by (induction r since limit i n matched buf last_seq rule: copy_loop.induct) (simp_all add: Let_def add.assoc)

text \<open>Reading the log piece by piece: each request starts after the last line of the one before.\<close>

fun poll_log :: "DaemonLogRing \<Rightarrow> u32 \<Rightarrow> nat \<Rightarrow> u64 \<Rightarrow> string" where
  "poll_log r max_lines 0 since = []"
| "poll_log r max_lines (Suc n) since =
     (let (cap, text, next_offset) = daemon_rpc_logs_fetch r max_lines since in text @ poll_log r max_lines n next_offset)"

definition fetch_limit :: "u32 \<Rightarrow> nat" where
  "fetch_limit max_lines = (if max_lines = 0 then 50 else unat max_lines)"

lemma fetch_limit_pos: "0 < fetch_limit max_lines"
  by (simp add: fetch_limit_def unat_gt_0)

lemma fetch_result:
  assumes "length h < 2 ^ 64"
  shows "daemon_rpc_logs_fetch (log_after h) max_lines since =
    (let ls = take (fetch_limit max_lines) (newer_lines h (unat since))
     in (length (line_text ls) + 1, line_text ls, of_nat (last_number (unat since) ls)))"
proof -
  let ?ls = "take (fetch_limit max_lines) (newer_lines h (unat since))"
  have l: "lines_from h (unat since) 0 = newer_lines h (unat since)" by (simp add: lines_from_def newer_lines_def)
  have c: "copy_loop (log_after h) since (fetch_limit max_lines) 0 (lr_count (log_after h)) 0 [] since
      = (line_text ?ls, of_nat (last_number (unat since) ?ls))"
    using copy_loop_lines [OF log_after_holds assms fetch_limit_pos, where i = 0 and n = "lr_count (log_after h)" and since = since
        and max_lines1 = max_lines and buf = "[]" and last_seq = since] l
    by (simp add: last_number_def Let_def)
  have "total_loop (log_after h) since (fetch_limit max_lines) 0 (lr_count (log_after h)) 0 0 = length (line_text ?ls)"
    using total_loop_copied [of "log_after h" since "fetch_limit max_lines" 0 "lr_count (log_after h)" 0 "[]" since] c by simp
  then show ?thesis using c by (simp add: daemon_rpc_logs_fetch_def fetch_limit_def Let_def)
qed

lemma sorted_le_last: "sorted_wrt (<) ks \<Longrightarrow> k \<in> set ks \<Longrightarrow> k \<le> last (ks :: nat list)"
proof (induction ks rule: rev_induct)
  case (snoc x xs)
  then show ?case by (auto simp: sorted_wrt_append)
qed simp

text \<open>The number of the last line of a piece separates the piece from the rest.\<close>

lemma newer_after_piece:
  assumes "take m (newer_lines h since) \<noteq> []"
  shows "newer_lines h (last_number since (take m (newer_lines h since))) = drop m (newer_lines h since)"
proof -
  let ?ks = "filter (\<lambda>k. since < k) [kept_from h..<length h]"
  let ?k = "last (take m ?ks)"
  let ?f = "\<lambda>k. (k, take 511 (h ! k))"
  have ne: "take m ?ks \<noteq> []" using assms by (simp add: newer_lines_def take_map)
  have s: "sorted_wrt (<) ?ks" by (simp add: sorted_wrt_filter)
  have "sorted_wrt (<) (take m ?ks @ drop m ?ks)" using s by (simp only: append_take_drop_id)
  then have st: "sorted_wrt (<) (take m ?ks)" "\<And>x y. x \<in> set (take m ?ks) \<Longrightarrow> y \<in> set (drop m ?ks) \<Longrightarrow> x < y"
    unfolding sorted_wrt_append by blast+
  have k: "?k \<in> set (take m ?ks)" using ne by (rule last_in_set)
  note low = sorted_le_last [OF st(1)]
  have "filter (\<lambda>j. ?k < j) ?ks = filter (\<lambda>j. ?k < j) (take m ?ks) @ filter (\<lambda>j. ?k < j) (drop m ?ks)"
    using filter_append [of "\<lambda>j. ?k < j" "take m ?ks" "drop m ?ks"] unfolding append_take_drop_id .
  also have "filter (\<lambda>j. ?k < j) (take m ?ks) = []" unfolding filter_empty_conv not_less by (intro ballI low)
  also have "filter (\<lambda>j. ?k < j) (drop m ?ks) = drop m ?ks" using st(2) [OF k] by (simp add: filter_id_conv)
  finally have "filter (\<lambda>j. ?k < j) ?ks = drop m ?ks" by simp
  moreover have "since < ?k" using k in_set_takeD by fastforce
  then have "filter (\<lambda>j. ?k < j) ?ks = filter (\<lambda>j. ?k < j) [kept_from h..<length h]"
    by (auto intro: filter_cong)
  ultimately have "filter (\<lambda>j. ?k < j) [kept_from h..<length h] = drop m ?ks" by simp
  moreover have "last_number since (take m (newer_lines h since)) = ?k"
    using assms ne by (simp add: last_number_def newer_lines_def take_map last_map)
  ultimately show ?thesis by (simp add: newer_lines_def drop_map)
qed

lemma newer_number: "(k, l) \<in> set (newer_lines h since) \<Longrightarrow> k < length h"
  by (auto simp: newer_lines_def)

text \<open>The first line has the number 0, and only lines with a number above the offset are given: it can never be read.\<close>

lemma first_line_never_read: "(0, l) \<notin> set (newer_lines h since)"
  by (auto simp: newer_lines_def)

subsection \<open>Properties\<close>

text \<open>A request for the log gives the oldest lines newer than the offset that are among the last 256, as many as asked for,
  each cut to 511 characters; the offset for the next request is the number of the last one; and the
  text with its NUL fills the buffer that was measured exactly.\<close>

theorem logs_fetch_correct:
  assumes "length h < 2 ^ 64" "daemon_rpc_logs_fetch (log_after h) max_lines since = (cap, text, next_offset)"
  shows "text = line_text (take (fetch_limit max_lines) (newer_lines h (unat since)))
    \<and> next_offset = of_nat (last_number (unat since) (take (fetch_limit max_lines) (newer_lines h (unat since))))
    \<and> cap = length text + 1"
  using fetch_result [OF assms(1), of max_lines since] assms(2) by (simp add: Let_def)

theorem logs_fetch_correct_witness:
  "\<exists>cap next_offset. daemon_rpc_logs_fetch (log_after [''a'', ''b'', ''c'']) 1 0 = (cap, ''b'' @ [CHR 0x0A], next_offset)"
proof -
  obtain cap piece next_offset where r: "daemon_rpc_logs_fetch (log_after [''a'', ''b'', ''c'']) 1 0 = (cap, piece, next_offset)"
    by (metis prod.collapse)
  have "newer_lines [''a'', ''b'', ''c''] 0 = [(1, ''b''), (2, ''c'')]" by code_simp
  then have "piece = ''b'' @ [CHR 0x0A]"
    using logs_fetch_correct [OF _ r] by (simp add: fetch_limit_def line_text_def)
  then show ?thesis using r by blast
qed

text \<open>C20. Reading piece by piece misses nothing: requests that each start at the offset the one before returned give,
  one after the other, all kept lines newer than the first offset, each once and in order.\<close>

theorem polling_reads_all:
  assumes "length h < 2 ^ 64" "length (newer_lines h (unat since)) \<le> n * fetch_limit max_lines"
  shows "poll_log (log_after h) max_lines n since = line_text (newer_lines h (unat since))"
  using assms(2)
proof (induction n arbitrary: since)
  case 0
  then show ?case by (simp add: line_text_def)
next
  case (Suc n)
  let ?m = "fetch_limit max_lines" and ?new = "newer_lines h (unat since)"
  let ?ls = "take ?m ?new"
  show ?case
  proof (cases "?ls = []")
    case True
    then have e: "?new = []" using fetch_limit_pos [of max_lines] by auto
    have "poll_log (log_after h) max_lines k since = []" for k
      by (induction k) (simp_all add: fetch_result [OF assms(1)] e line_text_def last_number_def)
    then have "poll_log (log_after h) max_lines (Suc n) since = []" .
    then show ?thesis unfolding e by (simp only: line_text_def list.map concat.simps)
  next
    case False
    obtain k l where kl: "last ?ls = (k, l)" by fastforce
    have "(k, l) \<in> set ?ls" using last_in_set [OF False] kl by simp
    then have "k < length h" using newer_number in_set_takeD by fast
    then have u: "unat (of_nat (last_number (unat since) ?ls) :: u64) = last_number (unat since) ?ls"
      using assms(1) False kl by (simp add: last_number_def unat_of_nat take_bit_nat_eq_self)
    have d: "newer_lines h (unat (of_nat (last_number (unat since) ?ls) :: u64)) = drop ?m ?new"
      unfolding u using newer_after_piece [OF False] .
    have "line_text ?new = line_text ?ls @ line_text (drop ?m ?new)"
      unfolding line_text_def concat_append [symmetric] map_append [symmetric] append_take_drop_id ..
    then show ?thesis using Suc.IH [of "of_nat (last_number (unat since) ?ls)"] Suc.prems
      unfolding d by (simp add: fetch_result [OF assms(1)] Let_def)
  qed
qed

theorem polling_reads_all_witness:
  "poll_log (log_after [''a'', ''b'', ''c'']) 1 2 0 = [CHR ''b'', CHR 0x0A, CHR ''c'', CHR 0x0A]"
proof -
  have "newer_lines [''a'', ''b'', ''c''] 0 = [(1, ''b''), (2, ''c'')]" by code_simp
  then show ?thesis using polling_reads_all [of "[''a'', ''b'', ''c'']" 0 2 1] by (simp add: fetch_limit_def line_text_def)
qed

end
