(* ===== verification/Daemon_Stream.thy ===== *)
theory Daemon_Stream
  imports CLib
begin

text \<open>
  The live view of the front ends, \<^verbatim>\<open>src/src/daemon/daemon_rpc.c\<close>: clients attach by server-sent
  events or by a web socket, get a snapshot of queues and downloads, and every second either the next snapshot or the message that
  nothing changed.  Whether something changed is decided by a fingerprint of the content that all clients share.
  A connection is a number; \<open>'c\<close> is the content and \<open>'p\<close> the text of a snapshot, whose construction is
  in \<open>Daemon_Rpc\<close>; what is sent is a list of messages.
\<close>

subsection \<open>The fingerprint\<close>

abbreviation (input) AVAR_FNV1A_OFFSET :: u64 where "AVAR_FNV1A_OFFSET \<equiv> 14695981039346656037"
abbreviation (input) AVAR_FNV1A_PRIME :: u64 where "AVAR_FNV1A_PRIME \<equiv> 1099511628211"

definition fnv1a_step :: "u64 \<Rightarrow> u64 \<Rightarrow> u64" where
  "fnv1a_step fp w = (fp XOR w) * AVAR_FNV1A_PRIME"

fun fnv1a_update :: "u64 \<Rightarrow> string \<Rightarrow> u64" where
  "fnv1a_update fp [] = fp"
| "fnv1a_update fp (c # cs) = fnv1a_update (fnv1a_step fp (of_nat (code_of c))) cs"

text \<open>The eight bytes of a number in memory, little endian.\<close>

definition number_bytes :: "u64 \<Rightarrow> string" where
  "number_bytes w = map (\<lambda>i. char_of (unat (drop_bit (8 * i) w AND 0xFF))) [0..<8]"

text \<open>
  What is asked of the rest of the program, as functions of its state \<open>'c\<close>: the texts of the queues and the items, none where there is no
  memory; id, bytes and size of the running downloads; the text of a snapshot, which may fail.
\<close>

record ('c, 'p) stream_env =
  se_queues :: "'c \<Rightarrow> string option list"
  se_items :: "'c \<Rightarrow> string option list"
  se_active :: "'c \<Rightarrow> (string option \<times> u64 \<times> u64) list"
  se_snapshot :: "'c \<Rightarrow> 'p option"

fun fnv1a_text :: "string option \<Rightarrow> u64 \<Rightarrow> u64" where
  "fnv1a_text None fp = fp"
| "fnv1a_text (Some json) fp = fnv1a_update fp json"

fun fnv1a_active :: "string option \<times> u64 \<times> u64 \<Rightarrow> u64 \<Rightarrow> u64" where
  "fnv1a_active (i, bytes_downloaded, total_bytes) fp =
     fnv1a_update (fnv1a_update (fnv1a_text i fp) (number_bytes bytes_downloaded)) (number_bytes total_bytes)"

definition stream_content_fingerprint :: "('c, 'p) stream_env \<Rightarrow> 'c \<Rightarrow> u64" where
  "stream_content_fingerprint E content =
     (let fp = fnv1a_step AVAR_FNV1A_OFFSET (of_nat (length (se_queues E content)));
          fp = fold fnv1a_text (se_queues E content) fp;
          fp = fnv1a_step fp (of_nat (length (se_items E content)));
          fp = fold fnv1a_text (se_items E content) fp;
          fp = fnv1a_step fp (of_nat (length (se_active E content)))
      in fold fnv1a_active (se_active E content) fp)"

subsection \<open>Clients and messages\<close>

record StreamClient =
  cl_connection :: nat
  cl_websocket :: bool
  cl_wants_stats :: bool

datatype 'p stream_payload = Snapshot 'p | Unchanged | Stats 'p

record 'p stream_message =
  ms_connection :: nat
  ms_websocket :: bool
  ms_payload :: "'p stream_payload"

record 'p streams =
  ss_clients :: "StreamClient list"
  ss_kind :: "nat \<Rightarrow> nat"
  ss_last_tick :: int
  ss_last_full_send :: int
  ss_fingerprint :: u64
  ss_activity :: int
  ss_sent :: "'p stream_message list"

definition no_streams :: "'p streams" where
  "no_streams = \<lparr>ss_clients = [], ss_kind = (\<lambda>_. 0), ss_last_tick = 0, ss_last_full_send = 0, ss_fingerprint = 0,
     ss_activity = 0, ss_sent = []\<rparr>"

fun stream_client_find :: "StreamClient list \<Rightarrow> nat \<Rightarrow> StreamClient option" where
  "stream_client_find [] c = None"
| "stream_client_find (x # xs) c = (if cl_connection x = c then Some x else stream_client_find xs c)"

fun daemon_rpc_any_client_wants_stats :: "(nat \<Rightarrow> bool) \<Rightarrow> StreamClient list \<Rightarrow> bool" where
  "daemon_rpc_any_client_wants_stats closing [] = False"
| "daemon_rpc_any_client_wants_stats closing (x # xs) =
     (if \<not> closing (cl_connection x) \<and> cl_wants_stats x then True else daemon_rpc_any_client_wants_stats closing xs)"

fun stream_client_count :: "(nat \<Rightarrow> bool) \<Rightarrow> StreamClient list \<Rightarrow> nat" where
  "stream_client_count closing [] = 0"
| "stream_client_count closing (x # xs) = (if \<not> closing (cl_connection x) then 1 else 0) + stream_client_count closing xs"

definition daemon_rpc_note_frontend_activity :: "int \<Rightarrow> 'p streams \<Rightarrow> 'p streams" where
  "daemon_rpc_note_frontend_activity now s = s\<lparr>ss_activity := now\<rparr>"

definition daemon_rpc_frontend_clients_active :: "(nat \<Rightarrow> bool) \<Rightarrow> int \<Rightarrow> nat \<Rightarrow> 'p streams \<Rightarrow> bool" where
  "daemon_rpc_frontend_clients_active closing now grace_seconds s \<longleftrightarrow>
     (if stream_client_count closing (ss_clients s) > 0 then True
      else if ss_activity s = 0 then False else now - ss_activity s < int grace_seconds)"

definition stream_client_register :: "int \<Rightarrow> nat \<Rightarrow> bool \<Rightarrow> bool \<Rightarrow> 'p streams \<Rightarrow> 'p streams" where
  "stream_client_register now c websocket wants_stats s =
     daemon_rpc_note_frontend_activity now
       (s\<lparr>ss_kind := (ss_kind s)(c := if websocket then 2 else 1),
          ss_clients := \<lparr>cl_connection = c, cl_websocket = websocket, cl_wants_stats = wants_stats\<rparr> # ss_clients s\<rparr>)"

fun remove_client :: "nat \<Rightarrow> StreamClient list \<Rightarrow> StreamClient list" where
  "remove_client c [] = []"
| "remove_client c (x # xs) = (if cl_connection x = c then xs else x # remove_client c xs)"

definition stream_client_unregister :: "nat \<Rightarrow> 'p streams \<Rightarrow> 'p streams" where
  "stream_client_unregister c s = s\<lparr>ss_kind := (ss_kind s)(c := 0), ss_clients := remove_client c (ss_clients s)\<rparr>"

text \<open>A web socket gets the payload as a text frame, the others as an event.\<close>

definition stream_send_to_connection :: "nat \<Rightarrow> bool \<Rightarrow> 'p stream_payload \<Rightarrow> 'p streams \<Rightarrow> 'p streams" where
  "stream_send_to_connection c websocket payload s =
     s\<lparr>ss_sent := ss_sent s @ [\<lparr>ms_connection = c, ms_websocket = websocket, ms_payload = payload\<rparr>]\<rparr>"

text \<open>The loop over the clients takes out those that are closing; the successor is read before.\<close>

fun broadcast_loop :: "(nat \<Rightarrow> bool) \<Rightarrow> 'p stream_payload \<Rightarrow> StreamClient list \<Rightarrow> 'p streams \<Rightarrow> 'p streams" where
  "broadcast_loop closing payload [] s = s"
| "broadcast_loop closing payload (x # xs) s =
     broadcast_loop closing payload xs
       (if closing (cl_connection x) then stream_client_unregister (cl_connection x) s
        else stream_send_to_connection (cl_connection x) (cl_websocket x) payload s)"

definition stream_broadcast_payload :: "(nat \<Rightarrow> bool) \<Rightarrow> 'p stream_payload \<Rightarrow> 'p streams \<Rightarrow> 'p streams" where
  "stream_broadcast_payload closing payload s = broadcast_loop closing payload (ss_clients s) s"

text \<open>
  The program runs on while a snapshot is built: sending one client a snapshot takes the fingerprint afterwards, of the
  state \<open>content'\<close>; the tick takes it before.
\<close>

definition stream_note_full_snapshot_sent :: "('c, 'p) stream_env \<Rightarrow> int \<Rightarrow> 'c \<Rightarrow> 'p streams \<Rightarrow> 'p streams" where
  "stream_note_full_snapshot_sent E now content s = s\<lparr>ss_fingerprint := stream_content_fingerprint E content, ss_last_full_send := now\<rparr>"

definition daemon_rpc_stream_send :: "('c, 'p) stream_env \<Rightarrow> int \<Rightarrow> 'c \<Rightarrow> 'c \<Rightarrow> nat \<Rightarrow> bool \<Rightarrow> 'p streams \<Rightarrow> 'p streams" where
  "daemon_rpc_stream_send E now content content' c websocket s =
     (case se_snapshot E content of None \<Rightarrow> s
      | Some p \<Rightarrow> stream_note_full_snapshot_sent E now content' (stream_send_to_connection c websocket (Snapshot p) s))"

abbreviation (input) AVAR_STREAM_FULL_RESYNC_SEC :: int where "AVAR_STREAM_FULL_RESYNC_SEC \<equiv> 60"

definition daemon_rpc_streams_tick :: "('c, 'p) stream_env \<Rightarrow> (nat \<Rightarrow> bool) \<Rightarrow> int \<Rightarrow> 'c \<Rightarrow> 'c \<Rightarrow> 'p streams \<Rightarrow> 'p streams" where
  "daemon_rpc_streams_tick E closing now content content' s =
     (if ss_clients s = [] then s
      else if ss_last_tick s \<noteq> 0 \<and> now - ss_last_tick s < 1 then s
      else let s = s\<lparr>ss_last_tick := now\<rparr>;
               force_full = (ss_last_full_send s = 0 \<or> now - ss_last_full_send s \<ge> AVAR_STREAM_FULL_RESYNC_SEC);
               fingerprint = stream_content_fingerprint E content;
               content_changed = (fingerprint \<noteq> ss_fingerprint s)
           in if \<not> force_full \<and> \<not> content_changed
              then daemon_rpc_note_frontend_activity now (stream_broadcast_payload closing Unchanged s)
              else (case se_snapshot E content' of None \<Rightarrow> s
                    | Some p \<Rightarrow> (stream_broadcast_payload closing (Snapshot p) s)\<lparr>ss_fingerprint := fingerprint, ss_last_full_send := now\<rparr>))"

definition daemon_rpc_stream_attach_sse :: "('c, 'p) stream_env \<Rightarrow> int \<Rightarrow> 'c \<Rightarrow> 'c \<Rightarrow> nat \<Rightarrow> bool \<Rightarrow> 'p streams \<Rightarrow> 'p streams" where
  "daemon_rpc_stream_attach_sse E now content content' c wants_stats s =
     daemon_rpc_stream_send E now content content' c False (stream_client_register now c False wants_stats s)"

definition daemon_rpc_stream_attach_ws :: "('c, 'p) stream_env \<Rightarrow> int \<Rightarrow> 'c \<Rightarrow> 'c \<Rightarrow> nat \<Rightarrow> bool \<Rightarrow> 'p streams \<Rightarrow> 'p streams" where
  "daemon_rpc_stream_attach_ws E now content content' c wants_stats s =
     daemon_rpc_stream_send E now content content' c True (stream_client_register now c True wants_stats s)"

definition daemon_rpc_stream_detach :: "nat \<Rightarrow> 'p streams \<Rightarrow> 'p streams" where
  "daemon_rpc_stream_detach c s = stream_client_unregister c s"

text \<open>A ping is answered with statistics when the client wants them; \<open>stats\<close> is their text, nothing when they cannot be had.\<close>

definition daemon_rpc_stream_handle_ws_message :: "int \<Rightarrow> 'p option \<Rightarrow> nat \<Rightarrow> string \<Rightarrow> 'p streams \<Rightarrow> 'p streams" where
  "daemon_rpc_stream_handle_ws_message now stats c payload s =
     (if length payload < 4 \<or> take 4 payload \<noteq> ''ping'' then s
      else let s = daemon_rpc_note_frontend_activity now s
           in case stream_client_find (ss_clients s) c of
                None \<Rightarrow> stream_send_to_connection c True Unchanged s
              | Some client \<Rightarrow>
                  if \<not> cl_wants_stats client then stream_send_to_connection c True Unchanged s
                  else (case stats of None \<Rightarrow> s | Some p \<Rightarrow> stream_send_to_connection c True (Stats p) s))"

subsection \<open>A broadcast\<close>

abbreviation open_clients :: "(nat \<Rightarrow> bool) \<Rightarrow> StreamClient list \<Rightarrow> StreamClient list" where
  "open_clients closing xs \<equiv> filter (\<lambda>x. \<not> closing (cl_connection x)) xs"

definition message_to :: "'p stream_payload \<Rightarrow> StreamClient \<Rightarrow> 'p stream_message" where
  "message_to payload x = \<lparr>ms_connection = cl_connection x, ms_websocket = cl_websocket x, ms_payload = payload\<rparr>"

lemma remove_client_middle:
  "(\<And>y. y \<in> set ys \<Longrightarrow> cl_connection y \<noteq> cl_connection x) \<Longrightarrow> remove_client (cl_connection x) (ys @ x # zs) = ys @ zs"
  by (induction ys) auto

lemma broadcast_loop_result:
  assumes "\<And>y. y \<in> set ys \<Longrightarrow> \<not> closing (cl_connection y)" "ss_clients s = ys @ xs"
  shows "\<exists>k. broadcast_loop closing payload xs s = s\<lparr>ss_clients := ys @ open_clients closing xs, ss_kind := k,
    ss_sent := ss_sent s @ map (message_to payload) (open_clients closing xs)\<rparr>"
  using assms
proof (induction xs arbitrary: ys s)
  case Nil
  then show ?case by (intro exI [of _ "ss_kind s"]) simp
next
  case (Cons x xs)
  show ?case
  proof (cases "closing (cl_connection x)")
    case True
    then have "\<And>y. y \<in> set ys \<Longrightarrow> cl_connection y \<noteq> cl_connection x" using Cons.prems(1) by fastforce
    then have "ss_clients (stream_client_unregister (cl_connection x) s) = ys @ xs"
      using Cons.prems(2) remove_client_middle [of ys x xs] by (simp add: stream_client_unregister_def)
    from Cons.IH [OF Cons.prems(1) this] show ?thesis using True by (auto simp: stream_client_unregister_def)
  next
    case False
    let ?s = "stream_send_to_connection (cl_connection x) (cl_websocket x) payload s"
    have "ss_clients ?s = (ys @ [x]) @ xs" using Cons.prems(2) by (simp add: stream_send_to_connection_def)
    moreover have "\<And>y. y \<in> set (ys @ [x]) \<Longrightarrow> \<not> closing (cl_connection y)" using Cons.prems(1) False by auto
    ultimately have "\<exists>k. broadcast_loop closing payload xs ?s = ?s\<lparr>ss_clients := (ys @ [x]) @ open_clients closing xs, ss_kind := k,
        ss_sent := ss_sent ?s @ map (message_to payload) (open_clients closing xs)\<rparr>" by (rule Cons.IH [rotated])
    then obtain k where "broadcast_loop closing payload xs ?s = ?s\<lparr>ss_clients := (ys @ [x]) @ open_clients closing xs, ss_kind := k,
        ss_sent := ss_sent ?s @ map (message_to payload) (open_clients closing xs)\<rparr>" by blast
    moreover have "message_to payload x = \<lparr>ms_connection = cl_connection x, ms_websocket = cl_websocket x, ms_payload = payload\<rparr>"
      by (simp add: message_to_def)
    ultimately show ?thesis using False by (intro exI [of _ k]) (simp add: stream_send_to_connection_def)
  qed
qed

lemma broadcast_result:
  "\<exists>k. stream_broadcast_payload closing payload s = s\<lparr>ss_clients := open_clients closing (ss_clients s), ss_kind := k,
    ss_sent := ss_sent s @ map (message_to payload) (open_clients closing (ss_clients s))\<rparr>"
  using broadcast_loop_result [of "[]" closing s "ss_clients s" payload] by (simp add: stream_broadcast_payload_def)

subsection \<open>What a client has seen\<close>

fun snapshot_of :: "'p stream_payload \<Rightarrow> 'p option" where
  "snapshot_of (Snapshot p) = Some p"
| "snapshot_of _ = None"

text \<open>The last snapshot sent to a connection.\<close>

fun last_snapshot :: "nat \<Rightarrow> 'p stream_message list \<Rightarrow> 'p option \<Rightarrow> 'p option" where
  "last_snapshot c [] seen = seen"
| "last_snapshot c (m # ms) seen =
     last_snapshot c ms (if ms_connection m = c \<and> snapshot_of (ms_payload m) \<noteq> None then snapshot_of (ms_payload m) else seen)"

lemma last_snapshot_append: "last_snapshot c (ms @ ms') seen = last_snapshot c ms' (last_snapshot c ms seen)"
  by (induction ms arbitrary: seen) simp_all

lemma last_snapshot_same: "(\<And>m. m \<in> set ms \<Longrightarrow> snapshot_of (ms_payload m) = None \<or> ms_connection m \<noteq> c) \<Longrightarrow> last_snapshot c ms seen = seen"
proof (induction ms arbitrary: seen)
  case (Cons m ms)
  have "snapshot_of (ms_payload m) = None \<or> ms_connection m \<noteq> c" by (rule Cons.prems) simp
  moreover have "last_snapshot c ms seen = seen" by (rule Cons.IH, rule Cons.prems) simp
  ultimately show ?case by auto
qed simp

lemma last_snapshot_broadcast:
  "x \<in> set xs \<Longrightarrow> last_snapshot (cl_connection x) (map (message_to (Snapshot p)) xs) seen = Some p"
proof (induction xs arbitrary: seen rule: rev_induct)
  case (snoc y xs)
  show ?case
  proof (cases "cl_connection y = cl_connection x")
    case True
    then show ?thesis by (simp add: last_snapshot_append message_to_def)
  next
    case False
    then have "x \<in> set xs" using snoc.prems by auto
    then show ?thesis using snoc.IH [of seen] False by (simp add: last_snapshot_append message_to_def)
  qed
qed simp

definition has_seen :: "('c, 'p) stream_env \<Rightarrow> nat \<Rightarrow> u64 \<Rightarrow> 'p streams \<Rightarrow> bool" where
  "has_seen E c fp s \<longleftrightarrow> (\<exists>content p. last_snapshot c (ss_sent s) None = Some p \<and> se_snapshot E content = Some p \<and> stream_content_fingerprint E content = fp)"

definition in_sync :: "('c, 'p) stream_env \<Rightarrow> 'p streams \<Rightarrow> bool" where
  "in_sync E s \<longleftrightarrow> (\<forall>x\<in>set (ss_clients s). has_seen E (cl_connection x) (ss_fingerprint s) s)"

lemma tick_effect:
  assumes "in_sync E s" "ss_last_tick s = 0 \<or> now - ss_last_tick s \<ge> 1" "se_snapshot E content \<noteq> None"
    and s': "s' = daemon_rpc_streams_tick E closing now content content s"
  shows "in_sync E s'" "ss_clients s' = open_clients closing (ss_clients s)"
    "ss_clients s \<noteq> [] \<Longrightarrow> ss_fingerprint s' = stream_content_fingerprint E content"
proof -
  have "in_sync E s' \<and> ss_clients s' = open_clients closing (ss_clients s) \<and> (ss_clients s \<noteq> [] \<longrightarrow> ss_fingerprint s' = stream_content_fingerprint E content)"
  proof (cases "ss_clients s = []")
    case True
    then show ?thesis using s' by (simp add: daemon_rpc_streams_tick_def in_sync_def)
  next
    case False
    let ?s = "s\<lparr>ss_last_tick := now\<rparr>"
    have notskip: "\<not> (ss_last_tick s \<noteq> 0 \<and> now - ss_last_tick s < 1)" using assms(2) by auto
    show ?thesis
    proof (cases "(ss_last_full_send s = 0 \<or> now - ss_last_full_send s \<ge> 60) \<or> stream_content_fingerprint E content \<noteq> ss_fingerprint s")
      case True
      obtain p where p: "se_snapshot E content = Some p" using assms(3) by blast
      obtain k where k: "stream_broadcast_payload closing (Snapshot p) ?s = ?s\<lparr>ss_clients := open_clients closing (ss_clients ?s), ss_kind := k,
          ss_sent := ss_sent ?s @ map (message_to (Snapshot p)) (open_clients closing (ss_clients ?s))\<rparr>"
        using broadcast_result by blast
      have e: "s' = (stream_broadcast_payload closing (Snapshot p) ?s)\<lparr>ss_fingerprint := stream_content_fingerprint E content, ss_last_full_send := now\<rparr>"
      proof -
        have "\<not> (\<not> (ss_last_full_send ?s = 0 \<or> now - ss_last_full_send ?s \<ge> 60) \<and> \<not> stream_content_fingerprint E content \<noteq> ss_fingerprint ?s)"
          using True by auto
        then show ?thesis
          unfolding s' daemon_rpc_streams_tick_def Let_def if_not_P [OF False] if_not_P [OF notskip] by (simp only: if_False p option.case)
      qed
      have "has_seen E (cl_connection x) (stream_content_fingerprint E content) s'" if "x \<in> set (open_clients closing (ss_clients s))" for x
        using last_snapshot_broadcast [OF that, of p] p by (auto simp: has_seen_def e k last_snapshot_append)
      then show ?thesis by (simp add: e k in_sync_def)
    next
      case quiet: False
      obtain k where k: "stream_broadcast_payload closing Unchanged ?s = ?s\<lparr>ss_clients := open_clients closing (ss_clients ?s), ss_kind := k,
          ss_sent := ss_sent ?s @ map (message_to Unchanged) (open_clients closing (ss_clients ?s))\<rparr>"
        using broadcast_result by blast
      have e: "s' = daemon_rpc_note_frontend_activity now (stream_broadcast_payload closing Unchanged ?s)"
        using s' False notskip quiet by (simp add: daemon_rpc_streams_tick_def Let_def)
      have "last_snapshot c (ss_sent s') None = last_snapshot c (ss_sent s) None" for c
        by (simp add: e daemon_rpc_note_frontend_activity_def k last_snapshot_append) (rule last_snapshot_same, auto simp: message_to_def)
      then show ?thesis using assms(1) quiet by (auto simp: in_sync_def has_seen_def e daemon_rpc_note_frontend_activity_def k)
    qed
  qed
  then show "in_sync E s'" "ss_clients s' = open_clients closing (ss_clients s)"
    "ss_clients s \<noteq> [] \<Longrightarrow> ss_fingerprint s' = stream_content_fingerprint E content" by auto
qed

subsection \<open>Runs\<close>

text \<open>
  All operations, each in one state of the program.  A client that attaches while others listen must find the content of the
  last full snapshot; what happens otherwise is below.
\<close>

inductive fair_run :: "('c, 'p) stream_env \<Rightarrow> 'p streams \<Rightarrow> bool" for E where
  fair_start: "fair_run E no_streams"
| fair_tick: "fair_run E s \<Longrightarrow> fair_run E (daemon_rpc_streams_tick E closing now content content s)"
| fair_sse: "fair_run E s \<Longrightarrow> ss_clients s = [] \<or> stream_content_fingerprint E content = ss_fingerprint s \<Longrightarrow> se_snapshot E content \<noteq> None \<Longrightarrow>
    fair_run E (daemon_rpc_stream_attach_sse E now content content c wants_stats s)"
| fair_ws: "fair_run E s \<Longrightarrow> ss_clients s = [] \<or> stream_content_fingerprint E content = ss_fingerprint s \<Longrightarrow> se_snapshot E content \<noteq> None \<Longrightarrow>
    fair_run E (daemon_rpc_stream_attach_ws E now content content c wants_stats s)"
| fair_detach: "fair_run E s \<Longrightarrow> fair_run E (daemon_rpc_stream_detach c s)"
| fair_message: "fair_run E s \<Longrightarrow> fair_run E (daemon_rpc_stream_handle_ws_message now stats c payload s)"

lemma tick_refused:
  "\<not> (ss_last_tick s = 0 \<or> now - ss_last_tick s \<ge> 1) \<Longrightarrow> daemon_rpc_streams_tick E closing now content content' s = s"
  by (simp add: daemon_rpc_streams_tick_def)

lemma quiet_broadcast_sync:
  assumes "in_sync E s"
  shows "in_sync E (daemon_rpc_note_frontend_activity now (stream_broadcast_payload closing Unchanged s))"
proof -
  obtain k where k: "stream_broadcast_payload closing Unchanged s = s\<lparr>ss_clients := open_clients closing (ss_clients s), ss_kind := k,
      ss_sent := ss_sent s @ map (message_to Unchanged) (open_clients closing (ss_clients s))\<rparr>"
    using broadcast_result by blast
  have "last_snapshot c (ss_sent s @ map (message_to Unchanged) (open_clients closing (ss_clients s))) None = last_snapshot c (ss_sent s) None" for c
    unfolding last_snapshot_append by (rule last_snapshot_same) (auto simp: message_to_def)
  then show ?thesis using assms by (auto simp: in_sync_def has_seen_def daemon_rpc_note_frontend_activity_def k)
qed

lemma tick_failed:
  assumes "in_sync E s" "se_snapshot E content' = None"
  shows "in_sync E (daemon_rpc_streams_tick E closing now content content' s)"
proof -
  have *: "in_sync E (s\<lparr>ss_last_tick := now\<rparr>)" using assms(1) by (simp add: in_sync_def has_seen_def)
  show ?thesis using assms * quiet_broadcast_sync [OF *] by (simp add: daemon_rpc_streams_tick_def Let_def)
qed

lemma tick_in_sync:
  assumes "in_sync E s"
  shows "in_sync E (daemon_rpc_streams_tick E closing now content content s)"
proof (cases "(ss_last_tick s = 0 \<or> now - ss_last_tick s \<ge> 1) \<and> se_snapshot E content \<noteq> None")
  case True
  then show ?thesis using tick_effect(1) [OF assms _ _ refl] by blast
next
  case False
  then show ?thesis using assms tick_refused [of s now E closing content content] tick_failed [OF assms, of content closing now content] by auto
qed

lemma has_seen_other:
  "has_seen E c fp (s\<lparr>ss_sent := ss_sent s @ [\<lparr>ms_connection = d, ms_websocket = w, ms_payload = Snapshot p\<rparr>], ss_clients := cs, ss_kind := k,
     ss_activity := a, ss_fingerprint := fp', ss_last_full_send := l\<rparr>) \<longleftrightarrow>
   (if c = d then \<exists>content. se_snapshot E content = Some p \<and> stream_content_fingerprint E content = fp else has_seen E c fp s)"
  by (auto simp: has_seen_def last_snapshot_append)

lemma attach_result:
  assumes "se_snapshot E content = Some p"
  shows "daemon_rpc_stream_send E now content content' c websocket (stream_client_register now c websocket wants_stats s) =
    s\<lparr>ss_sent := ss_sent s @ [\<lparr>ms_connection = c, ms_websocket = websocket, ms_payload = Snapshot p\<rparr>],
      ss_clients := \<lparr>cl_connection = c, cl_websocket = websocket, cl_wants_stats = wants_stats\<rparr> # ss_clients s,
      ss_kind := (ss_kind s)(c := if websocket then 2 else 1), ss_activity := now,
      ss_fingerprint := stream_content_fingerprint E content', ss_last_full_send := now\<rparr>"
  using assms by (simp add: daemon_rpc_stream_send_def stream_client_register_def stream_note_full_snapshot_sent_def
      stream_send_to_connection_def daemon_rpc_note_frontend_activity_def)

lemma attach_in_sync:
  assumes sync: "in_sync E s" and c: "ss_clients s = [] \<or> stream_content_fingerprint E content = ss_fingerprint s" and "se_snapshot E content \<noteq> None"
  shows "in_sync E (daemon_rpc_stream_send E now content content c websocket (stream_client_register now c websocket wants_stats s))"
proof -
  obtain p where p: "se_snapshot E content = Some p" using assms(3) by blast
  have "has_seen E (cl_connection x) (stream_content_fingerprint E content) s" if "x \<in> set (ss_clients s)" for x
    using sync c that by (auto simp: in_sync_def)
  then show ?thesis using p unfolding in_sync_def attach_result [OF p] by (simp add: has_seen_other) blast
qed

lemma remove_client_subset: "set (remove_client c xs) \<subseteq> set xs" by (induction xs) auto

lemma message_in_sync:
  assumes "in_sync E s"
  shows "in_sync E (daemon_rpc_stream_handle_ws_message now stats c payload s)"
proof -
  have "in_sync E (stream_send_to_connection c True q (daemon_rpc_note_frontend_activity now s))" if "snapshot_of q = None" for q
    using assms that
    by (simp add: in_sync_def has_seen_def stream_send_to_connection_def daemon_rpc_note_frontend_activity_def last_snapshot_append)
  moreover have "in_sync E (daemon_rpc_note_frontend_activity now s)"
    using assms by (simp add: in_sync_def has_seen_def daemon_rpc_note_frontend_activity_def)
  ultimately show ?thesis using assms by (simp add: daemon_rpc_stream_handle_ws_message_def Let_def split: option.split)
qed

lemma fair_run_in_sync: "fair_run E s \<Longrightarrow> in_sync E s"
proof (induction rule: fair_run.induct)
  case fair_start
  show ?case by (simp add: in_sync_def no_streams_def)
next
  case (fair_tick s closing now content)
  then show ?case by (simp add: tick_in_sync)
next
  case (fair_sse s content now c wants_stats)
  then show ?case unfolding daemon_rpc_stream_attach_sse_def by (simp add: attach_in_sync)
next
  case (fair_ws s content now c wants_stats)
  then show ?case unfolding daemon_rpc_stream_attach_ws_def by (simp add: attach_in_sync)
next
  case (fair_detach s c)
  then show ?case using remove_client_subset [of c "ss_clients s"]
    by (auto simp: in_sync_def has_seen_def daemon_rpc_stream_detach_def stream_client_unregister_def)
next
  case (fair_message s now stats c payload)
  then show ?case by (simp add: message_in_sync)
qed

lemma tick_has_seen:
  assumes "fair_run E s" "ss_last_tick s = 0 \<or> now - ss_last_tick s \<ge> 1" "se_snapshot E content \<noteq> None"
    "x \<in> set (ss_clients s)" "\<not> closing (cl_connection x)"
  shows "has_seen E (cl_connection x) (stream_content_fingerprint E content) (daemon_rpc_streams_tick E closing now content content s)"
proof -
  note eff = tick_effect [OF fair_run_in_sync [OF assms(1)] assms(2,3) refl, of closing]
  from assms(4) have "ss_clients s \<noteq> []" by auto
  from eff(3) [OF this] eff(1) show ?thesis using assms(4,5) by (auto simp: in_sync_def eff(2))
qed


text \<open>Two items; a client attaches at 100, a download moves on, the tick at 101 shows it.\<close>

definition example_env :: "(u64, u64) stream_env" where
  "example_env = \<lparr>se_queues = (\<lambda>_. []), se_items = (\<lambda>_. []), se_active = (\<lambda>n. [(Some ''a'', n, 9)]), se_snapshot = Some\<rparr>"

definition one_client :: "u64 streams" where
  "one_client = daemon_rpc_stream_attach_ws example_env 100 3 3 7 False no_streams"

lemma one_client_run: "fair_run example_env one_client"
  unfolding one_client_def by (rule fair_ws [OF fair_start]) (simp_all add: no_streams_def example_env_def)

lemma one_client_registered: "ss_last_tick one_client = 0" "map cl_connection (ss_clients one_client) = [7]"
  unfolding one_client_def daemon_rpc_stream_attach_ws_def
  by (subst attach_result [where p = 3], simp add: example_env_def, simp add: no_streams_def)+


subsection \<open>A change that is hidden\<close>

text \<open>
  A client that attaches is sent the present state alone, but the fingerprint that all clients share is renewed: the next tick finds nothing
  changed, and the client that was there before is told so.
\<close>

lemma attach_hides_change:
  assumes "se_snapshot E content = Some p" "ss_last_tick s = 0 \<or> later - ss_last_tick s \<ge> 1" "now \<le> later" "later < now + 60" "now \<noteq> 0"
    "x \<in> set (ss_clients s)" "cl_connection x \<noteq> c"
  shows "last_snapshot (cl_connection x)
      (ss_sent (daemon_rpc_streams_tick E closing later content content (daemon_rpc_stream_attach_ws E now content content c wants_stats s))) None =
    last_snapshot (cl_connection x) (ss_sent s) None"
proof -
  let ?a = "daemon_rpc_stream_attach_ws E now content content c wants_stats s"
  let ?b = "?a\<lparr>ss_last_tick := later\<rparr>"
  note a = daemon_rpc_stream_attach_ws_def attach_result [OF assms(1)]
  have t: "ss_last_tick ?a = ss_last_tick s" "ss_clients ?a \<noteq> []" "ss_fingerprint ?a = stream_content_fingerprint E content" "ss_last_full_send ?a = now"
    by (simp_all add: a)
  have q: "daemon_rpc_streams_tick E closing later content content ?a =
      daemon_rpc_note_frontend_activity later (stream_broadcast_payload closing Unchanged ?b)"
  proof -
    have n: "\<not> (ss_last_tick ?a \<noteq> 0 \<and> later - ss_last_tick ?a < 1)" using assms(2) t(1) by auto
    have m: "\<not> (ss_last_full_send ?b = 0 \<or> later - ss_last_full_send ?b \<ge> 60) \<and> \<not> stream_content_fingerprint E content \<noteq> ss_fingerprint ?b"
      using assms(3-5) t(3,4) by simp
    show ?thesis unfolding daemon_rpc_streams_tick_def Let_def if_not_P [OF t(2)] if_not_P [OF n] if_P [OF m] ..
  qed
  obtain k where k: "stream_broadcast_payload closing Unchanged ?b = ?b\<lparr>ss_clients := open_clients closing (ss_clients ?b), ss_kind := k,
      ss_sent := ss_sent ?b @ map (message_to Unchanged) (open_clients closing (ss_clients ?b))\<rparr>"
    using broadcast_result by blast
  have "last_snapshot (cl_connection x) (ss_sent ?b @ map (message_to Unchanged) (open_clients closing (ss_clients ?b))) None =
      last_snapshot (cl_connection x) (ss_sent ?b) None"
    unfolding last_snapshot_append by (rule last_snapshot_same) (auto simp: message_to_def)
  also have "\<dots> = last_snapshot (cl_connection x) (ss_sent s) None" using assms(7) by (simp add: a last_snapshot_append)
  finally show ?thesis by (simp add: q k daemon_rpc_note_frontend_activity_def)
qed

end
