(* ===== verification/File_Checksum.thy ===== *)
theory File_Checksum
  imports Ids
begin

text \<open>
  Checksums of downloaded files, \<^verbatim>\<open>src/src/file_checksum.c\<close>: the digest in hexadecimal digits and its
  comparison with a value a user pasted, which may carry a label, \<open>0x\<close>, capital letters and separators.
  The digests themselves come from mongoose and mbedtls, whose functions are parameters.
\<close>

subsection \<open>Digests\<close>

datatype mbedtls_md_type = MBEDTLS_MD_NONE | MBEDTLS_MD_MD5 | MBEDTLS_MD_SHA1 | MBEDTLS_MD_SHA224 | MBEDTLS_MD_SHA256
  | MBEDTLS_MD_SHA384 | MBEDTLS_MD_SHA512 | MBEDTLS_MD_RIPEMD160

text \<open>\<open>mbedtls_md_file\<close> is the digest of the file at a path, nothing when it fails.\<close>

record hash_api =
  mg_crc32 :: "u32 \<Rightarrow> string \<Rightarrow> u32"
  mbedtls_md_file :: "mbedtls_md_type \<Rightarrow> string \<Rightarrow> u8 list option"

fun hex_bytes :: "u8 list \<Rightarrow> string" where
  "hex_bytes [] = []"
| "hex_bytes (b # bs) = hex_digit (unat (drop_bit 4 b AND 0x0F)) # hex_digit (unat (b AND 0x0F)) # hex_bytes bs"

definition bytes_to_lower_hex :: "u8 list \<Rightarrow> cstring" where
  "bytes_to_lower_hex data = (if data = [] then None else Some (hex_bytes data))"

definition mbedtls_type_for_algorithm :: "cstring \<Rightarrow> mbedtls_md_type" where
  "mbedtls_type_for_algorithm algorithm =
     (if algorithm = Some ''md5'' then MBEDTLS_MD_MD5
      else if algorithm = Some ''sha1'' then MBEDTLS_MD_SHA1
      else if algorithm = Some ''sha224'' then MBEDTLS_MD_SHA224
      else if algorithm = Some ''sha256'' then MBEDTLS_MD_SHA256
      else if algorithm = Some ''sha384'' then MBEDTLS_MD_SHA384
      else if algorithm = Some ''sha512'' then MBEDTLS_MD_SHA512
      else if algorithm = Some ''ripemd160'' then MBEDTLS_MD_RIPEMD160
      else MBEDTLS_MD_NONE)"

definition file_checksum_algorithm_supported :: "cstring \<Rightarrow> bool" where
  "file_checksum_algorithm_supported algorithm \<longleftrightarrow>
     algorithm = Some ''crc32'' \<or> mbedtls_type_for_algorithm algorithm \<noteq> MBEDTLS_MD_NONE"

text \<open>Reading for the sum: nothing when the file cannot be opened, else the pieces \<open>fread\<close> returned and whether
  an error ended them.\<close>

fun crc_loop :: "hash_api \<Rightarrow> u32 \<Rightarrow> string list \<Rightarrow> u32" where
  "crc_loop H crc [] = crc"
| "crc_loop H crc (piece # pieces) = crc_loop H (mg_crc32 H crc piece) pieces"

definition byte_at :: "u32 \<Rightarrow> nat \<Rightarrow> u8" where
  "byte_at v n = ucast (drop_bit n v AND 0xFF)"

definition file_crc32_hex :: "hash_api \<Rightarrow> (string list \<times> bool) option \<Rightarrow> int \<times> cstring" where
  "file_crc32_hex H reads =
     (case reads of None \<Rightarrow> (EXIT_FAILURE, None)
      | Some (pieces, failed) \<Rightarrow>
          if failed then (EXIT_FAILURE, None)
          else let v = crc_loop H 0 pieces
               in (EXIT_SUCCESS, bytes_to_lower_hex [byte_at v 24, byte_at v 16, byte_at v 8, byte_at v 0]))"

definition file_mbedtls_hex :: "hash_api \<Rightarrow> string \<Rightarrow> mbedtls_md_type \<Rightarrow> int \<times> cstring" where
  "file_mbedtls_hex H path md_type =
     (case mbedtls_md_file H md_type path of None \<Rightarrow> (EXIT_FAILURE, None)
      | Some digest \<Rightarrow> (case bytes_to_lower_hex digest of None \<Rightarrow> (EXIT_FAILURE, None) | Some h \<Rightarrow> (EXIT_SUCCESS, Some h)))"

definition file_checksum_file ::
  "hash_api \<Rightarrow> bool \<Rightarrow> (string list \<times> bool) option \<Rightarrow> cstring \<Rightarrow> cstring \<Rightarrow> int \<times> cstring" where
  "file_checksum_file H exists reads path algorithm =
     (if path = None \<or> algorithm = None then (EXIT_FAILURE, None)
      else if \<not> exists then (EXIT_FAILURE, None)
      else if algorithm = Some ''crc32'' then file_crc32_hex H reads
      else let md_type = mbedtls_type_for_algorithm algorithm
           in if md_type = MBEDTLS_MD_NONE then (EXIT_FAILURE, None) else file_mbedtls_hex H (the path) md_type)"

subsection \<open>Comparing\<close>

definition skip_label :: "string \<Rightarrow> string" where
  "skip_label s =
     (case strchr s CHR '':'' of None \<Rightarrow> s
      | Some colon \<Rightarrow>
          let label = upto_suffix s colon
          in if label \<noteq> [] \<and> length label < 16 \<and> list_all isalnum label then dropWhile isspace (tl colon) else s)"

fun skip_0x :: "string \<Rightarrow> string" where
  "skip_0x (a # b # s) = (if a = CHR ''0'' \<and> (b = CHR ''x'' \<or> b = CHR ''X'') then s else a # b # s)"
| "skip_0x s = s"

definition separator :: "char \<Rightarrow> bool" where
  "separator c \<longleftrightarrow> c = CHR '' '' \<or> c = CHR 0x09 \<or> c = CHR 0x0D \<or> c = CHR 0x0A \<or> c = CHR ''-''"

fun copy_digits :: "nat \<Rightarrow> string \<Rightarrow> string \<Rightarrow> string" where
  "copy_digits out_len [] out = out"
| "copy_digits out_len (c # cs) out =
     (if length out + 1 < out_len
      then copy_digits out_len cs (if separator c then out else out @ [tolower c])
      else out)"

definition file_checksum_normalize :: "cstring \<Rightarrow> nat \<Rightarrow> string" where
  "file_checksum_normalize v out_len =
     (case v of None \<Rightarrow> [] | Some v \<Rightarrow> copy_digits out_len (skip_0x (skip_label (dropWhile isspace v))) [])"

definition file_checksum_matches :: "cstring \<Rightarrow> cstring \<Rightarrow> bool" where
  "file_checksum_matches computed expected \<longleftrightarrow>
     (let left = file_checksum_normalize computed 256; right = file_checksum_normalize expected 256
      in left \<noteq> [] \<and> right \<noteq> [] \<and> left = right)"

subsection \<open>Digits\<close>

definition lower_hex :: "char set" where "lower_hex = set ''0123456789abcdef''"
definition any_hex :: "char set" where "any_hex = set ''0123456789abcdefABCDEF''"

lemma lower_any: "lower_hex \<subseteq> any_hex" by (simp add: lower_hex_def any_hex_def)

lemma hex_digit_cases: "n < 16 \<Longrightarrow> hex_digit n \<in> lower_hex"
  unfolding hex_digit_def lower_hex_def by (rule nth_mem) simp

text \<open>What a written checksum is made of: digits in any case and separators, the first a digit.\<close>

definition hex_text :: "string \<Rightarrow> bool" where
  "hex_text s \<longleftrightarrow> set s \<subseteq> any_hex \<union> {c. separator c} \<and> s \<noteq> [] \<and> \<not> separator (hd s)"

definition digits_of :: "string \<Rightarrow> string" where
  "digits_of s = map tolower (filter (\<lambda>c. \<not> separator c) s)"

lemma copy_digits_take:
  assumes "0 < out_len"
  shows "length out < out_len \<Longrightarrow> copy_digits out_len s out = take (out_len - 1) (out @ digits_of s)"
proof (induction s arbitrary: out)
  case (Cons c s)
  then show ?case
  proof (cases "length out + 1 < out_len")
    case True
    then show ?thesis using Cons.IH [of out] Cons.IH [of "out @ [tolower c]"] by (simp add: digits_of_def)
  next
    case False
    then show ?thesis using Cons.prems by simp
  qed
qed (simp add: digits_of_def)

lemma nibbles: "unat (drop_bit 4 (b :: u8) AND 0x0F) < 16" "unat (b AND 0x0F) < 16"
proof -
  have "b AND 0x0F \<le> 0x0F" "drop_bit 4 b AND 0x0F \<le> 0x0F" by (rule word_and_le1)+
  then show "unat (drop_bit 4 b AND 0x0F) < 16" "unat (b AND 0x0F) < 16" by (simp_all add: word_le_nat_alt)
qed

lemma hex_char_simple:
  "c \<in> lower_hex \<Longrightarrow> \<not> separator c \<and> tolower c = c \<and> \<not> isspace c \<and> c \<noteq> CHR '':'' \<and> c \<noteq> CHR ''x'' \<and> c \<noteq> CHR ''X''"
  by (auto simp: lower_hex_def separator_def tolower_def isupper_def isspace_def code_of_def)

lemma hex_bytes_set: "set (hex_bytes bs) \<subseteq> lower_hex"
proof (induction bs)
  case (Cons b bs)
  then show ?case using hex_digit_cases [OF nibbles(1) [of b]] hex_digit_cases [OF nibbles(2) [of b]] by simp
qed simp

lemma hex_bytes_text: "bs \<noteq> [] \<Longrightarrow> hex_text (hex_bytes bs)" "digits_of (hex_bytes bs) = hex_bytes bs"
proof -
  note h = hex_bytes_set [of bs]
  have c: "\<And>c. c \<in> set (hex_bytes bs) \<Longrightarrow> \<not> separator c \<and> tolower c = c" using h hex_char_simple by blast
  show "digits_of (hex_bytes bs) = hex_bytes bs" using c unfolding digits_of_def
    by (subst filter_id_conv [THEN iffD2]) (auto intro: map_idI)
  assume "bs \<noteq> []"
  then have ne: "hex_bytes bs \<noteq> []" by (cases bs) simp_all
  then show "hex_text (hex_bytes bs)" unfolding hex_text_def using h lower_any c [OF hd_in_set [OF ne]] by blast
qed

lemma hex_digit_cancel: "m < 16 \<Longrightarrow> n < 16 \<Longrightarrow> hex_digit m = hex_digit n \<longleftrightarrow> m = n"
  unfolding hex_digit_def by (rule nth_eq_iff_index_eq) simp_all

lemma byte_nibbles: "drop_bit 4 a AND 0x0F = drop_bit 4 b AND 0x0F \<Longrightarrow> a AND 0x0F = b AND 0x0F \<Longrightarrow> a = (b :: u8)"
proof (rule bit_word_eqI)
  fix n
  assume hi: "drop_bit 4 a AND 0x0F = drop_bit 4 b AND 0x0F" and lo: "a AND 0x0F = b AND 0x0F" and n: "n < LENGTH(8)"
  show "bit a n \<longleftrightarrow> bit b n"
  proof (cases "n < 4")
    case True
    have "bit (a AND 0x0F) n \<longleftrightarrow> bit (b AND 0x0F) n" using lo by simp
    moreover have "bit (0x0F :: u8) n" using True by (auto simp: less_Suc_eq numeral_eq_Suc bit_Suc)
    ultimately show ?thesis by (simp add: bit_simps)
  next
    case False
    have "bit (drop_bit 4 a AND 0x0F) (n - 4) \<longleftrightarrow> bit (drop_bit 4 b AND 0x0F) (n - 4)" using hi by simp
    moreover have "bit (0x0F :: u8) (n - 4)" using False n by (auto simp: less_Suc_eq numeral_eq_Suc bit_Suc)
    ultimately show ?thesis using False by (simp add: bit_simps)
  qed
qed

lemma hex_bytes_inj: "hex_bytes a = hex_bytes b \<longleftrightarrow> a = b"
proof (induction a arbitrary: b)
  case Nil
  then show ?case by (cases b) simp_all
next
  case (Cons x a)
  show ?case
  proof (cases b)
    case (Cons y b')
    have "hex_digit (unat (drop_bit 4 x AND 0x0F)) = hex_digit (unat (drop_bit 4 y AND 0x0F))
        \<longleftrightarrow> drop_bit 4 x AND 0x0F = drop_bit 4 y AND 0x0F"
      "hex_digit (unat (x AND 0x0F)) = hex_digit (unat (y AND 0x0F)) \<longleftrightarrow> x AND 0x0F = y AND 0x0F"
      using hex_digit_cancel nibbles by (simp_all add: word_unat_eq_iff)
    then show ?thesis using Cons Cons.IH [of b'] byte_nibbles [of x y] by auto
  qed simp
qed

subsection \<open>What a user may paste\<close>

definition decorated :: "string \<Rightarrow> string \<Rightarrow> string \<Rightarrow> string \<Rightarrow> string \<Rightarrow> string" where
  "decorated space label space' prefix s = space @ (if label = [] then [] else label @ CHR '':'' # space') @ prefix @ s"

definition decoration_ok :: "string \<Rightarrow> string \<Rightarrow> string \<Rightarrow> string \<Rightarrow> bool" where
  "decoration_ok space label space' prefix \<longleftrightarrow> list_all isspace space \<and> list_all isspace space' \<and> list_all isalnum label
     \<and> length label < 16 \<and> prefix \<in> {[], ''0x'', ''0X''}"

lemma hex_text_chars:
  assumes "hex_text s" "c \<in> set s"
  shows "c \<noteq> CHR '':''" "c \<noteq> CHR ''x''" "c \<noteq> CHR ''X''"
  using assms by (auto simp: hex_text_def any_hex_def separator_def)

lemma hex_text_head:
  assumes "hex_text s"
  shows "\<not> isspace (hd s)"
proof -
  have "hd s \<in> set s" "\<not> separator (hd s)" using assms by (simp_all add: hex_text_def)
  then have "hd s \<in> any_hex" using assms unfolding hex_text_def by blast
  then show ?thesis by (auto simp: any_hex_def isspace_def code_of_def)
qed

lemma drop_space:
  assumes "list_all isspace space" "t \<noteq> []" "\<not> isspace (hd t)"
  shows "dropWhile isspace (space @ t) = t"
proof -
  have "dropWhile isspace (space @ t) = dropWhile isspace t" using assms(1) by (simp add: list_all_iff dropWhile_append)
  then show ?thesis using assms(2,3) by (cases t) simp_all
qed

lemma skip_0x_text:
  assumes "hex_text s" "prefix \<in> {[], ''0x'', ''0X''}"
  shows "skip_0x (prefix @ s) = s"
proof (cases "prefix = []")
  case True
  show ?thesis
  proof (cases s rule: skip_0x.cases)
    case (1 a b s')
    then show ?thesis using True hex_text_chars [OF assms(1), of b] by simp
  qed (simp_all add: True)
qed (use assms(2) in auto)

lemma prefixed_start:
  assumes "hex_text s" "prefix \<in> {[], ''0x'', ''0X''}"
  shows "prefix @ s \<noteq> []" "\<not> isspace (hd (prefix @ s))" "CHR '':'' \<notin> set (prefix @ s)"
  using assms hex_text_head [OF assms(1)] hex_text_chars(1) [OF assms(1)]
  by (auto simp: hex_text_def isspace_def code_of_def hd_append)

lemma normalize_decorated:
  assumes s: "hex_text s" and d: "decoration_ok space label space' prefix" and len: "length (digits_of s) < 256"
  shows "file_checksum_normalize (Some (decorated space label space' prefix s)) 256 = digits_of s"
proof -
  have p: "prefix \<in> {[], ''0x'', ''0X''}" and sp: "list_all isspace space" "list_all isspace space'"
    and lab: "list_all isalnum label" "length label < 16" using d by (simp_all add: decoration_ok_def)
  note st = prefixed_start [OF s p]
  have al: "isalnum c \<Longrightarrow> \<not> isspace c \<and> c \<noteq> CHR '':''" for c
    by (auto simp: isalnum_def isalpha_def isupper_def islower_def isdigit_def isspace_def code_of_def)
  have "skip_label (dropWhile isspace (decorated space label space' prefix s)) = prefix @ s"
  proof (cases "label = []")
    case True
    then have "strchr (prefix @ s) CHR '':'' = None" using st(3) by (simp add: strchr_None)
    then show ?thesis using True drop_space [OF sp(1) st(1,2)] by (simp add: decorated_def skip_label_def)
  next
    case False
    have "CHR '':'' \<notin> set label" "\<not> isspace (hd label)" using lab(1) al hd_in_set [OF False] by (auto simp: list_all_iff)
    then have "dropWhile isspace (decorated space label space' prefix s) = label @ CHR '':'' # space' @ prefix @ s"
      using False drop_space [OF sp(1), of "label @ CHR '':'' # space' @ prefix @ s"] by (simp add: decorated_def)
    moreover have "strchr (label @ CHR '':'' # space' @ prefix @ s) CHR '':'' = Some (CHR '':'' # space' @ prefix @ s)"
      using \<open>CHR '':'' \<notin> set label\<close> by (rule strchr_append)
    moreover have "upto_suffix (label @ CHR '':'' # space' @ prefix @ s) (CHR '':'' # space' @ prefix @ s) = label"
      by (simp add: upto_suffix_def)
    ultimately show ?thesis using False lab drop_space [OF sp(2) st(1,2)] by (simp add: skip_label_def)
  qed
  then show ?thesis using skip_0x_text [OF s p] copy_digits_take [of 256 "[]" s] len by (simp add: file_checksum_normalize_def)
qed

lemma hex_bytes_length: "length (hex_bytes bs) = 2 * length bs"
  by (induction bs) simp_all

lemma normalize_hex:
  assumes "bs \<noteq> []" "length bs < 128"
  shows "file_checksum_normalize (Some (hex_bytes bs)) 256 = hex_bytes bs"
  using normalize_decorated [OF hex_bytes_text(1) [OF assms(1)], of "[]" "[]" "[]" "[]"] assms(2)
  by (simp add: decoration_ok_def decorated_def hex_bytes_text(2) hex_bytes_length)

subsection \<open>Properties\<close>

text \<open>C40. A checksum matches what a user pasted exactly when the digests are equal: white space around, a label such as
  sha256:, a prefix 0x, capital digits, and blanks or dashes between the digits make no difference, and two
  different digests never match.\<close>

theorem checksum_matches_iff:
  assumes "a \<noteq> []" "b \<noteq> []" "length a < 128" "length b < 128"
    and "hex_text s" "digits_of s = hex_bytes b" "decoration_ok space label space' prefix"
  shows "file_checksum_matches (bytes_to_lower_hex a) (Some (decorated space label space' prefix s)) \<longleftrightarrow> a = b"
proof -
  have "length (digits_of s) < 256" using assms(4,6) by (simp add: hex_bytes_length)
  note n = normalize_decorated [OF assms(5,7) this]
  have "hex_bytes b \<noteq> []" using assms(2) by (cases b) simp_all
  then show ?thesis using n assms(1,6) normalize_hex [OF assms(1,3)] hex_bytes_inj [of a b]
    by (auto simp: file_checksum_matches_def bytes_to_lower_hex_def)
qed

theorem checksum_matches_iff_witness:
  "file_checksum_matches (bytes_to_lower_hex [0xAB, 0x0C]) (Some ('' sha256: 0xAB-0C''))
   \<and> \<not> file_checksum_matches (bytes_to_lower_hex [0xAB, 0x0D]) (Some ('' sha256: 0xAB-0C''))"
proof -
  have d: "decorated '' '' ''sha256'' '' '' ''0x'' ''AB-0C'' = '' sha256: 0xAB-0C''" by (simp add: decorated_def)
  have s: "hex_text ''AB-0C''" by (simp add: hex_text_def any_hex_def separator_def)
  have h: "digits_of ''AB-0C'' = hex_bytes [0xAB, 0x0C]" by code_simp
  have k: "decoration_ok '' '' ''sha256'' '' '' ''0x''" by code_simp
  show ?thesis
    using checksum_matches_iff [OF _ _ _ _ s h k, of "[0xAB, 0x0C]"] checksum_matches_iff [OF _ _ _ _ s h k, of "[0xAB, 0x0D]"]
    by (simp add: d)
qed

end
