(* ===== verification/Watchers.thy ===== *)
theory Watchers
  imports Job "HOL-Library.Multiset"
begin

text \<open>
  The downloads whose progress somebody watches, \<^verbatim>\<open>src/src/download.c\<close>: a growing array of ids with
  counts.  The calls are serialised by a mutex, which the first watch creates.
\<close>

subsection \<open>The array\<close>

record ProgressWatcher =
  pw_id :: string
  pw_refcount :: u32

record progress_watchers =
  wt_mutex :: bool
  wt_items :: "ProgressWatcher list"
  wt_capacity :: nat

definition no_watchers :: progress_watchers where
  "no_watchers = \<lparr>wt_mutex = False, wt_items = [], wt_capacity = 0\<rparr>"

abbreviation (input) AVAR_DL_ID_BUF_SIZE :: nat where "AVAR_DL_ID_BUF_SIZE \<equiv> 64"

definition progress_watchers_init :: "progress_watchers \<Rightarrow> progress_watchers" where
  "progress_watchers_init w = w\<lparr>wt_mutex := True\<rparr>"

fun watcher_loop :: "ProgressWatcher list \<Rightarrow> string \<Rightarrow> nat \<Rightarrow> nat option" where
  "watcher_loop [] v i = None"
| "watcher_loop (x # xs) v i = (if pw_id x = v then Some i else watcher_loop xs v (Suc i))"

definition progress_watcher_index :: "progress_watchers \<Rightarrow> cstring \<Rightarrow> nat option" where
  "progress_watcher_index w v = (case v of None \<Rightarrow> None | Some v \<Rightarrow> watcher_loop (wt_items w) v 0)"

text \<open>\<open>realloc_ok\<close> answers the allocation of a number of entries.\<close>

definition progress_watchers_grow :: "(nat \<Rightarrow> bool) \<Rightarrow> progress_watchers \<Rightarrow> bool \<times> progress_watchers" where
  "progress_watchers_grow realloc_ok w =
     (let next_capacity = (if wt_capacity w = 0 then 8 else wt_capacity w * 2)
      in if realloc_ok next_capacity then (True, w\<lparr>wt_capacity := next_capacity\<rparr>) else (False, w))"

text \<open>The result tells whether \<open>download_progress_notify_watch\<close> is called afterwards.\<close>

definition download_progress_watch :: "(nat \<Rightarrow> bool) \<Rightarrow> cstring \<Rightarrow> progress_watchers \<Rightarrow> bool \<times> progress_watchers" where
  "download_progress_watch realloc_ok v w =
     (if v = None \<or> v = Some [] then (False, w)
      else let w = progress_watchers_init w
           in case progress_watcher_index w v of
                Some i \<Rightarrow> (True, w\<lparr>wt_items := (wt_items w)[i := (wt_items w ! i)\<lparr>pw_refcount := pw_refcount (wt_items w ! i) + 1\<rparr>]\<rparr>)
              | None \<Rightarrow>
                  let (grown, w) = (if length (wt_items w) \<ge> wt_capacity w then progress_watchers_grow realloc_ok w else (True, w))
                  in if \<not> grown then (False, w)
                     else (True, w\<lparr>wt_items := wt_items w @ [\<lparr>pw_id = take (AVAR_DL_ID_BUF_SIZE - 1) (the v), pw_refcount = 1\<rparr>]\<rparr>))"

definition download_progress_unwatch :: "cstring \<Rightarrow> progress_watchers \<Rightarrow> progress_watchers" where
  "download_progress_unwatch v w =
     (if v = None \<or> v = Some [] \<or> \<not> wt_mutex w then w
      else case progress_watcher_index w v of
             None \<Rightarrow> w
           | Some i \<Rightarrow>
               let items = wt_items w; entry = items ! i; final = length items - 1
               in if pw_refcount entry > 1 then w\<lparr>wt_items := items[i := entry\<lparr>pw_refcount := pw_refcount entry - 1\<rparr>]\<rparr>
                  else w\<lparr>wt_items := butlast (if i \<noteq> final then items[i := items ! final] else items)\<rparr>)"

definition download_progress_is_watched :: "cstring \<Rightarrow> progress_watchers \<Rightarrow> bool" where
  "download_progress_is_watched v w \<longleftrightarrow>
     (if v = None \<or> v = Some [] \<or> \<not> wt_mutex w then False else progress_watcher_index w v \<noteq> None)"

text \<open>A watched job writes its record at once.\<close>

definition download_progress_notify_watch :: "env \<Rightarrow> cstring \<Rightarrow> DownloadJob option \<Rightarrow> DownloadJob option" where
  "download_progress_notify_watch e v active =
     (if v = None \<or> v = Some [] then active
      else map_option (\<lambda>job. dm_item_upsert e job
             (case ds_status (j_state job) of Some s \<Rightarrow> if download_status_is_valid (Some s) then s else ''downloading''
              | None \<Rightarrow> ''downloading'')) active)"

subsection \<open>The counts\<close>

text \<open>How often an id is watched.\<close>

definition watch_count :: "progress_watchers \<Rightarrow> string \<Rightarrow> nat" where
  "watch_count w v = (case progress_watcher_index w (Some v) of None \<Rightarrow> 0 | Some i \<Rightarrow> unat (pw_refcount (wt_items w ! i)))"

definition watchers_good :: "progress_watchers \<Rightarrow> bool" where
  "watchers_good w \<longleftrightarrow> distinct (map pw_id (wt_items w)) \<and> (\<forall>x\<in>set (wt_items w). 0 < pw_refcount x)
     \<and> length (wt_items w) \<le> wt_capacity w \<and> (wt_items w \<noteq> [] \<longrightarrow> wt_mutex w)"

definition short_id :: "string \<Rightarrow> bool" where
  "short_id v \<longleftrightarrow> v \<noteq> [] \<and> length v < AVAR_DL_ID_BUF_SIZE"

lemma watcher_loop_None: "watcher_loop xs v i = None \<longleftrightarrow> v \<notin> set (map pw_id xs)"
  by (induction xs arbitrary: i) auto

lemma watcher_loop_Some: "watcher_loop xs v i = Some j \<Longrightarrow> i \<le> j \<and> j - i < length xs \<and> pw_id (xs ! (j - i)) = v"
proof (induction xs arbitrary: i)
  case (Cons x xs)
  show ?case
  proof (cases "pw_id x = v")
    case False
    then have h: "Suc i \<le> j \<and> j - Suc i < length xs \<and> pw_id (xs ! (j - Suc i)) = v" using Cons by simp
    then have "j - i = Suc (j - Suc i)" by linarith
    then show ?thesis using h by simp
  qed (use Cons in simp)
qed simp

lemma watcher_loop_nth:
  assumes "distinct (map pw_id xs)" "j < length xs"
  shows "watcher_loop xs (pw_id (xs ! j)) i = Some (i + j)"
  using assms
proof (induction xs arbitrary: i j)
  case (Cons x xs)
  show ?case
  proof (cases j)
    case (Suc k)
    then have "pw_id (xs ! k) \<in> set (map pw_id xs)" using Cons.prems by simp
    then have "pw_id x \<noteq> pw_id (xs ! k)" using Cons.prems by auto
    then show ?thesis using Cons Suc by simp
  qed simp
qed simp

lemma count_of_entry:
  assumes "distinct (map pw_id (wt_items w))" "x \<in> set (wt_items w)"
  shows "watch_count w (pw_id x) = unat (pw_refcount x)"
proof -
  obtain j where j: "j < length (wt_items w)" "x = wt_items w ! j" using assms(2) by (auto simp: in_set_conv_nth)
  then show ?thesis using watcher_loop_nth [OF assms(1) j(1), of 0] by (simp add: watch_count_def progress_watcher_index_def)
qed

lemma count_of_nobody: "v \<notin> pw_id ` set (wt_items w) \<Longrightarrow> watch_count w v = 0"
  using watcher_loop_None [of "wt_items w" v 0] by (simp add: watch_count_def progress_watcher_index_def)

text \<open>Two arrays with the same entries for an id give the same count.\<close>

lemma same_count:
  assumes "distinct (map pw_id (wt_items w))" "distinct (map pw_id (wt_items w'))"
    and "\<And>x. pw_id x = v \<Longrightarrow> x \<in> set (wt_items w') \<longleftrightarrow> x \<in> set (wt_items w)"
  shows "watch_count w' v = watch_count w v"
proof (cases "v \<in> pw_id ` set (wt_items w)")
  case True
  then obtain x where x: "x \<in> set (wt_items w)" "pw_id x = v" by auto
  then have "x \<in> set (wt_items w')" using assms(3) by blast
  then show ?thesis using count_of_entry [OF assms(1) x(1)] count_of_entry [OF assms(2)] x(2) by metis
next
  case False
  then have "v \<notin> pw_id ` set (wt_items w')" using assms(3) by (auto simp: image_iff)
  then show ?thesis using False by (simp add: count_of_nobody)
qed

lemma mset_swap_out:
  assumes "i < length xs"
  shows "mset (butlast (if i \<noteq> length xs - 1 then xs[i := xs ! (length xs - 1)] else xs)) = mset xs - {# xs ! i #}"
proof -
  obtain ys z where xs: "xs = ys @ [z]" using assms by (cases xs rule: rev_cases) auto
  show ?thesis
  proof (cases "i = length ys")
    case False
    then have i: "i < length ys" using assms xs by simp
    then have "(ys @ [z])[i := z] = ys[i := z] @ [z]" by (simp add: list_update_append)
    moreover have "mset ys = add_mset (ys ! i) (mset ys - {# ys ! i #})" using i by simp
    ultimately show ?thesis using i xs False mset_update [OF i, of z] by (auto simp: nth_append)
  qed (simp add: xs)
qed

lemma watch_effect:
  assumes g: "watchers_good w" and v: "short_id v" and ok: "\<And>n. realloc_ok n" and room: "watch_count w v + 1 < 2 ^ 32"
    and run: "download_progress_watch realloc_ok (Some v) w = (told, w')"
  shows "watchers_good w' \<and> wt_mutex w' \<and> watch_count w' u = watch_count w u + (if u = v then 1 else 0)"
proof -
  have d: "distinct (map pw_id (wt_items w))" using g by (simp add: watchers_good_def)
  have v': "v \<noteq> []" "take 63 v = v" using v by (simp_all add: short_id_def)
  show ?thesis
  proof (cases "watcher_loop (wt_items w) v 0")
    case (Some i)
    note s = watcher_loop_Some [OF Some]
    define x where "x = (wt_items w ! i)\<lparr>pw_refcount := pw_refcount (wt_items w ! i) + 1\<rparr>"
    have w': "w' = w\<lparr>wt_mutex := True, wt_items := (wt_items w)[i := x]\<rparr>"
      using run Some v' by (simp add: download_progress_watch_def progress_watchers_init_def progress_watcher_index_def x_def)
    have i: "i < length (wt_items w)" "pw_id (wt_items w ! i) = v" "pw_id x = v" using s by (simp_all add: x_def)
    have d': "distinct (map pw_id (wt_items w'))"
      using d i by (simp add: w' map_update) (metis list_update_id nth_map)
    have c: "watch_count w v = unat (pw_refcount (wt_items w ! i))" using count_of_entry [OF d nth_mem [OF i(1)]] i(2) by simp
    have "unat (pw_refcount (wt_items w ! i) + 1) = unat (pw_refcount (wt_items w ! i)) + 1"
      using room c by (simp add: unat_word_ariths)
    then have n: "unat (pw_refcount x) = watch_count w v + 1" by (simp add: x_def c)
    then have "0 < pw_refcount x" by (simp add: word_less_nat_alt)
    then have "watchers_good w'"
      using g d' set_update_subset_insert [of "wt_items w" i x] by (auto simp: watchers_good_def w')
    moreover have "watch_count w' v = watch_count w v + 1"
      using count_of_entry [OF d', of x] i n set_update_memI [OF i(1), of x] by (simp add: w')
    moreover have "watch_count w' u = watch_count w u" if "u \<noteq> v"
    proof (rule same_count [OF d d'])
      fix y :: ProgressWatcher assume y: "pw_id y = u"
      show "y \<in> set (wt_items w') \<longleftrightarrow> y \<in> set (wt_items w)"
        using y that i by (auto simp: w' in_set_conv_nth nth_list_update)
    qed
    ultimately show ?thesis by (simp add: w')
  next
    case None
    then have nv: "v \<notin> pw_id ` set (wt_items w)" by (simp add: watcher_loop_None)
    obtain cap where w': "w' = w\<lparr>wt_mutex := True, wt_capacity := cap, wt_items := wt_items w @ [\<lparr>pw_id = v, pw_refcount = 1\<rparr>]\<rparr>"
      "length (wt_items w) < cap"
    proof (cases "length (wt_items w) \<ge> wt_capacity w")
      case True
      then have "wt_capacity w = length (wt_items w)" using g by (simp add: watchers_good_def)
      then show ?thesis using run None v' ok that [of "if wt_capacity w = 0 then 8 else wt_capacity w * 2"]
        by (auto simp: download_progress_watch_def progress_watchers_init_def progress_watcher_index_def progress_watchers_grow_def Let_def)
    next
      case False
      then show ?thesis using run None v' that [of "wt_capacity w"]
        by (simp add: download_progress_watch_def progress_watchers_init_def progress_watcher_index_def)
    qed
    have d': "distinct (map pw_id (wt_items w'))" using d nv by (simp add: w'(1))
    have "watchers_good w'" using g d' w'(2) by (auto simp: watchers_good_def w'(1))
    moreover have "watch_count w' v = 1" using count_of_entry [OF d', of "\<lparr>pw_id = v, pw_refcount = 1\<rparr>"] by (simp add: w'(1))
    moreover have "watch_count w' u = watch_count w u" if "u \<noteq> v"
      by (rule same_count [OF d d']) (use that in \<open>auto simp: w'(1)\<close>)
    ultimately show ?thesis using count_of_nobody [OF nv] by (simp add: w'(1))
  qed
qed

lemma unwatch_effect:
  assumes g: "watchers_good w" and v: "short_id v"
  shows "watchers_good (download_progress_unwatch (Some v) w)
    \<and> watch_count (download_progress_unwatch (Some v) w) u = watch_count w u - (if u = v then 1 else 0)"
proof -
  let ?w = "download_progress_unwatch (Some v) w"
  have d: "distinct (map pw_id (wt_items w))" using g by (simp add: watchers_good_def)
  have v': "v \<noteq> []" using v by (simp add: short_id_def)
  show ?thesis
  proof (cases "watcher_loop (wt_items w) v 0")
    case None
    then have "?w = w" by (simp add: download_progress_unwatch_def progress_watcher_index_def)
    moreover have "watch_count w v = 0" using None by (intro count_of_nobody) (simp add: watcher_loop_None)
    ultimately show ?thesis using g by auto
  next
    case (Some i)
    note s = watcher_loop_Some [OF Some]
    have i: "i < length (wt_items w)" "pw_id (wt_items w ! i) = v" using s by simp_all
    have m: "wt_mutex w" using g i(1) by (auto simp: watchers_good_def)
    let ?x = "wt_items w ! i"
    have c: "watch_count w v = unat (pw_refcount ?x)" using count_of_entry [OF d nth_mem [OF i(1)]] i(2) by simp
    show ?thesis
    proof (cases "pw_refcount ?x > 1")
      case True
      define x where "x = ?x\<lparr>pw_refcount := pw_refcount ?x - 1\<rparr>"
      have w': "?w = w\<lparr>wt_items := (wt_items w)[i := x]\<rparr>"
        using Some v' m True by (simp add: download_progress_unwatch_def progress_watcher_index_def x_def Let_def)
      have px: "pw_id x = v" using i by (simp add: x_def)
      have d': "distinct (map pw_id (wt_items ?w))"
        using d i px by (simp add: w' map_update) (metis list_update_id nth_map)
      have n: "unat (pw_refcount x) = watch_count w v - 1" using True c by (simp add: x_def word_less_nat_alt unat_sub word_le_nat_alt)
      then have "0 < pw_refcount x" using True c by (simp add: word_less_nat_alt)
      then have "watchers_good ?w"
        using g d' set_update_subset_insert [of "wt_items w" i x] by (auto simp: watchers_good_def w')
      moreover have "watch_count ?w v = watch_count w v - 1"
        using count_of_entry [OF d', of x] px n set_update_memI [OF i(1), of x] by (simp add: w')
      moreover have "watch_count ?w u = watch_count w u" if "u \<noteq> v"
      proof (rule same_count [OF d d'])
        fix y :: ProgressWatcher assume y: "pw_id y = u"
        show "y \<in> set (wt_items ?w) \<longleftrightarrow> y \<in> set (wt_items w)"
          using y that i px by (auto simp: w' in_set_conv_nth nth_list_update)
      qed
      ultimately show ?thesis by simp
    next
      case False
      let ?items = "butlast (if i \<noteq> length (wt_items w) - 1 then (wt_items w)[i := wt_items w ! (length (wt_items w) - 1)] else wt_items w)"
      have w': "?w = w\<lparr>wt_items := ?items\<rparr>"
        using Some v' m False by (simp add: download_progress_unwatch_def progress_watcher_index_def Let_def)
      note ms = mset_swap_out [OF i(1)]
      have dx: "distinct (wt_items w)" using d by (simp add: distinct_map)
      have "count (mset (wt_items w)) ?x = 1" using dx i(1) by (simp add: distinct_count_atmost_1)
      then have st: "set ?items = set (wt_items w) - {?x}"
        using arg_cong [OF ms, of set_mset] by (auto simp: in_diff_count count_eq_zero_iff split: if_splits)
      have len: "length ?items = length (wt_items w) - 1" by simp
      have "mset (?items @ [?x]) = mset (wt_items w)" using ms i(1) by simp
      then have "mset (map pw_id (?items @ [?x])) = mset (map pw_id (wt_items w))" by (simp only: mset_map)
      then have "distinct (map pw_id (?items @ [?x]))" using d mset_eq_imp_distinct_iff by blast
      then have d': "distinct (map pw_id (wt_items ?w))" unfolding w' by simp
      have "watchers_good ?w" using g d' st len m by (auto simp: watchers_good_def w')
      moreover have "watch_count ?w v = 0"
      proof (rule count_of_nobody)
        have "inj_on pw_id (set (wt_items w))" using d by (simp add: distinct_map)
        then have "y = ?x" if "y \<in> set (wt_items w)" "pw_id y = v" for y
          using that i nth_mem [OF i(1)] by (metis inj_onD)
        then show "v \<notin> pw_id ` set (wt_items ?w)" using st by (auto simp: w')
      qed
      moreover have "watch_count ?w u = watch_count w u" if "u \<noteq> v"
        by (rule same_count [OF d d']) (use that i st in \<open>auto simp: w'\<close>)
      moreover have "watch_count w v \<le> 1" using False c by (simp add: word_less_nat_alt)
      ultimately show ?thesis by auto
    qed
  qed
qed

subsection \<open>Properties\<close>

datatype watch_call = Watch string | Unwatch string

fun call_watchers :: "watch_call \<Rightarrow> progress_watchers \<Rightarrow> progress_watchers" where
  "call_watchers (Watch v) w = snd (download_progress_watch (\<lambda>_. True) (Some v) w)"
| "call_watchers (Unwatch v) w = download_progress_unwatch (Some v) w"

fun call_id :: "watch_call \<Rightarrow> string" where
  "call_id (Watch v) = v"
| "call_id (Unwatch v) = v"

text \<open>The number of watches that were not taken back: an unwatch of an id that nobody watches is lost.\<close>

fun watches_of :: "string \<Rightarrow> nat \<Rightarrow> watch_call list \<Rightarrow> nat" where
  "watches_of u n [] = n"
| "watches_of u n (Watch v # cs) = watches_of u (if u = v then n + 1 else n) cs"
| "watches_of u n (Unwatch v # cs) = watches_of u (if u = v then n - 1 else n) cs"

lemma calls_count:
  assumes "\<forall>c\<in>set cs. short_id (call_id c)"
  shows "watchers_good w \<Longrightarrow> (\<And>v. watch_count w v + length cs < 2 ^ 32) \<Longrightarrow>
    watchers_good (fold call_watchers cs w) \<and> watch_count (fold call_watchers cs w) u = watches_of u (watch_count w u) cs"
  using assms
proof (induction cs arbitrary: w)
  case (Cons c cs)
  have s: "short_id (call_id c)" and ss: "\<forall>c\<in>set cs. short_id (call_id c)" using Cons.prems(3) by simp_all
  show ?case
  proof (cases c)
    case (Watch v)
    obtain told w' where r: "download_progress_watch (\<lambda>_. True) (Some v) w = (told, w')" by fastforce
    have room: "watch_count w v + 1 < 2 ^ 32" using Cons.prems(2) [of v] by simp
    have e: "watchers_good w' \<and> watch_count w' x = watch_count w x + (if x = v then 1 else 0)" for x
      using watch_effect [OF Cons.prems(1) _ _ room r, of x] s Watch by simp
    have "watch_count w' x + length cs < 2 ^ 32" for x using e [of x] Cons.prems(2) [of x] by (cases "x = v") simp_all
    then have "watchers_good (fold call_watchers cs w') \<and> watch_count (fold call_watchers cs w') u = watches_of u (watch_count w' u) cs"
      using Cons.IH [of w'] e ss by blast
    then show ?thesis using e [of u] r Watch by auto
  next
    case (Unwatch v)
    let ?w' = "download_progress_unwatch (Some v) w"
    have e: "watchers_good ?w' \<and> watch_count ?w' x = watch_count w x - (if x = v then 1 else 0)" for x
      using unwatch_effect [OF Cons.prems(1), of v x] s Unwatch by simp
    have "watch_count ?w' x + length cs < 2 ^ 32" for x using e [of x] Cons.prems(2) [of x] by simp
    then have "watchers_good (fold call_watchers cs ?w') \<and> watch_count (fold call_watchers cs ?w') u = watches_of u (watch_count ?w' u) cs"
      using Cons.IH [of ?w'] e ss by blast
    then show ?thesis using e [of u] Unwatch by auto
  qed
qed simp

lemma is_watched_count:
  assumes "watchers_good w" "v \<noteq> []"
  shows "download_progress_is_watched (Some v) w \<longleftrightarrow> 0 < watch_count w v"
proof (cases "watcher_loop (wt_items w) v 0")
  case None
  then show ?thesis by (auto simp: download_progress_is_watched_def watch_count_def progress_watcher_index_def)
next
  case (Some i)
  note s = watcher_loop_Some [OF Some]
  have "wt_items w ! i \<in> set (wt_items w)" using s by simp
  then have "0 < pw_refcount (wt_items w ! i)" "wt_mutex w" using assms(1) by (auto simp: watchers_good_def)
  then show ?thesis using Some assms(2)
    by (simp add: download_progress_is_watched_def watch_count_def progress_watcher_index_def word_less_nat_alt)
qed

text \<open>C19. Watching counts: after any sequence of watches and unwatches (fewer than two to the 32, of ids that fit into the
  buffer, with memory for the array) a download is watched exactly when more watches than unwatches of it are open.\<close>

theorem watched_iff_open:
  assumes "\<forall>c\<in>set cs. short_id (call_id c)" "length cs < 2 ^ 32" "v \<noteq> []"
  shows "download_progress_is_watched (Some v) (fold call_watchers cs no_watchers) \<longleftrightarrow> 0 < watches_of v 0 cs"
proof -
  have g: "watchers_good no_watchers" by (simp add: watchers_good_def no_watchers_def)
  have c: "watch_count no_watchers u = 0" for u by (simp add: watch_count_def no_watchers_def progress_watcher_index_def)
  have "watchers_good (fold call_watchers cs no_watchers) \<and> watch_count (fold call_watchers cs no_watchers) v = watches_of v 0 cs"
    using calls_count [OF assms(1) g, of v] assms(2) c by simp
  then show ?thesis using is_watched_count [OF _ assms(3)] by simp
qed

theorem watched_iff_open_witness:
  "download_progress_is_watched (Some ''a'') (fold call_watchers [Watch ''a'', Watch ''b'', Watch ''a'', Unwatch ''a''] no_watchers)
   \<and> \<not> download_progress_is_watched (Some ''b'') (fold call_watchers [Watch ''a'', Watch ''b'', Watch ''a'', Unwatch ''b''] no_watchers)"
  using watched_iff_open [of "[Watch ''a'', Watch ''b'', Watch ''a'', Unwatch ''a'']" "''a''"]
    watched_iff_open [of "[Watch ''a'', Watch ''b'', Watch ''a'', Unwatch ''b'']" "''b''"]
  by (simp add: short_id_def)

text \<open>An id that does not fit into the buffer is stored cut, is never found again, and stays in the array.\<close>

lemma long_id_not_watched:
  assumes "64 \<le> length v" "\<And>n. realloc_ok n" "download_progress_watch realloc_ok (Some v) no_watchers = (told, w')"
  shows "\<not> download_progress_is_watched (Some v) w'" "length (wt_items w') = 1"
proof -
  have "take 63 v \<noteq> v"
  proof
    assume "take 63 v = v"
    from arg_cong [OF this, of length] show False using assms(1) by simp
  qed
  then show "\<not> download_progress_is_watched (Some v) w'" "length (wt_items w') = 1"
    using assms(2,3) by (auto simp: download_progress_watch_def no_watchers_def progress_watchers_init_def progress_watcher_index_def
        progress_watchers_grow_def download_progress_is_watched_def Let_def split: if_splits)
qed

end
